(* ===== verification/Prelude.thy ===== *)
theory Prelude
  imports Main "HOL-Library.Word" "HOL-Library.Finite_Map"
    "HOL-Library.List_Lexorder" "HOL-Library.Char_ord"
begin

text \<open>
  What the components share: the rule collections of the development, Go's 64-bit signed
  integers, reading a Go map (an absent key reads as the zero value), the sorted keys of a
  finite map, and decimal printing and parsing of integers (\<open>strconv.Itoa\<close> and
  \<open>strconv.Atoi\<close>).

  Go's \<open>int\<close> and \<open>time.Duration\<close> are 64-bit two's complement. They are
  modelled as \<open>int\<close> with the wrap-around written out (\<open>i64\<close>) wherever the source
  adds, subtracts, multiplies or shifts; a comparison needs no wrapping.
\<close>

named_theorems go_arith
  \<open>unfolding of Go's wrapping integer operations inside their range\<close>
named_theorems eval_simps
  \<open>facts that let the simplifier evaluate the model on a concrete input\<close>

section \<open>64-bit signed integers\<close>

definition i64 :: "int \<Rightarrow> int" where
  "i64 x = (x + 2 ^ 63) mod 2 ^ 64 - 2 ^ 63"

definition is_i64 :: "int \<Rightarrow> bool" where
  "is_i64 x \<longleftrightarrow> - (2 ^ 63) \<le> x \<and> x < 2 ^ 63"

abbreviation max_i64 :: int where "max_i64 \<equiv> 9223372036854775807"
abbreviation min_i64 :: int where "min_i64 \<equiv> - 9223372036854775808"

lemma is_i64_iff: "is_i64 x \<longleftrightarrow> min_i64 \<le> x \<and> x \<le> max_i64"
  by (auto simp: is_i64_def)

lemma i64_id: "is_i64 x \<Longrightarrow> i64 x = x"
  by (simp add: i64_def is_i64_def)

lemma i64_range: "is_i64 (i64 x)"
proof -
  have "(x + 2 ^ 63) mod 2 ^ 64 < (2 ^ 64 :: int)" "0 \<le> (x + 2 ^ 63) mod (2 ^ 64 :: int)"
    by simp_all
  then show ?thesis by (simp add: i64_def is_i64_def)
qed

lemma i64_i64 [simp]: "i64 (i64 x) = i64 x"
  by (rule i64_id [OF i64_range])

text \<open>The wrap is the one of a 64-bit machine word read as two's complement.\<close>

lemma i64_word: "i64 x = sint (word_of_int x :: 64 word)"
  by (simp add: i64_def sint_sbintrunc' signed_take_bit_eq_take_bit_shift take_bit_eq_mod)

definition add64 :: "int \<Rightarrow> int \<Rightarrow> int" where "add64 a b = i64 (a + b)"
definition sub64 :: "int \<Rightarrow> int \<Rightarrow> int" where "sub64 a b = i64 (a - b)"
definition mul64 :: "int \<Rightarrow> int \<Rightarrow> int" where "mul64 a b = i64 (a * b)"
definition shl64 :: "int \<Rightarrow> nat \<Rightarrow> int" where "shl64 a n = i64 (a * 2 ^ n)"

lemma add64_exact [go_arith]: "is_i64 (a + b) \<Longrightarrow> add64 a b = a + b"
  by (simp add: add64_def i64_id)
lemma sub64_exact [go_arith]: "is_i64 (a - b) \<Longrightarrow> sub64 a b = a - b"
  by (simp add: sub64_def i64_id)
lemma mul64_exact [go_arith]: "is_i64 (a * b) \<Longrightarrow> mul64 a b = a * b"
  by (simp add: mul64_def i64_id)
lemma shl64_exact [go_arith]: "is_i64 (a * 2 ^ n) \<Longrightarrow> shl64 a n = a * 2 ^ n"
  by (simp add: shl64_def i64_id)

lemma shl64_0 [simp]: "is_i64 a \<Longrightarrow> shl64 a 0 = a"
  by (simp add: shl64_def i64_id)

text \<open>Go's \<open>/\<close> and \<open>%\<close> on integers truncate towards zero.\<close>

definition quot :: "int \<Rightarrow> int \<Rightarrow> int" where
  "quot a b = sgn a * sgn b * (\<bar>a\<bar> div \<bar>b\<bar>)"
definition rem :: "int \<Rightarrow> int \<Rightarrow> int" where
  "rem a b = a - b * quot a b"

lemma quot_nonneg: "0 \<le> a \<Longrightarrow> 0 < b \<Longrightarrow> quot a b = a div b"
  by (cases "a = 0") (simp_all add: quot_def)

lemma rem_nonneg: "0 \<le> a \<Longrightarrow> 0 < b \<Longrightarrow> rem a b = a mod b"
  by (simp add: rem_def quot_nonneg minus_mult_div_eq_mod)

lemma quot_neg: "a < 0 \<Longrightarrow> 0 < b \<Longrightarrow> quot a b = - ((- a) div b)"
  by (simp add: quot_def)

lemma rem_neg: "a < 0 \<Longrightarrow> 0 < b \<Longrightarrow> rem a b = - ((- a) mod b)"
  by (simp add: rem_def quot_neg algebra_simps minus_mult_div_eq_mod [symmetric])

section \<open>Go maps\<close>

text \<open>
  A \<open>map[string]string\<close> that is only read and written by key is a partial function. A
  nil map and an empty one read the same. \<open>m[k]\<close> of an absent key is the zero value.
\<close>

type_synonym annots = "string \<rightharpoonup> string"

definition aget :: "annots \<Rightarrow> string \<Rightarrow> string" where
  "aget m k = (case m k of None \<Rightarrow> '''' | Some v \<Rightarrow> v)"

definition adel :: "annots \<Rightarrow> string \<Rightarrow> annots" where
  "adel m k = m(k := None)"

lemma aget_upd [simp]: "aget (m(k \<mapsto> v)) j = (if j = k then v else aget m j)"
  by (simp add: aget_def)
lemma aget_adel [simp]: "aget (adel m k) j = (if j = k then '''' else aget m j)"
  by (simp add: aget_def adel_def)
lemma aget_empty [simp]: "aget Map.empty k = ''''"
  by (simp add: aget_def)
lemma adel_apply [simp]: "adel m k j = (if j = k then None else m j)"
  by (simp add: adel_def)

text \<open>
  A map whose keys are iterated is an \<open>fmap\<close>, so that \<open>slices.Sorted(maps.Keys(m))\<close>
  is computable.
\<close>

definition sorted_keys :: "('k::linorder, 'v) fmap \<Rightarrow> 'k list" where
  "sorted_keys m = sorted_list_of_fset (fmdom m)"

lemma set_sorted_keys [simp]: "set (sorted_keys m) = fmdom' m"
  by (simp add: sorted_keys_def fmdom'_alt_def)
lemma sorted_sorted_keys [simp]: "sorted (sorted_keys m)"
  by (simp add: sorted_keys_def sorted_list_of_fset.rep_eq)
lemma distinct_sorted_keys [simp]: "distinct (sorted_keys m)"
  by (simp add: sorted_keys_def sorted_list_of_fset.rep_eq)

lemma sorted_keys_of_list [eval_simps]:
  "sorted_keys (fmap_of_list xs) = sort (remdups (map fst xs))"
proof -
  have "sorted_keys (fmap_of_list xs) = sorted_list_of_set (set (map fst xs))"
    by (simp add: sorted_keys_def sorted_list_of_fset.rep_eq fset_of_list.rep_eq)
  then show ?thesis by (simp only: sorted_list_of_set_sort_remdups)
qed

section \<open>Decimal integers\<close>

definition digit_char :: "int \<Rightarrow> char" where
  "digit_char d = char_of (nat (48 + d))"

definition digit_val :: "char \<Rightarrow> int option" where
  "digit_val c = (let v = int (of_char c) - 48 in if 0 \<le> v \<and> v \<le> 9 then Some v else None)"

lemma digit_val_char: "0 \<le> d \<Longrightarrow> d \<le> 9 \<Longrightarrow> digit_val (digit_char d) = Some d"
  by (auto simp: digit_val_def digit_char_def nat_less_iff)

lemma digit_val_bounds: "digit_val c = Some v \<Longrightarrow> 0 \<le> v \<and> v \<le> 9"
  by (auto simp: digit_val_def Let_def split: if_splits)

fun digits_from :: "int \<Rightarrow> string \<Rightarrow> int option" where
  "digits_from acc [] = Some acc"
| "digits_from acc (c # cs) =
     (case digit_val c of None \<Rightarrow> None | Some d \<Rightarrow> digits_from (acc * 10 + d) cs)"

lemma digits_from_append:
  "digits_from acc (xs @ ys) = Option.bind (digits_from acc xs) (\<lambda>a. digits_from a ys)"
  by (induction xs arbitrary: acc) (auto split: option.splits)

lemma digits_from_nonneg: "digits_from acc s = Some v \<Longrightarrow> 0 \<le> acc \<Longrightarrow> 0 \<le> v"
  by (induction s arbitrary: acc) (auto split: option.splits dest: digit_val_bounds)

fun show_nat :: "nat \<Rightarrow> string" where
  "show_nat n =
     (if n < 10 then [digit_char (int n)] else show_nat (n div 10) @ [digit_char (int (n mod 10))])"

declare show_nat.simps [simp del]

definition Itoa :: "int \<Rightarrow> string" where
  "Itoa i = (if i < 0 then CHR ''-'' # show_nat (nat (- i)) else show_nat (nat i))"

text \<open>\<open>strconv.Atoi\<close>: an optional sign, at least one digit, and a value of 64 bits.\<close>

definition Atoi :: "string \<Rightarrow> int option" where
  "Atoi s =
     (case s of
        [] \<Rightarrow> None
      | c # cs \<Rightarrow>
          let neg = (c = CHR ''-''); ds = (if c = CHR ''-'' \<or> c = CHR ''+'' then cs else s)
          in if ds = [] then None
             else case digits_from 0 ds of
                    None \<Rightarrow> None
                  | Some v \<Rightarrow> let r = (if neg then - v else v) in if is_i64 r then Some r else None)"

lemma show_nat_nonempty [simp]: "show_nat n \<noteq> []"
  by (subst show_nat.simps) simp

lemma digits_from_show_nat: "digits_from 0 (show_nat n) = Some (int n)"
proof (induction n rule: show_nat.induct)
  case (1 n)
  show ?case
  proof (cases "n < 10")
    case True
    then show ?thesis
      by (subst show_nat.simps) (simp add: digit_val_char)
  next
    case False
    have m: "n mod 10 \<le> 9" using mod_less_divisor [of 10 n] by linarith
    have "int (n div 10) * 10 + int (n mod 10) = int n"
      by (metis div_mult_mod_eq of_nat_add of_nat_mult of_nat_numeral)
    with False 1 m show ?thesis
      by (subst show_nat.simps) (simp add: digits_from_append digit_val_char del: of_nat_mod)
  qed
qed

lemma show_nat_hd: "\<exists>d cs. show_nat n = digit_char d # cs \<and> 0 \<le> d \<and> d \<le> 9"
proof (induction n rule: show_nat.induct)
  case (1 n)
  show ?case
  proof (cases "n < 10")
    case True
    then show ?thesis by (subst show_nat.simps) auto
  next
    case False
    with 1 obtain d cs where "show_nat (n div 10) = digit_char d # cs" "0 \<le> d" "d \<le> 9"
      by blast
    with False show ?thesis by (subst show_nat.simps) auto
  qed
qed

lemma digit_char_not_sign: "0 \<le> d \<Longrightarrow> d \<le> 9 \<Longrightarrow> digit_char d \<noteq> CHR ''-'' \<and> digit_char d \<noteq> CHR ''+''"
  using digit_val_char [of d] by (auto simp: digit_val_def)

lemma Atoi_Itoa: "is_i64 n \<Longrightarrow> Atoi (Itoa n) = Some n"
proof -
  assume n: "is_i64 n"
  obtain d cs where d: "show_nat (nat n) = digit_char d # cs" "0 \<le> d" "d \<le> 9"
    using show_nat_hd by blast
  show ?thesis
  proof (cases "n < 0")
    case True
    then show ?thesis
      using n by (simp add: Itoa_def Atoi_def Let_def digits_from_show_nat)
  next
    case False
    then show ?thesis
      using n d digit_char_not_sign [OF d(2,3)] digits_from_show_nat [of "nat n"]
      by (simp add: Itoa_def Atoi_def Let_def)
  qed
qed

end
