(* ===== verification/GoTime.thy ===== *)
theory GoTime
  imports Prelude "HOL-Library.Monad_Syntax"
begin

text \<open>
  What the source uses of Go's \<open>time\<close> package: instants, durations, \<open>Sub\<close> (which
  saturates), \<open>Truncate\<close>, the proleptic Gregorian calendar, and the RFC 3339 layout in which
  every timestamp annotation is stored.

  An instant is the number of nanoseconds since 0001-01-01T00:00:00Z, the zero
  \<open>time.Time\<close>, so \<open>IsZero\<close> is equality with 0 and \<open>Add\<close>, \<open>Before\<close>,
  \<open>After\<close> and \<open>Equal\<close> are addition and comparison (Go keeps seconds in 64 bits and
  nanoseconds apart: no instant the controller handles overflows that). A duration is an
  \<open>int64\<close> of nanoseconds. \<open>Format\<close> prints in UTC, the zone of the controller's
  container image; monotonic clock readings are ignored.
\<close>

type_synonym time = int
type_synonym duration = int

abbreviation Second :: duration where "Second \<equiv> 1000000000"
abbreviation Minute :: duration where "Minute \<equiv> 60000000000"
abbreviation Hour :: duration where "Hour \<equiv> 3600000000000"

definition IsZero :: "time \<Rightarrow> bool" where
  "IsZero t \<longleftrightarrow> t = 0"

definition TimeSub :: "time \<Rightarrow> time \<Rightarrow> duration" where
  "TimeSub t u = (if is_i64 (t - u) then t - u else if t < u then min_i64 else max_i64)"

definition TruncateSecond :: "time \<Rightarrow> time" where
  "TruncateSecond t = t - t mod Second"

text \<open>A duration read through a pointer that defaulting always fills.\<close>

definition deref :: "duration option \<Rightarrow> duration" where
  "deref d = (case d of None \<Rightarrow> 0 | Some v \<Rightarrow> v)"

lemma TimeSub_range: "is_i64 (TimeSub t u)"
  by (simp add: TimeSub_def is_i64_def)

lemma TimeSub_exact [go_arith]: "is_i64 (t - u) \<Longrightarrow> TimeSub t u = t - u"
  by (simp add: TimeSub_def)

lemma TimeSub_mono: "t \<le> t' \<Longrightarrow> TimeSub t u \<le> TimeSub t' u"
  by (auto simp: TimeSub_def is_i64_def)

text \<open>Comparing a saturated difference with an in-range duration is exact on either side.\<close>

lemma TimeSub_less_iff:
  "is_i64 d \<Longrightarrow> min_i64 < d \<Longrightarrow> TimeSub t u < d \<longleftrightarrow> t < u + d"
  by (auto simp: TimeSub_def is_i64_def)

lemma TimeSub_ge_iff:
  "is_i64 d \<Longrightarrow> min_i64 < d \<Longrightarrow> d \<le> TimeSub t u \<longleftrightarrow> u + d \<le> t"
  using TimeSub_less_iff [of d t u] by auto

lemma TimeSub_gt_iff:
  "is_i64 d \<Longrightarrow> d < max_i64 \<Longrightarrow> d < TimeSub t u \<longleftrightarrow> u + d < t"
  by (auto simp: TimeSub_def is_i64_def)

section \<open>The calendar\<close>

lemma div_range: "0 < c \<Longrightarrow> c * (n div c) \<le> n \<and> n < c * (n div c) + c" for n c :: int
  using pos_mod_sign [of c n] pos_mod_bound [of c n] mult_div_mod_eq [of c n] by linarith

lemma div_bounds: "0 < c \<Longrightarrow> lo * c \<le> n \<Longrightarrow> n < hi * c \<Longrightarrow> lo \<le> n div c \<and> n div c < hi" for n c :: int
proof -
  assume c: "0 < c" "lo * c \<le> n" "n < hi * c"
  have "lo = lo * c div c" using c(1) by simp
  also have "\<dots> \<le> n div c" using c by (intro zdiv_mono1)
  finally have "lo \<le> n div c" .
  moreover have "n div c < hi"
  proof (rule ccontr)
    assume "\<not> n div c < hi"
    then have "c * hi \<le> c * (n div c)" using c(1) by simp
    with c(3) div_range [OF c(1), of n] show False by (simp add: mult.commute [of hi c])
  qed
  ultimately show ?thesis by simp
qed

definition is_leap :: "int \<Rightarrow> bool" where
  "is_leap y \<longleftrightarrow> y mod 4 = 0 \<and> (y mod 100 \<noteq> 0 \<or> y mod 400 = 0)"

definition month_lengths :: "bool \<Rightarrow> int list" where
  "month_lengths leap =
     [31, if leap then 29 else 28, 31, 30, 31, 30, 31, 31, 30, 31, 30, 31]"

definition daysIn :: "int \<Rightarrow> int \<Rightarrow> int" where
  "daysIn m y = month_lengths (is_leap y) ! nat (m - 1)"

definition days_before_year :: "int \<Rightarrow> int" where
  "days_before_year y = (let k = y - 1 in 365 * k + k div 4 - k div 100 + k div 400)"

definition days_before_month :: "int \<Rightarrow> int \<Rightarrow> int" where
  "days_before_month y m = sum_list (take (nat (m - 1)) (month_lengths (is_leap y)))"

text \<open>Days since 0001-01-01 of a civil date, and back (400-, 100-, 4- and 1-year cycles).\<close>

definition days_of_civil :: "int \<Rightarrow> int \<Rightarrow> int \<Rightarrow> int" where
  "days_of_civil y m d = days_before_year y + days_before_month y m + d - 1"

definition year_of_days :: "int \<Rightarrow> int \<times> int" where
  "year_of_days n =
     (let a = n div 146097; r = n mod 146097;
          b0 = r div 36524; b = b0 - b0 div 4; r2 = r - 36524 * b;
          c = r2 div 1461; r3 = r2 mod 1461;
          e0 = r3 div 365; e = e0 - e0 div 4
      in (400 * a + 100 * b + 4 * c + e + 1, r3 - 365 * e))"

fun month_of_yday :: "int \<Rightarrow> int list \<Rightarrow> int \<Rightarrow> int \<times> int" where
  "month_of_yday m [] d = (m, d + 1)"
| "month_of_yday m (l # ls) d = (if d < l then (m, d + 1) else month_of_yday (m + 1) ls (d - l))"

definition civil_of_days :: "int \<Rightarrow> int \<times> int \<times> int" where
  "civil_of_days n =
     (case year_of_days n of (y, yday) \<Rightarrow>
      case month_of_yday 1 (month_lengths (is_leap y)) yday of (m, d) \<Rightarrow> (y, m, d))"

lemma year_of_days_correct:
  assumes "year_of_days n = (y, yday)"
  shows "days_before_year y + yday = n" "0 \<le> yday" "yday < (if is_leap y then 366 else 365)"
proof -
  define a r where "a = n div 146097" and "r = n mod 146097"
  define b where "b = r div 36524 - (r div 36524) div 4"
  define r2 where "r2 = r - 36524 * b"
  define c r3 where "c = r2 div 1461" and "r3 = r2 mod 1461"
  define e where "e = r3 div 365 - (r3 div 365) div 4"
  have y: "y = 400 * a + 100 * b + 4 * c + e + 1" and yd: "yday = r3 - 365 * e"
    using assms unfolding year_of_days_def Let_def a_def [symmetric] r_def [symmetric] b_def [symmetric]
      r2_def [symmetric] c_def [symmetric] r3_def [symmetric] e_def [symmetric] by simp_all
  have n: "n = 146097 * a + r" "0 \<le> r" "r \<le> 146096" by (simp_all add: a_def r_def)
  have b: "0 \<le> b" "b \<le> 3" "0 \<le> r2" "r2 \<le> 36524" "b < 3 \<longrightarrow> r2 < 36524"
  proof -
    define q where "q = r div 36524"
    have q: "0 \<le> q" "q \<le> 4" "36524 * q \<le> r" "r < 36524 * q + 36524"
      using n div_range [of 36524 r] by (auto simp: q_def)
    have bq: "b = (if q = 4 then 3 else q)" using q by (auto simp: b_def q_def [symmetric])
    show "0 \<le> b" "b \<le> 3" "0 \<le> r2" "r2 \<le> 36524" "b < 3 \<longrightarrow> r2 < 36524"
      using q n unfolding r2_def bq by auto
  qed
  have c: "r2 = 1461 * c + r3" "0 \<le> r3" "r3 \<le> 1460" "0 \<le> c" "c \<le> 24"
    using b by (auto simp: c_def r3_def)
  have e: "0 \<le> e" "e \<le> 3" "0 \<le> r3 - 365 * e" "r3 - 365 * e \<le> 365" "e < 3 \<longrightarrow> r3 - 365 * e < 365"
  proof -
    define q where "q = r3 div 365"
    have q: "0 \<le> q" "q \<le> 4" "365 * q \<le> r3" "r3 < 365 * q + 365"
      using c div_range [of 365 r3] by (auto simp: q_def)
    have eq: "e = (if q = 4 then 3 else q)" using q by (auto simp: e_def q_def [symmetric])
    show "0 \<le> e" "e \<le> 3" "0 \<le> r3 - 365 * e" "r3 - 365 * e \<le> 365" "e < 3 \<longrightarrow> r3 - 365 * e < 365"
      using q c unfolding eq by auto
  qed
  have q4: "(400 * a + 100 * b + 4 * c + e) div 4 = 100 * a + 25 * b + c"
    by (rule int_div_pos_eq [where r = e]) (use e in simp_all)
  have q100: "(400 * a + 100 * b + 4 * c + e) div 100 = 4 * a + b"
    by (rule int_div_pos_eq [where r = "4 * c + e"]) (use c e in simp_all)
  have q400: "(400 * a + 100 * b + 4 * c + e) div 400 = a"
    by (rule int_div_pos_eq [where r = "100 * b + 4 * c + e"]) (use b c e in simp_all)
  show "days_before_year y + yday = n"
  proof -
    have k: "y - 1 = 400 * a + 100 * b + 4 * c + e" by (simp add: y)
    have "r = 36524 * b + 1461 * c + r3" using c(1) by (simp add: r2_def)
    then show ?thesis
      unfolding days_before_year_def Let_def k q4 q100 q400 yd n(1) by simp
  qed
  show "0 \<le> yday" using e yd by simp
  have "is_leap y" if "yday = 365"
  proof -
    have e3: "e = 3" and r3: "r3 = 1460" using that yd e c by auto
    have "b = 3" if "c = 24" using that b c r3 by linarith
    moreover have "y = 4 * (100 * a + 25 * b + c + 1)" by (simp add: y e3)
    then have "y mod 4 = 0" by simp
    moreover have "y mod 100 \<noteq> 0" if "c \<noteq> 24"
    proof -
      have "y = 4 * c + 4 + 100 * (4 * a + b)" by (simp add: y e3)
      then have "y mod 100 = (4 * c + 4) mod 100" by (simp only: mod_mult_self2)
      with that c(4,5) show ?thesis by simp
    qed
    moreover have "y mod 400 = 0" if "c = 24" "b = 3"
    proof -
      have "y = 400 * (a + 1)" by (simp add: y e3 that)
      then show ?thesis by simp
    qed
    ultimately show ?thesis by (cases "c = 24") (auto simp: is_leap_def)
  qed
  with e yd show "yday < (if is_leap y then 366 else 365)" by (cases "yday = 365") auto
qed

lemma month_of_yday_correct:
  assumes "month_of_yday k ls d = (m, dd)" "0 \<le> d" "d < sum_list ls"
  shows "k \<le> m \<and> m < k + int (length ls) \<and> sum_list (take (nat (m - k)) ls) + dd - 1 = d
     \<and> 1 \<le> dd \<and> dd \<le> ls ! nat (m - k)"
  using assms
proof (induction ls arbitrary: k d)
  case Nil
  then show ?case by simp
next
  case (Cons l ls)
  show ?case
  proof (cases "d < l")
    case True
    with Cons.prems show ?thesis by auto
  next
    case False
    with Cons.prems have "month_of_yday (k + 1) ls (d - l) = (m, dd)" "0 \<le> d - l" "d - l < sum_list ls"
      by auto
    note IH = Cons.IH [OF this]
    then have "nat (m - k) = Suc (nat (m - (k + 1)))" by auto
    with IH show ?thesis by auto
  qed
qed

lemma sum_month_lengths: "sum_list (month_lengths l) = (if l then 366 else 365)"
  by (simp add: month_lengths_def)

lemma civil_of_days_correct:
  assumes "civil_of_days n = (y, m, d)"
  shows "days_of_civil y m d = n" "1 \<le> m" "m \<le> 12" "1 \<le> d" "d \<le> daysIn m y"
proof -
  obtain yday where y: "year_of_days n = (y, yday)"
    and md: "month_of_yday 1 (month_lengths (is_leap y)) yday = (m, d)"
    using assms by (auto simp: civil_of_days_def split: prod.splits)
  note yc = year_of_days_correct [OF y]
  have mc: "1 \<le> m \<and> m < 1 + int (length (month_lengths (is_leap y)))
      \<and> sum_list (take (nat (m - 1)) (month_lengths (is_leap y))) + d - 1 = yday
      \<and> 1 \<le> d \<and> d \<le> month_lengths (is_leap y) ! nat (m - 1)"
    using month_of_yday_correct [OF md] yc by (simp add: sum_month_lengths)
  have "length (month_lengths (is_leap y)) = 12" by (simp add: month_lengths_def)
  with mc yc show "days_of_civil y m d = n" "1 \<le> m" "m \<le> 12" "1 \<le> d" "d \<le> daysIn m y"
    by (auto simp: days_of_civil_def days_before_month_def daysIn_def)
qed

section \<open>RFC 3339\<close>

text \<open>
  \<open>Format(time.RFC3339)\<close>: \<open>appendInt\<close> pads with zeros to the width given.
\<close>

definition appendInt :: "nat \<Rightarrow> int \<Rightarrow> string" where
  "appendInt w x =
     (let u = show_nat (nat \<bar>x\<bar>)
      in (if x < 0 then ''-'' else '''') @ replicate (w - length u) (CHR ''0'') @ u)"

definition rfc3339 :: "time \<Rightarrow> string" where
  "rfc3339 t =
     (let secs = t div Second; sod = secs mod 86400
      in case civil_of_days (secs div 86400) of (y, m, d) \<Rightarrow>
         appendInt 4 y @ ''-'' @ appendInt 2 m @ ''-'' @ appendInt 2 d @ ''T'' @
         appendInt 2 (sod div 3600) @ '':'' @ appendInt 2 (sod mod 3600 div 60) @ '':'' @
         appendInt 2 (sod mod 60) @ ''Z'')"

text \<open>
  \<open>time.Parse(time.RFC3339, s)\<close>, as a pipeline of the chunks of the layout. The fast path and
  the general layout parser Go falls back to are one function here: the general one accepts
  everything the fast path does, with the same result (a one-digit hour, a comma before the
  fraction and an offset of 24 hours or 60 minutes are what it accepts beyond it).
\<close>

definition lit :: "char \<Rightarrow> string \<Rightarrow> string option" where
  "lit c s = (case s of [] \<Rightarrow> None | x # xs \<Rightarrow> if x = c then Some xs else None)"

definition getnum2 :: "string \<Rightarrow> (int \<times> string) option" where
  "getnum2 s = (if length s < 2 then None
     else map_option (\<lambda>v. (v, drop 2 s)) (digits_from 0 (take 2 s)))"

definition getnum4 :: "string \<Rightarrow> (int \<times> string) option" where
  "getnum4 s = (if length s < 4 then None
     else map_option (\<lambda>v. (v, drop 4 s)) (digits_from 0 (take 4 s)))"

definition getnum_hour :: "string \<Rightarrow> (int \<times> string) option" where
  "getnum_hour s =
     (case getnum2 s of
        Some r \<Rightarrow> Some r
      | None \<Rightarrow> (case s of [] \<Rightarrow> None | c # cs \<Rightarrow> map_option (\<lambda>v. (v, cs)) (digit_val c)))"

definition in_range :: "int \<Rightarrow> int \<Rightarrow> int \<times> string \<Rightarrow> (int \<times> string) option" where
  "in_range lo hi r = (if lo \<le> fst r \<and> fst r \<le> hi then Some r else None)"

definition is_digit :: "char \<Rightarrow> bool" where
  "is_digit c \<longleftrightarrow> digit_val c \<noteq> None"

text \<open>Nine digits of the fraction count, the rest are dropped.\<close>

definition parse_fraction :: "string \<Rightarrow> int \<times> string" where
  "parse_fraction s =
     (case s of
        p # c # cs \<Rightarrow>
          if (p = CHR ''.'' \<or> p = CHR '','') \<and> is_digit c
          then (let ds = take 9 (takeWhile is_digit (c # cs))
                in (the (digits_from 0 ds) * 10 ^ (9 - length ds), dropWhile is_digit (c # cs)))
          else (0, s)
      | _ \<Rightarrow> (0, s))"

definition parse_zone :: "string \<Rightarrow> int option" where
  "parse_zone s =
     (if s = ''Z'' then Some 0
      else case s of
        sg # rest \<Rightarrow>
          if sg = CHR ''+'' \<or> sg = CHR ''-'' then
            do { (h, rest) \<leftarrow> Option.bind (getnum2 rest) (in_range 0 24);
                 rest \<leftarrow> lit (CHR '':'') rest;
                 (m, rest) \<leftarrow> Option.bind (getnum2 rest) (in_range 0 60);
                 (if rest = [] then Some ((if sg = CHR ''-'' then -1 else 1) * (h * 3600 + m * 60))
                  else None) }
          else None
      | [] \<Rightarrow> None)"

definition time_Parse :: "string \<Rightarrow> time option" where
  "time_Parse s =
     do { (y, s) \<leftarrow> getnum4 s;
          s \<leftarrow> lit (CHR ''-'') s;
          (mo, s) \<leftarrow> Option.bind (getnum2 s) (in_range 1 12);
          s \<leftarrow> lit (CHR ''-'') s;
          (d, s) \<leftarrow> Option.bind (getnum2 s) (in_range 1 (daysIn mo y));
          s \<leftarrow> lit (CHR ''T'') s;
          (h, s) \<leftarrow> Option.bind (getnum_hour s) (in_range 0 23);
          s \<leftarrow> lit (CHR '':'') s;
          (mi, s) \<leftarrow> Option.bind (getnum2 s) (in_range 0 59);
          s \<leftarrow> lit (CHR '':'') s;
          (sec, s) \<leftarrow> Option.bind (getnum2 s) (in_range 0 59);
          (nsec, s) \<leftarrow> Some (parse_fraction s);
          off \<leftarrow> parse_zone s;
          Some ((days_of_civil y mo d * 86400 + h * 3600 + mi * 60 + sec - off) * Second + nsec) }"

text \<open>
  Every package has this wrapper (\<open>parseTime\<close>): an empty string and an unparseable one are
  both absent.
\<close>

definition parseTime :: "string \<Rightarrow> time option" where
  "parseTime s = (if s = '''' then None else time_Parse s)"

lemma show_nat_1: "n < 10 \<Longrightarrow> show_nat n = [digit_char (int n)]"
  by (subst show_nat.simps) simp

lemma show_nat_2: "10 \<le> n \<Longrightarrow> show_nat n = show_nat (n div 10) @ [digit_char (int (n mod 10))]"
  by (subst show_nat.simps) simp

lemma length_show_nat_le: "n < 10 ^ k \<Longrightarrow> 0 < k \<Longrightarrow> length (show_nat n) \<le> k"
proof (induction k arbitrary: n)
  case 0
  then show ?case by simp
next
  case (Suc k)
  show ?case
  proof (cases "n < 10")
    case True
    then show ?thesis by (simp add: show_nat_1)
  next
    case False
    have "n div 10 < 10 ^ k" using Suc.prems by (simp add: less_mult_imp_div_less mult.commute)
    moreover have "0 < k" using Suc.prems False by (cases k) auto
    ultimately show ?thesis using Suc.IH False by (simp add: show_nat_2)
  qed
qed

lemma digits_from_zeros: "digits_from 0 (replicate n (CHR ''0'') @ s) = digits_from 0 s"
  by (induction n) (simp_all add: digit_val_def)

lemma appendInt_length: "0 \<le> x \<Longrightarrow> x < 10 ^ w \<Longrightarrow> 0 < w \<Longrightarrow> length (appendInt w x) = w"
  using length_show_nat_le [of "nat x" w] by (auto simp: appendInt_def Let_def nat_less_iff)

lemma appendInt_digits: "0 \<le> x \<Longrightarrow> digits_from 0 (appendInt w x) = Some x"
  by (simp add: appendInt_def Let_def digits_from_zeros digits_from_show_nat)

lemma getnum2_appendInt: "0 \<le> x \<Longrightarrow> x < 100 \<Longrightarrow> getnum2 (appendInt 2 x @ s) = Some (x, s)"
  using appendInt_length [of x 2] by (simp add: getnum2_def appendInt_digits)

lemma getnum4_appendInt: "0 \<le> x \<Longrightarrow> x < 10000 \<Longrightarrow> getnum4 (appendInt 4 x @ s) = Some (x, s)"
  using appendInt_length [of x 4] by (simp add: getnum4_def appendInt_digits)

lemma getnum_hour_appendInt: "0 \<le> x \<Longrightarrow> x < 100 \<Longrightarrow> getnum_hour (appendInt 2 x @ s) = Some (x, s)"
  by (simp add: getnum_hour_def getnum2_appendInt)

lemma lit_Cons [simp]: "lit c (c # s) = Some s"
  by (simp add: lit_def)

lemma days_before_year_mono: "y \<le> y' \<Longrightarrow> days_before_year y \<le> days_before_year y'"
proof -
  assume "y \<le> y'"
  then obtain d where d: "y' - 1 = (y - 1) + d" "0 \<le> d"
    by (metis add.commute diff_add_cancel diff_ge_0_iff_ge diff_right_mono)
  have "(y - 1 + d) div 100 \<le> (y - 1 + d * 100) div 100" using d by (intro zdiv_mono1) simp_all
  then have "(y - 1 + d) div 100 \<le> (y - 1) div 100 + d" by simp
  moreover have "(y - 1) div 4 \<le> (y - 1 + d) div 4" "(y - 1) div 400 \<le> (y - 1 + d) div 400"
    using d by (auto intro: zdiv_mono1)
  moreover have "a1 \<le> a2 + d \<Longrightarrow> b1 \<le> b2 \<Longrightarrow> c1 \<le> c2 \<Longrightarrow>
      365 * k + b1 - a2 + c1 \<le> 365 * (k + d) + b2 - a1 + c2" for a1 a2 b1 b2 c1 c2 k :: int
    using d(2) by simp
  ultimately show ?thesis unfolding days_before_year_def Let_def d(1) by blast
qed

lemma year_of_civil_range:
  assumes "civil_of_days n = (y, m, d)" "0 \<le> n" "n < 3652059"
  shows "1 \<le> y \<and> y \<le> 9999"
proof -
  obtain yday where y: "year_of_days n = (y, yday)"
    using assms by (auto simp: civil_of_days_def split: prod.splits)
  note c = year_of_days_correct [OF y]
  have "1 \<le> y"
  proof (rule ccontr)
    assume "\<not> 1 \<le> y"
    then have "days_before_year y \<le> days_before_year 0" by (intro days_before_year_mono) simp
    then have "days_before_year y \<le> - 366" by (simp add: days_before_year_def)
    with c assms(2) show False by (auto split: if_splits)
  qed
  moreover have "y \<le> 9999"
  proof (rule ccontr)
    assume "\<not> y \<le> 9999"
    then have "days_before_year 10000 \<le> days_before_year y" by (intro days_before_year_mono) simp
    with c assms(3) show False by (simp add: days_before_year_def)
  qed
  ultimately show ?thesis by simp
qed

text \<open>
  What is written reads back to the second: for every instant of the years 1 to 9999 (the range
  the layout's four digits hold).
\<close>

abbreviation max_rfc3339 :: time where "max_rfc3339 \<equiv> 315537897600000000000"

lemma rfc3339_nonempty: "rfc3339 t \<noteq> ''''"
  by (simp add: rfc3339_def Let_def split: prod.splits)

lemma sod_parts:
  fixes x :: int
  assumes "0 \<le> x" "x < 86400"
  shows "x div 3600 * 3600 + x mod 3600 div 60 * 60 + x mod 60 = x"
    "0 \<le> x div 3600" "x div 3600 \<le> 23" "0 \<le> x mod 3600 div 60" "x mod 3600 div 60 \<le> 59"
    "0 \<le> x mod 60" "x mod 60 \<le> 59"
proof -
  have m: "x mod 60 = (x mod 3600) mod 60" by (simp add: mod_mod_cancel)
  show "x div 3600 * 3600 + x mod 3600 div 60 * 60 + x mod 60 = x"
    unfolding m by (metis add.assoc div_mult_mod_eq)
  show "0 \<le> x div 3600" "x div 3600 \<le> 23" using div_bounds [of 3600 0 x 24] assms by auto
  show "0 \<le> x mod 3600 div 60" "x mod 3600 div 60 \<le> 59"
    using div_bounds [of 60 0 "x mod 3600" 60] pos_mod_bound [of 3600 x] pos_mod_sign [of 3600 x] by auto
  show "0 \<le> x mod 60" "x mod 60 \<le> 59" using pos_mod_bound [of 60 x] by auto
qed

lemma daysIn_bound: "1 \<le> m \<Longrightarrow> m \<le> 12 \<Longrightarrow> daysIn m y \<le> 31"
proof -
  assume "1 \<le> m" "m \<le> 12"
  then have "nat (m - 1) < length (month_lengths (is_leap y))" by (auto simp: month_lengths_def)
  then have "daysIn m y \<in> set (month_lengths (is_leap y))" by (simp add: daysIn_def)
  then show ?thesis by (auto simp: month_lengths_def split: if_splits)
qed

lemma parseTime_rfc3339:
  assumes "0 \<le> t" "t < max_rfc3339"
  shows "parseTime (rfc3339 t) = Some (TruncateSecond t)"
proof -
  define secs where "secs = t div Second"
  define n x where "n = secs div 86400" and "x = secs mod 86400"
  have s: "0 \<le> secs" "secs < 3652059 * 86400"
    using assms div_bounds [of Second 0 t "3652059 * 86400"] by (auto simp: secs_def)
  then have n: "0 \<le> n" "n < 3652059"
    using div_bounds [of 86400 0 secs 3652059] by (auto simp: n_def)
  have x: "0 \<le> x" "x < 86400" and nx: "n * 86400 + x = secs" by (simp_all add: n_def x_def)
  obtain y m d where c: "civil_of_days n = (y, m, d)" by (metis prod_cases3)
  note cd = civil_of_days_correct [OF c] and yr = year_of_civil_range [OF c n] and p = sod_parts [OF x]
  have d31: "d \<le> 31" using cd daysIn_bound [of m y] by linarith
  have tr: "TruncateSecond t = secs * Second"
    by (simp add: TruncateSecond_def secs_def minus_mod_eq_div_mult)
  define h mi sec where "h = x div 3600" and "mi = x mod 3600 div 60" and "sec = x mod 60"
  have "h * 3600 + mi * 60 + sec = x" using p(1) unfolding h_def mi_def sec_def .
  then have val: "days_of_civil y m d * 86400 + h * 3600 + mi * 60 + sec = secs"
    unfolding cd(1) using nx by simp
  have hms: "0 \<le> h" "h \<le> 23" "0 \<le> mi" "mi \<le> 59" "0 \<le> sec" "sec \<le> 59"
    using p unfolding h_def mi_def sec_def by blast+
  have fmt: "rfc3339 t = appendInt 4 y @ ''-'' @ appendInt 2 m @ ''-'' @ appendInt 2 d @ ''T'' @
      appendInt 2 h @ '':'' @ appendInt 2 mi @ '':'' @ appendInt 2 sec @ ''Z''"
    unfolding h_def mi_def sec_def
    by (simp only: rfc3339_def Let_def secs_def [symmetric] n_def [symmetric] x_def [symmetric]
        c prod.case)
  have "time_Parse (rfc3339 t) =
      Some ((days_of_civil y m d * 86400 + h * 3600 + mi * 60 + sec - 0) * Second + 0)"
    using cd(2-5) yr d31 hms unfolding fmt time_Parse_def
    by (simp add: getnum4_appendInt getnum2_appendInt getnum_hour_appendInt in_range_def
        parse_fraction_def parse_zone_def)
  also have "\<dots> = Some (secs * Second)"
    unfolding diff_0_right val by simp
  finally show ?thesis by (simp add: parseTime_def rfc3339_nonempty tr)
qed

section \<open>\<open>Duration.String\<close>\<close>

text \<open>
  \<open>fmtFrac\<close> prints a fraction without its trailing zeros (nothing when it is zero).
\<close>

fun frac_digits :: "nat \<Rightarrow> nat \<Rightarrow> string" where
  "frac_digits 0 v = ''''"
| "frac_digits (Suc p) v =
     (if v mod 10 ^ Suc p = 0 then ''''
      else digit_char (int (v mod 10 ^ Suc p div 10 ^ p)) # frac_digits p v)"

definition fmtFrac :: "nat \<Rightarrow> nat \<Rightarrow> string" where
  "fmtFrac p v = (if v mod 10 ^ p = 0 then '''' else CHR ''.'' # frac_digits p v)"

definition Duration_String :: "duration \<Rightarrow> string" where
  "Duration_String d =
     (let u = nat \<bar>d\<bar>; s = u div 1000000000; sg = (if d < 0 then ''-'' else '''')
      in sg @
        (if u = 0 then ''0s''
         else if u < 1000 then show_nat u @ ''ns''
         else if u < 1000000 then show_nat (u div 1000) @ fmtFrac 3 u @ [char_of (194::nat), char_of (181::nat)] @ ''s''
         else if u < 1000000000 then show_nat (u div 1000000) @ fmtFrac 6 u @ ''ms''
         else (if s div 3600 > 0 then show_nat (s div 3600) @ ''h'' else '''') @
              (if s div 60 > 0 then show_nat (s div 60 mod 60) @ ''m'' else '''') @
              show_nat (s mod 60) @ fmtFrac 9 u @ ''s''))"

end
