(* ===== verification/Annotations.thy ===== *)
theory Annotations
  imports Prelude
begin

text \<open>
  The registry of annotation and label keys (\<open>internal/annotations/annotations.go\<close>): the
  controller's durable state lives in these annotations. The keys stay folded in proofs; what the
  proofs need of them is that they are pairwise distinct.
\<close>

definition Prefix :: string where "Prefix = ''noderotation.io/''"

definition SurgeFor :: string where "SurgeFor = Prefix @ ''surge-for''"

text \<open>Keys of a NodeClaim.\<close>

definition State :: string where "State = Prefix @ ''state''"
definition FailedAt :: string where "FailedAt = Prefix @ ''failed-at''"
definition RetryCount :: string where "RetryCount = Prefix @ ''retry-count''"
definition StartedAt :: string where "StartedAt = Prefix @ ''started-at''"
definition SurgeClaim :: string where "SurgeClaim = Prefix @ ''surge-claim''"

text \<open>Keys of a NodePool.\<close>

definition ActiveRotation :: string where "ActiveRotation = Prefix @ ''active-rotation''"
definition ActiveRotationState :: string where
  "ActiveRotationState = Prefix @ ''active-rotation-state''"
definition DrainingAt :: string where "DrainingAt = Prefix @ ''draining-at''"
definition SurgeWait :: string where "SurgeWait = Prefix @ ''surge-wait''"
definition SurgePath :: string where "SurgePath = Prefix @ ''surge-path''"
definition LastRotationAt :: string where "LastRotationAt = Prefix @ ''last-rotation-at''"
definition LastFailureAt :: string where "LastFailureAt = Prefix @ ''last-failure-at''"
definition Freeze :: string where "Freeze = Prefix @ ''freeze''"
definition RotationMode :: string where "RotationMode = Prefix @ ''rotation-mode''"
definition WindowOpenedAt :: string where "WindowOpenedAt = Prefix @ ''window-opened-at''"

text \<open>Keys of a Node, and the three keys of Karpenter and Kubernetes the source names.\<close>

definition Cordoned :: string where "Cordoned = Prefix @ ''cordoned''"
definition DoNotDisruptOwned :: string where "DoNotDisruptOwned = Prefix @ ''do-not-disrupt-owned''"
definition DoNotDisruptAnnotationKey :: string where
  "DoNotDisruptAnnotationKey = ''karpenter.sh/do-not-disrupt''"
definition NodePoolLabelKey :: string where "NodePoolLabelKey = ''karpenter.sh/nodepool''"
definition LabelHostname :: string where "LabelHostname = ''kubernetes.io/hostname''"

text \<open>Values of the state and rotation-mode annotations.\<close>

definition StatePending :: string where "StatePending = ''pending''"
definition StateDraining :: string where "StateDraining = ''draining''"
definition StateFailed :: string where "StateFailed = ''failed''"
definition StateExpired :: string where "StateExpired = ''expired''"
definition RotationModeForcefulFallback :: string where
  "RotationModeForcefulFallback = ''forceful-fallback''"

lemmas key_defs = Prefix_def SurgeFor_def State_def FailedAt_def RetryCount_def StartedAt_def
  SurgeClaim_def ActiveRotation_def ActiveRotationState_def DrainingAt_def SurgeWait_def
  SurgePath_def LastRotationAt_def LastFailureAt_def Freeze_def RotationMode_def
  WindowOpenedAt_def Cordoned_def DoNotDisruptOwned_def DoNotDisruptAnnotationKey_def
  NodePoolLabelKey_def LabelHostname_def

lemmas value_defs = StatePending_def StateDraining_def StateFailed_def StateExpired_def
  RotationModeForcefulFallback_def

definition annotation_keys :: "string list" where
  "annotation_keys =
     [SurgeFor, State, FailedAt, RetryCount, StartedAt, SurgeClaim, ActiveRotation,
      ActiveRotationState, DrainingAt, SurgeWait, SurgePath, LastRotationAt, LastFailureAt, Freeze,
      RotationMode, WindowOpenedAt, Cordoned, DoNotDisruptOwned, DoNotDisruptAnnotationKey,
      NodePoolLabelKey, LabelHostname]"

lemma annotation_keys_distinct: "distinct annotation_keys"
  by (simp add: annotation_keys_def key_defs)

lemma annotation_keys_distinct_rev: "distinct (rev annotation_keys)"
  by (simp add: annotation_keys_distinct)

lemmas key_neqs [simp] =
  annotation_keys_distinct [unfolded annotation_keys_def, simplified]
  annotation_keys_distinct_rev [unfolded annotation_keys_def, simplified]

definition state_values :: "string list" where
  "state_values = ['''', StatePending, StateDraining, StateFailed, StateExpired]"

lemma state_values_distinct: "distinct state_values"
  by (simp add: state_values_def value_defs)

lemma state_values_distinct_rev: "distinct (rev state_values)"
  by (simp add: state_values_distinct)

lemmas state_neqs [simp] =
  state_values_distinct [unfolded state_values_def, simplified]
  state_values_distinct_rev [unfolded state_values_def, simplified]

end
