(* ===== verification/Ranking.thy ===== *)
theory Ranking
  imports Prelude
begin

text \<open>
  The loop \<open>for each x: if ok(x) and (best is nil or before(x, best)) then best = x\<close>, which the
  candidate selection, the induced-claim search and others share, and the contract under which
  its result is the right one: \<open>before\<close> is a strict weak order. The extension adds that elements
  the order does not separate carry the same identity; then the result does not depend on the
  order in which the elements are listed.
\<close>

fun scan_best :: "('a \<Rightarrow> bool) \<Rightarrow> ('a \<Rightarrow> 'a \<Rightarrow> bool) \<Rightarrow> 'a option \<Rightarrow> 'a list \<Rightarrow> 'a option" where
  "scan_best ok before best [] = best"
| "scan_best ok before best (x # xs) =
     (if \<not> ok x then scan_best ok before best xs
      else case best of
             None \<Rightarrow> scan_best ok before (Some x) xs
           | Some b \<Rightarrow> scan_best ok before (if before x b then Some x else best) xs)"

lemma scan_best_None: "scan_best ok before None xs = None \<longleftrightarrow> (\<forall>x\<in>set xs. \<not> ok x)"
proof -
  have some: "\<exists>c. scan_best ok before (Some b) ys = Some c" for b ys
    by (induction ys arbitrary: b) auto
  show ?thesis
  proof (induction xs)
    case Nil
    then show ?case by simp
  next
    case (Cons x xs)
    then show ?case using some [of x xs] by auto
  qed
qed

lemma scan_best_mem:
  "scan_best ok before best xs = Some c \<Longrightarrow> best = Some c \<or> (c \<in> set xs \<and> ok c)"
  by (induction xs arbitrary: best) (auto split: if_splits option.splits)

locale ranking =
  fixes before :: "'a \<Rightarrow> 'a \<Rightarrow> bool"
  assumes asym: "before a b \<Longrightarrow> \<not> before b a"
    and negtrans: "\<not> before a b \<Longrightarrow> \<not> before b c \<Longrightarrow> \<not> before a c"
begin

lemma irrefl: "\<not> before a a"
  using asym [of a a] by auto

lemma trans: "before a b \<Longrightarrow> before b c \<Longrightarrow> before a c"
  using asym negtrans by blast

lemma scan_best_minimal:
  "scan_best ok before best xs = Some c \<Longrightarrow>
   (\<forall>b. best = Some b \<longrightarrow> \<not> before b c) \<and> (\<forall>x\<in>set xs. ok x \<longrightarrow> \<not> before x c)"
proof (induction xs arbitrary: best)
  case Nil
  then show ?case by (auto simp: irrefl)
next
  case (Cons x xs)
  show ?case
  proof (cases "ok x")
    case False
    with Cons show ?thesis by auto
  next
    case True
    show ?thesis
    proof (cases best)
      case None
      with Cons True show ?thesis by auto
    next
      case (Some b)
      with Cons.prems True have "scan_best ok before (Some (if before x b then x else b)) xs = Some c"
        by (auto split: if_splits)
      note IH = Cons.IH [OF this]
      show ?thesis
      proof (cases "before x b")
        case True
        with IH Some show ?thesis using asym negtrans [of b x c] by auto
      next
        case False
        with IH Some show ?thesis using negtrans [of x b c] by auto
      qed
    qed
  qed
qed

lemma scan_best_correct:
  "scan_best ok before None xs = Some c \<Longrightarrow>
   c \<in> set xs \<and> ok c \<and> (\<forall>x\<in>set xs. ok x \<longrightarrow> \<not> before x c)"
  using scan_best_mem [of ok before None xs c] scan_best_minimal [of ok None xs c] by auto

end

locale identified_ranking = ranking before for before :: "'a \<Rightarrow> 'a \<Rightarrow> bool" +
  fixes ident :: "'a \<Rightarrow> 'b"
  assumes separates: "\<not> before a b \<Longrightarrow> \<not> before b a \<Longrightarrow> ident a = ident b"
begin

text \<open>The result depends on the set of elements only, not on their order.\<close>

lemma scan_best_set_cong:
  assumes "set xs = set ys" "inj_on ident (set xs)"
  shows "scan_best ok before None xs = scan_best ok before None ys"
proof (cases "scan_best ok before None xs")
  case None
  with assms show ?thesis by (metis scan_best_None)
next
  case (Some c)
  then have "scan_best ok before None ys \<noteq> None"
    using assms(1) by (metis option.distinct(1) scan_best_None)
  then obtain d where d: "scan_best ok before None ys = Some d" by auto
  note cc = scan_best_correct [OF Some] and dc = scan_best_correct [OF d]
  have "ident c = ident d" using cc dc assms(1) by (intro separates) auto
  with cc dc assms have "c = d" by (auto dest: inj_onD)
  with Some d show ?thesis by simp
qed

end

end
