(* ===== verification/Selection.thy ===== *)
theory Selection
  imports GoTime Annotations Ranking "HOL-Library.Product_Lexorder"
begin

text \<open>
  Candidate selection (\<open>internal/selection/selection.go\<close> and \<open>census.go\<close>): which
  NodeClaim rotates next. The claim view and the resolved inputs are records with the source's
  fields; a nil pointer is \<open>None\<close>; the set of opted-out names is a set.
\<close>

record Claim =
  c_Name :: string
  c_CreatedAt :: time
  c_Deleting :: bool
  c_ExpireAfter :: "duration option"
  c_TGP :: "duration option"
  c_Ready :: bool
  c_Annotations :: annots

record LeadTime =
  lt_Base :: duration
  lt_DrainFallback :: duration

record SelInputs =
  si_Now :: time
  si_LeadTime :: LeadTime
  si_Override :: "duration option"
  si_RetryBackoff :: duration
  si_Excluded :: "string set"
  si_WindowStart :: time
  si_WindowEnd :: time

definition claimTGP :: "Claim \<Rightarrow> duration \<Rightarrow> duration" where
  "claimTGP c fallback = (case c_TGP c of Some d \<Rightarrow> d | None \<Rightarrow> fallback)"

definition LeadTime_For :: "LeadTime \<Rightarrow> Claim \<Rightarrow> duration" where
  "LeadTime_For lt c = add64 (lt_Base lt) (claimTGP c (lt_DrainFallback lt))"

definition parseInt :: "string \<Rightarrow> int" where
  "parseInt s = (case Atoi s of None \<Rightarrow> 0 | Some n \<Rightarrow> n)"

section \<open>The escalated, window-clamped backoff\<close>

definition maxBackoffShift :: int where "maxBackoffShift = 3"

definition ladderShift :: "int \<Rightarrow> nat" where
  "ladderShift retryCount = nat (min (max (sub64 retryCount 1) 0) maxBackoffShift)"

definition EscalatedBackoff :: "int \<Rightarrow> duration \<Rightarrow> duration" where
  "EscalatedBackoff retryCount base = shl64 base (ladderShift retryCount)"

text \<open>\<open>for shift := n - 1; shift >= 0; shift--\<close>: the first step that lands before the close.\<close>

fun ladder_walk :: "duration \<Rightarrow> time \<Rightarrow> time \<Rightarrow> nat \<Rightarrow> duration option" where
  "ladder_walk base failedAt close 0 = None"
| "ladder_walk base failedAt close (Suc shift) =
     (let step = shl64 base shift
      in if failedAt + step < close then Some step else ladder_walk base failedAt close shift)"

definition EffectiveBackoff :: "int \<Rightarrow> duration \<Rightarrow> time \<Rightarrow> time \<Rightarrow> time \<Rightarrow> duration" where
  "EffectiveBackoff retryCount base failedAt start close =
     (let escalated = EscalatedBackoff retryCount base
      in if IsZero start \<or> IsZero close then escalated
         else if failedAt < start \<or> \<not> failedAt < close then escalated
         else if failedAt + escalated < close then escalated
         else case ladder_walk base failedAt close (ladderShift retryCount) of
                Some step \<Rightarrow> step
              | None \<Rightarrow> escalated)"

section \<open>Eligibility\<close>

definition failedPastBackoff :: "Claim \<Rightarrow> SelInputs \<Rightarrow> bool" where
  "failedPastBackoff c inp =
     (case parseTime (aget (c_Annotations c) FailedAt) of
        None \<Rightarrow> True
      | Some failedAt \<Rightarrow>
          EffectiveBackoff (parseInt (aget (c_Annotations c) RetryCount)) (si_RetryBackoff inp)
            failedAt (si_WindowStart inp) (si_WindowEnd inp)
          \<le> TimeSub (si_Now inp) failedAt)"

definition stateAllows :: "Claim \<Rightarrow> SelInputs \<Rightarrow> bool" where
  "stateAllows c inp =
     (let st = aget (c_Annotations c) State
      in if st = '''' then True
         else if st = StateFailed then failedPastBackoff c inp
         else False)"

definition triggered :: "Claim \<Rightarrow> SelInputs \<Rightarrow> bool" where
  "triggered c inp =
     (let age = TimeSub (si_Now inp) (c_CreatedAt c)
      in case si_Override inp of
           Some ov \<Rightarrow> ov < age
         | None \<Rightarrow>
             (case c_ExpireAfter c of
                None \<Rightarrow> False
              | Some e \<Rightarrow> sub64 e (LeadTime_For (si_LeadTime inp) c) < age))"

definition eligible :: "Claim \<Rightarrow> SelInputs \<Rightarrow> bool" where
  "eligible c inp =
     (if c_Name c \<in> si_Excluded inp then False
      else if c_Deleting c then False
      else if \<not> c_Ready c then False
      else if \<not> stateAllows c inp then False
      else triggered c inp)"

section \<open>Ordering and the pick\<close>

definition deadlineOf :: "Claim \<Rightarrow> SelInputs \<Rightarrow> time option" where
  "deadlineOf c inp =
     (if si_Override inp \<noteq> None then None
      else map_option (\<lambda>e. c_CreatedAt c + e) (c_ExpireAfter c))"

definition isEarlierDeadline :: "Claim \<Rightarrow> Claim \<Rightarrow> SelInputs \<Rightarrow> bool" where
  "isEarlierDeadline a b inp =
     (let tie = (if c_CreatedAt a \<noteq> c_CreatedAt b then c_CreatedAt a < c_CreatedAt b
                 else c_Name a < c_Name b)
      in case (deadlineOf a inp, deadlineOf b inp) of
           (Some da, Some db) \<Rightarrow> (if da \<noteq> db then da < db else tie)
         | (Some _, None) \<Rightarrow> True
         | (None, Some _) \<Rightarrow> False
         | (None, None) \<Rightarrow> tie)"

definition PickEarliestDeadlineEligible :: "Claim list \<Rightarrow> SelInputs \<Rightarrow> Claim option" where
  "PickEarliestDeadlineEligible claims inp =
     scan_best (\<lambda>c. eligible c inp) (\<lambda>a b. isEarlierDeadline a b inp) None claims"

definition CountEligible :: "Claim list \<Rightarrow> SelInputs \<Rightarrow> nat" where
  "CountEligible claims inp = length (filter (\<lambda>c. eligible c inp) claims)"

definition ShortLeadClaims :: "Claim list \<Rightarrow> LeadTime \<Rightarrow> Claim list" where
  "ShortLeadClaims claims leadTime =
     filter (\<lambda>c. \<not> c_Deleting c \<and>
       (case c_ExpireAfter c of None \<Rightarrow> False | Some e \<Rightarrow> e \<le> LeadTime_For leadTime c)) claims"

definition CountShortLead :: "Claim list \<Rightarrow> LeadTime \<Rightarrow> nat" where
  "CountShortLead claims leadTime = length (ShortLeadClaims claims leadTime)"

section \<open>The census\<close>

record Census =
  cs_Total :: nat
  cs_Eligible :: nat
  cs_OptedOut :: nat
  cs_Deleting :: nat
  cs_NotReady :: nat
  cs_InFlight :: nat
  cs_Terminal :: nat
  cs_InBackoff :: nat
  cs_NotTriggered :: nat
  cs_InBackoffTriggered :: nat

definition census_step :: "SelInputs \<Rightarrow> Claim \<Rightarrow> Census \<Rightarrow> Census" where
  "census_step inp cl c =
     (if c_Name cl \<in> si_Excluded inp then c\<lparr>cs_OptedOut := Suc (cs_OptedOut c)\<rparr>
      else if c_Deleting cl then c\<lparr>cs_Deleting := Suc (cs_Deleting c)\<rparr>
      else if \<not> c_Ready cl then c\<lparr>cs_NotReady := Suc (cs_NotReady c)\<rparr>
      else if \<not> stateAllows cl inp then
        (let st = aget (c_Annotations cl) State
         in if st = StateExpired then c\<lparr>cs_Terminal := Suc (cs_Terminal c)\<rparr>
            else if st = StateFailed then
              (let c = c\<lparr>cs_InBackoff := Suc (cs_InBackoff c)\<rparr>
               in if triggered cl inp
                  then c\<lparr>cs_InBackoffTriggered := Suc (cs_InBackoffTriggered c)\<rparr> else c)
            else c\<lparr>cs_InFlight := Suc (cs_InFlight c)\<rparr>)
      else if \<not> triggered cl inp then c\<lparr>cs_NotTriggered := Suc (cs_NotTriggered c)\<rparr>
      else c\<lparr>cs_Eligible := Suc (cs_Eligible c)\<rparr>)"

definition TakeCensus :: "Claim list \<Rightarrow> SelInputs \<Rightarrow> Census" where
  "TakeCensus claims inp =
     fold (census_step inp) claims
       \<lparr>cs_Total = length claims, cs_Eligible = 0, cs_OptedOut = 0, cs_Deleting = 0,
        cs_NotReady = 0, cs_InFlight = 0, cs_Terminal = 0, cs_InBackoff = 0,
        cs_NotTriggered = 0, cs_InBackoffTriggered = 0\<rparr>"

definition census_sum :: "Census \<Rightarrow> nat" where
  "census_sum c = cs_Eligible c + cs_OptedOut c + cs_Deleting c + cs_NotReady c + cs_InFlight c
     + cs_Terminal c + cs_InBackoff c + cs_NotTriggered c"

section \<open>Lemmas: the order\<close>

text \<open>
  The order is lexicographic in a key: deadline-less claims last, then the deadline, the
  creation time and the name.
\<close>

definition rank_key :: "SelInputs \<Rightarrow> Claim \<Rightarrow> (int \<times> time) \<times> time \<times> string" where
  "rank_key inp c =
     ((case deadlineOf c inp of Some d \<Rightarrow> (0, d) | None \<Rightarrow> (1, 0)), c_CreatedAt c, c_Name c)"

lemma isEarlierDeadline_key: "isEarlierDeadline a b inp \<longleftrightarrow> rank_key inp a < rank_key inp b"
  by (auto simp: isEarlierDeadline_def rank_key_def Let_def less_prod_def' split: option.splits)

interpretation earliest: identified_ranking "\<lambda>a b. isEarlierDeadline a b inp" c_Name for inp
proof unfold_locales
  show "isEarlierDeadline a b inp \<Longrightarrow> \<not> isEarlierDeadline b a inp" for a b
    by (simp add: isEarlierDeadline_key)
  show "\<not> isEarlierDeadline a b inp \<Longrightarrow> \<not> isEarlierDeadline b c inp \<Longrightarrow> \<not> isEarlierDeadline a c inp"
    for a b c
    by (simp add: isEarlierDeadline_key not_less)
  show "\<not> isEarlierDeadline a b inp \<Longrightarrow> \<not> isEarlierDeadline b a inp \<Longrightarrow> c_Name a = c_Name b" for a b
    by (auto simp: isEarlierDeadline_key not_less rank_key_def dest: order.antisym)
qed

lemma pick_Some:
  "PickEarliestDeadlineEligible cs inp = Some c \<Longrightarrow>
   c \<in> set cs \<and> eligible c inp \<and> (\<forall>d\<in>set cs. eligible d inp \<longrightarrow> \<not> isEarlierDeadline d c inp)"
  unfolding PickEarliestDeadlineEligible_def by (rule earliest.scan_best_correct)

lemma pick_None_iff:
  "PickEarliestDeadlineEligible cs inp = None \<longleftrightarrow> CountEligible cs inp = 0"
  by (simp add: PickEarliestDeadlineEligible_def scan_best_None CountEligible_def filter_empty_conv)

text \<open>Where all claims have a deadline, the order is deadline first.\<close>

lemma isEarlierDeadline_deadline:
  "deadlineOf a inp = Some da \<Longrightarrow> deadlineOf b inp = Some db \<Longrightarrow>
   \<not> isEarlierDeadline b a inp \<Longrightarrow> da \<le> db"
  by (auto simp: isEarlierDeadline_def Let_def split: if_splits)

section \<open>Lemmas: eligibility\<close>

lemma eligible_iff:
  "eligible c inp \<longleftrightarrow> c_Name c \<notin> si_Excluded inp \<and> \<not> c_Deleting c \<and> c_Ready c
     \<and> stateAllows c inp \<and> triggered c inp"
  by (simp add: eligible_def)


text \<open>
  The trigger in the form of the specification, \<open>now > deadline - leadTime\<close>, wherever the
  64-bit arithmetic of the code does not wrap.
\<close>

lemma triggered_auto_iff:
  assumes "si_Override inp = None" "c_ExpireAfter c = Some e"
    and "is_i64 (lt_Base (si_LeadTime inp) + claimTGP c (lt_DrainFallback (si_LeadTime inp)))"
    and "is_i64 (e - LeadTime_For (si_LeadTime inp) c)"
        "e - LeadTime_For (si_LeadTime inp) c < max_i64"
  shows "triggered c inp \<longleftrightarrow>
     c_CreatedAt c + e - LeadTime_For (si_LeadTime inp) c < si_Now inp"
  using assms by (auto simp: triggered_def Let_def go_arith TimeSub_gt_iff)

lemma triggered_mono:
  "triggered c inp \<Longrightarrow> si_Now inp \<le> t \<Longrightarrow> triggered c (inp\<lparr>si_Now := t\<rparr>)"
  using TimeSub_mono [of "si_Now inp" t "c_CreatedAt c"]
  by (auto simp: triggered_def Let_def split: option.splits)

lemma short_lead_triggered_aux:
  assumes "c \<in> set (ShortLeadClaims cs (si_LeadTime inp))" "si_Override inp = None"
    and "the (c_ExpireAfter c) - LeadTime_For (si_LeadTime inp) c \<ge> min_i64"
    and "c_CreatedAt c < si_Now inp"
  shows "triggered c inp"
proof -
  obtain e where e: "c_ExpireAfter c = Some e" "e \<le> LeadTime_For (si_LeadTime inp) c"
    using assms(1) by (auto simp: ShortLeadClaims_def split: option.splits)
  then have "is_i64 (e - LeadTime_For (si_LeadTime inp) c)"
    using assms(3) by (simp add: is_i64_iff)
  moreover have "0 < TimeSub (si_Now inp) (c_CreatedAt c)"
    using assms(4) by (auto simp: TimeSub_def is_i64_def)
  ultimately show ?thesis
    using e assms(2) by (simp add: triggered_def Let_def go_arith)
qed

section \<open>Lemmas: the backoff ladder\<close>

text \<open>A base at most an eighth of the 64-bit range climbs the ladder without wrapping.\<close>

definition ladder_ok :: "duration \<Rightarrow> bool" where
  "ladder_ok base \<longleftrightarrow> 0 < base \<and> base * 8 \<le> max_i64"

lemma ladderShift_le3: "ladderShift n \<le> 3"
  by (simp add: ladderShift_def maxBackoffShift_def)

lemma ladderShift_pos: "is_i64 n \<Longrightarrow> 1 \<le> n \<Longrightarrow> ladderShift n = nat (min (n - 1) 3)"
  by (simp add: ladderShift_def maxBackoffShift_def sub64_exact is_i64_def)

lemma ladder_pow: "ladder_ok base \<Longrightarrow> s \<le> 3 \<Longrightarrow> base \<le> base * 2 ^ s \<and> base * 2 ^ s \<le> base * 8"
  using power_increasing [of s 3 "2 :: int"] by (auto simp: ladder_ok_def)

lemma ladder_step: "ladder_ok base \<Longrightarrow> s \<le> 3 \<Longrightarrow> shl64 base s = base * 2 ^ s"
proof -
  assume "ladder_ok base" "s \<le> 3"
  then have "is_i64 (base * 2 ^ s)"
    using ladder_pow [of base s] unfolding is_i64_iff ladder_ok_def by linarith
  then show ?thesis by (rule shl64_exact)
qed

lemma escalated_eq: "ladder_ok base \<Longrightarrow> EscalatedBackoff n base = base * 2 ^ ladderShift n"
  by (simp add: EscalatedBackoff_def ladder_step ladderShift_le3)

lemma ladder_walk_Some:
  "ladder_ok base \<Longrightarrow> n \<le> 4 \<Longrightarrow> ladder_walk base f close n = Some step \<Longrightarrow>
   \<exists>s<n. step = base * 2 ^ s \<and> f + step < close \<and> (\<forall>r<n. f + base * 2 ^ r < close \<longrightarrow> r \<le> s)"
proof (induction n)
  case 0
  then show ?case by simp
next
  case (Suc n)
  have st: "shl64 base n = base * 2 ^ n" using Suc.prems by (intro ladder_step) auto
  show ?case
  proof (cases "f + base * 2 ^ n < close")
    case True
    with Suc.prems(3) st show ?thesis by (intro exI [of _ n]) auto
  next
    case False
    with Suc st obtain s where "s < n" "step = base * 2 ^ s" "f + step < close"
      "\<forall>r<n. f + base * 2 ^ r < close \<longrightarrow> r \<le> s" by auto
    with False show ?thesis by (intro exI [of _ s]) (auto simp: less_Suc_eq)
  qed
qed

lemma ladder_walk_None:
  "ladder_ok base \<Longrightarrow> n \<le> 4 \<Longrightarrow> ladder_walk base f close n = None \<Longrightarrow> 0 < n \<Longrightarrow> close \<le> f + base"
proof (induction n)
  case 0
  then show ?case by simp
next
  case (Suc n)
  have st: "shl64 base n = base * 2 ^ n" using Suc.prems by (intro ladder_step) auto
  with Suc show ?case by (cases n) (auto simp: Let_def split: if_splits)
qed

lemma effective_inside:
  assumes "ladder_ok base" "start \<noteq> 0" "close \<noteq> 0" "start \<le> f" "f + base < close"
  shows "\<exists>s\<le>ladderShift n. EffectiveBackoff n base f start close = base * 2 ^ s
     \<and> f + base * 2 ^ s < close
     \<and> (\<forall>r\<le>ladderShift n. f + base * 2 ^ r < close \<longrightarrow> r \<le> s)"
proof -
  let ?m = "ladderShift n"
  have esc: "EscalatedBackoff n base = base * 2 ^ ?m" by (rule escalated_eq [OF assms(1)])
  have fc: "f < close" using assms by (auto simp: ladder_ok_def)
  show ?thesis
  proof (cases "f + base * 2 ^ ?m < close")
    case True
    with assms fc esc show ?thesis by (intro exI [of _ ?m]) (auto simp: EffectiveBackoff_def Let_def IsZero_def)
  next
    case False
    have m: "0 < ?m" using False assms(5) by (cases ?m) auto
    obtain step where w: "ladder_walk base f close ?m = Some step"
      using ladder_walk_None [OF assms(1) _ _ m, of f close] ladderShift_le3 [of n] assms(5)
      by (cases "ladder_walk base f close ?m") auto
    obtain s where s: "s < ?m" "step = base * 2 ^ s" "f + step < close"
      "\<forall>r<?m. f + base * 2 ^ r < close \<longrightarrow> r \<le> s"
      using ladder_walk_Some [OF assms(1) _ w] ladderShift_le3 [of n] by auto
    have "EffectiveBackoff n base f start close = step"
      using assms fc False esc w by (auto simp: EffectiveBackoff_def Let_def IsZero_def)
    with s False show ?thesis by (intro exI [of _ s]) (auto simp: le_less)
  qed
qed

lemma effective_outside:
  "start = 0 \<or> close = 0 \<or> f < start \<or> close \<le> f \<Longrightarrow>
   EffectiveBackoff n base f start close = EscalatedBackoff n base"
  by (auto simp: EffectiveBackoff_def Let_def IsZero_def)

lemma effective_none_fits:
  assumes "ladder_ok base" "close \<le> f + base"
  shows "EffectiveBackoff n base f start close = EscalatedBackoff n base"
proof -
  have "\<not> f + base * 2 ^ s < close" if "s \<le> 3" for s
    using ladder_pow [OF assms(1) that] assms(2) by linarith
  then have "ladder_walk base f close m = None" if "m \<le> 4" for m
    using that by (induction m) (auto simp: ladder_step [OF assms(1)] Let_def)
  then show ?thesis
    using ladderShift_le3 [of n] by (auto simp: EffectiveBackoff_def Let_def)
qed

text \<open>Whatever the window, the backoff is a step of the ladder: never below the base.\<close>

lemma effective_ladder:
  assumes "ladder_ok base"
  shows "\<exists>s\<le>ladderShift n. EffectiveBackoff n base f start close = base * 2 ^ s"
proof (cases "start = 0 \<or> close = 0 \<or> f < start \<or> close \<le> f + base")
  case True
  then have "EffectiveBackoff n base f start close = EscalatedBackoff n base"
    using effective_outside effective_none_fits [OF assms] by blast
  then show ?thesis using escalated_eq [OF assms] by auto
next
  case False
  then show ?thesis using effective_inside [OF assms, of start close f n] by auto
qed

lemma effective_bounds:
  assumes "ladder_ok base"
  shows "base \<le> EffectiveBackoff n base f start close"
    "EffectiveBackoff n base f start close \<le> EscalatedBackoff n base"
    "EscalatedBackoff n base \<le> base * 8"
proof -
  obtain s where s: "s \<le> ladderShift n" "EffectiveBackoff n base f start close = base * 2 ^ s"
    using effective_ladder [OF assms] by blast
  have "(2::int) ^ s \<le> 2 ^ ladderShift n" using s(1) by (intro power_increasing) auto
  then show "EffectiveBackoff n base f start close \<le> EscalatedBackoff n base"
    using assms s(2) by (simp add: escalated_eq ladder_ok_def)
  show "base \<le> EffectiveBackoff n base f start close"
    using ladder_pow [OF assms, of s] s ladderShift_le3 [of n] by simp
  show "EscalatedBackoff n base \<le> base * 8"
    using ladder_pow [OF assms ladderShift_le3] by (simp add: escalated_eq assms)
qed

section \<open>Lemmas: the census\<close>

text \<open>Every claim lands in exactly one bucket.\<close>

lemma census_step_sum: "census_sum (census_step inp cl c) = Suc (census_sum c)"
  by (simp add: census_step_def census_sum_def Let_def)

lemma census_step_Total [simp]: "cs_Total (census_step inp cl c) = cs_Total c"
  by (simp add: census_step_def Let_def)

lemma census_step_Eligible:
  "cs_Eligible (census_step inp cl c) = (if eligible cl inp then Suc (cs_Eligible c) else cs_Eligible c)"
  by (simp add: census_step_def eligible_iff Let_def)

lemma census_step_triggered:
  "cs_InBackoffTriggered c \<le> cs_InBackoff c \<Longrightarrow>
   cs_InBackoffTriggered (census_step inp cl c) \<le> cs_InBackoff (census_step inp cl c)"
  by (simp add: census_step_def Let_def)

lemma fold_census:
  "census_sum (fold (census_step inp) cls c) = census_sum c + length cls"
  "cs_Total (fold (census_step inp) cls c) = cs_Total c"
  "cs_Eligible (fold (census_step inp) cls c) = cs_Eligible c + CountEligible cls inp"
  "cs_InBackoffTriggered c \<le> cs_InBackoff c \<Longrightarrow>
   cs_InBackoffTriggered (fold (census_step inp) cls c) \<le> cs_InBackoff (fold (census_step inp) cls c)"
  by (induction cls arbitrary: c)
    (auto simp: census_step_sum census_step_Eligible CountEligible_def census_step_triggered)

text \<open>The claims still due once their backoff elapses, as a count.\<close>

definition due_in_backoff :: "SelInputs \<Rightarrow> Claim \<Rightarrow> bool" where
  "due_in_backoff inp c \<longleftrightarrow> c_Name c \<notin> si_Excluded inp \<and> \<not> c_Deleting c \<and> c_Ready c
     \<and> aget (c_Annotations c) State = StateFailed \<and> \<not> failedPastBackoff c inp \<and> triggered c inp"

lemma census_step_due:
  "cs_InBackoffTriggered (census_step inp cl c)
     = (if due_in_backoff inp cl then Suc (cs_InBackoffTriggered c) else cs_InBackoffTriggered c)"
  by (auto simp: census_step_def due_in_backoff_def stateAllows_def Let_def)

lemma fold_census_due:
  "cs_InBackoffTriggered (fold (census_step inp) cls c)
     = cs_InBackoffTriggered c + length (filter (due_in_backoff inp) cls)"
  by (induction cls arbitrary: c) (auto simp: census_step_due)

section \<open>Properties\<close>

text \<open>
  What a rotation is allowed to take up, in instants instead of the code's 64-bit ages: the claim is
  not opted out, not deleting and Ready, no attempt on it is running or terminal, the wait after a
  failed attempt is over, and the trigger has passed: the override's age, or without one the claim's
  own deadline less the lead time.
\<close>

definition lead_of :: "SelInputs \<Rightarrow> Claim \<Rightarrow> int" where
  "lead_of inp c = lt_Base (si_LeadTime inp) + (case c_TGP c of Some d \<Rightarrow> d | None \<Rightarrow> lt_DrainFallback (si_LeadTime inp))"

definition trigger_passed :: "SelInputs \<Rightarrow> Claim \<Rightarrow> bool" where
  "trigger_passed inp c \<longleftrightarrow>
     (case si_Override inp of
        Some ov \<Rightarrow> c_CreatedAt c + ov < si_Now inp
      | None \<Rightarrow> (\<exists>e. c_ExpireAfter c = Some e \<and> c_CreatedAt c + e - lead_of inp c < si_Now inp))"

definition may_rotate :: "SelInputs \<Rightarrow> Claim \<Rightarrow> bool" where
  "may_rotate inp c \<longleftrightarrow>
     c_Name c \<notin> si_Excluded inp \<and> \<not> c_Deleting c \<and> c_Ready c
     \<and> (aget (c_Annotations c) State = '''' \<or> aget (c_Annotations c) State = ''failed''
         \<and> (\<forall>f. parseTime (aget (c_Annotations c) FailedAt) = Some f \<longrightarrow>
              f + EffectiveBackoff (parseInt (aget (c_Annotations c) RetryCount)) (si_RetryBackoff inp)
                    f (si_WindowStart inp) (si_WindowEnd inp) \<le> si_Now inp))
     \<and> trigger_passed inp c"

text \<open>The durations of a claim are small enough for the code's arithmetic (292 years).\<close>

definition no_wrap :: "SelInputs \<Rightarrow> Claim \<Rightarrow> bool" where
  "no_wrap inp c \<longleftrightarrow>
     (\<forall>ov. si_Override inp = Some ov \<longrightarrow> is_i64 ov \<and> ov < max_i64)
     \<and> is_i64 (lead_of inp c)
     \<and> (\<forall>e. c_ExpireAfter c = Some e \<longrightarrow> is_i64 (e - lead_of inp c) \<and> e - lead_of inp c < max_i64)"

lemma triggered_passed:
  assumes "no_wrap inp c"
  shows "triggered c inp \<longleftrightarrow> trigger_passed inp c"
proof -
  have l: "LeadTime_For (si_LeadTime inp) c = lead_of inp c"
    using assms by (simp add: no_wrap_def LeadTime_For_def claimTGP_def lead_of_def add64_exact)
  show ?thesis
  proof (cases "si_Override inp")
    case None
    then show ?thesis using assms
      by (auto simp: triggered_def trigger_passed_def Let_def l no_wrap_def sub64_exact TimeSub_gt_iff split: option.splits)
  next
    case (Some ov)
    then show ?thesis using assms by (simp add: triggered_def trigger_passed_def Let_def no_wrap_def TimeSub_gt_iff)
  qed
qed

lemma failedPastBackoff_iff:
  assumes "ladder_ok (si_RetryBackoff inp)"
  shows "failedPastBackoff c inp \<longleftrightarrow>
    (\<forall>f. parseTime (aget (c_Annotations c) FailedAt) = Some f \<longrightarrow>
       f + EffectiveBackoff (parseInt (aget (c_Annotations c) RetryCount)) (si_RetryBackoff inp)
             f (si_WindowStart inp) (si_WindowEnd inp) \<le> si_Now inp)"
proof -
  have "is_i64 d \<and> min_i64 < d" if "d = EffectiveBackoff n (si_RetryBackoff inp) f start close" for d n f start close
    using effective_bounds(1,2) [OF assms, where n = n and f = f and start = start and close = close]
      effective_bounds(3) [OF assms, of n] assms that
    by (auto simp: ladder_ok_def is_i64_iff)
  then show ?thesis by (auto simp: failedPastBackoff_def TimeSub_ge_iff split: option.split)
qed

lemma eligible_may_rotate:
  assumes "ladder_ok (si_RetryBackoff inp)" "no_wrap inp c"
  shows "eligible c inp \<longleftrightarrow> may_rotate inp c"
  unfolding eligible_iff may_rotate_def triggered_passed [OF assms(2)] failedPastBackoff_iff [OF assms(1), symmetric]
  by (auto simp: stateAllows_def Let_def StateFailed_def)

text \<open>
  C13. The pick is nil exactly when no claim may rotate. Otherwise it is a claim of the list that may
  rotate, and every other claim of the list that may rotate comes after it: it expires later, or it
  expires at the same instant and is younger, or is of the same age and has the greater name. Under an
  age override the deadlines do not count: the oldest claim comes first, then the lesser name.
\<close>

theorem pick_correct:
  assumes "ladder_ok (si_RetryBackoff inp)" "\<forall>c\<in>set cs. no_wrap inp c"
  shows "case PickEarliestDeadlineEligible cs inp of
     None \<Rightarrow> \<forall>c\<in>set cs. \<not> may_rotate inp c
   | Some c \<Rightarrow> c \<in> set cs \<and> may_rotate inp c
       \<and> (\<forall>d\<in>set cs. may_rotate inp d \<longrightarrow>
            (if si_Override inp = None
             then (c_CreatedAt c + the (c_ExpireAfter c), c_CreatedAt c, c_Name c)
                    \<le> (c_CreatedAt d + the (c_ExpireAfter d), c_CreatedAt d, c_Name d)
             else (c_CreatedAt c, c_Name c) \<le> (c_CreatedAt d, c_Name d)))"
proof (cases "PickEarliestDeadlineEligible cs inp")
  case None
  then have "\<forall>c\<in>set cs. \<not> eligible c inp" using pick_None_iff [of cs inp] by (simp add: CountEligible_def filter_empty_conv)
  with None assms show ?thesis using eligible_may_rotate [OF assms(1)] by simp
next
  case (Some c)
  note p = pick_Some [OF Some]
  have e: "eligible d inp \<longleftrightarrow> may_rotate inp d" if "d \<in> set cs" for d
    using eligible_may_rotate [OF assms(1)] assms(2) that by blast
  have deadline: "\<exists>e. c_ExpireAfter d = Some e" if "si_Override inp = None" "may_rotate inp d" for d
    using that by (auto simp: may_rotate_def trigger_passed_def)
  have after: "if si_Override inp = None
      then (c_CreatedAt c + the (c_ExpireAfter c), c_CreatedAt c, c_Name c)
             \<le> (c_CreatedAt d + the (c_ExpireAfter d), c_CreatedAt d, c_Name d)
      else (c_CreatedAt c, c_Name c) \<le> (c_CreatedAt d, c_Name d)"
    if d: "d \<in> set cs" "may_rotate inp d" for d
  proof -
    have "\<not> isEarlierDeadline d c inp" using p e d by blast
    then have "rank_key inp c \<le> rank_key inp d" by (simp add: isEarlierDeadline_key not_less)
    then show ?thesis using deadline [of c] deadline [of d] d(2) p e
      by (auto simp: rank_key_def deadlineOf_def split: if_splits)
  qed
  from p e have "c \<in> set cs \<and> may_rotate inp c" by blast
  with after show ?thesis unfolding Some option.case by blast
qed



definition demo_claim :: "string \<Rightarrow> time \<Rightarrow> duration \<Rightarrow> Claim" where
  "demo_claim nm created e =
     \<lparr>c_Name = nm, c_CreatedAt = created, c_Deleting = False, c_ExpireAfter = Some e,
      c_TGP = None, c_Ready = True, c_Annotations = Map.empty\<rparr>"

definition demo_inputs :: "time \<Rightarrow> SelInputs" where
  "demo_inputs now =
     \<lparr>si_Now = now, si_LeadTime = \<lparr>lt_Base = Hour, lt_DrainFallback = Hour\<rparr>, si_Override = None,
      si_RetryBackoff = 30 * Minute, si_Excluded = {}, si_WindowStart = 0, si_WindowEnd = 0\<rparr>"

lemmas demo_eval = demo_claim_def demo_inputs_def eligible_def stateAllows_def triggered_def
  LeadTime_For_def claimTGP_def TimeSub_def add64_def sub64_def i64_def is_i64_def Let_def

lemma demo_in_range:
  "ladder_ok (si_RetryBackoff (demo_inputs now))" "0 \<le> e \<Longrightarrow> e \<le> 9 * Hour \<Longrightarrow> no_wrap (demo_inputs now) (demo_claim nm t e)"
  by (simp_all add: demo_inputs_def ladder_ok_def no_wrap_def lead_of_def demo_claim_def is_i64_iff)

theorem pick_correct_witness:
  "PickEarliestDeadlineEligible
     [demo_claim ''a'' (100 * Hour) (9 * Hour), demo_claim ''b'' (101 * Hour) (5 * Hour)]
     (demo_inputs (108 * Hour)) = Some (demo_claim ''b'' (101 * Hour) (5 * Hour))
   \<and> may_rotate (demo_inputs (108 * Hour)) (demo_claim ''b'' (101 * Hour) (5 * Hour))
   \<and> (101 * Hour + 5 * Hour, 101 * Hour, ''b'') \<le> (100 * Hour + 9 * Hour, 100 * Hour, ''a'')"
proof -
  let ?a = "demo_claim ''a'' (100 * Hour) (9 * Hour)"
  let ?b = "demo_claim ''b'' (101 * Hour) (5 * Hour)"
  have p: "PickEarliestDeadlineEligible [?a, ?b] (demo_inputs (108 * Hour)) = Some ?b"
    by (simp add: PickEarliestDeadlineEligible_def isEarlierDeadline_def deadlineOf_def demo_eval)
  have r: "\<forall>c\<in>set [?a, ?b]. no_wrap (demo_inputs (108 * Hour)) c" by (simp add: demo_in_range)
  have "may_rotate (demo_inputs (108 * Hour)) ?a"
    by (simp add: may_rotate_def trigger_passed_def lead_of_def demo_claim_def demo_inputs_def)
  with pick_correct [OF demo_in_range(1) r] p show ?thesis by (simp add: demo_claim_def demo_inputs_def)
qed

text \<open>
  The pick does not depend on the order in which the API server lists the claims: two lists
  with the same claims, whose names are pairwise different, give the same pick.
\<close>

theorem pick_order_independent:
  assumes "set cs = set cs'" "inj_on c_Name (set cs)"
  shows "PickEarliestDeadlineEligible cs inp = PickEarliestDeadlineEligible cs' inp"
  unfolding PickEarliestDeadlineEligible_def
  by (rule earliest.scan_best_set_cong [OF assms])

theorem pick_order_independent_witness:
  "PickEarliestDeadlineEligible
     [demo_claim ''b'' (100 * Hour) (9 * Hour), demo_claim ''a'' (100 * Hour) (9 * Hour)]
     (demo_inputs (108 * Hour)) = Some (demo_claim ''a'' (100 * Hour) (9 * Hour))"
proof -
  let ?a = "demo_claim ''a'' (100 * Hour) (9 * Hour)"
  let ?b = "demo_claim ''b'' (100 * Hour) (9 * Hour)"
  have s: "set [?b, ?a] = set [?a, ?b]" by auto
  have i: "inj_on c_Name (set [?b, ?a])" by (simp add: demo_claim_def inj_on_def)
  have "PickEarliestDeadlineEligible [?a, ?b] (demo_inputs (108 * Hour)) = Some ?a"
    by (simp add: PickEarliestDeadlineEligible_def isEarlierDeadline_def deadlineOf_def demo_eval)
  then show ?thesis using pick_order_independent [OF s i, of "demo_inputs (108 * Hour)"] by simp
qed



text \<open>
  In auto mode a claim triggers exactly when now is past its own deadline minus its own lead
  time, wherever the 64-bit arithmetic does not wrap.
\<close>

theorem trigger_is_deadline_minus_lead:
  assumes "si_Override inp = None" "c_ExpireAfter c = Some e"
    and "is_i64 (lt_Base (si_LeadTime inp) + claimTGP c (lt_DrainFallback (si_LeadTime inp)))"
    and "is_i64 (e - LeadTime_For (si_LeadTime inp) c)"
        "e - LeadTime_For (si_LeadTime inp) c < max_i64"
  shows "triggered c inp \<longleftrightarrow>
     c_CreatedAt c + e
       - (lt_Base (si_LeadTime inp) + (case c_TGP c of Some d \<Rightarrow> d | None \<Rightarrow> lt_DrainFallback (si_LeadTime inp)))
     < si_Now inp"
proof -
  have "LeadTime_For (si_LeadTime inp) c = lt_Base (si_LeadTime inp) +
      (case c_TGP c of Some d \<Rightarrow> d | None \<Rightarrow> lt_DrainFallback (si_LeadTime inp))"
    using assms(3) by (simp add: LeadTime_For_def claimTGP_def add64_exact)
  then show ?thesis using triggered_auto_iff [OF assms] by simp
qed

theorem trigger_is_deadline_minus_lead_witness:
  "triggered (demo_claim ''a'' (100 * Hour) (9 * Hour)) (demo_inputs (107 * Hour + 1))
   \<and> \<not> triggered (demo_claim ''a'' (100 * Hour) (9 * Hour)) (demo_inputs (107 * Hour))"
proof -
  let ?a = "demo_claim ''a'' (100 * Hour) (9 * Hour)"
  have "triggered ?a (demo_inputs n) \<longleftrightarrow> 107 * Hour < n" for n
    using trigger_is_deadline_minus_lead [of "demo_inputs n" ?a "9 * Hour"]
    by (simp add: demo_claim_def demo_inputs_def LeadTime_For_def claimTGP_def add64_def i64_def
        is_i64_def)
  then show ?thesis by simp
qed

text \<open>
  C15. The wait after the n-th failed attempt. The ladder doubles the base with every failure, three times
  at most. The wait is always a step of that ladder: never below the base, never above the step of n.
  It is below the step of n only for the sake of the window: when the attempt failed inside a known
  occurrence that still has room for the base. Then it is the largest step, up to that of n, that lands
  strictly before the close. Outside the occurrence, without one, or where not even the base fits, the
  wait is the step of n in full.
\<close>

theorem backoff_clamped_to_window:
  assumes "ladder_ok base" "is_i64 (n - 1)"
  shows "let d = EffectiveBackoff n base f start close; top = nat (min (max (n - 1) 0) 3) in
    (\<exists>s\<le>top. d = base * 2 ^ s) \<and> base \<le> d \<and> d \<le> base * 2 ^ top
    \<and> (if start = 0 \<or> close = 0 \<or> f < start \<or> close \<le> f + base then d = base * 2 ^ top
       else f + d < close \<and> (\<forall>r\<le>top. f + base * 2 ^ r < close \<longrightarrow> base * 2 ^ r \<le> d))"
proof -
  let ?d = "EffectiveBackoff n base f start close"
  have top: "ladderShift n = nat (min (max (n - 1) 0) 3)"
    using assms(2) by (simp add: ladderShift_def maxBackoffShift_def sub64_exact)
  have e: "EscalatedBackoff n base = base * 2 ^ nat (min (max (n - 1) 0) 3)" unfolding top [symmetric] by (rule escalated_eq [OF assms(1)])
  have l: "\<exists>s\<le>nat (min (max (n - 1) 0) 3). ?d = base * 2 ^ s" unfolding top [symmetric] by (rule effective_ladder [OF assms(1)])
  note b = effective_bounds(1,2) [OF assms(1), where n = n and f = f and start = start and close = close, unfolded e]
  show ?thesis
  proof (cases "start = 0 \<or> close = 0 \<or> f < start \<or> close \<le> f + base")
    case True
    then have "?d = EscalatedBackoff n base" using effective_outside effective_none_fits [OF assms(1)] by blast
    with True l b e show ?thesis by (simp add: Let_def)
  next
    case False
    then obtain s where s: "?d = base * 2 ^ s" "f + base * 2 ^ s < close"
      "\<forall>r\<le>nat (min (max (n - 1) 0) 3). f + base * 2 ^ r < close \<longrightarrow> r \<le> s"
      using effective_inside [OF assms(1), of start close f n] unfolding top by auto
    have "base * 2 ^ r \<le> base * 2 ^ s" if "r \<le> s" for r
      using that assms(1) by (simp add: ladder_ok_def power_increasing)
    with False s l b show ?thesis by (auto simp: Let_def)
  qed
qed


theorem backoff_clamped_to_window_witness:
  "EffectiveBackoff 4 (30 * Minute) (1000 * Hour) (999 * Hour) (1002 * Hour) = 60 * Minute"
proof -
  let ?d = "EffectiveBackoff 4 (30 * Minute) (1000 * Hour) (999 * Hour) (1002 * Hour)"
  have "ladder_ok (30 * Minute)" "is_i64 (4 - 1)" by (simp_all add: ladder_ok_def is_i64_iff)
  from backoff_clamped_to_window [OF this, of "1000 * Hour" "999 * Hour" "1002 * Hour"]
  obtain s where s: "s \<le> 3" "?d = 30 * Minute * 2 ^ s"
      and lt: "?d < 2 * Hour" and ge: "\<forall>r\<le>3. (30 * Minute * 2 ^ r < 2 * Hour \<longrightarrow> 30 * Minute * 2 ^ r \<le> ?d)"
    by (auto simp: Let_def)
  have "60 * Minute \<le> ?d" using ge [rule_format, of 1] by simp
  moreover have "s \<in> {0, 1, 2, 3}" using s(1) by auto
  ultimately show ?thesis using s(2) lt by auto
qed

text \<open>
  The census is a partition: its buckets sum to the number of claims, its eligible bucket is
  the candidates gauge, and its extra tally counts exactly the Ready, unclaimed, failed claims
  that are inside their backoff but past the age trigger.
\<close>

theorem census_partition:
  "cs_Total (TakeCensus cs inp) = length cs
   \<and> census_sum (TakeCensus cs inp) = length cs
   \<and> cs_Eligible (TakeCensus cs inp) = CountEligible cs inp
   \<and> cs_InBackoffTriggered (TakeCensus cs inp) = length (filter (due_in_backoff inp) cs)
   \<and> cs_InBackoffTriggered (TakeCensus cs inp) \<le> cs_InBackoff (TakeCensus cs inp)"
proof -
  define c0 where "c0 = \<lparr>cs_Total = length cs, cs_Eligible = 0, cs_OptedOut = 0, cs_Deleting = 0,
        cs_NotReady = 0, cs_InFlight = 0, cs_Terminal = 0, cs_InBackoff = 0,
        cs_NotTriggered = 0, cs_InBackoffTriggered = 0\<rparr>"
  have "TakeCensus cs inp = fold (census_step inp) cs c0" by (simp add: TakeCensus_def c0_def)
  then show ?thesis
    using fold_census [where cls = cs and c = c0 and inp = inp] fold_census_due [of inp cs c0]
    by (simp add: c0_def census_sum_def)
qed

text \<open>
  A claim whose own lead time already exceeds its expiry (a short-lead claim) is past the
  trigger from the first instant after its creation, so it is rotated best-effort rather than
  left to Forceful Expiration.
\<close>

theorem short_lead_triggered:
  assumes "c \<in> set (ShortLeadClaims cs (si_LeadTime inp))" "si_Override inp = None"
    and "min_i64 \<le> the (c_ExpireAfter c) - LeadTime_For (si_LeadTime inp) c"
    and "c_CreatedAt c < si_Now inp"
  shows "triggered c inp"
  by (rule short_lead_triggered_aux [OF assms])

theorem short_lead_triggered_witness:
  "triggered (demo_claim ''a'' (100 * Hour) (2 * Hour)) (demo_inputs (100 * Hour + 1))"
  by (rule short_lead_triggered [of _ "[demo_claim ''a'' (100 * Hour) (2 * Hour)]"])
    (simp_all add: ShortLeadClaims_def demo_eval)

end
