(* ===== verification/Float64.thy ===== *)
theory Float64
  imports Prelude
begin

text \<open>
  Go's \<open>float64\<close> on integers: \<open>f64 x\<close> is the integer nearest to x that has 53 significant
  bits, ties to even. It is exact below 2^53 and monotone.
\<close>

text \<open>Conversion to \<open>float64\<close>: 53 significant bits, round half to even.\<close>

fun f64_exp :: "nat \<Rightarrow> nat" where
  "f64_exp n = (if n < 2 ^ 53 then 0 else Suc (f64_exp (n div 2)))"

declare f64_exp.simps [simp del]

definition round_even :: "nat \<Rightarrow> nat \<Rightarrow> nat" where
  "round_even n k =
     (let q = n div 2 ^ k; r = n mod 2 ^ k
      in if 2 ^ k < 2 * r \<or> (2 ^ k = 2 * r \<and> odd q) then q + 1 else q)"

definition f64_nat :: "nat \<Rightarrow> nat" where
  "f64_nat n = (let k = f64_exp n in round_even n k * 2 ^ k)"

definition f64 :: "int \<Rightarrow> int" where
  "f64 x = sgn x * int (f64_nat (nat \<bar>x\<bar>))"

text \<open>Rounding is the identity on integers of at most 53 bits, and monotone.\<close>

lemma f64_exact: "\<bar>x\<bar> < 2 ^ 53 \<Longrightarrow> f64 x = x"
  by (simp add: f64_def f64_nat_def f64_exp.simps [of "nat \<bar>x\<bar>"] round_even_def nat_less_iff
      mult.commute [of "sgn x"] abs_mult_sgn)

lemma f64_exp_range: "n < 2 ^ (53 + f64_exp n) \<and> (f64_exp n \<noteq> 0 \<longrightarrow> 2 ^ (52 + f64_exp n) \<le> n)"
proof (induction n rule: f64_exp.induct)
  case (1 n)
  show ?case
  proof (cases "n < 2 ^ 53")
    case True
    then show ?thesis by (simp add: f64_exp.simps)
  next
    case False
    then have e: "f64_exp n = Suc (f64_exp (n div 2))" by (subst f64_exp.simps) simp
    define k m where "k = f64_exp (n div 2)" and "m = n div 2"
    have n: "n = 2 * m + n mod 2" "n mod 2 < 2" by (simp_all add: m_def)
    have IH: "m < 2 ^ (53 + k)" "k \<noteq> 0 \<longrightarrow> 2 ^ (52 + k) \<le> m"
      using 1 [OF False] by (simp_all add: k_def m_def)
    have up: "n < 2 ^ (53 + Suc k)"
    proof -
      have "m + 1 \<le> 2 ^ (53 + k)" using IH(1) by simp
      then have "2 * m + 2 \<le> 2 * 2 ^ (53 + k)" by linarith
      moreover have "(2::nat) ^ (53 + Suc k) = 2 * 2 ^ (53 + k)" by (simp only: add_Suc_right power_Suc)
      ultimately show ?thesis using n by linarith
    qed
    have lo: "2 ^ (52 + Suc k) \<le> n"
    proof (cases "k = 0")
      case True
      with False show ?thesis by simp
    next
      case False
      with IH(2) have "2 * 2 ^ (52 + k) \<le> 2 * m" by simp
      moreover have "(2::nat) ^ (52 + Suc k) = 2 * 2 ^ (52 + k)" by (simp only: add_Suc_right power_Suc)
      ultimately show ?thesis using n by linarith
    qed
    from up lo e show ?thesis by (simp add: k_def [symmetric])
  qed
qed

lemma round_even_mono:
  assumes "a \<le> b"
  shows "round_even a k \<le> round_even b k"
proof -
  define p where "p = (2::nat) ^ k"
  have p: "0 < p" by (simp add: p_def)
  have q: "a div p \<le> b div p" using assms by (rule div_le_mono)
  show ?thesis
  proof (cases "a div p = b div p")
    case True
    have r: "a mod p \<le> b mod p"
    proof -
      have "a div p * p + a mod p = a" "a div p * p + b mod p = b"
        by (simp, simp add: True)
      with assms show ?thesis by (metis nat_add_left_cancel_le)
    qed
    show ?thesis
      unfolding round_even_def Let_def p_def [symmetric] using True r by auto
  next
    case False
    with q have "a div p + 1 \<le> b div p" by linarith
    then show ?thesis unfolding round_even_def Let_def p_def [symmetric] by auto
  qed
qed

lemma round_even_range:
  assumes "f64_exp n = k"
  shows "round_even n k \<le> 2 ^ 53" "k \<noteq> 0 \<Longrightarrow> 2 ^ 52 \<le> round_even n k"
proof -
  have "n div 2 ^ k < 2 ^ 53"
    using f64_exp_range [of n] assms by (simp add: less_mult_imp_div_less power_add)
  then show "round_even n k \<le> 2 ^ 53" by (simp add: round_even_def Let_def)
  assume "k \<noteq> 0"
  then have "2 ^ 52 * 2 ^ k \<le> n"
    using f64_exp_range [of n] assms by (simp add: power_add)
  then have "2 ^ 52 \<le> n div 2 ^ k" by (simp add: less_eq_div_iff_mult_less_eq)
  then show "2 ^ 52 \<le> round_even n k" by (simp add: round_even_def Let_def)
qed

lemma f64_exp_mono: "a \<le> b \<Longrightarrow> f64_exp a \<le> f64_exp b"
proof (rule ccontr)
  assume ab: "a \<le> b" and n: "\<not> f64_exp a \<le> f64_exp b"
  have "b < 2 ^ (53 + f64_exp b)" "2 ^ (52 + f64_exp a) \<le> a" using f64_exp_range [of a] f64_exp_range [of b] n
    by auto
  moreover have "(2::nat) ^ (53 + f64_exp b) \<le> 2 ^ (52 + f64_exp a)"
    using n by (intro power_increasing) auto
  ultimately show False using ab by linarith
qed

lemma f64_nat_mono:
  assumes "a \<le> b"
  shows "f64_nat a \<le> f64_nat b"
proof (cases "f64_exp a = f64_exp b")
  case True
  then show ?thesis
    using round_even_mono [OF assms] by (simp add: f64_nat_def Let_def)
next
  case False
  define ka kb where "ka = f64_exp a" and "kb = f64_exp b"
  have lt: "ka < kb" using f64_exp_mono [OF assms] False by (simp add: ka_def kb_def)
  have "round_even a ka * 2 ^ ka \<le> 2 ^ 53 * 2 ^ ka"
    using round_even_range(1) [of a ka] by (simp add: ka_def)
  also have "\<dots> = 2 ^ (53 + ka)" by (simp only: power_add)
  also have "\<dots> \<le> 2 ^ (52 + kb)" using lt by (intro power_increasing) auto
  also have "\<dots> = 2 ^ 52 * 2 ^ kb" by (simp only: power_add)
  also have "\<dots> \<le> round_even b kb * 2 ^ kb"
    using round_even_range(2) [of b kb] lt by (intro mult_le_mono1) (simp add: kb_def)
  finally show ?thesis by (simp add: f64_nat_def Let_def ka_def kb_def)
qed

lemma f64_mono: "0 \<le> x \<Longrightarrow> x \<le> y \<Longrightarrow> f64 x \<le> f64 y"
  using f64_nat_mono [of "nat \<bar>x\<bar>" "nat \<bar>y\<bar>"]
  by (cases "x = 0"; cases "y = 0") (auto simp: f64_def sgn_if)

end
