(* ===== verification/GoText.thy ===== *)
theory GoText
  imports GoTime Float64
begin

text \<open>
  What the policy parser uses of Go's \<open>strings\<close> and \<open>time\<close> packages on byte strings:
  \<open>strings.Split\<close> on one byte, \<open>strings.TrimSpace\<close> (the Unicode spaces in UTF-8),
  \<open>strings.ToLower\<close> (the letters whose lower case is ASCII; the others map to other non-ASCII
  letters, which no caller distinguishes) and \<open>time.ParseDuration\<close> with its overflow checks and
  its \<open>float64\<close> arithmetic for fractions.
\<close>

section \<open>Strings\<close>

fun Split :: "char \<Rightarrow> string \<Rightarrow> string list" where
  "Split sep [] = [[]]"
| "Split sep (c # cs) =
     (if c = sep then [] # Split sep cs
      else case Split sep cs of [] \<Rightarrow> [[c]] | p # ps \<Rightarrow> (c # p) # ps)"

lemma Split_nonempty [simp]: "Split sep s \<noteq> []"
  by (induction s) (auto split: list.splits)

lemma Split_no_sep: "sep \<notin> set s \<Longrightarrow> Split sep s = [s]"
  by (induction s) auto

lemma Split_append: "sep \<notin> set s \<Longrightarrow> Split sep (s @ sep # t) = s # Split sep t"
  by (induction s) auto

definition bytes :: "nat list \<Rightarrow> string" where
  "bytes ns = map char_of ns"

definition unicode_spaces :: "string list" where
  "unicode_spaces =
     map (\<lambda>n. bytes [n]) [9, 10, 11, 12, 13, 32]
     @ [bytes [0xC2, 0x85], bytes [0xC2, 0xA0], bytes [0xE1, 0x9A, 0x80]]
     @ map (\<lambda>n. bytes [0xE2, 0x80, n])
         [0x80, 0x81, 0x82, 0x83, 0x84, 0x85, 0x86, 0x87, 0x88, 0x89, 0x8A, 0xA8, 0xA9, 0xAF]
     @ [bytes [0xE2, 0x81, 0x9F], bytes [0xE3, 0x80, 0x80]]"

definition strip_one :: "string list \<Rightarrow> string \<Rightarrow> string option" where
  "strip_one ws s =
     map_option (\<lambda>w. drop (length w) s) (List.find (\<lambda>w. w \<noteq> [] \<and> take (length w) s = w) ws)"

lemma strip_one_shorter: "strip_one ws s = Some t \<Longrightarrow> length t < length s"
  by (auto simp: strip_one_def find_Some_iff) (metis gr_zeroI length_drop diff_less length_greater_0_conv take_Nil take_eq_Nil2 nth_mem)

function trimLeft :: "string list \<Rightarrow> string \<Rightarrow> string" where
  "trimLeft ws s = (case strip_one ws s of None \<Rightarrow> s | Some t \<Rightarrow> trimLeft ws t)"
  by pat_completeness auto
termination by (relation "measure (length \<circ> snd)") (auto dest: strip_one_shorter)

declare trimLeft.simps [simp del]

definition TrimSpace :: "string \<Rightarrow> string" where
  "TrimSpace s = rev (trimLeft (map rev unicode_spaces) (rev (trimLeft unicode_spaces s)))"

definition lower_char :: "char \<Rightarrow> char" where
  "lower_char c = (let n = of_char c :: nat in if 65 \<le> n \<and> n \<le> 90 then char_of (n + 32) else c)"

text \<open>U+0130 and U+212A are the non-ASCII letters whose lower case is ASCII.\<close>

fun ToLower :: "string \<Rightarrow> string" where
  "ToLower [] = []"
| "ToLower (c # cs) =
     (if c = char_of (0xC4::nat) \<and> take 1 cs = bytes [0xB0] then CHR ''i'' # ToLower (drop 1 cs)
      else if c = char_of (0xE2::nat) \<and> take 2 cs = bytes [0x84, 0xAA] then CHR ''k'' # ToLower (drop 2 cs)
      else lower_char c # ToLower cs)"

lemma unicode_spaces_eval:
  "unicode_spaces = [[CHR 0x09],[CHR 0x0A],[CHR 0x0B],[CHR 0x0C],[CHR 0x0D],[CHR 0x20],
  [CHR 0xC2, CHR 0x85],[CHR 0xC2, CHR 0xA0],[CHR 0xE1, CHR 0x9A, CHR 0x80],
  [CHR 0xE2, CHR 0x80, CHR 0x80],[CHR 0xE2, CHR 0x80, CHR 0x81],[CHR 0xE2, CHR 0x80, CHR 0x82],
  [CHR 0xE2, CHR 0x80, CHR 0x83],[CHR 0xE2, CHR 0x80, CHR 0x84],[CHR 0xE2, CHR 0x80, CHR 0x85],
  [CHR 0xE2, CHR 0x80, CHR 0x86],[CHR 0xE2, CHR 0x80, CHR 0x87],[CHR 0xE2, CHR 0x80, CHR 0x88],
  [CHR 0xE2, CHR 0x80, CHR 0x89],[CHR 0xE2, CHR 0x80, CHR 0x8A],[CHR 0xE2, CHR 0x80, CHR 0xA8],
  [CHR 0xE2, CHR 0x80, CHR 0xA9],[CHR 0xE2, CHR 0x80, CHR 0xAF],
  [CHR 0xE2, CHR 0x81, CHR 0x9F],[CHR 0xE3, CHR 0x80, CHR 0x80]]"
  by (simp add: unicode_spaces_def bytes_def char_of_def bit_iff_odd)

lemmas text_eval = unicode_spaces_eval TrimSpace_def trimLeft.simps strip_one_def lower_char_def
  char_of_def bit_iff_odd

section \<open>\<open>time.ParseDuration\<close>\<close>

definition is_digit :: "char \<Rightarrow> bool" where
  "is_digit c \<longleftrightarrow> digit_val c \<noteq> None"

fun leadingInt :: "int \<Rightarrow> string \<Rightarrow> (int \<times> string) option" where
  "leadingInt x [] = Some (x, [])"
| "leadingInt x (c # cs) =
     (case digit_val c of
        None \<Rightarrow> Some (x, c # cs)
      | Some d \<Rightarrow>
          if 2 ^ 63 div 10 < x then None
          else if 2 ^ 63 < x * 10 + d then None
          else leadingInt (x * 10 + d) cs)"

fun leadingFraction :: "int \<Rightarrow> int \<Rightarrow> bool \<Rightarrow> string \<Rightarrow> int \<times> int \<times> string" where
  "leadingFraction x scale overflow [] = (x, scale, [])"
| "leadingFraction x scale overflow (c # cs) =
     (case digit_val c of
        None \<Rightarrow> (x, scale, c # cs)
      | Some d \<Rightarrow>
          if overflow then leadingFraction x scale overflow cs
          else if (2 ^ 63 - 1) div 10 < x then leadingFraction x scale True cs
          else if 2 ^ 63 < x * 10 + d then leadingFraction x scale True cs
          else leadingFraction (x * 10 + d) (scale * 10) False cs)"

definition unitMap :: "string \<rightharpoonup> int" where
  "unitMap =
     [''ns'' \<mapsto> 1, ''us'' \<mapsto> 1000, bytes [0xC2, 0xB5] @ ''s'' \<mapsto> 1000, bytes [0xCE, 0xBC] @ ''s'' \<mapsto> 1000,
      ''ms'' \<mapsto> 1000000, ''s'' \<mapsto> Second, ''m'' \<mapsto> Minute, ''h'' \<mapsto> Hour]"

text \<open>
  \<open>uint64(float64(f) * (float64(unit) / scale))\<close>. The quotient is rounded from 128 binary places
  and a sticky bit, which decide the rounding of a quotient of integers below 2^64 exactly.
\<close>

definition fraction_ns :: "int \<Rightarrow> int \<Rightarrow> int \<Rightarrow> int" where
  "fraction_ns f unit scale =
     (let q = unit * 2 ^ 128 div scale; sticky = (if unit * 2 ^ 128 mod scale = 0 then 0 else 1)
      in f64 (f64 f * f64 (2 * q + sticky)) div 2 ^ 129)"

definition unit_length :: "string \<Rightarrow> nat" where
  "unit_length s = length (takeWhile (\<lambda>c. \<not> (c = CHR ''.'' \<or> is_digit c)) s)"

definition duration_term :: "string \<Rightarrow> (int \<times> string) option" where
  "duration_term s =
     (case leadingInt 0 s of
        None \<Rightarrow> None
      | Some (v, s1) \<Rightarrow>
          let pre = (length s1 \<noteq> length s);
              (f, scale, s2, post) =
                (if take 1 s1 = ''.'' then
                   (case leadingFraction 0 1 False (drop 1 s1) of
                      (f, scale, r) \<Rightarrow> (f, scale, r, length r \<noteq> length (drop 1 s1)))
                 else (0, 1, s1, False));
              i = unit_length s2
          in if \<not> pre \<and> \<not> post then None
             else if i = 0 then None
             else case unitMap (take i s2) of
                    None \<Rightarrow> None
                  | Some unit \<Rightarrow>
                      if 2 ^ 63 div unit < v then None
                      else let w = v * unit + (if 0 < f then fraction_ns f unit scale else 0)
                           in if 2 ^ 63 < w then None else Some (w, drop i s2))"

lemma leadingInt_length: "leadingInt x s = Some (v, r) \<Longrightarrow> length r \<le> length s"
proof (induction s arbitrary: x)
  case (Cons c cs)
  then show ?case by (fastforce split: option.splits if_splits)
qed simp

lemma leadingFraction_length: "leadingFraction x sc ov s = (f, scale, r) \<Longrightarrow> length r \<le> length s"
proof (induction s arbitrary: x sc ov)
  case (Cons c cs)
  then show ?case by (auto split: option.splits if_splits dest!: Cons.IH)
qed simp

lemma duration_term_shorter: "duration_term s = Some (w, r) \<Longrightarrow> length r < length s"
  unfolding duration_term_def unit_length_def Let_def
  by (auto split: option.splits prod.splits if_splits dest!: leadingInt_length leadingFraction_length)

text \<open>The sum \<open>d\<close> is a \<open>uint64\<close>.\<close>

function duration_terms :: "int \<Rightarrow> string \<Rightarrow> int option" where
  "duration_terms d s =
     (if s = [] then Some d
      else case duration_term s of
             None \<Rightarrow> None
           | Some (w, r) \<Rightarrow>
               let d' = (d + w) mod 2 ^ 64 in if 2 ^ 63 < d' then None else duration_terms d' r)"
  by pat_completeness auto
termination by (relation "measure (length \<circ> snd)") (auto dest: duration_term_shorter)

declare duration_terms.simps [simp del]

definition ParseDuration :: "string \<Rightarrow> duration option" where
  "ParseDuration s =
     (let neg = (take 1 s = ''-''); t = (if take 1 s = ''-'' \<or> take 1 s = ''+'' then drop 1 s else s)
      in if t = ''0'' then Some 0
         else if t = '''' then None
         else case duration_terms 0 t of
                None \<Rightarrow> None
              | Some d \<Rightarrow> if neg then Some (- d)
                           else if 2 ^ 63 - 1 < d then None else Some d)"

lemma duration_terms_range: "duration_terms d s = Some r \<Longrightarrow> 0 \<le> d \<Longrightarrow> d \<le> 2 ^ 63 \<Longrightarrow> 0 \<le> r \<and> r \<le> 2 ^ 63"
proof (induction d s rule: duration_terms.induct)
  case (1 d s)
  show ?case
  proof (cases "s = []")
    case True
    then show ?thesis using 1 by (simp add: duration_terms.simps)
  next
    case False
    with 1(2) obtain w t where w: "duration_term s = Some (w, t)"
      by (auto simp: duration_terms.simps [of d s] split: option.splits)
    with 1(2) False have c: "\<not> 2 ^ 63 < (d + w) mod 2 ^ 64" "duration_terms ((d + w) mod 2 ^ 64) t = Some r"
      by (auto simp: duration_terms.simps [of d s] Let_def split: if_splits)
    show ?thesis using 1(1) [OF False w refl refl c(1) c(2)] c by simp
  qed
qed

lemma ParseDuration_range: "ParseDuration s = Some d \<Longrightarrow> is_i64 d"
  by (auto simp: ParseDuration_def Let_def is_i64_def split: if_splits option.splits
      dest!: duration_terms_range)

end
