(* ===== verification/Policy.thy ===== *)
theory Policy
  imports GoText
begin

text \<open>
  The RotationPolicy spec of \<open>api/v1alpha1\<close>, the policy value of \<open>internal/policy\<close> with its
  defaulting, validation and parsers, and the conversion \<open>internal/crd.ToPolicy\<close>. The label
  selector is carried through unread (a type parameter); \<open>time.LoadLocation\<close>, which reads the
  host's zone database, is the parameter \<open>loadLocation\<close>. An error is a constructor that names the
  check and the values of its message.
\<close>

section \<open>The custom resource\<close>

record MaintenanceWindow =
  mw_Timezone :: string
  mw_Days :: "string list"
  mw_Start :: string
  mw_End :: string

record FeatureToggle =
  ft_Enabled :: bool

record MatchNodeRequirements =
  mnr_Required :: "string list"
  mnr_Preferred :: "string list"

record ApiMaintenanceWindow =
  amw_Timezone :: string
  amw_Days :: "string list"
  amw_Start :: string
  amw_End :: string

record ApiFeatureToggle =
  aft_Enabled :: bool

record ApiMatchNodeRequirements =
  amnr_Required :: "string list"
  amnr_Preferred :: "string list"

record ApiSurge =
  as_MaxUnavailable :: "int option"
  as_ReadyTimeout :: "duration option"
  as_CooldownAfter :: "duration option"
  as_FailurePause :: "duration option"
  as_RetryBackoff :: "duration option"
  as_MatchNodeRequirements :: ApiMatchNodeRequirements
  as_ForcefulFallback :: ApiFeatureToggle
  as_WholeNodeReservation :: ApiFeatureToggle
  as_DrainEstimate :: "duration option"
  as_ProvisioningEstimate :: "duration option"

record 'sel RotationPolicySpec =
  sp_NodePoolSelector :: "'sel option"
  sp_AgeThreshold :: string
  sp_MinRotationChances :: "int option"
  sp_MaintenanceWindows :: "ApiMaintenanceWindow list"
  sp_Surge :: ApiSurge
  sp_PrePull :: ApiFeatureToggle

section \<open>The policy value\<close>

record Surge =
  su_MaxUnavailable :: "int option"
  su_ReadyTimeout :: "duration option"
  su_CooldownAfter :: "duration option"
  su_RetryBackoff :: "duration option"
  su_MatchNodeRequirements :: MatchNodeRequirements
  su_ForcefulFallback :: FeatureToggle
  su_WholeNodeReservation :: FeatureToggle
  su_DrainEstimate :: "duration option"
  su_ProvisioningEstimate :: "duration option"
  su_FailurePause :: "duration option"

record Policy =
  p_AgeThreshold :: string
  p_MinRotationChances :: "int option"
  p_MaintenanceWindows :: "MaintenanceWindow list"
  p_Surge :: Surge
  p_PrePull :: FeatureToggle

definition FailurePauseFloor :: duration where "FailurePauseFloor = 10 * Minute"

definition ageThresholdAuto :: string where "ageThresholdAuto = ''auto''"

definition defaultRequiredRequirements :: "string list" where
  "defaultRequiredRequirements =
     [''topology.kubernetes.io/zone'', ''kubernetes.io/arch'', ''karpenter.sh/capacity-type'']"

text \<open>\<open>time.Weekday\<close>: Sunday is 0.\<close>

type_synonym weekday = int

definition isoWeekdays :: "string \<rightharpoonup> weekday" where
  "isoWeekdays = [''mon'' \<mapsto> 1, ''tue'' \<mapsto> 2, ''wed'' \<mapsto> 3, ''thu'' \<mapsto> 4, ''fri'' \<mapsto> 5, ''sat'' \<mapsto> 6, ''sun'' \<mapsto> 0]"

definition or_default :: "'a option \<Rightarrow> 'a \<Rightarrow> 'a option" where
  "or_default x d = (case x of None \<Rightarrow> Some d | Some _ \<Rightarrow> x)"

definition ApplyDefaults :: "Policy \<Rightarrow> Policy" where
  "ApplyDefaults p =
     (let s = p_Surge p;
          mnr = su_MatchNodeRequirements s;
          mnr = (if mnr_Required mnr = [] then mnr\<lparr>mnr_Required := defaultRequiredRequirements\<rparr> else mnr)
      in p\<lparr>p_AgeThreshold := (if p_AgeThreshold p = '''' then ageThresholdAuto else p_AgeThreshold p),
           p_MinRotationChances := or_default (p_MinRotationChances p) 2,
           p_Surge := s\<lparr>su_MaxUnavailable := or_default (su_MaxUnavailable s) 1,
                       su_ReadyTimeout := or_default (su_ReadyTimeout s) (15 * Minute),
                       su_CooldownAfter := or_default (su_CooldownAfter s) (10 * Minute),
                       su_RetryBackoff := or_default (su_RetryBackoff s) (30 * Minute),
                       su_MatchNodeRequirements := mnr\<rparr>\<rparr>)"

section \<open>Parsers\<close>

definition ParseWeekday :: "string \<Rightarrow> weekday option" where
  "ParseWeekday s = isoWeekdays (ToLower (TrimSpace s))"

datatype HHMMError = HHMMShape string | HHMMRange string

definition ParseHHMM :: "string \<Rightarrow> HHMMError + int" where
  "ParseHHMM s =
     (case Split (CHR '':'') s of
        [hs, ms] \<Rightarrow>
          if length hs \<noteq> 2 \<or> length ms \<noteq> 2 then Inl (HHMMShape s)
          else (case (Atoi hs, Atoi ms) of
                  (Some h, Some m) \<Rightarrow>
                    if h < 0 \<or> 23 < h \<or> m < 0 \<or> 59 < m then Inl (HHMMRange s) else Inr (h * 60 + m)
                | _ \<Rightarrow> Inl (HHMMRange s))
      | _ \<Rightarrow> Inl (HHMMShape s))"

datatype AgeError = AgeUnparseable string | AgeNotPositive duration

text \<open>The result of a successful call is the override, or None for \<open>isAuto\<close>.\<close>

definition AgeThresholdOverride :: "Policy \<Rightarrow> AgeError + duration option" where
  "AgeThresholdOverride p =
     (if p_AgeThreshold p = ageThresholdAuto then Inr None
      else case ParseDuration (p_AgeThreshold p) of
             None \<Rightarrow> Inl (AgeUnparseable (p_AgeThreshold p))
           | Some d \<Rightarrow> if d \<le> 0 then Inl (AgeNotPositive d) else Inr (Some d))"

definition policy_K :: "Policy \<Rightarrow> int" where
  "policy_K p = (case p_MinRotationChances p of None \<Rightarrow> 0 | Some k \<Rightarrow> k)"

definition SurgeMaxUnavailable :: "Policy \<Rightarrow> int" where
  "SurgeMaxUnavailable p = (case su_MaxUnavailable (p_Surge p) of None \<Rightarrow> 0 | Some m \<Rightarrow> m)"

section \<open>Validation\<close>

datatype PolicyError =
    EMinRotationChances int
  | EMaxUnavailable "int option"
  | ENotPositive string duration
  | ECooldownNegative duration
  | EAgeThreshold AgeError
  | EWindowsEmpty
  | EWindowTimezone nat string
  | EWindowDaysEmpty nat
  | EWindowDay nat string
  | EWindowStart nat HHMMError
  | EWindowEnd nat HHMMError
  | EWindowStartIsEnd nat
  | EWindowOvernight nat string string
  | EPrePull

definition window_validate ::
  "(string \<Rightarrow> 'loc option) \<Rightarrow> nat \<Rightarrow> MaintenanceWindow \<Rightarrow> PolicyError list" where
  "window_validate loadLocation i w =
     (if loadLocation (mw_Timezone w) = None then [EWindowTimezone i (mw_Timezone w)] else [])
     @ (if mw_Days w = [] then [EWindowDaysEmpty i] else [])
     @ concat (map (\<lambda>d. if ParseWeekday d = None then [EWindowDay i d] else []) (mw_Days w))
     @ (case ParseHHMM (mw_Start w) of Inl e \<Rightarrow> [EWindowStart i e] | Inr _ \<Rightarrow> [])
     @ (case ParseHHMM (mw_End w) of Inl e \<Rightarrow> [EWindowEnd i e] | Inr _ \<Rightarrow> [])
     @ (case (ParseHHMM (mw_Start w), ParseHHMM (mw_End w)) of
          (Inr st, Inr en) \<Rightarrow>
            (if st = en then [EWindowStartIsEnd i]
             else if en < st then [EWindowOvernight i (mw_End w) (mw_Start w)]
             else [])
        | _ \<Rightarrow> [])"

definition positive_check :: "string \<times> duration option \<Rightarrow> PolicyError list" where
  "positive_check nv =
     (case snd nv of Some d \<Rightarrow> if d \<le> 0 then [ENotPositive (fst nv) d] else [] | None \<Rightarrow> [])"

definition Validate :: "(string \<Rightarrow> 'loc option) \<Rightarrow> Policy \<Rightarrow> PolicyError list" where
  "Validate loadLocation p =
     (case p_MinRotationChances p of Some k \<Rightarrow> if k < 1 then [EMinRotationChances k] else [] | None \<Rightarrow> [])
     @ (if su_MaxUnavailable (p_Surge p) = None \<or> su_MaxUnavailable (p_Surge p) \<noteq> Some 1
        then [EMaxUnavailable (su_MaxUnavailable (p_Surge p))] else [])
     @ concat (map positive_check
         [(''surge.readyTimeout'', su_ReadyTimeout (p_Surge p)),
          (''surge.retryBackoff'', su_RetryBackoff (p_Surge p)),
          (''surge.drainEstimate'', su_DrainEstimate (p_Surge p)),
          (''surge.provisioningEstimate'', su_ProvisioningEstimate (p_Surge p)),
          (''surge.failurePause'', su_FailurePause (p_Surge p))])
     @ (case su_CooldownAfter (p_Surge p) of Some d \<Rightarrow> if d < 0 then [ECooldownNegative d] else [] | None \<Rightarrow> [])
     @ (case AgeThresholdOverride p of Inl e \<Rightarrow> [EAgeThreshold e] | Inr _ \<Rightarrow> [])
     @ (if p_MaintenanceWindows p = [] then [EWindowsEmpty] else [])
     @ concat (map (\<lambda>(i, w). window_validate loadLocation i w)
         (List.enumerate 0 (p_MaintenanceWindows p)))
     @ (if ft_Enabled (p_PrePull p) then [EPrePull] else [])"

section \<open>Conversion from the custom resource\<close>

definition toWindow :: "ApiMaintenanceWindow \<Rightarrow> MaintenanceWindow" where
  "toWindow w = \<lparr>mw_Timezone = amw_Timezone w, mw_Days = amw_Days w, mw_Start = amw_Start w,
     mw_End = amw_End w\<rparr>"

definition toWindows :: "ApiMaintenanceWindow list \<Rightarrow> MaintenanceWindow list" where
  "toWindows ws = map toWindow ws"

definition toSurge :: "ApiSurge \<Rightarrow> Surge" where
  "toSurge s =
     \<lparr>su_MaxUnavailable = as_MaxUnavailable s, su_ReadyTimeout = as_ReadyTimeout s,
      su_CooldownAfter = as_CooldownAfter s, su_RetryBackoff = as_RetryBackoff s,
      su_MatchNodeRequirements =
        \<lparr>mnr_Required = amnr_Required (as_MatchNodeRequirements s),
         mnr_Preferred = amnr_Preferred (as_MatchNodeRequirements s)\<rparr>,
      su_ForcefulFallback = \<lparr>ft_Enabled = aft_Enabled (as_ForcefulFallback s)\<rparr>,
      su_WholeNodeReservation = \<lparr>ft_Enabled = aft_Enabled (as_WholeNodeReservation s)\<rparr>,
      su_DrainEstimate = as_DrainEstimate s, su_ProvisioningEstimate = as_ProvisioningEstimate s,
      su_FailurePause = as_FailurePause s\<rparr>"

definition ToPolicy ::
  "(string \<Rightarrow> 'loc option) \<Rightarrow> 'sel RotationPolicySpec \<Rightarrow> PolicyError list + Policy" where
  "ToPolicy loadLocation spec =
     (let p = ApplyDefaults
                \<lparr>p_AgeThreshold = sp_AgeThreshold spec, p_MinRotationChances = sp_MinRotationChances spec,
                 p_MaintenanceWindows = toWindows (sp_MaintenanceWindows spec),
                 p_Surge = toSurge (sp_Surge spec),
                 p_PrePull = \<lparr>ft_Enabled = aft_Enabled (sp_PrePull spec)\<rparr>\<rparr>
      in case Validate loadLocation p of [] \<Rightarrow> Inr p | es \<Rightarrow> Inl es)"

section \<open>Lemmas\<close>

lemma concat_map_Nil_iff: "concat (map f xs) = [] \<longleftrightarrow> (\<forall>x\<in>set xs. f x = [])"
  by auto

lemma ParseWeekday_range: "ParseWeekday s = Some d \<Longrightarrow> 0 \<le> d \<and> d \<le> 6"
  by (auto simp: ParseWeekday_def isoWeekdays_def split: if_splits)

lemma ParseHHMM_range: "ParseHHMM s = Inr m \<Longrightarrow> 0 \<le> m \<and> m < 1440"
  by (auto simp: ParseHHMM_def split: list.splits if_splits option.splits)

definition HHMM :: "int \<Rightarrow> string" where
  "HHMM m = appendInt 2 (m div 60) @ '':'' @ appendInt 2 (m mod 60)"

lemma digit_char_inj_sep:
  assumes "0 \<le> d" "d \<le> 9"
  shows "digit_char d \<noteq> CHR '':''"
proof
  assume e: "digit_char d = CHR '':''"
  have "digit_val (digit_char d) = None" unfolding e by (simp add: digit_val_def)
  with digit_val_char [OF assms] show False by simp
qed

lemma two_digits:
  assumes "0 \<le> x" "x < 100"
  shows "\<exists>a b. 0 \<le> a \<and> a \<le> 9 \<and> 0 \<le> b \<and> b \<le> 9 \<and> x = a * 10 + b
    \<and> appendInt 2 x = [digit_char a, digit_char b]"
proof (cases "x < 10")
  case True
  have z: "digit_char 0 = CHR ''0''" by (simp add: digit_char_def char_of_def bit_iff_odd)
  have "appendInt 2 x = [digit_char 0, digit_char x]"
    using True assms by (simp add: appendInt_def show_nat_1 z Let_def)
  with True assms show ?thesis by (intro exI [of _ 0] exI [of _ x]) auto
next
  case False
  define a b where "a = x div 10" and "b = x mod 10"
  have r: "1 \<le> a" "a \<le> 9" "0 \<le> b" "b \<le> 9" "x = a * 10 + b"
    using False assms div_bounds [of 10 1 x 10] by (auto simp: a_def b_def)
  have "nat x div 10 = nat a" "nat x mod 10 = nat b"
    using assms by (simp_all add: a_def b_def nat_div_distrib nat_mod_distrib)
  then have "appendInt 2 x = [digit_char a, digit_char b]"
    using False r by (simp add: appendInt_def show_nat_2 show_nat_1 Let_def)
  with r show ?thesis by (intro exI [of _ a] exI [of _ b]) auto
qed

lemma Atoi_two_digits:
  assumes "0 \<le> a" "a \<le> 9" "0 \<le> b" "b \<le> 9"
  shows "Atoi [digit_char a, digit_char b] = Some (a * 10 + b)"
  using assms digit_char_not_sign [of a] by (simp add: Atoi_def digit_val_char Let_def is_i64_def)

lemma ParseHHMM_HHMM:
  assumes "0 \<le> m" "m < 1440"
  shows "ParseHHMM (HHMM m) = Inr m"
proof -
  have h: "0 \<le> m div 60" "m div 60 < 24" using assms div_bounds [of 60 0 m 24] by auto
  have mi: "0 \<le> m mod 60" "m mod 60 < 60" by simp_all
  obtain a b where ab: "0 \<le> a" "a \<le> 9" "0 \<le> b" "b \<le> 9" "m div 60 = a * 10 + b"
    "appendInt 2 (m div 60) = [digit_char a, digit_char b]"
    using two_digits [of "m div 60"] h by auto
  obtain c d where cd: "0 \<le> c" "c \<le> 9" "0 \<le> d" "d \<le> 9" "m mod 60 = c * 10 + d"
    "appendInt 2 (m mod 60) = [digit_char c, digit_char d]"
    using two_digits [of "m mod 60"] mi by auto
  have "Split (CHR '':'') (HHMM m) = [[digit_char a, digit_char b], [digit_char c, digit_char d]]"
    using ab cd digit_char_inj_sep by (simp add: HHMM_def)
  moreover have "(a * 10 + b) * 60 + (c * 10 + d) = m"
    unfolding ab(5) [symmetric] cd(5) [symmetric] by simp
  moreover have "a * 10 + b < 24" "c * 10 + d < 60" using h mi ab(5) cd(5) by simp_all
  ultimately show ?thesis using ab cd by (simp add: ParseHHMM_def Atoi_two_digits)
qed

definition window_ok :: "(string \<Rightarrow> 'loc option) \<Rightarrow> MaintenanceWindow \<Rightarrow> bool" where
  "window_ok loadLocation w \<longleftrightarrow>
     loadLocation (mw_Timezone w) \<noteq> None \<and> mw_Days w \<noteq> [] \<and> (\<forall>d\<in>set (mw_Days w). ParseWeekday d \<noteq> None)
     \<and> (\<exists>st en. ParseHHMM (mw_Start w) = Inr st \<and> ParseHHMM (mw_End w) = Inr en \<and> st < en)"

lemma window_validate_Nil: "window_validate loadLocation i w = [] \<longleftrightarrow> window_ok loadLocation w"
  unfolding window_validate_def append_is_Nil_conv concat_map_Nil_iff window_ok_def
  by (auto split: sum.splits if_splits)

definition policy_ok :: "(string \<Rightarrow> 'loc option) \<Rightarrow> Policy \<Rightarrow> bool" where
  "policy_ok loadLocation p \<longleftrightarrow>
     (let s = p_Surge p; positive = (\<lambda>x. \<forall>d. x = Some d \<longrightarrow> 0 < (d::int)) in
        (\<forall>k. p_MinRotationChances p = Some k \<longrightarrow> 1 \<le> k) \<and> su_MaxUnavailable s = Some 1
        \<and> positive (su_ReadyTimeout s) \<and> positive (su_RetryBackoff s) \<and> positive (su_DrainEstimate s)
        \<and> positive (su_ProvisioningEstimate s) \<and> positive (su_FailurePause s)
        \<and> (\<forall>d. su_CooldownAfter s = Some d \<longrightarrow> 0 \<le> d)
        \<and> (\<exists>ov. AgeThresholdOverride p = Inr ov \<and> positive ov)
        \<and> p_MaintenanceWindows p \<noteq> [] \<and> (\<forall>w\<in>set (p_MaintenanceWindows p). window_ok loadLocation w)
        \<and> \<not> ft_Enabled (p_PrePull p))"

lemma AgeThresholdOverride_positive: "AgeThresholdOverride p = Inr (Some d) \<Longrightarrow> 0 < d"
  by (auto simp: AgeThresholdOverride_def split: if_splits option.splits)

lemma Validate_windows_Nil:
  "concat (map (\<lambda>(i, w). window_validate loadLocation i w) (List.enumerate 0 ws)) = []
    \<longleftrightarrow> (\<forall>w\<in>set ws. window_ok loadLocation w)"
proof -
  have "(\<forall>x\<in>set (List.enumerate n ws). snd x \<in> A) \<longleftrightarrow> (\<forall>w\<in>set ws. w \<in> A)" for n A
    by (induction ws arbitrary: n) auto
  from this [of 0 "{w. window_ok loadLocation w}"] show ?thesis
    by (auto simp: concat_map_Nil_iff window_validate_Nil)
qed

lemma Validate_Nil: "Validate loadLocation p = [] \<longleftrightarrow> policy_ok loadLocation p"
proof -
  have pc: "positive_check (n, x) = [] \<longleftrightarrow> (\<forall>d. x = Some d \<longrightarrow> 0 < d)" for n x
    by (auto simp: positive_check_def split: option.splits)
  show ?thesis
    unfolding Validate_def append_is_Nil_conv Validate_windows_Nil policy_ok_def Let_def
    using AgeThresholdOverride_positive [of p]
    by (auto simp: pc split: option.splits sum.splits if_splits)
qed

section \<open>Properties\<close>

text \<open>
  C17. A RotationPolicy that converts without error is safe to act on: at least one rotation chance, exactly
  one rotation at a time, a positive ready timeout and retry backoff and a cooldown that is not
  negative, all three set; a positive drain estimate, provisioning estimate and failure pause where
  they are set; the threshold \<open>auto\<close> or a positive duration; at least one requirement to replicate; no
  pre-pull; and the windows of the resource, at least one, each with a loadable zone, at least one
  weekday, all of them known, and an opening before its closing on the same day.
\<close>

theorem converted_policy_safe:
  assumes "ToPolicy loadLocation spec = Inr p"
  shows "1 \<le> policy_K p \<and> SurgeMaxUnavailable p = 1
    \<and> (\<exists>rt rb cd. su_ReadyTimeout (p_Surge p) = Some rt \<and> 0 < rt
         \<and> su_RetryBackoff (p_Surge p) = Some rb \<and> 0 < rb
         \<and> su_CooldownAfter (p_Surge p) = Some cd \<and> 0 \<le> cd)
    \<and> (\<forall>d. su_DrainEstimate (p_Surge p) = Some d \<longrightarrow> 0 < d)
    \<and> (\<forall>d. su_ProvisioningEstimate (p_Surge p) = Some d \<longrightarrow> 0 < d)
    \<and> (\<forall>d. su_FailurePause (p_Surge p) = Some d \<longrightarrow> 0 < d)
    \<and> (p_AgeThreshold p = ''auto'' \<or> (\<exists>d. ParseDuration (p_AgeThreshold p) = Some d \<and> 0 < d))
    \<and> mnr_Required (su_MatchNodeRequirements (p_Surge p)) \<noteq> []
    \<and> \<not> ft_Enabled (p_PrePull p)
    \<and> length (p_MaintenanceWindows p) = length (sp_MaintenanceWindows spec)
    \<and> p_MaintenanceWindows p \<noteq> []
    \<and> (\<forall>w\<in>set (p_MaintenanceWindows p).
         loadLocation (mw_Timezone w) \<noteq> None \<and> mw_Days w \<noteq> []
         \<and> (\<forall>d\<in>set (mw_Days w). \<exists>n. ParseWeekday d = Some n \<and> 0 \<le> n \<and> n \<le> 6)
         \<and> (\<exists>st en. ParseHHMM (mw_Start w) = Inr st \<and> ParseHHMM (mw_End w) = Inr en
              \<and> 0 \<le> st \<and> st < en \<and> en < 1440))"
proof -
  define q where "q = \<lparr>p_AgeThreshold = sp_AgeThreshold spec, p_MinRotationChances = sp_MinRotationChances spec,
                 p_MaintenanceWindows = toWindows (sp_MaintenanceWindows spec),
                 p_Surge = toSurge (sp_Surge spec),
                 p_PrePull = \<lparr>ft_Enabled = aft_Enabled (sp_PrePull spec)\<rparr>\<rparr>"
  have p: "p = ApplyDefaults q" "policy_ok loadLocation p"
    using assms by (auto simp: ToPolicy_def Let_def q_def Validate_Nil [symmetric] split: list.splits)
  have len: "length (p_MaintenanceWindows p) = length (sp_MaintenanceWindows spec)"
    by (simp add: p(1) ApplyDefaults_def q_def Let_def toWindows_def)
  have some: "p_MinRotationChances p \<noteq> None" "su_ReadyTimeout (p_Surge p) \<noteq> None"
    "su_RetryBackoff (p_Surge p) \<noteq> None" "su_CooldownAfter (p_Surge p) \<noteq> None"
    "mnr_Required (su_MatchNodeRequirements (p_Surge p)) \<noteq> []"
    by (simp_all add: p(1) ApplyDefaults_def Let_def or_default_def defaultRequiredRequirements_def split: option.splits)
  have age: "p_AgeThreshold p = ''auto'' \<or> (\<exists>d. ParseDuration (p_AgeThreshold p) = Some d \<and> 0 < d)"
    using p(2) by (auto simp: policy_ok_def Let_def AgeThresholdOverride_def ageThresholdAuto_def split: if_splits option.splits)
  have "\<exists>n. ParseWeekday d = Some n \<and> 0 \<le> n \<and> n \<le> 6" if "ParseWeekday d \<noteq> None" for d
    using that ParseWeekday_range [of d] by auto
  moreover have "0 \<le> st \<and> en < 1440" if "ParseHHMM a = Inr st" "ParseHHMM b = Inr en" for a b st en
    using ParseHHMM_range that by blast
  ultimately have "\<forall>w\<in>set (p_MaintenanceWindows p).
         loadLocation (mw_Timezone w) \<noteq> None \<and> mw_Days w \<noteq> []
         \<and> (\<forall>d\<in>set (mw_Days w). \<exists>n. ParseWeekday d = Some n \<and> 0 \<le> n \<and> n \<le> 6)
         \<and> (\<exists>st en. ParseHHMM (mw_Start w) = Inr st \<and> ParseHHMM (mw_End w) = Inr en
              \<and> 0 \<le> st \<and> st < en \<and> en < 1440)"
    using p(2) unfolding policy_ok_def window_ok_def Let_def by metis
  with p(2) some age len show ?thesis
    by (auto simp: policy_ok_def Let_def policy_K_def SurgeMaxUnavailable_def)
qed

definition demo_spec :: "string \<Rightarrow> string \<Rightarrow> unit RotationPolicySpec" where
  "demo_spec st en =
     \<lparr>sp_NodePoolSelector = None, sp_AgeThreshold = '''', sp_MinRotationChances = None,
      sp_MaintenanceWindows = [\<lparr>amw_Timezone = ''UTC'', amw_Days = [''Mon'', ''sun''], amw_Start = st,
        amw_End = en\<rparr>],
      sp_Surge = \<lparr>as_MaxUnavailable = None, as_ReadyTimeout = None, as_CooldownAfter = Some 0,
        as_FailurePause = None, as_RetryBackoff = None,
        as_MatchNodeRequirements = \<lparr>amnr_Required = [], amnr_Preferred = []\<rparr>,
        as_ForcefulFallback = \<lparr>aft_Enabled = True\<rparr>, as_WholeNodeReservation = \<lparr>aft_Enabled = False\<rparr>,
        as_DrainEstimate = None, as_ProvisioningEstimate = None\<rparr>,
      sp_PrePull = \<lparr>aft_Enabled = False\<rparr>\<rparr>"

definition demo_zones :: "string \<Rightarrow> int option" where
  "demo_zones name = (if name = ''UTC'' then Some 0 else None)"

definition demo_policy :: Policy where
  "demo_policy = ApplyDefaults
     \<lparr>p_AgeThreshold = '''', p_MinRotationChances = None,
      p_MaintenanceWindows = toWindows (sp_MaintenanceWindows (demo_spec ''01:00'' ''05:30'')),
      p_Surge = toSurge (sp_Surge (demo_spec ''01:00'' ''05:30'')), p_PrePull = \<lparr>ft_Enabled = False\<rparr>\<rparr>"

lemma demo_parses [eval_simps]:
  "ParseHHMM ''01:00'' = Inr 60" "ParseHHMM ''05:30'' = Inr 330"
  "ParseWeekday ''Mon'' = Some 1" "ParseWeekday ''sun'' = Some 0"
     apply (code_simp, code_simp)
   apply (simp_all add: ParseWeekday_def text_eval isoWeekdays_def)
  done

lemma demo_policy_valid: "Validate demo_zones demo_policy = []"
proof -
  have "window_ok demo_zones \<lparr>mw_Timezone = ''UTC'', mw_Days = [''Mon'', ''sun''],
      mw_Start = ''01:00'', mw_End = ''05:30''\<rparr>"
    by (simp add: window_ok_def demo_zones_def eval_simps)
  then show ?thesis
    by (simp add: Validate_Nil policy_ok_def demo_policy_def ApplyDefaults_def Let_def or_default_def
        demo_spec_def toSurge_def toWindows_def toWindow_def AgeThresholdOverride_def)
qed

lemma demo_spec_converts: "ToPolicy demo_zones (demo_spec ''01:00'' ''05:30'') = Inr demo_policy"
  using demo_policy_valid by (simp add: ToPolicy_def demo_policy_def demo_spec_def)

theorem converted_policy_safe_witness:
  "\<exists>p. ToPolicy demo_zones (demo_spec ''01:00'' ''05:30'') = Inr p \<and> 1 \<le> policy_K p
     \<and> SurgeMaxUnavailable p = 1 \<and> \<not> ft_Enabled (p_PrePull p)"
  using demo_spec_converts converted_policy_safe [OF demo_spec_converts] by blast

lemma ApplyDefaults_idem [simp]: "ApplyDefaults (ApplyDefaults p) = ApplyDefaults p"
  by (auto simp: ApplyDefaults_def Let_def or_default_def ageThresholdAuto_def split: option.splits)

definition keeps :: "'a option \<Rightarrow> 'a option \<Rightarrow> bool" where
  "keeps old new \<longleftrightarrow> (old \<noteq> None \<longrightarrow> new = old) \<and> new \<noteq> None"

text \<open>
  Defaulting never overwrites what the operator wrote, and is idempotent: every field that is
  set keeps its value (an explicit zero is left for validation to reject), the forecast estimates
  and the failure pause stay unset when they are unset, and a second pass changes nothing.
\<close>

theorem defaults_preserve_settings:
  "let q = ApplyDefaults p in
     keeps (p_MinRotationChances p) (p_MinRotationChances q)
     \<and> keeps (su_MaxUnavailable (p_Surge p)) (su_MaxUnavailable (p_Surge q))
     \<and> keeps (su_ReadyTimeout (p_Surge p)) (su_ReadyTimeout (p_Surge q))
     \<and> keeps (su_CooldownAfter (p_Surge p)) (su_CooldownAfter (p_Surge q))
     \<and> keeps (su_RetryBackoff (p_Surge p)) (su_RetryBackoff (p_Surge q))
     \<and> (p_AgeThreshold q = p_AgeThreshold p \<or> (p_AgeThreshold p = '''' \<and> p_AgeThreshold q = ''auto''))
     \<and> (mnr_Required (su_MatchNodeRequirements (p_Surge p)) = []
        \<or> mnr_Required (su_MatchNodeRequirements (p_Surge q)) = mnr_Required (su_MatchNodeRequirements (p_Surge p)))
     \<and> su_DrainEstimate (p_Surge q) = su_DrainEstimate (p_Surge p)
     \<and> su_ProvisioningEstimate (p_Surge q) = su_ProvisioningEstimate (p_Surge p)
     \<and> su_FailurePause (p_Surge q) = su_FailurePause (p_Surge p)
     \<and> p_MaintenanceWindows q = p_MaintenanceWindows p
     \<and> ApplyDefaults q = q"
  by (auto simp: ApplyDefaults_def Let_def keeps_def or_default_def ageThresholdAuto_def
      defaultRequiredRequirements_def split: option.splits)

theorem defaults_preserve_settings_witness:
  "su_CooldownAfter (p_Surge demo_policy) = Some 0
   \<and> su_ReadyTimeout (p_Surge demo_policy) = Some (15 * Minute) \<and> ApplyDefaults demo_policy = demo_policy"
proof -
  have "ApplyDefaults demo_policy = demo_policy"
    using defaults_preserve_settings [of "\<lparr>p_AgeThreshold = '''', p_MinRotationChances = None,
      p_MaintenanceWindows = toWindows (sp_MaintenanceWindows (demo_spec ''01:00'' ''05:30'')),
      p_Surge = toSurge (sp_Surge (demo_spec ''01:00'' ''05:30'')), p_PrePull = \<lparr>ft_Enabled = False\<rparr>\<rparr>"]
    by (simp add: Let_def demo_policy_def)
  then show ?thesis
    by (simp add: demo_policy_def ApplyDefaults_def or_default_def demo_spec_def toSurge_def Let_def)
qed

text \<open>
  Every minute of the day, written as two-digit hours and minutes, parses back to itself, and
  whatever parses is a minute of the day. The parser is not as strict as its comment says: a signed
  field such as \<open>+8:00\<close> is accepted as 08:00.
\<close>

theorem ParseHHMM_roundtrip:
  "(\<forall>m\<in>{0..<1440}. ParseHHMM (HHMM m) = Inr m)
   \<and> (\<forall>s m. ParseHHMM s = Inr m \<longrightarrow> m \<in> {0..<1440})
   \<and> ParseHHMM ''+8:00'' = Inr 480"
proof (intro conjI ballI allI impI)
  show "ParseHHMM (HHMM m) = Inr m" if "m \<in> {0..<1440}" for m
    using that by (intro ParseHHMM_HHMM) auto
  show "m \<in> {0..<1440}" if "ParseHHMM s = Inr m" for s m
    using ParseHHMM_range [OF that] by simp
  show "ParseHHMM ''+8:00'' = Inr 480"
    by code_simp
qed

theorem ParseHHMM_roundtrip_witness: "ParseHHMM (HHMM 125) = Inr 125 \<and> HHMM 125 = ''02:05''"
proof -
  have "ParseHHMM (HHMM 125) = Inr 125" using ParseHHMM_roundtrip by simp
  moreover have "HHMM 125 = ''02:05''" by code_simp
  ultimately show ?thesis by simp
qed

end
