(* ===== verification/K8s.thy ===== *)
theory K8s
  imports Selection Policy
begin

text \<open>
  The Kubernetes and Karpenter objects, with the fields the controller reads or writes, and
  \<open>internal/adapt\<close>, which projects a NodeClaim onto the view of the selection. A
  \<open>resource.Quantity\<close> is an exact number; it is an integer count of its finest unit here. The
  effective requests of a Pod (\<open>resourcehelper.PodRequests\<close>, a library function of the Pod) are
  carried as a field of the Pod.
\<close>

type_synonym quantity = int
type_synonym ResourceList = "(string, quantity) fmap"

definition rget :: "ResourceList \<Rightarrow> string \<Rightarrow> quantity" where
  "rget rl n = (case fmlookup rl n of None \<Rightarrow> 0 | Some q \<Rightarrow> q)"

record Condition =
  cond_Type :: string
  cond_Status :: string
  cond_Reason :: string
  cond_Message :: string

definition ConditionTrue :: string where "ConditionTrue = ''True''"
definition ConditionFalse :: string where "ConditionFalse = ''False''"
definition ConditionReady :: string where "ConditionReady = ''Ready''"
definition PodScheduled :: string where "PodScheduled = ''PodScheduled''"

definition PodRunning :: string where "PodRunning = ''Running''"
definition PodSucceeded :: string where "PodSucceeded = ''Succeeded''"
definition PodFailed :: string where "PodFailed = ''Failed''"
definition MirrorPodAnnotationKey :: string where "MirrorPodAnnotationKey = ''kubernetes.io/config.mirror''"

text \<open>A selector requirement: key, operator, values.\<close>

record Requirement =
  rq_Key :: string
  rq_Operator :: string
  rq_Values :: "string list"

definition OpIn :: string where "OpIn = ''In''"
definition OpNotIn :: string where "OpNotIn = ''NotIn''"
definition OpExists :: string where "OpExists = ''Exists''"
definition OpDoesNotExist :: string where "OpDoesNotExist = ''DoesNotExist''"
definition OpGt :: string where "OpGt = ''Gt''"
definition OpLt :: string where "OpLt = ''Lt''"
definition OpGte :: string where "OpGte = ''Gte''"
definition OpLte :: string where "OpLte = ''Lte''"

type_synonym NodeSelectorTerm = "Requirement list"

record OwnerReference =
  or_Controller :: "bool option"
  or_Kind :: string

record Taint =
  ta_Key :: string
  ta_Value :: string
  ta_Effect :: string

record Toleration =
  to_Key :: string
  to_Operator :: string
  to_Value :: string
  to_Effect :: string

record NodeAffinity =
  na_Required :: "NodeSelectorTerm list option"
  na_Preferred :: "(int \<times> NodeSelectorTerm) list"

record Pod =
  pod_Name :: string
  pod_UID :: string
  pod_Namespace :: string
  pod_Labels :: annots
  pod_Annotations :: annots
  pod_OwnerReferences :: "OwnerReference list"
  pod_DeletionTimestamp :: "time option"
  pod_NodeName :: string
  pod_NodeSelector :: annots
  pod_NodeAffinity :: "NodeAffinity option"
  pod_PriorityClassName :: string
  pod_PreemptionPolicy :: "string option"
  pod_AutomountServiceAccountToken :: "bool option"
  pod_Tolerations :: "Toleration list"
  pod_Containers :: "(string \<times> string) list"
  pod_Requests :: ResourceList
  pod_Phase :: string
  pod_Conditions :: "Condition list"

record Node =
  nd_Name :: string
  nd_ResourceVersion :: nat
  nd_Labels :: annots
  nd_Annotations :: annots
  nd_Unschedulable :: bool
  nd_Conditions :: "Condition list"
  nd_Allocatable :: ResourceList

record NodeClaim =
  nc_Name :: string
  nc_ResourceVersion :: nat
  nc_Labels :: annots
  nc_Annotations :: annots
  nc_CreationTimestamp :: time
  nc_DeletionTimestamp :: "time option"
  nc_ExpireAfter :: "duration option"
  nc_TerminationGracePeriod :: "duration option"
  nc_Requirements :: "Requirement list"
  nc_NodeName :: string
  nc_Allocatable :: ResourceList
  nc_Conditions :: "Condition list"

record NodePool =
  np_Name :: string
  np_UID :: string
  np_ResourceVersion :: nat
  np_Labels :: annots
  np_Annotations :: annots
  np_ExpireAfter :: "duration option"
  np_TerminationGracePeriod :: "duration option"
  np_Taints :: "Taint list"
  np_Requirements :: "Requirement list"
  np_Limits :: ResourceList
  np_Replicas :: "int option"
  np_Resources :: ResourceList

section \<open>\<open>internal/adapt\<close>\<close>

definition find_condition :: "string \<Rightarrow> Condition list \<Rightarrow> Condition option" where
  "find_condition t cs = List.find (\<lambda>c. cond_Type c = t) cs"

definition adapt_ready :: "NodeClaim \<Rightarrow> bool" where
  "adapt_ready c =
     (case find_condition ConditionReady (nc_Conditions c) of
        None \<Rightarrow> False
      | Some cond \<Rightarrow> cond_Status cond = ConditionTrue)"

definition adapt_Claim :: "NodeClaim \<Rightarrow> Claim" where
  "adapt_Claim c =
     \<lparr>c_Name = nc_Name c, c_CreatedAt = nc_CreationTimestamp c,
      c_Deleting = (nc_DeletionTimestamp c \<noteq> None), c_ExpireAfter = nc_ExpireAfter c,
      c_TGP = nc_TerminationGracePeriod c, c_Ready = adapt_ready c,
      c_Annotations = nc_Annotations c\<rparr>"

text \<open>
  \<open>Claims\<close> returns the views and a map from names to the listed objects; the last object of a
  name wins, as in the Go map.
\<close>

definition adapt_Claims :: "NodeClaim list \<Rightarrow> Claim list \<times> (string \<rightharpoonup> NodeClaim)" where
  "adapt_Claims claims =
     (map adapt_Claim claims, fold (\<lambda>c m. m(nc_Name c \<mapsto> c)) claims Map.empty)"

lemma adapt_Claims_lookup:
  "snd (adapt_Claims claims) n = Some c \<Longrightarrow> c \<in> set claims \<and> nc_Name c = n"
proof -
  have "fold (\<lambda>c m. m(nc_Name c \<mapsto> c)) cs m n = Some c \<Longrightarrow> (c \<in> set cs \<and> nc_Name c = n) \<or> m n = Some c" for cs m
    by (induction cs arbitrary: m) (fastforce split: if_splits)+
  then show "snd (adapt_Claims claims) n = Some c \<Longrightarrow> c \<in> set claims \<and> nc_Name c = n"
    by (fastforce simp: adapt_Claims_def)
qed

lemma fold_index_other:
  "n \<notin> nc_Name ` set cs \<Longrightarrow> fold (\<lambda>c m. m(nc_Name c \<mapsto> c)) cs m n = m n"
  by (induction cs arbitrary: m) auto

lemma fold_index_mem:
  "distinct (map nc_Name cs) \<Longrightarrow> c \<in> set cs \<Longrightarrow> fold (\<lambda>c m. m(nc_Name c \<mapsto> c)) cs m (nc_Name c) = Some c"
proof (induction cs arbitrary: m)
  case (Cons x xs)
  show ?case
  proof (cases "c = x")
    case True
    have "nc_Name x \<notin> nc_Name ` set xs" using Cons.prems by simp
    from fold_index_other [OF this, of "m(nc_Name x \<mapsto> x)"] True show ?thesis
      by (simp only: fold_Cons comp_apply fun_upd_same)
  next
    case False
    with Cons show ?thesis by simp
  qed
qed simp

lemma adapt_Claims_mem:
  "distinct (map nc_Name claims) \<Longrightarrow> c \<in> set claims \<Longrightarrow> snd (adapt_Claims claims) (nc_Name c) = Some c"
  by (simp only: adapt_Claims_def snd_conv fold_index_mem)

definition nodeReady :: "Node \<Rightarrow> bool" where
  "nodeReady n =
     (case find_condition ConditionReady (nd_Conditions n) of
        None \<Rightarrow> False
      | Some cond \<Rightarrow> cond_Status cond = ConditionTrue)"

definition podScheduledFalse :: "Pod \<Rightarrow> Condition option" where
  "podScheduledFalse ph =
     List.find (\<lambda>c. cond_Type c = PodScheduled \<and> cond_Status c = ConditionFalse) (pod_Conditions ph)"

end
