(* ===== verification/Resolve.thy ===== *)
theory Resolve
  imports K8s "HOL-Library.Multiset"
begin

text \<open>
  Which RotationPolicy governs a NodePool (\<open>internal/resolve/resolve.go\<close>). Compiling and matching
  a label selector is \<open>metav1.LabelSelectorAsSelector\<close>, a library function: the parameter
  \<open>compile\<close>, which fails with \<open>None\<close>.
\<close>

record LabelSelector =
  ls_MatchLabels :: "(string, string) fmap"
  ls_MatchExpressions :: "Requirement list"

record RotationPolicy =
  rp_Name :: string
  rp_Generation :: int
  rp_Spec :: "LabelSelector RotationPolicySpec"

datatype Outcome = Matched | NoMatch | Conflict

definition specificity :: "LabelSelector option \<Rightarrow> int" where
  "specificity sel =
     (case sel of
        None \<Rightarrow> 0
      | Some s \<Rightarrow> int (card (fmdom' (ls_MatchLabels s))) + int (length (ls_MatchExpressions s)))"

definition policy_matches ::
  "(LabelSelector option \<Rightarrow> (annots \<Rightarrow> bool) option) \<Rightarrow> annots \<Rightarrow> RotationPolicy \<Rightarrow> bool" where
  "policy_matches compile poolLabels p =
     (case compile (sp_NodePoolSelector (rp_Spec p)) of None \<Rightarrow> False | Some sel \<Rightarrow> sel poolLabels)"

definition policy_specificity :: "RotationPolicy \<Rightarrow> int" where
  "policy_specificity p = specificity (sp_NodePoolSelector (rp_Spec p))"

text \<open>The loop over the policies carries the best specificity so far and the policies that have it.\<close>

fun collect_top ::
  "(RotationPolicy \<Rightarrow> bool) \<Rightarrow> int \<Rightarrow> RotationPolicy list \<Rightarrow> RotationPolicy list \<Rightarrow> RotationPolicy list" where
  "collect_top ok best tops [] = tops"
| "collect_top ok best tops (p # ps) =
     (if \<not> ok p then collect_top ok best tops ps
      else let spec = policy_specificity p
           in if tops = [] \<or> spec > best then collect_top ok spec [p] ps
              else if spec = best then collect_top ok best (tops @ [p]) ps
              else collect_top ok best tops ps)"

definition Governing ::
  "(LabelSelector option \<Rightarrow> (annots \<Rightarrow> bool) option) \<Rightarrow> NodePool \<Rightarrow> RotationPolicy list \<Rightarrow>
   RotationPolicy option \<times> Outcome \<times> string list" where
  "Governing compile pool policies =
     (case collect_top (policy_matches compile (np_Labels pool)) 0 [] policies of
        [] \<Rightarrow> (None, NoMatch, [])
      | [p] \<Rightarrow> (Some p, Matched, [])
      | topMatches \<Rightarrow> (None, Conflict, sort (map rp_Name topMatches)))"

section \<open>The loop against its specification\<close>

text \<open>The policies that match and that no matching policy exceeds in specificity.\<close>

definition top_policies :: "(RotationPolicy \<Rightarrow> bool) \<Rightarrow> RotationPolicy list \<Rightarrow> RotationPolicy list" where
  "top_policies ok ps =
     filter (\<lambda>p. ok p \<and> (\<forall>q\<in>set ps. ok q \<longrightarrow> policy_specificity q \<le> policy_specificity p)) ps"

text \<open>The candidates collected at the end are the policies at the top.\<close>

lemma collect_top_done:
  assumes le: "\<forall>p\<in>set seen. ok p \<longrightarrow> policy_specificity p \<le> best" and none: "tops = [] \<longrightarrow> (\<forall>p\<in>set seen. \<not> ok p)"
    and tops: "filter (\<lambda>p. ok p \<and> policy_specificity p = best) seen = tops"
  shows "tops = top_policies ok seen"
proof (cases "tops = []")
  case True
  with none show ?thesis by (simp add: top_policies_def filter_empty_conv)
next
  case False
  then obtain t where "t \<in> set tops" by (cases tops) auto
  then have t: "t \<in> set seen" "ok t" "policy_specificity t = best" unfolding tops [symmetric] by auto
  have "(ok p \<and> policy_specificity p = best) \<longleftrightarrow>
      (ok p \<and> (\<forall>q\<in>set seen. ok q \<longrightarrow> policy_specificity q \<le> policy_specificity p))" if "p \<in> set seen" for p
  proof
    assume "ok p \<and> policy_specificity p = best"
    with le show "ok p \<and> (\<forall>q\<in>set seen. ok q \<longrightarrow> policy_specificity q \<le> policy_specificity p)" by simp
  next
    assume r: "ok p \<and> (\<forall>q\<in>set seen. ok q \<longrightarrow> policy_specificity q \<le> policy_specificity p)"
    with t have "best \<le> policy_specificity p" by blast
    with r le that show "ok p \<and> policy_specificity p = best" by (meson dual_order.antisym)
  qed
  note same = this
  show ?thesis
    unfolding top_policies_def tops [symmetric] by (rule filter_cong [OF refl same])
qed

lemma collect_top_step:
  assumes "\<forall>p\<in>set seen. ok p \<longrightarrow> policy_specificity p \<le> best" and "tops = [] \<longrightarrow> (\<forall>p\<in>set seen. \<not> ok p)"
    and "filter (\<lambda>p. ok p \<and> policy_specificity p = best) seen = tops"
  shows "collect_top ok best tops ps = top_policies ok (seen @ ps)"
  using assms
proof (induction ps arbitrary: best tops seen)
  case Nil
  from collect_top_done [OF Nil.prems] show ?case by simp
next
  case (Cons p ps)
  have grow: "top_policies ok (seen @ p # ps) = top_policies ok ((seen @ [p]) @ ps)" by simp
  show ?case
  proof (cases "ok p")
    case False
    with Cons.prems have "collect_top ok best tops ps = top_policies ok ((seen @ [p]) @ ps)"
      by (intro Cons.IH) auto
    with False show ?thesis by simp
  next
    case ok: True
    consider (new) "tops = [] \<or> policy_specificity p > best"
      | (tie) "tops \<noteq> []" "policy_specificity p = best" | (low) "tops \<noteq> []" "policy_specificity p < best"
      by fastforce
    then show ?thesis
    proof cases
      case new
      have none: "filter (\<lambda>q. ok q \<and> policy_specificity q = policy_specificity p) seen = []"
        using new Cons.prems(1,2) by (fastforce simp: filter_empty_conv)
      have "collect_top ok (policy_specificity p) [p] ps = top_policies ok ((seen @ [p]) @ ps)"
        using ok new none Cons.prems(1,2) by (intro Cons.IH) auto
      with ok new grow show ?thesis by (auto simp: Let_def)
    next
      case tie
      have "collect_top ok best (tops @ [p]) ps = top_policies ok ((seen @ [p]) @ ps)"
        using ok tie Cons.prems by (intro Cons.IH) auto
      with ok tie grow show ?thesis by (auto simp: Let_def)
    next
      case low
      have "collect_top ok best tops ps = top_policies ok ((seen @ [p]) @ ps)"
        using ok low Cons.prems by (intro Cons.IH) auto
      with ok low grow show ?thesis by (auto simp: Let_def)
    qed
  qed
qed

lemma collect_top_correct: "collect_top ok 0 [] ps = top_policies ok ps"
  using collect_top_step [of "[]" ok 0 "[]" ps] by simp

lemma Governing_top:
  "Governing compile pool policies =
     (case top_policies (policy_matches compile (np_Labels pool)) policies of
        [] \<Rightarrow> (None, NoMatch, [])
      | [p] \<Rightarrow> (Some p, Matched, [])
      | ts \<Rightarrow> (None, Conflict, sort (map rp_Name ts)))"
  by (simp only: Governing_def collect_top_correct)

lemma top_policies_mset:
  "mset ps = mset qs \<Longrightarrow> mset (top_policies ok ps) = mset (top_policies ok qs)"
  by (simp add: top_policies_def mset_filter) (metis mset_eq_setD)

lemma top_policies_Nil: "top_policies ok ps = [] \<longleftrightarrow> (\<forall>p\<in>set ps. \<not> ok p)"
proof
  assume none: "top_policies ok ps = []"
  show "\<forall>p\<in>set ps. \<not> ok p"
  proof (rule ccontr)
    assume "\<not> (\<forall>p\<in>set ps. \<not> ok p)"
    then obtain q where q: "q \<in> {p\<in>set ps. ok p}" by auto
    let ?M = "{p\<in>set ps. ok p}"
    have "Max (policy_specificity ` ?M) \<in> policy_specificity ` ?M" using q by (intro Max_in) auto
    then obtain p where p: "p \<in> ?M" "policy_specificity p = Max (policy_specificity ` ?M)" by force
    then have "p \<in> set (top_policies ok ps)" by (auto simp: top_policies_def)
    with none show False by simp
  qed
qed (auto simp: top_policies_def filter_empty_conv)

section \<open>Properties\<close>

lemma Governing_perm:
  assumes "mset policies' = mset policies"
  shows "Governing compile pool policies' = Governing compile pool policies"
proof -
  let ?ok = "policy_matches compile (np_Labels pool)"
  let ?T = "top_policies ?ok policies"
  have ms: "mset (top_policies ?ok policies') = mset ?T" by (rule top_policies_mset [OF assms])
  then have len: "length (top_policies ?ok policies') = length ?T" by (rule mset_eq_length)
  show ?thesis
  proof (cases ?T rule: remdups_adj.cases)
    case (3 a b ts)
    with len obtain a' b' ts' where t': "top_policies ?ok policies' = a' # b' # ts'"
      by (cases "top_policies ?ok policies'" rule: remdups_adj.cases) auto
    have "mset (map rp_Name (top_policies ?ok policies')) = mset (map rp_Name ?T)" by (simp add: ms)
    then have "sort (map rp_Name (top_policies ?ok policies')) = sort (map rp_Name ?T)"
      using properties_for_sort [of "sort (map rp_Name (top_policies ?ok policies'))" "map rp_Name ?T"] by simp
    with 3 t' show ?thesis by (simp add: Governing_top)
  qed (use ms len in \<open>simp_all add: Governing_top\<close>)
qed

text \<open>A policy that is alone at the top is more specific than every other one that matches.\<close>

lemma single_top:
  assumes T: "top_policies ok policies = [p]"
  shows "ok p \<and> p \<in> set policies \<and> (\<forall>q \<in># mset policies - {#p#}. ok q \<longrightarrow> policy_specificity q < policy_specificity p)"
proof -
  let ?P = "\<lambda>p. ok p \<and> (\<forall>q\<in>set policies. ok q \<longrightarrow> policy_specificity q \<le> policy_specificity p)"
  have "p \<in> set (top_policies ok policies)" using T by simp
  then have p: "p \<in> set policies" "?P p" by (auto simp: top_policies_def)
  have "mset (top_policies ok policies) = filter_mset ?P (mset policies)" by (simp only: top_policies_def mset_filter)
  also have "mset policies = add_mset p (mset policies - {#p#})" using p(1) by simp
  also have "filter_mset ?P (add_mset p (mset policies - {#p#})) = add_mset p (filter_mset ?P (mset policies - {#p#}))"
    by (subst filter_mset_add_mset) (rule if_P [OF p(2)])
  finally have none: "filter_mset ?P (mset policies - {#p#}) = {#}" using T by simp
  have "policy_specificity q < policy_specificity p" if q: "q \<in># mset policies - {#p#}" "ok q" for q
  proof (rule ccontr)
    assume "\<not> policy_specificity q < policy_specificity p"
    moreover have "q \<in> set policies" using q(1) in_diffD [of q "mset policies"] by simp
    ultimately have "policy_specificity q = policy_specificity p" using p(2) q(2) by force
    with p q have "q \<in># filter_mset ?P (mset policies - {#p#})" by (simp only: mem_Collect_eq set_mset_filter) simp
    with none show False by simp
  qed
  with p show ?thesis by blast
qed

text \<open>
  C25. Governance is decided by the selectors alone. \<open>Governing\<close> names a winner only when
  that policy matches the NodePool and every other entry of the list that matches is strictly less
  specific; it reports \<open>NoMatch\<close> exactly when no policy matches, and \<open>Conflict\<close> with
  the sorted names of the policies tied at the top in every remaining case. The order in which the
  API lists the policies has no influence on the answer.
\<close>

theorem governing_correct:
  assumes "mset policies' = mset policies"
  shows "Governing compile pool policies' = Governing compile pool policies \<and>
    (case Governing compile pool policies of (winner, outcome, tied) \<Rightarrow>
       (outcome = NoMatch \<longleftrightarrow> (\<forall>p\<in>set policies. \<not> policy_matches compile (np_Labels pool) p)) \<and>
       (case winner of
          Some p \<Rightarrow> outcome = Matched \<and> tied = [] \<and> p \<in> set policies \<and> policy_matches compile (np_Labels pool) p \<and>
            (\<forall>q \<in># mset policies - {#p#}. policy_matches compile (np_Labels pool) q \<longrightarrow>
               policy_specificity q < policy_specificity p)
        | None \<Rightarrow> outcome \<noteq> Matched) \<and>
       (outcome = Conflict \<longleftrightarrow> 2 \<le> length (top_policies (policy_matches compile (np_Labels pool)) policies)) \<and>
       (outcome = Conflict \<longrightarrow> sorted tied \<and>
          mset tied = image_mset rp_Name (mset (top_policies (policy_matches compile (np_Labels pool)) policies))))"
proof
  let ?ok = "policy_matches compile (np_Labels pool)"
  let ?T = "top_policies ?ok policies"
  show "Governing compile pool policies' = Governing compile pool policies" by (rule Governing_perm [OF assms])
  show "case Governing compile pool policies of (winner, outcome, tied) \<Rightarrow>
       (outcome = NoMatch \<longleftrightarrow> (\<forall>p\<in>set policies. \<not> ?ok p)) \<and>
       (case winner of
          Some p \<Rightarrow> outcome = Matched \<and> tied = [] \<and> p \<in> set policies \<and> ?ok p \<and>
            (\<forall>q \<in># mset policies - {#p#}. ?ok q \<longrightarrow> policy_specificity q < policy_specificity p)
        | None \<Rightarrow> outcome \<noteq> Matched) \<and>
       (outcome = Conflict \<longleftrightarrow> 2 \<le> length ?T) \<and>
       (outcome = Conflict \<longrightarrow> sorted tied \<and> mset tied = image_mset rp_Name (mset ?T))"
  proof (cases ?T rule: remdups_adj.cases)
    case 1
    then show ?thesis using top_policies_Nil [of ?ok policies] by (simp add: Governing_top)
  next
    case (2 p)
    then show ?thesis using single_top [OF 2] top_policies_Nil [of ?ok policies] by (auto simp: Governing_top)
  next
    case (3 a b ts)
    have "sorted (sort (map rp_Name ?T))" by simp
    with 3 show ?thesis using top_policies_Nil [of ?ok policies]
      by (auto simp: Governing_top simp del: sorted_sort sort_key_simps list.map)
  qed
qed

definition demo_rotation_policy :: "string \<Rightarrow> Requirement list \<Rightarrow> RotationPolicy" where
  "demo_rotation_policy name exprs =
     (let sp = demo_spec ''01:00'' ''05:30''
      in \<lparr>rp_Name = name, rp_Generation = 1,
          rp_Spec = \<lparr>sp_NodePoolSelector = Some \<lparr>ls_MatchLabels = fmempty, ls_MatchExpressions = exprs\<rparr>,
            sp_AgeThreshold = sp_AgeThreshold sp, sp_MinRotationChances = sp_MinRotationChances sp,
            sp_MaintenanceWindows = sp_MaintenanceWindows sp, sp_Surge = sp_Surge sp, sp_PrePull = sp_PrePull sp\<rparr>\<rparr>)"

definition team_expr :: Requirement where
  "team_expr = \<lparr>rq_Key = ''team'', rq_Operator = OpExists, rq_Values = []\<rparr>"

definition demo_compile :: "LabelSelector option \<Rightarrow> (annots \<Rightarrow> bool) option" where
  "demo_compile sel =
     (case sel of None \<Rightarrow> None
      | Some s \<Rightarrow> Some (\<lambda>ls. list_all (\<lambda>r. ls (rq_Key r) \<noteq> None) (ls_MatchExpressions s)))"

definition demo_nodepool :: "annots \<Rightarrow> NodePool" where
  "demo_nodepool ls =
     \<lparr>np_Name = ''pool-a'', np_UID = ''u-pool'', np_ResourceVersion = 1, np_Labels = ls, np_Annotations = Map.empty,
      np_ExpireAfter = None, np_TerminationGracePeriod = None, np_Taints = [], np_Requirements = [],
      np_Limits = fmempty, np_Replicas = None, np_Resources = fmempty\<rparr>"

theorem governing_correct_witness:
  "Governing demo_compile (demo_nodepool [''team'' \<mapsto> ''x''])
     [demo_rotation_policy ''narrow'' [team_expr], demo_rotation_policy ''broad'' []] =
   (Some (demo_rotation_policy ''narrow'' [team_expr]), Matched, [])"
proof -
  have "Governing demo_compile (demo_nodepool [''team'' \<mapsto> ''x''])
      [demo_rotation_policy ''broad'' [], demo_rotation_policy ''narrow'' [team_expr]] =
      (Some (demo_rotation_policy ''narrow'' [team_expr]), Matched, [])"
    by (simp add: Governing_def policy_matches_def policy_specificity_def specificity_def demo_compile_def
        demo_rotation_policy_def demo_nodepool_def team_expr_def Let_def)
  then show ?thesis
    using governing_correct [of "[demo_rotation_policy ''narrow'' [team_expr], demo_rotation_policy ''broad'' []]"
      "[demo_rotation_policy ''broad'' [], demo_rotation_policy ''narrow'' [team_expr]]"] by simp
qed

end
