(* ===== verification/Surge.thy ===== *)
theory Surge
  imports K8s
begin

text \<open>
  The sizing half of \<open>internal/surge\<close>: the requests that must re-land after a drain and the
  census behind them, the clamp to what Karpenter can provision, the whole-node mode, the headroom
  gate, the surge path and the placeholder's name. The SHA-256 hex digest is a parameter.
\<close>

section \<open>Pods on a node (\<open>requests.go\<close>, \<open>census.go\<close>)\<close>

definition isDaemonSet :: "Pod \<Rightarrow> bool" where
  "isDaemonSet p =
     list_ex (\<lambda>r. or_Controller r = Some True \<and> or_Kind r = ''DaemonSet'') (pod_OwnerReferences p)"

definition isMirror :: "Pod \<Rightarrow> bool" where
  "isMirror p = (pod_Annotations p MirrorPodAnnotationKey \<noteq> None)"

definition isCompleted :: "Pod \<Rightarrow> bool" where
  "isCompleted p = (pod_Phase p = PodSucceeded \<or> pod_Phase p = PodFailed)"

definition IsInfraOrCompleted :: "Pod \<Rightarrow> bool" where
  "IsInfraOrCompleted p = (isDaemonSet p \<or> isMirror p \<or> isCompleted p)"

text \<open>The hosts a term bounds, None when no hostname In expression bounds it.\<close>

definition term_hosts :: "NodeSelectorTerm \<Rightarrow> string list option" where
  "term_hosts t =
     (let es = filter (\<lambda>e. rq_Key e = LabelHostname \<and> rq_Operator e = OpIn \<and> rq_Values e \<noteq> []) t
      in if es = [] then None else Some (concat (map rq_Values es)))"

fun pinned_hosts :: "NodeSelectorTerm list \<Rightarrow> string list option" where
  "pinned_hosts [] = Some []"
| "pinned_hosts (t # ts) =
     (case term_hosts t of
        None \<Rightarrow> None
      | Some hs \<Rightarrow> (case pinned_hosts ts of None \<Rightarrow> None | Some r \<Rightarrow> Some (hs @ r)))"

definition isNodePinned :: "Pod \<Rightarrow> string \<Rightarrow> bool" where
  "isNodePinned p nodeName =
     (case pod_NodeSelector p LabelHostname of
        Some v \<Rightarrow> v = nodeName
      | None \<Rightarrow>
         (case pod_NodeAffinity p of
            None \<Rightarrow> False
          | Some na \<Rightarrow>
             (case na_Required na of
                None \<Rightarrow> False
              | Some terms \<Rightarrow>
                  if terms = [] then False
                  else case pinned_hosts terms of
                         None \<Rightarrow> False
                       | Some hs \<Rightarrow> length (remdups hs) = 1 \<and> nodeName \<in> set hs)))"

definition reschedulable :: "Pod \<Rightarrow> string \<Rightarrow> bool" where
  "reschedulable p nodeName =
     (if pod_NodeName p \<noteq> nodeName then False
      else if IsInfraOrCompleted p \<or> isNodePinned p nodeName then False
      else True)"

definition res_add :: "ResourceList \<Rightarrow> ResourceList \<Rightarrow> ResourceList" where
  "res_add dst src =
     fold (\<lambda>n d. fmupd n (case fmlookup d n of Some cur \<Rightarrow> cur + rget src n | None \<Rightarrow> rget src n) d)
       (sorted_keys src) dst"

definition ReschedulableRequests :: "Pod list \<Rightarrow> string \<Rightarrow> ResourceList" where
  "ReschedulableRequests pods nodeName =
     fold (\<lambda>p total. if \<not> reschedulable p nodeName then total else res_add total (pod_Requests p))
       pods fmempty"

record PodCensus =
  pc_Counted :: nat
  pc_DaemonSet :: nat
  pc_Mirror :: nat
  pc_Completed :: nat
  pc_NodePinned :: nat

definition pod_census_step :: "string \<Rightarrow> Pod \<Rightarrow> PodCensus \<Rightarrow> PodCensus" where
  "pod_census_step nodeName p c =
     (if pod_NodeName p \<noteq> nodeName then c
      else if isDaemonSet p then c\<lparr>pc_DaemonSet := Suc (pc_DaemonSet c)\<rparr>
      else if isMirror p then c\<lparr>pc_Mirror := Suc (pc_Mirror c)\<rparr>
      else if isCompleted p then c\<lparr>pc_Completed := Suc (pc_Completed c)\<rparr>
      else if isNodePinned p nodeName then c\<lparr>pc_NodePinned := Suc (pc_NodePinned c)\<rparr>
      else c\<lparr>pc_Counted := Suc (pc_Counted c)\<rparr>)"

definition CensusOnNode :: "Pod list \<Rightarrow> string \<Rightarrow> PodCensus" where
  "CensusOnNode pods nodeName =
     fold (pod_census_step nodeName) pods
       \<lparr>pc_Counted = 0, pc_DaemonSet = 0, pc_Mirror = 0, pc_Completed = 0, pc_NodePinned = 0\<rparr>"

section \<open>The clamp (\<open>clamp.go\<close>)\<close>

definition DaemonSetRequests :: "Pod list \<Rightarrow> string \<Rightarrow> ResourceList" where
  "DaemonSetRequests pods nodeName =
     fold (\<lambda>p total. if pod_NodeName p \<noteq> nodeName \<or> \<not> isDaemonSet p \<or> isCompleted p then total
                     else res_add total (pod_Requests p))
       pods fmempty"

definition Band :: "ResourceList \<Rightarrow> ResourceList \<Rightarrow> ResourceList" where
  "Band nodeAllocatable claimAllocatable =
     fold (\<lambda>name band.
             case fmlookup claimAllocatable name of
               None \<Rightarrow> band
             | Some claim \<Rightarrow>
                 let gap = rget nodeAllocatable name - claim
                 in fmupd name (if gap < 0 then 0 else gap) band)
       (sorted_keys nodeAllocatable) fmempty"

definition ExceedsBand :: "ResourceList \<Rightarrow> ResourceList \<Rightarrow> string option" where
  "ExceedsBand shortfall band =
     List.find (\<lambda>name. rget band name < rget shortfall name) (sorted_keys shortfall)"

record ClampResult =
  cr_Requests :: ResourceList
  cr_Clamped :: bool
  cr_Limit :: ResourceList
  cr_Shortfall :: ResourceList
  cr_Refused :: bool
  cr_RefusedResource :: string

definition provisionableLimit :: "ResourceList \<Rightarrow> ResourceList \<Rightarrow> string \<Rightarrow> quantity option" where
  "provisionableLimit allocatable daemonSet name =
     (case fmlookup allocatable name of
        None \<Rightarrow> None
      | Some alloc \<Rightarrow>
          (case fmlookup daemonSet name of Some ds \<Rightarrow> Some (alloc - ds) | None \<Rightarrow> Some alloc))"

text \<open>The loop of \<open>Clamp\<close>; \<open>Inl name\<close> is its early return with a refusal.\<close>

fun clamp_loop ::
  "ResourceList \<Rightarrow> ResourceList \<Rightarrow> ResourceList \<Rightarrow> ClampResult \<Rightarrow> string list \<Rightarrow> string + ClampResult" where
  "clamp_loop requests allocatable daemonSet res [] = Inr res"
| "clamp_loop requests allocatable daemonSet res (name # names) =
     (let want = rget requests name
      in case provisionableLimit allocatable daemonSet name of
           None \<Rightarrow> clamp_loop requests allocatable daemonSet res names
         | Some limit \<Rightarrow>
             if limit \<le> 0 then
               (if want \<le> 0 then clamp_loop requests allocatable daemonSet res names else Inl name)
             else if want \<le> limit then clamp_loop requests allocatable daemonSet res names
             else clamp_loop requests allocatable daemonSet
                    \<lparr>cr_Requests = fmupd name limit (cr_Requests res), cr_Clamped = True,
                     cr_Limit = fmupd name limit (cr_Limit res),
                     cr_Shortfall = fmupd name (want - limit) (cr_Shortfall res),
                     cr_Refused = cr_Refused res, cr_RefusedResource = cr_RefusedResource res\<rparr> names)"

definition unclamped :: "ResourceList \<Rightarrow> ClampResult" where
  "unclamped requests =
     \<lparr>cr_Requests = requests, cr_Clamped = False, cr_Limit = fmempty, cr_Shortfall = fmempty,
      cr_Refused = False, cr_RefusedResource = ''''\<rparr>"

definition Clamp :: "ResourceList \<Rightarrow> ResourceList \<Rightarrow> ResourceList \<Rightarrow> ClampResult" where
  "Clamp requests allocatable daemonSet =
     (if sorted_keys allocatable = [] then unclamped requests
      else case clamp_loop requests allocatable daemonSet (unclamped requests) (sorted_keys requests) of
             Inl name \<Rightarrow> (unclamped requests)\<lparr>cr_Refused := True, cr_RefusedResource := name\<rparr>
           | Inr res \<Rightarrow> res)"

section \<open>The whole-node mode (\<open>wholenode.go\<close>)\<close>

definition ResourceCPU :: string where "ResourceCPU = ''cpu''"
definition ResourceMemory :: string where "ResourceMemory = ''memory''"
definition binPackingResources :: "string list" where
  "binPackingResources = [ResourceCPU, ResourceMemory]"

definition refusable :: "string \<Rightarrow> ResourceList \<Rightarrow> ResourceList \<Rightarrow> ResourceList" where
  "refusable name allocatable out =
     (if (\<exists>want\<in>set_option (fmlookup out name). 0 < want) then out
      else if rget allocatable name \<le> 0 then out
      else fmupd name (rget allocatable name) out)"

definition raise :: "ResourceList \<Rightarrow> ResourceList \<Rightarrow> bool \<Rightarrow> string \<Rightarrow> ResourceList \<Rightarrow> ResourceList" where
  "raise allocatable daemonSet mandatory name out =
     (case provisionableLimit allocatable daemonSet name of
        None \<Rightarrow> out
      | Some limit \<Rightarrow>
          if limit \<le> 0 then (if mandatory then refusable name allocatable out else out)
          else if (\<exists>want\<in>set_option (fmlookup out name). limit \<le> want) then out
          else fmupd name limit out)"

definition WholeNode :: "ResourceList \<Rightarrow> ResourceList \<Rightarrow> ResourceList \<Rightarrow> nat \<Rightarrow> ResourceList" where
  "WholeNode requests allocatable daemonSet reschedulablePods =
     (if reschedulablePods = 0 \<or> sorted_keys allocatable = [] then requests
      else fold (raise allocatable daemonSet False) (sorted_keys requests)
             (fold (raise allocatable daemonSet True) binPackingResources requests))"

section \<open>Headroom, path and name (\<open>headroom.go\<close>, \<open>path.go\<close>, \<open>name.go\<close>)\<close>

record HeadroomResult =
  hr_Fits :: bool
  hr_Resource :: string
  hr_Want :: quantity
  hr_Remaining :: quantity
  hr_Limit :: quantity

fun headroom_loop :: "NodePool \<Rightarrow> ResourceList \<Rightarrow> string list \<Rightarrow> HeadroomResult" where
  "headroom_loop pool requests [] =
     \<lparr>hr_Fits = True, hr_Resource = '''', hr_Want = 0, hr_Remaining = 0, hr_Limit = 0\<rparr>"
| "headroom_loop pool requests (name # names) =
     (let want = rget requests name
      in case fmlookup (np_Limits pool) name of
           None \<Rightarrow> headroom_loop pool requests names
         | Some limit \<Rightarrow>
             let remaining = (case fmlookup (np_Resources pool) name of
                                Some used \<Rightarrow> limit - used
                              | None \<Rightarrow> limit)
             in if remaining < want
                then \<lparr>hr_Fits = False, hr_Resource = name, hr_Want = want, hr_Remaining = remaining,
                      hr_Limit = limit\<rparr>
                else headroom_loop pool requests names)"

definition Headroom :: "NodePool \<Rightarrow> ResourceList \<Rightarrow> HeadroomResult" where
  "Headroom pool requests = headroom_loop pool requests (sorted_keys requests)"

definition PathProvisioned :: string where "PathProvisioned = ''provisioned''"
definition PathAbsorbed :: string where "PathAbsorbed = ''absorbed''"

definition CreatedByAttempt :: "NodeClaim option \<Rightarrow> time \<Rightarrow> bool" where
  "CreatedByAttempt claim startedAt =
     (case claim of None \<Rightarrow> False | Some c \<Rightarrow> startedAt < nc_CreationTimestamp c)"

definition HostPath :: "NodeClaim option \<Rightarrow> time \<Rightarrow> string" where
  "HostPath hostClaim startedAt =
     (if hostClaim = None then ''''
      else if CreatedByAttempt hostClaim startedAt then PathProvisioned
      else PathAbsorbed)"

definition placeholderNamePrefix :: string where "placeholderNamePrefix = ''noderotation-surge-''"
definition podNameMax :: nat where "podNameMax = 253"
definition nameHashLen :: nat where "nameHashLen = 16"

definition PlaceholderName :: "(string \<Rightarrow> string) \<Rightarrow> string \<Rightarrow> string" where
  "PlaceholderName sha256_hex claimName =
     (let full = placeholderNamePrefix @ claimName
      in if length full \<le> podNameMax then full
         else let hash = take nameHashLen (sha256_hex claimName);
                  keep = podNameMax - length placeholderNamePrefix - 1 - nameHashLen
              in placeholderNamePrefix @ take keep claimName @ ''-'' @ hash)"

section \<open>Lemmas: sums\<close>

lemma fmdom_rget: "n |\<notin>| fmdom rl \<Longrightarrow> rget rl n = 0"
  by (simp add: rget_def fmdom_notD)

lemma rget_fmupd [simp]: "rget (fmupd n q rl) m = (if m = n then q else rget rl m)"
  by (simp add: rget_def)

lemma rget_fmempty [simp]: "rget fmempty n = 0"
  by (simp add: rget_def)

lemma res_add_fold:
  "distinct ns \<Longrightarrow>
   rget (fold (\<lambda>n d. fmupd n (case fmlookup d n of Some cur \<Rightarrow> cur + rget src n | None \<Rightarrow> rget src n) d) ns dst) m
     = rget dst m + (if m \<in> set ns then rget src m else 0)"
proof (induction ns arbitrary: dst)
  case (Cons n ns)
  let ?d = "fmupd n (case fmlookup dst n of Some cur \<Rightarrow> cur + rget src n | None \<Rightarrow> rget src n) dst"
  have "rget ?d m = rget dst m + (if m = n then rget src m else 0)"
    by (simp add: rget_def split: option.splits)
  with Cons show ?case by auto
qed simp

lemma rget_res_add [simp]: "rget (res_add dst src) m = rget dst m + rget src m"
proof -
  have "m \<notin> fmdom' src \<Longrightarrow> rget src m = 0" by (simp add: fmdom_rget fmdom'_alt_def)
  then show ?thesis by (simp add: res_add_def res_add_fold)
qed

lemma fold_res_add:
  "rget (fold (\<lambda>p total. if P p then total else res_add total (f p)) pods acc) n
     = rget acc n + (\<Sum>p\<leftarrow>filter (\<lambda>p. \<not> P p) pods. rget (f p) n)"
  by (induction pods arbitrary: acc) auto

lemma ReschedulableRequests_sum:
  "rget (ReschedulableRequests pods nodeName) n
     = (\<Sum>p\<leftarrow>filter (\<lambda>p. reschedulable p nodeName) pods. rget (pod_Requests p) n)"
  using fold_res_add [of "\<lambda>p. \<not> reschedulable p nodeName" pod_Requests pods fmempty n]
  by (simp add: ReschedulableRequests_def)

lemma DaemonSetRequests_sum:
  "rget (DaemonSetRequests pods nodeName) n
     = (\<Sum>p\<leftarrow>filter (\<lambda>p. pod_NodeName p = nodeName \<and> isDaemonSet p \<and> \<not> isCompleted p) pods.
          rget (pod_Requests p) n)"
  by (simp only: DaemonSetRequests_def fold_res_add rget_fmempty de_Morgan_disj not_not add_0)

section \<open>Lemmas: the clamp\<close>

text \<open>What the clamp does to one resource.\<close>

definition refuses :: "ResourceList \<Rightarrow> ResourceList \<Rightarrow> ResourceList \<Rightarrow> string \<Rightarrow> bool" where
  "refuses requests allocatable daemonSet n \<longleftrightarrow>
     0 < rget requests n \<and> (\<exists>l. provisionableLimit allocatable daemonSet n = Some l \<and> l \<le> 0)"

definition lowers :: "ResourceList \<Rightarrow> ResourceList \<Rightarrow> ResourceList \<Rightarrow> string \<Rightarrow> bool" where
  "lowers requests allocatable daemonSet n \<longleftrightarrow>
     (\<exists>l. provisionableLimit allocatable daemonSet n = Some l \<and> 0 < l \<and> l < rget requests n)"

lemma clamp_loop_Inl:
  "clamp_loop requests allocatable daemonSet res names = Inl name \<longleftrightarrow>
     List.find (refuses requests allocatable daemonSet) names = Some name"
  by (induction names arbitrary: res) (auto simp: refuses_def Let_def split: option.splits)

lemma clamp_loop_Inr:
  "clamp_loop requests allocatable daemonSet res names = Inr r \<Longrightarrow> distinct names \<Longrightarrow>
   (\<forall>n\<in>set names. \<not> refuses requests allocatable daemonSet n)
   \<and> (\<forall>n. rget (cr_Requests r) n =
          (if n \<in> set names \<and> lowers requests allocatable daemonSet n
           then the (provisionableLimit allocatable daemonSet n) else rget (cr_Requests res) n))
   \<and> (\<forall>n. rget (cr_Shortfall r) n =
          (if n \<in> set names \<and> lowers requests allocatable daemonSet n
           then rget requests n - the (provisionableLimit allocatable daemonSet n)
           else rget (cr_Shortfall res) n))
   \<and> fmdom' (cr_Shortfall r) = fmdom' (cr_Shortfall res) \<union> {n\<in>set names. lowers requests allocatable daemonSet n}
   \<and> (cr_Clamped r \<longleftrightarrow> cr_Clamped res \<or> (\<exists>n\<in>set names. lowers requests allocatable daemonSet n))
   \<and> cr_Refused r = cr_Refused res"
proof (induction names arbitrary: res)
  case (Cons name names)
  let ?L = "provisionableLimit allocatable daemonSet name"
  have d: "name \<notin> set names" "distinct names" using Cons.prems by simp_all
  show ?case
  proof (cases "lowers requests allocatable daemonSet name")
    case True
    then obtain l where l: "?L = Some l" "0 < l" "l < rget requests name" by (auto simp: lowers_def)
    then have nr: "\<not> refuses requests allocatable daemonSet name" by (auto simp: refuses_def)
    define res' where "res' = \<lparr>cr_Requests = fmupd name l (cr_Requests res), cr_Clamped = True,
                     cr_Limit = fmupd name l (cr_Limit res),
                     cr_Shortfall = fmupd name (rget requests name - l) (cr_Shortfall res),
                     cr_Refused = cr_Refused res, cr_RefusedResource = cr_RefusedResource res\<rparr>"
    have "clamp_loop requests allocatable daemonSet res' names = Inr r"
      using Cons.prems(1) l by (simp add: res'_def Let_def)
    from Cons.IH [OF this d(2)] show ?thesis using True nr l d(1) by (auto simp: res'_def)
  next
    case False
    have nr: "\<not> refuses requests allocatable daemonSet name"
      using Cons.prems(1) by (auto simp: refuses_def Let_def split: option.splits if_splits)
    have "clamp_loop requests allocatable daemonSet res names = Inr r"
      using Cons.prems(1) False by (auto simp: lowers_def Let_def split: option.splits if_splits)
    from Cons.IH [OF this d(2)] show ?thesis using False nr by auto
  qed
qed simp

lemma refuses_dom: "refuses requests allocatable daemonSet n \<Longrightarrow> n \<in> fmdom' requests"
  by (auto simp: refuses_def rget_def fmdom'_alt_def split: option.splits intro: fmdomI)

lemma lowers_dom: "lowers requests allocatable daemonSet n \<Longrightarrow> n \<in> fmdom' requests"
  by (auto simp: lowers_def rget_def fmdom'_alt_def split: option.splits intro: fmdomI)

lemma sorted_keys_Nil: "sorted_keys m = [] \<longleftrightarrow> m = fmempty"
proof
  assume "sorted_keys m = []"
  then have "fmdom' m = {}" using set_sorted_keys [of m] by simp
  then show "m = fmempty" by (intro fmap_ext) (simp add: fmdom'_notD)
qed (simp add: sorted_keys_def sorted_list_of_fset.rep_eq)

lemma Clamp_refused_iff:
  "cr_Refused (Clamp requests allocatable daemonSet) \<longleftrightarrow>
     allocatable \<noteq> fmempty \<and> (\<exists>n. refuses requests allocatable daemonSet n)"
proof (cases "allocatable = fmempty")
  case True
  then show ?thesis by (simp add: Clamp_def sorted_keys_Nil unclamped_def)
next
  case False
  show ?thesis
  proof (cases "clamp_loop requests allocatable daemonSet (unclamped requests) (sorted_keys requests)")
    case (Inl name)
    then have "refuses requests allocatable daemonSet name"
      by (auto simp: clamp_loop_Inl find_Some_iff)
    with Inl False show ?thesis by (auto simp: Clamp_def sorted_keys_Nil)
  next
    case (Inr r)
    from clamp_loop_Inr [OF Inr] have "\<not> cr_Refused r" "\<And>n. \<not> refuses requests allocatable daemonSet n"
      using refuses_dom [of requests allocatable daemonSet] by (auto simp: unclamped_def)
    with Inr False show ?thesis by (auto simp: Clamp_def sorted_keys_Nil)
  qed
qed

lemma Clamp_values:
  assumes "\<not> cr_Refused (Clamp requests allocatable daemonSet)" "allocatable \<noteq> fmempty"
  shows "rget (cr_Requests (Clamp requests allocatable daemonSet)) n =
      (if lowers requests allocatable daemonSet n then the (provisionableLimit allocatable daemonSet n)
       else rget requests n)"
    "rget (cr_Shortfall (Clamp requests allocatable daemonSet)) n =
      (if lowers requests allocatable daemonSet n
       then rget requests n - the (provisionableLimit allocatable daemonSet n) else 0)"
    "fmdom' (cr_Shortfall (Clamp requests allocatable daemonSet)) = {n. lowers requests allocatable daemonSet n}"
    "cr_Clamped (Clamp requests allocatable daemonSet) \<longleftrightarrow> (\<exists>n. lowers requests allocatable daemonSet n)"
proof -
  obtain r where r: "clamp_loop requests allocatable daemonSet (unclamped requests) (sorted_keys requests) = Inr r"
    using assms by (cases "clamp_loop requests allocatable daemonSet (unclamped requests) (sorted_keys requests)")
      (auto simp: Clamp_def sorted_keys_Nil)
  then have c: "Clamp requests allocatable daemonSet = r" using assms(2) by (simp add: Clamp_def sorted_keys_Nil)
  note s = clamp_loop_Inr [OF r distinct_sorted_keys]
  note ld = lowers_dom [of requests allocatable daemonSet]
  show "rget (cr_Requests (Clamp requests allocatable daemonSet)) n =
      (if lowers requests allocatable daemonSet n then the (provisionableLimit allocatable daemonSet n)
       else rget requests n)"
    using s ld by (auto simp: c unclamped_def)
  show "rget (cr_Shortfall (Clamp requests allocatable daemonSet)) n =
      (if lowers requests allocatable daemonSet n
       then rget requests n - the (provisionableLimit allocatable daemonSet n) else 0)"
    using s ld by (auto simp: c unclamped_def)
  show "fmdom' (cr_Shortfall (Clamp requests allocatable daemonSet)) = {n. lowers requests allocatable daemonSet n}"
    using s ld by (auto simp: c unclamped_def)
  show "cr_Clamped (Clamp requests allocatable daemonSet) \<longleftrightarrow> (\<exists>n. lowers requests allocatable daemonSet n)"
    using s ld by (auto simp: c unclamped_def)
qed

lemma Clamp_unknown: "Clamp requests fmempty daemonSet = unclamped requests"
  by (simp add: Clamp_def sorted_keys_Nil)

lemma Clamp_refused_requests:
  "cr_Refused (Clamp requests allocatable daemonSet) \<Longrightarrow>
     cr_Requests (Clamp requests allocatable daemonSet) = requests \<and> \<not> cr_Clamped (Clamp requests allocatable daemonSet)"
proof -
  assume a: "cr_Refused (Clamp requests allocatable daemonSet)"
  then have ne: "allocatable \<noteq> fmempty" by (simp add: Clamp_refused_iff)
  show ?thesis
  proof (cases "clamp_loop requests allocatable daemonSet (unclamped requests) (sorted_keys requests)")
    case (Inl name)
    with ne show ?thesis by (simp add: Clamp_def sorted_keys_Nil unclamped_def)
  next
    case (Inr r)
    with clamp_loop_Inr [OF Inr] a ne show ?thesis by (auto simp: Clamp_def sorted_keys_Nil unclamped_def)
  qed
qed

section \<open>Lemmas: the whole-node mode\<close>

lemma raise_other: "n \<noteq> m \<Longrightarrow> fmlookup (raise a d b m out) n = fmlookup out n"
  by (auto simp: raise_def refusable_def split: option.splits)

text \<open>What a mandatory raise establishes on its dimension, and every raise keeps.\<close>

definition raised :: "ResourceList \<Rightarrow> ResourceList \<Rightarrow> string \<Rightarrow> ResourceList \<Rightarrow> bool" where
  "raised a d n out \<longleftrightarrow>
     (\<forall>l. provisionableLimit a d n = Some l \<longrightarrow>
        (0 < l \<longrightarrow> l \<le> rget out n) \<and> (l \<le> 0 \<and> 0 < rget a n \<longrightarrow> 0 < rget out n))"

lemma raise_mandatory: "raised a d n (raise a d True n out)"
  by (auto simp: raised_def raise_def refusable_def rget_def split: option.splits)

lemma raise_keeps: "raised a d n out \<Longrightarrow> raised a d n (raise a d b m out)"
proof (cases "n = m")
  case False
  assume "raised a d n out"
  then show ?thesis using raise_other [OF False, of a d b out] by (simp add: raised_def rget_def)
next
  case True
  assume "raised a d n out"
  then show ?thesis
    using True by (auto simp: raised_def raise_def refusable_def rget_def split: option.splits)
qed

lemma fold_raise_keeps: "raised a d n out \<Longrightarrow> raised a d n (fold (raise a d b) ms out)"
  by (induction ms arbitrary: out) (simp_all add: raise_keeps)

lemma WholeNode_raised:
  assumes "0 < k" "allocatable \<noteq> fmempty" "n \<in> set binPackingResources"
  shows "raised allocatable daemonSet n (WholeNode requests allocatable daemonSet k)"
proof -
  let ?R = "raise allocatable daemonSet"
  have "raised allocatable daemonSet n (fold (?R True) binPackingResources requests)"
    using assms(3) raise_mandatory raise_keeps by (auto simp: binPackingResources_def)
  with assms(1,2) show ?thesis by (simp add: WholeNode_def sorted_keys_Nil fold_raise_keeps)
qed

section \<open>Lemmas: band and headroom\<close>

lemma Band_fold:
  "distinct ns \<Longrightarrow>
   rget (fold (\<lambda>name band. case fmlookup claimA name of None \<Rightarrow> band
             | Some claim \<Rightarrow> let gap = rget nodeA name - claim in fmupd name (if gap < 0 then 0 else gap) band) ns b) n
     = (if n \<in> set ns \<and> n |\<in>| fmdom claimA then max 0 (rget nodeA n - rget claimA n) else rget b n)"
proof (induction ns arbitrary: b)
  case (Cons m ns)
  then show ?case
    by (cases "fmlookup claimA m") (auto simp: rget_def Let_def max_def intro: fmdomI dest: fmdom_notI)
qed simp

lemma rget_Band:
  "rget (Band nodeA claimA) n =
     (if n |\<in>| fmdom nodeA \<and> n |\<in>| fmdom claimA then max 0 (rget nodeA n - rget claimA n) else 0)"
  by (simp add: Band_def Band_fold fmdom'_alt_def)

lemma ExceedsBand_None:
  "ExceedsBand shortfall band = None \<longleftrightarrow> (\<forall>n\<in>fmdom' shortfall. rget shortfall n \<le> rget band n)"
  by (auto simp: ExceedsBand_def find_None_iff not_less)

definition budget_left :: "NodePool \<Rightarrow> string \<Rightarrow> quantity" where
  "budget_left pool n = rget (np_Limits pool) n - rget (np_Resources pool) n"

lemma headroom_loop_spec:
  "(hr_Fits (headroom_loop pool requests names) \<longleftrightarrow>
      (\<forall>n\<in>set names. n |\<in>| fmdom (np_Limits pool) \<longrightarrow> rget requests n \<le> budget_left pool n))
   \<and> (\<not> hr_Fits (headroom_loop pool requests names) \<longrightarrow>
        (let r = headroom_loop pool requests names
         in hr_Resource r \<in> set names \<and> hr_Resource r |\<in>| fmdom (np_Limits pool)
            \<and> hr_Want r = rget requests (hr_Resource r) \<and> hr_Remaining r = budget_left pool (hr_Resource r)
            \<and> hr_Limit r = rget (np_Limits pool) (hr_Resource r) \<and> hr_Remaining r < hr_Want r))"
proof (induction names)
  case (Cons n names)
  show ?case
  proof (cases "fmlookup (np_Limits pool) n")
    case None
    with Cons show ?thesis by (auto simp: Let_def fmdom_notI)
  next
    case (Some limit)
    then have d: "n |\<in>| fmdom (np_Limits pool)" by (rule fmdomI)
    have b: "(case fmlookup (np_Resources pool) n of None \<Rightarrow> limit | Some used \<Rightarrow> limit - used) = budget_left pool n"
      using Some by (simp add: budget_left_def rget_def split: option.splits)
    show ?thesis
    proof (cases "budget_left pool n < rget requests n")
      case True
      with Some b d show ?thesis by (auto simp: Let_def rget_def [of "np_Limits pool"])
    next
      case False
      with Some b d Cons show ?thesis by (auto simp: Let_def)
    qed
  qed
qed simp

section \<open>Lemmas: census and node pins\<close>

definition pc_total :: "PodCensus \<Rightarrow> nat" where
  "pc_total c = pc_Counted c + pc_DaemonSet c + pc_Mirror c + pc_Completed c + pc_NodePinned c"

lemma pod_census_step_counts:
  "pc_Counted (pod_census_step nodeName p c) = pc_Counted c + (if reschedulable p nodeName then 1 else 0)"
  "pc_total (pod_census_step nodeName p c) = pc_total c + (if pod_NodeName p = nodeName then 1 else 0)"
  by (simp_all add: pod_census_step_def reschedulable_def IsInfraOrCompleted_def pc_total_def)

lemma pod_census_fold:
  "pc_Counted (fold (pod_census_step nodeName) pods c) = pc_Counted c + length (filter (\<lambda>p. reschedulable p nodeName) pods)
   \<and> pc_total (fold (pod_census_step nodeName) pods c) = pc_total c + length (filter (\<lambda>p. pod_NodeName p = nodeName) pods)"
proof (induction pods arbitrary: c)
  case (Cons p pods)
  show ?case using Cons [of "pod_census_step nodeName p c"] by (simp add: pod_census_step_counts)
qed simp

lemma pinned_hosts_Some:
  "pinned_hosts ts = Some hs \<Longrightarrow>
     (\<forall>t\<in>set ts. term_hosts t \<noteq> None) \<and> set hs = (\<Union>t\<in>set ts. set (the (term_hosts t)))"
  by (induction ts arbitrary: hs) (auto split: option.splits)

lemma pinned_hosts_None: "pinned_hosts ts = None \<longleftrightarrow> (\<exists>t\<in>set ts. term_hosts t = None)"
  by (induction ts) (auto split: option.splits)

section \<open>Properties\<close>

definition rlist :: "(string \<times> quantity) list \<Rightarrow> ResourceList" where
  "rlist = fmap_of_list"

text \<open>
  C22. The clamp never trades away a whole resource. It refuses, and then keeps the full requests,
  exactly when some resource with positive demand has no positive ceiling (allocatable known).
  Otherwise every reported resource is capped at its ceiling, a positive demand stays positive, and
  what is reserved plus the reported shortfall is what was asked; with no allocatable the requests
  pass through unchanged.
\<close>

theorem clamp_preserves_every_demand:
  "let r = Clamp requests allocatable daemonSet in
     (cr_Refused r \<longleftrightarrow> allocatable \<noteq> fmempty
        \<and> (\<exists>n l. 0 < rget requests n \<and> provisionableLimit allocatable daemonSet n = Some l \<and> l \<le> 0))
     \<and> (cr_Refused r \<or> allocatable = fmempty \<longrightarrow> cr_Requests r = requests \<and> \<not> cr_Clamped r)
     \<and> (\<not> cr_Refused r \<longrightarrow>
          (\<forall>n. rget (cr_Requests r) n + rget (cr_Shortfall r) n = rget requests n
             \<and> 0 \<le> rget (cr_Shortfall r) n
             \<and> (0 < rget requests n \<longrightarrow> 0 < rget (cr_Requests r) n)
             \<and> (\<forall>l. allocatable \<noteq> fmempty \<and> provisionableLimit allocatable daemonSet n = Some l
                    \<and> 0 < rget requests n \<longrightarrow> rget (cr_Requests r) n \<le> l)))"
proof (cases "allocatable = fmempty")
  case True
  then show ?thesis by (auto simp: Let_def Clamp_unknown unclamped_def)
next
  case False
  let ?r = "Clamp requests allocatable daemonSet"
  have iff: "cr_Refused ?r \<longleftrightarrow>
      (\<exists>n l. 0 < rget requests n \<and> provisionableLimit allocatable daemonSet n = Some l \<and> l \<le> 0)"
    using False by (auto simp: Clamp_refused_iff refuses_def)
  have kept: "cr_Refused ?r \<longrightarrow> cr_Requests ?r = requests \<and> \<not> cr_Clamped ?r"
    using Clamp_refused_requests by blast
  have vals: "rget (cr_Requests ?r) n + rget (cr_Shortfall ?r) n = rget requests n
      \<and> 0 \<le> rget (cr_Shortfall ?r) n \<and> (0 < rget requests n \<longrightarrow> 0 < rget (cr_Requests ?r) n)
      \<and> (\<forall>l. provisionableLimit allocatable daemonSet n = Some l \<and> 0 < rget requests n \<longrightarrow>
             rget (cr_Requests ?r) n \<le> l)" if nr: "\<not> cr_Refused ?r" for n
    unfolding Clamp_values(1,2) [OF nr False]
    using nr [unfolded iff] by (auto simp: lowers_def not_le)
  show ?thesis using iff kept vals False by (simp add: Let_def)
qed

theorem clamp_preserves_every_demand_witness:
  "cr_Requests (Clamp (rlist [(''cpu'', 3)]) (rlist [(''cpu'', 2)]) (rlist [(''cpu'', 2)])) = rlist [(''cpu'', 3)]
   \<and> rget (cr_Requests (Clamp (rlist [(''cpu'', 3)]) (rlist [(''cpu'', 4)]) (rlist [(''cpu'', 2)]))) ''cpu'' \<le> 2"
proof -
  have ne: "rlist [(''cpu'', q)] \<noteq> fmempty" "rget (rlist [(''cpu'', q)]) ''cpu'' = q" for q
    by (auto simp: rlist_def rget_def fmlookup_of_list dest: arg_cong [where f = "\<lambda>m. fmlookup m ''cpu''"])
  have l: "provisionableLimit (rlist [(''cpu'', a)]) (rlist [(''cpu'', d)]) n = (if n = ''cpu'' then Some (a - d) else None)" for a d n
    by (auto simp: provisionableLimit_def rlist_def fmlookup_of_list)
  have z: "rget (rlist [(''cpu'', q)]) n = (if n = ''cpu'' then q else 0)" for q n
    by (auto simp: rlist_def rget_def fmlookup_of_list)
  show ?thesis
    using clamp_preserves_every_demand [of "rlist [(''cpu'', 3)]" "rlist [(''cpu'', 2)]" "rlist [(''cpu'', 2)]"]
      clamp_preserves_every_demand [of "rlist [(''cpu'', 3)]" "rlist [(''cpu'', 4)]" "rlist [(''cpu'', 2)]"]
    by (auto simp: Let_def ne l z split: if_splits)
qed

text \<open>
  The census explains the sizing: the Pods it counts are exactly the ones whose requests are
  summed, and every Pod of the node falls in one bucket. A Pod held by a required node affinity is
  taken as pinned exactly when every alternative term bounds the hostname and the only host any
  term admits is the candidate, so a Pod with another way out is always reserved for.
\<close>

theorem census_explains_sizing:
  "let c = CensusOnNode pods nodeName; movers = filter (\<lambda>p. reschedulable p nodeName) pods in
     pc_Counted c = length movers
     \<and> (\<forall>n. rget (ReschedulableRequests pods nodeName) n = (\<Sum>p\<leftarrow>movers. rget (pod_Requests p) n))
     \<and> pc_Counted c + pc_DaemonSet c + pc_Mirror c + pc_Completed c + pc_NodePinned c
       = length (filter (\<lambda>p. pod_NodeName p = nodeName) pods)
     \<and> (\<forall>p na terms. pod_NodeSelector p LabelHostname = None \<and> pod_NodeAffinity p = Some na
            \<and> na_Required na = Some terms \<and> terms \<noteq> [] \<longrightarrow>
          (isNodePinned p nodeName \<longleftrightarrow>
             (\<forall>t\<in>set terms. term_hosts t \<noteq> None)
             \<and> (\<Union>t\<in>set terms. set (the (term_hosts t))) = {nodeName}))"
proof -
  have one: "length (remdups hs) = 1 \<and> nodeName \<in> set hs \<longleftrightarrow> set hs = {nodeName}" for hs
  proof
    assume a: "length (remdups hs) = 1 \<and> nodeName \<in> set hs"
    then obtain h where "remdups hs = [h]" by (auto simp: length_Suc_conv)
    then have "set hs = {h}" by (metis set_remdups list.set(1,2))
    with a show "set hs = {nodeName}" by auto
  next
    assume a: "set hs = {nodeName}"
    then have "set (remdups hs) = {nodeName}" by simp
    then have "length (remdups hs) = card {nodeName}" by (metis distinct_card distinct_remdups)
    with a show "length (remdups hs) = 1 \<and> nodeName \<in> set hs" by simp
  qed
  have pin: "isNodePinned p nodeName \<longleftrightarrow>
      (\<forall>t\<in>set terms. term_hosts t \<noteq> None) \<and> (\<Union>t\<in>set terms. set (the (term_hosts t))) = {nodeName}"
    if "pod_NodeSelector p LabelHostname = None" "pod_NodeAffinity p = Some na" "na_Required na = Some terms"
      "terms \<noteq> []" for p na terms
  proof (cases "pinned_hosts terms")
    case None
    with that show ?thesis using pinned_hosts_None [of terms] by (auto simp: isNodePinned_def)
  next
    case (Some hs)
    with that pinned_hosts_Some [OF Some] one [of hs] show ?thesis by (simp add: isNodePinned_def)
  qed
  show ?thesis
    using pod_census_fold [of nodeName pods "\<lparr>pc_Counted = 0, pc_DaemonSet = 0, pc_Mirror = 0,
      pc_Completed = 0, pc_NodePinned = 0\<rparr>"] pin
    by (simp add: Let_def CensusOnNode_def ReschedulableRequests_sum pc_total_def)
qed

definition demo_pod :: "string \<Rightarrow> NodeSelectorTerm list \<Rightarrow> Pod" where
  "demo_pod node terms = \<lparr>pod_Name = ''p'', pod_UID = ''u-p'', pod_Namespace = ''default'', pod_Labels = Map.empty,
     pod_Annotations = Map.empty, pod_OwnerReferences = [], pod_DeletionTimestamp = None,
     pod_NodeName = node, pod_NodeSelector = Map.empty,
     pod_NodeAffinity = Some \<lparr>na_Required = Some terms, na_Preferred = []\<rparr>,
     pod_PriorityClassName = '''', pod_PreemptionPolicy = None, pod_AutomountServiceAccountToken = None,
     pod_Tolerations = [], pod_Containers = [], pod_Requests = rlist [(''cpu'', 2)],
     pod_Phase = PodRunning, pod_Conditions = []\<rparr>"

theorem census_explains_sizing_witness:
  "isNodePinned (demo_pod ''n1'' [[\<lparr>rq_Key = LabelHostname, rq_Operator = OpIn, rq_Values = [''n1'']\<rparr>]]) ''n1''
   \<and> \<not> isNodePinned (demo_pod ''n1'' [[\<lparr>rq_Key = LabelHostname, rq_Operator = OpNotIn, rq_Values = [''n2'']\<rparr>]]) ''n1''"
proof -
  have "\<And>p na terms. pod_NodeSelector p LabelHostname = None \<Longrightarrow> pod_NodeAffinity p = Some na \<Longrightarrow>
      na_Required na = Some terms \<Longrightarrow> terms \<noteq> [] \<Longrightarrow>
      isNodePinned p ''n1'' \<longleftrightarrow> (\<forall>t\<in>set terms. term_hosts t \<noteq> None)
        \<and> (\<Union>t\<in>set terms. set (the (term_hosts t))) = {''n1''}"
    using census_explains_sizing [of "[]" "''n1''"] unfolding Let_def by blast
  from this [of "demo_pod ''n1'' ts" "\<lparr>na_Required = Some ts, na_Preferred = []\<rparr>" ts for ts]
  have "ts \<noteq> [] \<Longrightarrow> isNodePinned (demo_pod ''n1'' ts) ''n1'' \<longleftrightarrow>
      (\<forall>t\<in>set ts. term_hosts t \<noteq> None) \<and> (\<Union>t\<in>set ts. set (the (term_hosts t))) = {''n1''}" for ts
    by (simp add: demo_pod_def)
  then show ?thesis by (simp add: term_hosts_def OpIn_def OpNotIn_def Let_def)
qed

text \<open>
  The shortfall of a clamp is bounded by the measured capacity band: if the scheduler admitted
  the Pods now on the candidate (their requests fit the node's allocatable), the clamp gives up, on
  every resource, at most what the node reports above Karpenter's estimate, so the band is never
  reported as exceeded. The DaemonSet term cancels.
\<close>

theorem shortfall_within_band:
  assumes "\<forall>p\<in>set pods. \<forall>n. 0 \<le> rget (pod_Requests p) n"
    and "\<forall>n. rget (ReschedulableRequests pods nodeName) n + rget (DaemonSetRequests pods nodeName) n
            \<le> rget nodeAllocatable n"
    and "\<not> cr_Refused (Clamp (ReschedulableRequests pods nodeName) claimAllocatable (DaemonSetRequests pods nodeName))"
  shows "ExceedsBand
      (cr_Shortfall (Clamp (ReschedulableRequests pods nodeName) claimAllocatable (DaemonSetRequests pods nodeName)))
      (Band nodeAllocatable claimAllocatable) = None"
proof (cases "claimAllocatable = fmempty")
  case True
  then show ?thesis by (simp add: Clamp_unknown unclamped_def ExceedsBand_None)
next
  case False
  let ?W = "ReschedulableRequests pods nodeName" and ?D = "DaemonSetRequests pods nodeName"
  have "rget (cr_Shortfall (Clamp ?W claimAllocatable ?D)) n \<le> rget (Band nodeAllocatable claimAllocatable) n"
    if lo: "lowers ?W claimAllocatable ?D n" for n
  proof -
    obtain l where l: "provisionableLimit claimAllocatable ?D n = Some l" "0 < l" "l < rget ?W n"
      using lo by (auto simp: lowers_def)
    then have c: "n |\<in>| fmdom claimAllocatable" "l = rget claimAllocatable n - rget ?D n"
      by (auto simp: provisionableLimit_def rget_def split: option.splits intro: fmdomI)
    have "0 \<le> rget ?D n" unfolding DaemonSetRequests_sum by (rule sum_list_nonneg) (use assms(1) in auto)
    then have "0 < rget nodeAllocatable n" using l assms(2) [rule_format, of n] by linarith
    then have d: "n |\<in>| fmdom nodeAllocatable" by (auto simp: rget_def split: option.splits intro: fmdomI)
    have "rget (cr_Shortfall (Clamp ?W claimAllocatable ?D)) n = rget ?W n - l"
      using Clamp_values(2) [OF assms(3) False, of n] lo l(1) by simp
    also have "\<dots> \<le> rget nodeAllocatable n - rget claimAllocatable n" using assms(2) [rule_format, of n] c(2) by simp
    also have "\<dots> \<le> rget (Band nodeAllocatable claimAllocatable) n" using c(1) d by (simp add: rget_Band)
    finally show ?thesis .
  qed
  then show ?thesis
    unfolding ExceedsBand_None Clamp_values(3) [OF assms(3) False] by blast
qed

theorem shortfall_within_band_witness:
  "ExceedsBand (cr_Shortfall (Clamp (ReschedulableRequests [] ''n'') (rlist [(''cpu'', 4)]) (DaemonSetRequests [] ''n'')))
     (Band (rlist [(''cpu'', 5)]) (rlist [(''cpu'', 4)])) = None"
proof (rule shortfall_within_band)
  show "\<forall>n. rget (ReschedulableRequests [] ''n'') n + rget (DaemonSetRequests [] ''n'') n \<le> rget (rlist [(''cpu'', 5)]) n"
    by (simp add: ReschedulableRequests_sum DaemonSetRequests_sum) (simp add: rlist_def rget_def fmlookup_of_list)
  show "\<not> cr_Refused (Clamp (ReschedulableRequests [] ''n'') (rlist [(''cpu'', 4)]) (DaemonSetRequests [] ''n''))"
    by (simp add: Clamp_refused_iff refuses_def ReschedulableRequests_sum)
qed simp

text \<open>
  Whole-node reservation never makes an empty reservation. When some Pod has to re-land and the
  candidate reports a positive cpu (or memory) allocatable, the placeholder ends up asking for a
  positive amount of it, whatever the Pods request: exactly the provisionable ceiling, or the full
  demand when the clamp refuses.
\<close>

theorem whole_node_reserves_something:
  assumes "0 < k" "n \<in> set binPackingResources" "0 < rget allocatable n"
  shows "let w = WholeNode requests allocatable daemonSet k; r = Clamp w allocatable daemonSet in
     0 < rget (cr_Requests r) n
     \<and> (\<not> cr_Refused r \<longrightarrow> Some (rget (cr_Requests r) n) = provisionableLimit allocatable daemonSet n)"
proof -
  let ?w = "WholeNode requests allocatable daemonSet k"
  let ?r = "Clamp ?w allocatable daemonSet"
  have ne: "allocatable \<noteq> fmempty" using assms(3) by auto
  obtain l where l: "provisionableLimit allocatable daemonSet n = Some l"
    using assms(3)
    by (cases "fmlookup daemonSet n") (auto simp: provisionableLimit_def rget_def split: option.splits)
  have ra: "0 < l \<Longrightarrow> l \<le> rget ?w n" "l \<le> 0 \<Longrightarrow> 0 < rget ?w n"
    using WholeNode_raised [OF assms(1) ne assms(2), of daemonSet requests] l assms(3) by (auto simp: raised_def)
  show ?thesis
  proof (cases "cr_Refused ?r")
    case True
    with Clamp_refused_requests [OF this] ra show ?thesis by (cases "0 < l") (auto simp: Let_def)
  next
    case False
    then have "\<not> refuses ?w allocatable daemonSet n" using ne by (auto simp: Clamp_refused_iff)
    then have "0 < l" using l ra(2) by (cases "l \<le> 0") (auto simp: refuses_def)
    then have "rget (cr_Requests ?r) n = l"
      using Clamp_values(1) [OF False ne, of n] l ra(1) by (auto simp: lowers_def)
    with l \<open>0 < l\<close> show ?thesis by (simp add: Let_def)
  qed
qed

theorem whole_node_reserves_something_witness:
  "0 < rget (cr_Requests (Clamp (WholeNode fmempty (rlist [(''cpu'', 8)]) fmempty 1) (rlist [(''cpu'', 8)]) fmempty)) ''cpu''"
  using whole_node_reserves_something [of 1 "''cpu''" "rlist [(''cpu'', 8)]" fmempty fmempty]
  by (simp add: Let_def binPackingResources_def ResourceCPU_def rlist_def rget_def fmlookup_of_list)

text \<open>
  The headroom gate lets a rotation start exactly when, on every resource the NodePool limits,
  the placeholder's request fits what is left of the limit; a block names a limited resource that
  does not fit, with the numbers that decide it.
\<close>

theorem headroom_gate_exact:
  "(hr_Fits (Headroom pool requests) \<longleftrightarrow>
      (\<forall>n\<in>fmdom' requests. n |\<in>| fmdom (np_Limits pool) \<longrightarrow>
         rget requests n + rget (np_Resources pool) n \<le> rget (np_Limits pool) n))
   \<and> (\<not> hr_Fits (Headroom pool requests) \<longrightarrow>
        (let r = Headroom pool requests in
           hr_Want r = rget requests (hr_Resource r) \<and> hr_Limit r = rget (np_Limits pool) (hr_Resource r)
           \<and> hr_Remaining r = hr_Limit r - rget (np_Resources pool) (hr_Resource r)
           \<and> hr_Remaining r < hr_Want r))"
  using headroom_loop_spec [of pool requests "sorted_keys requests"]
  by (auto simp: Headroom_def Let_def budget_left_def algebra_simps)

definition demo_pool_limits :: NodePool where
  "demo_pool_limits = \<lparr>np_Name = ''pool'', np_UID = ''u-pool'', np_ResourceVersion = 1, np_Labels = Map.empty,
     np_Annotations = Map.empty, np_ExpireAfter = None, np_TerminationGracePeriod = None, np_Taints = [],
     np_Requirements = [], np_Limits = rlist [(''cpu'', 10)], np_Replicas = None,
     np_Resources = rlist [(''cpu'', 8)]\<rparr>"

theorem headroom_gate_exact_witness:
  "hr_Fits (Headroom demo_pool_limits (rlist [(''cpu'', 2), (''memory'', 50)]))
   \<and> \<not> hr_Fits (Headroom demo_pool_limits (rlist [(''cpu'', 3)]))"
  using headroom_gate_exact [of demo_pool_limits "rlist [(''cpu'', 2), (''memory'', 50)]"]
    headroom_gate_exact [of demo_pool_limits "rlist [(''cpu'', 3)]"]
  by (auto simp: demo_pool_limits_def rlist_def rget_def fmlookup_of_list fmdom'_alt_def fmdom_fmap_of_list
      split: if_splits)

end
