(* ===== verification/Placeholder.thy ===== *)
theory Placeholder
  imports Surge
begin

text \<open>
  The placeholder Pod (\<open>internal/surge/placeholder.go\<close>): the requirements it replicates from
  the candidate, intersected with what the NodePool allows, its node affinity, tolerations and
  marks. \<open>strconv.ParseInt(s, 10, 64)\<close> accepts what \<open>Atoi\<close> accepts.
\<close>

definition placeholderContainerName :: string where "placeholderContainerName = ''pause''"
definition hostnameExclusionWeight :: int where "hostnameExclusionWeight = 100"

record PlaceholderInputs =
  pl_Candidate :: NodeClaim
  pl_Node :: Node
  pl_Pool :: NodePool
  pl_Requests :: ResourceList
  pl_Match :: MatchNodeRequirements
  pl_ExcludedHostnames :: "string list"
  pl_PriorityClassName :: string
  pl_Image :: string
  pl_Namespace :: string

definition poolTolerations :: "NodePool \<Rightarrow> Toleration list" where
  "poolTolerations pool =
     map (\<lambda>t. \<lparr>to_Key = ta_Key t, to_Operator = ''Equal'', to_Value = ta_Value t, to_Effect = ta_Effect t\<rparr>)
       (np_Taints pool)"

definition numericPermits :: "string \<Rightarrow> string list \<Rightarrow> string \<Rightarrow> bool" where
  "numericPermits op values v =
     (case values of
        [b] \<Rightarrow>
          (case (Atoi b, Atoi v) of
             (Some bound, Some got) \<Rightarrow>
               if op = OpGt then bound < got
               else if op = OpGte then bound \<le> got
               else if op = OpLt then got < bound
               else if op = OpLte then got \<le> bound
               else False
           | _ \<Rightarrow> False)
      | _ \<Rightarrow> False)"

definition requirementPermits :: "string \<Rightarrow> string list \<Rightarrow> string \<Rightarrow> bool" where
  "requirementPermits op values v =
     (if op = OpIn then List.member values v
      else if op = OpNotIn then \<not> List.member values v
      else if op = OpExists then True
      else if op = OpDoesNotExist then False
      else if op = OpGt \<or> op = OpLt \<or> op = OpGte \<or> op = OpLte then numericPermits op values v
      else False)"

definition poolAllows :: "NodePool \<Rightarrow> string \<Rightarrow> string \<Rightarrow> bool" where
  "poolAllows pool key v =
     list_all (\<lambda>r. rq_Key r = key \<longrightarrow> requirementPermits (rq_Operator r) (rq_Values r) v)
       (np_Requirements pool)"

definition candidateValues :: "PlaceholderInputs \<Rightarrow> string \<Rightarrow> string list" where
  "candidateValues inp key =
     (case nd_Labels (pl_Node inp) key of
        Some v \<Rightarrow> [v]
      | None \<Rightarrow>
          concat (map (\<lambda>r. if rq_Key r = key \<and> rq_Operator r = OpIn then rq_Values r else [])
            (nc_Requirements (pl_Candidate inp))))"

definition replicatedRequirements :: "PlaceholderInputs \<Rightarrow> string list \<Rightarrow> Requirement list" where
  "replicatedRequirements inp keys =
     concat (map (\<lambda>key.
       let allowed = filter (poolAllows (pl_Pool inp) key) (candidateValues inp key)
       in if allowed = [] then []
          else [\<lparr>rq_Key = key, rq_Operator = OpIn, rq_Values = allowed\<rparr>]) keys)"

definition nodeAffinity :: "PlaceholderInputs \<Rightarrow> NodeAffinity" where
  "nodeAffinity inp =
     (let required = \<lparr>rq_Key = NodePoolLabelKey, rq_Operator = OpIn, rq_Values = [np_Name (pl_Pool inp)]\<rparr>
            # replicatedRequirements inp (mnr_Required (pl_Match inp))
      in \<lparr>na_Required = Some [required],
          na_Preferred =
            (if pl_ExcludedHostnames inp \<noteq> []
             then [(hostnameExclusionWeight,
                    [\<lparr>rq_Key = LabelHostname, rq_Operator = OpNotIn, rq_Values = pl_ExcludedHostnames inp\<rparr>])]
             else [])
            @ map (\<lambda>e. (1, [e])) (replicatedRequirements inp (mnr_Preferred (pl_Match inp)))\<rparr>)"

definition BuildPlaceholder :: "(string \<Rightarrow> string) \<Rightarrow> PlaceholderInputs \<Rightarrow> Pod" where
  "BuildPlaceholder sha256_hex inp =
     \<lparr>pod_Name = PlaceholderName sha256_hex (nc_Name (pl_Candidate inp)), pod_UID = '''',
      pod_Namespace = pl_Namespace inp,
      pod_Labels = [SurgeFor \<mapsto> nc_Name (pl_Candidate inp), NodePoolLabelKey \<mapsto> np_Name (pl_Pool inp)],
      pod_Annotations = [DoNotDisruptAnnotationKey \<mapsto> ''true''],
      pod_OwnerReferences = [], pod_DeletionTimestamp = None, pod_NodeName = '''',
      pod_NodeSelector = Map.empty, pod_NodeAffinity = Some (nodeAffinity inp),
      pod_PriorityClassName = pl_PriorityClassName inp, pod_PreemptionPolicy = Some ''Never'',
      pod_AutomountServiceAccountToken = Some False, pod_Tolerations = poolTolerations (pl_Pool inp),
      pod_Containers = [(placeholderContainerName, pl_Image inp)], pod_Requests = pl_Requests inp,
      pod_Phase = '''', pod_Conditions = []\<rparr>"

section \<open>Lemmas\<close>

lemmas op_defs = OpIn_def OpNotIn_def OpExists_def OpDoesNotExist_def OpGt_def OpLt_def OpGte_def OpLte_def

text \<open>
  What kube-scheduler documents of admission. A node admits a Pod when its labels satisfy the node selector
  and one of the required terms, and each of its taints, soft ones aside, is tolerated. The placeholder
  has no numeric requirement of its own, so those count as unmet here.
\<close>

definition satisfies :: "annots \<Rightarrow> Requirement list \<Rightarrow> bool" where
  "satisfies labels rs \<longleftrightarrow>
     (\<forall>r\<in>set rs. case labels (rq_Key r) of
        Some v \<Rightarrow> rq_Operator r = ''In'' \<and> v \<in> set (rq_Values r) \<or> rq_Operator r = ''NotIn'' \<and> v \<notin> set (rq_Values r)
                  \<or> rq_Operator r = ''Exists''
      | None \<Rightarrow> rq_Operator r = ''NotIn'' \<or> rq_Operator r = ''DoesNotExist'')"

definition tolerates :: "Toleration \<Rightarrow> Taint \<Rightarrow> bool" where
  "tolerates t taint \<longleftrightarrow>
     (to_Effect t = '''' \<or> to_Effect t = ta_Effect taint) \<and> (to_Key t = '''' \<or> to_Key t = ta_Key taint)
     \<and> (to_Operator t = ''Exists'' \<or> (to_Operator t = '''' \<or> to_Operator t = ''Equal'') \<and> to_Value t = ta_Value taint)"

definition admits :: "annots \<Rightarrow> Taint list \<Rightarrow> Pod \<Rightarrow> bool" where
  "admits labels taints pod \<longleftrightarrow>
     pod_NodeSelector pod \<subseteq>\<^sub>m labels
     \<and> (case pod_NodeAffinity pod of
          None \<Rightarrow> True
        | Some na \<Rightarrow> (case na_Required na of None \<Rightarrow> True | Some terms \<Rightarrow> \<exists>rs\<in>set terms. satisfies labels rs))
     \<and> (\<forall>taint\<in>set taints. ta_Effect taint \<noteq> ''PreferNoSchedule'' \<longrightarrow> (\<exists>t\<in>set (pod_Tolerations pod). tolerates t taint))"

text \<open>
  The values the replacement may have to match: the candidate node's label, and for a key that is no
  label of the node the values its NodeClaim asked for. And what a NodePool permits, operator by operator.
\<close>

definition parity :: "PlaceholderInputs \<Rightarrow> string \<Rightarrow> string \<Rightarrow> bool" where
  "parity inp key v \<longleftrightarrow>
     (case nd_Labels (pl_Node inp) key of
        Some w \<Rightarrow> v = w
      | None \<Rightarrow> (\<exists>r\<in>set (nc_Requirements (pl_Candidate inp)). rq_Key r = key \<and> rq_Operator r = ''In'' \<and> v \<in> set (rq_Values r)))"

definition permitted :: "NodePool \<Rightarrow> string \<Rightarrow> string \<Rightarrow> bool" where
  "permitted pool key v \<longleftrightarrow>
     (\<forall>r\<in>set (np_Requirements pool). rq_Key r = key \<longrightarrow>
        rq_Operator r = ''In'' \<and> v \<in> set (rq_Values r) \<or> rq_Operator r = ''NotIn'' \<and> v \<notin> set (rq_Values r)
        \<or> rq_Operator r = ''Exists''
        \<or> (\<exists>b m n. rq_Values r = [b] \<and> Atoi b = Some m \<and> Atoi v = Some n
             \<and> (rq_Operator r = ''Gt'' \<and> m < n \<or> rq_Operator r = ''Gte'' \<and> m \<le> n
                \<or> rq_Operator r = ''Lt'' \<and> n < m \<or> rq_Operator r = ''Lte'' \<and> n \<le> m)))"

lemma replicated_mem:
  "r \<in> set (replicatedRequirements inp keys) \<longleftrightarrow>
     rq_Key r \<in> set keys \<and> rq_Operator r = OpIn \<and> rq_Values r \<noteq> []
     \<and> rq_Values r = filter (poolAllows (pl_Pool inp) (rq_Key r)) (candidateValues inp (rq_Key r))
     \<and> r = \<lparr>rq_Key = rq_Key r, rq_Operator = OpIn, rq_Values = rq_Values r\<rparr>"
  by (cases r) (auto simp: replicatedRequirements_def Let_def split: if_splits)

lemma node_label_wins:
  "nd_Labels (pl_Node inp) key = Some v \<Longrightarrow> candidateValues inp key = [v]"
  by (simp add: candidateValues_def)

lemma parity_values: "v \<in> set (candidateValues inp key) \<longleftrightarrow> parity inp key v"
  by (auto simp: candidateValues_def parity_def op_defs split: option.split if_splits)

lemma permits_iff:
  "requirementPermits op vs v \<longleftrightarrow>
     op = ''In'' \<and> v \<in> set vs \<or> op = ''NotIn'' \<and> v \<notin> set vs \<or> op = ''Exists''
     \<or> (\<exists>b m n. vs = [b] \<and> Atoi b = Some m \<and> Atoi v = Some n
          \<and> (op = ''Gt'' \<and> m < n \<or> op = ''Gte'' \<and> m \<le> n \<or> op = ''Lt'' \<and> n < m \<or> op = ''Lte'' \<and> n \<le> m))"
proof -
  have "numericPermits op vs v \<longleftrightarrow>
     (\<exists>b m n. vs = [b] \<and> Atoi b = Some m \<and> Atoi v = Some n
          \<and> (op = ''Gt'' \<and> m < n \<or> op = ''Gte'' \<and> m \<le> n \<or> op = ''Lt'' \<and> n < m \<or> op = ''Lte'' \<and> n \<le> m))"
    unfolding numericPermits_def op_defs by (auto split: list.split option.split)
  then show ?thesis by (auto simp: requirementPermits_def op_defs)
qed

lemma poolAllows_permitted: "poolAllows pool key v \<longleftrightarrow> permitted pool key v"
  by (simp only: poolAllows_def permitted_def list_all_iff permits_iff)

text \<open>The replicated requirements, read as a demand on the labels of a node.\<close>

lemma replicated_satisfied:
  "satisfies labels (replicatedRequirements inp keys) \<longleftrightarrow>
     (\<forall>key\<in>set keys. (\<exists>v. parity inp key v \<and> permitted (pl_Pool inp) key v) \<longrightarrow>
        (\<exists>v. labels key = Some v \<and> parity inp key v \<and> permitted (pl_Pool inp) key v))"
proof (induction keys)
  case (Cons key keys)
  define allowed where "allowed = filter (poolAllows (pl_Pool inp) key) (candidateValues inp key)"
  have mem: "v \<in> set allowed \<longleftrightarrow> parity inp key v \<and> permitted (pl_Pool inp) key v" for v
    by (auto simp: allowed_def parity_values poolAllows_permitted)
  have split: "satisfies labels (rs @ rs') \<longleftrightarrow> satisfies labels rs \<and> satisfies labels rs'" for rs rs'
    by (auto simp: satisfies_def)
  have one: "satisfies labels (if allowed = [] then [] else [\<lparr>rq_Key = key, rq_Operator = OpIn, rq_Values = allowed\<rparr>])
      \<longleftrightarrow> (allowed \<noteq> [] \<longrightarrow> (\<exists>v. labels key = Some v \<and> v \<in> set allowed))"
    by (auto simp: satisfies_def op_defs split: option.split)
  have some: "allowed \<noteq> [] \<longleftrightarrow> (\<exists>v. parity inp key v \<and> permitted (pl_Pool inp) key v)"
    unfolding mem [symmetric] by (cases allowed) auto
  have "replicatedRequirements inp (key # keys) =
      (if allowed = [] then [] else [\<lparr>rq_Key = key, rq_Operator = OpIn, rq_Values = allowed\<rparr>]) @ replicatedRequirements inp keys"
    by (simp add: replicatedRequirements_def allowed_def Let_def)
  note e = this
  show ?case unfolding e split one some mem Cons.IH list.set by blast
qed (simp add: replicatedRequirements_def satisfies_def)

text \<open>The placeholder tolerates the taints of its NodePool's template, and no others.\<close>

lemma tolerated_taints:
  assumes "\<forall>t\<in>set (np_Taints pool). ta_Key t \<noteq> '''' \<and> ta_Effect t \<noteq> ''''"
  shows "(\<exists>t\<in>set (poolTolerations pool). tolerates t taint) \<longleftrightarrow> taint \<in> set (np_Taints pool)"
proof
  assume "\<exists>t\<in>set (poolTolerations pool). tolerates t taint"
  then obtain t where t: "t \<in> set (np_Taints pool)"
    "tolerates \<lparr>to_Key = ta_Key t, to_Operator = ''Equal'', to_Value = ta_Value t, to_Effect = ta_Effect t\<rparr> taint"
    by (auto simp: poolTolerations_def)
  with assms have "t = taint" by (cases t; cases taint) (auto simp: tolerates_def)
  with t(1) show "taint \<in> set (np_Taints pool)" by simp
qed (force simp: poolTolerations_def tolerates_def)

section \<open>Properties\<close>

text \<open>
  C23. Which nodes admit the placeholder. The node belongs to the candidate's NodePool. For every
  replicated key that has a value the NodePool still permits, the node has one of these values: the
  label of the candidate's own node, or a value its NodeClaim asked for. For a key without one nothing is
  demanded. The taints of the node, soft ones aside, are taints of the NodePool's template: those are all
  tolerated, and no other. No required term is on the host name, which Karpenter would refuse, unless the
  operator asks to replicate it; the hosts to stay away from are the strongest preference. (A taint of a template has a key and an effect:
  the API server admits no other.)
\<close>

theorem placeholder_schedulable:
  assumes "\<forall>t\<in>set (np_Taints (pl_Pool inp)). ta_Key t \<noteq> '''' \<and> ta_Effect t \<noteq> ''''"
  shows "let pod = BuildPlaceholder sha256_hex inp; pool = pl_Pool inp in
    (admits labels taints pod \<longleftrightarrow>
       labels NodePoolLabelKey = Some (np_Name pool)
       \<and> (\<forall>key\<in>set (mnr_Required (pl_Match inp)). (\<exists>v. parity inp key v \<and> permitted pool key v) \<longrightarrow>
            (\<exists>v. labels key = Some v \<and> parity inp key v \<and> permitted pool key v))
       \<and> (\<forall>taint\<in>set taints. ta_Effect taint \<noteq> ''PreferNoSchedule'' \<longrightarrow> taint \<in> set (np_Taints pool)))
    \<and> (\<exists>na terms. pod_NodeAffinity pod = Some na \<and> na_Required na = Some terms
         \<and> (LabelHostname \<notin> set (mnr_Required (pl_Match inp)) \<longrightarrow> (\<forall>rs\<in>set terms. \<forall>r\<in>set rs. rq_Key r \<noteq> LabelHostname))
         \<and> (pl_ExcludedHostnames inp \<noteq> [] \<longrightarrow>
              (100, [\<lparr>rq_Key = LabelHostname, rq_Operator = ''NotIn'', rq_Values = pl_ExcludedHostnames inp\<rparr>])
                \<in> set (na_Preferred na)))"
proof -
  let ?pod = "BuildPlaceholder sha256_hex inp"
  let ?pin = "\<lparr>rq_Key = NodePoolLabelKey, rq_Operator = OpIn, rq_Values = [np_Name (pl_Pool inp)]\<rparr>"
  let ?rep = "replicatedRequirements inp (mnr_Required (pl_Match inp))"
  have aff: "pod_NodeAffinity ?pod = Some (nodeAffinity inp)" "na_Required (nodeAffinity inp) = Some [?pin # ?rep]"
    "pod_NodeSelector ?pod = Map.empty" "pod_Tolerations ?pod = poolTolerations (pl_Pool inp)"
    by (simp_all add: BuildPlaceholder_def nodeAffinity_def Let_def)
  have pin: "satisfies labels (?pin # ?rep) \<longleftrightarrow> labels NodePoolLabelKey = Some (np_Name (pl_Pool inp)) \<and> satisfies labels ?rep"
    by (auto simp: satisfies_def op_defs split: option.split)
  have adm: "admits labels taints ?pod \<longleftrightarrow>
       labels NodePoolLabelKey = Some (np_Name (pl_Pool inp))
       \<and> (\<forall>key\<in>set (mnr_Required (pl_Match inp)). (\<exists>v. parity inp key v \<and> permitted (pl_Pool inp) key v) \<longrightarrow>
            (\<exists>v. labels key = Some v \<and> parity inp key v \<and> permitted (pl_Pool inp) key v))
       \<and> (\<forall>taint\<in>set taints. ta_Effect taint \<noteq> ''PreferNoSchedule'' \<longrightarrow> taint \<in> set (np_Taints (pl_Pool inp)))"
    unfolding admits_def aff tolerated_taints [OF assms] by (simp add: aff(2) pin replicated_satisfied)
  have host: "\<forall>r\<in>set (?pin # ?rep). rq_Key r \<noteq> LabelHostname" if "LabelHostname \<notin> set (mnr_Required (pl_Match inp))"
  proof -
    have "NodePoolLabelKey \<noteq> LabelHostname" by (simp add: NodePoolLabelKey_def LabelHostname_def)
    moreover have "rq_Key r \<noteq> LabelHostname" if "r \<in> set ?rep" for r
      using that \<open>LabelHostname \<notin> _\<close> unfolding replicated_mem by metis
    ultimately show ?thesis by auto
  qed
  have pref: "pl_ExcludedHostnames inp \<noteq> [] \<longrightarrow>
      (100, [\<lparr>rq_Key = LabelHostname, rq_Operator = ''NotIn'', rq_Values = pl_ExcludedHostnames inp\<rparr>])
        \<in> set (na_Preferred (nodeAffinity inp))"
    by (simp add: nodeAffinity_def Let_def hostnameExclusionWeight_def op_defs)
  from adm aff host pref show ?thesis by (simp add: Let_def)
qed

definition demo_node :: "string \<Rightarrow> annots \<Rightarrow> Node" where
  "demo_node name ann = \<lparr>nd_Name = name, nd_ResourceVersion = 1,
     nd_Labels = [NodePoolLabelKey \<mapsto> ''pool'', ''zone'' \<mapsto> ''a''], nd_Annotations = ann,
     nd_Unschedulable = False, nd_Conditions = [], nd_Allocatable = fmempty\<rparr>"

definition demo_nodeclaim :: "string \<Rightarrow> string \<Rightarrow> annots \<Rightarrow> NodeClaim" where
  "demo_nodeclaim name node ann = \<lparr>nc_Name = name, nc_ResourceVersion = 1,
     nc_Labels = [NodePoolLabelKey \<mapsto> ''pool''], nc_Annotations = ann, nc_CreationTimestamp = Hour,
     nc_DeletionTimestamp = None, nc_ExpireAfter = Some (100 * Hour), nc_TerminationGracePeriod = None,
     nc_Requirements = [], nc_NodeName = node, nc_Allocatable = fmempty, nc_Conditions = []\<rparr>"

definition demo_ph_inputs :: PlaceholderInputs where
  "demo_ph_inputs = \<lparr>pl_Candidate = demo_nodeclaim ''c1'' ''n1'' Map.empty, pl_Node = demo_node ''n1'' Map.empty,
     pl_Pool = demo_pool_limits, pl_Requests = fmempty,
     pl_Match = \<lparr>mnr_Required = [''zone''], mnr_Preferred = []\<rparr>, pl_ExcludedHostnames = [''n1''],
     pl_PriorityClassName = ''low'', pl_Image = ''pause'', pl_Namespace = ''ns''\<rparr>"

definition tainted_pool :: NodePool where
  "tainted_pool = demo_pool_limits\<lparr>np_Taints := [\<lparr>ta_Key = ''dedicated'', ta_Value = ''batch'', ta_Effect = ''NoSchedule''\<rparr>]\<rparr>"

theorem placeholder_schedulable_witness:
  "let inp = demo_ph_inputs\<lparr>pl_Pool := tainted_pool\<rparr>
   in admits [NodePoolLabelKey \<mapsto> ''pool'', ''zone'' \<mapsto> ''a''] (np_Taints tainted_pool) (BuildPlaceholder (\<lambda>s. s) inp)
      \<and> \<not> admits [NodePoolLabelKey \<mapsto> ''pool'', ''zone'' \<mapsto> ''b''] [] (BuildPlaceholder (\<lambda>s. s) inp)"
proof -
  let ?inp = "demo_ph_inputs\<lparr>pl_Pool := tainted_pool\<rparr>"
  have h: "\<forall>t\<in>set (np_Taints (pl_Pool ?inp)). ta_Key t \<noteq> '''' \<and> ta_Effect t \<noteq> ''''"
    by (simp add: tainted_pool_def)
  have p: "parity ?inp ''zone'' v \<longleftrightarrow> v = ''a''" "permitted tainted_pool key v" for key v
    by (simp_all add: parity_def permitted_def demo_ph_inputs_def demo_node_def tainted_pool_def demo_pool_limits_def NodePoolLabelKey_def)
  have n: "np_Name tainted_pool = ''pool''" "mnr_Required (pl_Match demo_ph_inputs) = [''zone'']" "''zone'' \<noteq> NodePoolLabelKey"
    by (simp_all add: tainted_pool_def demo_pool_limits_def demo_ph_inputs_def NodePoolLabelKey_def)
  note t = placeholder_schedulable [OF h, of "\<lambda>s. s", unfolded Let_def, THEN conjunct1]
  from n(3) have "NodePoolLabelKey \<noteq> ''zone''" by metis
  then show ?thesis unfolding Let_def t by (simp add: p n)
qed

end
