(* ===== verification/NodeOps.thy ===== *)
theory NodeOps
  imports K8s
begin

text \<open>
  The node mutators of \<open>internal/controller/nodeops.go\<close>: freeze, cordon and their reversal, and
  the opt-out sets. A mutator returns the node it leaves and whether it changed anything. The lemmas
  state the ownership rule: what an operator put on a node is neither adopted nor removed.
\<close>

section \<open>Annotations of a node\<close>

definition setAnnotation :: "string \<Rightarrow> string \<Rightarrow> Node \<Rightarrow> Node \<times> bool" where
  "setAnnotation key v n =
     (if aget (nd_Annotations n) key = v then (n, False)
      else (n\<lparr>nd_Annotations := (nd_Annotations n)(key \<mapsto> v)\<rparr>, True))"

definition removeAnnotation :: "string \<Rightarrow> Node \<Rightarrow> Node \<times> bool" where
  "removeAnnotation key n =
     (if nd_Annotations n key = None then (n, False)
      else (n\<lparr>nd_Annotations := adel (nd_Annotations n) key\<rparr>, True))"

definition hasAnnotation :: "Node \<Rightarrow> string \<Rightarrow> bool" where
  "hasAnnotation n key = (nd_Annotations n key \<noteq> None)"

section \<open>The mutators\<close>

definition operatorOwnsDoNotDisrupt :: "Node \<Rightarrow> bool" where
  "operatorOwnsDoNotDisrupt n =
     (aget (nd_Annotations n) DoNotDisruptAnnotationKey = ''true'' \<and> \<not> hasAnnotation n DoNotDisruptOwned)"

definition applyFreeze :: "string \<Rightarrow> Node \<Rightarrow> Node \<times> bool" where
  "applyFreeze claimName n =
     (let (n, changed) =
            (if \<not> operatorOwnsDoNotDisrupt n then
               (let (n, c1) = setAnnotation DoNotDisruptAnnotationKey ''true'' n;
                    (n, c2) = setAnnotation DoNotDisruptOwned ''true'' n
                in (n, c2 \<or> c1))
             else (n, False));
          (n, c3) = setAnnotation SurgeFor claimName n
      in (n, c3 \<or> changed))"

definition applyCordon :: "Node \<Rightarrow> Node \<times> bool" where
  "applyCordon n =
     (if nd_Unschedulable n \<and> \<not> hasAnnotation n Cordoned then (n, False)
      else let (n, changed) = (if \<not> nd_Unschedulable n then (n\<lparr>nd_Unschedulable := True\<rparr>, True) else (n, False));
               (n, c) = setAnnotation Cordoned ''true'' n
           in (n, c \<or> changed))"

definition applyUncordon :: "Node \<Rightarrow> Node \<times> bool" where
  "applyUncordon n =
     (if \<not> hasAnnotation n Cordoned then (n, False)
      else ((fst (removeAnnotation Cordoned n))\<lparr>nd_Unschedulable := False\<rparr>, True))"

definition applyUnfreeze :: "Node \<Rightarrow> Node \<times> bool" where
  "applyUnfreeze n =
     (let (n, changed) = removeAnnotation SurgeFor n;
          (n, changed) =
            (if hasAnnotation n DoNotDisruptOwned then
               (let (n, c1) = removeAnnotation DoNotDisruptAnnotationKey n;
                    (n, c2) = removeAnnotation DoNotDisruptOwned n
                in (n, c2 \<or> c1 \<or> changed))
             else (n, changed));
          (n, c) = applyUncordon n
      in (n, c \<or> changed))"

section \<open>The opt-out sets\<close>

definition excludedNodeNames :: "Node list \<Rightarrow> string set" where
  "excludedNodeNames nodes = nd_Name ` set (filter operatorOwnsDoNotDisrupt nodes)"

definition excludedClaimNames :: "NodeClaim list \<Rightarrow> string set \<Rightarrow> string set" where
  "excludedClaimNames claims excluded =
     nc_Name ` set (filter (\<lambda>c. nc_NodeName c \<in> excluded) claims)"

section \<open>Lemmas\<close>

lemma node_key_neqs [simp]:
  "DoNotDisruptAnnotationKey \<noteq> DoNotDisruptOwned" "DoNotDisruptOwned \<noteq> DoNotDisruptAnnotationKey"
  "DoNotDisruptAnnotationKey \<noteq> SurgeFor" "SurgeFor \<noteq> DoNotDisruptAnnotationKey"
  "DoNotDisruptAnnotationKey \<noteq> Cordoned" "Cordoned \<noteq> DoNotDisruptAnnotationKey"
  "DoNotDisruptOwned \<noteq> SurgeFor" "SurgeFor \<noteq> DoNotDisruptOwned"
  "DoNotDisruptOwned \<noteq> Cordoned" "Cordoned \<noteq> DoNotDisruptOwned"
  "SurgeFor \<noteq> Cordoned" "Cordoned \<noteq> SurgeFor"
  by (simp_all add: key_defs)

lemma aget_map_upd: "aget m k = v \<Longrightarrow> v \<noteq> '''' \<Longrightarrow> m(k \<mapsto> v) = m"
  by (auto simp: aget_def fun_eq_iff split: option.splits)

lemma setAnnotation_ann:
  "v \<noteq> '''' \<Longrightarrow> nd_Annotations (fst (setAnnotation k v n)) = (nd_Annotations n)(k \<mapsto> v)"
  by (simp add: setAnnotation_def aget_map_upd)

lemma setAnnotation_other [simp]:
  "nd_Unschedulable (fst (setAnnotation k v n)) = nd_Unschedulable n"
  "nd_Name (fst (setAnnotation k v n)) = nd_Name n" "nd_Labels (fst (setAnnotation k v n)) = nd_Labels n"
  "nd_ResourceVersion (fst (setAnnotation k v n)) = nd_ResourceVersion n"
  by (simp_all add: setAnnotation_def)

lemma removeAnnotation_ann: "nd_Annotations (fst (removeAnnotation k n)) = adel (nd_Annotations n) k"
  by (auto simp: removeAnnotation_def fun_eq_iff)

lemma removeAnnotation_other [simp]:
  "nd_Unschedulable (fst (removeAnnotation k n)) = nd_Unschedulable n"
  "nd_Name (fst (removeAnnotation k n)) = nd_Name n" "nd_Labels (fst (removeAnnotation k n)) = nd_Labels n"
  "nd_ResourceVersion (fst (removeAnnotation k n)) = nd_ResourceVersion n"
  by (simp_all add: removeAnnotation_def)

text \<open>What each mutator leaves, in closed form.\<close>

lemma applyFreeze_ann:
  assumes "claimName \<noteq> ''''"
  shows "nd_Annotations (fst (applyFreeze claimName n)) =
    (if operatorOwnsDoNotDisrupt n then (nd_Annotations n)(SurgeFor \<mapsto> claimName)
     else (nd_Annotations n)(DoNotDisruptAnnotationKey \<mapsto> ''true'', DoNotDisruptOwned \<mapsto> ''true'', SurgeFor \<mapsto> claimName))"
  using assms by (simp add: applyFreeze_def case_prod_unfold Let_def setAnnotation_ann)

lemma applyFreeze_other [simp]:
  "nd_Unschedulable (fst (applyFreeze claimName n)) = nd_Unschedulable n"
  "nd_Name (fst (applyFreeze claimName n)) = nd_Name n"
  "nd_ResourceVersion (fst (applyFreeze claimName n)) = nd_ResourceVersion n"
  by (simp_all add: applyFreeze_def case_prod_unfold Let_def)

lemma applyCordon_ann:
  "nd_Annotations (fst (applyCordon n)) =
    (if nd_Unschedulable n \<and> \<not> hasAnnotation n Cordoned then nd_Annotations n
     else (nd_Annotations n)(Cordoned \<mapsto> ''true''))"
  by (simp add: applyCordon_def case_prod_unfold Let_def setAnnotation_ann)

lemma applyCordon_unsched [simp]: "nd_Unschedulable (fst (applyCordon n))"
  by (simp add: applyCordon_def case_prod_unfold Let_def)

lemma applyCordon_name [simp]:
  "nd_Name (fst (applyCordon n)) = nd_Name n" "nd_ResourceVersion (fst (applyCordon n)) = nd_ResourceVersion n"
  by (simp_all add: applyCordon_def case_prod_unfold Let_def)

lemma applyUnfreeze_ann:
  "nd_Annotations (fst (applyUnfreeze n)) =
    (let m = adel (nd_Annotations n) SurgeFor;
         m = (if hasAnnotation n DoNotDisruptOwned then adel (adel m DoNotDisruptAnnotationKey) DoNotDisruptOwned else m)
     in if hasAnnotation n Cordoned then adel m Cordoned else m)"
  by (simp add: applyUnfreeze_def applyUncordon_def case_prod_unfold Let_def removeAnnotation_ann hasAnnotation_def)

lemma applyUnfreeze_unsched:
  "nd_Unschedulable (fst (applyUnfreeze n)) = (nd_Unschedulable n \<and> \<not> hasAnnotation n Cordoned)"
  by (simp add: applyUnfreeze_def applyUncordon_def case_prod_unfold Let_def removeAnnotation_ann hasAnnotation_def)

lemma applyUnfreeze_name [simp]:
  "nd_Name (fst (applyUnfreeze n)) = nd_Name n" "nd_ResourceVersion (fst (applyUnfreeze n)) = nd_ResourceVersion n"
  by (simp_all add: applyUnfreeze_def applyUncordon_def case_prod_unfold Let_def)

text \<open>A node that carries none of the controller's markers.\<close>

definition untouched :: "Node \<Rightarrow> bool" where
  "untouched n \<longleftrightarrow> \<not> hasAnnotation n SurgeFor \<and> \<not> hasAnnotation n DoNotDisruptOwned \<and> \<not> hasAnnotation n Cordoned"

text \<open>The protections Karpenter reads: do-not-disrupt in force, and the cordon.\<close>

definition protected :: "Node \<Rightarrow> bool" where
  "protected n \<longleftrightarrow> aget (nd_Annotations n) DoNotDisruptAnnotationKey = ''true''"

text \<open>The mutators change nothing but the annotations and the cordon.\<close>

lemma setAnnotation_eq:
  "v \<noteq> '''' \<Longrightarrow> fst (setAnnotation k v n) = n\<lparr>nd_Annotations := (nd_Annotations n)(k \<mapsto> v)\<rparr>"
  by (simp add: setAnnotation_def aget_map_upd)

lemma removeAnnotation_eq:
  "fst (removeAnnotation k n) = n\<lparr>nd_Annotations := adel (nd_Annotations n) k\<rparr>"
  by (cases n) (auto simp: removeAnnotation_def adel_def fun_eq_iff)

lemma applyFreeze_eq:
  "claimName \<noteq> '''' \<Longrightarrow> fst (applyFreeze claimName n) =
     n\<lparr>nd_Annotations := nd_Annotations (fst (applyFreeze claimName n))\<rparr>"
  by (simp add: applyFreeze_ann) (simp add: applyFreeze_def case_prod_unfold Let_def setAnnotation_eq)

lemma applyCordon_eq:
  "fst (applyCordon n) =
     n\<lparr>nd_Annotations := nd_Annotations (fst (applyCordon n)), nd_Unschedulable := True\<rparr>"
  by (simp add: applyCordon_ann) (cases n, simp add: applyCordon_def case_prod_unfold Let_def setAnnotation_eq hasAnnotation_def)

lemma applyUnfreeze_eq:
  "fst (applyUnfreeze n) =
     n\<lparr>nd_Annotations := nd_Annotations (fst (applyUnfreeze n)),
       nd_Unschedulable := nd_Unschedulable (fst (applyUnfreeze n))\<rparr>"
  by (cases n) (simp add: applyUnfreeze_def applyUncordon_def case_prod_unfold Let_def removeAnnotation_eq)

text \<open>The flag a mutator returns is exact, and a second run of a mutator changes nothing.\<close>

lemma setAnnotation_changed:
  "v \<noteq> '''' \<Longrightarrow> snd (setAnnotation k v n) \<longleftrightarrow> aget (nd_Annotations n) k \<noteq> v"
  by (simp add: setAnnotation_def)

lemma aget_true_Some: "aget m k = v \<longleftrightarrow> (m k = Some v \<or> m k = None \<and> v = '''')"
  by (auto simp: aget_def split: option.splits)

lemma applyFreeze_idem:
  assumes "claimName \<noteq> ''''"
  shows "\<not> snd (applyFreeze claimName (fst (applyFreeze claimName n)))"
proof (cases "operatorOwnsDoNotDisrupt n")
  case True
  then have "operatorOwnsDoNotDisrupt (fst (applyFreeze claimName n))"
    using assms by (simp add: operatorOwnsDoNotDisrupt_def applyFreeze_ann hasAnnotation_def aget_def)
  with assms True show ?thesis
    by (simp add: applyFreeze_def [of _ "fst (applyFreeze claimName n)"] setAnnotation_changed case_prod_unfold
        Let_def applyFreeze_ann aget_def)
next
  case False
  with assms show ?thesis
    by (simp add: applyFreeze_def [of _ "fst (applyFreeze claimName n)"] setAnnotation_def case_prod_unfold
        Let_def applyFreeze_ann aget_def operatorOwnsDoNotDisrupt_def hasAnnotation_def)
qed

lemma applyCordon_idem: "\<not> snd (applyCordon (fst (applyCordon n)))"
  by (simp add: applyCordon_def [of "fst (applyCordon n)"] case_prod_unfold Let_def applyCordon_ann
      setAnnotation_def hasAnnotation_def aget_def)

lemma applyUnfreeze_untouched: "untouched (fst (applyUnfreeze n))"
  by (simp add: untouched_def hasAnnotation_def applyUnfreeze_ann Let_def)

lemma applyUnfreeze_of_untouched: "untouched n \<Longrightarrow> applyUnfreeze n = (n, False)"
  by (simp add: untouched_def applyUnfreeze_def applyUncordon_def removeAnnotation_def hasAnnotation_def)

section \<open>Properties\<close>

text \<open>
  C24. What a rotation gives back. A node that carries none of the controller's markers is frozen for a
  claim (\<open>applyFreeze\<close>), cordoned (\<open>applyCordon\<close>) and given back (\<open>applyUnfreeze\<close>), in the order a
  rotation does it. Its name, labels, conditions, its own cordon and every annotation but do-not-disrupt
  are as the rotation found them. The node is restored in full exactly if do-not-disrupt was absent or
  \<open>"true"\<close>. Any other value of the operator's is lost: the freeze overwrites it and claims the ownership,
  and the unfreeze removes it, although the specification says that an operator's annotation without
  the marker is never touched. A second \<open>applyUnfreeze\<close> changes nothing, whatever node it is given.
\<close>

theorem unfreeze_restores_node:
  assumes "untouched n" and "claimName \<noteq> ''''"
  shows "let back = fst (applyUnfreeze (fst (applyCordon (fst (applyFreeze claimName n))))) in
         back = (if nd_Annotations n DoNotDisruptAnnotationKey = Some ''true'' then n
                 else n\<lparr>nd_Annotations := (nd_Annotations n)(DoNotDisruptAnnotationKey := None)\<rparr>) \<and>
         (back = n \<longleftrightarrow> nd_Annotations n DoNotDisruptAnnotationKey \<in> {None, Some ''true''}) \<and>
         (\<forall>m. applyUnfreeze (fst (applyUnfreeze m)) = (fst (applyUnfreeze m), False))"
proof -
  let ?l = "fst (applyUnfreeze (fst (applyCordon (fst (applyFreeze claimName n)))))"
  let ?r = "if aget (nd_Annotations n) DoNotDisruptAnnotationKey = ''true'' then n
            else n\<lparr>nd_Annotations := adel (nd_Annotations n) DoNotDisruptAnnotationKey\<rparr>"
  let ?f = "fst (applyFreeze claimName n)"
  let ?c = "fst (applyCordon ?f)"
  have u: "nd_Annotations n SurgeFor = None" "nd_Annotations n DoNotDisruptOwned = None"
    "nd_Annotations n Cordoned = None"
    using assms(1) by (simp_all add: untouched_def hasAnnotation_def)
  have ann: "nd_Annotations ?l = nd_Annotations ?r"
    by (rule ext) (simp add: applyUnfreeze_ann applyCordon_ann applyFreeze_ann assms(2) Let_def hasAnnotation_def u
      operatorOwnsDoNotDisrupt_def adel_def)
  have uns: "nd_Unschedulable ?l = nd_Unschedulable n"
    by (simp add: applyUnfreeze_unsched hasAnnotation_def applyCordon_ann applyFreeze_ann assms(2) u)
  have "?l = ?c\<lparr>nd_Annotations := nd_Annotations ?r, nd_Unschedulable := nd_Unschedulable n\<rparr>"
    by (subst applyUnfreeze_eq) (simp only: ann uns)
  also have "\<dots> = ?f\<lparr>nd_Annotations := nd_Annotations ?r, nd_Unschedulable := nd_Unschedulable n\<rparr>"
    by (subst applyCordon_eq) simp
  also have "\<dots> = n\<lparr>nd_Annotations := nd_Annotations ?r, nd_Unschedulable := nd_Unschedulable n\<rparr>"
    by (subst applyFreeze_eq [OF assms(2)]) simp
  also have "\<dots> = ?r" by simp
  finally have l: "?l = (if nd_Annotations n DoNotDisruptAnnotationKey = Some ''true'' then n
      else n\<lparr>nd_Annotations := (nd_Annotations n)(DoNotDisruptAnnotationKey := None)\<rparr>)"
    by (simp add: aget_true_Some adel_def)
  have same: "n\<lparr>nd_Annotations := m\<rparr> = n \<longleftrightarrow> m = nd_Annotations n" for m by (cases n) auto
  have kept: "m(k := None) = m \<longleftrightarrow> m k = None" for m :: annots and k by (auto simp: fun_eq_iff)
  show ?thesis unfolding Let_def l
    by (auto simp: same kept applyUnfreeze_of_untouched applyUnfreeze_untouched)
qed

definition marked_node :: Node where
  "marked_node =
     \<lparr>nd_Name = ''n1'', nd_ResourceVersion = 1, nd_Labels = Map.empty,
      nd_Annotations = [DoNotDisruptAnnotationKey \<mapsto> ''true''], nd_Unschedulable = True,
      nd_Conditions = [], nd_Allocatable = fmempty\<rparr>"

theorem unfreeze_restores_node_witness:
  "fst (applyUnfreeze (fst (applyCordon (fst (applyFreeze ''c1'' marked_node))))) = marked_node"
proof -
  have "untouched marked_node" by (simp add: untouched_def hasAnnotation_def marked_node_def)
  from unfreeze_restores_node [OF this, of "''c1''"] show ?thesis by (simp add: marked_node_def Let_def)
qed

text \<open>
  Ownership. After \<open>applyFreeze\<close> the node is protected by do-not-disrupt. No mutator adopts or
  removes what an operator put there: a do-not-disrupt without the controller's marker stays
  in force and unmarked through freeze, cordon and unfreeze, and a cordon without the marker stays and
  stays unmarked. A node the operator did not cordon is left schedulable by \<open>applyUnfreeze\<close>
  exactly when the controller's marker says that it cordoned it. No annotation beyond the four
  keys of the protocol changes.
\<close>

theorem operator_protection_kept:
  assumes "claimName \<noteq> ''''"
  shows "protected (fst (applyFreeze claimName n)) \<and>
    (\<forall>m \<in> {fst (applyFreeze claimName n), fst (applyCordon n), fst (applyUnfreeze n)}.
       operatorOwnsDoNotDisrupt m = operatorOwnsDoNotDisrupt n \<and>
       (nd_Unschedulable n \<and> \<not> hasAnnotation n Cordoned \<longrightarrow>
          nd_Unschedulable m \<and> \<not> hasAnnotation m Cordoned) \<and>
       (\<forall>k. k \<notin> {DoNotDisruptAnnotationKey, DoNotDisruptOwned, SurgeFor, Cordoned} \<longrightarrow>
          nd_Annotations m k = nd_Annotations n k)) \<and>
    (nd_Unschedulable (fst (applyUnfreeze n)) \<longleftrightarrow> nd_Unschedulable n \<and> \<not> hasAnnotation n Cordoned)"
    (is "?prot \<and> (\<forall>m \<in> _. ?own m \<and> ?cord m \<and> ?keys m) \<and> ?uns")
proof -
  let ?all = "{fst (applyFreeze claimName n), fst (applyCordon n), fst (applyUnfreeze n)}"
  note anns = applyFreeze_ann applyCordon_ann applyUnfreeze_ann assms
  have "?prot" by (simp add: protected_def applyFreeze_ann assms aget_def operatorOwnsDoNotDisrupt_def)
  moreover have "\<forall>m \<in> ?all. ?own m"
    by (simp add: operatorOwnsDoNotDisrupt_def anns aget_def hasAnnotation_def Let_def adel_def)
  moreover have "\<forall>m \<in> ?all. ?cord m"
    by (simp add: anns applyUnfreeze_unsched hasAnnotation_def Let_def adel_def)
  moreover have "\<forall>m \<in> ?all. ?keys m" by (simp add: anns Let_def adel_def)
  moreover have ?uns by (rule applyUnfreeze_unsched)
  ultimately show ?thesis by blast
qed

theorem operator_protection_kept_witness:
  "nd_Unschedulable (fst (applyUnfreeze marked_node)) \<and> \<not> hasAnnotation (fst (applyCordon marked_node)) Cordoned \<and>
   nd_Annotations (fst (applyFreeze ''c1'' marked_node)) ''team'' = None"
  using operator_protection_kept [of "''c1''" marked_node]
  by (simp add: marked_node_def hasAnnotation_def key_defs)

end
