(* ===== verification/Decide.thy ===== *)
theory Decide
  imports Selection
begin

text \<open>
  The pure rotation decisions (\<open>internal/decide/decide.go\<close>, \<open>windowclose.go\<close>): the
  start gates, the surge-less fallback, and the verdict at the edge of a maintenance window. A
  gate and a window action are datatypes with one constructor per constant of the source.
\<close>

datatype Gate = GateNone | GateOutOfWindow | GateFrozen | GateCooldownAfterSuccess | GateFailurePause

fun Gate_String :: "Gate \<Rightarrow> string" where
  "Gate_String GateNone = ''''"
| "Gate_String GateOutOfWindow = ''outOfWindow''"
| "Gate_String GateFrozen = ''frozen''"
| "Gate_String GateCooldownAfterSuccess = ''cooldownAfterSuccess''"
| "Gate_String GateFailurePause = ''failurePause''"

record DecideInputs =
  di_Now :: time
  di_InWindow :: bool
  di_Annotations :: annots
  di_Cooldown :: duration
  di_FailurePause :: duration
  di_FallbackEnabled :: bool
  di_ReadyTimeout :: duration
  di_DrainBound :: duration

definition Frozen :: "annots \<Rightarrow> time \<Rightarrow> bool" where
  "Frozen ann now = (case parseTime (aget ann Freeze) of None \<Rightarrow> False | Some u \<Rightarrow> now < u)"

definition since :: "string \<Rightarrow> time \<Rightarrow> duration" where
  "since ts now = (case parseTime ts of None \<Rightarrow> max_i64 | Some t \<Rightarrow> TimeSub now t)"

definition StartGate :: "DecideInputs \<Rightarrow> bool \<times> Gate" where
  "StartGate inp =
     (if \<not> di_InWindow inp then (False, GateOutOfWindow)
      else if Frozen (di_Annotations inp) (di_Now inp) then (False, GateFrozen)
      else if since (aget (di_Annotations inp) LastRotationAt) (di_Now inp) < di_Cooldown inp
        then (False, GateCooldownAfterSuccess)
      else if since (aget (di_Annotations inp) LastFailureAt) (di_Now inp) < di_FailurePause inp
        then (False, GateFailurePause)
      else (True, GateNone))"

definition SurgelessFallback :: "Claim \<Rightarrow> DecideInputs \<Rightarrow> bool" where
  "SurgelessFallback c inp =
     (if \<not> di_FallbackEnabled inp then False
      else case c_ExpireAfter c of
             None \<Rightarrow> False
           | Some e \<Rightarrow>
               (let deadline = c_CreatedAt c + e; tRot = add64 (di_ReadyTimeout inp) (di_DrainBound inp)
                in TimeSub deadline (di_Now inp) < tRot))"

section \<open>The window edge\<close>

datatype WindowAction = WindowNothing | WindowStamp | WindowDefer | WindowSettled | WindowMissed

record WindowInputs =
  wi_Now :: time
  wi_InWindow :: bool
  wi_Annotations :: annots
  wi_Census :: Census

definition Outstanding :: "Census \<Rightarrow> nat" where
  "Outstanding c = cs_Eligible c + cs_InBackoffTriggered c"

definition WindowEdge :: "WindowInputs \<Rightarrow> WindowAction" where
  "WindowEdge inp =
     (let raw = aget (wi_Annotations inp) WindowOpenedAt; opened = parseTime raw
      in if wi_InWindow inp then (if opened \<noteq> None then WindowNothing else WindowStamp)
         else if raw = '''' then WindowNothing
         else case opened of
                None \<Rightarrow> WindowSettled
              | Some op \<Rightarrow>
                  if aget (wi_Annotations inp) ActiveRotation \<noteq> '''' then WindowDefer
                  else if Frozen (wi_Annotations inp) (wi_Now inp) then WindowSettled
                  else if Outstanding (wi_Census inp) = 0 then WindowSettled
                  else case parseTime (aget (wi_Annotations inp) LastRotationAt) of
                         Some rotated \<Rightarrow> if \<not> rotated < op then WindowSettled else WindowMissed
                       | None \<Rightarrow> WindowMissed)"

section \<open>Lemmas\<close>

text \<open>Reading an absent or unparseable anchor never holds a gate closed.\<close>

lemma since_less_iff:
  assumes "is_i64 d" "min_i64 < d"
  shows "since ts now < d \<longleftrightarrow> (\<exists>t. parseTime ts = Some t \<and> now < t + d)"
  using assms by (auto simp: since_def TimeSub_less_iff is_i64_def split: option.splits)

lemma parseTime_Nil [simp]: "parseTime '''' = None"
  by (simp add: parseTime_def)

lemma WindowEdge_missed_iff:
  "WindowEdge inp = WindowMissed \<longleftrightarrow>
     \<not> wi_InWindow inp \<and> aget (wi_Annotations inp) ActiveRotation = ''''
     \<and> \<not> Frozen (wi_Annotations inp) (wi_Now inp) \<and> 0 < Outstanding (wi_Census inp)
     \<and> (\<exists>op. parseTime (aget (wi_Annotations inp) WindowOpenedAt) = Some op
          \<and> (\<forall>r. parseTime (aget (wi_Annotations inp) LastRotationAt) = Some r \<longrightarrow> r < op))"
  by (auto simp: WindowEdge_def Let_def split: option.splits if_splits)

text \<open>
  The write each action makes on the NodePool's annotations (the write of
  \<open>evaluateWindowEdge\<close>, without its conditional retry).
\<close>

definition edge_write :: "WindowInputs \<Rightarrow> annots" where
  "edge_write inp =
     (case WindowEdge inp of
        WindowStamp \<Rightarrow> (wi_Annotations inp)(WindowOpenedAt \<mapsto> rfc3339 (wi_Now inp))
      | WindowSettled \<Rightarrow> adel (wi_Annotations inp) WindowOpenedAt
      | WindowMissed \<Rightarrow> adel (wi_Annotations inp) WindowOpenedAt
      | _ \<Rightarrow> wi_Annotations inp)"

definition stamped :: "annots \<Rightarrow> nat" where
  "stamped m = (if parseTime (aget m WindowOpenedAt) \<noteq> None then 1 else 0)"

text \<open>A pass sees the window verdict, the clock and the census of its moment.\<close>

type_synonym edge_view = "time \<times> bool \<times> Census"

definition edge_inputs :: "annots \<Rightarrow> edge_view \<Rightarrow> WindowInputs" where
  "edge_inputs m v = \<lparr>wi_Now = fst v, wi_InWindow = fst (snd v), wi_Annotations = m,
     wi_Census = snd (snd v)\<rparr>"

fun edge_run :: "annots \<Rightarrow> edge_view list \<Rightarrow> WindowAction list" where
  "edge_run m [] = []"
| "edge_run m (v # vs) = WindowEdge (edge_inputs m v) # edge_run (edge_write (edge_inputs m v)) vs"

lemma edge_step_count:
  assumes "0 \<le> fst v" "fst v < max_rfc3339"
  shows "stamped (edge_write (edge_inputs m v)) + (if WindowEdge (edge_inputs m v) = WindowMissed then 1 else 0)
     \<le> stamped m + (if WindowEdge (edge_inputs m v) = WindowStamp then 1 else 0)"
proof (cases "WindowEdge (edge_inputs m v)")
  case WindowMissed
  then have "edge_write (edge_inputs m v) = adel m WindowOpenedAt"
    by (simp add: edge_write_def edge_inputs_def)
  moreover have "parseTime (aget m WindowOpenedAt) \<noteq> None"
    using WindowMissed by (auto simp: WindowEdge_missed_iff edge_inputs_def)
  ultimately show ?thesis using WindowMissed by (simp add: stamped_def)
next
  case WindowStamp
  then have "parseTime (aget m WindowOpenedAt) = None"
    by (auto simp: WindowEdge_def edge_inputs_def Let_def split: if_splits option.splits)
  with WindowStamp show ?thesis by (simp add: edge_write_def stamped_def edge_inputs_def)
qed (auto simp: edge_write_def stamped_def edge_inputs_def)

lemma edge_run_count:
  assumes "\<forall>v\<in>set vs. 0 \<le> fst v \<and> fst v < max_rfc3339"
  shows "count_list (edge_run m vs) WindowMissed \<le> stamped m + count_list (edge_run m vs) WindowStamp"
  using assms
proof (induction vs arbitrary: m)
  case Nil
  then show ?case by simp
next
  case (Cons v vs)
  let ?i = "edge_inputs m v"
  have "count_list (edge_run (edge_write ?i) vs) WindowMissed
      \<le> stamped (edge_write ?i) + count_list (edge_run (edge_write ?i) vs) WindowStamp"
    using Cons by simp
  with edge_step_count [of v m] Cons.prems show ?case by (auto split: if_splits)
qed

section \<open>Properties\<close>

text \<open>
  A fresh rotation may start exactly when the window is open, the pool is not frozen, the
  cooldown has passed since the last recorded success and the failure pause since the last
  recorded failure; an absent or unreadable timestamp blocks nothing. The gate reported is
  \<open>GateNone\<close> exactly when the start is allowed.
\<close>

theorem start_gate_open_iff:
  assumes "is_i64 (di_Cooldown inp)" "min_i64 < di_Cooldown inp"
    and "is_i64 (di_FailurePause inp)" "min_i64 < di_FailurePause inp"
  shows "(fst (StartGate inp) \<longleftrightarrow>
      di_InWindow inp
      \<and> (\<forall>u. parseTime (aget (di_Annotations inp) Freeze) = Some u \<longrightarrow> u \<le> di_Now inp)
      \<and> (\<forall>t. parseTime (aget (di_Annotations inp) LastRotationAt) = Some t \<longrightarrow>
             t + di_Cooldown inp \<le> di_Now inp)
      \<and> (\<forall>t. parseTime (aget (di_Annotations inp) LastFailureAt) = Some t \<longrightarrow>
             t + di_FailurePause inp \<le> di_Now inp))
    \<and> (fst (StartGate inp) \<longleftrightarrow> snd (StartGate inp) = GateNone)"
  using since_less_iff [OF assms(1,2), of "aget (di_Annotations inp) LastRotationAt" "di_Now inp"]
    since_less_iff [OF assms(3,4), of "aget (di_Annotations inp) LastFailureAt" "di_Now inp"]
  by (auto simp: StartGate_def Frozen_def not_less split: option.splits)

definition demo_decide :: "time \<Rightarrow> annots \<Rightarrow> DecideInputs" where
  "demo_decide now ann =
     \<lparr>di_Now = now, di_InWindow = True, di_Annotations = ann, di_Cooldown = 10 * Minute,
      di_FailurePause = 10 * Minute, di_FallbackEnabled = True, di_ReadyTimeout = 15 * Minute,
      di_DrainBound = Hour\<rparr>"

theorem start_gate_open_iff_witness:
  "fst (StartGate (demo_decide (90 * Minute) (Map.empty(LastRotationAt \<mapsto> rfc3339 Hour))))
   \<and> \<not> fst (StartGate (demo_decide (69 * Minute) (Map.empty(LastRotationAt \<mapsto> rfc3339 Hour))))"
proof -
  have p: "parseTime (rfc3339 Hour) = Some Hour"
    by (simp add: parseTime_rfc3339 TruncateSecond_def)
  have "fst (StartGate (demo_decide n (Map.empty(LastRotationAt \<mapsto> rfc3339 Hour)))) \<longleftrightarrow> 70 * Minute \<le> n" for n
    using start_gate_open_iff [of "demo_decide n (Map.empty(LastRotationAt \<mapsto> rfc3339 Hour))"] p
    by (simp add: demo_decide_def is_i64_def)
  then show ?thesis by simp
qed

text \<open>
  The surge-less path is chosen exactly when the fallback is enabled and the candidate's own
  deadline falls before a graceful surge started now could finish (now + readyTimeout + drain
  bound); a claim that never expires is never rotated without a surge.
\<close>

theorem surgeless_iff_race_lost:
  assumes "is_i64 (di_ReadyTimeout inp + di_DrainBound inp)"
    and "min_i64 < di_ReadyTimeout inp + di_DrainBound inp"
  shows "SurgelessFallback c inp \<longleftrightarrow>
     di_FallbackEnabled inp
     \<and> (\<exists>e. c_ExpireAfter c = Some e
          \<and> c_CreatedAt c + e < di_Now inp + (di_ReadyTimeout inp + di_DrainBound inp))"
  using assms by (auto simp: SurgelessFallback_def Let_def add64_exact TimeSub_less_iff split: option.splits)

theorem surgeless_iff_race_lost_witness:
  "SurgelessFallback (demo_claim ''a'' (100 * Hour) (9 * Hour)) (demo_decide (108 * Hour) Map.empty)
   \<and> \<not> SurgelessFallback (demo_claim ''a'' (100 * Hour) (9 * Hour)) (demo_decide (107 * Hour) Map.empty)"
proof -
  have "SurgelessFallback (demo_claim ''a'' (100 * Hour) (9 * Hour)) (demo_decide n Map.empty)
      \<longleftrightarrow> 109 * Hour < n + 75 * Minute" for n
    using surgeless_iff_race_lost [of "demo_decide n Map.empty" "demo_claim ''a'' (100 * Hour) (9 * Hour)"]
    by (simp add: demo_decide_def demo_claim_def is_i64_def)
  then show ?thesis by simp
qed

text \<open>
  A window is reported missed exactly when it has closed over a readable stamp with claims
  outstanding, no rotation in flight, no freeze, and no rotation completed since the stamp. An
  unreadable stamp is never reported.
\<close>

theorem window_missed_iff:
  "WindowEdge inp = WindowMissed \<longleftrightarrow>
     \<not> wi_InWindow inp \<and> aget (wi_Annotations inp) ActiveRotation = ''''
     \<and> \<not> Frozen (wi_Annotations inp) (wi_Now inp)
     \<and> cs_Eligible (wi_Census inp) + cs_InBackoffTriggered (wi_Census inp) \<noteq> 0
     \<and> (\<exists>op. parseTime (aget (wi_Annotations inp) WindowOpenedAt) = Some op
          \<and> (\<forall>r. parseTime (aget (wi_Annotations inp) LastRotationAt) = Some r \<longrightarrow> r < op))"
  unfolding WindowEdge_missed_iff Outstanding_def by auto

theorem window_missed_iff_witness:
  "WindowEdge \<lparr>wi_Now = 3 * Hour, wi_InWindow = False,
      wi_Annotations = Map.empty(WindowOpenedAt \<mapsto> rfc3339 Hour),
      wi_Census = TakeCensus [demo_claim ''a'' 0 (2 * Hour)] (demo_inputs (3 * Hour))\<rparr> = WindowMissed"
proof -
  have p: "parseTime (rfc3339 Hour) = Some Hour"
    by (simp add: parseTime_rfc3339 TruncateSecond_def)
  show ?thesis
    by (subst window_missed_iff)
      (simp add: p Frozen_def TakeCensus_def census_step_def demo_eval)
qed

text \<open>
  Over any sequence of passes the number of missed windows reported never exceeds the number
  of window openings stamped (plus a stamp already present at the start): each report consumes
  the stamp of one occurrence.
\<close>

theorem missed_at_most_once_per_opening:
  assumes "\<forall>v\<in>set vs. 0 \<le> fst v \<and> fst v < max_rfc3339"
  shows "count_list (edge_run m vs) WindowMissed
    \<le> (if parseTime (aget m WindowOpenedAt) \<noteq> None then 1 else 0) + count_list (edge_run m vs) WindowStamp"
  using edge_run_count [OF assms, of m] by (simp add: stamped_def)

theorem missed_at_most_once_per_opening_witness:
  "edge_run Map.empty [(Hour, True, TakeCensus [] (demo_inputs 0))] = [WindowStamp]
   \<and> count_list (edge_run Map.empty [(Hour, True, TakeCensus [] (demo_inputs 0))]) WindowMissed \<le> 1"
proof -
  have r: "edge_run Map.empty [(Hour, True, TakeCensus [] (demo_inputs 0))] = [WindowStamp]"
    by (simp add: edge_inputs_def WindowEdge_def)
  have "\<forall>v\<in>set [(Hour, True, TakeCensus [] (demo_inputs 0))]. 0 \<le> fst v \<and> fst v < max_rfc3339"
    by simp
  from missed_at_most_once_per_opening [OF this, of Map.empty] r show ?thesis by simp
qed

end
