(* ===== verification/Schedule.thy ===== *)
theory Schedule
  imports GoTime Float64
begin

text \<open>
  The package \<open>internal/schedule\<close>: the derivation of the age threshold A, the guaranteed
  chances G and the throughput C, with the layer-1 (feasibility) and layer-2 (throughput)
  findings. A finding carries its severity, its code and the values interpolated into its message
  (the fixed English text around them is determined by the code). The layer-2 arrival check
  multiplies in \<open>float64\<close> (\<open>f64\<close>), so the comparison is the one the code makes.
\<close>

definition Buffer :: duration where "Buffer = 2 * Minute"
definition HardCap :: duration where "HardCap = 21 * 24 * Hour"
definition DrainFallback :: duration where "DrainFallback = Hour"
definition DrainEstimateDefault :: duration where "DrainEstimateDefault = 10 * Minute"
definition ProvisioningEstimateDefault :: duration where "ProvisioningEstimateDefault = 5 * Minute"

datatype Severity = Warn | Fatal

fun Severity_String :: "Severity \<Rightarrow> string" where
  "Severity_String Fatal = ''fatal''"
| "Severity_String Warn = ''warn''"

datatype MsgArg = ArgDuration duration | ArgInt int

record Finding =
  f_Severity :: Severity
  f_Code :: string
  f_Message :: "MsgArg list"

definition mkFinding :: "Severity \<Rightarrow> string \<Rightarrow> MsgArg list \<Rightarrow> Finding" where
  "mkFinding s c m = \<lparr>f_Severity = s, f_Code = c, f_Message = m\<rparr>"

lemma mkFinding_simps [simp]:
  "f_Severity (mkFinding s c m) = s" "f_Code (mkFinding s c m) = c" "f_Message (mkFinding s c m) = m"
  by (simp_all add: mkFinding_def)

record Inputs =
  in_E :: duration
  in_TGP :: duration
  in_TGPWasUnset :: bool
  in_P :: duration
  in_WindowLen :: duration
  in_IdleGap :: "duration option"
  in_ReadyTimeout :: duration
  in_Cooldown :: duration
  in_DrainEstimate :: "duration option"
  in_ProvisioningEstimate :: "duration option"
  in_RetryBackoff :: duration
  in_K :: int
  in_MaxUnavailable :: int
  in_NodeCount :: int
  in_Override :: "duration option"

record Result =
  r_TRot :: duration
  r_TRotEst :: duration
  r_DrainEstimate :: duration
  r_ProvisioningEstimate :: duration
  r_A :: duration
  r_G :: int
  r_C :: int
  r_Findings :: "Finding list"

section \<open>Division\<close>

definition floorDiv :: "duration \<Rightarrow> duration \<Rightarrow> duration" where
  "floorDiv a b =
     (let q = quot a b
      in if rem a b \<noteq> 0 \<and> (a < 0) \<noteq> (b < 0) then sub64 q 1 else q)"

definition ceilDiv :: "duration \<Rightarrow> duration \<Rightarrow> duration" where
  "ceilDiv a b = (let q = quot a b in if rem a b \<noteq> 0 then add64 q 1 else q)"

section \<open>The estimates\<close>

definition resolveDrainEstimate ::
  "duration \<Rightarrow> bool \<Rightarrow> duration option \<Rightarrow> duration \<times> Finding list" where
  "resolveDrainEstimate tgp tgpWasUnset cfg =
     (case cfg of
        None \<Rightarrow> (min tgp DrainEstimateDefault, [])
      | Some c \<Rightarrow>
          if \<not> tgpWasUnset \<and> tgp < c
          then (tgp, [mkFinding Warn ''DrainEstimateAboveTGP''
                        [ArgDuration c, ArgDuration tgp, ArgDuration tgp]])
          else (c, []))"

definition resolveProvisioningEstimate ::
  "duration \<Rightarrow> duration option \<Rightarrow> duration \<times> Finding list" where
  "resolveProvisioningEstimate readyTimeout cfg =
     (case cfg of
        None \<Rightarrow> (min readyTimeout ProvisioningEstimateDefault, [])
      | Some c \<Rightarrow>
          if readyTimeout < c
          then (readyTimeout, [mkFinding Warn ''ProvisioningEstimateAboveReadyTimeout''
                                 [ArgDuration c, ArgDuration readyTimeout, ArgDuration readyTimeout]])
          else (c, []))"

section \<open>Layer 1: scheduling feasibility\<close>

definition layer1 :: "Inputs \<Rightarrow> Result \<Rightarrow> Finding list" where
  "layer1 inp r =
     (if in_K inp < 1 then [mkFinding Fatal ''KBelowOne'' [ArgInt (in_K inp)]]
      else if in_K inp = 1 then [mkFinding Warn ''KBelowTwo'' []]
      else [])
     @ (if in_Override inp \<noteq> None then
          (if r_A r \<le> 0 then [mkFinding Fatal ''OverrideNonPositive'' [ArgDuration (r_A r)]]
           else if r_G r < 1 then [mkFinding Fatal ''OverrideGBelowOne'' [ArgInt (r_G r)]]
           else if r_G r < in_K inp
             then [mkFinding Warn ''OverrideGBelowK'' [ArgInt (r_G r), ArgInt (in_K inp)]]
           else [])
          @ (if 0 < r_A r \<and> r_A r < in_P inp
             then [mkFinding Warn ''AVeryAggressive'' [ArgDuration (r_A r), ArgDuration (in_P inp)]]
             else [])
        else
          (if r_A r \<le> 0
             then [mkFinding Fatal ''ANonPositive'' [ArgInt (in_K inp), ArgDuration (r_A r)]]
           else if r_A r < in_P inp
             then [mkFinding Warn ''AVeryAggressive'' [ArgDuration (r_A r), ArgDuration (in_P inp)]]
           else []))
     @ (if in_TGPWasUnset inp then [mkFinding Warn ''TGPUnset'' [ArgDuration DrainFallback]] else [])
     @ (if HardCap < add64 (in_E inp) (in_TGP inp)
        then [mkFinding Warn ''HardCapExceeded''
                [ArgDuration (in_E inp), ArgDuration (in_TGP inp),
                 ArgDuration (add64 (in_E inp) (in_TGP inp))]]
        else [])
     @ (if in_RetryBackoff inp < in_ReadyTimeout inp
        then [mkFinding Warn ''RetryBackoffShort''
                [ArgDuration (in_RetryBackoff inp), ArgDuration (in_ReadyTimeout inp)]]
        else [])"

section \<open>Layer 2: throughput\<close>

definition arrival_exceeds :: "Inputs \<Rightarrow> Result \<Rightarrow> bool" where
  "arrival_exceeds inp r \<longleftrightarrow>
     f64 (f64 (r_C r) * f64 (r_A r)) < f64 (f64 (in_NodeCount inp) * f64 (in_P inp))"

definition layer2 :: "Inputs \<Rightarrow> Result \<Rightarrow> Finding list" where
  "layer2 inp r =
     (if in_WindowLen inp \<le> 0 \<or> r_C r < 1 then []
      else
        (if 0 < in_NodeCount inp \<and> 0 < r_A r \<and> arrival_exceeds inp r
         then [mkFinding Warn ''ThroughputBelowArrival''
                 [ArgInt (in_NodeCount inp), ArgDuration (in_P inp), ArgDuration (r_A r), ArgInt (r_C r)]]
         else [])
        @ (if 0 < in_NodeCount inp \<and> 0 < in_K inp \<and> mul64 (in_K inp) (r_C r) < in_NodeCount inp
           then [mkFinding Warn ''ThroughputBurstShortfall''
                   [ArgInt (in_NodeCount inp), ArgInt (mul64 (in_K inp) (r_C r)),
                    ArgInt (in_K inp), ArgInt (r_C r)]]
           else [])
        @ (let denom = add64 (r_TRotEst r) (in_Cooldown inp)
           in case in_IdleGap inp of
                Some g \<Rightarrow>
                  if g < denom
                  then [mkFinding Warn ''RotationSpansNextWindow''
                          [ArgDuration (r_TRotEst r), ArgDuration (in_Cooldown inp), ArgDuration denom,
                           ArgDuration g, ArgInt (r_C r)]]
                  else []
              | None \<Rightarrow> []))"

section \<open>Derive\<close>

definition Derive :: "Inputs \<Rightarrow> Result" where
  "Derive inp =
     (let (est, estFindings) = resolveDrainEstimate (in_TGP inp) (in_TGPWasUnset inp) (in_DrainEstimate inp);
          (prov, provFindings) = resolveProvisioningEstimate (in_ReadyTimeout inp) (in_ProvisioningEstimate inp);
          r = \<lparr>r_TRot = add64 (add64 (in_ReadyTimeout inp) (in_TGP inp)) Buffer,
               r_TRotEst = add64 prov est, r_DrainEstimate = est, r_ProvisioningEstimate = prov,
               r_A = 0, r_G = 0, r_C = 0, r_Findings = estFindings @ provFindings\<rparr>
      in if in_P inp \<le> 0
         then r\<lparr>r_Findings := r_Findings r @ [mkFinding Fatal ''NoWindows'' []]\<rparr>
         else
           (let r = (case in_Override inp of
                       Some ov \<Rightarrow>
                         r\<lparr>r_A := ov,
                           r_G := floorDiv (sub64 (sub64 (in_E inp) (r_TRot r)) ov) (in_P inp)\<rparr>
                     | None \<Rightarrow>
                         r\<lparr>r_A := sub64 (in_E inp) (add64 (mul64 (in_K inp) (in_P inp)) (r_TRot r)),
                           r_G := in_K inp\<rparr>);
                denom = add64 (r_TRotEst r) (in_Cooldown inp);
                r = (if 0 < denom \<and> 0 < in_WindowLen inp
                     then r\<lparr>r_C := mul64 (max (in_MaxUnavailable inp) 1) (ceilDiv (in_WindowLen inp) denom)\<rparr>
                     else r);
                r = r\<lparr>r_Findings := r_Findings r @ layer1 inp r\<rparr>
            in r\<lparr>r_Findings := r_Findings r @ layer2 inp r\<rparr>))"

section \<open>Lemmas: division\<close>

lemma floorDiv_correct:
  assumes "0 < b" "is_i64 (a div b)"
  shows "floorDiv a b = a div b"
proof (cases "0 \<le> a")
  case True
  then show ?thesis using assms by (simp add: floorDiv_def quot_nonneg)
next
  case False
  have d: "a div b = (if a mod b = 0 then - ((- a) div b) else - ((- a) div b) - 1)"
  proof -
    have "- (- a) div b = (if (- a) mod b = 0 then - ((- a) div b) else - ((- a) div b) - 1)"
      by (rule zdiv_zminus1_eq_if) (use assms in simp)
    moreover have "(- a) mod b = 0 \<longleftrightarrow> a mod b = 0" by (metis dvd_eq_mod_eq_0 dvd_minus_iff)
    ultimately show ?thesis by simp
  qed
  have m: "(- a) mod b = 0 \<longleftrightarrow> a mod b = 0" by (metis dvd_eq_mod_eq_0 dvd_minus_iff)
  show ?thesis
  proof (cases "a mod b = 0")
    case True
    with False assms m d show ?thesis by (simp add: floorDiv_def quot_neg rem_neg)
  next
    case nz: False
    with d have e: "- ((- a) div b) - 1 = a div b" by simp
    have "is_i64 (- ((- a) div b) - 1)" using assms(2) e by simp
    with False assms(1) m nz e show ?thesis
      by (simp add: floorDiv_def quot_neg rem_neg sub64_exact)
  qed
qed

lemma floorDiv_bounds:
  assumes "0 < b" "is_i64 (a div b)"
  shows "floorDiv a b * b \<le> a \<and> a < (floorDiv a b + 1) * b"
  using div_range [OF assms(1), of a] floorDiv_correct [OF assms] by (simp add: algebra_simps)

lemma ceilDiv_correct:
  assumes "0 < a" "0 < b" "is_i64 a"
  shows "(ceilDiv a b - 1) * b < a \<and> a \<le> ceilDiv a b * b \<and> 0 < ceilDiv a b"
proof (cases "a mod b = 0")
  case True
  then have "a div b * b = a" by auto
  moreover from this assms have "0 < a div b"
    by (metis mult_zero_left order_less_irrefl pos_imp_zdiv_nonneg_iff less_le)
  ultimately show ?thesis using assms True
    by (simp add: ceilDiv_def quot_nonneg rem_nonneg algebra_simps)
next
  case False
  have lt: "a div b < a \<or> b = 1" using assms int_div_less_self [of a b] by linarith
  have b1: "b \<noteq> 1" using False by auto
  have z: "0 \<le> a div b" using assms by (simp add: pos_imp_zdiv_nonneg_iff)
  have "is_i64 (a div b + 1)" using lt b1 assms z by (auto simp: is_i64_def)
  then have c: "ceilDiv a b = a div b + 1"
    using assms False by (simp add: ceilDiv_def quot_nonneg rem_nonneg add64_exact)
  have "a div b * b \<noteq> a" using False by (metis mod_mult_self2_is_0 mult.commute)
  with c z div_range [OF assms(2), of a] show ?thesis by (simp add: algebra_simps)
qed

lemma ceilDiv_counts:
  assumes "0 < a" "0 < b" "is_i64 a"
  shows "{k::nat. int k * b < a} = {..<nat (ceilDiv a b)}"
proof (intro set_eqI iffI)
  fix k :: nat
  note c = ceilDiv_correct [OF assms]
  {
    assume "k \<in> {k. int k * b < a}"
    then have "int k * b < ceilDiv a b * b" using c by simp
    then have "int k < ceilDiv a b" using assms(2) by (simp add: mult_less_cancel_right)
    then show "k \<in> {..<nat (ceilDiv a b)}" by simp
  next
    assume "k \<in> {..<nat (ceilDiv a b)}"
    then have "int k \<le> ceilDiv a b - 1" by auto
    then have "int k * b \<le> (ceilDiv a b - 1) * b" using assms(2) by (simp add: mult_right_mono)
    then show "k \<in> {k. int k * b < a}" using c by simp
  }
qed

section \<open>Lemmas: the derivation\<close>

definition has_fatal :: "Finding list \<Rightarrow> bool" where
  "has_fatal fs \<longleftrightarrow> (\<exists>f\<in>set fs. f_Severity f = Fatal)"

lemma has_fatal_simps [simp]:
  "has_fatal [] = False" "has_fatal (f # fs) \<longleftrightarrow> f_Severity f = Fatal \<or> has_fatal fs"
  "has_fatal (fs @ gs) \<longleftrightarrow> has_fatal fs \<or> has_fatal gs"
  by (auto simp: has_fatal_def)

lemma estimate_findings_warn [simp]:
  "\<not> has_fatal (snd (resolveDrainEstimate t u c))"
  "\<not> has_fatal (snd (resolveProvisioningEstimate t c))"
  by (auto simp: resolveDrainEstimate_def resolveProvisioningEstimate_def split: option.splits)

lemma layer2_warn [simp]: "\<not> has_fatal (layer2 inp r)"
  by (auto simp: layer2_def Let_def split: option.splits)

lemma Derive_estimates:
  "r_DrainEstimate (Derive inp) = fst (resolveDrainEstimate (in_TGP inp) (in_TGPWasUnset inp) (in_DrainEstimate inp))"
  "r_ProvisioningEstimate (Derive inp) =
     fst (resolveProvisioningEstimate (in_ReadyTimeout inp) (in_ProvisioningEstimate inp))"
  "r_TRotEst (Derive inp) = add64 (r_ProvisioningEstimate (Derive inp)) (r_DrainEstimate (Derive inp))"
  by (simp_all add: Derive_def Let_def split: prod.splits option.splits)

lemma Derive_TRot: "r_TRot (Derive inp) = add64 (add64 (in_ReadyTimeout inp) (in_TGP inp)) Buffer"
  by (simp add: Derive_def Let_def split: prod.splits option.splits)

lemma Derive_A:
  "r_A (Derive inp) =
     (if in_P inp \<le> 0 then 0
      else case in_Override inp of
             Some ov \<Rightarrow> ov
           | None \<Rightarrow> sub64 (in_E inp) (add64 (mul64 (in_K inp) (in_P inp)) (r_TRot (Derive inp))))"
  by (simp add: Derive_def Let_def split: prod.splits option.splits)

lemma Derive_G:
  "r_G (Derive inp) =
     (if in_P inp \<le> 0 then 0
      else case in_Override inp of
             Some ov \<Rightarrow> floorDiv (sub64 (sub64 (in_E inp) (r_TRot (Derive inp))) ov) (in_P inp)
           | None \<Rightarrow> in_K inp)"
  by (simp add: Derive_def Let_def split: prod.splits option.splits)

lemma Derive_C:
  "r_C (Derive inp) =
     (if 0 < in_P inp \<and> 0 < add64 (r_TRotEst (Derive inp)) (in_Cooldown inp) \<and> 0 < in_WindowLen inp
      then mul64 (max (in_MaxUnavailable inp) 1)
             (ceilDiv (in_WindowLen inp) (add64 (r_TRotEst (Derive inp)) (in_Cooldown inp)))
      else 0)"
  by (simp add: Derive_def Let_def split: prod.splits option.splits)

text \<open>The two layers read only the derived values, not the findings gathered before them.\<close>

lemma layer_reads:
  "layer1 inp (r\<lparr>r_Findings := x\<rparr>) = layer1 inp r" "layer2 inp (r\<lparr>r_Findings := x\<rparr>) = layer2 inp r"
  by (simp_all add: layer1_def layer2_def arrival_exceeds_def Let_def cong: option.case_cong if_cong)

lemma layer1_cong:
  "r_A r = r_A r' \<Longrightarrow> r_G r = r_G r' \<Longrightarrow> layer1 inp r = layer1 inp r'"
  by (simp add: layer1_def)

lemma Derive_Findings:
  "r_Findings (Derive inp) =
     snd (resolveDrainEstimate (in_TGP inp) (in_TGPWasUnset inp) (in_DrainEstimate inp))
     @ snd (resolveProvisioningEstimate (in_ReadyTimeout inp) (in_ProvisioningEstimate inp))
     @ (if in_P inp \<le> 0 then [mkFinding Fatal ''NoWindows'' []]
        else layer1 inp (Derive inp) @ layer2 inp (Derive inp))"
  by (simp add: Derive_def Let_def layer_reads split: prod.splits option.splits)

lemma layer1_fatal:
  "has_fatal (layer1 inp r) \<longleftrightarrow>
     in_K inp < 1 \<or> r_A r \<le> 0 \<or> (in_Override inp \<noteq> None \<and> r_G r < 1)"
  by (auto simp: layer1_def)

lemma Derive_fatal:
  "has_fatal (r_Findings (Derive inp)) \<longleftrightarrow>
     in_P inp \<le> 0 \<or> in_K inp < 1 \<or> r_A (Derive inp) \<le> 0 \<or> r_G (Derive inp) < 1"
  by (auto simp: Derive_Findings layer1_fatal Derive_G split: option.splits)

section \<open>Properties\<close>

definition sched_in_range :: "Inputs \<Rightarrow> bool" where
  "sched_in_range inp \<longleftrightarrow>
     0 \<le> in_E inp \<and> in_E inp < 2 ^ 60 \<and> 0 \<le> in_TGP inp \<and> in_TGP inp < 2 ^ 60
     \<and> 0 \<le> in_ReadyTimeout inp \<and> in_ReadyTimeout inp < 2 ^ 60
     \<and> 0 < in_P inp \<and> in_P inp < 2 ^ 60 \<and> 0 \<le> in_K inp \<and> in_K inp * in_P inp < 2 ^ 61
     \<and> (\<forall>ov. in_Override inp = Some ov \<longrightarrow> 0 \<le> ov \<and> ov < 2 ^ 60)"

text \<open>In range, the sums of the derivation do not wrap.\<close>

lemma sched_bounds:
  assumes "sched_in_range inp"
  shows "0 \<le> in_E inp" "in_E inp < 2 ^ 60" "0 \<le> in_TGP inp" "in_TGP inp < 2 ^ 60"
    "0 \<le> in_ReadyTimeout inp" "in_ReadyTimeout inp < 2 ^ 60" "0 < in_P inp" "in_P inp < 2 ^ 60"
    "0 \<le> in_K inp" "in_K inp * in_P inp < 2 ^ 61" "0 \<le> in_K inp * in_P inp"
  using assms by (auto simp: sched_in_range_def)

lemma TRot_exact: "sched_in_range inp \<Longrightarrow> r_TRot (Derive inp) = in_ReadyTimeout inp + in_TGP inp + Buffer"
  using sched_bounds [of inp] by (simp add: Derive_TRot add64_exact is_i64_def Buffer_def)

lemma auto_age_exact:
  assumes r: "sched_in_range inp" and auto: "in_Override inp = None"
  shows "r_A (Derive inp) = in_E inp - (in_K inp * in_P inp + r_TRot (Derive inp))"
proof -
  note rg = sched_bounds [OF r] and t = TRot_exact [OF r]
  define kp where "kp = in_K inp * in_P inp"
  have kp: "0 \<le> kp" "kp < 2 ^ 61" using rg(10,11) by (simp_all only: kp_def)
  have m: "mul64 (in_K inp) (in_P inp) = kp"
    using kp unfolding kp_def [symmetric] mul64_def by (simp add: i64_id is_i64_def)
  have d: "add64 kp (r_TRot (Derive inp)) = kp + r_TRot (Derive inp)"
    using rg(1-8) kp by (intro add64_exact) (simp add: is_i64_def t Buffer_def)
  have "sub64 (in_E inp) (kp + r_TRot (Derive inp)) = in_E inp - (kp + r_TRot (Derive inp))"
    using rg(1-8) kp by (intro sub64_exact) (simp add: is_i64_def t Buffer_def)
  then show ?thesis using rg(7) auto by (simp add: Derive_A m d [unfolded kp_def] kp_def)
qed

lemma override_chances_exact:
  assumes r: "sched_in_range inp" and ov: "in_Override inp = Some ov"
  shows "r_A (Derive inp) = ov"
    and "r_G (Derive inp) * in_P inp \<le> in_E inp - r_TRot (Derive inp) - ov"
    and "in_E inp - r_TRot (Derive inp) - ov < (r_G (Derive inp) + 1) * in_P inp"
proof -
  note rg = sched_bounds [OF r] and t = TRot_exact [OF r]
  have o: "0 \<le> ov" "ov < 2 ^ 60" using ov r by (auto simp: sched_in_range_def)
  define n where "n = in_E inp - r_TRot (Derive inp) - ov"
  have nr: "- (2 ^ 63) < n" "n < 2 ^ 63" using rg o by (auto simp: n_def t Buffer_def)
  have "- (2 ^ 63) * in_P inp \<le> n" "n < 2 ^ 63 * in_P inp"
    using nr rg(7) by (simp_all add: int_one_le_iff_zero_less [symmetric])
  then have "is_i64 (n div in_P inp)"
    using div_bounds [OF rg(7), of "- (2 ^ 63)" n "2 ^ 63"] by (simp add: is_i64_def)
  note f = floorDiv_bounds [OF rg(7), of n, OF this]
  have s: "sub64 (sub64 (in_E inp) (r_TRot (Derive inp))) ov = n"
    using rg o nr by (simp add: n_def t sub64_exact is_i64_def Buffer_def)
  show "r_A (Derive inp) = ov" using rg(7) ov by (simp add: Derive_A)
  have g: "r_G (Derive inp) = floorDiv n (in_P inp)" using rg(7) ov s by (simp add: Derive_G Derive_A)
  show "r_G (Derive inp) * in_P inp \<le> in_E inp - r_TRot (Derive inp) - ov"
    "in_E inp - r_TRot (Derive inp) - ov < (r_G (Derive inp) + 1) * in_P inp"
    using f unfolding g n_def [symmetric] by simp_all
qed

text \<open>
  Without a fatal finding A is positive and G at least one, and G whole periods fit between age A and
  the last age at which a rotation that waits out every deadline still finishes (expireAfter - t_rot).
  In automatic mode G is the requested number of chances and the division is exact; with an override
  G is the largest number of periods that fits.
\<close>

lemma accepted_schedule_fits:
  assumes "sched_in_range inp" "\<not> has_fatal (r_Findings (Derive inp))"
  shows "r_TRot (Derive inp) = in_ReadyTimeout inp + in_TGP inp + Buffer
    \<and> 0 < r_A (Derive inp) \<and> 1 \<le> r_G (Derive inp)
    \<and> r_A (Derive inp) + r_G (Derive inp) * in_P inp \<le> in_E inp - r_TRot (Derive inp)
    \<and> (in_Override inp = None \<longrightarrow> r_G (Derive inp) = in_K inp
         \<and> r_A (Derive inp) + r_G (Derive inp) * in_P inp = in_E inp - r_TRot (Derive inp))
    \<and> (in_Override inp \<noteq> None \<longrightarrow>
         in_E inp - r_TRot (Derive inp) < r_A (Derive inp) + (r_G (Derive inp) + 1) * in_P inp)"
proof -
  have pos: "0 < r_A (Derive inp)" "1 \<le> r_G (Derive inp)"
    using assms(2) by (simp_all add: Derive_fatal not_le not_less)
  note t = TRot_exact [OF assms(1)]
  show ?thesis
  proof (cases "in_Override inp")
    case None
    have "r_G (Derive inp) = in_K inp" using sched_bounds(7) [OF assms(1)] None by (simp add: Derive_G)
    with None pos t auto_age_exact [OF assms(1) None] show ?thesis by simp
  next
    case (Some ov)
    with pos t override_chances_exact [OF assms(1) Some] show ?thesis by simp
  qed
qed

text \<open>An accepted schedule falls short of the requested chances exactly when it says so.\<close>

lemma shortfall_is_warned:
  assumes "\<not> has_fatal (r_Findings (Derive inp))"
  shows "r_G (Derive inp) < in_K inp \<longleftrightarrow>
    (\<exists>f\<in>set (r_Findings (Derive inp)). f_Code f = ''OverrideGBelowK'')"
proof -
  have pos: "0 < in_P inp" "0 < r_A (Derive inp)" "1 \<le> r_G (Derive inp)"
    using assms by (simp_all add: Derive_fatal not_le not_less)
  have est: "\<forall>f\<in>set (snd (resolveDrainEstimate a b c)). f_Code f \<noteq> ''OverrideGBelowK''"
    "\<forall>f\<in>set (snd (resolveProvisioningEstimate a c)). f_Code f \<noteq> ''OverrideGBelowK''" for a b c
    by (auto simp: resolveDrainEstimate_def resolveProvisioningEstimate_def split: option.splits)
  have two: "\<forall>f\<in>set (layer2 inp r). f_Code f \<noteq> ''OverrideGBelowK''" for r by (auto simp: layer2_def Let_def split: option.splits)
  have one: "(\<exists>f\<in>set (layer1 inp (Derive inp)). f_Code f = ''OverrideGBelowK'') \<longleftrightarrow>
      in_Override inp \<noteq> None \<and> r_G (Derive inp) < in_K inp"
    using pos by (auto simp: layer1_def)
  have "in_Override inp = None \<Longrightarrow> r_G (Derive inp) = in_K inp" using pos(1) by (simp add: Derive_G)
  then show ?thesis using est two one pos(1) by (auto simp: Derive_Findings)
qed

text \<open>Where every stretch of length P holds an instant of interest, n stretches hold n of them.\<close>

lemma recurring:
  fixes P :: int
  assumes "\<And>x. \<exists>y. x < y \<and> y \<le> x + P \<and> Q y"
  shows "\<exists>ws. length ws = n \<and> sorted_wrt (<) ws \<and> (\<forall>w\<in>set ws. x < w \<and> w \<le> x + int n * P \<and> Q w)"
proof (induction n arbitrary: x)
  case (Suc n)
  obtain y where y: "x < y" "y \<le> x + P" "Q y" using assms by blast
  obtain ws where ws: "length ws = n" "sorted_wrt (<) ws" "\<forall>w\<in>set ws. y < w \<and> w \<le> y + int n * P \<and> Q w"
    using Suc by blast
  have le: "y + int n * P \<le> x + int (Suc n) * P" "0 \<le> int n * P" using y by (simp_all add: algebra_simps)
  have "x < w \<and> w \<le> x + int (Suc n) * P \<and> Q w" if "w \<in> set ws" for w
    using ws(3) that le y(1) by (metis order.strict_trans order.trans)
  moreover have "y \<le> x + int (Suc n) * P" using le by linarith
  ultimately show ?case using y ws(1,2,3) by (intro exI [of _ "y # ws"]) auto
qed simp

definition demo_sched :: "duration option \<Rightarrow> Inputs" where
  "demo_sched ov =
     \<lparr>in_E = 336 * Hour, in_TGP = 24 * Hour, in_TGPWasUnset = False, in_P = 24 * Hour,
      in_WindowLen = 4 * Hour, in_IdleGap = Some (20 * Hour), in_ReadyTimeout = 15 * Minute,
      in_Cooldown = 10 * Minute, in_DrainEstimate = None, in_ProvisioningEstimate = None,
      in_RetryBackoff = 30 * Minute, in_K = 2, in_MaxUnavailable = 1, in_NodeCount = 5,
      in_Override = ov\<rparr>"

lemma demo_sched_values:
  "sched_in_range (demo_sched None)" "sched_in_range (demo_sched (Some (100 * Hour)))"
  "r_TRot (Derive (demo_sched ov)) = 24 * Hour + 17 * Minute" "r_A (Derive (demo_sched None)) = 263 * Hour + 43 * Minute"
  "r_G (Derive (demo_sched (Some (100 * Hour)))) = 8" "\<not> has_fatal (r_Findings (Derive (demo_sched None)))"
  "\<not> has_fatal (r_Findings (Derive (demo_sched (Some (100 * Hour)))))"
proof -
  show "sched_in_range (demo_sched None)" "sched_in_range (demo_sched (Some (100 * Hour)))"
    by (simp_all add: sched_in_range_def demo_sched_def)
  have t: "r_TRot (Derive (demo_sched ov)) = 24 * Hour + 17 * Minute" for ov
    by (simp add: Derive_TRot demo_sched_def Buffer_def add64_exact is_i64_def)
  have a: "r_A (Derive (demo_sched None)) = 263 * Hour + 43 * Minute"
    unfolding Derive_A t
    by (simp add: demo_sched_def add64_exact sub64_exact mul64_exact is_i64_def)
  have g: "r_G (Derive (demo_sched (Some (100 * Hour)))) = 8"
    unfolding Derive_G t
    by (simp add: demo_sched_def sub64_exact is_i64_def floorDiv_correct)
  from t a g show "r_TRot (Derive (demo_sched ov)) = 24 * Hour + 17 * Minute"
    "r_A (Derive (demo_sched None)) = 263 * Hour + 43 * Minute" "r_G (Derive (demo_sched (Some (100 * Hour)))) = 8" .
  show "\<not> has_fatal (r_Findings (Derive (demo_sched None)))"
    "\<not> has_fatal (r_Findings (Derive (demo_sched (Some (100 * Hour)))))"
    unfolding Derive_fatal a g by (simp_all add: Derive_G Derive_A demo_sched_def)
qed

definition with_forecast ::
  "Inputs \<Rightarrow> duration option \<Rightarrow> duration option \<Rightarrow> duration \<Rightarrow> duration \<Rightarrow> duration option \<Rightarrow> int \<Rightarrow> Inputs" where
  "with_forecast inp d p cool len gap n =
     inp\<lparr>in_DrainEstimate := d, in_ProvisioningEstimate := p, in_Cooldown := cool,
         in_WindowLen := len, in_IdleGap := gap, in_NodeCount := n\<rparr>"

text \<open>
  The forecast never reaches the deadline side: whatever \<open>drainEstimate\<close>,
  \<open>provisioningEstimate\<close>, cooldown, window length, idle gap and node count are configured, the
  deadline bound t_rot, the threshold A, the chances G, the layer-1 findings and the fatal verdict
  stay the same, and the extra findings are warnings. The estimates in use never exceed the
  deadlines that cap them.
\<close>

theorem forecast_stays_off_deadline_side:
  "let inp' = with_forecast inp d p cool len gap n; r = Derive inp; r' = Derive inp'
   in r_TRot r' = r_TRot r \<and> r_A r' = r_A r \<and> r_G r' = r_G r
      \<and> layer1 inp' r' = layer1 inp r
      \<and> filter (\<lambda>f. f_Severity f = Fatal) (r_Findings r') = filter (\<lambda>f. f_Severity f = Fatal) (r_Findings r)
      \<and> r_ProvisioningEstimate r' \<le> in_ReadyTimeout inp
      \<and> (in_TGPWasUnset inp \<or> r_DrainEstimate r' \<le> in_TGP inp)"
proof -
  let ?i = "with_forecast inp d p cool len gap n"
  let ?F = "filter (\<lambda>f. f_Severity f = Fatal)"
  have tr: "r_TRot (Derive ?i) = r_TRot (Derive inp)"
    by (simp add: Derive_TRot with_forecast_def)
  have a: "r_A (Derive ?i) = r_A (Derive inp)"
    unfolding Derive_A tr by (simp add: with_forecast_def cong: option.case_cong)
  have g: "r_G (Derive ?i) = r_G (Derive inp)"
    unfolding Derive_G tr by (simp add: with_forecast_def cong: option.case_cong)
  have l: "layer1 ?i (Derive ?i) = layer1 inp (Derive inp)"
    unfolding layer1_def a g by (simp add: with_forecast_def)
  have none: "?F xs = [] \<longleftrightarrow> \<not> has_fatal xs" for xs
    by (auto simp: has_fatal_def filter_empty_conv)
  have f: "?F (r_Findings (Derive j))
      = (if in_P j \<le> 0 then [mkFinding Fatal ''NoWindows'' []] else ?F (layer1 j (Derive j)))" for j
    by (simp add: Derive_Findings none [THEN iffD2])
  have "?F (r_Findings (Derive ?i)) = ?F (r_Findings (Derive inp))"
    unfolding f l by (simp add: with_forecast_def)
  moreover have "r_ProvisioningEstimate (Derive ?i) \<le> in_ReadyTimeout inp"
    by (auto simp: Derive_estimates with_forecast_def resolveProvisioningEstimate_def split: option.splits)
  moreover have "in_TGPWasUnset inp \<or> r_DrainEstimate (Derive ?i) \<le> in_TGP inp"
    by (auto simp: Derive_estimates with_forecast_def resolveDrainEstimate_def split: option.splits)
  ultimately show ?thesis by (simp add: Let_def tr a g l)
qed

text \<open>
  The per-window throughput C is m times the number of legal starts k = 0, 1, ... whose budgeted
  instant k * (t_rot_est + cooldown) lies inside an occurrence of length D, so it is at least one
  for every window of positive length.
\<close>

theorem throughput_counts_legal_starts:
  assumes "0 < in_P inp" "0 < in_WindowLen inp" "is_i64 (in_WindowLen inp)"
    and "0 < add64 (r_TRotEst (Derive inp)) (in_Cooldown inp)"
    and "is_i64 (max (in_MaxUnavailable inp) 1 *
           int (card {k::nat. int k * add64 (r_TRotEst (Derive inp)) (in_Cooldown inp) < in_WindowLen inp}))"
  shows "r_C (Derive inp) = max (in_MaxUnavailable inp) 1 *
           int (card {k::nat. int k * add64 (r_TRotEst (Derive inp)) (in_Cooldown inp) < in_WindowLen inp})
    \<and> 1 \<le> r_C (Derive inp)"
proof -
  define d where "d = add64 (r_TRotEst (Derive inp)) (in_Cooldown inp)"
  have d: "0 < d" using assms by (simp add: d_def)
  have c: "int (card {k::nat. int k * d < in_WindowLen inp}) = ceilDiv (in_WindowLen inp) d"
    and pos: "0 < ceilDiv (in_WindowLen inp) d"
    using ceilDiv_counts [OF assms(2) d assms(3)] ceilDiv_correct [OF assms(2) d assms(3)] by simp_all
  have "r_C (Derive inp) = max (in_MaxUnavailable inp) 1 * ceilDiv (in_WindowLen inp) d"
    using assms c d by (simp add: Derive_C d_def mul64_exact)
  moreover have "0 < max (in_MaxUnavailable inp) 1 * ceilDiv (in_WindowLen inp) d"
    using pos by (intro mult_pos_pos) auto
  ultimately show ?thesis using c by (simp add: d_def)
qed

theorem throughput_counts_legal_starts_witness:
  "r_C (Derive (demo_sched None)) = 10
   \<and> card {k::nat. int k * (25 * Minute) < 4 * Hour} = 10"
proof -
  have e: "add64 (r_TRotEst (Derive (demo_sched None))) (in_Cooldown (demo_sched None)) = 25 * Minute"
    by (simp add: Derive_estimates demo_sched_def resolveDrainEstimate_def
        resolveProvisioningEstimate_def DrainEstimateDefault_def ProvisioningEstimateDefault_def
        add64_def i64_def)
  have s: "{k::nat. int k * (25 * Minute) < 4 * Hour} = {..<10}" by auto
  then have "card {k::nat. int k * (25 * Minute) < 4 * Hour} = 10" by (simp only: card_lessThan)
  with throughput_counts_legal_starts [of "demo_sched None"] show ?thesis
    unfolding e by (simp add: demo_sched_def is_i64_def)
qed

text \<open>
  The floating-point arrival check never raises a false alarm: when it warns that candidates
  arrive faster than they can be rotated, the exact product inequality C * A < N * P holds, for
  every schedule of less than about 104 days (2^53 ns) and fewer than 2^53 nodes; and where the
  exact products fit in 53 bits the check is exact.
\<close>

theorem arrival_warning_sound:
  assumes "arrival_exceeds inp r"
    and "0 \<le> r_C r" "r_C r < 2 ^ 53" "0 \<le> r_A r" "r_A r < 2 ^ 53"
    and "0 \<le> in_NodeCount inp" "in_NodeCount inp < 2 ^ 53" "0 \<le> in_P inp" "in_P inp < 2 ^ 53"
  shows "r_C r * r_A r < in_NodeCount inp * in_P inp"
proof (rule ccontr)
  assume "\<not> r_C r * r_A r < in_NodeCount inp * in_P inp"
  then have "f64 (in_NodeCount inp * in_P inp) \<le> f64 (r_C r * r_A r)"
    using assms by (intro f64_mono) (simp_all add: zero_le_mult_iff)
  with assms show False by (simp add: arrival_exceeds_def f64_exact)
qed

theorem arrival_warning_sound_witness:
  "(1::int) * (15 * Minute) < 2 * (24 * Hour)"
  using arrival_warning_sound
    [of "(demo_sched None)\<lparr>in_NodeCount := 2\<rparr>" "(Derive (demo_sched None))\<lparr>r_C := 1, r_A := 15 * Minute\<rparr>"]
  by (simp add: arrival_exceeds_def f64_exact demo_sched_def)

end
