(* ===== verification/Window.thy ===== *)
theory Window
  imports Policy "HOL-Library.Product_Lexorder" "HOL-Library.Multiset"
begin

text \<open>
  The package \<open>internal/window\<close>: membership of an instant in the union of the windows, the exact
  bounds of the occurrence around an instant, and the weekly projection from which P (worst-case
  period), D (shortest occurrence) and the shortest idle gap are taken.

  A \<open>time.Location\<close> is the offset before its first transition and the list of its transitions
  (instant in seconds since 0001-01-01T00:00:00Z, offset from there on), which is what
  \<open>Zone\<close>, \<open>ZoneBounds\<close> and \<open>time.Date\<close> look up; the recurring rule at the end of a zone file
  is written out as far as it is needed. \<open>time.LoadLocation\<close> stays a parameter.
\<close>

section \<open>Locations\<close>

record Location =
  loc_offset :: int
  loc_transitions :: "(int \<times> int) list"

fun lookup_from :: "int \<Rightarrow> int option \<Rightarrow> (int \<times> int) list \<Rightarrow> int \<Rightarrow> int \<times> int option \<times> int option" where
  "lookup_from off st [] sec = (off, st, None)"
| "lookup_from off st ((tr, off') # ts) sec =
     (if sec < tr then (off, st, Some tr) else lookup_from off' (Some tr) ts sec)"

definition loc_lookup :: "Location \<Rightarrow> int \<Rightarrow> int \<times> int option \<times> int option" where
  "loc_lookup loc sec = lookup_from (loc_offset loc) None (loc_transitions loc) sec"

definition Zone_offset :: "Location \<Rightarrow> time \<Rightarrow> int" where
  "Zone_offset loc t = fst (loc_lookup loc (t div Second))"

definition ZoneBounds_end :: "Location \<Rightarrow> time \<Rightarrow> time option" where
  "ZoneBounds_end loc t = map_option (\<lambda>e. e * Second) (snd (snd (loc_lookup loc (t div Second))))"

text \<open>The wall clock of an instant: seconds since local 0001-01-01T00:00:00, a Monday.\<close>

definition local_sec :: "Location \<Rightarrow> time \<Rightarrow> int" where
  "local_sec loc t = t div Second + Zone_offset loc t"

definition Hour_of :: "int \<Rightarrow> int" where "Hour_of ls = ls mod 86400 div 3600"
definition Minute_of :: "int \<Rightarrow> int" where "Minute_of ls = ls mod 3600 div 60"
definition Weekday_of :: "int \<Rightarrow> weekday" where "Weekday_of ls = (ls div 86400 + 1) mod 7"

text \<open>\<open>time.Date\<close>: the instant of a wall-clock reading (seconds), with Go's gap and overlap rule.\<close>

definition date_sec :: "Location \<Rightarrow> int \<Rightarrow> int" where
  "date_sec loc w =
     (case loc_lookup loc w of
        (off, st, en) \<Rightarrow>
          if off = 0 then w
          else let utc = w - off
               in if (\<exists>s\<in>set_option st. utc < s) \<or> (\<exists>e\<in>set_option en. e \<le> utc)
                  then w - fst (loc_lookup loc utc)
                  else utc)"

section \<open>The schedule\<close>

definition week :: duration where "week = 7 * 24 * Hour"
definition continuousWindowPeriod :: duration where "continuousWindowPeriod = Minute"

record Entry =
  e_Loc :: Location
  e_Days :: "weekday list"
  e_StartMin :: int
  e_EndMin :: int

type_synonym Schedule = "Entry list"

definition anchorMonday :: time where
  "anchorMonday = days_of_civil 2024 1 1 * 86400 * Second"

datatype WindowError =
    WTimezone nat string
  | WWeekday nat string
  | WStart nat HHMMError
  | WEnd nat HHMMError

fun parse_days :: "nat \<Rightarrow> string list \<Rightarrow> WindowError + weekday list" where
  "parse_days i [] = Inr []"
| "parse_days i (d # ds) =
     (case ParseWeekday d of
        None \<Rightarrow> Inl (WWeekday i d)
      | Some wd \<Rightarrow> (case parse_days i ds of Inl e \<Rightarrow> Inl e | Inr wds \<Rightarrow> Inr (wd # wds)))"

definition new_entry :: "(string \<Rightarrow> Location option) \<Rightarrow> nat \<Rightarrow> MaintenanceWindow \<Rightarrow> WindowError + Entry" where
  "new_entry loadLocation i w =
     (case loadLocation (mw_Timezone w) of
        None \<Rightarrow> Inl (WTimezone i (mw_Timezone w))
      | Some loc \<Rightarrow>
         (case parse_days i (mw_Days w) of
            Inl e \<Rightarrow> Inl e
          | Inr days \<Rightarrow>
             (case ParseHHMM (mw_Start w) of
                Inl e \<Rightarrow> Inl (WStart i e)
              | Inr st \<Rightarrow>
                 (case ParseHHMM (mw_End w) of
                    Inl e \<Rightarrow> Inl (WEnd i e)
                  | Inr en \<Rightarrow> Inr \<lparr>e_Loc = loc, e_Days = days, e_StartMin = st, e_EndMin = en\<rparr>))))"

fun new_entries ::
  "(string \<Rightarrow> Location option) \<Rightarrow> nat \<Rightarrow> MaintenanceWindow list \<Rightarrow> WindowError + Schedule" where
  "new_entries loadLocation i [] = Inr []"
| "new_entries loadLocation i (w # ws) =
     (case new_entry loadLocation i w of
        Inl e \<Rightarrow> Inl e
      | Inr e \<Rightarrow> (case new_entries loadLocation (Suc i) ws of Inl x \<Rightarrow> Inl x | Inr es \<Rightarrow> Inr (e # es)))"

definition New :: "(string \<Rightarrow> Location option) \<Rightarrow> MaintenanceWindow list \<Rightarrow> WindowError + Schedule" where
  "New loadLocation ws = new_entries loadLocation 0 ws"

section \<open>Membership\<close>

definition entry_in :: "time \<Rightarrow> Entry \<Rightarrow> bool" where
  "entry_in now e =
     (let l = local_sec (e_Loc e) now; mins = Hour_of l * 60 + Minute_of l
      in if mins < e_StartMin e \<or> e_EndMin e \<le> mins then False
         else List.member (e_Days e) (Weekday_of l))"

definition InWindow :: "Schedule \<Rightarrow> time \<Rightarrow> bool" where
  "InWindow s now = list_ex (entry_in now) s"

section \<open>The bounds of an occurrence\<close>

lemma lookup_end_later:
  "lookup_from off st ts sec = (o', s', Some e) \<Longrightarrow> sec < e \<and> e \<in> fst ` set ts"
proof (induction ts arbitrary: off st)
  case (Cons x ts)
  obtain tr o2 where x: "x = (tr, o2)" by (cases x)
  show ?case
  proof (cases "sec < tr")
    case True
    with Cons.prems x show ?thesis by simp
  next
    case False
    with Cons.prems x have "lookup_from o2 (Some tr) ts sec = (o', s', Some e)" by simp
    from Cons.IH [OF this] show ?thesis by simp
  qed
qed simp

lemma ZoneBounds_end_later:
  assumes "ZoneBounds_end loc t = Some e"
  shows "\<exists>x. e = x * Second \<and> t div Second < x \<and> x \<in> fst ` set (loc_transitions loc)"
proof -
  obtain o' s' en where l: "loc_lookup loc (t div Second) = (o', s', en)" by (metis prod_cases3)
  with assms obtain x where x: "en = Some x" "e = x * Second" by (auto simp: ZoneBounds_end_def)
  from l x have "lookup_from (loc_offset loc) None (loc_transitions loc) (t div Second) = (o', s', Some x)"
    by (simp add: loc_lookup_def)
  from lookup_end_later [OF this] x show ?thesis by auto
qed

text \<open>The loop of \<open>minuteAlignedZones\<close> over one entry's zone, from one transition to the next.\<close>

function aligned_walk :: "Location \<Rightarrow> time \<Rightarrow> time \<Rightarrow> bool" where
  "aligned_walk loc to t =
     (if \<not> t < to then True
      else if rem (Zone_offset loc t) 60 \<noteq> 0 then False
      else case ZoneBounds_end loc t of
             None \<Rightarrow> True
           | Some e \<Rightarrow>
               if IsZero e \<or> \<not> e < to then True
               else if e div Second mod 60 \<noteq> 0 then False
               else aligned_walk loc to e)"
  by pat_completeness auto
termination
proof (relation "measure (\<lambda>(loc, to, t). length (filter (\<lambda>x. t div Second < x) (map fst (loc_transitions loc))))",
    goal_cases)
  case 1
  then show ?case by simp
next
  case (2 loc to t e)
  obtain x where x: "e = x * Second" "t div Second < x" "x \<in> set (map fst (loc_transitions loc))"
    using ZoneBounds_end_later [OF 2(3)] by auto
  then have e: "e div Second = x" by simp
  have "length (filter (\<lambda>y. x < y) zs) < length (filter (\<lambda>y. t div Second < y) zs)" if "x \<in> set zs" for zs
    using that x(2)
  proof (induction zs)
    case (Cons z zs)
    have le: "length (filter (\<lambda>y. x < y) zs) \<le> length (filter (\<lambda>y. t div Second < y) zs)"
      using x(2) by (induction zs) auto
    show ?case using Cons le x(2) by auto
  qed simp
  from this [OF x(3)] e show ?case by simp
qed

declare aligned_walk.simps [simp del]

definition minuteAlignedZones :: "Schedule \<Rightarrow> time \<Rightarrow> time \<Rightarrow> bool" where
  "minuteAlignedZones s frm to = list_all (\<lambda>e. aligned_walk (e_Loc e) to frm) s"

definition scanStep :: duration where "scanStep = Minute"
definition searchHorizon :: duration where "searchHorizon = week"
definition scanMargin :: duration where "scanMargin = scanStep"

lemma refine_mid:
  assumes "1 < TimeSub hi lo"
  shows "lo < lo + quot (TimeSub hi lo) 2 \<and> lo + quot (TimeSub hi lo) 2 < hi"
proof -
  have "TimeSub hi lo \<le> hi - lo" using assms by (auto simp: TimeSub_def is_i64_def split: if_splits)
  moreover have "0 < TimeSub hi lo div 2 \<and> TimeSub hi lo div 2 < TimeSub hi lo"
    using assms div_range [of 2 "TimeSub hi lo"] by auto
  ultimately show ?thesis using assms by (auto simp: quot_nonneg)
qed

function refine :: "Schedule \<Rightarrow> time \<Rightarrow> time \<Rightarrow> bool \<Rightarrow> time" where
  "refine s lo hi wantIn =
     (if 1 < TimeSub hi lo then
        (let mid = lo + quot (TimeSub hi lo) 2
         in if InWindow s mid = wantIn then refine s lo mid wantIn else refine s mid hi wantIn)
      else hi)"
  by pat_completeness auto

termination
  by (relation "measure (\<lambda>(s, lo, hi, w). nat (hi - lo))") (auto dest!: refine_mid)

declare refine.simps [simp del]

text \<open>The coarse walks: \<open>n\<close> is the number of steps left.\<close>

fun walk_out :: "Schedule \<Rightarrow> nat \<Rightarrow> time \<Rightarrow> time option" where
  "walk_out s 0 t = None"
| "walk_out s (Suc n) t =
     (let out = t + scanStep
      in if \<not> InWindow s out then Some (refine s t out False) else walk_out s n out)"

fun walk_back :: "Schedule \<Rightarrow> nat \<Rightarrow> time \<Rightarrow> time option" where
  "walk_back s 0 t = None"
| "walk_back s (Suc n) t =
     (let out = t - scanStep
      in if \<not> InWindow s out then Some (refine s out t True) else walk_back s n out)"

definition firstOutAfter :: "Schedule \<Rightarrow> time \<Rightarrow> time option" where
  "firstOutAfter s now = walk_out s (nat (quot searchHorizon scanStep)) now"

definition firstInAtOrBefore :: "Schedule \<Rightarrow> time \<Rightarrow> time option" where
  "firstInAtOrBefore s now = walk_back s (nat (quot searchHorizon scanStep)) now"

definition OccurrenceBounds :: "Schedule \<Rightarrow> time \<Rightarrow> (time \<times> time) option" where
  "OccurrenceBounds s now =
     (if \<not> InWindow s now then None
      else if \<not> minuteAlignedZones s (now - searchHorizon - scanMargin) (now + (searchHorizon + scanMargin))
        then None
      else case firstOutAfter s now of
             None \<Rightarrow> None
           | Some en \<Rightarrow>
               (case firstInAtOrBefore s now of None \<Rightarrow> None | Some st \<Rightarrow> Some (st, en)))"

section \<open>The weekly projection\<close>

record occurrence =
  oc_start :: duration
  oc_length :: duration

definition startOffset :: "Entry \<Rightarrow> weekday \<Rightarrow> duration" where
  "startOffset e d =
     (let dayOff = rem (d - 1 + 7) 7;
          w = (days_of_civil 2024 1 1 + dayOff) * 86400
              + quot (e_StartMin e) 60 * 3600 + rem (e_StartMin e) 60 * 60;
          occ = date_sec (e_Loc e) w * Second;
          off = rem (TimeSub occ anchorMonday) week
      in if off < 0 then off + week else off)"

definition entry_length :: "Entry \<Rightarrow> duration" where
  "entry_length e = (e_EndMin e - e_StartMin e) * Minute"

text \<open>A span is (start, end) with 0 <= start < end <= week; a wrapping one is split in two.\<close>

definition day_spans :: "duration \<Rightarrow> duration \<Rightarrow> (duration \<times> duration) list" where
  "day_spans st len = (if week < st + len then [(0, st + len - week), (st, week)] else [(st, st + len)])"

definition entry_spans :: "Entry \<Rightarrow> (duration \<times> duration) list" where
  "entry_spans e =
     (if entry_length e \<le> 0 then []
      else concat (map (\<lambda>d. day_spans (startOffset e d) (entry_length e)) (e_Days e)))"

text \<open>The merge loop: \<open>cur\<close> is the last merged span.\<close>

fun merge_spans :: "duration \<times> duration \<Rightarrow> (duration \<times> duration) list \<Rightarrow> (duration \<times> duration) list" where
  "merge_spans cur [] = [cur]"
| "merge_spans cur (x # xs) =
     (if fst x \<le> snd cur
      then merge_spans (fst cur, if snd cur < snd x then snd x else snd cur) xs
      else cur # merge_spans x xs)"

definition span_occ :: "duration \<times> duration \<Rightarrow> occurrence" where
  "span_occ m = \<lparr>oc_start = fst m, oc_length = snd m - fst m\<rparr>"

definition circular_join :: "(duration \<times> duration) list \<Rightarrow> occurrence list" where
  "circular_join merged =
     (if 1 < length merged \<and> fst (hd merged) = 0 \<and> snd (last merged) = week
      then \<lparr>oc_start = fst (last merged), oc_length = (week - fst (last merged)) + snd (hd merged)\<rparr>
           # map span_occ (butlast (tl merged))
      else map span_occ merged)"

definition mergedOccurrences :: "Schedule \<Rightarrow> occurrence list" where
  "mergedOccurrences s =
     (case sort (concat (map entry_spans s)) of
        [] \<Rightarrow> []
      | x # xs \<Rightarrow> circular_join (merge_spans x xs))"

fun max_gap :: "duration \<Rightarrow> duration list \<Rightarrow> duration" where
  "max_gap m (a # b # xs) = max_gap (if m < b - a then b - a else m) (b # xs)"
| "max_gap m _ = m"

definition WorstCasePeriod :: "Schedule \<Rightarrow> duration option" where
  "WorstCasePeriod s =
     (case mergedOccurrences s of
        [] \<Rightarrow> None
      | occs \<Rightarrow>
          if length occs = 1 \<and> week \<le> oc_length (hd occs) then Some continuousWindowPeriod
          else let starts = sort (map oc_start occs); m = max_gap 0 starts;
                   wrap = (hd starts + week) - last starts
               in Some (if m < wrap then wrap else m))"

definition ShortestWindow :: "Schedule \<Rightarrow> duration option" where
  "ShortestWindow s =
     (case mergedOccurrences s of
        [] \<Rightarrow> None
      | oc # occs \<Rightarrow>
          Some (fold (\<lambda>x shortest. if oc_length x < shortest then oc_length x else shortest) occs
                  (oc_length oc)))"

definition gap_step :: "duration \<Rightarrow> duration \<Rightarrow> duration \<Rightarrow> duration" where
  "gap_step frm to shortest = (if shortest < 0 \<or> to - frm < shortest then to - frm else shortest)"

fun idle_gaps :: "duration \<Rightarrow> occurrence list \<Rightarrow> duration" where
  "idle_gaps shortest (a # b # xs) = idle_gaps (gap_step (oc_start a + oc_length a) (oc_start b) shortest) (b # xs)"
| "idle_gaps shortest _ = shortest"

definition ShortestIdleGap :: "Schedule \<Rightarrow> duration option" where
  "ShortestIdleGap s =
     (case mergedOccurrences s of
        [] \<Rightarrow> None
      | occs \<Rightarrow>
          if length occs = 1 \<and> week \<le> oc_length (hd occs) then None
          else let os = sort_key oc_start occs; l = last os
               in Some (gap_step (oc_start l + oc_length l) (oc_start (hd os) + week) (idle_gaps (- 1) os)))"

section \<open>Lemmas: membership is constant on a minute\<close>

definition floor_min :: "time \<Rightarrow> time" where
  "floor_min t = t div Minute * Minute"

lemma floor_min_range: "floor_min t \<le> t \<and> t < floor_min t + Minute"
  using div_range [of Minute t] by (simp add: floor_min_def mult.commute)

lemma floor_min_mono: "t \<le> u \<Longrightarrow> floor_min t \<le> floor_min u"
  by (simp add: floor_min_def zdiv_mono1)

lemma floor_min_add: "floor_min (t + k * Minute) = floor_min t + k * Minute"
  by (simp add: floor_min_def algebra_simps)

lemma floor_min_id: "floor_min (k * Minute) = k * Minute"
  by (simp add: floor_min_def)

lemma floor_min_ge: "k * Minute \<le> u \<Longrightarrow> k * Minute \<le> floor_min u"
  using floor_min_mono [of "k * Minute" u] by (simp only: floor_min_id)

lemma rem_60: "rem x 60 = 0 \<longleftrightarrow> 60 dvd x"
proof (cases "0 \<le> x")
  case True
  then show ?thesis by (simp add: rem_nonneg dvd_eq_mod_eq_0)
next
  case False
  then show ?thesis by (simp add: rem_neg) (metis dvd_eq_mod_eq_0 dvd_minus_iff)
qed

lemma lookup_same_segment:
  "lookup_from off st ts sec = (o', s', e) \<Longrightarrow> sec \<le> sec' \<Longrightarrow> (\<forall>x. e = Some x \<longrightarrow> sec' < x)
    \<Longrightarrow> lookup_from off st ts sec' = (o', s', e)"
proof (induction ts arbitrary: off st)
  case (Cons a ts)
  then show ?case by (cases a) (auto split: if_splits)
qed simp

lemma Zone_offset_same:
  assumes "t \<le> u" "\<forall>e. ZoneBounds_end loc t = Some e \<longrightarrow> u < e"
  shows "Zone_offset loc u = Zone_offset loc t"
proof -
  obtain o' s' en where l: "loc_lookup loc (t div Second) = (o', s', en)" by (metis prod_cases3)
  have "u div Second < x" if "en = Some x" for x
  proof -
    have "u < x * Second" using assms(2) l that by (simp add: ZoneBounds_end_def)
    then show ?thesis using div_range [of Second u] by auto
  qed
  moreover have "t div Second \<le> u div Second" using assms(1) by (simp add: zdiv_mono1)
  ultimately have "loc_lookup loc (u div Second) = (o', s', en)"
    using l lookup_same_segment unfolding loc_lookup_def by blast
  with l show ?thesis by (simp add: Zone_offset_def)
qed

lemma aligned_walk_offsets:
  "aligned_walk loc to t \<Longrightarrow> 0 \<le> t \<Longrightarrow> t \<le> u \<Longrightarrow> u < to \<Longrightarrow>
   60 dvd Zone_offset loc u \<and> (t \<le> floor_min u \<longrightarrow> Zone_offset loc (floor_min u) = Zone_offset loc u)"
proof (induction loc to t rule: aligned_walk.induct)
  case (1 loc to t)
  have w: "60 dvd Zone_offset loc t"
    using 1(2,4,5) by (subst (asm) aligned_walk.simps) (auto simp: rem_60 split: if_splits)
  note fl = floor_min_range [of u]
  show ?case
  proof (cases "\<forall>e. ZoneBounds_end loc t = Some e \<longrightarrow> u < e")
    case True
    moreover from True have "\<forall>e. ZoneBounds_end loc t = Some e \<longrightarrow> floor_min u < e" using fl by force
    ultimately show ?thesis
      using w 1(4) Zone_offset_same [of t u loc] Zone_offset_same [of t "floor_min u" loc] by auto
  next
    case False
    then obtain e where e: "ZoneBounds_end loc t = Some e" "e \<le> u" by auto
    obtain x where x: "e = x * Second" "t div Second < x"
      using ZoneBounds_end_later [OF e(1)] by auto
    have gt: "t < e" using x div_range [of Second t] by auto
    have c: "t < to" "e < to" "\<not> IsZero e" using gt 1(3,5) e(2) by (auto simp: IsZero_def)
    have m: "e div Second mod 60 = 0" "aligned_walk loc to e"
      using 1(2) c e(1) by (simp_all add: aligned_walk.simps [of loc to t] split: if_splits)
    have al: "\<exists>k. e = k * Minute"
    proof -
      have "60 dvd x" using m(1) x(1) by (simp add: dvd_eq_mod_eq_0)
      then obtain k where "x = 60 * k" by (auto simp: dvd_def)
      with x(1) have "e = k * Minute" by simp
      then show ?thesis by blast
    qed
    have "60 dvd Zone_offset loc u \<and> (e \<le> floor_min u \<longrightarrow> Zone_offset loc (floor_min u) = Zone_offset loc u)"
      using 1(1) [OF _ _ e(1) _ _ m(2)] c m w e(2) 1(3,5) gt by (simp add: rem_60)
    moreover have "e \<le> floor_min u" using al e(2) floor_min_ge by auto
    ultimately show ?thesis by simp
  qed
qed

lemma local_minute:
  assumes "60 dvd Zone_offset loc t"
  shows "local_sec loc t div 60 = t div Minute + Zone_offset loc t div 60"
proof -
  obtain k where k: "Zone_offset loc t = 60 * k" using assms by (auto simp: dvd_def)
  have "t div Second div 60 = t div Minute" by (simp add: zdiv_zmult2_eq [symmetric])
  moreover have "(t div Second + 60 * k) div 60 = t div Second div 60 + k" by simp
  ultimately show ?thesis by (simp add: local_sec_def k)
qed

lemma mod_div_60: "0 \<le> c \<Longrightarrow> ls mod (60 * c) div 60 = ls div 60 mod c" for ls c :: int
proof -
  assume c: "0 \<le> c"
  have "ls mod (60 * c) = 60 * (ls div 60 mod c) + ls mod 60"
    using c by (rule zmod_zmult2_eq)
  then show ?thesis by simp
qed

lemma clock_of_minute:
  "Hour_of ls * 60 + Minute_of ls = ls div 60 mod 1440" "Weekday_of ls = (ls div 60 div 1440 + 1) mod 7"
proof -
  define y where "y = ls div 60"
  show "Weekday_of ls = (ls div 60 div 1440 + 1) mod 7"
    by (simp add: Weekday_of_def zdiv_zmult2_eq [symmetric])
  have a: "ls mod 86400 div 60 = y mod 1440" using mod_div_60 [of 1440 ls] by (simp add: y_def)
  have b: "ls mod 86400 div 3600 = y mod 1440 div 60"
    unfolding a [symmetric] by (simp add: zdiv_zmult2_eq [symmetric])
  have c: "ls mod 3600 div 60 = y mod 1440 mod 60"
    using mod_div_60 [of 60 ls] by (simp add: y_def mod_mod_cancel)
  show "Hour_of ls * 60 + Minute_of ls = ls div 60 mod 1440"
    unfolding Hour_of_def Minute_of_def b c y_def [symmetric] by simp
qed

lemma entry_in_minute:
  "entry_in t e \<longleftrightarrow>
     (let m = local_sec (e_Loc e) t div 60
      in e_StartMin e \<le> m mod 1440 \<and> m mod 1440 < e_EndMin e \<and> (m div 1440 + 1) mod 7 \<in> set (e_Days e))"
  by (auto simp: entry_in_def Let_def clock_of_minute)

lemma floor_min_local:
  assumes "60 dvd Zone_offset loc t" "Zone_offset loc (floor_min t) = Zone_offset loc t"
  shows "local_sec loc (floor_min t) div 60 = local_sec loc t div 60"
  using assms local_minute [of loc t] local_minute [of loc "floor_min t"]
  by (simp add: floor_min_def)

lemma InWindow_floor_min:
  assumes "minuteAlignedZones s frm to" "0 \<le> frm" "frm \<le> floor_min t" "t < to"
  shows "InWindow s t = InWindow s (floor_min t)"
proof -
  have "entry_in t e = entry_in (floor_min t) e" if "e \<in> set s" for e
  proof -
    have w: "aligned_walk (e_Loc e) to frm" using assms(1) that by (simp add: minuteAlignedZones_def list_all_iff)
    have "frm \<le> t" using assms(3) floor_min_range [of t] by simp
    then have "local_sec (e_Loc e) (floor_min t) div 60 = local_sec (e_Loc e) t div 60"
      using aligned_walk_offsets [OF w assms(2) _ assms(4)] assms(3) floor_min_local by blast
    then show ?thesis by (simp add: entry_in_minute)
  qed
  then show ?thesis by (auto simp: InWindow_def list_ex_iff)
qed

section \<open>Lemmas: the search\<close>

text \<open>On a bracket whose membership flips once, the bisection returns the flip.\<close>

lemma refine_exact:
  "lo < b \<Longrightarrow> b \<le> hi \<Longrightarrow> (\<forall>u. lo \<le> u \<and> u \<le> hi \<longrightarrow> (InWindow s u = wantIn) = (b \<le> u)) \<Longrightarrow>
   refine s lo hi wantIn = b"
proof (induction s lo hi wantIn rule: refine.induct)
  case (1 s lo hi wantIn)
  show ?case
  proof (cases "1 < TimeSub hi lo")
    case False
    then have "hi \<le> lo + 1" using TimeSub_gt_iff [of 1 hi lo] by (simp add: is_i64_def)
    with False 1(3,4) show ?thesis by (subst refine.simps) simp
  next
    case True
    define mid where "mid = lo + quot (TimeSub hi lo) 2"
    have m: "lo < mid" "mid < hi" using refine_mid [OF True] by (simp_all add: mid_def)
    have iff: "(InWindow s mid = wantIn) = (b \<le> mid)" using 1(5) m by simp
    have r: "refine s lo hi wantIn = (if InWindow s mid = wantIn then refine s lo mid wantIn else refine s mid hi wantIn)"
      using True by (subst refine.simps) (simp add: mid_def Let_def)
    show ?thesis
    proof (cases "b \<le> mid")
      case c: True
      then show ?thesis
        using 1(1) [OF True mid_def] iff 1(3,5) m r by simp
    next
      case c: False
      then show ?thesis
        using 1(2) [OF True mid_def] iff 1(4,5) m r by simp
    qed
  qed
qed

definition const_on :: "Schedule \<Rightarrow> time \<Rightarrow> time \<Rightarrow> bool" where
  "const_on s a b \<longleftrightarrow> (\<forall>u. a \<le> u \<and> u \<le> b \<longrightarrow> InWindow s u = InWindow s (floor_min u))"

lemma const_onD: "const_on s a b \<Longrightarrow> a \<le> u \<Longrightarrow> u \<le> b \<Longrightarrow> InWindow s u = InWindow s (floor_min u)"
  by (simp add: const_on_def)

lemma floor_min_split:
  assumes "t \<le> u" "u \<le> t + Minute"
  shows "floor_min u = (if u < floor_min t + Minute then floor_min t else floor_min t + Minute)"
proof -
  have m: "floor_min t \<le> floor_min u" "floor_min u \<le> floor_min t + Minute"
    using floor_min_mono [OF assms(1)] floor_min_mono [OF assms(2)] floor_min_add [of t 1] by simp_all
  obtain i j where ij: "floor_min t = i * Minute" "floor_min u = j * Minute"
    by (simp add: floor_min_def)
  then have j: "j = i \<or> j = i + 1" using m by auto
  show ?thesis
    using j ij floor_min_range [of u] floor_min_range [of t] by (auto simp: algebra_simps)
qed

text \<open>Between two samples a minute apart, membership is that of one of them.\<close>

lemma minute_between:
  assumes "const_on s t (t + Minute)" "t \<le> u" "u \<le> t + Minute"
  shows "InWindow s u = (if u < floor_min t + Minute then InWindow s t else InWindow s (t + Minute))"
proof -
  have e: "floor_min (t + Minute) = floor_min t + Minute" using floor_min_add [of t 1] by simp
  show ?thesis
    using const_onD [OF assms] const_onD [OF assms(1), of t] const_onD [OF assms(1), of "t + Minute"]
      floor_min_split [OF assms(2,3)] e by simp
qed

lemma minute_refine:
  assumes "const_on s t (t + Minute)" "InWindow s t \<noteq> w" "InWindow s (t + Minute) = w"
  shows "refine s t (t + Minute) w = floor_min t + Minute"
proof (rule refine_exact)
  show "t < floor_min t + Minute" "floor_min t + Minute \<le> t + Minute"
    using floor_min_range [of t] by auto
  show "\<forall>u. t \<le> u \<and> u \<le> t + Minute \<longrightarrow> (InWindow s u = w) = (floor_min t + Minute \<le> u)"
  proof (intro allI impI)
    fix u assume u: "t \<le> u \<and> u \<le> t + Minute"
    show "(InWindow s u = w) = (floor_min t + Minute \<le> u)"
      using minute_between [OF assms(1) conjunct1 [OF u] conjunct2 [OF u]] assms(2,3)
      by (cases "u < floor_min t + Minute") simp_all
  qed
qed

lemma const_on_mono: "const_on s a b \<Longrightarrow> a \<le> a' \<Longrightarrow> b' \<le> b \<Longrightarrow> const_on s a' b'"
  by (auto simp: const_on_def)

lemma walk_out_exact:
  "walk_out s n t = Some en \<Longrightarrow> InWindow s t \<Longrightarrow> const_on s t (t + int n * Minute) \<Longrightarrow>
   t < en \<and> (\<forall>u. t \<le> u \<and> u < en \<longrightarrow> InWindow s u) \<and> \<not> InWindow s en"
proof (induction n arbitrary: t)
  case 0
  then show ?case by simp
next
  case (Suc n)
  have c: "const_on s t (t + Minute)" "const_on s (t + Minute) (t + Minute + int n * Minute)"
    using Suc.prems(3) by (auto intro: const_on_mono simp: algebra_simps)
  note mb = minute_between [OF c(1)]
  note fl = floor_min_range [of t]
  show ?case
  proof (cases "InWindow s (t + Minute)")
    case False
    have "refine s t (t + Minute) False = floor_min t + Minute"
      using Suc.prems(2) False by (intro minute_refine [OF c(1)]) auto
    then have en: "en = floor_min t + Minute"
      using Suc.prems(1) False by (simp add: scanStep_def)
    have r: "t < en" "en \<le> t + Minute" using fl by (simp_all add: en)
    moreover have "InWindow s u" if "t \<le> u" "u < en" for u
      using mb [of u] that r(2) Suc.prems(2) by (simp add: en)
    moreover have "\<not> InWindow s en" using mb [of en] r False by (simp add: en)
    ultimately show ?thesis by blast
  next
    case True
    then have "walk_out s n (t + Minute) = Some en" using Suc.prems(1) by (simp add: scanStep_def)
    from Suc.IH [OF this True c(2)] have IH: "t + Minute < en"
      "\<forall>u. t + Minute \<le> u \<and> u < en \<longrightarrow> InWindow s u" "\<not> InWindow s en" by auto
    have "InWindow s u" if u: "t \<le> u" "u < en" for u
    proof (cases "u \<le> t + Minute")
      case le: True
      from mb [OF u(1) le] Suc.prems(2) True show ?thesis by (simp split: if_splits)
    next
      case False
      with IH(2) u(2) show ?thesis by simp
    qed
    moreover have "t < en" using IH(1) by simp
    ultimately show ?thesis using IH(3) by blast
  qed
qed

lemma walk_back_exact:
  "walk_back s n t = Some st \<Longrightarrow> InWindow s t \<Longrightarrow> const_on s (t - int n * Minute) t \<Longrightarrow>
   st \<le> t \<and> (\<forall>u. st \<le> u \<and> u \<le> t \<longrightarrow> InWindow s u) \<and> \<not> InWindow s (st - 1)"
proof (induction n arbitrary: t)
  case 0
  then show ?case by simp
next
  case (Suc n)
  define p where "p = t - Minute"
  have t: "t = p + Minute" by (simp add: p_def)
  have c: "const_on s p (p + Minute)" "const_on s (p - int n * Minute) p"
    using Suc.prems(3) by (auto intro: const_on_mono simp: algebra_simps t)
  note mb = minute_between [OF c(1)]
  note fl = floor_min_range [of p]
  show ?case
  proof (cases "InWindow s p")
    case False
    have "refine s p (p + Minute) True = floor_min p + Minute"
      using Suc.prems(2) False by (intro minute_refine [OF c(1)]) (auto simp: t)
    then have st: "st = floor_min p + Minute"
      using Suc.prems(1) False by (simp add: scanStep_def t)
    have r: "p < st" "st \<le> t" using fl by (simp_all add: st t)
    moreover have "InWindow s u" if "st \<le> u" "u \<le> t" for u
      using mb [of u] that r(1) Suc.prems(2) by (simp add: st t)
    moreover have "\<not> InWindow s (st - 1)" using mb [of "st - 1"] r False by (simp add: st t)
    ultimately show ?thesis by blast
  next
    case True
    then have "walk_back s n p = Some st" using Suc.prems(1) by (simp add: scanStep_def t)
    from Suc.IH [OF this True c(2)] have IH: "st \<le> p"
      "\<forall>u. st \<le> u \<and> u \<le> p \<longrightarrow> InWindow s u" "\<not> InWindow s (st - 1)" by auto
    have "InWindow s u" if u: "st \<le> u" "u \<le> t" for u
    proof (cases "p \<le> u")
      case ge: True
      from mb [OF ge] u(2) Suc.prems(2) True show ?thesis by (simp add: t split: if_splits)
    next
      case False
      with IH(2) u(1) show ?thesis by simp
    qed
    moreover have "st \<le> t" using IH(1) by (simp add: t)
    ultimately show ?thesis using IH(3) by blast
  qed
qed

lemma walk_out_None: "walk_out s n t = None \<longleftrightarrow> (\<forall>k<n. InWindow s (t + int (Suc k) * Minute))"
proof (induction n arbitrary: t)
  case (Suc n)
  have e: "t + Minute + int (Suc k) * Minute = t + int (Suc (Suc k)) * Minute" for k
    by (simp add: algebra_simps)
  show ?case
    by (cases "InWindow s (t + Minute)") (simp_all only: All_less_Suc2 walk_out.simps Let_def
      scanStep_def Suc.IH e if_True if_False not_True_eq_False not_False_eq_True option.distinct
      of_nat_1 One_nat_def [symmetric] mult_1_left simp_thms)
qed simp

lemma walk_back_None: "walk_back s n t = None \<longleftrightarrow> (\<forall>k<n. InWindow s (t - int (Suc k) * Minute))"
proof (induction n arbitrary: t)
  case (Suc n)
  have e: "t - Minute - int (Suc k) * Minute = t - int (Suc (Suc k)) * Minute" for k
    by (simp add: algebra_simps)
  show ?case
    by (cases "InWindow s (t - Minute)") (simp_all only: All_less_Suc2 walk_back.simps Let_def
      scanStep_def Suc.IH e if_True if_False not_True_eq_False not_False_eq_True option.distinct
      of_nat_1 One_nat_def [symmetric] mult_1_left simp_thms)
qed simp

lemma search_steps: "nat (quot searchHorizon scanStep) = 10080"
  by (simp add: searchHorizon_def scanStep_def week_def quot_def)

lemma aligned_const_on:
  assumes "minuteAlignedZones s (now - searchHorizon - scanMargin) (now + (searchHorizon + scanMargin))"
    and "week + Minute \<le> now"
  shows "const_on s (now - week) (now + week)"
  unfolding const_on_def
proof (intro allI impI)
  fix u assume u: "now - week \<le> u \<and> u \<le> now + week"
  show "InWindow s u = InWindow s (floor_min u)"
  proof (rule InWindow_floor_min [OF assms(1)])
    show "0 \<le> now - searchHorizon - scanMargin"
      using assms(2) by (simp add: searchHorizon_def scanMargin_def scanStep_def)
    show "now - searchHorizon - scanMargin \<le> floor_min u" "u < now + (searchHorizon + scanMargin)"
      using u floor_min_range [of u] by (auto simp: searchHorizon_def scanMargin_def scanStep_def)
  qed
qed

text \<open>Every out-of-window instant within the horizon is seen by the one-minute lattice.\<close>

lemma lattice_hits_after:
  assumes "const_on s (now - week) (now + week)" "InWindow s now" "now < u" "u \<le> now + week" "\<not> InWindow s u"
  shows "\<exists>k<10080. \<not> InWindow s (now + int (Suc k) * Minute)"
proof -
  define j where "j = u div Minute - now div Minute"
  have fu: "floor_min u = floor_min now + j * Minute" by (simp add: floor_min_def j_def algebra_simps)
  have c: "InWindow s v = InWindow s (floor_min v)" if "now - week \<le> v" "v \<le> now + week" for v
    using const_onD [OF assms(1) that] .
  have le: "j \<le> 10080"
  proof -
    have "u div Minute \<le> (now + 10080 * Minute) div Minute"
      using assms(4) by (intro zdiv_mono1) (simp_all add: week_def)
    then show ?thesis by (simp add: j_def)
  qed
  have ge: "0 \<le> j" using zdiv_mono1 [of now u Minute] assms(3) by (simp add: j_def)
  have "j \<noteq> 0"
  proof
    assume "j = 0"
    then have "InWindow s u = InWindow s now" using c [of u] c [of now] assms(3,4) fu by (simp add: week_def)
    with assms show False by simp
  qed
  with ge have j: "1 \<le> j" by simp
  have "InWindow s (now + j * Minute) = InWindow s (floor_min u)"
    using c [of "now + j * Minute"] j le by (simp add: floor_min_add fu week_def)
  then have "\<not> InWindow s (now + j * Minute)" using c [of u] assms by (simp add: week_def)
  moreover have "j = int (Suc (nat (j - 1)))" "nat (j - 1) < 10080" using j le by auto
  ultimately show ?thesis by metis
qed

lemma lattice_hits_before:
  assumes "const_on s (now - week) (now + week)" "InWindow s now" "now - week \<le> u" "u < now" "\<not> InWindow s u"
  shows "\<exists>k<10080. \<not> InWindow s (now - int (Suc k) * Minute)"
proof -
  define j where "j = now div Minute - u div Minute"
  have fu: "floor_min u = floor_min now - j * Minute" by (simp add: floor_min_def j_def algebra_simps)
  have c: "InWindow s v = InWindow s (floor_min v)" if "now - week \<le> v" "v \<le> now + week" for v
    using const_onD [OF assms(1) that] .
  have le: "j \<le> 10080"
  proof -
    have "(now - 10080 * Minute) div Minute \<le> u div Minute"
      using assms(3) by (intro zdiv_mono1) (simp_all add: week_def)
    moreover have "(now - 10080 * Minute) div Minute = now div Minute - 10080"
      using div_mult_self3 [of Minute now "- 10080"] by simp
    ultimately show ?thesis by (simp add: j_def)
  qed
  have ge: "0 \<le> j" using zdiv_mono1 [of u now Minute] assms(4) by (simp add: j_def)
  have "j \<noteq> 0"
  proof
    assume "j = 0"
    then have "InWindow s u = InWindow s now" using c [of u] c [of now] assms(3,4) fu by (simp add: week_def)
    with assms show False by simp
  qed
  with ge have j: "1 \<le> j" by simp
  have "floor_min (now - j * Minute) = floor_min u" using floor_min_add [of now "- j"] fu by simp
  then have "InWindow s (now - j * Minute) = InWindow s (floor_min u)"
    using c [of "now - j * Minute"] j le by (simp add: week_def)
  then have "\<not> InWindow s (now - j * Minute)" using c [of u] assms by (simp add: week_def)
  moreover have "j = int (Suc (nat (j - 1)))" "nat (j - 1) < 10080" using j le by auto
  ultimately show ?thesis by metis
qed

definition UTC :: Location where
  "UTC = \<lparr>loc_offset = 0, loc_transitions = []\<rparr>"

definition demo_daily :: Schedule where
  "demo_daily = [\<lparr>e_Loc = UTC, e_Days = [0, 1, 2, 3, 4, 5, 6], e_StartMin = 600, e_EndMin = 603\<rparr>]"

lemma Zone_offset_UTC [simp]: "Zone_offset UTC t = 0"
  by (simp add: Zone_offset_def loc_lookup_def UTC_def)

lemma ZoneBounds_end_UTC [simp]: "ZoneBounds_end UTC t = None"
  by (simp add: ZoneBounds_end_def loc_lookup_def UTC_def)

lemma demo_daily_in: "InWindow demo_daily t \<longleftrightarrow> 600 \<le> t div Minute mod 1440 \<and> t div Minute mod 1440 < 603"
proof -
  have "x mod 7 \<in> set [0, 1, 2, 3, 4, 5, 6]" for x :: int
    using pos_mod_sign [of 7 x] pos_mod_bound [of 7 x] by auto
  then show ?thesis
    using local_minute [of UTC t] by (simp add: InWindow_def demo_daily_def entry_in_minute Let_def)
qed

lemma demo_daily_aligned: "minuteAlignedZones demo_daily a b"
  by (simp add: minuteAlignedZones_def demo_daily_def aligned_walk.simps rem_def quot_def)

abbreviation demo_now :: time where "demo_now \<equiv> 1440601 * Minute + 30 * Second"

lemma demo_daily_now: "InWindow demo_daily demo_now" "\<not> InWindow demo_daily (demo_now + 2 * Minute)"
  "\<not> InWindow demo_daily (demo_now - 2 * Minute)"
  by (simp_all add: demo_daily_in)

section \<open>Properties: the bounds of an occurrence\<close>

text \<open>
  C18. The bounds reported for the occurrence around an instant are exact to the nanosecond: the
  instant lies in [start, end), the window is open throughout [start, end), and closed at the
  nanosecond before start and at end. So the reported run is maximal.
\<close>

theorem occurrence_bounds_exact:
  assumes "OccurrenceBounds s now = Some (st, en)" "week + Minute \<le> now"
  shows "st \<le> now \<and> now < en \<and> (\<forall>u. st \<le> u \<and> u < en \<longrightarrow> InWindow s u)
    \<and> \<not> InWindow s (st - 1) \<and> \<not> InWindow s en"
proof -
  have inw: "InWindow s now"
    and al: "minuteAlignedZones s (now - searchHorizon - scanMargin) (now + (searchHorizon + scanMargin))"
    and en: "walk_out s 10080 now = Some en" and st: "walk_back s 10080 now = Some st"
    using assms(1) unfolding OccurrenceBounds_def firstOutAfter_def firstInAtOrBefore_def search_steps
    by (auto split: if_splits option.splits)
  note c = aligned_const_on [OF al assms(2)]
  have c1: "const_on s now (now + int 10080 * Minute)" "const_on s (now - int 10080 * Minute) now"
    using c by (auto intro: const_on_mono simp: week_def)
  note o = walk_out_exact [OF en inw c1(1)] and b = walk_back_exact [OF st inw c1(2)]
  have "InWindow s u" if "st \<le> u" "u < en" for u
  proof (cases "u \<le> now")
    case True
    with b that(1) show ?thesis by blast
  next
    case False
    with o that(2) show ?thesis by simp
  qed
  with o b show ?thesis by blast
qed

theorem occurrence_bounds_exact_witness:
  "\<exists>st en. OccurrenceBounds demo_daily demo_now = Some (st, en)
     \<and> st \<le> demo_now \<and> demo_now < en \<and> \<not> InWindow demo_daily en"
proof -
  have "walk_out demo_daily 10080 demo_now \<noteq> None"
    unfolding walk_out_None using demo_daily_now(2) by (auto intro!: exI [of _ 1])
  moreover have "walk_back demo_daily 10080 demo_now \<noteq> None"
    unfolding walk_back_None using demo_daily_now(3) by (auto intro!: exI [of _ 1])
  ultimately obtain st en where b: "OccurrenceBounds demo_daily demo_now = Some (st, en)"
    unfolding OccurrenceBounds_def firstOutAfter_def firstInAtOrBefore_def search_steps
    using demo_daily_now(1) demo_daily_aligned by auto
  from occurrence_bounds_exact [OF this] b show ?thesis by (simp add: week_def)
qed

text \<open>
  The search never gives up wrongly: where the zones are minute-aligned, bounds are reported
  exactly when the instant is in a window that closes within a week after it and was closed within
  the week before it. A one-minute lattice misses no closed interval.
\<close>

theorem occurrence_bounds_found_iff:
  assumes "minuteAlignedZones s (now - searchHorizon - scanMargin) (now + (searchHorizon + scanMargin))"
    and "week + Minute \<le> now"
  shows "OccurrenceBounds s now \<noteq> None \<longleftrightarrow>
    InWindow s now \<and> (\<exists>u. now < u \<and> u \<le> now + week \<and> \<not> InWindow s u)
    \<and> (\<exists>u. now - week \<le> u \<and> u < now \<and> \<not> InWindow s u)"
proof (cases "InWindow s now")
  case False
  then show ?thesis by (simp add: OccurrenceBounds_def)
next
  case True
  note c = aligned_const_on [OF assms]
  have a: "walk_out s 10080 now \<noteq> None \<longleftrightarrow> (\<exists>u. now < u \<and> u \<le> now + week \<and> \<not> InWindow s u)"
  proof
    assume "walk_out s 10080 now \<noteq> None"
    then obtain k where k: "k < 10080" "\<not> InWindow s (now + int (Suc k) * Minute)"
      unfolding walk_out_None by blast
    then have "now < now + int (Suc k) * Minute" "now + int (Suc k) * Minute \<le> now + week"
      by (auto simp: week_def)
    with k(2) show "\<exists>u. now < u \<and> u \<le> now + week \<and> \<not> InWindow s u" by blast
  next
    assume "\<exists>u. now < u \<and> u \<le> now + week \<and> \<not> InWindow s u"
    then show "walk_out s 10080 now \<noteq> None"
      unfolding walk_out_None using lattice_hits_after [OF c True] by blast
  qed
  have b: "walk_back s 10080 now \<noteq> None \<longleftrightarrow> (\<exists>u. now - week \<le> u \<and> u < now \<and> \<not> InWindow s u)"
  proof
    assume "walk_back s 10080 now \<noteq> None"
    then obtain k where k: "k < 10080" "\<not> InWindow s (now - int (Suc k) * Minute)"
      unfolding walk_back_None by blast
    then have "now - int (Suc k) * Minute < now" "now - week \<le> now - int (Suc k) * Minute"
      by (auto simp: week_def)
    with k(2) show "\<exists>u. now - week \<le> u \<and> u < now \<and> \<not> InWindow s u" by blast
  next
    assume "\<exists>u. now - week \<le> u \<and> u < now \<and> \<not> InWindow s u"
    then show "walk_back s 10080 now \<noteq> None"
      unfolding walk_back_None using lattice_hits_before [OF c True] by blast
  qed
  have "OccurrenceBounds s now \<noteq> None \<longleftrightarrow> walk_out s 10080 now \<noteq> None \<and> walk_back s 10080 now \<noteq> None"
    using True assms(1) unfolding OccurrenceBounds_def firstOutAfter_def firstInAtOrBefore_def search_steps
    by (simp split: option.splits)
  with a b True show ?thesis by simp
qed

theorem occurrence_bounds_found_iff_witness:
  "OccurrenceBounds demo_daily demo_now \<noteq> None
   \<and> OccurrenceBounds demo_daily (demo_now + 2 * Minute) = None"
proof -
  have "(\<exists>u. demo_now < u \<and> u \<le> demo_now + week \<and> \<not> InWindow demo_daily u)
      \<and> (\<exists>u. demo_now - week \<le> u \<and> u < demo_now \<and> \<not> InWindow demo_daily u)"
    using demo_daily_now(2,3)
    by (intro conjI exI [of _ "demo_now + 2 * Minute"] exI [of _ "demo_now - 2 * Minute"]) (simp_all add: week_def)
  with occurrence_bounds_found_iff [of demo_daily demo_now]
    occurrence_bounds_found_iff [of demo_daily "demo_now + 2 * Minute"]
  show ?thesis using demo_daily_now demo_daily_aligned by (simp add: week_def del: not_None_eq)
qed

section \<open>Lemmas: merging\<close>

definition covers :: "(duration \<times> duration) list \<Rightarrow> duration \<Rightarrow> bool" where
  "covers ms x \<longleftrightarrow> (\<exists>m\<in>set ms. fst m \<le> x \<and> x < snd m)"

lemma covers_simps [simp]:
  "covers [] x = False" "covers (m # ms) x \<longleftrightarrow> (fst m \<le> x \<and> x < snd m) \<or> covers ms x"
  "covers (as @ bs) x \<longleftrightarrow> covers as x \<or> covers bs x"
  by (auto simp: covers_def)

text \<open>Merging keeps the set of points, and leaves the spans ordered with positive gaps.\<close>

lemma merge_spans_covers:
  "sorted (map fst (cur # xs)) \<Longrightarrow> covers (merge_spans cur xs) x \<longleftrightarrow> covers (cur # xs) x"
proof (induction cur xs rule: merge_spans.induct)
  case (2 cur y xs)
  show ?case
  proof (cases "fst y \<le> snd cur")
    case True
    let ?c = "(fst cur, if snd cur < snd y then snd y else snd cur)"
    have "sorted (map fst (?c # xs))" using 2(3) by simp
    from 2(1) [OF True this] True
    have "covers (merge_spans cur (y # xs)) x \<longleftrightarrow> covers (?c # xs) x" by simp
    also have "\<dots> \<longleftrightarrow> covers (cur # y # xs) x"
      using True 2(3) by (simp split: if_split) linarith
    finally show ?thesis .
  next
    case False
    from 2(2) [OF False] 2(3) False show ?thesis by simp
  qed
qed simp

lemma merge_spans_hd: "fst (hd (merge_spans cur xs)) = fst cur"
  by (induction cur xs rule: merge_spans.induct) simp_all

lemma merge_spans_bounds:
  "sorted (map fst (cur # xs)) \<Longrightarrow> (\<forall>m\<in>set (cur # xs). lo \<le> fst m \<and> fst m < snd m \<and> snd m \<le> hi) \<Longrightarrow>
   m \<in> set (merge_spans cur xs) \<Longrightarrow> fst cur \<le> fst m \<and> lo \<le> fst m \<and> fst m < snd m \<and> snd m \<le> hi"
proof (induction cur xs rule: merge_spans.induct)
  case (1 cur)
  then show ?case by simp
next
  case (2 cur y xs)
  show ?case
  proof (cases "fst y \<le> snd cur")
    case True
    let ?c = "(fst cur, if snd cur < snd y then snd y else snd cur)"
    have so: "sorted (map fst (?c # xs))" using 2(3) by simp
    have pos: "\<forall>m\<in>set (?c # xs). lo \<le> fst m \<and> fst m < snd m \<and> snd m \<le> hi" using 2(4) by simp
    have m: "m \<in> set (merge_spans ?c xs)" using 2(5) True by simp
    show ?thesis using 2(1) [OF True so pos m] by simp
  next
    case False
    have so: "sorted (map fst (y # xs))" using 2(3) by simp
    have pos: "\<forall>m\<in>set (y # xs). lo \<le> fst m \<and> fst m < snd m \<and> snd m \<le> hi" using 2(4) by simp
    show ?thesis
    proof (cases "m = cur")
      case True
      then show ?thesis using 2(4) by simp
    next
      case ne: False
      then have m: "m \<in> set (merge_spans y xs)" using 2(5) False by simp
      have "fst cur \<le> fst y" using 2(3) by simp
      with 2(2) [OF False so pos m] show ?thesis by simp
    qed
  qed
qed

lemma merge_spans_gaps:
  "sorted (map fst (cur # xs)) \<Longrightarrow> (\<forall>m\<in>set (cur # xs). lo \<le> fst m \<and> fst m < snd m \<and> snd m \<le> hi) \<Longrightarrow>
   sorted_wrt (\<lambda>a b. snd a < fst b) (merge_spans cur xs)"
proof (induction cur xs rule: merge_spans.induct)
  case (1 cur)
  then show ?case by simp
next
  case (2 cur y xs)
  show ?case
  proof (cases "fst y \<le> snd cur")
    case True
    let ?c = "(fst cur, if snd cur < snd y then snd y else snd cur)"
    have so: "sorted (map fst (?c # xs))" using 2(3) by simp
    have pos: "\<forall>m\<in>set (?c # xs). lo \<le> fst m \<and> fst m < snd m \<and> snd m \<le> hi" using 2(4) by simp
    show ?thesis using 2(1) [OF True so pos] True by simp
  next
    case False
    have so: "sorted (map fst (y # xs))" using 2(3) by simp
    have pos: "\<forall>m\<in>set (y # xs). lo \<le> fst m \<and> fst m < snd m \<and> snd m \<le> hi" using 2(4) by simp
    have "snd cur < fst m" if "m \<in> set (merge_spans y xs)" for m
      using merge_spans_bounds [OF so pos that] False by simp
    with 2(2) [OF False so pos] False show ?thesis by simp
  qed
qed

lemma merge_spans_nonempty [simp]: "merge_spans cur xs \<noteq> []"
  by (induction cur xs rule: merge_spans.induct) auto

text \<open>An occurrence repeats every week; a time is open when some repetition holds it.\<close>

definition occ_open :: "occurrence list \<Rightarrow> int \<Rightarrow> bool" where
  "occ_open os x \<longleftrightarrow>
     (\<exists>oc\<in>set os. \<exists>k. oc_start oc \<le> x + k * week \<and> x + k * week < oc_start oc + oc_length oc)"

definition weekly_open :: "Schedule \<Rightarrow> int \<Rightarrow> bool" where
  "weekly_open s x \<longleftrightarrow>
     (\<exists>e\<in>set s. \<exists>d\<in>set (e_Days e). \<exists>k.
        startOffset e d \<le> x + k * week \<and> x + k * week < startOffset e d + entry_length e)"

definition entries_ok :: "Schedule \<Rightarrow> bool" where
  "entries_ok s \<longleftrightarrow> (\<forall>e\<in>set s. 0 < entry_length e \<and> entry_length e \<le> week)"

lemma startOffset_range: "0 \<le> startOffset e d \<and> startOffset e d < week"
proof -
  have r: "- week < rem a week \<and> rem a week < week" for a
    by (cases "0 \<le> a") (simp_all add: rem_nonneg rem_neg week_def)
  define a where "a = TimeSub (date_sec (e_Loc e) ((days_of_civil 2024 1 1 + rem (d - 1 + 7) 7) * 86400
              + quot (e_StartMin e) 60 * 3600 + rem (e_StartMin e) 60 * 60) * Second) anchorMonday"
  have "startOffset e d = (if rem a week < 0 then rem a week + week else rem a week)"
    by (simp add: startOffset_def Let_def a_def)
  with r [of a] show ?thesis by auto
qed

text \<open>A point of [0, week) is on the circle of a span when its week or the next one is.\<close>

lemma wrap_index:
  assumes "0 \<le> st" "st < week" "len \<le> week" "0 \<le> y" "y < week"
    and "st \<le> y + k * week" "y + k * week < st + len"
  shows "k = 0 \<or> k = 1"
proof -
  have "- 1 < k" "k < 2"
    using assms by (auto simp: week_def)
  then show ?thesis by auto
qed

lemma day_spans_covers:
  assumes "0 \<le> st" "st < week" "len \<le> week" "0 \<le> y" "y < week"
  shows "covers (day_spans st len) y \<longleftrightarrow> (\<exists>k. st \<le> y + k * week \<and> y + k * week < st + len)"
proof
  assume "covers (day_spans st len) y"
  then have "(st \<le> y + 0 * week \<and> y + 0 * week < st + len) \<or> (st \<le> y + 1 * week \<and> y + 1 * week < st + len)"
    using assms by (auto simp: day_spans_def split: if_splits)
  then show "\<exists>k. st \<le> y + k * week \<and> y + k * week < st + len" by blast
next
  assume "\<exists>k. st \<le> y + k * week \<and> y + k * week < st + len"
  then obtain k where k: "st \<le> y + k * week" "y + k * week < st + len" by blast
  with wrap_index [OF assms k] show "covers (day_spans st len) y"
    using assms by (auto simp: day_spans_def split: if_splits)
qed

lemma shift_week:
  "(\<exists>k. P (x + k * week)) \<longleftrightarrow> (\<exists>k. P (x mod week + k * week))" for x :: int
proof -
  have e: "x + k * week = x mod week + (k + x div week) * week" for k
    by (simp add: algebra_simps)
  show ?thesis
  proof
    assume "\<exists>k. P (x + k * week)"
    then show "\<exists>k. P (x mod week + k * week)" by (metis e)
  next
    assume "\<exists>k. P (x mod week + k * week)"
    then obtain k where "P (x mod week + k * week)" by blast
    then have "P (x + (k - x div week) * week)" using e [of "k - x div week"] by simp
    then show "\<exists>k. P (x + k * week)" by blast
  qed
qed

lemma weekly_open_mod: "weekly_open s x \<longleftrightarrow> weekly_open s (x mod week)"
  unfolding weekly_open_def
  by (intro bex_cong refl) (rule shift_week [where P = "\<lambda>y. _ \<le> y \<and> y < _"])

lemma occ_open_mod: "occ_open os x \<longleftrightarrow> occ_open os (x mod week)"
  unfolding occ_open_def
  by (intro bex_cong refl) (rule shift_week [where P = "\<lambda>y. _ \<le> y \<and> y < _"])

lemma entry_spans_covers:
  assumes "entries_ok s" "0 \<le> y" "y < week"
  shows "covers (concat (map entry_spans s)) y \<longleftrightarrow> weekly_open s y"
proof -
  have "covers (entry_spans e) y \<longleftrightarrow> (\<exists>d\<in>set (e_Days e). \<exists>k. startOffset e d \<le> y + k * week
      \<and> y + k * week < startOffset e d + entry_length e)" if "e \<in> set s" for e
  proof -
    have l: "0 < entry_length e" "entry_length e \<le> week" using assms(1) that by (simp_all add: entries_ok_def)
    have "covers (entry_spans e) y \<longleftrightarrow> (\<exists>d\<in>set (e_Days e). covers (day_spans (startOffset e d) (entry_length e)) y)"
      using l by (auto simp: entry_spans_def covers_def)
    then show ?thesis using day_spans_covers startOffset_range l assms(2,3) by simp
  qed
  then show ?thesis by (auto simp: covers_def weekly_open_def)
qed

text \<open>The occurrences in order of their starts: positive lengths, positive gaps, around the week.\<close>

definition oc_end :: "occurrence \<Rightarrow> duration" where
  "oc_end oc = oc_start oc + oc_length oc"

definition full_week :: "occurrence list \<Rightarrow> bool" where
  "full_week os \<longleftrightarrow> os = [\<lparr>oc_start = 0, oc_length = week\<rparr>]"

definition cycle_ok :: "occurrence list \<Rightarrow> bool" where
  "cycle_ok os \<longleftrightarrow> os \<noteq> [] \<and> (\<forall>oc\<in>set os. 0 \<le> oc_start oc \<and> oc_start oc < week \<and> 0 < oc_length oc)
     \<and> sorted_wrt (\<lambda>a b. oc_end a < oc_start b) os
     \<and> (full_week os \<or> oc_end (last os) < oc_start (hd os) + week)"

definition merged_ok :: "(duration \<times> duration) list \<Rightarrow> bool" where
  "merged_ok ms \<longleftrightarrow> ms \<noteq> [] \<and> (\<forall>m\<in>set ms. 0 \<le> fst m \<and> fst m < snd m \<and> snd m \<le> week)
     \<and> sorted_wrt (\<lambda>a b. snd a < fst b) ms"

definition joins :: "(duration \<times> duration) list \<Rightarrow> bool" where
  "joins ms \<longleftrightarrow> 1 < length ms \<and> fst (hd ms) = 0 \<and> snd (last ms) = week"

lemma span_occ_simps [simp]:
  "oc_start (span_occ m) = fst m" "oc_length (span_occ m) = snd m - fst m" "oc_end (span_occ m) = snd m"
  by (simp_all add: span_occ_def oc_end_def)

lemma insort_key_last: "\<forall>y\<in>set ys. f y < f x \<Longrightarrow> insort_key f x ys = ys @ [x]"
  by (induction ys) auto

lemma sorted_starts:
  "sorted_wrt (\<lambda>a b. snd a < fst b) ms \<Longrightarrow> \<forall>m\<in>set ms. fst m < snd m \<Longrightarrow> sorted (map fst ms)"
  by (induction ms) (auto intro: order.strict_implies_order order.strict_trans)

text \<open>The sorted occurrences, when the last span continues in the first and when it does not.\<close>

lemma join_cases:
  assumes "merged_ok ms" "joins ms"
  obtains a mid z where "ms = a # mid @ [z]" "fst a = 0" "snd z = week"
    "sort_key oc_start (circular_join ms) =
       map span_occ mid @ [\<lparr>oc_start = fst z, oc_length = (week - fst z) + snd a\<rparr>]"
proof -
  obtain a r where r: "ms = a # r" using assms by (cases ms) (auto simp: joins_def)
  then obtain mid z where ms: "ms = a # mid @ [z]" using assms by (cases r rule: rev_cases) (auto simp: joins_def)
  have f: "fst a = 0" "snd z = week" using assms(2) ms by (auto simp: joins_def)
  have g: "sorted_wrt (\<lambda>a b. snd a < fst b) ms" "\<forall>m\<in>set ms. fst m < snd m"
    using assms(1) by (auto simp: merged_ok_def)
  have lt: "\<forall>m\<in>set mid. fst m < fst z" using g ms by (force simp: sorted_wrt_append)
  have "sorted (map fst mid)" using sorted_starts [OF g] ms by (simp add: sorted_append)
  then have s: "sort_key oc_start (map span_occ mid) = map span_occ mid"
    by (intro sort_key_id_if_sorted) (simp add: comp_def)
  have "circular_join ms = \<lparr>oc_start = fst z, oc_length = (week - fst z) + snd a\<rparr> # map span_occ mid"
    using assms(2) ms by (simp add: circular_join_def joins_def)
  then have "sort_key oc_start (circular_join ms)
      = map span_occ mid @ [\<lparr>oc_start = fst z, oc_length = (week - fst z) + snd a\<rparr>]"
    using lt by (simp add: s insort_key_last)
  with ms f that show ?thesis by blast
qed

lemma nojoin_sort:
  assumes "merged_ok ms" "\<not> joins ms"
  shows "sort_key oc_start (circular_join ms) = map span_occ ms"
proof -
  have "circular_join ms = map span_occ ms" using assms(2) by (auto simp: circular_join_def joins_def)
  moreover have "sorted (map fst ms)" using assms(1) by (intro sorted_starts) (auto simp: merged_ok_def)
  ultimately show ?thesis by (simp add: sort_key_id_if_sorted comp_def)
qed

lemma circular_join_cycle_ok:
  assumes "merged_ok ms"
  shows "cycle_ok (sort_key oc_start (circular_join ms))"
proof (cases "joins ms")
  case True
  from join_cases [OF assms True] obtain a mid z where
    ms: "ms = a # mid @ [z]" and az: "fst a = 0" "snd z = week"
    and s: "sort_key oc_start (circular_join ms) =
       map span_occ mid @ [\<lparr>oc_start = fst z, oc_length = (week - fst z) + snd a\<rparr>]" by blast
  have b: "\<forall>m\<in>set ms. 0 \<le> fst m \<and> fst m < snd m \<and> snd m \<le> week"
    and g: "sorted_wrt (\<lambda>a b. snd a < fst b) ms" using assms by (auto simp: merged_ok_def)
  have z: "0 \<le> fst z" "fst z < week" "0 < snd a" using b ms az by auto
  have gm: "sorted_wrt (\<lambda>a b. snd a < fst b) mid" "\<forall>m\<in>set mid. snd m < fst z" "\<forall>m\<in>set mid. snd a < fst m"
    "snd a < fst z"
    using g ms by (auto simp: sorted_wrt_append)
  have bm: "\<forall>m\<in>set mid. 0 \<le> fst m \<and> fst m < snd m \<and> snd m \<le> week" using b ms by simp
  show ?thesis
    unfolding s cycle_ok_def using z gm bm
    by (cases mid) (auto simp: sorted_wrt_append sorted_wrt_map oc_end_def)
next
  case False
  have b: "\<forall>m\<in>set ms. 0 \<le> fst m \<and> fst m < snd m \<and> snd m \<le> week" "ms \<noteq> []"
    and g: "sorted_wrt (\<lambda>a b. snd a < fst b) ms" using assms by (auto simp: merged_ok_def)
  have "full_week (map span_occ ms) \<or> snd (last ms) < fst (hd ms) + week"
  proof (cases "snd (last ms) < fst (hd ms) + week")
    case c: False
    have "snd (last ms) \<le> week" "0 \<le> fst (hd ms)" using b by auto
    with c have e: "snd (last ms) = week" "fst (hd ms) = 0" by auto
    with False b(2) have "length ms = 1" by (cases ms) (auto simp: joins_def)
    then obtain m where "ms = [m]" by (auto simp: length_Suc_conv)
    with e show ?thesis by (simp add: full_week_def span_occ_def)
  qed simp
  with b g show ?thesis
    unfolding nojoin_sort [OF assms False] cycle_ok_def
    by (auto simp: sorted_wrt_map last_map hd_map)
qed

lemma circular_join_open:
  assumes "merged_ok ms" "0 \<le> y" "y < week"
  shows "occ_open (circular_join ms) y \<longleftrightarrow> covers ms y"
proof -
  have b: "\<forall>m\<in>set ms. 0 \<le> fst m \<and> fst m < snd m \<and> snd m \<le> week" using assms(1) by (auto simp: merged_ok_def)
  have one: "(\<exists>k. fst m \<le> y + k * week \<and> y + k * week < snd m) \<longleftrightarrow> fst m \<le> y \<and> y < snd m" if "m \<in> set ms" for m
  proof
    assume "\<exists>k. fst m \<le> y + k * week \<and> y + k * week < snd m"
    then obtain k where k: "fst m \<le> y + k * week" "y + k * week < snd m" by blast
    have "k = 0" using k b that assms(2,3) by (auto simp: week_def)
    with k show "fst m \<le> y \<and> y < snd m" by simp
  next
    assume "fst m \<le> y \<and> y < snd m"
    then show "\<exists>k. fst m \<le> y + k * week \<and> y + k * week < snd m" by (intro exI [of _ 0]) simp
  qed
  show ?thesis
  proof (cases "joins ms")
    case False
    have c: "circular_join ms = map span_occ ms" using False by (auto simp: circular_join_def joins_def)
    show ?thesis unfolding c occ_open_def covers_def using one by auto
  next
    case True
    from join_cases [OF assms(1) True] obtain a mid z where
      ms: "ms = a # mid @ [z]" and az: "fst a = 0" "snd z = week"
      and s: "sort_key oc_start (circular_join ms) =
       map span_occ mid @ [\<lparr>oc_start = fst z, oc_length = (week - fst z) + snd a\<rparr>]" by blast
    have set: "set (circular_join ms) = set (map span_occ mid @ [\<lparr>oc_start = fst z, oc_length = (week - fst z) + snd a\<rparr>])"
      unfolding s [symmetric] by simp
    have az2: "snd a < fst z" "0 \<le> fst z" "fst z < week" "snd a \<le> week"
      using assms(1) ms b by (auto simp: merged_ok_def)
    have j: "(\<exists>k. fst z \<le> y + k * week \<and> y + k * week < fst z + ((week - fst z) + snd a)) \<longleftrightarrow>
        (fst z \<le> y \<and> y < snd z) \<or> (fst a \<le> y \<and> y < snd a)"
    proof
      assume "\<exists>k. fst z \<le> y + k * week \<and> y + k * week < fst z + ((week - fst z) + snd a)"
      then obtain k where k: "fst z \<le> y + k * week" "y + k * week < fst z + ((week - fst z) + snd a)" by blast
      from wrap_index [OF az2(2,3) _ assms(2,3) k] az2 have "k = 0 \<or> k = 1" by simp
      with k az assms(2,3) show "(fst z \<le> y \<and> y < snd z) \<or> (fst a \<le> y \<and> y < snd a)" by auto
    next
      assume "(fst z \<le> y \<and> y < snd z) \<or> (fst a \<le> y \<and> y < snd a)"
      then have "(fst z \<le> y + 0 * week \<and> y + 0 * week < fst z + ((week - fst z) + snd a))
          \<or> (fst z \<le> y + 1 * week \<and> y + 1 * week < fst z + ((week - fst z) + snd a))"
        using az az2 assms(2,3) b ms by auto
      then show "\<exists>k. fst z \<le> y + k * week \<and> y + k * week < fst z + ((week - fst z) + snd a)" by blast
    qed
    have "occ_open (circular_join ms) y \<longleftrightarrow> covers mid y \<or> (fst z \<le> y \<and> y < snd z) \<or> (fst a \<le> y \<and> y < snd a)"
      unfolding occ_open_def set covers_def using one j ms by auto
    then show ?thesis by (auto simp: ms)
  qed
qed

section \<open>Lemmas: the endless timeline\<close>

text \<open>The i-th occurrence start and end on the endless timeline, for every integer i.\<close>

definition oc_at :: "occurrence list \<Rightarrow> int \<Rightarrow> occurrence" where
  "oc_at os i = os ! nat (i mod int (length os))"

definition S_at :: "occurrence list \<Rightarrow> int \<Rightarrow> int" where
  "S_at os i = oc_start (oc_at os i) + i div int (length os) * week"

definition E_at :: "occurrence list \<Rightarrow> int \<Rightarrow> int" where
  "E_at os i = oc_end (oc_at os i) + i div int (length os) * week"

lemma oc_at_mem: "os \<noteq> [] \<Longrightarrow> oc_at os i \<in> set os"
  by (simp add: oc_at_def nat_less_iff)

lemma S_less_E: "cycle_ok os \<Longrightarrow> S_at os i < E_at os i"
  using oc_at_mem [of os i] by (auto simp: cycle_ok_def S_at_def E_at_def oc_end_def)

text \<open>The index one further: the next element, or the first one a week later.\<close>

lemma index_step:
  fixes i n :: int
  assumes "0 < n"
  shows "(i mod n + 1 < n \<longrightarrow> (i + 1) mod n = i mod n + 1 \<and> (i + 1) div n = i div n)
    \<and> (\<not> i mod n + 1 < n \<longrightarrow> i mod n = n - 1 \<and> (i + 1) mod n = 0 \<and> (i + 1) div n = i div n + 1)"
proof -
  have e: "i + 1 = n * (i div n) + (i mod n + 1)" by simp
  have m: "0 \<le> i mod n" "i mod n < n" using assms by simp_all
  show ?thesis
  proof (cases "i mod n + 1 < n")
    case True
    have "(n * q + r) mod n = r" "(n * q + r) div n = q" if "0 \<le> r" "r < n" for q r
      using that assms by simp_all
    with m True e have "(i + 1) mod n = i mod n + 1" "(i + 1) div n = i div n"
      by (metis add_nonneg_nonneg zero_le_one)+
    with True show ?thesis by simp
  next
    case False
    with m have q: "i mod n = n - 1" by simp
    then have f: "i + 1 = n * (i div n + 1)" using e by (simp add: algebra_simps)
    have "(i + 1) mod n = 0" "(i + 1) div n = i div n + 1" unfolding f using assms by simp_all
    with False q show ?thesis by simp
  qed
qed

definition next_gap :: "occurrence list \<Rightarrow> nat \<Rightarrow> (occurrence \<Rightarrow> int) \<Rightarrow> int" where
  "next_gap os j f =
     (if Suc j < length os then oc_start (os ! Suc j) - f (os ! j) else oc_start (hd os) + week - f (os ! j))"

lemma next_start:
  assumes "os \<noteq> []" "j = nat (i mod int (length os))"
  shows "S_at os (i + 1) - (f (oc_at os i) + i div int (length os) * week) = next_gap os j f \<and> j < length os"
proof -
  define n where "n = int (length os)"
  have n: "0 < n" using assms(1) by (simp add: n_def)
  have m: "0 \<le> i mod n" "i mod n < n" using n by simp_all
  have j: "int j = i mod n" "j < length os" using assms(2) m by (simp_all add: n_def nat_less_iff)
  have at: "oc_at os i = os ! j" using assms(2) by (simp add: oc_at_def)
  show ?thesis
  proof (cases "i mod n + 1 < n")
    case True
    then have "Suc j < length os" "nat (i mod n + 1) = Suc j" using j by (simp_all add: n_def)
    with True index_step [OF n, of i] j at show ?thesis
      by (simp add: next_gap_def S_at_def oc_at_def n_def [symmetric])
  next
    case False
    then have "\<not> Suc j < length os" using j by (simp add: n_def)
    with False index_step [OF n, of i] j at assms(1) show ?thesis
      by (simp add: next_gap_def S_at_def oc_at_def n_def [symmetric] hd_conv_nth algebra_simps)
  qed
qed

lemma gap_index: "j < length os \<Longrightarrow> nat (int j mod int (length os)) = j"
  by simp

lemma next_gap_pos:
  assumes "cycle_ok os" "\<not> full_week os" "j < length os"
  shows "0 < next_gap os j oc_end"
proof (cases "Suc j < length os")
  case True
  then show ?thesis using assms by (simp add: next_gap_def cycle_ok_def sorted_wrt_iff_nth_less)
next
  case False
  then have "os ! j = last os" using assms by (auto simp: last_conv_nth cycle_ok_def intro!: arg_cong [where f = "(!) os"])
  with False assms show ?thesis by (auto simp: next_gap_def cycle_ok_def)
qed

lemma E_less_S:
  assumes "cycle_ok os" "\<not> full_week os"
  shows "E_at os i < S_at os (i + 1)"
proof -
  have ne: "os \<noteq> []" using assms by (auto simp: cycle_ok_def)
  have "0 < S_at os (i + 1) - (oc_end (oc_at os i) + i div int (length os) * week)"
    using next_start [OF ne refl, of i oc_end] next_gap_pos [OF assms] by simp
  then show ?thesis by (simp add: E_at_def)
qed

lemma cycle_order:
  assumes "cycle_ok os" "\<not> full_week os" "i < j"
  shows "E_at os i < S_at os j"
proof -
  have "E_at os i < S_at os (i + 1 + int k)" for k
  proof (induction k)
    case 0
    then show ?case using E_less_S [OF assms(1,2)] by simp
  next
    case (Suc k)
    have "S_at os (i + 1 + int k) < E_at os (i + 1 + int k)" by (rule S_less_E [OF assms(1)])
    also have "\<dots> < S_at os (i + 1 + int k + 1)" by (rule E_less_S [OF assms(1,2)])
    finally show ?case using Suc by (simp add: algebra_simps)
  qed
  from this [of "nat (j - i - 1)"] assms(3) show ?thesis by simp
qed

lemma int_bracket:
  fixes f :: "int \<Rightarrow> int"
  assumes "\<And>i. f i < f (i + 1)"
  shows "\<exists>i. f i \<le> x \<and> x < f (i + 1)"
proof -
  have up: "f i + int k \<le> f (i + int k)" for i k
  proof (induction k)
    case (Suc k)
    have "f (i + int k) < f (i + int k + 1)" by (rule assms)
    with Suc show ?case by (simp add: algebra_simps)
  qed simp
  define lo where "lo = min 0 (x - f 0)"
  have lo: "f lo \<le> x"
  proof (cases "f 0 \<le> x")
    case True
    then show ?thesis by (simp add: lo_def)
  next
    case False
    then have "lo = x - f 0" "lo + int (nat (f 0 - x)) = 0" by (simp_all add: lo_def)
    with up [of lo "nat (f 0 - x)"] False show ?thesis by simp
  qed
  have "\<exists>k. x < f (lo + int k)"
    using up [of lo "nat (x - f lo) + 1"] lo by (intro exI [of _ "nat (x - f lo) + 1"]) simp
  then obtain k where k: "x < f (lo + int k)" "\<And>m. m < k \<Longrightarrow> \<not> x < f (lo + int m)"
    using LeastI_ex [of "\<lambda>k. x < f (lo + int k)"] not_less_Least [of _ "\<lambda>k. x < f (lo + int k)"] by metis
  with lo obtain k' where k': "k = Suc k'" by (cases k) auto
  show ?thesis
  proof (intro exI [of _ "lo + int k'"] conjI)
    show "f (lo + int k') \<le> x" using k(2) [of k'] k' by simp
    show "x < f (lo + int k' + 1)" using k(1) k' by (simp add: algebra_simps)
  qed
qed

lemma cycle_bracket:
  assumes "cycle_ok os" "\<not> full_week os"
  shows "\<exists>i. S_at os i \<le> x \<and> x < S_at os (i + 1)"
  using S_less_E [OF assms(1)] E_less_S [OF assms] by (intro int_bracket) (meson order.strict_trans)

lemma open_iff_at:
  assumes "os \<noteq> []"
  shows "occ_open os x \<longleftrightarrow> (\<exists>i. S_at os i \<le> x \<and> x < E_at os i)"
proof
  assume "occ_open os x"
  then obtain oc k where oc: "oc \<in> set os" "oc_start oc \<le> x + k * week" "x + k * week < oc_end oc"
    by (auto simp: occ_open_def oc_end_def)
  then obtain j where j: "j < length os" "os ! j = oc" by (auto simp: in_set_conv_nth)
  define n where "n = int (length os)"
  define i where "i = int j + (- k) * n"
  have n: "n \<noteq> 0" using assms by (simp add: n_def)
  have "i mod n = int j mod n" "i div n = - k + int j div n"
    unfolding i_def using n by (simp_all only: mod_mult_self1 div_mult_self1 not_False_eq_True)
  then have "i mod n = int j" "i div n = - k" using j by (simp_all add: n_def)
  then have "S_at os i \<le> x \<and> x < E_at os i"
    using oc j by (simp add: S_at_def E_at_def oc_at_def n_def [symmetric] algebra_simps)
  then show "\<exists>i. S_at os i \<le> x \<and> x < E_at os i" ..
next
  assume "\<exists>i. S_at os i \<le> x \<and> x < E_at os i"
  then obtain i where i: "S_at os i \<le> x" "x < E_at os i" by blast
  show "occ_open os x"
    unfolding occ_open_def
    using i oc_at_mem [OF assms, of i]
    by (intro bexI [of _ "oc_at os i"] exI [of _ "- (i div int (length os))"])
      (auto simp: S_at_def E_at_def oc_end_def)
qed

text \<open>Between the end of one occurrence and the start of the next the window is closed.\<close>

lemma closed_between:
  assumes "cycle_ok os" "\<not> full_week os" "E_at os i \<le> x" "x < S_at os (i + 1)"
  shows "\<not> occ_open os x"
proof
  assume "occ_open os x"
  then obtain j where j: "S_at os j \<le> x" "x < E_at os j"
    using assms(1) by (auto simp: open_iff_at cycle_ok_def)
  consider "j < i" | "j = i" | "j = i + 1" | "i + 1 < j" by linarith
  then show False
  proof cases
    case 1
    with cycle_order [OF assms(1,2) 1] S_less_E [OF assms(1), of i] assms(3) j show False by simp
  next
    case 4
    with cycle_order [OF assms(1,2) 4] S_less_E [OF assms(1), of "i + 1"] assms(4) j show False by simp
  qed (use assms j in simp_all)
qed

definition is_opening :: "(int \<Rightarrow> bool) \<Rightarrow> int \<Rightarrow> bool" where
  "is_opening P y \<longleftrightarrow> P y \<and> \<not> P (y - 1)"

lemma opening_iff:
  assumes "cycle_ok os" "\<not> full_week os"
  shows "is_opening (occ_open os) y \<longleftrightarrow> (\<exists>i. y = S_at os i)"
proof
  have ne: "os \<noteq> []" using assms(1) by (simp add: cycle_ok_def)
  {
    assume "is_opening (occ_open os) y"
    then obtain i where "S_at os i \<le> y" "y < E_at os i" "\<not> occ_open os (y - 1)"
      by (auto simp: is_opening_def open_iff_at [OF ne])
    then show "\<exists>i. y = S_at os i" unfolding open_iff_at [OF ne]
      by (metis dual_order.strict_trans less_le linorder_not_less zle_diff1_eq zless_imp_add1_zle order.asym add_diff_cancel_right' diff_add_cancel)
  next
    assume "\<exists>i. y = S_at os i"
    then obtain i where i: "y = S_at os i" by blast
    have "occ_open os y" using S_less_E [OF assms(1)] i by (auto simp: open_iff_at [OF ne])
    moreover have "\<not> occ_open os (y - 1)"
      using closed_between [OF assms, of "i - 1" "y - 1"] E_less_S [OF assms, of "i - 1"] i by simp
    ultimately show "is_opening (occ_open os) y" by (simp add: is_opening_def)
  }
qed

lemma full_week_open: "full_week os \<Longrightarrow> occ_open os x"
proof -
  assume f: "full_week os"
  have "0 \<le> x + (- (x div week)) * week" "x + (- (x div week)) * week < 0 + week"
    by (simp_all add: minus_div_mult_eq_mod week_def)
  then have "\<exists>k. 0 \<le> x + k * week \<and> x + k * week < 0 + week" by blast
  with f show ?thesis by (simp add: full_week_def occ_open_def)
qed

section \<open>Lemmas: the extremes of the cycle\<close>

lemma max_gap_ge: "m \<le> max_gap m xs \<and> (\<forall>j. Suc j < length xs \<longrightarrow> xs ! Suc j - xs ! j \<le> max_gap m xs)"
proof (induction m xs rule: max_gap.induct)
  case (1 m a b xs)
  define m' where "m' = (if m < b - a then b - a else m)"
  have "(a # b # xs) ! Suc j - (a # b # xs) ! j \<le> max_gap m' (b # xs)" if "Suc j < length (a # b # xs)" for j
  proof (cases j)
    case 0
    have "b - a \<le> m'" by (simp add: m'_def)
    also have "m' \<le> max_gap m' (b # xs)" using 1 by (simp add: m'_def)
    finally show ?thesis using 0 by simp
  next
    case (Suc k)
    with 1 that show ?thesis by (simp add: m'_def)
  qed
  moreover have "m \<le> max_gap m' (b # xs)" using 1 by (simp add: m'_def split: if_splits)
  ultimately show ?case by (simp add: m'_def)
qed auto

lemma max_gap_attained:
  "max_gap m xs = m \<or> (\<exists>j. Suc j < length xs \<and> max_gap m xs = xs ! Suc j - xs ! j)"
proof (induction m xs rule: max_gap.induct)
  case (1 m a b xs)
  define m' where "m' = (if m < b - a then b - a else m)"
  from 1 have "max_gap m' (b # xs) = m' \<or> (\<exists>j. Suc j < length (b # xs) \<and> max_gap m' (b # xs) = (b # xs) ! Suc j - (b # xs) ! j)"
    by (simp add: m'_def)
  then show ?case
  proof
    assume "max_gap m' (b # xs) = m'"
    then show ?thesis by (auto simp: m'_def intro: exI [of _ 0])
  next
    assume "\<exists>j. Suc j < length (b # xs) \<and> max_gap m' (b # xs) = (b # xs) ! Suc j - (b # xs) ! j"
    then obtain j where "Suc j < length (b # xs)" "max_gap m' (b # xs) = (b # xs) ! Suc j - (b # xs) ! j" by blast
    then show ?thesis by (intro disjI2 exI [of _ "Suc j"]) (simp add: m'_def)
  qed
qed auto

definition start_gaps :: "occurrence list \<Rightarrow> int set" where
  "start_gaps os = {next_gap os j oc_start | j. j < length os}"

definition closed_gaps :: "occurrence list \<Rightarrow> int set" where
  "closed_gaps os = {next_gap os j oc_end | j. j < length os}"

lemma start_gap_at:
  assumes "os \<noteq> []"
  shows "S_at os (i + 1) - S_at os i \<in> start_gaps os" "S_at os (i + 1) - E_at os i \<in> closed_gaps os"
  using next_start [OF assms refl, of i oc_start] next_start [OF assms refl, of i oc_end]
  by (auto simp: start_gaps_def closed_gaps_def S_at_def [of os i] E_at_def)

lemma gap_realised:
  assumes "os \<noteq> []"
  shows "g \<in> start_gaps os \<Longrightarrow> \<exists>i. g = S_at os (i + 1) - S_at os i"
    "g \<in> closed_gaps os \<Longrightarrow> \<exists>i. g = S_at os (i + 1) - E_at os i"
proof -
  assume "g \<in> start_gaps os"
  then obtain j where "j < length os" "g = next_gap os j oc_start" by (auto simp: start_gaps_def)
  with next_start [OF assms, of j "int j" oc_start] show "\<exists>i. g = S_at os (i + 1) - S_at os i"
    by (intro exI [of _ "int j"]) (simp add: S_at_def [of os "int j"])
next
  assume "g \<in> closed_gaps os"
  then obtain j where "j < length os" "g = next_gap os j oc_end" by (auto simp: closed_gaps_def)
  with next_start [OF assms, of j "int j" oc_end] show "\<exists>i. g = S_at os (i + 1) - E_at os i"
    by (intro exI [of _ "int j"]) (simp add: E_at_def)
qed

definition period_of :: "occurrence list \<Rightarrow> int" where
  "period_of os =
     (let starts = map oc_start os; m = max_gap 0 starts; wrap = (hd starts + week) - last starts
      in if m < wrap then wrap else m)"

lemma period_of_max:
  assumes "cycle_ok os"
  shows "period_of os \<in> start_gaps os \<and> (\<forall>g\<in>start_gaps os. g \<le> period_of os) \<and> 0 < period_of os"
proof -
  have ne: "os \<noteq> []" using assms by (simp add: cycle_ok_def)
  define m where "m = max_gap 0 (map oc_start os)"
  define wrap where "wrap = (oc_start (hd os) + week) - oc_start (last os)"
  have p: "period_of os = (if m < wrap then wrap else m)"
    using ne by (simp add: period_of_def m_def wrap_def Let_def hd_map last_map)
  have last: "next_gap os (length os - 1) oc_start = wrap"
    using ne by (simp add: next_gap_def wrap_def last_conv_nth)
  have step: "next_gap os j oc_start = map oc_start os ! Suc j - map oc_start os ! j" if "Suc j < length os" for j
    using that by (simp add: next_gap_def)
  have w: "0 < wrap"
  proof -
    have "0 \<le> oc_start (hd os)" "oc_start (last os) < week"
      using assms hd_in_set [OF ne] last_in_set [OF ne] by (auto simp: cycle_ok_def)
    then show ?thesis by (simp add: wrap_def)
  qed
  have ub: "next_gap os j oc_start \<le> period_of os" if "j < length os" for j
  proof (cases "Suc j < length os")
    case True
    then have "next_gap os j oc_start \<le> m"
      using max_gap_ge [of 0 "map oc_start os"] unfolding step [OF True] m_def by simp
    then show ?thesis by (simp add: p)
  next
    case False
    with that have "j = length os - 1" by simp
    with last show ?thesis by (simp add: p)
  qed
  have mem: "period_of os \<in> start_gaps os"
  proof (cases "m < wrap")
    case True
    then show ?thesis using last ne unfolding p start_gaps_def by (auto intro!: exI [of _ "length os - 1"])
  next
    case False
    with w have "m \<noteq> 0" by simp
    with max_gap_attained [of 0 "map oc_start os"] obtain j where
      "Suc j < length os" "m = map oc_start os ! Suc j - map oc_start os ! j" by (auto simp: m_def)
    then show ?thesis using False step unfolding p start_gaps_def by (auto intro!: exI [of _ j])
  qed
  show ?thesis using mem ub w by (auto simp: start_gaps_def p split: if_splits)
qed

lemma idle_gaps_min:
  assumes "\<forall>j. Suc j < length os \<longrightarrow> 0 < oc_start (os ! Suc j) - oc_end (os ! j)"
  shows "(\<forall>j. Suc j < length os \<longrightarrow> idle_gaps sh os \<le> oc_start (os ! Suc j) - oc_end (os ! j))
    \<and> (0 \<le> sh \<longrightarrow> idle_gaps sh os \<le> sh \<and> 0 \<le> idle_gaps sh os)
    \<and> (Suc 0 < length os \<longrightarrow> 0 \<le> idle_gaps sh os)
    \<and> (idle_gaps sh os = sh \<or> (\<exists>j. Suc j < length os \<and> idle_gaps sh os = oc_start (os ! Suc j) - oc_end (os ! j)))"
  using assms
proof (induction sh os rule: idle_gaps.induct)
  case (1 sh a b xs)
  define sh' where "sh' = gap_step (oc_start a + oc_length a) (oc_start b) sh"
  define g where "g = oc_start b - oc_end a"
  have g0: "0 < g" using 1(2) by (force simp: g_def)
  have sh': "sh' = (if sh < 0 \<or> g < sh then g else sh)"
    by (simp add: sh'_def gap_step_def g_def oc_end_def)
  have e: "idle_gaps sh (a # b # xs) = idle_gaps sh' (b # xs)" by (simp add: sh'_def)
  have "\<forall>j. Suc j < length (b # xs) \<longrightarrow> 0 < oc_start ((b # xs) ! Suc j) - oc_end ((b # xs) ! j)"
    using 1(2) by auto
  note IH = 1(1) [folded sh'_def, OF this]
  have s0: "0 \<le> sh'" using g0 by (simp add: sh')
  have lo: "idle_gaps sh' (b # xs) \<le> g" "0 \<le> idle_gaps sh' (b # xs)" "0 \<le> sh \<Longrightarrow> idle_gaps sh' (b # xs) \<le> sh"
    using IH s0 by (auto simp: sh' split: if_splits)
  have "idle_gaps sh' (b # xs) \<le> oc_start ((a # b # xs) ! Suc j) - oc_end ((a # b # xs) ! j)"
    if "Suc j < length (a # b # xs)" for j
  proof (cases j)
    case 0
    with lo show ?thesis by (simp add: g_def)
  next
    case (Suc k)
    with IH that show ?thesis by simp
  qed
  moreover have "idle_gaps sh' (b # xs) = sh \<or> (\<exists>j. Suc j < length (a # b # xs)
      \<and> idle_gaps sh' (b # xs) = oc_start ((a # b # xs) ! Suc j) - oc_end ((a # b # xs) ! j))"
  proof (cases "idle_gaps sh' (b # xs) = sh'")
    case True
    then show ?thesis by (auto simp: sh' g_def split: if_splits intro: exI [of _ 0])
  next
    case False
    with IH obtain j where "Suc j < length (b # xs)"
      "idle_gaps sh' (b # xs) = oc_start ((b # xs) ! Suc j) - oc_end ((b # xs) ! j)" by auto
    then show ?thesis by (intro disjI2 exI [of _ "Suc j"]) simp
  qed
  ultimately show ?case unfolding e using lo by auto
qed auto

definition idle_of :: "occurrence list \<Rightarrow> int" where
  "idle_of os = gap_step (oc_end (last os)) (oc_start (hd os) + week) (idle_gaps (- 1) os)"

lemma idle_of_min:
  assumes "cycle_ok os" "\<not> full_week os"
  shows "idle_of os \<in> closed_gaps os \<and> (\<forall>g\<in>closed_gaps os. idle_of os \<le> g) \<and> 0 < idle_of os"
proof -
  have ne: "os \<noteq> []" using assms by (simp add: cycle_ok_def)
  define m where "m = idle_gaps (- 1) os"
  define wrap where "wrap = (oc_start (hd os) + week) - oc_end (last os)"
  have p: "idle_of os = (if m < 0 \<or> wrap < m then wrap else m)"
    by (simp add: idle_of_def m_def wrap_def gap_step_def)
  have last: "next_gap os (length os - 1) oc_end = wrap"
    using ne by (simp add: next_gap_def wrap_def last_conv_nth)
  have step: "next_gap os j oc_end = oc_start (os ! Suc j) - oc_end (os ! j)" if "Suc j < length os" for j
    using that by (simp add: next_gap_def)
  have gp: "\<forall>j. Suc j < length os \<longrightarrow> 0 < oc_start (os ! Suc j) - oc_end (os ! j)"
    using next_gap_pos [OF assms] step by (metis Suc_lessD)
  note im = idle_gaps_min [OF gp, of "- 1", folded m_def]
  have ub: "idle_of os \<le> next_gap os j oc_end" if "j < length os" for j
  proof (cases "Suc j < length os")
    case True
    then have "m \<le> next_gap os j oc_end" "0 \<le> m" using im unfolding step [OF True] by auto
    then show ?thesis by (simp add: p)
  next
    case False
    with that have "j = length os - 1" by simp
    with last show ?thesis by (simp add: p)
  qed
  have mem: "idle_of os \<in> closed_gaps os"
  proof (cases "m < 0 \<or> wrap < m")
    case True
    then show ?thesis using last ne unfolding p closed_gaps_def by (auto intro!: exI [of _ "length os - 1"])
  next
    case False
    then have "m \<noteq> - 1" by simp
    with im obtain j where "Suc j < length os" "m = oc_start (os ! Suc j) - oc_end (os ! j)" by auto
    then show ?thesis using False step unfolding p closed_gaps_def by (auto intro!: exI [of _ j])
  qed
  moreover have "0 < idle_of os" using mem next_gap_pos [OF assms] by (auto simp: closed_gaps_def)
  ultimately show ?thesis using ub by (auto simp: closed_gaps_def)
qed

section \<open>Properties: the weekly projection\<close>

lemma day_spans_bounds:
  "0 \<le> st \<Longrightarrow> st < week \<Longrightarrow> 0 < len \<Longrightarrow> len \<le> week \<Longrightarrow> m \<in> set (day_spans st len) \<Longrightarrow>
   0 \<le> fst m \<and> fst m < snd m \<and> snd m \<le> week"
  by (auto simp: day_spans_def split: if_splits)

lemma merged_spans:
  assumes "entries_ok s"
  shows "mergedOccurrences s = [] \<and> (\<forall>x. \<not> weekly_open s x)
    \<or> (\<exists>ms. mergedOccurrences s = circular_join ms \<and> merged_ok ms
         \<and> (\<forall>y. 0 \<le> y \<and> y < week \<longrightarrow> covers ms y = weekly_open s y))"
proof -
  define sp where "sp = sort (concat (map entry_spans s))"
  have b: "\<forall>m\<in>set sp. 0 \<le> fst m \<and> fst m < snd m \<and> snd m \<le> week"
  proof
    fix m assume "m \<in> set sp"
    then obtain e where "e \<in> set s" "m \<in> set (entry_spans e)" by (auto simp: sp_def)
    moreover from this assms have l: "0 < entry_length e" "entry_length e \<le> week" by (auto simp: entries_ok_def)
    ultimately obtain d where "m \<in> set (day_spans (startOffset e d) (entry_length e))"
      by (auto simp: entry_spans_def)
    from day_spans_bounds [OF _ _ l this] startOffset_range
    show "0 \<le> fst m \<and> fst m < snd m \<and> snd m \<le> week" by simp
  qed
  have c: "covers sp y \<longleftrightarrow> weekly_open s y" if "0 \<le> y" "y < week" for y
    using entry_spans_covers [OF assms that] by (simp add: sp_def covers_def)
  show ?thesis
  proof (cases sp)
    case Nil
    have "\<not> weekly_open s x" for x
      using c [of "x mod week"] Nil by (subst weekly_open_mod) (simp add: week_def)
    then show ?thesis using Nil by (simp add: mergedOccurrences_def sp_def)
  next
    case (Cons x xs)
    have so: "sorted (map fst (x # xs))"
    proof -
      have "sorted sp" by (simp add: sp_def)
      then have "sorted (map fst sp)" by (rule sorted_map_mono) (auto simp: mono_on_def less_eq_prod_def)
      then show ?thesis by (simp add: Cons)
    qed
    have b': "\<forall>m\<in>set (x # xs). 0 \<le> fst m \<and> fst m < snd m \<and> snd m \<le> week"
      using b unfolding Cons .
    have "merged_ok (merge_spans x xs)"
      unfolding merged_ok_def using merge_spans_bounds [OF so b'] merge_spans_gaps [OF so b'] by simp
    moreover have "covers (merge_spans x xs) y = weekly_open s y" if "0 \<le> y" "y < week" for y
      using merge_spans_covers [OF so] c [OF that] Cons by simp
    ultimately show ?thesis using Cons by (intro disjI2 exI [of _ "merge_spans x xs"]) (simp add: mergedOccurrences_def sp_def)
  qed
qed

lemma merged_cycle:
  assumes "entries_ok s" "mergedOccurrences s \<noteq> []"
  shows "cycle_ok (sort_key oc_start (mergedOccurrences s))"
    "occ_open (sort_key oc_start (mergedOccurrences s)) x = weekly_open s x"
proof -
  from merged_spans [OF assms(1)] assms(2) obtain ms where ms: "mergedOccurrences s = circular_join ms"
    "merged_ok ms" "\<forall>y. 0 \<le> y \<and> y < week \<longrightarrow> covers ms y = weekly_open s y" by auto
  show "cycle_ok (sort_key oc_start (mergedOccurrences s))"
    using circular_join_cycle_ok [OF ms(2)] ms(1) by simp
  have "occ_open (sort_key oc_start (mergedOccurrences s)) x \<longleftrightarrow> occ_open (circular_join ms) (x mod week)"
    using ms(1) by (subst occ_open_mod) (simp add: occ_open_def)
  also have "\<dots> \<longleftrightarrow> weekly_open s (x mod week)"
    using circular_join_open [OF ms(2), of "x mod week"] ms(3) by (simp add: week_def)
  finally show "occ_open (sort_key oc_start (mergedOccurrences s)) x = weekly_open s x"
    using weekly_open_mod by blast
qed

text \<open>The test for a continuously open union finds exactly that.\<close>

lemma continuous_test:
  assumes "cycle_ok (sort_key oc_start occs)"
  shows "length occs = 1 \<and> week \<le> oc_length (hd occs) \<longleftrightarrow> full_week (sort_key oc_start occs)"
proof
  assume l: "length occs = 1 \<and> week \<le> oc_length (hd occs)"
  then obtain oc where oc: "occs = [oc]" by (cases occs) auto
  with assms l show "full_week (sort_key oc_start occs)" by (auto simp: cycle_ok_def oc_end_def)
next
  assume "full_week (sort_key oc_start occs)"
  then have "sort_key oc_start occs = [\<lparr>oc_start = 0, oc_length = week\<rparr>]" by (simp add: full_week_def)
  then have "length occs = 1" "set occs = {\<lparr>oc_start = 0, oc_length = week\<rparr>}"
    by (metis length_sort One_nat_def list.size(3,4) add_0, metis set_sort list.set(1,2))
  then show "length occs = 1 \<and> week \<le> oc_length (hd occs)" by (cases occs) auto
qed

lemma sort_map_key: "sort (map f xs) = map f (sort_key f xs)"
  by (metis mset_map mset_sort properties_for_sort sorted_sort_key)

lemma WorstCasePeriod_eq:
  assumes "cycle_ok (sort_key oc_start (mergedOccurrences s))"
  shows "WorstCasePeriod s =
    (if full_week (sort_key oc_start (mergedOccurrences s)) then Some continuousWindowPeriod
     else Some (period_of (sort_key oc_start (mergedOccurrences s))))"
proof -
  have "mergedOccurrences s \<noteq> []" using assms by (auto simp: cycle_ok_def)
  then have "WorstCasePeriod s =
      (if length (mergedOccurrences s) = 1 \<and> week \<le> oc_length (hd (mergedOccurrences s))
       then Some continuousWindowPeriod
       else Some (period_of (sort_key oc_start (mergedOccurrences s))))"
    unfolding WorstCasePeriod_def period_of_def sort_map_key
    by (cases "mergedOccurrences s") (simp_all add: Let_def)
  then show ?thesis unfolding continuous_test [OF assms] .
qed

lemma ShortestIdleGap_eq:
  assumes "cycle_ok (sort_key oc_start (mergedOccurrences s))"
  shows "ShortestIdleGap s =
    (if full_week (sort_key oc_start (mergedOccurrences s)) then None
     else Some (idle_of (sort_key oc_start (mergedOccurrences s))))"
proof -
  have "mergedOccurrences s \<noteq> []" using assms by (auto simp: cycle_ok_def)
  then have "ShortestIdleGap s =
      (if length (mergedOccurrences s) = 1 \<and> week \<le> oc_length (hd (mergedOccurrences s)) then None
       else Some (idle_of (sort_key oc_start (mergedOccurrences s))))"
    unfolding ShortestIdleGap_def idle_of_def oc_end_def
    by (cases "mergedOccurrences s") (simp_all add: Let_def)
  then show ?thesis unfolding continuous_test [OF assms] .
qed

lemma ShortestWindow_min:
  assumes "mergedOccurrences s \<noteq> []"
  obtains D where "ShortestWindow s = Some D" "\<forall>oc\<in>set (mergedOccurrences s). D \<le> oc_length oc"
    "\<exists>oc\<in>set (mergedOccurrences s). D = oc_length oc"
proof -
  have f: "(fold (\<lambda>x m. if oc_length x < m then oc_length x else m) xs m0 \<le> m0)
      \<and> (\<forall>x\<in>set xs. fold (\<lambda>x m. if oc_length x < m then oc_length x else m) xs m0 \<le> oc_length x)
      \<and> (fold (\<lambda>x m. if oc_length x < m then oc_length x else m) xs m0 = m0
         \<or> (\<exists>x\<in>set xs. fold (\<lambda>x m. if oc_length x < m then oc_length x else m) xs m0 = oc_length x))" for xs m0
  proof (induction xs arbitrary: m0)
    case (Cons y ys)
    show ?case using Cons.IH [of "if oc_length y < m0 then oc_length y else m0"] by (auto split: if_splits)
  qed simp
  obtain x xs where "mergedOccurrences s = x # xs" using assms by (cases "mergedOccurrences s") auto
  with f [of xs "oc_length x"] that show ?thesis by (auto simp: ShortestWindow_def)
qed

text \<open>
  The weekly schedule as a cycle of spans, and what holds on it: when it is not open all week, some
  opening follows within the period and two consecutive openings are a period apart.
\<close>

lemma never_open:
  assumes "entries_ok s" "mergedOccurrences s = []"
  shows "\<not> weekly_open s x"
  using assms merged_spans [OF assms(1)] by (auto simp: merged_ok_def circular_join_def split: if_splits)

lemma opening_within_period:
  assumes c: "cycle_ok os" and nf: "\<not> full_week os"
  shows "\<exists>y. x < y \<and> y \<le> x + period_of os \<and> is_opening (occ_open os) y"
proof -
  have ne: "os \<noteq> []" using c by (simp add: cycle_ok_def)
  obtain i where i: "S_at os i \<le> x" "x < S_at os (i + 1)" using cycle_bracket [OF c nf] by blast
  have "S_at os (i + 1) - S_at os i \<le> period_of os" using period_of_max [OF c] start_gap_at(1) [OF ne] by blast
  with i show ?thesis unfolding opening_iff [OF c nf] by (intro exI [of _ "S_at os (i + 1)"]) auto
qed

lemma openings_a_period_apart:
  assumes c: "cycle_ok os" and nf: "\<not> full_week os"
  shows "\<exists>y. is_opening (occ_open os) y \<and> is_opening (occ_open os) (y + period_of os)
    \<and> (\<forall>u. y < u \<and> u < y + period_of os \<longrightarrow> \<not> is_opening (occ_open os) u)"
proof -
  have ne: "os \<noteq> []" using c by (simp add: cycle_ok_def)
  obtain i where i: "period_of os = S_at os (i + 1) - S_at os i" using gap_realised(1) [OF ne] period_of_max [OF c] by blast
  have "\<not> is_opening (occ_open os) u" if "S_at os i < u" "u < S_at os (i + 1)" for u
  proof
    assume "is_opening (occ_open os) u"
    then obtain j where j: "u = S_at os j" unfolding opening_iff [OF c nf] by blast
    consider "j < i" | "j = i" | "j = i + 1" | "i + 1 < j" by linarith
    then show False
      using that j cycle_order [OF c nf, of j i] cycle_order [OF c nf, of "i + 1" j]
        S_less_E [OF c, of j] S_less_E [OF c, of "i + 1"] by cases auto
  qed
  then show ?thesis unfolding i by (intro exI [of _ "S_at os i"]) (auto simp: opening_iff [OF c nf])
qed

lemma not_always_open: "cycle_ok os \<Longrightarrow> \<not> full_week os \<Longrightarrow> \<not> (\<forall>x. occ_open os x)"
  using closed_between [OF _ _ order.refl E_less_S] by blast

lemma sometimes_open:
  assumes "cycle_ok os"
  shows "\<exists>x. occ_open os x"
proof -
  have "os \<noteq> []" using assms by (simp add: cycle_ok_def)
  from open_iff_at [OF this] S_less_E [OF assms] show ?thesis by blast
qed

text \<open>
  C19. P is the worst-case wait for an opening: on the weekly timeline of the union of all entries,
  every interval (x, x + P] contains an opening of the window, and some gap between openings is
  exactly P, so no smaller value would do. A union that never closes has a period of one minute,
  and no period is reported exactly when the schedule never opens.
\<close>

theorem worst_case_period_correct:
  assumes "entries_ok s"
  shows "(WorstCasePeriod s = None \<longleftrightarrow> (\<forall>x. \<not> weekly_open s x))
    \<and> (\<forall>P. WorstCasePeriod s = Some P \<longrightarrow>
        0 < P
        \<and> ((\<forall>x. weekly_open s x) \<longrightarrow> P = Minute)
        \<and> (\<not> (\<forall>x. weekly_open s x) \<longrightarrow>
             (\<forall>x. \<exists>y. x < y \<and> y \<le> x + P \<and> is_opening (weekly_open s) y)
             \<and> (\<exists>y. is_opening (weekly_open s) y \<and> is_opening (weekly_open s) (y + P)
                  \<and> (\<forall>u. y < u \<and> u < y + P \<longrightarrow> \<not> is_opening (weekly_open s) u))))"
proof (cases "mergedOccurrences s = []")
  case True
  with never_open [OF assms] show ?thesis by (simp add: WorstCasePeriod_def)
next
  case False
  define os where "os = sort_key oc_start (mergedOccurrences s)"
  note c = merged_cycle [OF assms False, folded os_def]
  have w: "weekly_open s = occ_open os" using c(2) by blast
  show ?thesis
  proof (cases "full_week os")
    case True
    then have "WorstCasePeriod s = Some Minute" "\<forall>x. weekly_open s x"
      using WorstCasePeriod_eq c(1) full_week_open unfolding w by (simp_all add: os_def continuousWindowPeriod_def)
    then show ?thesis by simp
  next
    case nf: False
    have P: "WorstCasePeriod s = Some (period_of os)" using WorstCasePeriod_eq c(1) nf by (simp add: os_def)
    show ?thesis
      unfolding P w using opening_within_period [OF c(1) nf] openings_a_period_apart [OF c(1) nf]
        not_always_open [OF c(1) nf] sometimes_open [OF c(1)] period_of_max [OF c(1)] by (simp, blast)
  qed
qed

definition demo_twice :: Schedule where
  "demo_twice = [\<lparr>e_Loc = UTC, e_Days = [1, 4], e_StartMin = 600, e_EndMin = 720\<rparr>]"

lemma demo_twice_values:
  "WorstCasePeriod demo_twice = Some (96 * Hour) \<and> ShortestWindow demo_twice = Some (2 * Hour)
   \<and> ShortestIdleGap demo_twice = Some (70 * Hour)"
  by code_simp

lemma demo_twice_ok: "entries_ok demo_twice"
  by (simp add: entries_ok_def demo_twice_def entry_length_def week_def)

lemma demo_twice_closed: "\<not> weekly_open demo_twice 0"
proof -
  have o: "startOffset \<lparr>e_Loc = UTC, e_Days = [1, 4], e_StartMin = 600, e_EndMin = 720\<rparr> 1 = 10 * Hour"
    "startOffset \<lparr>e_Loc = UTC, e_Days = [1, 4], e_StartMin = 600, e_EndMin = 720\<rparr> 4 = 82 * Hour"
    by code_simp+
  show ?thesis by (auto simp: weekly_open_def demo_twice_def o entry_length_def week_def)
qed

theorem worst_case_period_correct_witness:
  "\<exists>y. 0 < y \<and> y \<le> 96 * Hour \<and> is_opening (weekly_open demo_twice) y"
  using worst_case_period_correct [OF demo_twice_ok] demo_twice_values demo_twice_closed
  by (metis add_0)

text \<open>Around an opening the schedule stays open for the shortest window and was closed for the shortest gap.\<close>

lemma span_length: "E_at os i - S_at os i = oc_length (oc_at os i)"
  by (simp add: S_at_def E_at_def oc_end_def)

lemma open_for_shortest:
  assumes "cycle_ok os" "\<forall>oc\<in>set os. D \<le> oc_length oc" "S_at os i \<le> u" "u < S_at os i + D"
  shows "occ_open os u"
proof -
  have ne: "os \<noteq> []" using assms(1) by (simp add: cycle_ok_def)
  show ?thesis
    unfolding open_iff_at [OF ne] using assms(2-4) span_length [of os i] oc_at_mem [OF ne, of i]
    by (intro exI [of _ i]) fastforce
qed

lemma closed_for_shortest:
  assumes c: "cycle_ok os" and nf: "\<not> full_week os" and "S_at os i - idle_of os \<le> u" "u < S_at os i"
  shows "\<not> occ_open os u"
proof -
  have ne: "os \<noteq> []" using c by (simp add: cycle_ok_def)
  have "S_at os (i - 1 + 1) - E_at os (i - 1) \<in> closed_gaps os" by (rule start_gap_at(2) [OF ne])
  then have "idle_of os \<le> S_at os i - E_at os (i - 1)" using idle_of_min [OF c nf] by auto
  with assms(3,4) show ?thesis by (intro closed_between [OF c nf, of "i - 1"]) auto
qed

lemma shortest_window_ends:
  assumes c: "cycle_ok os" and nf: "\<not> full_week os" and D: "\<exists>oc\<in>set os. D = oc_length oc"
  shows "\<exists>y. is_opening (occ_open os) y \<and> \<not> occ_open os (y + D)"
proof -
  obtain j where j: "j < length os" "D = oc_length (os ! j)" using D by (auto simp: in_set_conv_nth)
  then have "oc_at os (int j) = os ! j" by (simp add: oc_at_def)
  then have e: "S_at os (int j) + D = E_at os (int j)" using span_length [of os "int j"] j(2) by simp
  have "\<not> occ_open os (E_at os (int j))"
    using E_less_S [OF c nf] by (intro closed_between [OF c nf order.refl])
  with e opening_iff [OF c nf] show ?thesis by (intro exI [of _ "S_at os (int j)"]) auto
qed

lemma shortest_gap_begins:
  assumes c: "cycle_ok os" and nf: "\<not> full_week os"
  shows "\<exists>y. is_opening (occ_open os) y \<and> occ_open os (y - idle_of os - 1)"
proof -
  have ne: "os \<noteq> []" using c by (simp add: cycle_ok_def)
  obtain i where i: "idle_of os = S_at os (i + 1) - E_at os i" using gap_realised(2) [OF ne] idle_of_min [OF c nf] by blast
  have "occ_open os (E_at os i - 1)"
    unfolding open_iff_at [OF ne] using S_less_E [OF c, of i] by (intro exI [of _ i]) simp
  then show ?thesis using opening_iff [OF c nf] by (intro exI [of _ "S_at os (i + 1)"]) (auto simp: i)
qed

text \<open>
  C20. D and the idle gap are the shortest open and closed stretches of the union: from every opening
  the window stays open for at least D, and before every opening it was closed for at least the
  idle gap; both are attained, so neither is an under-estimate. The idle gap is undefined exactly
  when the window never closes or never opens.
\<close>

theorem shortest_stretches_correct:
  assumes "entries_ok s"
  shows "(ShortestIdleGap s = None \<longleftrightarrow> (\<forall>x. weekly_open s x) \<or> (\<forall>x. \<not> weekly_open s x))
    \<and> (\<forall>D g. ShortestWindow s = Some D \<and> ShortestIdleGap s = Some g \<longrightarrow>
        0 < D \<and> 0 < g
        \<and> (\<forall>y. is_opening (weekly_open s) y \<longrightarrow>
             (\<forall>u. y \<le> u \<and> u < y + D \<longrightarrow> weekly_open s u) \<and> (\<forall>u. y - g \<le> u \<and> u < y \<longrightarrow> \<not> weekly_open s u))
        \<and> (\<exists>y. is_opening (weekly_open s) y \<and> \<not> weekly_open s (y + D))
        \<and> (\<exists>y. is_opening (weekly_open s) y \<and> weekly_open s (y - g - 1)))"
proof (cases "mergedOccurrences s = []")
  case True
  with never_open [OF assms] show ?thesis by (simp add: ShortestIdleGap_def ShortestWindow_def)
next
  case False
  define os where "os = sort_key oc_start (mergedOccurrences s)"
  note c = merged_cycle [OF assms False, folded os_def]
  have w: "weekly_open s = occ_open os" using c(2) by blast
  have g: "ShortestIdleGap s = (if full_week os then None else Some (idle_of os))"
    using ShortestIdleGap_eq c(1) by (simp add: os_def)
  show ?thesis
  proof (cases "full_week os")
    case True
    then show ?thesis using g full_week_open unfolding w by simp
  next
    case nf: False
    obtain D where D: "ShortestWindow s = Some D" "\<forall>oc\<in>set os. D \<le> oc_length oc" "\<exists>oc\<in>set os. D = oc_length oc"
      using ShortestWindow_min [OF False] unfolding os_def set_sort by blast
    have D0: "0 < D" using D(3) c(1) by (auto simp: cycle_ok_def)
    note op = opening_iff [OF c(1) nf]
    note around = open_for_shortest [OF c(1) D(2)] closed_for_shortest [OF c(1) nf]
    note ends = shortest_window_ends [OF c(1) nf D(3)] shortest_gap_begins [OF c(1) nf]
    show ?thesis
      using g nf D(1) D0 idle_of_min [OF c(1) nf] not_always_open [OF c(1) nf] sometimes_open [OF c(1)] around ends op
      unfolding w by auto
  qed
qed

theorem shortest_stretches_correct_witness:
  "\<exists>y. is_opening (weekly_open demo_twice) y \<and> weekly_open demo_twice (y + 2 * Hour - 1)
     \<and> \<not> weekly_open demo_twice (y - 70 * Hour)"
proof -
  note v = shortest_stretches_correct [OF demo_twice_ok] demo_twice_values
  from v obtain y where y: "is_opening (weekly_open demo_twice) y" by auto
  from v have "\<forall>u. y \<le> u \<and> u < y + 2 * Hour \<longrightarrow> weekly_open demo_twice u"
    "\<forall>u. y - 70 * Hour \<le> u \<and> u < y \<longrightarrow> \<not> weekly_open demo_twice u"
    using y by auto
  with y show ?thesis by (intro exI [of _ y]) auto
qed

section \<open>Properties: building a schedule\<close>

lemma parse_days_ok:
  "\<forall>d\<in>set ds. ParseWeekday d \<noteq> None \<Longrightarrow> parse_days i ds = Inr (map (\<lambda>d. the (ParseWeekday d)) ds)"
  by (induction ds) auto

lemma new_entry_ok:
  assumes "window_ok loadLocation w"
  obtains loc st en where "loadLocation (mw_Timezone w) = Some loc" "ParseHHMM (mw_Start w) = Inr st"
    "ParseHHMM (mw_End w) = Inr en" "st < en"
    "new_entry loadLocation i w = Inr \<lparr>e_Loc = loc, e_Days = map (\<lambda>d. the (ParseWeekday d)) (mw_Days w),
       e_StartMin = st, e_EndMin = en\<rparr>"
  using assms parse_days_ok unfolding window_ok_def new_entry_def by auto

lemma valid_windows_build:
  assumes "Validate loadLocation p = []"
  shows "\<exists>s. New loadLocation (p_MaintenanceWindows p) = Inr s
    \<and> length s = length (p_MaintenanceWindows p) \<and> entries_ok s
    \<and> (\<forall>e\<in>set s. e_Days e \<noteq> [] \<and> set (e_Days e) \<subseteq> {0..6} \<and> 0 \<le> e_StartMin e \<and> e_EndMin e < 1440)
    \<and> (\<exists>x. weekly_open s x)"
proof -
  have ok: "\<forall>w\<in>set (p_MaintenanceWindows p). window_ok loadLocation w" "p_MaintenanceWindows p \<noteq> []"
    using assms by (auto simp: Validate_Nil policy_ok_def Let_def)
  have one: "\<exists>e. new_entry loadLocation i w = Inr e \<and> e_Days e \<noteq> [] \<and> set (e_Days e) \<subseteq> {0..6}
      \<and> 0 \<le> e_StartMin e \<and> e_EndMin e < 1440 \<and> 0 < entry_length e \<and> entry_length e \<le> week"
    if w: "window_ok loadLocation w" for i w
  proof -
    obtain loc st en where e: "loadLocation (mw_Timezone w) = Some loc" "ParseHHMM (mw_Start w) = Inr st"
      "ParseHHMM (mw_End w) = Inr en" "st < en"
      "new_entry loadLocation i w = Inr \<lparr>e_Loc = loc, e_Days = map (\<lambda>d. the (ParseWeekday d)) (mw_Days w),
         e_StartMin = st, e_EndMin = en\<rparr>"
      using new_entry_ok [OF w, of i] by blast
    have "\<forall>d\<in>set (mw_Days w). the (ParseWeekday d) \<in> {0..6}"
      using that ParseWeekday_range by (fastforce simp: window_ok_def)
    with e that ParseHHMM_range [OF e(2)] ParseHHMM_range [OF e(3)] show ?thesis
      by (auto simp: window_ok_def entry_length_def week_def)
  qed
  have all: "\<forall>w\<in>set ws. window_ok loadLocation w \<Longrightarrow> \<exists>s. new_entries loadLocation i ws = Inr s
      \<and> length s = length ws \<and> entries_ok s
      \<and> (\<forall>e\<in>set s. e_Days e \<noteq> [] \<and> set (e_Days e) \<subseteq> {0..6} \<and> 0 \<le> e_StartMin e \<and> e_EndMin e < 1440)" for i ws
  proof (induction ws arbitrary: i)
    case Nil
    then show ?case by (simp add: entries_ok_def)
  next
    case (Cons w ws)
    from Cons.prems one [of w i] Cons.IH [of "Suc i"] show ?case
      by (clarsimp simp: entries_ok_def)
  qed
  from all [OF ok(1), of 0] obtain s where s: "New loadLocation (p_MaintenanceWindows p) = Inr s"
    "length s = length (p_MaintenanceWindows p)" "entries_ok s"
    "\<forall>e\<in>set s. e_Days e \<noteq> [] \<and> set (e_Days e) \<subseteq> {0..6} \<and> 0 \<le> e_StartMin e \<and> e_EndMin e < 1440"
    by (auto simp: New_def)
  then obtain e where e: "e \<in> set s" using ok(2) by (cases s) auto
  with s(4) obtain d where d: "d \<in> set (e_Days e)" by (cases "e_Days e") auto
  have "weekly_open s (startOffset e d)"
    unfolding weekly_open_def using e d s(3)
    by (intro bexI [of _ e] bexI [of _ d] exI [of _ 0]) (auto simp: entries_ok_def)
  with s show ?thesis by blast
qed

text \<open>
  C21. A policy that passes validation always yields a schedule: \<open>New\<close> cannot fail on its windows.
  There is one entry per window, each with known weekdays, at least one of them, and a daily interval
  of positive length within a day, so every fact about the weekly projection applies, and the
  schedule opens at some time.
\<close>

theorem validated_policy_builds:
  assumes "Validate loadLocation p = []"
  shows "\<exists>s. New loadLocation (p_MaintenanceWindows p) = Inr s
    \<and> length s = length (p_MaintenanceWindows p) \<and> entries_ok s
    \<and> (\<forall>e\<in>set s. e_Days e \<noteq> [] \<and> set (e_Days e) \<subseteq> {0..6} \<and> 0 \<le> e_StartMin e \<and> e_EndMin e < 1440)
    \<and> (\<exists>x. weekly_open s x)"
  by (rule valid_windows_build [OF assms])

definition demo_locations :: "string \<Rightarrow> Location option" where
  "demo_locations name = (if name = ''UTC'' then Some UTC else None)"

theorem validated_policy_builds_witness:
  "\<exists>s. New demo_locations (p_MaintenanceWindows demo_policy) = Inr s \<and> length s = 1"
proof -
  have "window_ok demo_locations \<lparr>mw_Timezone = ''UTC'', mw_Days = [''Mon'', ''sun''],
      mw_Start = ''01:00'', mw_End = ''05:30''\<rparr>"
    by (simp add: window_ok_def demo_locations_def eval_simps)
  then have "Validate demo_locations demo_policy = []"
    by (simp add: Validate_Nil policy_ok_def demo_policy_def ApplyDefaults_def Let_def or_default_def
        demo_spec_def toSurge_def toWindows_def toWindow_def AgeThresholdOverride_def)
  moreover have "length (p_MaintenanceWindows demo_policy) = 1"
    by (simp add: demo_policy_def ApplyDefaults_def demo_spec_def toWindows_def Let_def)
  ultimately show ?thesis using validated_policy_builds [of demo_locations demo_policy] by auto
qed

end
