(* ===== verification/Client.thy ===== *)
theory Client
  imports Resolve Placeholder NodeOps Decide Schedule Window
begin

text \<open>
  The programs the reconcilers are: calls to the API server, readings of the clock, and emissions,
  sequenced with early return on error. The API server is not part of the repository. It is the
  parameter \<open>Api\<close>: one answer function per kind of call, which may answer every call
  differently (the first argument is the number of calls made so far). So a read may lag the
  server or fail, a write may conflict, and other writers may act between any two calls. What a
  proof needs of the server is a hypothesis on the calls recorded in the trace.

  A program maps the number of calls made to its result, the new number of calls, and its trace:
  the calls with their answers and the emissions, in order.
\<close>

section \<open>Calls and emissions\<close>

datatype ApiError = IsNotFound | IsConflict | IsAlreadyExists | OtherError string | ReentryExhausted

record Api =
  api_now :: "nat \<Rightarrow> time"
  api_GetPool :: "nat \<Rightarrow> string \<Rightarrow> ApiError + NodePool"
  api_GetClaim :: "nat \<Rightarrow> string \<Rightarrow> ApiError + NodeClaim"
  api_GetNode :: "nat \<Rightarrow> string \<Rightarrow> ApiError + Node"
  api_GetPod :: "nat \<Rightarrow> string \<times> string \<Rightarrow> ApiError + Pod"
  api_ListPolicies :: "nat \<Rightarrow> ApiError + RotationPolicy list"
  api_ListPools :: "nat \<Rightarrow> ApiError + NodePool list"
  api_ListClaims :: "nat \<Rightarrow> string option \<Rightarrow> ApiError + NodeClaim list"
  api_ListNodes :: "nat \<Rightarrow> string option \<Rightarrow> ApiError + Node list"
  api_ListPods :: "nat \<Rightarrow> string option \<Rightarrow> ApiError + Pod list"
  api_UpdatePool :: "nat \<Rightarrow> NodePool \<Rightarrow> ApiError + NodePool"
  api_UpdateClaim :: "nat \<Rightarrow> NodeClaim \<Rightarrow> ApiError + NodeClaim"
  api_UpdateNode :: "nat \<Rightarrow> Node \<Rightarrow> ApiError + Node"
  api_DeleteClaim :: "nat \<Rightarrow> string \<Rightarrow> ApiError + unit"
  api_DeletePod :: "nat \<Rightarrow> string \<times> string \<Rightarrow> string option \<Rightarrow> ApiError + unit"
  api_CreatePod :: "nat \<Rightarrow> Pod \<Rightarrow> ApiError + Pod"

text \<open>The gauges of one NodePool (\<open>recorder.go\<close>).\<close>

record PoolObservation =
  po_Candidates :: nat
  po_InBackoff :: nat
  po_InProgress :: nat
  po_FreezeUntil :: time
  po_AgeThreshold :: duration
  po_RotationChances :: int
  po_WindowPeriod :: duration
  po_ShortLeadNodes :: nat
  po_DrainStuck :: bool
  po_RetryCount :: int
  po_ThroughputCapacity :: int
  po_TRotEstimate :: duration
  po_TRotBound :: duration

datatype Phase = PhaseSurgeWait | PhaseDrain

text \<open>Why a policy cannot govern (the detail of the conflict event).\<close>

datatype ConflictDetail =
    TiedPolicies "string list"
  | InvalidPolicy string "PolicyError list"
  | UnbuildableSchedule string WindowError

text \<open>
  What the controller emits: the calls of the \<open>Recorder\<close> interface, the Kubernetes Events
  raised inline, and the calls of the warning emitter, which deduplicates.
\<close>

datatype Emission =
    Success string
  | Expired string string
  | Failure string string
  | ForcefulFallback string string
  | MissedWindow string
  | ObservePool string PoolObservation
  | ObserveWindow string bool
  | ObservePolicyConflict string bool
  | ObserveDuration string Phase duration
  | ForgetPool string
  | EventRotationStarted string string
  | EventRotationCompleted string string string
  | EventRotationFailed string string duration int time
  | EventForcefulFallback string string
  | EventGovernanceLost string string
  | EventSurgeClampRefused string string
  | EventSurgeClamped string ResourceList ResourceList
  | EventSurgeClampBandExceeded string string ResourceList
  | EmitFindings NodePool "Finding list"
  | EmitShortLead NodePool "NodeClaim list" LeadTime
  | EmitConflict NodePool ConflictDetail
  | EmitNoCandidate NodePool Gate
  | EmitNoCandidateCensus NodePool Census
  | EmitStaticNodePool NodePool
  | EmitHeadroomBlocked NodePool NodeClaim HeadroomResult ClampResult
  | EmitPlaceholderPending string NodeClaim Pod
  | EmitWindowMissed NodePool string Census
  | ClearNoCandidate string
  | ClearStaticNodePool string
  | ClearHeadroomBlocked string
  | ClearPlaceholderPending string string
  | ClearConflict string
  | Forget string

datatype Effect =
    ReadClock time
  | CallGetPool string "ApiError + NodePool"
  | CallGetClaim string "ApiError + NodeClaim"
  | CallGetNode string "ApiError + Node"
  | CallGetPod "string \<times> string" "ApiError + Pod"
  | CallListPolicies "ApiError + RotationPolicy list"
  | CallListPools "ApiError + NodePool list"
  | CallListClaims "string option" "ApiError + NodeClaim list"
  | CallListNodes "string option" "ApiError + Node list"
  | CallListPods "string option" "ApiError + Pod list"
  | CallUpdatePool NodePool "ApiError + NodePool"
  | CallUpdateClaim NodeClaim "ApiError + NodeClaim"
  | CallUpdateNode Node "ApiError + Node"
  | CallDeleteClaim string "ApiError + unit"
  | CallDeletePod "string \<times> string" "string option" "ApiError + unit"
  | CallCreatePod Pod "ApiError + Pod"
  | Note Emission

section \<open>Programs\<close>

type_synonym 'a M = "nat \<Rightarrow> (ApiError + 'a) \<times> nat \<times> Effect list"

definition ret :: "'a \<Rightarrow> 'a M" where
  "ret x = (\<lambda>k. (Inr x, k, []))"

definition fail :: "ApiError \<Rightarrow> 'a M" where
  "fail e = (\<lambda>k. (Inl e, k, []))"

text \<open>\<open>bindR\<close> continues with the result, error or not; \<open>andThen\<close> returns early on an error.\<close>

definition bindR :: "'a M \<Rightarrow> (ApiError + 'a \<Rightarrow> 'b M) \<Rightarrow> 'b M" where
  "bindR m f =
     (\<lambda>k. case m k of (r, k1, t1) \<Rightarrow> (case f r k1 of (r2, k2, t2) \<Rightarrow> (r2, k2, t1 @ t2)))"

definition andThen :: "'a M \<Rightarrow> ('a \<Rightarrow> 'b M) \<Rightarrow> 'b M" where
  "andThen m f = bindR m (\<lambda>r. case r of Inl e \<Rightarrow> fail e | Inr x \<Rightarrow> f x)"

definition emit :: "Emission \<Rightarrow> unit M" where
  "emit e = (\<lambda>k. (Inr (), k, [Note e]))"

definition emitIf :: "bool \<Rightarrow> Emission \<Rightarrow> unit M" where
  "emitIf b e = (if b then emit e else ret ())"

text \<open>One call: the answer is the one the parameter gives at this point.\<close>

definition call :: "(nat \<Rightarrow> ApiError + 'a) \<Rightarrow> (ApiError + 'a \<Rightarrow> Effect) \<Rightarrow> 'a M" where
  "call answer eff = (\<lambda>k. (answer k, Suc k, [eff (answer k)]))"

definition ignoreNotFound :: "unit M \<Rightarrow> unit M" where
  "ignoreNotFound m =
     bindR m (\<lambda>r. case r of Inl e \<Rightarrow> (if e = IsNotFound then ret () else fail e) | Inr x \<Rightarrow> ret x)"

text \<open>\<open>for i := range xs\<close> with an early return on error.\<close>

fun each :: "('a \<Rightarrow> unit M) \<Rightarrow> 'a list \<Rightarrow> unit M" where
  "each f [] = ret ()"
| "each f (x # xs) = andThen (f x) (\<lambda>_. each f xs)"

text \<open>
  \<open>retry.RetryOnConflict\<close>: run the attempt again while it fails with a conflict, for a bounded
  number of attempts (5 for \<open>retry.DefaultRetry\<close>; the bound is a parameter here). The last
  conflict is returned when the attempts are used up.
\<close>

fun retryOnConflict :: "nat \<Rightarrow> 'a M \<Rightarrow> 'a M" where
  "retryOnConflict 0 fn = fail IsConflict"
| "retryOnConflict (Suc n) fn =
     bindR fn (\<lambda>r. case r of
        Inl e \<Rightarrow> (if e = IsConflict then retryOnConflict n fn else fail e)
      | Inr x \<Rightarrow> ret x)"

definition result :: "'a M \<Rightarrow> nat \<Rightarrow> ApiError + 'a" where
  "result m k = fst (m k)"

definition nextk :: "'a M \<Rightarrow> nat \<Rightarrow> nat" where
  "nextk m k = fst (snd (m k))"

definition effects :: "'a M \<Rightarrow> nat \<Rightarrow> Effect list" where
  "effects m k = snd (snd (m k))"

section \<open>Laws of sequencing\<close>

lemma run_ret [simp]:
  "result (ret x) k = Inr x" "nextk (ret x) k = k" "effects (ret x) k = []"
  by (simp_all add: ret_def result_def nextk_def effects_def)

lemma run_fail [simp]:
  "result (fail e) k = Inl e" "nextk (fail e) k = k" "effects (fail e) k = []"
  by (simp_all add: fail_def result_def nextk_def effects_def)

lemma run_emit [simp]:
  "result (emit e) k = Inr ()" "nextk (emit e) k = k" "effects (emit e) k = [Note e]"
  by (simp_all add: emit_def result_def nextk_def effects_def)

lemma run_emitIf [simp]:
  "result (emitIf b e) k = Inr ()" "nextk (emitIf b e) k = k"
  "effects (emitIf b e) k = (if b then [Note e] else [])"
  by (simp_all add: emitIf_def)

lemma run_call [simp]:
  "result (call a f) k = a k" "nextk (call a f) k = Suc k" "effects (call a f) k = [f (a k)]"
  by (simp_all add: call_def result_def nextk_def effects_def)

lemma run_bindR [simp]:
  "result (bindR m f) k = result (f (result m k)) (nextk m k)"
  "nextk (bindR m f) k = nextk (f (result m k)) (nextk m k)"
  "effects (bindR m f) k = effects m k @ effects (f (result m k)) (nextk m k)"
  by (simp_all add: bindR_def result_def nextk_def effects_def split: prod.splits)

lemma run_andThen:
  "result (andThen m f) k =
     (case result m k of Inl e \<Rightarrow> Inl e | Inr x \<Rightarrow> result (f x) (nextk m k))"
  "nextk (andThen m f) k =
     (case result m k of Inl e \<Rightarrow> nextk m k | Inr x \<Rightarrow> nextk (f x) (nextk m k))"
  "effects (andThen m f) k =
     effects m k @ (case result m k of Inl e \<Rightarrow> [] | Inr x \<Rightarrow> effects (f x) (nextk m k))"
  by (simp_all add: andThen_def split: sum.splits)

lemma andThen_Inr:
  "result m k = Inr x \<Longrightarrow> result (andThen m f) k = result (f x) (nextk m k)"
  "result m k = Inr x \<Longrightarrow> nextk (andThen m f) k = nextk (f x) (nextk m k)"
  "result m k = Inr x \<Longrightarrow> effects (andThen m f) k = effects m k @ effects (f x) (nextk m k)"
  by (simp_all add: run_andThen)

lemma andThen_Inl:
  "result m k = Inl e \<Longrightarrow> result (andThen m f) k = Inl e"
  "result m k = Inl e \<Longrightarrow> nextk (andThen m f) k = nextk m k"
  "result m k = Inl e \<Longrightarrow> effects (andThen m f) k = effects m k"
  by (simp_all add: run_andThen)

lemma andThen_InrE:
  assumes "result (andThen m f) k = Inr y"
  obtains x where "result m k = Inr x" "result (f x) (nextk m k) = Inr y"
  using assms by (auto simp: run_andThen split: sum.splits)

lemma run_eq: "m k = (result m k, nextk m k, effects m k)"
  by (simp add: result_def nextk_def effects_def)

lemma program_eqI:
  "(\<And>k. result m k = result n k) \<Longrightarrow> (\<And>k. nextk m k = nextk n k) \<Longrightarrow> (\<And>k. effects m k = effects n k) \<Longrightarrow> m = n"
  by (rule ext) (simp add: run_eq [of m] run_eq [of n])

lemma andThen_assoc: "andThen (andThen m f) g = andThen m (\<lambda>x. andThen (f x) g)"
  by (rule program_eqI) (simp_all add: run_andThen split: sum.splits)

lemma andThen_ret [simp]: "andThen (ret x) f = f x" "andThen m ret = m"
  by (rule program_eqI; simp add: run_andThen split: sum.splits)+

lemma andThen_fail [simp]: "andThen (fail e) f = fail e"
  by (rule program_eqI; simp add: run_andThen)

section \<open>Judging a trace\<close>

text \<open>
  \<open>judged J pre t\<close>: each effect of \<open>t\<close> is acceptable to \<open>J\<close> given what happened
  before it, \<open>pre\<close> included. Where \<open>J\<close> accepts an effect on the evidence of a trace, it
  accepts it when more happened before; then acceptability composes along a program.
\<close>

fun judged :: "(Effect list \<Rightarrow> Effect \<Rightarrow> bool) \<Rightarrow> Effect list \<Rightarrow> Effect list \<Rightarrow> bool" where
  "judged J pre [] = True"
| "judged J pre (e # es) = (J pre e \<and> judged J (pre @ [e]) es)"

lemma judged_append [simp]: "judged J pre (s @ t) \<longleftrightarrow> judged J pre s \<and> judged J (pre @ s) t"
  by (induction s arbitrary: pre) simp_all

lemma judged_iff_nth: "judged J pre t \<longleftrightarrow> (\<forall>i<length t. J (pre @ take i t) (t ! i))"
proof (induction t arbitrary: pre)
  case (Cons e es)
  have "(\<forall>i<length (e # es). J (pre @ take i (e # es)) ((e # es) ! i)) \<longleftrightarrow>
      J pre e \<and> (\<forall>i<length es. J ((pre @ [e]) @ take i es) (es ! i))"
    by (auto simp: less_Suc_eq_0_disj)
  then show ?case using Cons.IH by simp
qed simp

definition safe :: "(Effect list \<Rightarrow> Effect \<Rightarrow> bool) \<Rightarrow> Effect list \<Rightarrow> 'a M \<Rightarrow> bool" where
  "safe J pre m \<longleftrightarrow> (\<forall>k. judged J pre (effects m k))"

locale effect_judgement =
  fixes J :: "Effect list \<Rightarrow> Effect \<Rightarrow> bool"
  assumes more_before: "J t e \<Longrightarrow> J (s @ t) e"
begin

lemma judged_more: "judged J t es \<Longrightarrow> judged J (s @ t) es"
  by (induction es arbitrary: t) (auto intro: more_before)

lemma safe_more: "safe J [] m \<Longrightarrow> safe J pre m"
  unfolding safe_def using judged_more [of "[]" _ pre] by simp

lemma safe_ret: "safe J pre (ret x)"
  by (simp add: safe_def)

lemma safe_fail: "safe J pre (fail e)"
  by (simp add: safe_def)

lemma safe_emit: "J pre (Note e) \<Longrightarrow> safe J pre (emit e)"
  by (simp add: safe_def)

lemma safe_emitIf: "J pre (Note e) \<Longrightarrow> safe J pre (emitIf b e)"
  by (simp add: safe_def)

lemma safe_call: "(\<And>a. J pre (f a)) \<Longrightarrow> safe J pre (call g f)"
  by (simp add: safe_def)

text \<open>What follows a program may use what the program did.\<close>

lemma safe_bindR:
  assumes "safe J pre m" "\<And>k. safe J (pre @ effects m k) (f (result m k))"
  shows "safe J pre (bindR m f)"
  using assms by (simp add: safe_def)

lemma safe_andThen:
  assumes "safe J pre m" "\<And>k x. result m k = Inr x \<Longrightarrow> safe J (pre @ effects m k) (f x)"
  shows "safe J pre (andThen m f)"
  unfolding andThen_def
  by (rule safe_bindR [OF assms(1)]) (auto simp: safe_fail assms(2) split: sum.splits)

lemma safe_andThen0:
  assumes "safe J [] m" "\<And>x. safe J [] (f x)"
  shows "safe J [] (andThen m f)"
  by (rule safe_andThen [OF assms(1)]) (rule safe_more [OF assms(2)])

lemma safe_bindR0:
  assumes "safe J [] m" "\<And>r. safe J [] (f r)"
  shows "safe J [] (bindR m f)"
  by (rule safe_bindR [OF assms(1)]) (rule safe_more [OF assms(2)])

lemma safe_ignoreNotFound: "safe J pre m \<Longrightarrow> safe J pre (ignoreNotFound m)"
  unfolding ignoreNotFound_def
  by (rule safe_bindR) (auto simp: safe_ret safe_fail split: sum.splits)

lemma safe_each: "(\<And>x. x \<in> set xs \<Longrightarrow> safe J [] (f x)) \<Longrightarrow> safe J [] (each f xs)"
  by (induction xs) (auto simp: safe_ret intro: safe_andThen0)

lemma safe_retry: "safe J [] fn \<Longrightarrow> safe J [] (retryOnConflict n fn)"
  by (induction n) (auto simp: safe_ret safe_fail intro!: safe_bindR0 split: sum.splits)

end

text \<open>
  Where acceptability depends only on which effects happened before, evidence may be gathered in
  any order and is never lost.
\<close>

locale evidence_judgement =
  fixes J :: "Effect list \<Rightarrow> Effect \<Rightarrow> bool"
  assumes more_evidence: "set t \<subseteq> set u \<Longrightarrow> J t e \<Longrightarrow> J u e"
begin

lemma judged_mono: "judged J t es \<Longrightarrow> set t \<subseteq> set u \<Longrightarrow> judged J u es"
proof (induction es arbitrary: t u)
  case (Cons e es)
  then have "set (t @ [e]) \<subseteq> set (u @ [e])" by auto
  with Cons show ?case by (auto intro: more_evidence)
qed simp

lemma safe_mono: "safe J pre m \<Longrightarrow> set pre \<subseteq> set pre' \<Longrightarrow> safe J pre' m"
  unfolding safe_def using judged_mono by blast

end

sublocale evidence_judgement \<subseteq> effect_judgement
  by unfold_locales (erule more_evidence [rotated], simp)

context evidence_judgement
begin

lemma safe_keep:
  assumes "safe J [] m" "\<And>x. safe J pre (f x)"
  shows "safe J pre (andThen m f)"
  by (rule safe_andThen [OF safe_more [OF assms(1)]]) (rule safe_mono [OF assms(2)], simp)

lemma safe_learn:
  assumes "safe J [] m" "\<And>k x. result m k = Inr x \<Longrightarrow> safe J (effects m k @ pre) (f x)"
  shows "safe J pre (andThen m f)"
  by (rule safe_andThen [OF safe_more [OF assms(1)]]) (rule safe_mono [OF assms(2)], auto)

lemma safe_learnR:
  assumes "safe J [] m" "\<And>k. safe J (effects m k @ pre) (f (result m k))"
  shows "safe J pre (bindR m f)"
  by (rule safe_bindR [OF safe_more [OF assms(1)]]) (rule safe_mono [OF assms(2)], auto)

lemma safe_retry_pre: "safe J pre fn \<Longrightarrow> safe J pre (retryOnConflict n fn)"
proof (induction n)
  case (Suc n)
  then have "safe J (pre @ effects fn k) (retryOnConflict n fn)" for k by (auto intro: safe_mono)
  with Suc.prems show ?case by (auto intro!: safe_bindR simp: safe_ret safe_fail split: sum.splits)
qed (simp add: safe_fail)

lemma safe_keep_pre:
  assumes "safe J pre m" "\<And>x. safe J pre (f x)"
  shows "safe J pre (andThen m f)"
  by (rule safe_andThen [OF assms(1)]) (rule safe_mono [OF assms(2)], simp)

end

text \<open>The last attempt of a retry loop decides; the attempts before it ended in a conflict.\<close>

lemma retry_result:
  assumes "result (retryOnConflict n fn) k = Inr y"
  shows "\<exists>k' before. result fn k' = Inr y \<and> effects (retryOnConflict n fn) k = before @ effects fn k'
    \<and> (\<forall>e\<in>set before. \<exists>j. e \<in> set (effects fn j) \<and> result fn j = Inl IsConflict)"
  using assms
proof (induction n arbitrary: k)
  case (Suc n)
  show ?case
  proof (cases "result fn k")
    case (Inr x)
    with Suc.prems show ?thesis by (intro exI [of _ k] exI [of _ "[]"]) simp
  next
    case (Inl e)
    with Suc.prems have e: "e = IsConflict" and r: "result (retryOnConflict n fn) (nextk fn k) = Inr y"
      by (auto split: if_splits)
    from Suc.IH [OF r] obtain k' before where "result fn k' = Inr y"
      "effects (retryOnConflict n fn) (nextk fn k) = before @ effects fn k'"
      "\<forall>e\<in>set before. \<exists>j. e \<in> set (effects fn j) \<and> result fn j = Inl IsConflict" by blast
    with Inl e show ?thesis
      by (intro exI [of _ k'] exI [of _ "effects fn k @ before"]) auto
  qed
qed simp

lemma retry_error:
  assumes "result (retryOnConflict n fn) k = Inl err" "e \<in> set (effects (retryOnConflict n fn) k)"
  shows "\<exists>j err'. e \<in> set (effects fn j) \<and> result fn j = Inl err'"
  using assms
proof (induction n arbitrary: k)
  case (Suc n)
  then show ?case by (cases "result fn k") (auto split: if_splits)
qed simp

end
