(* ===== verification/Writes.thy ===== *)
theory Writes
  imports Client
begin

text \<open>
  The client wrappers of \<open>rotation_controller.go\<close>: reads that take an absent object for nil, the
  conditional writes with retry on conflict, the placeholder and the node markers. A mutator is a
  program on the annotations it was handed: it returns what it captured and the new annotations,
  or no annotations when it vetoes the write.
\<close>

record Reconciler =
  rc_Api :: Api
  rc_Attempts :: nat
  rc_Namespace :: string
  rc_PlaceholderImage :: string
  rc_PriorityClassName :: string
  rc_Events :: bool
  rc_sha256_hex :: "string \<Rightarrow> string"
  rc_loadLocation :: "string \<Rightarrow> Location option"
  rc_compile :: "LabelSelector option \<Rightarrow> (annots \<Rightarrow> bool) option"

section \<open>Calls\<close>

definition clock :: "Reconciler \<Rightarrow> time M" where
  "clock r = (\<lambda>k. (Inr (api_now (rc_Api r) k), Suc k, [ReadClock (api_now (rc_Api r) k)]))"

definition callGetPool :: "Reconciler \<Rightarrow> string \<Rightarrow> NodePool M" where
  "callGetPool r name = call (\<lambda>k. api_GetPool (rc_Api r) k name) (CallGetPool name)"
definition callGetClaim :: "Reconciler \<Rightarrow> string \<Rightarrow> NodeClaim M" where
  "callGetClaim r name = call (\<lambda>k. api_GetClaim (rc_Api r) k name) (CallGetClaim name)"
definition callGetNode :: "Reconciler \<Rightarrow> string \<Rightarrow> Node M" where
  "callGetNode r name = call (\<lambda>k. api_GetNode (rc_Api r) k name) (CallGetNode name)"
definition callGetPod :: "Reconciler \<Rightarrow> string \<times> string \<Rightarrow> Pod M" where
  "callGetPod r key = call (\<lambda>k. api_GetPod (rc_Api r) k key) (CallGetPod key)"
definition callListPolicies :: "Reconciler \<Rightarrow> RotationPolicy list M" where
  "callListPolicies r = call (\<lambda>k. api_ListPolicies (rc_Api r) k) CallListPolicies"
definition callListPools :: "Reconciler \<Rightarrow> NodePool list M" where
  "callListPools r = call (\<lambda>k. api_ListPools (rc_Api r) k) CallListPools"
definition callListClaims :: "Reconciler \<Rightarrow> string option \<Rightarrow> NodeClaim list M" where
  "callListClaims r sel = call (\<lambda>k. api_ListClaims (rc_Api r) k sel) (CallListClaims sel)"
definition callListNodes :: "Reconciler \<Rightarrow> string option \<Rightarrow> Node list M" where
  "callListNodes r sel = call (\<lambda>k. api_ListNodes (rc_Api r) k sel) (CallListNodes sel)"
definition callListPods :: "Reconciler \<Rightarrow> string option \<Rightarrow> Pod list M" where
  "callListPods r ns = call (\<lambda>k. api_ListPods (rc_Api r) k ns) (CallListPods ns)"
definition callUpdatePool :: "Reconciler \<Rightarrow> NodePool \<Rightarrow> NodePool M" where
  "callUpdatePool r p = call (\<lambda>k. api_UpdatePool (rc_Api r) k p) (CallUpdatePool p)"
definition callUpdateClaim :: "Reconciler \<Rightarrow> NodeClaim \<Rightarrow> NodeClaim M" where
  "callUpdateClaim r c = call (\<lambda>k. api_UpdateClaim (rc_Api r) k c) (CallUpdateClaim c)"
definition callUpdateNode :: "Reconciler \<Rightarrow> Node \<Rightarrow> Node M" where
  "callUpdateNode r n = call (\<lambda>k. api_UpdateNode (rc_Api r) k n) (CallUpdateNode n)"
definition callDeleteClaim :: "Reconciler \<Rightarrow> string \<Rightarrow> unit M" where
  "callDeleteClaim r name = call (\<lambda>k. api_DeleteClaim (rc_Api r) k name) (CallDeleteClaim name)"
definition callDeletePod :: "Reconciler \<Rightarrow> string \<times> string \<Rightarrow> string option \<Rightarrow> unit M" where
  "callDeletePod r key uid = call (\<lambda>k. api_DeletePod (rc_Api r) k key uid) (CallDeletePod key uid)"
definition callCreatePod :: "Reconciler \<Rightarrow> Pod \<Rightarrow> Pod M" where
  "callCreatePod r p = call (\<lambda>k. api_CreatePod (rc_Api r) k p) (CallCreatePod p)"

lemma run_clock [simp]:
  "result (clock r) k = Inr (api_now (rc_Api r) k)" "nextk (clock r) k = Suc k"
  "effects (clock r) k = [ReadClock (api_now (rc_Api r) k)]"
  by (simp_all add: clock_def result_def nextk_def effects_def)

lemmas call_defs = callGetPool_def callGetClaim_def callGetNode_def callGetPod_def callListPolicies_def
  callListPools_def callListClaims_def callListNodes_def callListPods_def callUpdatePool_def
  callUpdateClaim_def callUpdateNode_def callDeleteClaim_def callDeletePod_def callCreatePod_def

text \<open>An absent object is nil.\<close>

definition orNil :: "'a M \<Rightarrow> 'a option M" where
  "orNil m = bindR m (\<lambda>r. case r of Inl e \<Rightarrow> (if e = IsNotFound then ret None else fail e) | Inr x \<Rightarrow> ret (Some x))"

definition placeholderKey :: "Reconciler \<Rightarrow> string \<Rightarrow> string \<times> string" where
  "placeholderKey r claimName = (rc_Namespace r, PlaceholderName (rc_sha256_hex r) claimName)"

definition getClaim :: "Reconciler \<Rightarrow> string \<Rightarrow> NodeClaim option M" where
  "getClaim r name = orNil (callGetClaim r name)"

definition getNode :: "Reconciler \<Rightarrow> string \<Rightarrow> Node option M" where
  "getNode r name = orNil (callGetNode r name)"

definition getPlaceholder :: "Reconciler \<Rightarrow> string \<Rightarrow> Pod option M" where
  "getPlaceholder r claimName = orNil (callGetPod r (placeholderKey r claimName))"

definition poolClaims :: "Reconciler \<Rightarrow> NodePool \<Rightarrow> NodeClaim list M" where
  "poolClaims r pool = callListClaims r (Some (np_Name pool))"

definition allPods :: "Reconciler \<Rightarrow> Pod list M" where
  "allPods r = callListPods r None"

definition excludedClaims :: "Reconciler \<Rightarrow> NodePool \<Rightarrow> NodeClaim list \<Rightarrow> string set M" where
  "excludedClaims r pool claims =
     andThen (callListNodes r (Some (np_Name pool))) (\<lambda>nodes.
       ret (excludedClaimNames claims (excludedNodeNames nodes)))"

section \<open>Conditional writes\<close>

type_synonym 'x mutator = "annots \<Rightarrow> ('x \<times> annots option) M"

definition poolAttempt :: "Reconciler \<Rightarrow> NodePool \<Rightarrow> 'x mutator \<Rightarrow> (bool \<times> 'x \<times> NodePool) M" where
  "poolAttempt r pool mutate =
     andThen (callGetPool r (np_Name pool)) (\<lambda>fresh.
     andThen (mutate (np_Annotations fresh)) (\<lambda>(x, m).
       case m of
         None \<Rightarrow> ret (False, x, fresh)
       | Some m \<Rightarrow>
           andThen (callUpdatePool r (fresh\<lparr>np_Annotations := m\<rparr>)) (\<lambda>fresh. ret (True, x, fresh))))"

definition patchPoolIf :: "Reconciler \<Rightarrow> NodePool \<Rightarrow> 'x mutator \<Rightarrow> (bool \<times> 'x \<times> NodePool) M" where
  "patchPoolIf r pool mutate = retryOnConflict (rc_Attempts r) (poolAttempt r pool mutate)"

text \<open>The write without a veto; it returns the object the server answered with.\<close>

definition always :: "(annots \<Rightarrow> annots M) \<Rightarrow> unit mutator" where
  "always mutate m = andThen (mutate m) (\<lambda>m. ret ((), Some m))"

definition patchPool :: "Reconciler \<Rightarrow> NodePool \<Rightarrow> (annots \<Rightarrow> annots M) \<Rightarrow> NodePool M" where
  "patchPool r pool mutate = andThen (patchPoolIf r pool (always mutate)) (\<lambda>(_, _, p). ret p)"

datatype 'x ClaimWrite = claimGone | claimVetoed 'x | claimWritten 'x

definition claimAttempt :: "Reconciler \<Rightarrow> string \<Rightarrow> 'x mutator \<Rightarrow> 'x ClaimWrite M" where
  "claimAttempt r name mutate =
     andThen (getClaim r name) (\<lambda>c. case c of
       None \<Rightarrow> ret claimGone
     | Some c \<Rightarrow>
         andThen (mutate (nc_Annotations c)) (\<lambda>(x, m).
           case m of
             None \<Rightarrow> ret (claimVetoed x)
           | Some m \<Rightarrow>
               andThen (callUpdateClaim r (c\<lparr>nc_Annotations := m\<rparr>)) (\<lambda>_. ret (claimWritten x))))"

definition patchClaimIf :: "Reconciler \<Rightarrow> string \<Rightarrow> 'x mutator \<Rightarrow> 'x ClaimWrite M" where
  "patchClaimIf r name mutate = retryOnConflict (rc_Attempts r) (claimAttempt r name mutate)"

definition patchClaim :: "Reconciler \<Rightarrow> string \<Rightarrow> (annots \<Rightarrow> annots M) \<Rightarrow> unit M" where
  "patchClaim r name mutate = andThen (patchClaimIf r name (always mutate)) (\<lambda>_. ret ())"

definition nodeAttempt :: "Reconciler \<Rightarrow> string \<Rightarrow> (Node \<Rightarrow> Node \<times> bool) \<Rightarrow> bool M" where
  "nodeAttempt r nodeName mutate =
     andThen (getNode r nodeName) (\<lambda>n. case n of
       None \<Rightarrow> ret False
     | Some n \<Rightarrow>
         (case mutate n of (n', changed) \<Rightarrow>
            if \<not> changed then ret False
            else andThen (callUpdateNode r n') (\<lambda>_. ret True)))"

definition patchNode :: "Reconciler \<Rightarrow> string \<Rightarrow> (Node \<Rightarrow> Node \<times> bool) \<Rightarrow> bool M" where
  "patchNode r nodeName mutate = retryOnConflict (rc_Attempts r) (nodeAttempt r nodeName mutate)"

section \<open>The anchor\<close>

definition clearRotationAnchorFields :: "annots \<Rightarrow> annots" where
  "clearRotationAnchorFields m =
     fold (\<lambda>k m. adel m k)
       [ActiveRotation, ActiveRotationState, DrainingAt, SurgeWait, SurgePath, RotationMode] m"

definition anchorRotation :: "Reconciler \<Rightarrow> NodePool \<Rightarrow> string \<Rightarrow> NodePool M" where
  "anchorRotation r pool name =
     callUpdatePool r (pool\<lparr>np_Annotations := (np_Annotations pool)(ActiveRotation \<mapsto> name)\<rparr>)"

definition clearAnchor :: "Reconciler \<Rightarrow> NodePool \<Rightarrow> NodePool M" where
  "clearAnchor r pool = patchPool r pool (\<lambda>m. ret (clearRotationAnchorFields m))"

definition releaseIf :: "string \<Rightarrow> bool mutator" where
  "releaseIf claim m =
     (if aget m ActiveRotation \<noteq> claim then ret (False, None)
      else ret (True, Some (clearRotationAnchorFields m)))"

definition clearAnchorIf :: "Reconciler \<Rightarrow> NodePool \<Rightarrow> string \<Rightarrow> bool M" where
  "clearAnchorIf r pool claim =
     andThen (patchPoolIf r pool (releaseIf claim)) (\<lambda>(_, cleared, _). ret cleared)"

section \<open>The terminal transition\<close>

datatype Expiry = expiryGone | expiryRaced | expiryAlready | expiryClaimed

text \<open>What \<open>markExpired\<close> captures is whether the claim was expired already.\<close>

definition expiredEntry :: "(annots \<Rightarrow> annots) option \<Rightarrow> string list \<Rightarrow> bool mutator" where
  "expiredEntry extra frm m =
     (let cur = aget m State; already = (cur = StateExpired)
      in if already \<or> cur \<notin> set frm then ret (already, None)
         else let m = m(State \<mapsto> StateExpired)
              in ret (already, Some (case extra of None \<Rightarrow> m | Some f \<Rightarrow> f m)))"

definition markExpired ::
  "Reconciler \<Rightarrow> string \<Rightarrow> (annots \<Rightarrow> annots) option \<Rightarrow> string list \<Rightarrow> Expiry M" where
  "markExpired r name extra frm =
     andThen (patchClaimIf r name (expiredEntry extra frm)) (\<lambda>w. case w of
       claimWritten _ \<Rightarrow> ret expiryClaimed
     | claimGone \<Rightarrow> ret expiryGone
     | claimVetoed already \<Rightarrow> (if already then ret expiryAlready else ret expiryRaced))"

section \<open>Nodes and the placeholder\<close>

definition freezeNode :: "Reconciler \<Rightarrow> string \<Rightarrow> string \<Rightarrow> unit M" where
  "freezeNode r nodeName claimName =
     (if nodeName = '''' then ret ()
      else andThen (patchNode r nodeName (applyFreeze claimName)) (\<lambda>_. ret ()))"

definition cordonNode :: "Reconciler \<Rightarrow> string \<Rightarrow> unit M" where
  "cordonNode r nodeName =
     (if nodeName = '''' then ret ()
      else andThen (patchNode r nodeName applyCordon) (\<lambda>_. ret ()))"

definition unfreezeNodes :: "Reconciler \<Rightarrow> string \<Rightarrow> unit M" where
  "unfreezeNodes r claimName =
     andThen (callListNodes r None) (\<lambda>nodes.
       each (\<lambda>n. if aget (nd_Annotations n) SurgeFor \<noteq> claimName then ret ()
                 else andThen (patchNode r (nd_Name n) applyUnfreeze) (\<lambda>_. ret ())) nodes)"

fun surge_host :: "string \<Rightarrow> string \<Rightarrow> Node list \<Rightarrow> string" where
  "surge_host claimName host [] = host"
| "surge_host claimName host (n # ns) =
     (if aget (nd_Annotations n) SurgeFor \<noteq> claimName then surge_host claimName host ns
      else if host \<noteq> '''' then '''' else surge_host claimName (nd_Name n) ns)"

definition surgeHostFor :: "Reconciler \<Rightarrow> string \<Rightarrow> string M" where
  "surgeHostFor r claimName =
     bindR (callListNodes r None) (\<lambda>nodes.
       case nodes of Inl _ \<Rightarrow> ret '''' | Inr nodes \<Rightarrow> ret (surge_host claimName '''' nodes))"

definition deletePlaceholder :: "Reconciler \<Rightarrow> string \<Rightarrow> unit M" where
  "deletePlaceholder r claimName = ignoreNotFound (callDeletePod r (placeholderKey r claimName) None)"

section \<open>Time helpers\<close>

definition maxRFC3339 :: "string \<Rightarrow> string \<Rightarrow> string" where
  "maxRFC3339 a b =
     (case (parseTime a, parseTime b) of
        (None, _) \<Rightarrow> b
      | (Some _, None) \<Rightarrow> a
      | (Some ta, Some tb) \<Rightarrow> (if ta < tb then b else a))"

definition parseDuration :: "string \<Rightarrow> duration option" where
  "parseDuration s = ParseDuration s"

end
