(* ===== verification/Thresholds.thy ===== *)
theory Thresholds
  imports Writes
begin

text \<open>
  The pure part of \<open>rotation_controller.go\<close>: the governing policy of a NodePool, the values
  resolved from it once per pass, and the views handed to the selection, the gates and the schedule
  derivation. Durations that defaulting always fills are read with \<open>deref\<close>; on a validated
  policy it never meets a nil.
\<close>

definition longRequeue :: duration where "longRequeue = Minute"
definition shortRequeue :: duration where "shortRequeue = 30 * Second"

datatype CtrlResult = NoRequeue | RequeueAfter duration

section \<open>Governance\<close>

datatype Governance = Ungoverned | Contested ConflictDetail | Governed Policy Schedule

definition governance :: "Reconciler \<Rightarrow> NodePool \<Rightarrow> RotationPolicy list \<Rightarrow> Governance" where
  "governance r pool policies =
     (case Governing (rc_compile r) pool policies of
        (Some winner, _, _) \<Rightarrow>
          (case ToPolicy (rc_loadLocation r) (rp_Spec winner) of
             Inl es \<Rightarrow> Contested (InvalidPolicy (rp_Name winner) es)
           | Inr pol \<Rightarrow>
               (case New (rc_loadLocation r) (p_MaintenanceWindows pol) of
                  Inl e \<Rightarrow> Contested (UnbuildableSchedule (rp_Name winner) e)
                | Inr sched \<Rightarrow> Governed pol sched))
      | (None, Conflict, tied) \<Rightarrow> Contested (TiedPolicies tied)
      | (None, _, _) \<Rightarrow> Ungoverned)"

definition governingPolicy :: "Reconciler \<Rightarrow> NodePool \<Rightarrow> Governance M" where
  "governingPolicy r pool =
     andThen (callListPolicies r) (\<lambda>policies. ret (governance r pool policies))"

section \<open>The resolved policy\<close>

record Resolved =
  res_pol :: Policy
  res_sched :: Schedule
  res_leadTime :: LeadTime
  res_override :: "duration option"
  res_retryBackoff :: duration
  res_readyTimeout :: duration
  res_cooldown :: duration
  res_failurePause :: duration
  res_drainBound :: duration
  res_drainEstimate :: "duration option"
  res_provisioningEstimate :: "duration option"

definition poolTGP :: "NodePool \<Rightarrow> duration \<times> bool" where
  "poolTGP pool =
     (case np_TerminationGracePeriod pool of Some d \<Rightarrow> (d, False) | None \<Rightarrow> (DrainFallback, True))"

definition resolve :: "NodePool \<Rightarrow> Policy \<Rightarrow> Schedule \<Rightarrow> Resolved" where
  "resolve pool pol sched =
     (let s = p_Surge pol;
          (tgp, unset) = poolTGP pool;
          p = deref (WorstCasePeriod sched);
          ov = (case AgeThresholdOverride pol of Inr (Some d) \<Rightarrow> Some d | Inr None \<Rightarrow> None | Inl _ \<Rightarrow> Some 0);
          drainBound = (if unset then DrainFallback else add64 tgp Buffer);
          failurePause = (case su_FailurePause s of
                            Some d \<Rightarrow> d | None \<Rightarrow> max FailurePauseFloor (deref (su_CooldownAfter s)))
      in \<lparr>res_pol = pol, res_sched = sched,
          res_leadTime =
            \<lparr>lt_Base = add64 (add64 (mul64 (policy_K pol) p) (deref (su_ReadyTimeout s))) Buffer,
             lt_DrainFallback = DrainFallback\<rparr>,
          res_override = ov, res_retryBackoff = deref (su_RetryBackoff s),
          res_readyTimeout = deref (su_ReadyTimeout s), res_cooldown = deref (su_CooldownAfter s),
          res_failurePause = failurePause, res_drainBound = drainBound,
          res_drainEstimate = su_DrainEstimate s, res_provisioningEstimate = su_ProvisioningEstimate s\<rparr>)"

section \<open>Views\<close>

definition selInputs :: "Resolved \<Rightarrow> time \<Rightarrow> string set \<Rightarrow> bool \<Rightarrow> SelInputs" where
  "selInputs res now excluded anyFailed =
     (let bounds = (if anyFailed then OccurrenceBounds (res_sched res) now else None)
      in \<lparr>si_Now = now, si_LeadTime = res_leadTime res, si_Override = res_override res,
          si_RetryBackoff = res_retryBackoff res, si_Excluded = excluded,
          si_WindowStart = (case bounds of Some (st, _) \<Rightarrow> st | None \<Rightarrow> 0),
          si_WindowEnd = (case bounds of Some (_, en) \<Rightarrow> en | None \<Rightarrow> 0)\<rparr>)"

definition hasFailedClaim :: "Claim list \<Rightarrow> bool" where
  "hasFailedClaim views = list_ex (\<lambda>c. aget (c_Annotations c) State = StateFailed) views"

definition effectiveBackoff :: "Resolved \<Rightarrow> time \<Rightarrow> time \<Rightarrow> int \<Rightarrow> duration" where
  "effectiveBackoff res now failedAt retry =
     (case OccurrenceBounds (res_sched res) now of
        Some (st, en) \<Rightarrow> EffectiveBackoff retry (res_retryBackoff res) failedAt st en
      | None \<Rightarrow> EffectiveBackoff retry (res_retryBackoff res) failedAt 0 0)"

definition gateInputs :: "NodePool \<Rightarrow> Resolved \<Rightarrow> time \<Rightarrow> DecideInputs" where
  "gateInputs pool res now =
     \<lparr>di_Now = now, di_InWindow = InWindow (res_sched res) now, di_Annotations = np_Annotations pool,
      di_Cooldown = res_cooldown res, di_FailurePause = res_failurePause res,
      di_FallbackEnabled = ft_Enabled (su_ForcefulFallback (p_Surge (res_pol res))),
      di_ReadyTimeout = res_readyTimeout res, di_DrainBound = res_drainBound res\<rparr>"

definition highestRetry :: "NodeClaim list \<Rightarrow> int" where
  "highestRetry claims =
     fold (\<lambda>c h. let n = parseInt (aget (nc_Annotations c) RetryCount) in if h < n then n else h) claims 0"

definition drainStuck :: "NodePool \<Rightarrow> NodeClaim list \<Rightarrow> Resolved \<Rightarrow> time \<Rightarrow> bool" where
  "drainStuck pool claims res now =
     (let name = aget (np_Annotations pool) ActiveRotation
      in if name = '''' \<or> aget (np_Annotations pool) ActiveRotationState \<noteq> StateDraining then False
         else case List.find (\<lambda>c. nc_Name c = name \<and> nc_DeletionTimestamp c \<noteq> None) claims of
                None \<Rightarrow> False
              | Some c \<Rightarrow> res_drainBound res < TimeSub now (deref (nc_DeletionTimestamp c)))"

definition noDerivation :: Result where
  "noDerivation =
     \<lparr>r_TRot = 0, r_TRotEst = 0, r_DrainEstimate = 0, r_ProvisioningEstimate = 0, r_A = 0, r_G = 0,
      r_C = 0, r_Findings = []\<rparr>"

definition derivedThresholds ::
  "NodePool \<Rightarrow> Resolved \<Rightarrow> duration \<Rightarrow> duration \<Rightarrow> duration option \<Rightarrow> nat \<Rightarrow> Result" where
  "derivedThresholds pool res p windowLen idleGap nodeCount =
     (case np_ExpireAfter pool of
        None \<Rightarrow> (case res_override res of Some ov \<Rightarrow> noDerivation\<lparr>r_A := ov\<rparr> | None \<Rightarrow> noDerivation)
      | Some e \<Rightarrow>
          (let (tgp, unset) = poolTGP pool
           in Derive
                \<lparr>in_E = e, in_TGP = tgp, in_TGPWasUnset = unset, in_P = p, in_WindowLen = windowLen,
                 in_IdleGap = idleGap, in_ReadyTimeout = res_readyTimeout res,
                 in_Cooldown = res_cooldown res, in_DrainEstimate = res_drainEstimate res,
                 in_ProvisioningEstimate = res_provisioningEstimate res,
                 in_RetryBackoff = res_retryBackoff res, in_K = policy_K (res_pol res),
                 in_MaxUnavailable = SurgeMaxUnavailable (res_pol res), in_NodeCount = int nodeCount,
                 in_Override = res_override res\<rparr>))"

definition reconcilePhase :: "NodePool \<Rightarrow> string" where
  "reconcilePhase pool =
     (if aget (np_Annotations pool) ActiveRotation = '''' then ''idle''
      else let st = aget (np_Annotations pool) ActiveRotationState in if st \<noteq> '''' then st else StatePending)"

definition staticPool :: "NodePool \<Rightarrow> bool" where
  "staticPool pool = (np_Replicas pool \<noteq> None)"

definition firstFatal :: "Finding list \<Rightarrow> Finding option" where
  "firstFatal findings = List.find (\<lambda>f. f_Severity f = Fatal) findings"

definition rotationMode :: "annots \<Rightarrow> string" where
  "rotationMode m = (let v = aget m RotationMode in if v \<noteq> '''' then v else ''surge'')"

definition observation ::
  "NodePool \<Rightarrow> Resolved \<Rightarrow> time \<Rightarrow> NodeClaim list \<Rightarrow> Claim list \<Rightarrow> duration \<Rightarrow> Result \<Rightarrow> string set \<Rightarrow>
   PoolObservation" where
  "observation pool res now claims views p derived excluded =
     (let census = TakeCensus views (selInputs res now excluded (hasFailedClaim views))
      in \<lparr>po_Candidates = cs_Eligible census, po_InBackoff = cs_InBackoffTriggered census,
          po_InProgress = (if aget (np_Annotations pool) ActiveRotation \<noteq> '''' then 1 else 0),
          po_FreezeUntil =
            (case parseTime (aget (np_Annotations pool) Freeze) of
               Some u \<Rightarrow> (if now < u then u else 0) | None \<Rightarrow> 0),
          po_AgeThreshold = r_A derived, po_RotationChances = r_G derived, po_WindowPeriod = p,
          po_ShortLeadNodes = CountShortLead views (res_leadTime res),
          po_DrainStuck = drainStuck pool claims res now, po_RetryCount = highestRetry claims,
          po_ThroughputCapacity = r_C derived, po_TRotEstimate = r_TRotEst derived,
          po_TRotBound = r_TRot derived\<rparr>)"

definition observe ::
  "NodePool \<Rightarrow> Resolved \<Rightarrow> time \<Rightarrow> NodeClaim list \<Rightarrow> Claim list \<Rightarrow> duration \<Rightarrow> Result \<Rightarrow> string set \<Rightarrow> unit M" where
  "observe pool res now claims views p derived excluded =
     andThen (emit (ObserveWindow (np_Name pool) (InWindow (res_sched res) now))) (\<lambda>_.
     emit (ObservePool (np_Name pool) (observation pool res now claims views p derived excluded)))"

section \<open>Sizing\<close>

text \<open>The raw drain, and the clamped requests the placeholder will carry.\<close>

definition placeholderSizing :: "Pod list \<Rightarrow> Resolved \<Rightarrow> NodeClaim \<Rightarrow> ResourceList \<times> ClampResult" where
  "placeholderSizing pods res cand =
     (let drain = ReschedulableRequests pods (nc_NodeName cand);
          daemonSet = DaemonSetRequests pods (nc_NodeName cand);
          requests =
            (if ft_Enabled (su_WholeNodeReservation (p_Surge (res_pol res)))
             then WholeNode drain (nc_Allocatable cand) daemonSet
                    (pc_Counted (CensusOnNode pods (nc_NodeName cand)))
             else drain)
      in (drain, Clamp requests (nc_Allocatable cand) daemonSet))"

definition candidateRequests :: "Reconciler \<Rightarrow> Resolved \<Rightarrow> NodeClaim \<Rightarrow> ClampResult M" where
  "candidateRequests r res cand =
     (if nc_NodeName cand = '''' then ret (unclamped fmempty)
      else andThen (allPods r) (\<lambda>pods. ret (snd (placeholderSizing pods res cand))))"

definition headroom ::
  "Reconciler \<Rightarrow> NodePool \<Rightarrow> Resolved \<Rightarrow> NodeClaim \<Rightarrow> (HeadroomResult \<times> ClampResult) M" where
  "headroom r pool res cand =
     andThen (candidateRequests r res cand) (\<lambda>clamp. ret (Headroom pool (cr_Requests clamp), clamp))"

definition hostsRealPods :: "Pod list \<Rightarrow> string \<Rightarrow> string \<Rightarrow> string \<Rightarrow> bool" where
  "hostsRealPods pods nodeName placeholderNamespace placeholderName =
     list_ex (\<lambda>p. pod_NodeName p = nodeName
                 \<and> \<not> (pod_Namespace p = placeholderNamespace \<and> pod_Name p = placeholderName)
                 \<and> \<not> IsInfraOrCompleted p) pods"

definition hostnameOf :: "Node \<Rightarrow> string" where
  "hostnameOf n = (let h = aget (nd_Labels n) LabelHostname in if h \<noteq> '''' then h else nd_Name n)"

end
