(* ===== verification/Rotation.thy ===== *)
theory Rotation
  imports Thresholds
begin

text \<open>
  The rotation state machine of \<open>rotation_controller.go\<close>: one handler per claim state, the
  roll-back, the completion, the window edge, and the pass over one NodePool. A handler calls the
  API in the order of the source; a log line is not modelled, an Event, a metric and a call of the
  warning emitter are emissions. A closure handed to a conditional write is a definition of its own.
\<close>

section \<open>Finding the surge node\<close>

definition claim_on_node :: "string \<Rightarrow> NodeClaim list \<Rightarrow> string" where
  "claim_on_node nodeName claims =
     (case List.find (\<lambda>c. nc_NodeName c = nodeName) claims of None \<Rightarrow> '''' | Some c \<Rightarrow> nc_Name c)"

definition claimForNode :: "Reconciler \<Rightarrow> NodePool \<Rightarrow> string \<Rightarrow> string M" where
  "claimForNode r pool nodeName =
     andThen (poolClaims r pool) (\<lambda>claims. ret (claim_on_node nodeName claims))"

text \<open>The oldest claim created after the attempt began that has no node.\<close>

definition unbound_claim :: "NodeClaim \<Rightarrow> time \<Rightarrow> NodeClaim list \<Rightarrow> string" where
  "unbound_claim cand startedAt claims =
     (case scan_best (\<lambda>c. nc_Name c \<noteq> nc_Name cand \<and> nc_NodeName c = '''' \<and> startedAt < nc_CreationTimestamp c)
             (\<lambda>a b. nc_CreationTimestamp a < nc_CreationTimestamp b) None claims of
        None \<Rightarrow> '''' | Some c \<Rightarrow> nc_Name c)"

definition inducedClaim :: "Reconciler \<Rightarrow> NodePool \<Rightarrow> NodeClaim \<Rightarrow> string M" where
  "inducedClaim r pool cand =
     andThen (getPlaceholder r (nc_Name cand)) (\<lambda>ph.
     andThen (case ph of
                Some ph \<Rightarrow> (if pod_NodeName ph \<noteq> '''' then claimForNode r pool (pod_NodeName ph) else ret '''')
              | None \<Rightarrow> ret '''') (\<lambda>name.
       if name \<noteq> '''' then ret name
       else case parseTime (aget (nc_Annotations cand) StartedAt) of
              None \<Rightarrow> ret ''''
            | Some startedAt \<Rightarrow>
                andThen (poolClaims r pool) (\<lambda>claims. ret (unbound_claim cand startedAt claims))))"

definition surgePathFor :: "Reconciler \<Rightarrow> NodePool \<Rightarrow> string \<Rightarrow> time \<Rightarrow> string M" where
  "surgePathFor r pool host startedAt =
     bindR (claimForNode r pool host) (\<lambda>name. case name of
       Inl _ \<Rightarrow> ret ''''
     | Inr name \<Rightarrow>
         (if name = '''' then ret ''''
          else bindR (getClaim r name) (\<lambda>sc. case sc of
                 Inl _ \<Rightarrow> ret '''' | Inr sc \<Rightarrow> ret (HostPath sc startedAt))))"

text \<open>The host when the placeholder runs on a Ready node of the pool other than the candidate's.\<close>

definition surgeReady :: "Reconciler \<Rightarrow> NodePool \<Rightarrow> NodeClaim \<Rightarrow> Pod \<Rightarrow> string option M" where
  "surgeReady r pool cand ph =
     (if pod_Phase ph \<noteq> PodRunning \<or> pod_DeletionTimestamp ph \<noteq> None then ret None
      else let host = pod_NodeName ph
           in if host = '''' \<or> host = nc_NodeName cand then ret None
              else andThen (getNode r host) (\<lambda>node. case node of
                     None \<Rightarrow> ret None
                   | Some node \<Rightarrow>
                       (if \<not> nodeReady node \<or> aget (nd_Labels node) NodePoolLabelKey \<noteq> np_Name pool
                        then ret None else ret (Some host))))"

definition reapSurgeClaim :: "Reconciler \<Rightarrow> NodeClaim \<Rightarrow> string \<Rightarrow> unit M" where
  "reapSurgeClaim r cand surgeClaimName =
     (if surgeClaimName = '''' then ret ()
      else andThen (getClaim r surgeClaimName) (\<lambda>sc. case sc of
             None \<Rightarrow> ret ()
           | Some sc \<Rightarrow>
               (case parseTime (aget (nc_Annotations cand) StartedAt) of
                  None \<Rightarrow> ret ()
                | Some startedAt \<Rightarrow>
                    if \<not> CreatedByAttempt (Some sc) startedAt then ret ()
                    else if nc_NodeName sc \<noteq> '''' then
                      andThen (allPods r) (\<lambda>pods.
                        if hostsRealPods pods (nc_NodeName sc) (rc_Namespace r)
                             (PlaceholderName (rc_sha256_hex r) (nc_Name cand))
                        then ret () else ignoreNotFound (callDeleteClaim r (nc_Name sc)))
                    else ignoreNotFound (callDeleteClaim r (nc_Name sc)))))"

section \<open>Creating the placeholder\<close>

definition hostname :: "Reconciler \<Rightarrow> string \<Rightarrow> string M" where
  "hostname r nodeName =
     andThen (getNode r nodeName) (\<lambda>n. case n of None \<Rightarrow> ret nodeName | Some n \<Rightarrow> ret (hostnameOf n))"

fun near_deadline_hosts :: "Reconciler \<Rightarrow> NodeClaim \<Rightarrow> SelInputs \<Rightarrow> NodeClaim list \<Rightarrow> string list M" where
  "near_deadline_hosts r cand sel [] = ret []"
| "near_deadline_hosts r cand sel (c # cs) =
     (if nc_Name c = nc_Name cand \<or> nc_NodeName c = '''' then near_deadline_hosts r cand sel cs
      else if \<not> triggered (adapt_Claim c) sel then near_deadline_hosts r cand sel cs
      else andThen (hostname r (nc_NodeName c)) (\<lambda>h.
           andThen (near_deadline_hosts r cand sel cs) (\<lambda>hs. ret (h # hs))))"

definition excludedHostnames ::
  "Reconciler \<Rightarrow> NodePool \<Rightarrow> NodeClaim \<Rightarrow> Node \<Rightarrow> Resolved \<Rightarrow> string list M" where
  "excludedHostnames r pool cand candNode res =
     andThen (poolClaims r pool) (\<lambda>claims.
     andThen (clock r) (\<lambda>now.
       let sel = selInputs res now {} (hasFailedClaim (fst (adapt_Claims claims)))
       in andThen (near_deadline_hosts r cand sel claims) (\<lambda>hs.
            ret (sort (remdups (hostnameOf candNode # hs))))))"

definition announce_sizing :: "Reconciler \<Rightarrow> NodeClaim \<Rightarrow> ClampResult \<Rightarrow> ResourceList \<Rightarrow> unit M" where
  "announce_sizing r cand clamp band =
     (if cr_Refused clamp then
        emitIf (rc_Events r) (EventSurgeClampRefused (nc_Name cand) (cr_RefusedResource clamp))
      else if cr_Clamped clamp then
        andThen (emitIf (rc_Events r) (EventSurgeClamped (nc_Name cand) (cr_Limit clamp) (cr_Shortfall clamp))) (\<lambda>_.
          case ExceedsBand (cr_Shortfall clamp) band of
            None \<Rightarrow> ret ()
          | Some over \<Rightarrow> emitIf (rc_Events r) (EventSurgeClampBandExceeded (nc_Name cand) over band))
      else ret ())"

definition placeholder_for ::
  "Reconciler \<Rightarrow> NodePool \<Rightarrow> NodeClaim \<Rightarrow> Resolved \<Rightarrow> Node \<Rightarrow> ResourceList \<Rightarrow> string list \<Rightarrow> Pod" where
  "placeholder_for r pool cand res node requests excluded =
     BuildPlaceholder (rc_sha256_hex r)
       \<lparr>pl_Candidate = cand, pl_Node = node, pl_Pool = pool, pl_Requests = requests,
        pl_Match = su_MatchNodeRequirements (p_Surge (res_pol res)), pl_ExcludedHostnames = excluded,
        pl_PriorityClassName = rc_PriorityClassName r, pl_Image = rc_PlaceholderImage r,
        pl_Namespace = rc_Namespace r\<rparr>"

definition createPlaceholder :: "Reconciler \<Rightarrow> NodePool \<Rightarrow> NodeClaim \<Rightarrow> Resolved \<Rightarrow> unit M" where
  "createPlaceholder r pool cand res =
     (if nc_NodeName cand = '''' then ret ()
      else andThen (getNode r (nc_NodeName cand)) (\<lambda>node. case node of
             None \<Rightarrow> ret ()
           | Some node \<Rightarrow>
               andThen (allPods r) (\<lambda>pods.
               andThen (excludedHostnames r pool cand node res) (\<lambda>excluded.
                 let (_, clamp) = placeholderSizing pods res cand;
                     band = Band (nd_Allocatable node) (nc_Allocatable cand);
                     ph = placeholder_for r pool cand res node (cr_Requests clamp) excluded
                 in bindR (callCreatePod r ph) (\<lambda>created. case created of
                      Inl e \<Rightarrow> (if e = IsAlreadyExists then ret () else fail e)
                    | Inr _ \<Rightarrow> announce_sizing r cand clamp band)))))"

section \<open>Rolling back an attempt\<close>

text \<open>What the failure write captured: the attempt number and the failure instant.\<close>

definition failureRecord :: "Reconciler \<Rightarrow> (int \<times> time) mutator" where
  "failureRecord r m =
     andThen (clock r) (\<lambda>now.
       let failedAt = TruncateSecond now;
           retry = add64 (parseInt (aget m RetryCount)) 1;
           m = m(State \<mapsto> StateFailed, FailedAt \<mapsto> rfc3339 failedAt, RetryCount \<mapsto> Itoa retry)
       in ret ((retry, failedAt), Some (adel (adel m StartedAt) SurgeClaim)))"

definition poolFailure :: "Reconciler \<Rightarrow> annots \<Rightarrow> annots M" where
  "poolFailure r m =
     andThen (clock r) (\<lambda>now. ret (clearRotationAnchorFields (m(LastFailureAt \<mapsto> rfc3339 now))))"

text \<open>What follows the announcement of a recorded failure: the event, and the release of the anchor.\<close>

definition afterFailure :: "Reconciler \<Rightarrow> NodePool \<Rightarrow> Resolved \<Rightarrow> NodeClaim \<Rightarrow> int \<times> time \<Rightarrow> CtrlResult M" where
  "afterFailure r pool res cand = (\<lambda>(retry, failedAt).
     andThen (clock r) (\<lambda>now.
       let backoffUntil = failedAt + effectiveBackoff res now failedAt retry
       in andThen (emit (ClearPlaceholderPending (np_Name pool) (nc_Name cand))) (\<lambda>_.
          andThen (emitIf (rc_Events r)
             (EventRotationFailed (nc_Name cand) (np_Name pool) (res_readyTimeout res) retry backoffUntil)) (\<lambda>_.
          andThen (patchPool r pool (poolFailure r)) (\<lambda>_. ret (RequeueAfter longRequeue))))))"

definition failPending :: "Reconciler \<Rightarrow> NodePool \<Rightarrow> Resolved \<Rightarrow> NodeClaim \<Rightarrow> CtrlResult M" where
  "failPending r pool res cand =
     andThen (let sc = aget (nc_Annotations cand) SurgeClaim
              in if sc = '''' then inducedClaim r pool cand else ret sc) (\<lambda>surgeClaim.
     andThen (reapSurgeClaim r cand surgeClaim) (\<lambda>_.
     andThen (deletePlaceholder r (nc_Name cand)) (\<lambda>_.
     andThen (unfreezeNodes r (nc_Name cand)) (\<lambda>_.
     andThen (patchClaimIf r (nc_Name cand) (failureRecord r)) (\<lambda>wrote. case wrote of
       claimWritten recorded \<Rightarrow>
         andThen (emit (Failure (np_Name pool) (nc_Name cand))) (\<lambda>_. afterFailure r pool res cand recorded)
     | _ \<Rightarrow> ret (RequeueAfter shortRequeue))))))"

definition pendingExpiryEdits :: "annots \<Rightarrow> annots" where
  "pendingExpiryEdits m = adel (adel m StartedAt) SurgeClaim"

text \<open>Clean up after a claim that expired, and release the anchor.\<close>

definition releaseExpired :: "Reconciler \<Rightarrow> NodePool \<Rightarrow> string \<Rightarrow> CtrlResult M" where
  "releaseExpired r pool name =
     andThen (deletePlaceholder r name) (\<lambda>_.
     andThen (unfreezeNodes r name) (\<lambda>_.
     andThen (clearAnchor r pool) (\<lambda>_. ret (RequeueAfter longRequeue))))"

definition abortPendingExpiry :: "Reconciler \<Rightarrow> NodePool \<Rightarrow> NodeClaim \<Rightarrow> CtrlResult M" where
  "abortPendingExpiry r pool cand =
     andThen (markExpired r (nc_Name cand) (Some pendingExpiryEdits) ['''', StatePending]) (\<lambda>out.
       if out = expiryGone \<or> out = expiryRaced then ret (RequeueAfter shortRequeue)
       else andThen (emitIf (out = expiryClaimed) (Expired (np_Name pool) (nc_Name cand))) (\<lambda>_.
            andThen (emit (ClearPlaceholderPending (np_Name pool) (nc_Name cand))) (\<lambda>_.
            releaseExpired r pool (nc_Name cand))))"

definition advanceExpired :: "Reconciler \<Rightarrow> NodePool \<Rightarrow> NodeClaim \<Rightarrow> CtrlResult M" where
  "advanceExpired r pool cand = releaseExpired r pool (nc_Name cand)"

section \<open>The pending handler\<close>

definition pendingEntry :: "Reconciler \<Rightarrow> string mutator" where
  "pendingEntry r m =
     (let st = aget m State
      in if st \<noteq> '''' \<and> st \<noteq> StatePending then ret ('''', None)
         else let m = m(State \<mapsto> StatePending)
              in andThen (if aget m StartedAt = ''''
                          then andThen (clock r) (\<lambda>now. ret (m(StartedAt \<mapsto> rfc3339 now))) else ret m) (\<lambda>m.
                   ret (aget m StartedAt, Some m)))"

definition persistSurgeClaim :: "Reconciler \<Rightarrow> NodePool \<Rightarrow> NodeClaim \<Rightarrow> unit M" where
  "persistSurgeClaim r pool cand =
     (if aget (nc_Annotations cand) SurgeClaim \<noteq> '''' then ret ()
      else andThen (inducedClaim r pool cand) (\<lambda>surgeClaim.
             if surgeClaim = '''' then ret ()
             else patchClaim r (nc_Name cand) (\<lambda>m. ret (m(SurgeClaim \<mapsto> surgeClaim)))))"

definition drainingRecord :: "Reconciler \<Rightarrow> duration \<Rightarrow> string \<Rightarrow> annots \<Rightarrow> annots M" where
  "drainingRecord r surgeWait resolvedPath m =
     (let m = m(ActiveRotationState \<mapsto> StateDraining)
      in if aget m DrainingAt = '''' then
           andThen (clock r) (\<lambda>now.
             let m = m(DrainingAt \<mapsto> rfc3339 now, SurgeWait \<mapsto> Duration_String surgeWait)
             in ret (if resolvedPath \<noteq> '''' then m(SurgePath \<mapsto> resolvedPath) else m))
         else ret m)"

definition claimDraining :: "annots \<Rightarrow> annots M" where
  "claimDraining m = ret (m(State \<mapsto> StateDraining))"

text \<open>The surge is ready: freeze its host, record the drain, and delete the old claim.\<close>

definition startDrain ::
  "Reconciler \<Rightarrow> NodePool \<Rightarrow> NodeClaim \<Rightarrow> string \<Rightarrow> time \<Rightarrow> CtrlResult M" where
  "startDrain r pool cand host startedAt =
     andThen (clock r) (\<lambda>now.
     let surgeWait = TimeSub now startedAt in
     andThen (emit (ClearPlaceholderPending (np_Name pool) (nc_Name cand))) (\<lambda>_.
     andThen (freezeNode r host (nc_Name cand)) (\<lambda>_.
     andThen (surgePathFor r pool host startedAt) (\<lambda>resolvedPath.
     andThen (patchPool r pool (drainingRecord r surgeWait resolvedPath)) (\<lambda>pool.
     andThen (patchClaim r (nc_Name cand) claimDraining) (\<lambda>_.
     andThen (emit (ObserveDuration (np_Name pool) PhaseSurgeWait surgeWait)) (\<lambda>_.
     andThen (ignoreNotFound (callDeleteClaim r (nc_Name cand))) (\<lambda>_.
     ret (RequeueAfter shortRequeue)))))))))"

text \<open>The attempt after its deadline check: markers, placeholder, readiness.\<close>

definition pursueSurge ::
  "Reconciler \<Rightarrow> NodePool \<Rightarrow> Resolved \<Rightarrow> NodeClaim \<Rightarrow> time \<Rightarrow> CtrlResult M" where
  "pursueSurge r pool res cand startedAt =
     andThen (freezeNode r (nc_NodeName cand) (nc_Name cand)) (\<lambda>_.
     andThen (cordonNode r (nc_NodeName cand)) (\<lambda>_.
     andThen (persistSurgeClaim r pool cand) (\<lambda>_.
     andThen (clock r) (\<lambda>now.
     if Frozen (np_Annotations pool) now then ret (RequeueAfter longRequeue)
     else andThen (getPlaceholder r (nc_Name cand)) (\<lambda>ph. case ph of
            None \<Rightarrow> andThen (createPlaceholder r pool cand res) (\<lambda>_. ret (RequeueAfter shortRequeue))
          | Some ph \<Rightarrow>
              andThen (surgeReady r pool cand ph) (\<lambda>host. case host of
                None \<Rightarrow>
                  andThen (emit (EmitPlaceholderPending (np_Name pool) cand ph)) (\<lambda>_.
                  ret (RequeueAfter shortRequeue))
              | Some host \<Rightarrow> startDrain r pool cand host startedAt))))))"

definition advancePending :: "Reconciler \<Rightarrow> NodePool \<Rightarrow> Resolved \<Rightarrow> NodeClaim \<Rightarrow> CtrlResult M" where
  "advancePending r pool res cand =
     (if nc_DeletionTimestamp cand \<noteq> None then abortPendingExpiry r pool cand
      else andThen (patchClaimIf r (nc_Name cand) (pendingEntry r)) (\<lambda>wrote. case wrote of
             claimWritten stampedStartedAt \<Rightarrow>
               andThen (getClaim r (nc_Name cand)) (\<lambda>c. case c of
                 None \<Rightarrow> ret (RequeueAfter longRequeue)
               | Some cand \<Rightarrow>
                   let startedAt = (case parseTime stampedStartedAt of None \<Rightarrow> 0 | Some t \<Rightarrow> t)
                   in andThen (clock r) (\<lambda>now.
                        if res_readyTimeout res < TimeSub now startedAt then failPending r pool res cand
                        else pursueSurge r pool res cand startedAt))
           | _ \<Rightarrow> ret (RequeueAfter shortRequeue)))"

section \<open>The surge-less start\<close>

definition fallbackRecord :: "Reconciler \<Rightarrow> annots \<Rightarrow> annots M" where
  "fallbackRecord r m =
     (let m = m(ActiveRotationState \<mapsto> StateDraining, RotationMode \<mapsto> RotationModeForcefulFallback)
      in if aget m DrainingAt = '''' then andThen (clock r) (\<lambda>now. ret (m(DrainingAt \<mapsto> rfc3339 now)))
         else ret m)"

definition startForcefulFallback :: "Reconciler \<Rightarrow> NodePool \<Rightarrow> NodeClaim \<Rightarrow> CtrlResult M" where
  "startForcefulFallback r pool cand =
     andThen (patchPool r pool (fallbackRecord r)) (\<lambda>pool.
     andThen (patchClaim r (nc_Name cand) claimDraining) (\<lambda>_.
     andThen (emit (ForcefulFallback (np_Name pool) (nc_Name cand))) (\<lambda>_.
     andThen (emitIf (rc_Events r) (EventForcefulFallback (np_Name pool) (nc_Name cand))) (\<lambda>_.
     andThen (ignoreNotFound (callDeleteClaim r (nc_Name cand))) (\<lambda>_.
     ret (RequeueAfter shortRequeue))))))"

section \<open>Draining, failed, and completion\<close>

definition poolDraining :: "annots \<Rightarrow> annots M" where
  "poolDraining m = ret (m(ActiveRotationState \<mapsto> StateDraining))"

definition advanceDraining :: "Reconciler \<Rightarrow> NodePool \<Rightarrow> NodeClaim \<Rightarrow> CtrlResult M" where
  "advanceDraining r pool cand =
     andThen (if aget (np_Annotations pool) ActiveRotationState \<noteq> StateDraining
              then patchPool r pool poolDraining else ret pool) (\<lambda>pool.
       if nc_DeletionTimestamp cand = None then
         andThen (ignoreNotFound (callDeleteClaim r (nc_Name cand))) (\<lambda>_. ret (RequeueAfter shortRequeue))
       else ret (RequeueAfter shortRequeue))"

definition retryEntry :: "unit mutator" where
  "retryEntry m =
     (if aget m State \<noteq> StateFailed then ret ((), None) else ret ((), Some (m(State \<mapsto> StatePending))))"

definition tornFailure :: "NodeClaim \<Rightarrow> annots \<Rightarrow> annots M" where
  "tornFailure cand m =
     ret (clearRotationAnchorFields
       (m(LastFailureAt \<mapsto> maxRFC3339 (aget m LastFailureAt) (aget (nc_Annotations cand) FailedAt))))"

definition expireFailed :: "Reconciler \<Rightarrow> NodePool \<Rightarrow> NodeClaim \<Rightarrow> CtrlResult M" where
  "expireFailed r pool cand =
     andThen (markExpired r (nc_Name cand) None [StateFailed]) (\<lambda>out.
       if out = expiryGone \<or> out = expiryRaced then ret (RequeueAfter shortRequeue)
       else andThen (emitIf (out = expiryClaimed) (Expired (np_Name pool) (nc_Name cand))) (\<lambda>_.
            andThen (clearAnchor r pool) (\<lambda>_. ret (RequeueAfter longRequeue))))"

text \<open>The conditions of a retry other than headroom.\<close>

definition dueForRetry :: "NodePool \<Rightarrow> Resolved \<Rightarrow> NodeClaim \<Rightarrow> Finding list \<Rightarrow> time \<Rightarrow> bool" where
  "dueForRetry pool res cand findings now =
     (let failedAt = (case parseTime (aget (nc_Annotations cand) FailedAt) of None \<Rightarrow> 0 | Some t \<Rightarrow> t);
          retry = parseInt (aget (nc_Annotations cand) RetryCount)
      in fst (StartGate (gateInputs pool res now)) \<and> \<not> staticPool pool \<and> firstFatal findings = None
         \<and> effectiveBackoff res now failedAt retry \<le> TimeSub now failedAt)"

text \<open>\<open>again\<close> is the call back into \<open>advance\<close> after the claim re-entered pending.\<close>

definition advanceFailed ::
  "Reconciler \<Rightarrow> NodePool \<Rightarrow> Resolved \<Rightarrow> NodeClaim \<Rightarrow> Finding list \<Rightarrow> CtrlResult M \<Rightarrow> CtrlResult M" where
  "advanceFailed r pool res cand findings again =
     (if nc_DeletionTimestamp cand \<noteq> None then expireFailed r pool cand
      else andThen (clock r) (\<lambda>now.
           andThen (headroom r pool res cand) (\<lambda>(hr, clamp).
             let due = dueForRetry pool res cand findings now
             in andThen (if \<not> due then ret ()
                         else if \<not> hr_Fits hr then emit (EmitHeadroomBlocked pool cand hr clamp)
                         else emit (ClearHeadroomBlocked (np_Name pool))) (\<lambda>_.
                if due \<and> hr_Fits hr then
                  andThen (patchClaimIf r (nc_Name cand) retryEntry) (\<lambda>wrote. case wrote of
                    claimWritten _ \<Rightarrow> again
                  | _ \<Rightarrow> ret (RequeueAfter shortRequeue))
                else andThen (patchPool r pool (tornFailure cand)) (\<lambda>_. ret (RequeueAfter longRequeue))))))"

text \<open>What the completion captured from the read that its write was validated against.\<close>

record Completion =
  cp_released :: bool
  cp_rotated :: bool
  cp_mode :: string
  cp_drain :: "duration option"
  cp_surgeWait :: "duration option"
  cp_surgePath :: string

definition not_released :: Completion where
  "not_released =
     \<lparr>cp_released = False, cp_rotated = False, cp_mode = '''', cp_drain = None, cp_surgeWait = None,
      cp_surgePath = ''''\<rparr>"

definition completion :: "Reconciler \<Rightarrow> string \<Rightarrow> Completion mutator" where
  "completion r name m =
     (if aget m ActiveRotation \<noteq> name then ret (not_released, None)
      else if aget m ActiveRotationState = StateDraining then
        andThen (case parseTime (aget m DrainingAt) of
                   Some drainingAt \<Rightarrow> andThen (clock r) (\<lambda>now. ret (Some (TimeSub now drainingAt)))
                 | None \<Rightarrow> ret None) (\<lambda>drain.
        andThen (clock r) (\<lambda>now.
          ret (\<lparr>cp_released = True, cp_rotated = True, cp_mode = rotationMode m, cp_drain = drain,
                cp_surgeWait = parseDuration (aget m SurgeWait), cp_surgePath = aget m SurgePath\<rparr>,
               Some (clearRotationAnchorFields (m(LastRotationAt \<mapsto> rfc3339 now))))))
      else ret (not_released\<lparr>cp_released := True, cp_mode := rotationMode m\<rparr>,
                Some (clearRotationAnchorFields m)))"

definition completeOrAbort :: "Reconciler \<Rightarrow> NodePool \<Rightarrow> string \<Rightarrow> CtrlResult M" where
  "completeOrAbort r pool name =
     andThen (surgeHostFor r name) (\<lambda>surgeNode.
     andThen (deletePlaceholder r name) (\<lambda>_.
     andThen (unfreezeNodes r name) (\<lambda>_.
     andThen (emit (ClearPlaceholderPending (np_Name pool) name)) (\<lambda>_.
     andThen (patchPoolIf r pool (completion r name)) (\<lambda>(_, c, pool).
       if \<not> cp_released c then ret (RequeueAfter longRequeue)
       else if \<not> cp_rotated c then
         andThen (emit (Expired (np_Name pool) name)) (\<lambda>_. ret (RequeueAfter longRequeue))
       else
         andThen (emit (Success (np_Name pool))) (\<lambda>_.
         andThen (case cp_drain c of
                    Some d \<Rightarrow> emit (ObserveDuration (np_Name pool) PhaseDrain d) | None \<Rightarrow> ret ()) (\<lambda>_.
         andThen (emitIf (rc_Events r) (EventRotationCompleted (np_Name pool) name (cp_surgePath c))) (\<lambda>_.
         ret (RequeueAfter longRequeue)))))))))"

section \<open>One step of the rotation in flight\<close>

text \<open>
  The handler of the claim's state. A failed claim that re-enters pending is advanced again in the
  same pass, after a fresh read; the first argument bounds these re-entries.
\<close>

fun advance ::
  "nat \<Rightarrow> Reconciler \<Rightarrow> NodePool \<Rightarrow> string \<Rightarrow> Resolved \<Rightarrow> Finding list \<Rightarrow> CtrlResult M" where
  "advance 0 r pool name res findings = fail ReentryExhausted"
| "advance (Suc n) r pool name res findings =
     andThen (getClaim r name) (\<lambda>cand. case cand of
       None \<Rightarrow> completeOrAbort r pool name
     | Some cand \<Rightarrow>
         (let st = aget (nc_Annotations cand) State
          in if st = '''' \<or> st = StatePending then advancePending r pool res cand
             else if st = StateDraining then advanceDraining r pool cand
             else if st = StateFailed then
               advanceFailed r pool res cand findings (advance n r pool (nc_Name cand) res findings)
             else if st = StateExpired then advanceExpired r pool cand
             else ret (RequeueAfter longRequeue)))"

section \<open>The window edge\<close>

text \<open>The write re-asserts the verdict and the stamp against the annotations it is applied to.\<close>

definition edgeClaim ::
  "WindowInputs \<Rightarrow> WindowAction \<Rightarrow> string \<Rightarrow> (annots \<Rightarrow> annots) \<Rightarrow> unit mutator" where
  "edgeClaim inp action opened apply m =
     (if WindowEdge (inp\<lparr>wi_Annotations := m\<rparr>) \<noteq> action \<or> aget m WindowOpenedAt \<noteq> opened
      then ret ((), None) else ret ((), Some (apply m)))"

definition evaluateWindowEdge ::
  "Reconciler \<Rightarrow> NodePool \<Rightarrow> Resolved \<Rightarrow> time \<Rightarrow> Claim list \<Rightarrow> string set \<Rightarrow> bool \<Rightarrow> NodePool M" where
  "evaluateWindowEdge r pool res now views excluded inWindow =
     (let inp = \<lparr>wi_Now = now, wi_InWindow = inWindow, wi_Annotations = np_Annotations pool,
                 wi_Census = TakeCensus views (selInputs res now excluded (hasFailedClaim views))\<rparr>;
          action = WindowEdge inp;
          opened = aget (np_Annotations pool) WindowOpenedAt;
          clear = (\<lambda>m. adel m WindowOpenedAt)
      in case action of
           WindowStamp \<Rightarrow>
             andThen (patchPoolIf r pool (edgeClaim inp action opened (\<lambda>m. m(WindowOpenedAt \<mapsto> rfc3339 now))))
               (\<lambda>(_, _, pool). ret pool)
         | WindowSettled \<Rightarrow>
             andThen (patchPoolIf r pool (edgeClaim inp action opened clear)) (\<lambda>(_, _, pool). ret pool)
         | WindowMissed \<Rightarrow>
             andThen (patchPoolIf r pool (edgeClaim inp action opened clear)) (\<lambda>(wrote, _, pool).
               if \<not> wrote then ret pool
               else andThen (emit (MissedWindow (np_Name pool))) (\<lambda>_.
                    andThen (emit (EmitWindowMissed pool opened (wi_Census inp))) (\<lambda>_. ret pool)))
         | _ \<Rightarrow> ret pool)"

section \<open>The pass over one NodePool\<close>

text \<open>The announcements after a start was anchored, then the first step of the rotation.\<close>

definition beginRotation ::
  "nat \<Rightarrow> Reconciler \<Rightarrow> NodePool \<Rightarrow> NodeClaim \<Rightarrow> bool \<Rightarrow> Resolved \<Rightarrow> Finding list \<Rightarrow> CtrlResult M" where
  "beginRotation n r pool cand surgeless res findings =
     andThen (emit (ClearNoCandidate (np_Name pool))) (\<lambda>_.
     andThen (emitIf (rc_Events r) (EventRotationStarted (np_Name pool) (nc_Name cand))) (\<lambda>_.
       if surgeless then startForcefulFallback r pool cand
       else advance n r pool (nc_Name cand) res findings))"

text \<open>The headroom gate of a start; \<open>False\<close> when it blocks.\<close>

definition headroomGate :: "Reconciler \<Rightarrow> NodePool \<Rightarrow> Resolved \<Rightarrow> NodeClaim \<Rightarrow> bool M" where
  "headroomGate r pool res cand =
     andThen (headroom r pool res cand) (\<lambda>(hr, clamp).
       if \<not> hr_Fits hr then andThen (emit (EmitHeadroomBlocked pool cand hr clamp)) (\<lambda>_. ret False)
       else andThen (emit (ClearHeadroomBlocked (np_Name pool))) (\<lambda>_. ret True))"

text \<open>The anchor is taken under the resource version the pass decided on; a conflict yields.\<close>

definition anchorAndBegin ::
  "nat \<Rightarrow> Reconciler \<Rightarrow> NodePool \<Rightarrow> NodeClaim \<Rightarrow> bool \<Rightarrow> Resolved \<Rightarrow> Finding list \<Rightarrow> CtrlResult M" where
  "anchorAndBegin n r pool cand surgeless res findings =
     bindR (anchorRotation r pool (nc_Name cand)) (\<lambda>anchored. case anchored of
       Inl e \<Rightarrow> (if e = IsConflict then ret (RequeueAfter longRequeue) else fail e)
     | Inr pool \<Rightarrow> beginRotation n r pool cand surgeless res findings)"

definition startCandidate ::
  "nat \<Rightarrow> Reconciler \<Rightarrow> NodePool \<Rightarrow> Resolved \<Rightarrow> time \<Rightarrow> Claim \<Rightarrow> NodeClaim \<Rightarrow> Finding list \<Rightarrow> CtrlResult M" where
  "startCandidate n r pool res now pick cand findings =
     (let surgeless = SurgelessFallback pick (gateInputs pool res now)
      in andThen (if surgeless then ret True else headroomGate r pool res cand) (\<lambda>fits.
           if \<not> fits then ret (RequeueAfter longRequeue)
           else anchorAndBegin n r pool cand surgeless res findings))"

text \<open>Steps 1a to 3: the gates, the pick, the anchor.\<close>

definition startRotation ::
  "nat \<Rightarrow> Reconciler \<Rightarrow> NodePool \<Rightarrow> Resolved \<Rightarrow> time \<Rightarrow> NodeClaim list \<Rightarrow> string set \<Rightarrow> Finding list \<Rightarrow>
   CtrlResult M" where
  "startRotation n r pool res now claims excluded findings =
     (let (views, byName) = adapt_Claims claims;
          gi = gateInputs pool res now;
          sel = selInputs res now excluded (hasFailedClaim views);
          idle = ret (RequeueAfter longRequeue)
      in if staticPool pool then andThen (emit (EmitStaticNodePool pool)) (\<lambda>_. idle)
         else andThen (emit (ClearStaticNodePool (np_Name pool))) (\<lambda>_.
           if firstFatal findings \<noteq> None then idle
           else if \<not> fst (StartGate gi) then andThen (emit (EmitNoCandidate pool (snd (StartGate gi)))) (\<lambda>_. idle)
           else case PickEarliestDeadlineEligible views sel of
                  None \<Rightarrow> andThen (emit (EmitNoCandidateCensus pool (TakeCensus views sel))) (\<lambda>_. idle)
                | Some pick \<Rightarrow>
                    (case byName (c_Name pick) of
                       None \<Rightarrow> idle
                     | Some cand \<Rightarrow> startCandidate n r pool res now pick cand findings)))"

definition reconcileNodePool ::
  "nat \<Rightarrow> Reconciler \<Rightarrow> NodePool \<Rightarrow> Policy \<Rightarrow> Schedule \<Rightarrow> CtrlResult M" where
  "reconcileNodePool n r pool pol sched =
     andThen (clock r) (\<lambda>now.
     let res = resolve pool pol sched in
     andThen (poolClaims r pool) (\<lambda>claims.
     let views = fst (adapt_Claims claims) in
     andThen (excludedClaims r pool claims) (\<lambda>excluded.
     let p = deref (WorstCasePeriod sched);
         d = deref (ShortestWindow sched);
         derived = derivedThresholds pool res p d (ShortestIdleGap sched) (length claims) in
     andThen (observe pool res now claims views p derived excluded) (\<lambda>_.
     andThen (emit (EmitFindings pool (r_Findings derived))) (\<lambda>_.
     andThen (emit (EmitShortLead pool claims (res_leadTime res))) (\<lambda>_.
     andThen (evaluateWindowEdge r pool res now views excluded (InWindow sched now)) (\<lambda>pool.
     let name = aget (np_Annotations pool) ActiveRotation in
     if name \<noteq> '''' then advance n r pool name res (r_Findings derived)
     else startRotation n r pool res now claims excluded (r_Findings derived))))))))"

section \<open>Reconcile\<close>

definition reapUngovernedRotation :: "Reconciler \<Rightarrow> NodePool \<Rightarrow> unit M" where
  "reapUngovernedRotation r pool =
     (let claim = aget (np_Annotations pool) ActiveRotation
      in if claim = '''' then ret ()
         else andThen (emit (ClearPlaceholderPending (np_Name pool) claim)) (\<lambda>_.
              andThen (deletePlaceholder r claim) (\<lambda>_.
              andThen (unfreezeNodes r claim) (\<lambda>_.
              andThen (clearAnchorIf r pool claim) (\<lambda>reaped.
                if \<not> reaped then ret ()
                else emitIf (rc_Events r) (EventGovernanceLost (np_Name pool) claim))))))"

text \<open>What a pass does by the governance of its NodePool.\<close>

definition underGovernance :: "nat \<Rightarrow> Reconciler \<Rightarrow> NodePool \<Rightarrow> Governance \<Rightarrow> CtrlResult M" where
  "underGovernance n r pool gov =
     (case gov of
        Contested detail \<Rightarrow>
          andThen (emit (ForgetPool (np_Name pool))) (\<lambda>_.
          andThen (emit (ObservePolicyConflict (np_Name pool) True)) (\<lambda>_.
          andThen (emit (EmitConflict pool detail)) (\<lambda>_.
          andThen (reapUngovernedRotation r pool) (\<lambda>_. ret (RequeueAfter longRequeue)))))
      | Ungoverned \<Rightarrow>
          andThen (reapUngovernedRotation r pool) (\<lambda>_.
          andThen (emit (ForgetPool (np_Name pool))) (\<lambda>_.
          andThen (emit (Forget (np_Name pool))) (\<lambda>_. ret NoRequeue)))
      | Governed pol sched \<Rightarrow>
          andThen (emit (ObservePolicyConflict (np_Name pool) False)) (\<lambda>_.
          andThen (emit (ClearConflict (np_Name pool))) (\<lambda>_.
          reconcileNodePool n r pool pol sched)))"

text \<open>
  \<open>Reconcile\<close> on one request. The sweep of the first call of a process is the program
  \<open>startup\<close>, whose errors are logged and dropped.
\<close>

definition Reconcile :: "nat \<Rightarrow> Reconciler \<Rightarrow> unit M \<Rightarrow> string \<Rightarrow> CtrlResult M" where
  "Reconcile n r startup name =
     bindR startup (\<lambda>_.
     bindR (callGetPool r name) (\<lambda>got. case got of
       Inl e \<Rightarrow>
         (if e = IsNotFound
          then andThen (emit (ForgetPool name)) (\<lambda>_. andThen (emit (Forget name)) (\<lambda>_. ret NoRequeue))
          else fail e)
     | Inr pool \<Rightarrow> andThen (governingPolicy r pool) (underGovernance n r pool)))"

end
