(* ===== verification/Conditional.thy ===== *)
theory Conditional
  imports Writes Rotation
begin

text \<open>
  Conditional writes. A mutator that reads nothing but the clock is \<open>quiet\<close>; a conditional write
  with such a mutator lands on the object its last attempt read, or not at all. The step relations
  of the protocol build on this interface.
\<close>

section \<open>Quiet mutators\<close>

definition clock_only :: "Effect list \<Rightarrow> bool" where
  "clock_only t \<longleftrightarrow> (\<forall>e\<in>set t. \<exists>now. e = ReadClock now)"

lemma clock_only_simps [simp]:
  "clock_only []" "clock_only (ReadClock n # t) = clock_only t" "clock_only (s @ t) \<longleftrightarrow> clock_only s \<and> clock_only t"
  by (auto simp: clock_only_def)

locale quiet_mutator =
  fixes mutate :: "'x mutator"
  assumes quiet: "clock_only (effects (mutate m) k)"
begin

lemma poolAttempt_effects:
  "effects (poolAttempt r pool mutate) k =
     CallGetPool (np_Name pool) (api_GetPool (rc_Api r) k (np_Name pool)) #
     (case api_GetPool (rc_Api r) k (np_Name pool) of
        Inl _ \<Rightarrow> []
      | Inr fresh \<Rightarrow>
          effects (mutate (np_Annotations fresh)) (Suc k) @
          (case result (mutate (np_Annotations fresh)) (Suc k) of
             Inr (x, Some m) \<Rightarrow>
               [CallUpdatePool (fresh\<lparr>np_Annotations := m\<rparr>)
                  (api_UpdatePool (rc_Api r) (nextk (mutate (np_Annotations fresh)) (Suc k)) (fresh\<lparr>np_Annotations := m\<rparr>))]
           | _ \<Rightarrow> []))"
  by (simp add: poolAttempt_def run_andThen call_defs split: sum.splits prod.splits option.splits)

text \<open>A reported write landed, on the object the same attempt read.\<close>

lemma poolAttempt_written:
  assumes "result (poolAttempt r pool mutate) k = Inr (True, x, q)"
  shows "\<exists>fresh m j. result (mutate (np_Annotations fresh)) j = Inr (x, Some m)
    \<and> effects (poolAttempt r pool mutate) k =
        CallGetPool (np_Name pool) (Inr fresh) # effects (mutate (np_Annotations fresh)) j
          @ [CallUpdatePool (fresh\<lparr>np_Annotations := m\<rparr>) (Inr q)]"
  using assms by (force simp: poolAttempt_def run_andThen call_defs split: sum.splits prod.splits option.splits)

lemma poolAttempt_vetoed:
  assumes "result (poolAttempt r pool mutate) k = Inr (False, x, q)"
  shows "\<exists>j. result (mutate (np_Annotations q)) j = Inr (x, None)
    \<and> effects (poolAttempt r pool mutate) k =
        CallGetPool (np_Name pool) (Inr q) # effects (mutate (np_Annotations q)) j"
  using assms by (force simp: poolAttempt_def run_andThen call_defs split: sum.splits prod.splits option.splits)

lemma poolAttempt_failed:
  assumes "result (poolAttempt r pool mutate) k = Inl e"
  shows "CallUpdatePool p (Inr q) \<notin> set (effects (poolAttempt r pool mutate) k)"
proof
  assume "CallUpdatePool p (Inr q) \<in> set (effects (poolAttempt r pool mutate) k)"
  with assms quiet show False
    by (fastforce simp: poolAttempt_def run_andThen call_defs clock_only_def split: sum.splits prod.splits option.splits)
qed

text \<open>The last attempt decides; no attempt before it wrote.\<close>

lemma patchPool_last:
  assumes "result (patchPoolIf r pool mutate) k = Inr w"
  obtains k' before where "result (poolAttempt r pool mutate) k' = Inr w"
    "effects (patchPoolIf r pool mutate) k = before @ effects (poolAttempt r pool mutate) k'"
    "\<forall>p q. CallUpdatePool p (Inr q) \<notin> set before"
proof -
  from retry_result [OF assms [unfolded patchPoolIf_def]] obtain k' before where
    "result (poolAttempt r pool mutate) k' = Inr w"
    "effects (patchPoolIf r pool mutate) k = before @ effects (poolAttempt r pool mutate) k'"
    "\<forall>e\<in>set before. \<exists>j. e \<in> set (effects (poolAttempt r pool mutate) j) \<and> result (poolAttempt r pool mutate) j = Inl IsConflict"
    unfolding patchPoolIf_def by blast
  with poolAttempt_failed show thesis by (intro that) blast+
qed

lemma patchPool_written:
  assumes "result (patchPoolIf r pool mutate) k = Inr (True, x, q)"
  shows "\<exists>fresh m j before. result (mutate (np_Annotations fresh)) j = Inr (x, Some m)
    \<and> effects (patchPoolIf r pool mutate) k =
        before @ CallGetPool (np_Name pool) (Inr fresh) # effects (mutate (np_Annotations fresh)) j
          @ [CallUpdatePool (fresh\<lparr>np_Annotations := m\<rparr>) (Inr q)]
    \<and> (\<forall>p q. CallUpdatePool p (Inr q) \<notin> set before)"
proof -
  from patchPool_last [OF assms] obtain k' before where
    r: "result (poolAttempt r pool mutate) k' = Inr (True, x, q)" and
    e: "effects (patchPoolIf r pool mutate) k = before @ effects (poolAttempt r pool mutate) k'" and
    b: "\<forall>p q. CallUpdatePool p (Inr q) \<notin> set before"
    by blast
  from poolAttempt_written [OF r] obtain fresh m j where
    "result (mutate (np_Annotations fresh)) j = Inr (x, Some m)"
    "effects (poolAttempt r pool mutate) k' =
        CallGetPool (np_Name pool) (Inr fresh) # effects (mutate (np_Annotations fresh)) j
          @ [CallUpdatePool (fresh\<lparr>np_Annotations := m\<rparr>) (Inr q)]" by blast
  with b e show ?thesis
    by (intro exI [of _ fresh] exI [of _ m] exI [of _ j] exI [of _ before]) simp
qed

lemma patchPool_not_written:
  assumes "result (patchPoolIf r pool mutate) k = Inr (False, x, q)"
  shows "CallGetPool (np_Name pool) (Inr q) \<in> set (effects (patchPoolIf r pool mutate) k)
    \<and> (\<exists>j. result (mutate (np_Annotations q)) j = Inr (x, None))
    \<and> (\<forall>p p'. CallUpdatePool p (Inr p') \<notin> set (effects (patchPoolIf r pool mutate) k))"
proof -
  from patchPool_last [OF assms] obtain k' before where
    r: "result (poolAttempt r pool mutate) k' = Inr (False, x, q)" and
    e: "effects (patchPoolIf r pool mutate) k = before @ effects (poolAttempt r pool mutate) k'" and
    b: "\<forall>p q. CallUpdatePool p (Inr q) \<notin> set before"
    by blast
  from poolAttempt_vetoed [OF r] obtain j where
    v: "result (mutate (np_Annotations q)) j = Inr (x, None)"
    "effects (poolAttempt r pool mutate) k' =
        CallGetPool (np_Name pool) (Inr q) # effects (mutate (np_Annotations q)) j" by blast
  have "\<forall>p p'. CallUpdatePool p (Inr p') \<notin> set (effects (mutate (np_Annotations q)) j)"
    using quiet [of "np_Annotations q" j] by (auto simp: clock_only_def)
  with v b e show ?thesis by auto
qed

lemma patchPool_failed:
  assumes "result (patchPoolIf r pool mutate) k = Inl e"
  shows "CallUpdatePool p (Inr q) \<notin> set (effects (patchPoolIf r pool mutate) k)"
  using retry_error [OF assms [unfolded patchPoolIf_def]] poolAttempt_failed unfolding patchPoolIf_def by blast

lemma claimAttempt_effects:
  "effects (claimAttempt r name mutate) k =
     CallGetClaim name (api_GetClaim (rc_Api r) k name) #
     (case api_GetClaim (rc_Api r) k name of
        Inl _ \<Rightarrow> []
      | Inr fresh \<Rightarrow>
          effects (mutate (nc_Annotations fresh)) (Suc k) @
          (case result (mutate (nc_Annotations fresh)) (Suc k) of
             Inr (x, Some m) \<Rightarrow>
               [CallUpdateClaim (fresh\<lparr>nc_Annotations := m\<rparr>)
                  (api_UpdateClaim (rc_Api r) (nextk (mutate (nc_Annotations fresh)) (Suc k)) (fresh\<lparr>nc_Annotations := m\<rparr>))]
           | _ \<Rightarrow> []))"
  by (simp add: claimAttempt_def getClaim_def orNil_def run_andThen call_defs split: sum.splits prod.splits option.splits)

lemma claimAttempt_written:
  assumes "result (claimAttempt r name mutate) k = Inr (claimWritten x)"
  shows "\<exists>fresh m q j. result (mutate (nc_Annotations fresh)) j = Inr (x, Some m)
    \<and> effects (claimAttempt r name mutate) k =
        CallGetClaim name (Inr fresh) # effects (mutate (nc_Annotations fresh)) j
          @ [CallUpdateClaim (fresh\<lparr>nc_Annotations := m\<rparr>) (Inr q)]"
  using assms
  by (force simp: claimAttempt_def getClaim_def orNil_def run_andThen call_defs split: sum.splits prod.splits option.splits if_splits)

lemma claimAttempt_vetoed:
  assumes "result (claimAttempt r name mutate) k = Inr (claimVetoed x)"
  shows "\<exists>q j. result (mutate (nc_Annotations q)) j = Inr (x, None)
    \<and> effects (claimAttempt r name mutate) k =
        CallGetClaim name (Inr q) # effects (mutate (nc_Annotations q)) j"
  using assms
  by (force simp: claimAttempt_def getClaim_def orNil_def run_andThen call_defs split: sum.splits prod.splits option.splits if_splits)

lemma claimAttempt_gone:
  assumes "result (claimAttempt r name mutate) k = Inr claimGone"
  shows "effects (claimAttempt r name mutate) k = [CallGetClaim name (Inl IsNotFound)]"
  using assms
  by (force simp: claimAttempt_def getClaim_def orNil_def run_andThen call_defs split: sum.splits prod.splits option.splits if_splits)

lemma claimAttempt_failed:
  assumes "result (claimAttempt r name mutate) k = Inl e"
  shows "CallUpdateClaim p (Inr q) \<notin> set (effects (claimAttempt r name mutate) k)"
proof
  assume "CallUpdateClaim p (Inr q) \<in> set (effects (claimAttempt r name mutate) k)"
  with assms quiet show False
    by (fastforce simp: claimAttempt_def getClaim_def orNil_def run_andThen call_defs clock_only_def
        split: sum.splits prod.splits option.splits if_splits)
qed

text \<open>The last attempt decides; no attempt before it wrote.\<close>

lemma patchClaim_last:
  assumes "result (patchClaimIf r name mutate) k = Inr w"
  obtains k' before where "result (claimAttempt r name mutate) k' = Inr w"
    "effects (patchClaimIf r name mutate) k = before @ effects (claimAttempt r name mutate) k'"
    "\<forall>p q. CallUpdateClaim p (Inr q) \<notin> set before"
proof -
  from retry_result [OF assms [unfolded patchClaimIf_def]] obtain k' before where
    "result (claimAttempt r name mutate) k' = Inr w"
    "effects (patchClaimIf r name mutate) k = before @ effects (claimAttempt r name mutate) k'"
    "\<forall>e\<in>set before. \<exists>j. e \<in> set (effects (claimAttempt r name mutate) j) \<and> result (claimAttempt r name mutate) j = Inl IsConflict"
    unfolding patchClaimIf_def by blast
  with claimAttempt_failed show thesis by (intro that) blast+
qed

text \<open>The three outcomes, with what they leave in the trace.\<close>

lemma patchClaim_written:
  assumes "result (patchClaimIf r name mutate) k = Inr (claimWritten x)"
  shows "\<exists>fresh m q j before. result (mutate (nc_Annotations fresh)) j = Inr (x, Some m)
    \<and> effects (patchClaimIf r name mutate) k =
        before @ CallGetClaim name (Inr fresh) # effects (mutate (nc_Annotations fresh)) j
          @ [CallUpdateClaim (fresh\<lparr>nc_Annotations := m\<rparr>) (Inr q)]
    \<and> (\<forall>p q. CallUpdateClaim p (Inr q) \<notin> set before)"
proof -
  from patchClaim_last [OF assms] obtain k' before where
    r: "result (claimAttempt r name mutate) k' = Inr (claimWritten x)" and
    e: "effects (patchClaimIf r name mutate) k = before @ effects (claimAttempt r name mutate) k'" and
    b: "\<forall>p q. CallUpdateClaim p (Inr q) \<notin> set before"
    by blast
  from claimAttempt_written [OF r] obtain fresh m q j where
    "result (mutate (nc_Annotations fresh)) j = Inr (x, Some m)"
    "effects (claimAttempt r name mutate) k' =
        CallGetClaim name (Inr fresh) # effects (mutate (nc_Annotations fresh)) j
          @ [CallUpdateClaim (fresh\<lparr>nc_Annotations := m\<rparr>) (Inr q)]" by blast
  with b e show ?thesis
    by (intro exI [of _ fresh] exI [of _ m] exI [of _ q] exI [of _ j] exI [of _ before]) simp
qed

lemma patchClaim_vetoed:
  assumes "result (patchClaimIf r name mutate) k = Inr (claimVetoed x)"
  shows "\<exists>q j. CallGetClaim name (Inr q) \<in> set (effects (patchClaimIf r name mutate) k)
    \<and> result (mutate (nc_Annotations q)) j = Inr (x, None)
    \<and> (\<forall>p p'. CallUpdateClaim p (Inr p') \<notin> set (effects (patchClaimIf r name mutate) k))"
proof -
  from patchClaim_last [OF assms] obtain k' before where
    r: "result (claimAttempt r name mutate) k' = Inr (claimVetoed x)" and
    e: "effects (patchClaimIf r name mutate) k = before @ effects (claimAttempt r name mutate) k'" and
    b: "\<forall>p q. CallUpdateClaim p (Inr q) \<notin> set before"
    by blast
  from claimAttempt_vetoed [OF r] obtain q j where
    v: "result (mutate (nc_Annotations q)) j = Inr (x, None)"
    "effects (claimAttempt r name mutate) k' =
        CallGetClaim name (Inr q) # effects (mutate (nc_Annotations q)) j" by blast
  have "\<forall>p p'. CallUpdateClaim p (Inr p') \<notin> set (effects (mutate (nc_Annotations q)) j)"
    using quiet [of "nc_Annotations q" j] by (auto simp: clock_only_def)
  with b e v show ?thesis by (intro exI [of _ q] exI [of _ j]) auto
qed

lemma patchClaim_gone:
  assumes "result (patchClaimIf r name mutate) k = Inr claimGone"
  shows "CallGetClaim name (Inl IsNotFound) \<in> set (effects (patchClaimIf r name mutate) k)
    \<and> (\<forall>p p'. CallUpdateClaim p (Inr p') \<notin> set (effects (patchClaimIf r name mutate) k))"
proof -
  from patchClaim_last [OF assms] obtain k' before where
    r: "result (claimAttempt r name mutate) k' = Inr claimGone" and
    e: "effects (patchClaimIf r name mutate) k = before @ effects (claimAttempt r name mutate) k'" and
    b: "\<forall>p q. CallUpdateClaim p (Inr q) \<notin> set before"
    by blast
  with b e claimAttempt_gone [OF r] show ?thesis by auto
qed

lemma patchClaim_failed:
  assumes "result (patchClaimIf r name mutate) k = Inl e"
  shows "CallUpdateClaim p (Inr q) \<notin> set (effects (patchClaimIf r name mutate) k)"
  using retry_error [OF assms [unfolded patchClaimIf_def]] claimAttempt_failed unfolding patchClaimIf_def by blast

end

interpretation expired_entry: quiet_mutator "expiredEntry extra frm" for extra frm
  by unfold_locales (simp add: expiredEntry_def Let_def)

section \<open>Accepted writes and attempts\<close>

definition pool_updates :: "Effect list \<Rightarrow> (NodePool \<times> NodePool) list" where
  "pool_updates t = List.map_filter (\<lambda>e. case e of CallUpdatePool p (Inr q) \<Rightarrow> Some (p, q) | _ \<Rightarrow> None) t"

definition claim_updates :: "Effect list \<Rightarrow> (NodeClaim \<times> NodeClaim) list" where
  "claim_updates t = List.map_filter (\<lambda>e. case e of CallUpdateClaim p (Inr q) \<Rightarrow> Some (p, q) | _ \<Rightarrow> None) t"

definition pool_reads :: "Effect list \<Rightarrow> nat" where
  "pool_reads t = length (filter (\<lambda>e. case e of CallGetPool _ _ \<Rightarrow> True | _ \<Rightarrow> False) t)"

lemma updates_append [simp]:
  "pool_updates (s @ t) = pool_updates s @ pool_updates t" "claim_updates (s @ t) = claim_updates s @ claim_updates t"
  "pool_reads (s @ t) = pool_reads s + pool_reads t"
  by (simp_all add: pool_updates_def claim_updates_def pool_reads_def List.map_filter_def)

lemma pool_updates_Nil_iff: "pool_updates t = [] \<longleftrightarrow> (\<forall>p q. CallUpdatePool p (Inr q) \<notin> set t)"
  by (induction t) (auto simp: pool_updates_def List.map_filter_simps split: Effect.splits sum.splits)

lemma claim_updates_Nil_iff: "claim_updates t = [] \<longleftrightarrow> (\<forall>p q. CallUpdateClaim p (Inr q) \<notin> set t)"
  by (induction t) (auto simp: claim_updates_def List.map_filter_simps split: Effect.splits sum.splits)

lemma clock_only_updates:
  assumes "clock_only t"
  shows "pool_updates t = []" "claim_updates t = []" "pool_reads t = 0"
  using assms
  by (induction t) (auto simp: clock_only_def pool_updates_def claim_updates_def pool_reads_def List.map_filter_simps)

lemma single_updates [simp]:
  "pool_updates [CallUpdatePool p (Inr q)] = [(p, q)]" "claim_updates [CallUpdateClaim c (Inr d)] = [(c, d)]"
  "pool_updates (CallGetPool n a # t) = pool_updates t" "claim_updates (CallGetClaim m b # t) = claim_updates t"
  "pool_reads (CallGetPool n a # t) = Suc (pool_reads t)" "pool_reads [CallUpdatePool p x] = 0" "pool_reads [] = 0"
  by (simp_all add: pool_updates_def claim_updates_def pool_reads_def List.map_filter_simps)

lemma retry_count:
  assumes "\<And>k. tally (effects fn k) \<le> (1::nat)" "\<And>s t. tally (s @ t) = tally s + tally t" "tally [] = 0"
  shows "tally (effects (retryOnConflict n fn) k) \<le> n"
proof (induction n arbitrary: k)
  case (Suc n)
  have "tally (effects fn k) + c \<le> Suc n" if "c \<le> n" for c using assms(1) [of k] that by simp
  then show ?case using Suc assms(2,3) by (auto split: sum.splits)
qed (simp add: assms)

text \<open>
  A conditional write of a NodePool is exact. It reads the NodePool at most as often as attempts
  are allowed. When it reports a write, exactly one update was accepted: the mutator's own decision
  applied to the object read by the same attempt. When it reports a veto, no update was accepted and
  the mutator vetoed the object it returns. On an error no update was accepted.
\<close>

theorem patchPoolIf_exact:
  assumes "\<And>m k. clock_only (effects (mutate m) k)"
  shows "pool_reads (effects (patchPoolIf r pool mutate) k) \<le> rc_Attempts r
    \<and> (case result (patchPoolIf r pool mutate) k of
         Inl e \<Rightarrow> pool_updates (effects (patchPoolIf r pool mutate) k) = []
       | Inr (wrote, x, q) \<Rightarrow>
           if wrote then
             \<exists>fresh m j. CallGetPool (np_Name pool) (Inr fresh) \<in> set (effects (patchPoolIf r pool mutate) k)
               \<and> result (mutate (np_Annotations fresh)) j = Inr (x, Some m)
               \<and> pool_updates (effects (patchPoolIf r pool mutate) k) = [(fresh\<lparr>np_Annotations := m\<rparr>, q)]
           else
             CallGetPool (np_Name pool) (Inr q) \<in> set (effects (patchPoolIf r pool mutate) k)
               \<and> (\<exists>j. result (mutate (np_Annotations q)) j = Inr (x, None))
               \<and> pool_updates (effects (patchPoolIf r pool mutate) k) = [])"
proof
  have quiet: "quiet_mutator mutate" by (rule quiet_mutator.intro) (rule assms)
  have "pool_reads (effects (poolAttempt r pool mutate) k) \<le> 1" for k
    using clock_only_updates(3) [OF assms]
    by (auto simp: quiet_mutator.poolAttempt_effects [OF quiet] pool_reads_def split: sum.splits option.splits)
  then show "pool_reads (effects (patchPoolIf r pool mutate) k) \<le> rc_Attempts r"
    unfolding patchPoolIf_def by (rule retry_count) simp_all
  show "case result (patchPoolIf r pool mutate) k of
         Inl e \<Rightarrow> pool_updates (effects (patchPoolIf r pool mutate) k) = []
       | Inr (wrote, x, q) \<Rightarrow>
           if wrote then
             \<exists>fresh m j. CallGetPool (np_Name pool) (Inr fresh) \<in> set (effects (patchPoolIf r pool mutate) k)
               \<and> result (mutate (np_Annotations fresh)) j = Inr (x, Some m)
               \<and> pool_updates (effects (patchPoolIf r pool mutate) k) = [(fresh\<lparr>np_Annotations := m\<rparr>, q)]
           else
             CallGetPool (np_Name pool) (Inr q) \<in> set (effects (patchPoolIf r pool mutate) k)
               \<and> (\<exists>j. result (mutate (np_Annotations q)) j = Inr (x, None))
               \<and> pool_updates (effects (patchPoolIf r pool mutate) k) = []"
  proof (cases "result (patchPoolIf r pool mutate) k")
    case (Inl e)
    then show ?thesis by (simp add: pool_updates_Nil_iff quiet_mutator.patchPool_failed [OF quiet])
  next
    case (Inr a)
    obtain wrote x q where a: "a = (wrote, x, q)" by (cases a)
    show ?thesis
    proof (cases wrote)
      case True
      with Inr a have "result (patchPoolIf r pool mutate) k = Inr (True, x, q)" by simp
      from quiet_mutator.patchPool_written [OF quiet this] obtain fresh m j before where
        m: "result (mutate (np_Annotations fresh)) j = Inr (x, Some m)" and
        e: "effects (patchPoolIf r pool mutate) k =
          before @ CallGetPool (np_Name pool) (Inr fresh) # effects (mutate (np_Annotations fresh)) j
            @ [CallUpdatePool (fresh\<lparr>np_Annotations := m\<rparr>) (Inr q)]" and
        b: "\<forall>p q. CallUpdatePool p (Inr q) \<notin> set before" by blast
      have "pool_updates (effects (patchPoolIf r pool mutate) k) = [(fresh\<lparr>np_Annotations := m\<rparr>, q)]"
        using b pool_updates_Nil_iff clock_only_updates(1) [OF assms] by (simp add: e)
      moreover have "CallGetPool (np_Name pool) (Inr fresh) \<in> set (effects (patchPoolIf r pool mutate) k)"
        by (simp add: e)
      ultimately show ?thesis using Inr a True m by auto
    next
      case False
      with Inr a have "result (patchPoolIf r pool mutate) k = Inr (False, x, q)" by simp
      from quiet_mutator.patchPool_not_written [OF quiet this] Inr a False show ?thesis
        by (simp add: pool_updates_Nil_iff)
    qed
  qed
qed

text \<open>
  A server for the examples: nothing is found, lists are empty, every write is accepted, the clock
  stands at hour 1000.
\<close>

definition demo_api :: Api where
  "demo_api =
     \<lparr>api_now = \<lambda>k. 1000 * Hour, api_GetPool = \<lambda>k n. Inl IsNotFound, api_GetClaim = \<lambda>k n. Inl IsNotFound,
      api_GetNode = \<lambda>k n. Inl IsNotFound, api_GetPod = \<lambda>k n. Inl IsNotFound,
      api_ListPolicies = \<lambda>k. Inr [], api_ListPools = \<lambda>k. Inr [], api_ListClaims = \<lambda>k s. Inr [],
      api_ListNodes = \<lambda>k s. Inr [], api_ListPods = \<lambda>k s. Inr [],
      api_UpdatePool = \<lambda>k p. Inr p, api_UpdateClaim = \<lambda>k c. Inr c, api_UpdateNode = \<lambda>k n. Inr n,
      api_DeleteClaim = \<lambda>k n. Inr (), api_DeletePod = \<lambda>k key u. Inr (), api_CreatePod = \<lambda>k p. Inr p\<rparr>"

definition demo_reconciler :: "Api \<Rightarrow> Reconciler" where
  "demo_reconciler api =
     \<lparr>rc_Api = api, rc_Attempts = 5, rc_Namespace = ''kube-system'', rc_PlaceholderImage = ''pause'',
      rc_PriorityClassName = ''surge'', rc_Events = True, rc_sha256_hex = \<lambda>s. s, rc_loadLocation = \<lambda>s. if s = ''UTC'' then Some UTC else None,
      rc_compile = demo_compile\<rparr>"

text \<open>A NodePool whose rotation of the claim \<open>c\<close> is draining.\<close>

definition demo_draining_pool :: NodePool where
  "demo_draining_pool =
     (demo_nodepool Map.empty)\<lparr>np_Annotations := [ActiveRotation \<mapsto> ''c'', ActiveRotationState \<mapsto> StateDraining]\<rparr>"

lemma demo_simps [eval_simps]:
  "rc_Api (demo_reconciler api) = api" "rc_Attempts (demo_reconciler api) = 5" "rc_Events (demo_reconciler api)"
  "np_Name demo_draining_pool = ''pool-a''" "np_ResourceVersion demo_draining_pool = 1"
  "np_Annotations demo_draining_pool = [ActiveRotation \<mapsto> ''c'', ActiveRotationState \<mapsto> StateDraining]"
  by (simp_all add: demo_reconciler_def demo_draining_pool_def demo_nodepool_def)

lemma retry_5: "retryOnConflict 5 fn = retryOnConflict (Suc (Suc (Suc (Suc (Suc 0))))) fn"
  by (simp add: eval_nat_numeral del: retryOnConflict.simps)

theorem patchPoolIf_exact_witness:
  "let r = demo_reconciler (demo_api\<lparr>api_GetPool := \<lambda>k n. Inr demo_draining_pool,
             api_UpdatePool := \<lambda>k p. if k < 3 then Inl IsConflict else Inr p\<rparr>);
       released = demo_draining_pool\<lparr>np_Annotations := clearRotationAnchorFields (np_Annotations demo_draining_pool)\<rparr>
   in result (patchPoolIf r demo_draining_pool (releaseIf ''c'')) 0 = Inr (True, True, released)
      \<and> pool_updates (effects (patchPoolIf r demo_draining_pool (releaseIf ''c'')) 0) = [(released, released)]
      \<and> pool_reads (effects (patchPoolIf r demo_draining_pool (releaseIf ''c'')) 0) \<le> 5"
proof -
  let ?r = "demo_reconciler (demo_api\<lparr>api_GetPool := \<lambda>k n. Inr demo_draining_pool,
             api_UpdatePool := \<lambda>k p. if k < 3 then Inl IsConflict else Inr p\<rparr>)"
  let ?released = "demo_draining_pool\<lparr>np_Annotations := clearRotationAnchorFields (np_Annotations demo_draining_pool)\<rparr>"
  let ?p = "patchPoolIf ?r demo_draining_pool (releaseIf ''c'')"
  have attempt: "result (poolAttempt ?r demo_draining_pool (releaseIf ''c'')) k =
      (if Suc k < 3 then Inl IsConflict else Inr (True, True, ?released))"
    "nextk (poolAttempt ?r demo_draining_pool (releaseIf ''c'')) k = Suc (Suc k)" for k
    by (simp_all add: poolAttempt_def run_andThen call_defs releaseIf_def demo_simps split: sum.splits)
  have res: "result ?p 0 = Inr (True, True, ?released)"
    by (simp add: patchPoolIf_def demo_simps retry_5 attempt)
  have quiet: "clock_only (effects (releaseIf ''c'' m) k)" for m k by (simp add: releaseIf_def)
  have exact: "pool_reads (effects ?p 0) \<le> rc_Attempts ?r" "\<exists>fresh m j. CallGetPool (np_Name demo_draining_pool) (Inr fresh) \<in> set (effects ?p 0)
      \<and> result (releaseIf ''c'' (np_Annotations fresh)) j = Inr (True, Some m)
      \<and> pool_updates (effects ?p 0) = [(fresh\<lparr>np_Annotations := m\<rparr>, ?released)]"
    using patchPoolIf_exact [of "releaseIf ''c''" ?r demo_draining_pool 0, OF quiet] res by simp_all
  have "effects ?p 0 = [CallGetPool ''pool-a'' (Inr demo_draining_pool), CallUpdatePool ?released (Inl IsConflict),
      CallGetPool ''pool-a'' (Inr demo_draining_pool), CallUpdatePool ?released (Inr ?released)]"
    by (simp add: patchPoolIf_def demo_simps retry_5 attempt, simp add: poolAttempt_def run_andThen call_defs releaseIf_def demo_simps)
  with exact obtain fresh m where "fresh = demo_draining_pool" "pool_updates (effects ?p 0) = [(fresh\<lparr>np_Annotations := m\<rparr>, ?released)]"
    "m = clearRotationAnchorFields (np_Annotations fresh)"
    by (auto simp: releaseIf_def split: if_splits)
  with exact(1) res show ?thesis by (simp add: Let_def demo_simps)
qed

text \<open>What the write of the terminal state saw when it was vetoed and when it was accepted.\<close>

lemma expired_vetoed:
  assumes "result (patchClaimIf r name (expiredEntry extra frm)) k = Inr (claimVetoed already)"
  shows "claim_updates (effects (patchClaimIf r name (expiredEntry extra frm)) k) = []"
    and "\<exists>c. CallGetClaim name (Inr c) \<in> set (effects (patchClaimIf r name (expiredEntry extra frm)) k)
      \<and> (if already then aget (nc_Annotations c) State = StateExpired
         else aget (nc_Annotations c) State \<notin> insert StateExpired (set frm))"
proof -
  from expired_entry.patchClaim_vetoed [OF assms] obtain c j where
    c: "CallGetClaim name (Inr c) \<in> set (effects (patchClaimIf r name (expiredEntry extra frm)) k)"
    "result (expiredEntry extra frm (nc_Annotations c)) j = Inr (already, None)"
    "\<forall>p p'. CallUpdateClaim p (Inr p') \<notin> set (effects (patchClaimIf r name (expiredEntry extra frm)) k)" by blast
  from c(3) show "claim_updates (effects (patchClaimIf r name (expiredEntry extra frm)) k) = []"
    by (simp add: claim_updates_Nil_iff)
  from c(2) have "if already then aget (nc_Annotations c) State = StateExpired
      else aget (nc_Annotations c) State \<notin> insert StateExpired (set frm)"
    by (auto simp: expiredEntry_def Let_def split: if_splits)
  with c(1) show "\<exists>c. CallGetClaim name (Inr c) \<in> set (effects (patchClaimIf r name (expiredEntry extra frm)) k)
      \<and> (if already then aget (nc_Annotations c) State = StateExpired
         else aget (nc_Annotations c) State \<notin> insert StateExpired (set frm))" by blast
qed

lemma expired_written:
  assumes "result (patchClaimIf r name (expiredEntry extra frm)) k = Inr (claimWritten already)"
  shows "\<exists>c q. CallGetClaim name (Inr c) \<in> set (effects (patchClaimIf r name (expiredEntry extra frm)) k)
    \<and> aget (nc_Annotations c) State \<in> set frm - {StateExpired}
    \<and> claim_updates (effects (patchClaimIf r name (expiredEntry extra frm)) k) =
        [(c\<lparr>nc_Annotations := (case extra of None \<Rightarrow> id | Some f \<Rightarrow> f) ((nc_Annotations c)(State \<mapsto> StateExpired))\<rparr>, q)]"
proof -
  let ?w = "patchClaimIf r name (expiredEntry extra frm)"
  from expired_entry.patchClaim_written [OF assms] obtain c m q j before where
    m: "result (expiredEntry extra frm (nc_Annotations c)) j = Inr (already, Some m)" and
    f: "effects ?w k = before @ CallGetClaim name (Inr c) # effects (expiredEntry extra frm (nc_Annotations c)) j
      @ [CallUpdateClaim (c\<lparr>nc_Annotations := m\<rparr>) (Inr q)]" and
    b: "\<forall>p q. CallUpdateClaim p (Inr q) \<notin> set before" by blast
  from m have "aget (nc_Annotations c) State \<in> set frm - {StateExpired}"
    "m = (case extra of None \<Rightarrow> id | Some f \<Rightarrow> f) ((nc_Annotations c)(State \<mapsto> StateExpired))"
    by (auto simp: expiredEntry_def Let_def split: if_splits option.splits)
  moreover have "claim_updates (effects ?w k) = [(c\<lparr>nc_Annotations := m\<rparr>, q)]"
    using b clock_only_updates(2) [OF expired_entry.quiet] by (simp add: f claim_updates_Nil_iff [symmetric])
  moreover have "CallGetClaim name (Inr c) \<in> set (effects ?w k)" by (simp add: f)
  ultimately show ?thesis by auto
qed

text \<open>
  C11. The terminal transition is exact. \<open>expiryClaimed\<close> is returned when exactly one update was
  accepted, which moved a claim read in one of the permitted states to expired; \<open>expiryAlready\<close> when
  the claim read was expired already, \<open>expiryRaced\<close> when it was in another state, \<open>expiryGone\<close> when
  it was not found, and in these three cases and on an error no update was accepted.
\<close>

theorem markExpired_exact:
  "case result (markExpired r name extra frm) k of
     Inl e \<Rightarrow> claim_updates (effects (markExpired r name extra frm) k) = []
   | Inr expiryGone \<Rightarrow> claim_updates (effects (markExpired r name extra frm) k) = []
       \<and> CallGetClaim name (Inl IsNotFound) \<in> set (effects (markExpired r name extra frm) k)
   | Inr expiryRaced \<Rightarrow> claim_updates (effects (markExpired r name extra frm) k) = []
       \<and> (\<exists>c. CallGetClaim name (Inr c) \<in> set (effects (markExpired r name extra frm) k)
            \<and> aget (nc_Annotations c) State \<notin> insert StateExpired (set frm))
   | Inr expiryAlready \<Rightarrow> claim_updates (effects (markExpired r name extra frm) k) = []
       \<and> (\<exists>c. CallGetClaim name (Inr c) \<in> set (effects (markExpired r name extra frm) k)
            \<and> aget (nc_Annotations c) State = StateExpired)
   | Inr expiryClaimed \<Rightarrow>
       (\<exists>c q. CallGetClaim name (Inr c) \<in> set (effects (markExpired r name extra frm) k)
          \<and> aget (nc_Annotations c) State \<in> set frm - {StateExpired}
          \<and> claim_updates (effects (markExpired r name extra frm) k) =
              [(c\<lparr>nc_Annotations := (case extra of None \<Rightarrow> id | Some f \<Rightarrow> f) ((nc_Annotations c)(State \<mapsto> StateExpired))\<rparr>, q)])"
proof -
  let ?w = "patchClaimIf r name (expiredEntry extra frm)"
  have e: "effects (markExpired r name extra frm) k = effects ?w k"
    by (simp add: markExpired_def run_andThen split: sum.splits ClaimWrite.splits)
  have out: "result (markExpired r name extra frm) k = (case result ?w k of Inl e \<Rightarrow> Inl e
      | Inr (claimWritten _) \<Rightarrow> Inr expiryClaimed | Inr claimGone \<Rightarrow> Inr expiryGone
      | Inr (claimVetoed already) \<Rightarrow> Inr (if already then expiryAlready else expiryRaced))"
    by (auto simp: markExpired_def run_andThen split: sum.splits ClaimWrite.splits)
  show ?thesis
  proof (cases "result ?w k")
    case (Inl err)
    then show ?thesis by (simp add: out e claim_updates_Nil_iff expired_entry.patchClaim_failed)
  next
    case (Inr w)
    show ?thesis
    proof (cases w)
      case claimGone
      with Inr expired_entry.patchClaim_gone [of r name extra frm k] show ?thesis
        by (simp add: out e claim_updates_Nil_iff)
    next
      case (claimVetoed already)
      with Inr have v: "result ?w k = Inr (claimVetoed already)" by simp
      from expired_vetoed [OF v] show ?thesis by (cases already) (auto simp: out e v)
    next
      case (claimWritten already)
      with Inr have v: "result ?w k = Inr (claimWritten already)" by simp
      from expired_written [OF v] show ?thesis by (simp add: out e v)
    qed
  qed
qed

end
