(* ===== verification/Sweep.thy ===== *)
theory Sweep
  imports Writes
begin

text \<open>
  The startup sweep (\<open>internal/controller/sweep.go\<close>): artifacts of a rotation that no
  NodePool's anchor names are undone. Errors of single items are collected.
\<close>

fun collect :: "('a \<Rightarrow> unit M) \<Rightarrow> 'a list \<Rightarrow> ApiError list M" where
  "collect f [] = ret []"
| "collect f (x # xs) =
     bindR (f x) (\<lambda>out. andThen (collect f xs) (\<lambda>es.
       ret (case out of Inl e \<Rightarrow> e # es | Inr _ \<Rightarrow> es)))"

section \<open>The anchors\<close>

definition dropOrphanState :: "annots \<Rightarrow> annots M" where
  "dropOrphanState m = ret (adel (adel (adel m ActiveRotationState) DrainingAt) RotationMode)"

fun anchored_in :: "Reconciler \<Rightarrow> string set \<Rightarrow> NodePool list \<Rightarrow> string set M" where
  "anchored_in r anchored [] = ret anchored"
| "anchored_in r anchored (pool # pools) =
     (let claim = aget (np_Annotations pool) ActiveRotation
      in if claim \<noteq> '''' then anchored_in r (insert claim anchored) pools
         else if np_Annotations pool ActiveRotationState \<noteq> None then
           andThen (patchPool r pool dropOrphanState) (\<lambda>_. anchored_in r anchored pools)
         else anchored_in r anchored pools)"

definition anchoredClaims :: "Reconciler \<Rightarrow> string set M" where
  "anchoredClaims r = andThen (callListPools r) (anchored_in r {})"

section \<open>Placeholders\<close>

definition deleteSelected :: "Reconciler \<Rightarrow> Pod \<Rightarrow> bool M" where
  "deleteSelected r p =
     bindR (callDeletePod r (pod_Namespace p, pod_Name p) (if pod_UID p \<noteq> '''' then Some (pod_UID p) else None))
       (\<lambda>out. case out of
          Inl e \<Rightarrow> (if e = IsNotFound \<or> e = IsConflict then ret False else fail e)
        | Inr _ \<Rightarrow> ret True)"

definition sweepPlaceholder :: "Reconciler \<Rightarrow> string set \<Rightarrow> Pod \<Rightarrow> unit M" where
  "sweepPlaceholder r anchored p =
     (let claim = aget (pod_Labels p) SurgeFor
      in if claim = '''' \<or> claim \<in> anchored then ret ()
         else andThen (deleteSelected r p) (\<lambda>_. ret ()))"

definition sweepPlaceholders :: "Reconciler \<Rightarrow> string set \<Rightarrow> ApiError list M" where
  "sweepPlaceholders r anchored =
     bindR (callListPods r (Some (rc_Namespace r))) (\<lambda>pods. case pods of
       Inl e \<Rightarrow> ret [e] | Inr pods \<Rightarrow> collect (sweepPlaceholder r anchored) pods)"

section \<open>Nodes\<close>

definition keepsMarkers :: "string set \<Rightarrow> Node \<Rightarrow> bool" where
  "keepsMarkers anchored n =
     (case nd_Annotations n SurgeFor of
        Some claim \<Rightarrow> claim \<in> anchored
      | None \<Rightarrow> nd_Annotations n Cordoned = None)"

definition unmark :: "string set \<Rightarrow> Node \<Rightarrow> Node \<times> bool" where
  "unmark anchored fresh =
     (if keepsMarkers anchored fresh then (fresh, False)
      else if nd_Annotations fresh SurgeFor = None then applyUncordon fresh
      else applyUnfreeze fresh)"

definition sweepNode :: "Reconciler \<Rightarrow> string set \<Rightarrow> Node \<Rightarrow> unit M" where
  "sweepNode r anchored n =
     (if keepsMarkers anchored n then ret ()
      else bindR (patchNode r (nd_Name n) (unmark anchored)) (\<lambda>wrote. case wrote of
             Inl e \<Rightarrow> (if e = IsNotFound then ret () else fail e)
           | Inr _ \<Rightarrow> ret ()))"

definition sweepNodes :: "Reconciler \<Rightarrow> string set \<Rightarrow> ApiError list M" where
  "sweepNodes r anchored =
     bindR (callListNodes r None) (\<lambda>nodes. case nodes of
       Inl e \<Rightarrow> ret [e] | Inr nodes \<Rightarrow> collect (sweepNode r anchored) nodes)"

section \<open>Claims\<close>

definition inFlight :: "annots \<Rightarrow> bool" where
  "inFlight m = (aget m State = StatePending \<or> aget m State = StateDraining)"

definition orphanRecord :: "Reconciler \<Rightarrow> string mutator" where
  "orphanRecord r m =
     (if \<not> inFlight m then ret ('''', None)
      else andThen (clock r) (\<lambda>now.
             ret (aget m State,
                  Some (adel (adel (m(State \<mapsto> StateFailed, FailedAt \<mapsto> rfc3339 now)) StartedAt) SurgeClaim))))"

definition sweepClaim :: "Reconciler \<Rightarrow> string set \<Rightarrow> NodeClaim \<Rightarrow> unit M" where
  "sweepClaim r anchored c =
     (if \<not> inFlight (nc_Annotations c) \<or> nc_Name c \<in> anchored then ret ()
      else bindR (patchClaimIf r (nc_Name c) (orphanRecord r)) (\<lambda>wrote. case wrote of
             Inl e \<Rightarrow> (if e = IsNotFound then ret () else fail e)
           | Inr (claimWritten _) \<Rightarrow> emit (Failure (aget (nc_Labels c) NodePoolLabelKey) (nc_Name c))
           | Inr _ \<Rightarrow> ret ()))"

definition sweepClaims :: "Reconciler \<Rightarrow> string set \<Rightarrow> ApiError list M" where
  "sweepClaims r anchored =
     bindR (callListClaims r None) (\<lambda>claims. case claims of
       Inl e \<Rightarrow> ret [e] | Inr claims \<Rightarrow> collect (sweepClaim r anchored) claims)"

definition Sweep :: "Reconciler \<Rightarrow> ApiError list M" where
  "Sweep r =
     andThen (anchoredClaims r) (\<lambda>anchored.
     andThen (sweepPlaceholders r anchored) (\<lambda>e1.
     andThen (sweepNodes r anchored) (\<lambda>e2.
     andThen (sweepClaims r anchored) (\<lambda>e3. ret (e1 @ e2 @ e3)))))"

text \<open>The sweep before the first pass of a process (\<open>sweepOnce\<close>); its errors are logged and dropped.\<close>

definition startupSweep :: "Reconciler \<Rightarrow> bool \<Rightarrow> unit M" where
  "startupSweep r first = (if first then andThen (Sweep r) (\<lambda>_. ret ()) else ret ())"

end
