(* ===== verification/Protocol.thy ===== *)
theory Protocol
  imports Rotation Sweep
begin

text \<open>
  The protocol the reconcilers keep, as step relations on the durable state and as a judgement on
  traces. \<open>pool_step\<close>, \<open>claim_step\<close> and \<open>node_step\<close> list every transition a write
  may make on the annotations of a NodePool, of a NodeClaim, and on a Node. \<open>lawful\<close> says of an effect
  what must have happened before it: a write is a step from an object that was read, a
  NodeClaim is deleted only with a justification, a rotation starts only past its gates, a success is
  announced only for a release that was written.
\<close>

section \<open>Steps of the durable state\<close>

inductive pool_step :: "annots \<Rightarrow> annots \<Rightarrow> bool" where
  start: "aget m ActiveRotation = '''' \<Longrightarrow> pool_step m (m(ActiveRotation \<mapsto> name))"
| drain:
    "\<lbrakk>aget m' ActiveRotationState = StateDraining;
      \<forall>k. k \<notin> {ActiveRotationState, DrainingAt, SurgeWait, SurgePath, RotationMode} \<longrightarrow> m' k = m k;
      aget m DrainingAt \<noteq> '''' \<longrightarrow> (\<forall>k \<in> {DrainingAt, SurgeWait, SurgePath}. m' k = m k);
      m' RotationMode = m RotationMode \<or> m' RotationMode = Some RotationModeForcefulFallback\<rbrakk> \<Longrightarrow> pool_step m m'"
| succeed: "aget m ActiveRotationState = StateDraining \<Longrightarrow>
    pool_step m (clearRotationAnchorFields (m(LastRotationAt \<mapsto> t)))"
| fail: "pool_step m (clearRotationAnchorFields (m(LastFailureAt \<mapsto> t)))"
| release: "pool_step m (clearRotationAnchorFields m)"
| opened: "parseTime (aget m WindowOpenedAt) = None \<Longrightarrow> pool_step m (m(WindowOpenedAt \<mapsto> t))"
| closed: "pool_step m (adel m WindowOpenedAt)"
| repair: "pool_step m (adel (adel (adel m ActiveRotationState) DrainingAt) RotationMode)"

inductive claim_step :: "annots \<Rightarrow> annots \<Rightarrow> bool" where
  pend: "aget m State \<in> {'''', StatePending} \<Longrightarrow> aget m StartedAt \<noteq> '''' \<Longrightarrow>
    claim_step m (m(State \<mapsto> StatePending))"
| begin_pend: "aget m State \<in> {'''', StatePending} \<Longrightarrow> aget m StartedAt = '''' \<Longrightarrow>
    claim_step m (m(State \<mapsto> StatePending, StartedAt \<mapsto> t))"
| induced: "claim_step m (m(SurgeClaim \<mapsto> c))"
| drain: "claim_step m (m(State \<mapsto> StateDraining))"
| fail: "claim_step m (adel (adel
      (m(State \<mapsto> StateFailed, FailedAt \<mapsto> t, RetryCount \<mapsto> Itoa (add64 (parseInt (aget m RetryCount)) 1)))
      StartedAt) SurgeClaim)"
| retry: "aget m State = StateFailed \<Longrightarrow> claim_step m (m(State \<mapsto> StatePending))"
| expire_pending: "aget m State \<in> {'''', StatePending} \<Longrightarrow>
    claim_step m (pendingExpiryEdits (m(State \<mapsto> StateExpired)))"
| expire_failed: "aget m State = StateFailed \<Longrightarrow> claim_step m (m(State \<mapsto> StateExpired))"
| orphan: "inFlight m \<Longrightarrow>
    claim_step m (adel (adel (m(State \<mapsto> StateFailed, FailedAt \<mapsto> t)) StartedAt) SurgeClaim)"

inductive node_step :: "Node \<Rightarrow> Node \<Rightarrow> bool" where
  freeze: "node_step n (fst (applyFreeze claimName n))"
| cordon: "node_step n (fst (applyCordon n))"
| unfreeze: "node_step n (fst (applyUnfreeze n))"
| uncordon: "node_step n (fst (applyUncordon n))"

lemmas pool_stepI = pool_step.intros
lemmas claim_stepI = claim_step.intros

lemma clear_fields [simp]:
  "clearRotationAnchorFields m k =
     (if k \<in> {ActiveRotation, ActiveRotationState, DrainingAt, SurgeWait, SurgePath, RotationMode} then None
      else m k)"
  by (simp add: clearRotationAnchorFields_def)

lemma aget_clear [simp]:
  "aget (clearRotationAnchorFields m) k =
     (if k \<in> {ActiveRotation, ActiveRotationState, DrainingAt, SurgeWait, SurgePath, RotationMode} then ''''
      else aget m k)"
  by (simp add: aget_def)

text \<open>What no step of a NodePool touches.\<close>

definition pool_keys :: "string set" where
  "pool_keys = {ActiveRotation, ActiveRotationState, DrainingAt, SurgeWait, SurgePath, RotationMode,
     LastRotationAt, LastFailureAt, WindowOpenedAt}"

definition claim_keys :: "string set" where
  "claim_keys = {State, StartedAt, SurgeClaim, FailedAt, RetryCount}"

lemma pool_step_frame: "pool_step m m' \<Longrightarrow> k \<notin> pool_keys \<Longrightarrow> m' k = m k"
  by (induction rule: pool_step.induct) (auto simp: pool_keys_def)

lemma claim_step_frame: "claim_step m m' \<Longrightarrow> k \<notin> claim_keys \<Longrightarrow> m' k = m k"
  by (induction rule: claim_step.induct) (auto simp: claim_keys_def pendingExpiryEdits_def)

lemma pool_step_clears_all:
  "pool_step m m' \<Longrightarrow> aget m ActiveRotation \<noteq> '''' \<Longrightarrow> aget m' ActiveRotation = '''' \<Longrightarrow>
   (\<forall>k \<in> {ActiveRotation, ActiveRotationState, DrainingAt, SurgeWait, SurgePath, RotationMode}. m' k = None)"
  by (induction rule: pool_step.induct) (auto simp: aget_def)

lemma pool_step_success:
  "pool_step m m' \<Longrightarrow> m' LastRotationAt \<noteq> m LastRotationAt \<Longrightarrow>
   aget m ActiveRotationState = StateDraining \<and> m' ActiveRotation = None"
  by (induction rule: pool_step.induct) auto

lemma claim_step_terminal:
  "claim_step m m' \<Longrightarrow> aget m State = StateExpired \<Longrightarrow>
   aget m' State \<in> {StateExpired, StateDraining, StateFailed}"
  by (induction rule: claim_step.induct) (auto simp: pendingExpiryEdits_def inFlight_def)

section \<open>Evidence in a trace\<close>

definition observed_pool :: "Effect list \<Rightarrow> NodePool \<Rightarrow> bool" where
  "observed_pool t p \<longleftrightarrow> (\<exists>n. CallGetPool n (Inr p) \<in> set t) \<or> (\<exists>q. CallUpdatePool q (Inr p) \<in> set t)"

definition observed_claim :: "Effect list \<Rightarrow> NodeClaim \<Rightarrow> bool" where
  "observed_claim t c \<longleftrightarrow> (\<exists>n. CallGetClaim n (Inr c) \<in> set t)"

definition observed_node :: "Effect list \<Rightarrow> Node \<Rightarrow> bool" where
  "observed_node t n \<longleftrightarrow> (\<exists>k. CallGetNode k (Inr n) \<in> set t)"

text \<open>The policy that governs a NodePool by the policies the pass listed.\<close>

definition governed :: "Reconciler \<Rightarrow> Effect list \<Rightarrow> NodePool \<Rightarrow> Resolved \<Rightarrow> bool" where
  "governed r t pool res \<longleftrightarrow>
     (\<exists>policies pol sched. CallListPolicies (Inr policies) \<in> set t
        \<and> governance r pool policies = Governed pol sched \<and> res = resolve pool pol sched)"

text \<open>
  A conditional write of a NodePool or of a claim landed: the object read by name was written back
  with this value under this key. A claim that is gone needs no record.
\<close>

definition pool_recorded :: "Effect list \<Rightarrow> string \<Rightarrow> string \<Rightarrow> string \<Rightarrow> bool" where
  "pool_recorded t name key v \<longleftrightarrow>
     (\<exists>fresh m q. CallGetPool name (Inr fresh) \<in> set t
        \<and> CallUpdatePool (fresh\<lparr>np_Annotations := m\<rparr>) (Inr q) \<in> set t \<and> aget m key = v)"

definition claim_recorded :: "Effect list \<Rightarrow> string \<Rightarrow> string \<Rightarrow> string \<Rightarrow> bool" where
  "claim_recorded t name key v \<longleftrightarrow>
     CallGetClaim name (Inl IsNotFound) \<in> set t \<or>
     (\<exists>fresh m q. CallGetClaim name (Inr fresh) \<in> set t
        \<and> CallUpdateClaim (fresh\<lparr>nc_Annotations := m\<rparr>) (Inr q) \<in> set t \<and> aget m key = v)"

text \<open>
  The two reasons to drain a claim, each recorded on the NodePool: the surge is up, or the policy
  takes the fallback because a surge can no longer finish.
\<close>

definition surge_shown :: "Reconciler \<Rightarrow> Effect list \<Rightarrow> string \<Rightarrow> bool" where
  "surge_shown r t name \<longleftrightarrow>
     (\<exists>cand ph node. observed_claim t cand \<and> nc_Name cand = name
        \<and> CallGetPod (placeholderKey r name) (Inr ph) \<in> set t
        \<and> pod_Phase ph = PodRunning \<and> pod_DeletionTimestamp ph = None
        \<and> pod_NodeName ph \<noteq> '''' \<and> pod_NodeName ph \<noteq> nc_NodeName cand
        \<and> CallGetNode (pod_NodeName ph) (Inr node) \<in> set t \<and> nodeReady node
        \<and> pool_recorded t (aget (nd_Labels node) NodePoolLabelKey) ActiveRotationState StateDraining)"

definition fallback_shown :: "Reconciler \<Rightarrow> Effect list \<Rightarrow> string \<Rightarrow> bool" where
  "fallback_shown r t name \<longleftrightarrow>
     (\<exists>pool res now claims cand.
        governed r t pool res \<and> ReadClock now \<in> set t
        \<and> CallListClaims (Some (np_Name pool)) (Inr claims) \<in> set t
        \<and> cand \<in> set claims \<and> nc_Name cand = name
        \<and> SurgelessFallback (adapt_Claim cand) (gateInputs pool res now))
     \<and> (\<exists>pname. pool_recorded t pname RotationMode RotationModeForcefulFallback)"

definition drain_justified :: "Reconciler \<Rightarrow> Effect list \<Rightarrow> string \<Rightarrow> bool" where
  "drain_justified r t name \<longleftrightarrow> surge_shown r t name \<or> fallback_shown r t name"

text \<open>The reasons to delete a NodeClaim.\<close>

definition drain_resumed :: "Effect list \<Rightarrow> string \<Rightarrow> bool" where
  "drain_resumed t name \<longleftrightarrow>
     (\<exists>cand. observed_claim t cand \<and> nc_Name cand = name
        \<and> aget (nc_Annotations cand) State = StateDraining \<and> nc_DeletionTimestamp cand = None)"

definition surge_reaped :: "Reconciler \<Rightarrow> Effect list \<Rightarrow> string \<Rightarrow> bool" where
  "surge_reaped r t name \<longleftrightarrow>
     (\<exists>sc cand startedAt. observed_claim t sc \<and> nc_Name sc = name \<and> observed_claim t cand
        \<and> parseTime (aget (nc_Annotations cand) StartedAt) = Some startedAt
        \<and> startedAt < nc_CreationTimestamp sc
        \<and> (nc_NodeName sc = '''' \<or>
            (\<exists>pods. CallListPods None (Inr pods) \<in> set t
               \<and> \<not> hostsRealPods pods (nc_NodeName sc) (rc_Namespace r)
                     (PlaceholderName (rc_sha256_hex r) (nc_Name cand)))))"

definition delete_justified :: "Reconciler \<Rightarrow> Effect list \<Rightarrow> string \<Rightarrow> bool" where
  "delete_justified r t name \<longleftrightarrow>
     drain_justified r t name \<and> claim_recorded t name State StateDraining
       \<or> drain_resumed t name \<or> surge_reaped r t name"

text \<open>The gates a fresh start has passed, on what the pass read.\<close>

definition headroom_checked ::
  "Effect list \<Rightarrow> NodePool \<Rightarrow> Resolved \<Rightarrow> NodeClaim \<Rightarrow> bool" where
  "headroom_checked t pool res cand \<longleftrightarrow>
     (if nc_NodeName cand = '''' then hr_Fits (Headroom pool fmempty)
      else \<exists>pods. CallListPods None (Inr pods) \<in> set t
             \<and> hr_Fits (Headroom pool (cr_Requests (snd (placeholderSizing pods res cand)))))"

text \<open>
  The gates on the values themselves: not static, feasible, every start gate open, and \<open>name\<close>
  the earliest-deadline eligible claim. \<open>pool0\<close> is the NodePool the pass began with, \<open>pool\<close> the
  one its window edge left.
\<close>

definition gates_pass ::
  "NodePool \<Rightarrow> NodePool \<Rightarrow> Resolved \<Rightarrow> time \<Rightarrow> NodeClaim list \<Rightarrow> Node list \<Rightarrow> string \<Rightarrow> bool" where
  "gates_pass pool0 pool res now claims nodes name \<longleftrightarrow>
     \<not> staticPool pool
     \<and> firstFatal (r_Findings (derivedThresholds pool0 res (deref (WorstCasePeriod (res_sched res)))
           (deref (ShortestWindow (res_sched res))) (ShortestIdleGap (res_sched res)) (length claims))) = None
     \<and> fst (StartGate (gateInputs pool res now))
     \<and> map_option c_Name (PickEarliestDeadlineEligible (map adapt_Claim claims)
           (selInputs res now (excludedClaimNames claims (excludedNodeNames nodes))
              (hasFailedClaim (map adapt_Claim claims)))) = Some name"

definition start_justified :: "Reconciler \<Rightarrow> Effect list \<Rightarrow> NodePool \<Rightarrow> string \<Rightarrow> bool" where
  "start_justified r t pool name \<longleftrightarrow>
     (\<exists>pool0 res now claims nodes cand.
        governed r t pool0 res \<and> ReadClock now \<in> set t
        \<and> CallListClaims (Some (np_Name pool0)) (Inr claims) \<in> set t
        \<and> CallListNodes (Some (np_Name pool0)) (Inr nodes) \<in> set t
        \<and> gates_pass pool0 pool res now claims nodes name
        \<and> cand \<in> set claims \<and> nc_Name cand = name
        \<and> (SurgelessFallback (adapt_Claim cand) (gateInputs pool res now) \<or> headroom_checked t pool res cand))"

definition success_earned :: "Effect list \<Rightarrow> string \<Rightarrow> bool" where
  "success_earned t pn \<longleftrightarrow>
     (\<exists>p ts q name. observed_pool t p \<and> aget (np_Annotations p) ActiveRotation = name \<and> np_Name q = pn
        \<and> aget (np_Annotations p) ActiveRotationState = StateDraining
        \<and> CallGetClaim name (Inl IsNotFound) \<in> set t
        \<and> CallUpdatePool
             (p\<lparr>np_Annotations := clearRotationAnchorFields ((np_Annotations p)(LastRotationAt \<mapsto> ts))\<rparr>)
             (Inr q) \<in> set t)"

section \<open>Lawful effects\<close>

fun lawful :: "Reconciler \<Rightarrow> Effect list \<Rightarrow> Effect \<Rightarrow> bool" where
  "lawful r t (CallUpdatePool p' _) =
     (\<exists>p m. observed_pool t p \<and> p' = p\<lparr>np_Annotations := m\<rparr> \<and> pool_step (np_Annotations p) m
        \<and> (aget (np_Annotations p) ActiveRotation = '''' \<and> aget m ActiveRotation \<noteq> '''' \<longrightarrow>
             start_justified r t p (aget m ActiveRotation)))"
| "lawful r t (CallUpdateClaim c' _) =
     (\<exists>name c m. CallGetClaim name (Inr c) \<in> set t \<and> c' = c\<lparr>nc_Annotations := m\<rparr> \<and> claim_step (nc_Annotations c) m
        \<and> (aget m State = StateDraining \<and> aget (nc_Annotations c) State \<noteq> StateDraining \<longrightarrow> drain_justified r t name))"
| "lawful r t (CallUpdateNode n' _) = (\<exists>n. observed_node t n \<and> node_step n n')"
| "lawful r t (CallDeleteClaim name _) = delete_justified r t name"
| "lawful r t (CallDeletePod key uid _) =
     ((\<exists>claim. key = placeholderKey r claim) \<or>
      (\<exists>pods p. CallListPods (Some (rc_Namespace r)) (Inr pods) \<in> set t \<and> p \<in> set pods
         \<and> key = (pod_Namespace p, pod_Name p) \<and> aget (pod_Labels p) SurgeFor \<noteq> ''''))"
| "lawful r t (CallCreatePod ph _) =
     (\<exists>pool cand res node requests hosts. ph = placeholder_for r pool cand res node requests hosts
        \<and> observed_claim t cand)"
| "lawful r t (Note (Success pn)) = success_earned t pn"
| "lawful r t _ = True"

section \<open>More evidence never hurts\<close>

lemma evidence_mono:
  assumes "set t \<subseteq> set u"
  shows "observed_pool t p \<Longrightarrow> observed_pool u p"
    and "observed_claim t c \<Longrightarrow> observed_claim u c"
    and "observed_node t n \<Longrightarrow> observed_node u n"
    and "governed r t pool res \<Longrightarrow> governed r u pool res"
    and "pool_recorded t name key v \<Longrightarrow> pool_recorded u name key v"
    and "claim_recorded t name key v \<Longrightarrow> claim_recorded u name key v"
  using assms unfolding observed_pool_def observed_claim_def observed_node_def governed_def
    pool_recorded_def claim_recorded_def by (blast+)

lemma headroom_checked_mono:
  "set t \<subseteq> set u \<Longrightarrow> headroom_checked t pool res cand \<Longrightarrow> headroom_checked u pool res cand"
  unfolding headroom_checked_def by (auto split: if_splits)

lemma drain_justified_mono:
  assumes "set t \<subseteq> set u"
  shows "drain_justified r t name \<Longrightarrow> drain_justified r u name"
proof -
  have "surge_shown r t name \<Longrightarrow> surge_shown r u name"
    using assms evidence_mono [OF assms] unfolding surge_shown_def by blast
  moreover have "fallback_shown r t name \<Longrightarrow> fallback_shown r u name"
    using assms evidence_mono [OF assms] unfolding fallback_shown_def by blast
  ultimately show "drain_justified r t name \<Longrightarrow> drain_justified r u name" unfolding drain_justified_def by blast
qed

lemma drain_resumed_mono:
  assumes "set t \<subseteq> set u"
  shows "drain_resumed t name \<Longrightarrow> drain_resumed u name"
  using assms evidence_mono [OF assms] unfolding drain_resumed_def by blast

lemma surge_reaped_mono:
  assumes "set t \<subseteq> set u"
  shows "surge_reaped r t name \<Longrightarrow> surge_reaped r u name"
  using assms evidence_mono [OF assms] unfolding surge_reaped_def by blast

lemma start_justified_mono:
  assumes "set t \<subseteq> set u" "start_justified r t pool name"
  shows "start_justified r u pool name"
proof -
  from assms(2) obtain pool0 res now claims nodes cand where
    e: "governed r t pool0 res" "ReadClock now \<in> set t" "CallListClaims (Some (np_Name pool0)) (Inr claims) \<in> set t"
      "CallListNodes (Some (np_Name pool0)) (Inr nodes) \<in> set t" and
    g: "gates_pass pool0 pool res now claims nodes name" "cand \<in> set claims" "nc_Name cand = name"
      "SurgelessFallback (adapt_Claim cand) (gateInputs pool res now) \<or> headroom_checked t pool res cand"
    unfolding start_justified_def by blast
  have "SurgelessFallback (adapt_Claim cand) (gateInputs pool res now) \<or> headroom_checked u pool res cand"
    using g(4) headroom_checked_mono [OF assms(1)] by blast
  moreover have "governed r u pool0 res" by (rule evidence_mono(4) [OF assms(1) e(1)])
  ultimately show ?thesis
    using e(2-4) g(1-3) assms(1) unfolding start_justified_def
    by (intro exI [of _ pool0] exI [of _ res] exI [of _ now] exI [of _ claims] exI [of _ nodes] exI [of _ cand]) auto
qed

lemma success_earned_mono:
  assumes "set t \<subseteq> set u"
  shows "success_earned t pn \<Longrightarrow> success_earned u pn"
  using assms evidence_mono [OF assms] unfolding success_earned_def by blast

lemma delete_justified_mono:
  "set t \<subseteq> set u \<Longrightarrow> delete_justified r t name \<Longrightarrow> delete_justified r u name"
  unfolding delete_justified_def
  using drain_justified_mono evidence_mono(6) drain_resumed_mono surge_reaped_mono by metis

lemma lawful_mono:
  assumes "set t \<subseteq> set u" "lawful r t e"
  shows "lawful r u e"
proof (cases e)
  case (Note x)
  with assms show ?thesis by (cases x) (simp_all add: success_earned_mono)
next
  case (CallUpdatePool p a)
  with assms(2) obtain q m where "observed_pool t q" "p = q\<lparr>np_Annotations := m\<rparr>" "pool_step (np_Annotations q) m"
    "aget (np_Annotations q) ActiveRotation = '''' \<and> aget m ActiveRotation \<noteq> '''' \<longrightarrow>
       start_justified r t q (aget m ActiveRotation)" by auto
  with CallUpdatePool show ?thesis
    using evidence_mono(1) [OF assms(1)] start_justified_mono [OF assms(1)] by (auto intro!: exI [of _ q] exI [of _ m])
next
  case (CallUpdateClaim c a)
  with assms(2) obtain name d m where "CallGetClaim name (Inr d) \<in> set t" "c = d\<lparr>nc_Annotations := m\<rparr>"
    "claim_step (nc_Annotations d) m"
    "aget m State = StateDraining \<and> aget (nc_Annotations d) State \<noteq> StateDraining \<longrightarrow> drain_justified r t name" by auto
  with CallUpdateClaim show ?thesis using drain_justified_mono [OF assms(1)] assms(1)
    by (auto intro!: exI [of _ name] exI [of _ d] exI [of _ m])
next
  case (CallUpdateNode n a)
  with assms show ?thesis using evidence_mono(3) [OF assms(1)] by auto
next
  case (CallDeleteClaim n a)
  with assms show ?thesis using delete_justified_mono [OF assms(1)] by simp
next
  case (CallDeletePod key uid a)
  with assms show ?thesis by auto
next
  case (CallCreatePod ph a)
  with assms show ?thesis using evidence_mono(2) [OF assms(1)] by fastforce
qed (use assms in simp_all)

interpretation lawful: evidence_judgement "lawful r" for r
  by unfold_locales (rule lawful_mono)

end
