(* ===== verification/Lawful.thy ===== *)
theory Lawful
  imports Protocol Conditional
begin

text \<open>
  Every program of the reconcilers is lawful. A handler that needs evidence from before says so as a
  hypothesis on what happened before it; the pass as a whole needs none.
\<close>

named_theorems lawful_intro
  \<open>programs that are lawful without any evidence\<close>

lemmas [lawful_intro] = lawful.safe_ret lawful.safe_fail lawful.safe_each lawful.safe_ignoreNotFound
  lawful.safe_andThen0 lawful.safe_bindR0

lemma lawful_emit [lawful_intro]: "(\<forall>p. e \<noteq> Success p) \<Longrightarrow> safe (lawful r) pre (emit e)"
  by (rule lawful.safe_emit) (cases e; simp)

lemma lawful_emitIf [lawful_intro]: "(\<forall>p. e \<noteq> Success p) \<Longrightarrow> safe (lawful r) pre (emitIf b e)"
  by (rule lawful.safe_emitIf) (cases e; simp)

lemma lawful_reads [lawful_intro]:
  "safe (lawful r) pre (clock r)" "safe (lawful r) pre (callGetPool r n)" "safe (lawful r) pre (callGetClaim r n)"
  "safe (lawful r) pre (callGetNode r n)" "safe (lawful r) pre (callGetPod r key)"
  "safe (lawful r) pre (callListPolicies r)" "safe (lawful r) pre (callListPools r)"
  "safe (lawful r) pre (callListClaims r sel)" "safe (lawful r) pre (callListNodes r sel)"
  "safe (lawful r) pre (callListPods r ns)"
  by (simp_all add: safe_def call_defs)

lemma lawful_orNil [lawful_intro]: "safe (lawful r) [] m \<Longrightarrow> safe (lawful r) [] (orNil m)"
  unfolding orNil_def by (auto intro!: lawful_intro split: sum.splits)

lemma lawful_getters [lawful_intro]:
  "safe (lawful r) [] (getClaim r n)" "safe (lawful r) [] (getNode r n)" "safe (lawful r) [] (getPlaceholder r n)"
  "safe (lawful r) [] (poolClaims r pool)" "safe (lawful r) [] (allPods r)"
  "safe (lawful r) [] (excludedClaims r pool claims)"
  by (simp_all add: getClaim_def getNode_def getPlaceholder_def poolClaims_def allPods_def excludedClaims_def
      lawful_intro)

text \<open>What an answered read leaves in the trace.\<close>

lemma orNil_call:
  "result (orNil (call a f)) k = Inr (Some x) \<Longrightarrow> effects (orNil (call a f)) k = [f (Inr x)]"
  "result (orNil (call a f)) k = Inr None \<Longrightarrow> effects (orNil (call a f)) k = [f (Inl IsNotFound)]"
  by (auto simp: orNil_def split: sum.splits if_splits)

lemma getClaim_seen:
  "result (getClaim r n) k = Inr (Some c) \<Longrightarrow> effects (getClaim r n) k = [CallGetClaim n (Inr c)]"
  "result (getClaim r n) k = Inr None \<Longrightarrow> effects (getClaim r n) k = [CallGetClaim n (Inl IsNotFound)]"
  unfolding getClaim_def callGetClaim_def by (erule orNil_call)+

lemma getNode_seen:
  "result (getNode r n) k = Inr (Some x) \<Longrightarrow> effects (getNode r n) k = [CallGetNode n (Inr x)]"
  unfolding getNode_def callGetNode_def by (erule orNil_call)

lemma getPlaceholder_seen:
  "result (getPlaceholder r n) k = Inr (Some x) \<Longrightarrow>
     effects (getPlaceholder r n) k = [CallGetPod (placeholderKey r n) (Inr x)]"
  unfolding getPlaceholder_def callGetPod_def by (erule orNil_call)

lemma lists_seen:
  "result (poolClaims r pool) k = Inr cs \<Longrightarrow> effects (poolClaims r pool) k = [CallListClaims (Some (np_Name pool)) (Inr cs)]"
  "result (allPods r) k = Inr ps \<Longrightarrow> effects (allPods r) k = [CallListPods None (Inr ps)]"
  by (simp_all add: poolClaims_def allPods_def call_defs)

section \<open>Conditional writes\<close>

lemma lawful_clock_only: "clock_only t \<Longrightarrow> judged (lawful r) pre t"
  by (induction t arbitrary: pre) (auto simp: clock_only_def)

text \<open>A mutator of NodePool annotations: it reads the clock only, and proposes a step.\<close>

locale pool_mutator = quiet_mutator mutate
  for mutate :: "'x mutator" +
  assumes step: "result (mutate m) k = Inr (x, Some m') \<Longrightarrow> pool_step m m'"
    and no_start: "result (mutate m) k = Inr (x, Some m') \<Longrightarrow> aget m ActiveRotation = '''' \<Longrightarrow> aget m' ActiveRotation = ''''"
begin

lemma lawful_attempt: "safe (lawful r) [] (poolAttempt r pool mutate)"
  unfolding safe_def
proof
  fix k
  show "judged (lawful r) [] (effects (poolAttempt r pool mutate) k)"
  proof (cases "api_GetPool (rc_Api r) k (np_Name pool)")
    case (Inr fresh)
    let ?pre = "CallGetPool (np_Name pool) (Inr fresh) # effects (mutate (np_Annotations fresh)) (Suc k)"
    have seen: "observed_pool ?pre fresh" by (auto simp: observed_pool_def)
    show ?thesis
    proof (cases "\<exists>x m. result (mutate (np_Annotations fresh)) (Suc k) = Inr (x, Some m)")
      case True
      then obtain x m where m: "result (mutate (np_Annotations fresh)) (Suc k) = Inr (x, Some m)" by blast
      have "lawful r ?pre (CallUpdatePool (fresh\<lparr>np_Annotations := m\<rparr>) a)" for a
        using seen step [OF m] no_start [OF m] by auto
      with Inr m quiet show ?thesis by (simp add: poolAttempt_effects lawful_clock_only)
    next
      case False
      with Inr quiet show ?thesis
        by (auto simp: poolAttempt_effects lawful_clock_only split: sum.splits option.splits)
    qed
  qed (simp add: poolAttempt_effects)
qed

lemma lawful_patchPoolIf: "safe (lawful r) [] (patchPoolIf r pool mutate)"
  unfolding patchPoolIf_def by (rule lawful.safe_retry [OF lawful_attempt])

lemma patchPool_observed:
  "result (patchPoolIf r pool mutate) k = Inr (wrote, x, q) \<Longrightarrow>
   observed_pool (effects (patchPoolIf r pool mutate) k) q"
  using patchPool_written [of r pool k x q] patchPool_not_written [of r pool k x q]
  by (cases wrote) (auto simp: observed_pool_def)

end

section \<open>The NodePool writes\<close>

lemma pool_mutator_always:
  assumes "\<And>m k. clock_only (effects (mutate m) k)"
    and "\<And>m k m'. result (mutate m) k = Inr m' \<Longrightarrow>
      pool_step m m' \<and> (aget m ActiveRotation = '''' \<longrightarrow> aget m' ActiveRotation = '''')"
  shows "pool_mutator (always mutate)"
  by unfold_locales (use assms in \<open>auto simp: always_def run_andThen split: sum.splits\<close>)

interpretation draining_record: pool_mutator "always (drainingRecord r wait path)" for r wait path
  by (rule pool_mutator_always)
    (auto simp: drainingRecord_def run_andThen Let_def split: if_splits intro!: pool_step.drain)

interpretation fallback_record: pool_mutator "always (fallbackRecord r)" for r
  by (rule pool_mutator_always)
    (auto simp: fallbackRecord_def run_andThen Let_def split: if_splits intro!: pool_step.drain)

interpretation pool_draining: pool_mutator "always poolDraining"
  by (rule pool_mutator_always) (auto simp: poolDraining_def intro!: pool_step.drain)

interpretation pool_failure: pool_mutator "always (poolFailure r)" for r
  by (rule pool_mutator_always) (auto simp: poolFailure_def run_andThen intro!: pool_step.fail)

interpretation torn_failure: pool_mutator "always (tornFailure cand)" for cand
  by (rule pool_mutator_always) (auto simp: tornFailure_def intro!: pool_step.fail)

interpretation anchor_fields: pool_mutator "always (\<lambda>m. ret (clearRotationAnchorFields m))"
  by (rule pool_mutator_always) (auto intro!: pool_step.release)

interpretation orphan_state: pool_mutator "always dropOrphanState"
  by (rule pool_mutator_always) (auto simp: dropOrphanState_def intro!: pool_step.repair)

interpretation release_if: pool_mutator "releaseIf claim" for claim
  by unfold_locales (auto simp: releaseIf_def split: if_splits intro!: pool_step.release)

interpretation completion: pool_mutator "completion r name" for r name
  by unfold_locales
    (auto simp: completion_def run_andThen split: if_splits option.splits
       intro: pool_step.succeed pool_step.release)

lemma edge_stamp_mutator:
  "pool_mutator (edgeClaim inp WindowStamp opened (\<lambda>m. m(WindowOpenedAt \<mapsto> t)))"
  by unfold_locales
    (auto simp: edgeClaim_def WindowEdge_def Let_def split: if_splits option.splits intro!: pool_step.opened)

lemma edge_clear_mutator: "pool_mutator (edgeClaim inp action opened (\<lambda>m. adel m WindowOpenedAt))"
  by unfold_locales (auto simp: edgeClaim_def split: if_splits intro!: pool_step.closed)

interpretation edge_stamp: pool_mutator "edgeClaim inp WindowStamp opened (\<lambda>m. m(WindowOpenedAt \<mapsto> t))"
  for inp opened t by (rule edge_stamp_mutator)

interpretation edge_clear: pool_mutator "edgeClaim inp action opened (\<lambda>m. adel m WindowOpenedAt)"
  for inp action opened by (rule edge_clear_mutator)

text \<open>A mutator of NodeClaim annotations.\<close>

locale claim_mutator = quiet_mutator mutate
  for mutate :: "'x mutator" +
  assumes step: "result (mutate m) k = Inr (x, Some m') \<Longrightarrow> claim_step m m'"
begin

text \<open>A write that moves a claim to draining needs the evidence; any other write needs none.\<close>

lemma lawful_attempt_pre:
  assumes drains: "\<And>m k x m'. result (mutate m) k = Inr (x, Some m') \<Longrightarrow> aget m' State = StateDraining \<Longrightarrow>
      aget m State \<noteq> StateDraining \<Longrightarrow> drain_justified r pre name"
  shows "safe (lawful r) pre (claimAttempt r name mutate)"
  unfolding safe_def
proof
  fix k
  show "judged (lawful r) pre (effects (claimAttempt r name mutate) k)"
  proof (cases "api_GetClaim (rc_Api r) k name")
    case (Inr fresh)
    let ?pre = "(pre @ [CallGetClaim name (Inr fresh)]) @ effects (mutate (nc_Annotations fresh)) (Suc k)"
    show ?thesis
    proof (cases "\<exists>x m. result (mutate (nc_Annotations fresh)) (Suc k) = Inr (x, Some m)")
      case True
      then obtain x m where m: "result (mutate (nc_Annotations fresh)) (Suc k) = Inr (x, Some m)" by blast
      have "drain_justified r pre name \<Longrightarrow> drain_justified r ?pre name" by (rule drain_justified_mono) auto
      then have "lawful r ?pre (CallUpdateClaim (fresh\<lparr>nc_Annotations := m\<rparr>) a)" for a
        using step [OF m] drains [OF m] unfolding lawful.simps
        by (intro exI [of _ name] exI [of _ fresh] exI [of _ m]) simp
      with Inr m quiet show ?thesis by (simp add: claimAttempt_effects lawful_clock_only)
    next
      case False
      with Inr quiet show ?thesis
        by (auto simp: claimAttempt_effects lawful_clock_only split: sum.splits option.splits)
    qed
  qed (simp add: claimAttempt_effects)
qed

lemma lawful_patchClaimIf_pre:
  assumes "\<And>m k x m'. result (mutate m) k = Inr (x, Some m') \<Longrightarrow> aget m' State = StateDraining \<Longrightarrow>
      aget m State \<noteq> StateDraining \<Longrightarrow> drain_justified r pre name"
  shows "safe (lawful r) pre (patchClaimIf r name mutate)"
  unfolding patchClaimIf_def by (rule lawful.safe_retry_pre [OF lawful_attempt_pre]) (rule assms)

end

text \<open>The mutators that never move a claim to draining.\<close>

locale settled_mutator = claim_mutator mutate
  for mutate :: "'x mutator" +
  assumes no_drain: "result (mutate m) k = Inr (x, Some m') \<Longrightarrow> aget m' State = StateDraining \<Longrightarrow> aget m State = StateDraining"
begin

lemma lawful_patchClaimIf: "safe (lawful r) [] (patchClaimIf r name mutate)"
  by (rule lawful_patchClaimIf_pre) (blast dest: no_drain)

end

section \<open>The NodeClaim writes\<close>

lemma claim_mutator_always:
  assumes "\<And>m k. clock_only (effects (mutate m) k)" and "\<And>m k m'. result (mutate m) k = Inr m' \<Longrightarrow> claim_step m m'"
  shows "claim_mutator (always mutate)"
  by unfold_locales (use assms in \<open>auto simp: always_def run_andThen split: sum.splits\<close>)

interpretation claim_draining: claim_mutator "always claimDraining"
  by (rule claim_mutator_always) (auto simp: claimDraining_def intro!: claim_step.drain)

interpretation surge_claim: settled_mutator "always (\<lambda>m. ret (m(SurgeClaim \<mapsto> c)))" for c
  by unfold_locales (auto simp: always_def run_andThen intro!: claim_step.induced)

interpretation failure_record: settled_mutator "failureRecord r" for r
  by unfold_locales (auto simp: failureRecord_def run_andThen Let_def intro!: claim_step.fail)

interpretation retry_entry: settled_mutator retryEntry
  by unfold_locales (auto simp: retryEntry_def split: if_splits intro!: claim_step.retry)

interpretation expired_pending: settled_mutator "expiredEntry (Some pendingExpiryEdits) ['''', StatePending]"
  by unfold_locales (auto simp: pendingExpiryEdits_def [abs_def] expiredEntry_def Let_def split: if_splits intro!: claim_step.expire_pending [unfolded pendingExpiryEdits_def])

interpretation expired_failed: settled_mutator "expiredEntry None [StateFailed]"
  by unfold_locales (auto simp: expiredEntry_def Let_def split: if_splits intro!: claim_step.expire_failed)

interpretation orphan_record: settled_mutator "orphanRecord r" for r
  by unfold_locales (auto simp: orphanRecord_def run_andThen Let_def split: if_splits intro!: claim_step.orphan)

interpretation pending_entry: settled_mutator "pendingEntry r" for r
  by unfold_locales
    (auto simp: pendingEntry_def run_andThen Let_def split: if_splits
       intro!: claim_step.pend claim_step.begin_pend)

section \<open>Programs that are lawful on their own\<close>

lemma lawful_patchNode [lawful_intro]:
  assumes "\<And>n. snd (mutate n) \<Longrightarrow> node_step n (fst (mutate n))"
  shows "safe (lawful r) [] (patchNode r name mutate)"
  unfolding patchNode_def
proof (rule lawful.safe_retry)
  show "safe (lawful r) [] (nodeAttempt r name mutate)"
    unfolding nodeAttempt_def
  proof (rule lawful.safe_learn)
    fix k x
    assume got: "result (getNode r name) k = Inr x"
    show "safe (lawful r) (effects (getNode r name) k @ [])
      (case x of None \<Rightarrow> ret False
       | Some n \<Rightarrow> case mutate n of (n', changed) \<Rightarrow>
           if \<not> changed then ret False else andThen (callUpdateNode r n') (\<lambda>_. ret True))"
    proof (cases x)
      case (Some n)
      have "observed_node (effects (getNode r name) k) n"
        using got Some by (auto simp: observed_node_def getNode_seen)
      with Some show ?thesis
        using assms [of n]
        by (auto simp: safe_def run_andThen callUpdateNode_def split: prod.splits sum.splits)
    qed (simp add: lawful_intro)
  qed (simp add: lawful_intro)
qed

lemma applied_step [lawful_intro]:
  "node_step n (fst (applyFreeze c n))" "node_step n (fst (applyCordon n))" "node_step n (fst (applyUnfreeze n))"
  by (rule node_step.intros)+

lemma unmark_step [lawful_intro]: "snd (unmark anchored n) \<Longrightarrow> node_step n (fst (unmark anchored n))"
  by (auto simp: unmark_def intro: node_step.intros)

lemma lawful_node_programs [lawful_intro]:
  "safe (lawful r) [] (freezeNode r node c)" "safe (lawful r) [] (cordonNode r node)"
  "safe (lawful r) [] (unfreezeNodes r c)"
  by (auto simp: freezeNode_def cordonNode_def unfreezeNodes_def intro!: lawful_intro)

lemma lawful_deletePlaceholder [lawful_intro]: "safe (lawful r) [] (deletePlaceholder r c)"
  unfolding deletePlaceholder_def callDeletePod_def
  by (rule lawful.safe_ignoreNotFound, rule lawful.safe_call) auto

lemma lawful_lookups [lawful_intro]:
  "safe (lawful r) [] (surgeHostFor r c)" "safe (lawful r) [] (claimForNode r pool host)"
  "safe (lawful r) [] (hostname r host)" "safe (lawful r) [] (surgeReady r pool cand ph)"
  "safe (lawful r) [] (candidateRequests r res cand)"
  by (auto simp: surgeHostFor_def claimForNode_def hostname_def surgeReady_def candidateRequests_def Let_def
      intro!: lawful_intro split: sum.splits option.splits)

lemma lawful_lookups2 [lawful_intro]:
  "safe (lawful r) [] (inducedClaim r pool cand)" "safe (lawful r) [] (surgePathFor r pool host startedAt)"
  "safe (lawful r) [] (near_deadline_hosts r cand sel cs)" "safe (lawful r) [] (headroom r pool res cand)"
proof -
  show "safe (lawful r) [] (near_deadline_hosts r cand sel cs)"
    by (induction cs) (auto intro!: lawful_intro)
qed (auto simp: inducedClaim_def surgePathFor_def headroom_def
      intro!: lawful_intro split: sum.splits option.splits)

lemma lawful_emissions [lawful_intro]:
  "safe (lawful r) [] (announce_sizing r cand clamp band)"
  "safe (lawful r) [] (observe pool res now claims views p derived excluded)"
  "safe (lawful r) [] (headroomGate r pool res cand)"
  by (auto simp: announce_sizing_def observe_def headroomGate_def intro!: lawful_intro split: option.splits)

lemma lawful_excludedHostnames [lawful_intro]: "safe (lawful r) [] (excludedHostnames r pool cand node res)"
  by (auto simp: excludedHostnames_def Let_def intro!: lawful_intro)

lemma lawful_patches [lawful_intro]:
  "safe (lawful r) [] (patchPoolIf r pool (completion r name))"
  "safe (lawful r) [] (patchPoolIf r pool (releaseIf name))"
  "safe (lawful r) [] (patchPool r pool (drainingRecord r wait path))"
  "safe (lawful r) [] (patchPool r pool (fallbackRecord r))"
  "safe (lawful r) [] (patchPool r pool poolDraining)"
  "safe (lawful r) [] (patchPool r pool (poolFailure r))"
  "safe (lawful r) [] (patchPool r pool (tornFailure cand))"
  "safe (lawful r) [] (patchPool r pool dropOrphanState)"
  "safe (lawful r) [] (clearAnchor r pool)"
  by (auto simp: patchPool_def clearAnchor_def intro!: lawful_intro completion.lawful_patchPoolIf
      release_if.lawful_patchPoolIf draining_record.lawful_patchPoolIf fallback_record.lawful_patchPoolIf
      pool_draining.lawful_patchPoolIf pool_failure.lawful_patchPoolIf torn_failure.lawful_patchPoolIf
      orphan_state.lawful_patchPoolIf anchor_fields.lawful_patchPoolIf)

lemma lawful_claim_patches [lawful_intro]:
  "safe (lawful r) [] (patchClaimIf r name (pendingEntry r))"
  "safe (lawful r) [] (patchClaimIf r name (failureRecord r))"
  "safe (lawful r) [] (patchClaimIf r name retryEntry)"
  "safe (lawful r) [] (patchClaimIf r name (orphanRecord r))"
  "safe (lawful r) [] (markExpired r name (Some pendingExpiryEdits) ['''', StatePending])"
  "safe (lawful r) [] (markExpired r name None [StateFailed])"
  "safe (lawful r) [] (patchClaim r name (\<lambda>m. ret (m(SurgeClaim \<mapsto> c))))"
  by (auto simp: patchClaim_def markExpired_def intro!: lawful_intro pending_entry.lawful_patchClaimIf
      failure_record.lawful_patchClaimIf retry_entry.lawful_patchClaimIf orphan_record.lawful_patchClaimIf
      expired_pending.lawful_patchClaimIf expired_failed.lawful_patchClaimIf
      surge_claim.lawful_patchClaimIf split: ClaimWrite.splits)

lemma lawful_claimDraining: "drain_justified r pre name \<Longrightarrow> safe (lawful r) pre (patchClaim r name claimDraining)"
  unfolding patchClaim_def
  by (intro lawful.safe_keep_pre claim_draining.lawful_patchClaimIf_pre lawful.safe_ret)

lemma lawful_roll_back [lawful_intro]:
  "safe (lawful r) [] (clearAnchorIf r pool c)" "safe (lawful r) [] (releaseExpired r pool name)"
  "safe (lawful r) [] (persistSurgeClaim r pool cand)"
  by (auto simp: clearAnchorIf_def releaseExpired_def persistSurgeClaim_def intro!: lawful_intro)

lemma lawful_handlers [lawful_intro]:
  "safe (lawful r) [] (advanceExpired r pool cand)" "safe (lawful r) [] (abortPendingExpiry r pool cand)"
  "safe (lawful r) [] (expireFailed r pool cand)" "safe (lawful r) [] (reapUngovernedRotation r pool)"
  by (auto simp: advanceExpired_def abortPendingExpiry_def expireFailed_def reapUngovernedRotation_def Let_def
      intro!: lawful_intro)

lemma lawful_advanceFailed [lawful_intro]:
  "safe (lawful r) [] again \<Longrightarrow> safe (lawful r) [] (advanceFailed r pool res cand findings again)"
  by (auto simp: advanceFailed_def Let_def intro!: lawful_intro split: ClaimWrite.splits)

lemma lawful_evaluateWindowEdge [lawful_intro]:
  "safe (lawful r) [] (evaluateWindowEdge r pool res now views excluded inWindow)"
  by (auto simp: evaluateWindowEdge_def Let_def intro!: lawful_intro edge_stamp.lawful_patchPoolIf
      edge_clear.lawful_patchPoolIf split: WindowAction.splits)

end
