(* ===== verification/Pass.thy ===== *)
theory Pass
  imports Lawful
begin

text \<open>
  The handlers that act on evidence: each is lawful after what its caller has established, and the
  pass over a NodePool, with the sweep before it, is lawful after nothing.
\<close>

section \<open>What a conditional write leaves in the trace\<close>

lemma always_written:
  "result (always mutate m) k = Inr (x, n) \<Longrightarrow> \<exists>m'. n = Some m' \<and> result (mutate m) k = Inr m'"
  unfolding always_def by (erule andThen_InrE) auto

lemma patchPool_recorded:
  assumes mut: "pool_mutator (always mutate)" and got: "result (patchPool r pool mutate) k = Inr q"
    and key: "\<And>m k m'. result (mutate m) k = Inr m' \<Longrightarrow> aget m' key = v"
  shows "pool_recorded (effects (patchPool r pool mutate) k) (np_Name pool) key v"
proof -
  from got obtain x where x: "result (patchPoolIf r pool (always mutate)) k = Inr x"
    "result (case x of (_, _, p) \<Rightarrow> ret p) (nextk (patchPoolIf r pool (always mutate)) k) = Inr q"
    unfolding patchPool_def by (rule andThen_InrE)
  obtain w where w: "result (patchPoolIf r pool (always mutate)) k = Inr (w, (), q)"
    using x by (cases x) simp
  have w: "result (patchPoolIf r pool (always mutate)) k = Inr (True, (), q)"
  proof (cases w)
    case False
    with quiet_mutator.patchPool_not_written [OF pool_mutator.axioms(1) [OF mut], of r pool k "()" q] w obtain j where
      "result (always mutate (np_Annotations q)) j = Inr ((), None)" by auto
    from always_written [OF this] show ?thesis by simp
  qed (use w in simp)
  from quiet_mutator.patchPool_written [OF pool_mutator.axioms(1) [OF mut] this] obtain fresh m j before where
    m: "result (always mutate (np_Annotations fresh)) j = Inr ((), Some m)" and
    e: "effects (patchPoolIf r pool (always mutate)) k =
        before @ CallGetPool (np_Name pool) (Inr fresh) # effects (always mutate (np_Annotations fresh)) j
          @ [CallUpdatePool (fresh\<lparr>np_Annotations := m\<rparr>) (Inr q)]" by blast
  from always_written [OF m] key have "aget m key = v" by auto
  moreover have "effects (patchPool r pool mutate) k = effects (patchPoolIf r pool (always mutate)) k"
    using w by (simp add: patchPool_def run_andThen)
  ultimately show ?thesis unfolding pool_recorded_def e
    by (intro exI [of _ fresh] exI [of _ m] exI [of _ q]) simp
qed

lemma patchClaim_recorded:
  assumes mut: "claim_mutator (always mutate)" and got: "result (patchClaim r name mutate) k = Inr u"
    and key: "\<And>m k m'. result (mutate m) k = Inr m' \<Longrightarrow> aget m' key = v"
  shows "claim_recorded (effects (patchClaim r name mutate) k) name key v"
proof -
  from got obtain w where w: "result (patchClaimIf r name (always mutate)) k = Inr w"
    unfolding patchClaim_def by (elim andThen_InrE) auto
  have e: "effects (patchClaim r name mutate) k = effects (patchClaimIf r name (always mutate)) k"
    using w by (simp add: patchClaim_def run_andThen)
  show ?thesis
  proof (cases w)
    case claimGone
    with quiet_mutator.patchClaim_gone [OF claim_mutator.axioms(1) [OF mut], of r name k] w e show ?thesis by (simp add: claim_recorded_def)
  next
    case (claimVetoed x)
    with w quiet_mutator.patchClaim_vetoed [OF claim_mutator.axioms(1) [OF mut], of r name k x] obtain m j where
      "result (always mutate m) j = Inr (x, None)" by blast
    from always_written [OF this] show ?thesis by simp
  next
    case (claimWritten x)
    with w quiet_mutator.patchClaim_written [OF claim_mutator.axioms(1) [OF mut], of r name k x] obtain fresh m q j before where
      m: "result (always mutate (nc_Annotations fresh)) j = Inr (x, Some m)" and
      f: "effects (patchClaimIf r name (always mutate)) k =
          before @ CallGetClaim name (Inr fresh) # effects (always mutate (nc_Annotations fresh)) j
            @ [CallUpdateClaim (fresh\<lparr>nc_Annotations := m\<rparr>) (Inr q)]" by blast
    from always_written [OF m] key have "aget m key = v" by auto
    then show ?thesis unfolding claim_recorded_def e f
      by (intro disjI2 exI [of _ fresh] exI [of _ m] exI [of _ q]) simp
  qed
qed

section \<open>Deleting a NodeClaim\<close>

lemma lawful_delete: "delete_justified r pre name \<Longrightarrow> safe (lawful r) pre (ignoreNotFound (callDeleteClaim r name))"
  unfolding callDeleteClaim_def by (rule lawful.safe_ignoreNotFound, rule lawful.safe_call) simp

lemma lawful_delete_then:
  "delete_justified r pre name \<Longrightarrow> safe (lawful r) pre (andThen (ignoreNotFound (callDeleteClaim r name)) (\<lambda>_. ret x))"
  by (rule lawful.safe_keep_pre [OF lawful_delete lawful.safe_ret])

lemma lawful_reapSurgeClaim:
  assumes cand: "observed_claim pre cand"
  shows "safe (lawful r) pre (reapSurgeClaim r cand name)"
proof (cases "name = ''''")
  case False
  have "safe (lawful r) (effects (getClaim r name) k @ pre)
      (case x of None \<Rightarrow> ret ()
       | Some sc \<Rightarrow> case parseTime (aget (nc_Annotations cand) StartedAt) of None \<Rightarrow> ret ()
           | Some startedAt \<Rightarrow> if \<not> CreatedByAttempt (Some sc) startedAt then ret ()
               else if nc_NodeName sc \<noteq> '''' then andThen (allPods r) (\<lambda>pods.
                 if hostsRealPods pods (nc_NodeName sc) (rc_Namespace r) (PlaceholderName (rc_sha256_hex r) (nc_Name cand))
                 then ret () else ignoreNotFound (callDeleteClaim r (nc_Name sc)))
               else ignoreNotFound (callDeleteClaim r (nc_Name sc)))"
    (is "safe _ ?pre _") if got: "result (getClaim r name) k = Inr x" for k x
  proof (cases "\<exists>sc startedAt. x = Some sc \<and> parseTime (aget (nc_Annotations cand) StartedAt) = Some startedAt
      \<and> CreatedByAttempt (Some sc) startedAt")
    case True
    then obtain sc startedAt where x: "x = Some sc" "parseTime (aget (nc_Annotations cand) StartedAt) = Some startedAt"
      "CreatedByAttempt (Some sc) startedAt" by blast
    have sc: "observed_claim ?pre sc" using got x by (auto simp: observed_claim_def getClaim_seen)
    have c: "observed_claim ?pre cand" using cand by (auto simp: observed_claim_def)
    have after: "startedAt < nc_CreationTimestamp sc" using x(3) by (simp add: CreatedByAttempt_def)
    show ?thesis
    proof (cases "nc_NodeName sc = ''''")
      case True
      with sc c after x(2) have "delete_justified r ?pre (nc_Name sc)"
        unfolding delete_justified_def surge_reaped_def by blast
      with x True show ?thesis by (simp add: lawful_delete)
    next
      case False
      have "safe (lawful r) ?pre (andThen (allPods r) (\<lambda>pods.
        if hostsRealPods pods (nc_NodeName sc) (rc_Namespace r) (PlaceholderName (rc_sha256_hex r) (nc_Name cand))
        then ret () else ignoreNotFound (callDeleteClaim r (nc_Name sc))))"
      proof (rule lawful.safe_learn)
        fix j pods
        assume "result (allPods r) j = Inr pods"
        then have pods: "CallListPods None (Inr pods) \<in> set (effects (allPods r) j @ ?pre)"
          by (simp add: lists_seen)
        have "observed_claim (effects (allPods r) j @ ?pre) sc" "observed_claim (effects (allPods r) j @ ?pre) cand"
          using sc c by (auto simp: observed_claim_def)
        with pods after x(2) have "\<not> hostsRealPods pods (nc_NodeName sc) (rc_Namespace r)
            (PlaceholderName (rc_sha256_hex r) (nc_Name cand)) \<Longrightarrow>
            delete_justified r (effects (allPods r) j @ ?pre) (nc_Name sc)"
          unfolding delete_justified_def surge_reaped_def by blast
        then show "safe (lawful r) (effects (allPods r) j @ ?pre)
           (if hostsRealPods pods (nc_NodeName sc) (rc_Namespace r) (PlaceholderName (rc_sha256_hex r) (nc_Name cand))
            then ret () else ignoreNotFound (callDeleteClaim r (nc_Name sc)))"
          by (simp add: lawful_delete lawful.safe_ret)
      qed (simp add: lawful_intro)
      with x False show ?thesis by simp
    qed
  next
    case False
    then show ?thesis by (auto simp: lawful.safe_ret split: option.splits)
  qed
  then have "safe (lawful r) pre (andThen (getClaim r name) (\<lambda>x. case x of None \<Rightarrow> ret ()
       | Some sc \<Rightarrow> case parseTime (aget (nc_Annotations cand) StartedAt) of None \<Rightarrow> ret ()
           | Some startedAt \<Rightarrow> if \<not> CreatedByAttempt (Some sc) startedAt then ret ()
               else if nc_NodeName sc \<noteq> '''' then andThen (allPods r) (\<lambda>pods.
                 if hostsRealPods pods (nc_NodeName sc) (rc_Namespace r) (PlaceholderName (rc_sha256_hex r) (nc_Name cand))
                 then ret () else ignoreNotFound (callDeleteClaim r (nc_Name sc)))
               else ignoreNotFound (callDeleteClaim r (nc_Name sc))))"
    by (intro lawful.safe_learn lawful_getters)
  with False show ?thesis by (simp add: reapSurgeClaim_def)
qed (simp add: reapSurgeClaim_def lawful.safe_ret)

lemma claim_of_two: "observed_claim (s @ t) c \<longleftrightarrow> observed_claim s c \<or> observed_claim t c"
  by (auto simp: observed_claim_def)

section \<open>The pending handler\<close>

lemma lawful_createPlaceholder:
  assumes "observed_claim pre cand"
  shows "safe (lawful r) pre (createPlaceholder r pool cand res)"
proof -
  have create: "safe (lawful r) pre (bindR (callCreatePod r (placeholder_for r pool cand res node requests hosts))
      (\<lambda>created. case created of
          Inl e \<Rightarrow> (if e = IsAlreadyExists then ret () else fail e)
        | Inr _ \<Rightarrow> announce_sizing r cand clamp band))" for node requests hosts clamp band
  proof (rule lawful.safe_bindR)
    show "safe (lawful r) pre (callCreatePod r (placeholder_for r pool cand res node requests hosts))"
      unfolding callCreatePod_def
    proof (rule lawful.safe_call)
      show "lawful r pre (CallCreatePod (placeholder_for r pool cand res node requests hosts) a)" for a
        unfolding lawful.simps using assms by blast
    qed
    show "safe (lawful r) (pre @ effects (callCreatePod r (placeholder_for r pool cand res node requests hosts)) k)
        (case result (callCreatePod r (placeholder_for r pool cand res node requests hosts)) k of
           Inl e \<Rightarrow> (if e = IsAlreadyExists then ret () else fail e)
         | Inr _ \<Rightarrow> announce_sizing r cand clamp band)" for k
      by (auto intro!: lawful.safe_more lawful_intro split: sum.splits)
  qed
  show ?thesis
    unfolding createPlaceholder_def
    by (auto simp: Let_def split: option.splits prod.splits
        intro!: lawful.safe_keep lawful_getters lawful_excludedHostnames create lawful.safe_ret)
qed

lemma lawful_failPending:
  assumes "observed_claim pre cand"
  shows "safe (lawful r) pre (failPending r pool res cand)"
proof -
  have rest: "safe (lawful r) [] (andThen (deletePlaceholder r (nc_Name cand)) (\<lambda>_.
     andThen (unfreezeNodes r (nc_Name cand)) (\<lambda>_.
     andThen (patchClaimIf r (nc_Name cand) (failureRecord r)) (\<lambda>wrote. case wrote of
       claimWritten recorded \<Rightarrow>
         andThen (emit (Failure (np_Name pool) (nc_Name cand))) (\<lambda>_. afterFailure r pool res cand recorded)
     | _ \<Rightarrow> ret (RequeueAfter shortRequeue)))))"
    by (auto simp: afterFailure_def Let_def intro!: lawful_intro split: ClaimWrite.splits)
  show ?thesis unfolding failPending_def
  proof (rule lawful.safe_keep)
    show "safe (lawful r) [] (let sc = aget (nc_Annotations cand) SurgeClaim
              in if sc = '''' then inducedClaim r pool cand else ret sc)"
      by (auto simp: Let_def intro!: lawful_intro)
  qed (rule lawful.safe_keep_pre [OF lawful_reapSurgeClaim [OF assms]], rule lawful.safe_more [OF rest])
qed

lemma surgeReady_host:
  assumes "result (surgeReady r pool cand ph) k = Inr (Some host)"
  shows "pod_Phase ph = PodRunning \<and> pod_DeletionTimestamp ph = None \<and> host = pod_NodeName ph \<and> host \<noteq> ''''
    \<and> host \<noteq> nc_NodeName cand
    \<and> (\<exists>node. CallGetNode host (Inr node) \<in> set (effects (surgeReady r pool cand ph) k) \<and> nodeReady node
         \<and> aget (nd_Labels node) NodePoolLabelKey = np_Name pool)"
proof -
  have ph: "pod_Phase ph = PodRunning" "pod_DeletionTimestamp ph = None" "pod_NodeName ph \<noteq> ''''"
    "pod_NodeName ph \<noteq> nc_NodeName cand"
    using assms by (auto simp: surgeReady_def Let_def split: if_splits)
  let ?rest = "\<lambda>node. case node of None \<Rightarrow> ret None
    | Some node \<Rightarrow> (if \<not> nodeReady node \<or> aget (nd_Labels node) NodePoolLabelKey \<noteq> np_Name pool
                    then ret None else ret (Some (pod_NodeName ph)))"
  have eq: "surgeReady r pool cand ph = andThen (getNode r (pod_NodeName ph)) ?rest"
    using ph by (auto simp: surgeReady_def Let_def intro!: arg_cong [where f = "andThen _"] split: option.splits)
  from assms obtain x where x: "result (getNode r (pod_NodeName ph)) k = Inr x"
    "result (?rest x) (nextk (getNode r (pod_NodeName ph)) k) = Inr (Some host)"
    unfolding eq by (rule andThen_InrE)
  from x(2) obtain node where node: "x = Some node" "nodeReady node"
    "aget (nd_Labels node) NodePoolLabelKey = np_Name pool" "host = pod_NodeName ph"
    by (cases x) (auto split: if_splits)
  have "CallGetNode host (Inr node) \<in> set (effects (surgeReady r pool cand ph) k)"
    using x(1) node by (simp add: eq andThen_Inr getNode_seen)
  with ph node show ?thesis by (intro conjI exI [of _ node]) simp_all
qed

text \<open>What the drain needs: the claim, its running placeholder, and the Ready node it runs on.\<close>

definition surge_seen :: "Reconciler \<Rightarrow> Effect list \<Rightarrow> NodePool \<Rightarrow> NodeClaim \<Rightarrow> bool" where
  "surge_seen r t pool cand \<longleftrightarrow>
     observed_claim t cand \<and>
     (\<exists>ph node. CallGetPod (placeholderKey r (nc_Name cand)) (Inr ph) \<in> set t
        \<and> pod_Phase ph = PodRunning \<and> pod_DeletionTimestamp ph = None
        \<and> pod_NodeName ph \<noteq> '''' \<and> pod_NodeName ph \<noteq> nc_NodeName cand
        \<and> CallGetNode (pod_NodeName ph) (Inr node) \<in> set t \<and> nodeReady node
        \<and> aget (nd_Labels node) NodePoolLabelKey = np_Name pool)"

lemma surge_seen_drains:
  assumes "surge_seen r t pool cand" "pool_recorded t (np_Name pool) ActiveRotationState StateDraining"
  shows "drain_justified r t (nc_Name cand)"
proof -
  from assms(1) obtain ph node where "observed_claim t cand"
    "CallGetPod (placeholderKey r (nc_Name cand)) (Inr ph) \<in> set t"
    "pod_Phase ph = PodRunning" "pod_DeletionTimestamp ph = None"
    "pod_NodeName ph \<noteq> ''''" "pod_NodeName ph \<noteq> nc_NodeName cand"
    "CallGetNode (pod_NodeName ph) (Inr node) \<in> set t" "nodeReady node"
    "aget (nd_Labels node) NodePoolLabelKey = np_Name pool" unfolding surge_seen_def by blast
  with assms(2) have "surge_shown r t (nc_Name cand)"
    unfolding surge_shown_def by (intro exI [of _ cand] exI [of _ ph] exI [of _ node]) simp
  then show ?thesis by (simp add: drain_justified_def)
qed

lemma claimDraining_state: "result (claimDraining m) k = Inr m' \<Longrightarrow> aget m' State = StateDraining"
  by (auto simp: claimDraining_def)

text \<open>The claim is recorded draining on the evidence, and deleted on the record.\<close>

lemma lawful_record_and_delete:
  assumes just: "drain_justified r pre (nc_Name cand)" and rest: "\<And>t. safe (lawful r) t announce"
  shows "safe (lawful r) pre (andThen (patchClaim r (nc_Name cand) claimDraining) (\<lambda>_. andThen announce (\<lambda>_.
     andThen (ignoreNotFound (callDeleteClaim r (nc_Name cand))) (\<lambda>_. ret x))))"
proof (rule lawful.safe_andThen [OF lawful_claimDraining [OF just]])
  fix j u
  let ?e = "effects (patchClaim r (nc_Name cand) claimDraining) j"
  assume "result (patchClaim r (nc_Name cand) claimDraining) j = Inr u"
  then have c: "claim_recorded ?e (nc_Name cand) State StateDraining"
    by (rule patchClaim_recorded [OF claim_draining.claim_mutator_axioms]) (rule claimDraining_state)
  have "drain_justified r (pre @ ?e) (nc_Name cand)" by (rule drain_justified_mono [OF _ just]) simp
  moreover have "claim_recorded (pre @ ?e) (nc_Name cand) State StateDraining"
    by (rule evidence_mono(6) [OF _ c]) simp
  ultimately have "delete_justified r (pre @ ?e) (nc_Name cand)" by (simp add: delete_justified_def)
  then show "safe (lawful r) (pre @ ?e) (andThen announce (\<lambda>_.
     andThen (ignoreNotFound (callDeleteClaim r (nc_Name cand))) (\<lambda>_. ret x)))"
    by (intro lawful.safe_keep rest lawful_delete_then)
qed

lemma surge_seen_mono: "set t \<subseteq> set u \<Longrightarrow> surge_seen r t pool cand \<Longrightarrow> surge_seen r u pool cand"
  unfolding surge_seen_def observed_claim_def by blast

lemma drainingRecord_state: "result (drainingRecord r wait path m) k = Inr m' \<Longrightarrow> aget m' ActiveRotationState = StateDraining"
  by (auto simp: drainingRecord_def run_andThen Let_def split: if_splits)

lemma fallbackRecord_mode: "result (fallbackRecord r m) k = Inr m' \<Longrightarrow> aget m' RotationMode = RotationModeForcefulFallback"
  by (auto simp: fallbackRecord_def run_andThen Let_def split: if_splits)

lemma lawful_startDrain:
  assumes "surge_seen r pre pool cand"
  shows "safe (lawful r) pre (startDrain r pool cand host startedAt)"
proof -
  let ?delete = "\<lambda>x. andThen (ignoreNotFound (callDeleteClaim r (nc_Name cand))) (\<lambda>_. ret x)"
  have drain: "safe (lawful r) pre (andThen (patchPool r pool (drainingRecord r wait path)) (\<lambda>pool.
     andThen (patchClaim r (nc_Name cand) claimDraining) (\<lambda>_.
     andThen (emit (ObserveDuration (np_Name pool) PhaseSurgeWait wait)) (\<lambda>_.
     ?delete (RequeueAfter shortRequeue)))))" for wait path
  proof (rule lawful.safe_learn)
    fix k q
    let ?e1 = "effects (patchPool r pool (drainingRecord r wait path)) k"
    assume "result (patchPool r pool (drainingRecord r wait path)) k = Inr q"
    then have p: "pool_recorded ?e1 (np_Name pool) ActiveRotationState StateDraining"
      by (rule patchPool_recorded [OF draining_record.pool_mutator_axioms]) (rule drainingRecord_state)
    have "drain_justified r (?e1 @ pre) (nc_Name cand)"
      by (rule surge_seen_drains [OF surge_seen_mono [OF _ assms] evidence_mono(5) [OF _ p]]) auto
    then show "safe (lawful r) (?e1 @ pre) (andThen (patchClaim r (nc_Name cand) claimDraining) (\<lambda>_.
       andThen (emit (ObserveDuration (np_Name q) PhaseSurgeWait wait)) (\<lambda>_. ?delete (RequeueAfter shortRequeue))))"
      by (rule lawful_record_and_delete) (simp add: lawful_emit)
  qed (simp add: lawful_intro)
  show ?thesis unfolding startDrain_def Let_def
    by (intro lawful.safe_keep drain lawful_intro) simp_all
qed

lemma lawful_pursueSurge:
  assumes cand: "observed_claim pre cand"
  shows "safe (lawful r) pre (pursueSurge r pool res cand startedAt)"
proof -
  let ?ready = "\<lambda>ph. andThen (surgeReady r pool cand ph) (\<lambda>host. case host of
      None \<Rightarrow> andThen (emit (EmitPlaceholderPending (np_Name pool) cand ph)) (\<lambda>_. ret (RequeueAfter shortRequeue))
    | Some host \<Rightarrow> startDrain r pool cand host startedAt)"
  have ready: "safe (lawful r) (effects (getPlaceholder r (nc_Name cand)) k @ pre) (?ready ph)"
    if got: "result (getPlaceholder r (nc_Name cand)) k = Inr (Some ph)" for k ph
  proof (rule lawful.safe_learn)
    fix j host
    assume host: "result (surgeReady r pool cand ph) j = Inr host"
    let ?t = "effects (surgeReady r pool cand ph) j @ effects (getPlaceholder r (nc_Name cand)) k @ pre"
    have "surge_seen r ?t pool cand" if "host = Some h" for h
    proof -
      from surgeReady_host [OF host [unfolded that]] obtain node where
        "pod_Phase ph = PodRunning" "pod_DeletionTimestamp ph = None" "h = pod_NodeName ph" "h \<noteq> ''''"
        "h \<noteq> nc_NodeName cand" "nodeReady node" "aget (nd_Labels node) NodePoolLabelKey = np_Name pool"
        "CallGetNode h (Inr node) \<in> set (effects (surgeReady r pool cand ph) j)" by blast
      moreover have "CallGetPod (placeholderKey r (nc_Name cand)) (Inr ph) \<in> set ?t"
        using getPlaceholder_seen [OF got] by simp
      ultimately show ?thesis using cand unfolding surge_seen_def claim_of_two
        by (intro conjI disjI2 exI [of _ ph] exI [of _ node]) simp_all
    qed
    then show "safe (lawful r) ?t (case host of
        None \<Rightarrow> andThen (emit (EmitPlaceholderPending (np_Name pool) cand ph)) (\<lambda>_. ret (RequeueAfter shortRequeue))
      | Some host \<Rightarrow> startDrain r pool cand host startedAt)"
      by (auto intro: lawful_startDrain intro!: lawful.safe_keep lawful_emit lawful.safe_ret split: option.splits)
  qed (rule lawful_lookups)
  have place: "safe (lawful r) pre (andThen (getPlaceholder r (nc_Name cand)) (\<lambda>ph. case ph of
      None \<Rightarrow> andThen (createPlaceholder r pool cand res) (\<lambda>_. ret (RequeueAfter shortRequeue))
    | Some ph \<Rightarrow> ?ready ph))"
  proof (rule lawful.safe_learn)
    fix k x
    assume got: "result (getPlaceholder r (nc_Name cand)) k = Inr x"
    show "safe (lawful r) (effects (getPlaceholder r (nc_Name cand)) k @ pre) (case x of
        None \<Rightarrow> andThen (createPlaceholder r pool cand res) (\<lambda>_. ret (RequeueAfter shortRequeue))
      | Some ph \<Rightarrow> ?ready ph)"
    proof (cases x)
      case None
      have "observed_claim (effects (getPlaceholder r (nc_Name cand)) k @ pre) cand"
        using cand by (simp add: claim_of_two)
      with None show ?thesis by (simp add: lawful.safe_keep_pre lawful_createPlaceholder lawful.safe_ret)
    next
      case (Some ph)
      with ready got show ?thesis by simp
    qed
  qed (rule lawful_getters)
  show ?thesis unfolding pursueSurge_def
    by (intro lawful.safe_keep lawful_intro) (simp add: place lawful.safe_ret)
qed

lemma lawful_advancePending [lawful_intro]: "safe (lawful r) [] (advancePending r pool res cand)"
proof (cases "nc_DeletionTimestamp cand = None")
  case True
  let ?act = "\<lambda>stamped c. case c of None \<Rightarrow> ret (RequeueAfter longRequeue)
    | Some cand \<Rightarrow> let startedAt = (case parseTime stamped of None \<Rightarrow> 0 | Some t \<Rightarrow> t)
        in andThen (clock r) (\<lambda>now.
             if res_readyTimeout res < TimeSub now startedAt then failPending r pool res cand
             else pursueSurge r pool res cand startedAt)"
  have fresh: "safe (lawful r) [] (andThen (getClaim r (nc_Name cand)) (?act stamped))" for stamped
  proof (rule lawful.safe_learn)
    fix k c
    assume got: "result (getClaim r (nc_Name cand)) k = Inr c"
    show "safe (lawful r) (effects (getClaim r (nc_Name cand)) k @ []) (?act stamped c)"
    proof (cases c)
      case (Some c')
      then have "observed_claim (effects (getClaim r (nc_Name cand)) k @ []) c'"
        using got by (auto simp: observed_claim_def getClaim_seen)
      with Some show ?thesis
        by (auto simp: Let_def intro!: lawful.safe_keep lawful_reads intro: lawful_failPending lawful_pursueSurge)
    qed (simp add: lawful.safe_ret)
  qed (rule lawful_getters)
  from True show ?thesis unfolding advancePending_def
    by (auto intro!: lawful_intro fresh split: ClaimWrite.splits)
qed (simp add: advancePending_def lawful_intro)

section \<open>The surge-less start\<close>

definition fallback_seen :: "Reconciler \<Rightarrow> Effect list \<Rightarrow> string \<Rightarrow> bool" where
  "fallback_seen r t name \<longleftrightarrow>
     (\<exists>pool res now claims cand.
        governed r t pool res \<and> ReadClock now \<in> set t
        \<and> CallListClaims (Some (np_Name pool)) (Inr claims) \<in> set t
        \<and> cand \<in> set claims \<and> nc_Name cand = name
        \<and> SurgelessFallback (adapt_Claim cand) (gateInputs pool res now))"

lemma fallback_seen_mono:
  assumes "set t \<subseteq> set u"
  shows "fallback_seen r t name \<Longrightarrow> fallback_seen r u name"
  using assms evidence_mono [OF assms] unfolding fallback_seen_def by blast

lemma lawful_startForcefulFallback:
  assumes seen: "fallback_seen r pre (nc_Name cand)"
  shows "safe (lawful r) pre (startForcefulFallback r pool cand)"
  unfolding startForcefulFallback_def
proof (rule lawful.safe_learn)
  fix k q
  let ?e = "effects (patchPool r pool (fallbackRecord r)) k"
  assume "result (patchPool r pool (fallbackRecord r)) k = Inr q"
  then have p: "pool_recorded ?e (np_Name pool) RotationMode RotationModeForcefulFallback"
    by (rule patchPool_recorded [OF fallback_record.pool_mutator_axioms]) (rule fallbackRecord_mode)
  have "fallback_seen r (?e @ pre) (nc_Name cand)" by (rule fallback_seen_mono [OF _ seen]) auto
  moreover have "pool_recorded (?e @ pre) (np_Name pool) RotationMode RotationModeForcefulFallback"
    by (rule evidence_mono(5) [OF _ p]) auto
  ultimately have "drain_justified r (?e @ pre) (nc_Name cand)"
    unfolding drain_justified_def fallback_shown_def fallback_seen_def by blast
  from lawful_record_and_delete [OF this, of "andThen (emit (ForcefulFallback (np_Name q) (nc_Name cand))) (\<lambda>_.
      emitIf (rc_Events r) (EventForcefulFallback (np_Name q) (nc_Name cand)))"]
  show "safe (lawful r) (?e @ pre) (andThen (patchClaim r (nc_Name cand) claimDraining) (\<lambda>_.
     andThen (emit (ForcefulFallback (np_Name q) (nc_Name cand))) (\<lambda>_.
     andThen (emitIf (rc_Events r) (EventForcefulFallback (np_Name q) (nc_Name cand))) (\<lambda>_.
     andThen (ignoreNotFound (callDeleteClaim r (nc_Name cand))) (\<lambda>_. ret (RequeueAfter shortRequeue))))))"
    by (simp add: andThen_assoc lawful.safe_keep_pre lawful_emit lawful_emitIf)
qed (rule lawful_patches)

section \<open>Draining and completion\<close>

lemma lawful_advanceDraining:
  assumes "observed_claim pre cand" "aget (nc_Annotations cand) State = StateDraining"
  shows "safe (lawful r) pre (advanceDraining r pool cand)"
proof -
  have "delete_justified r pre (nc_Name cand)" if "nc_DeletionTimestamp cand = None"
    unfolding delete_justified_def drain_resumed_def using assms that by blast
  then show ?thesis unfolding advanceDraining_def
    by (intro lawful.safe_keep) (auto intro!: lawful_intro intro: lawful_delete_then)
qed

text \<open>A release that ended a rotation is evidence of a success.\<close>

lemma completion_earned:
  assumes gone: "CallGetClaim name (Inl IsNotFound) \<in> set pre"
    and got: "result (patchPoolIf r pool (completion r name)) k = Inr (w, c, q)" and c: "cp_released c" "cp_rotated c"
  shows "success_earned (effects (patchPoolIf r pool (completion r name)) k @ pre) (np_Name q)"
proof (cases w)
  case False
  with got have "result (patchPoolIf r pool (completion r name)) k = Inr (False, c, q)" by simp
  from completion.patchPool_not_written [OF this] obtain j where
    "result (completion r name (np_Annotations q)) j = Inr (c, None)" by blast
  then have "c = not_released"
    by (auto simp: completion_def run_andThen split: if_splits option.splits)
  with c show ?thesis by (simp add: not_released_def)
next
  case True
  let ?e = "effects (patchPoolIf r pool (completion r name)) k"
  from True got have "result (patchPoolIf r pool (completion r name)) k = Inr (True, c, q)" by simp
  from completion.patchPool_written [OF this] obtain fresh m j before where
    m: "result (completion r name (np_Annotations fresh)) j = Inr (c, Some m)" and
    e: "?e = before @ CallGetPool (np_Name pool) (Inr fresh) # effects (completion r name (np_Annotations fresh)) j
      @ [CallUpdatePool (fresh\<lparr>np_Annotations := m\<rparr>) (Inr q)]" by blast
  from m c obtain ts where "m = clearRotationAnchorFields ((np_Annotations fresh)(LastRotationAt \<mapsto> ts))"
    "aget (np_Annotations fresh) ActiveRotation = name"
    "aget (np_Annotations fresh) ActiveRotationState = StateDraining"
    by (auto simp: completion_def not_released_def run_andThen split: if_splits option.splits)
  moreover have "observed_pool (?e @ pre) fresh" by (auto simp: observed_pool_def e)
  moreover have "CallGetClaim name (Inl IsNotFound) \<in> set (?e @ pre)" using gone by simp
  moreover have "CallUpdatePool (fresh\<lparr>np_Annotations := m\<rparr>) (Inr q) \<in> set (?e @ pre)" by (simp add: e)
  ultimately show ?thesis unfolding success_earned_def
    by (intro exI [of _ fresh] exI [of _ ts] exI [of _ q] exI [of _ name]) simp
qed

lemma lawful_completeOrAbort:
  assumes gone: "CallGetClaim name (Inl IsNotFound) \<in> set pre"
  shows "safe (lawful r) pre (completeOrAbort r pool name)"
proof -
  let ?tell = "\<lambda>c q. if \<not> cp_released c then ret (RequeueAfter longRequeue)
       else if \<not> cp_rotated c then
         andThen (emit (Expired (np_Name q) name)) (\<lambda>_. ret (RequeueAfter longRequeue))
       else
         andThen (emit (Success (np_Name q))) (\<lambda>_.
         andThen (case cp_drain c of
                    Some d \<Rightarrow> emit (ObserveDuration (np_Name q) PhaseDrain d) | None \<Rightarrow> ret ()) (\<lambda>_.
         andThen (emitIf (rc_Events r) (EventRotationCompleted (np_Name q) name (cp_surgePath c))) (\<lambda>_.
         ret (RequeueAfter longRequeue))))"
  have release: "safe (lawful r) pre (andThen (patchPoolIf r pool (completion r name)) (\<lambda>(_, c, q). ?tell c q))"
  proof (rule lawful.safe_learn)
    fix k x
    let ?e = "effects (patchPoolIf r pool (completion r name)) k"
    assume got: "result (patchPoolIf r pool (completion r name)) k = Inr x"
    obtain w c q where x: "x = (w, c, q)" by (cases x)
    have earned: "success_earned (?e @ pre) (np_Name q)" if "cp_released c" "cp_rotated c"
      using completion_earned [OF gone] got that x by simp
    have "safe (lawful r) (?e @ pre) (?tell c q)"
    proof (cases "cp_released c \<and> cp_rotated c")
      case True
      then have "safe (lawful r) (?e @ pre) (emit (Success (np_Name q)))"
        using earned by (intro lawful.safe_emit) simp
      moreover have "safe (lawful r) (?e @ pre) (andThen (case cp_drain c of
                    Some d \<Rightarrow> emit (ObserveDuration (np_Name q) PhaseDrain d) | None \<Rightarrow> ret ()) (\<lambda>_.
         andThen (emitIf (rc_Events r) (EventRotationCompleted (np_Name q) name (cp_surgePath c))) (\<lambda>_.
         ret (RequeueAfter longRequeue))))"
        by (rule lawful.safe_more) (auto intro!: lawful_intro split: option.splits)
      ultimately have "safe (lawful r) (?e @ pre) (andThen (emit (Success (np_Name q))) (\<lambda>_.
         andThen (case cp_drain c of
                    Some d \<Rightarrow> emit (ObserveDuration (np_Name q) PhaseDrain d) | None \<Rightarrow> ret ()) (\<lambda>_.
         andThen (emitIf (rc_Events r) (EventRotationCompleted (np_Name q) name (cp_surgePath c))) (\<lambda>_.
         ret (RequeueAfter longRequeue)))))" by (rule lawful.safe_keep_pre)
      with True show ?thesis by simp
    next
      case False
      have "safe (lawful r) [] (andThen (emit (Expired (np_Name q) name)) (\<lambda>_. ret (RequeueAfter longRequeue)))"
        by (intro lawful_intro) simp
      with False show ?thesis by (simp add: lawful.safe_more lawful.safe_ret)
    qed
    with x show "safe (lawful r) (?e @ pre) (case x of (_, c, q) \<Rightarrow> ?tell c q)" by simp
  qed (rule lawful_patches)
  show ?thesis unfolding completeOrAbort_def
    by (intro lawful.safe_keep lawful_intro release) simp_all
qed

section \<open>One step of the rotation in flight\<close>

lemma lawful_advance [lawful_intro]: "safe (lawful r) [] (advance n r pool name res findings)"
proof (induction n arbitrary: name)
  case (Suc n)
  let ?act = "\<lambda>cand. case cand of None \<Rightarrow> completeOrAbort r pool name
     | Some cand \<Rightarrow>
         (let st = aget (nc_Annotations cand) State
          in if st = '''' \<or> st = StatePending then advancePending r pool res cand
             else if st = StateDraining then advanceDraining r pool cand
             else if st = StateFailed then
               advanceFailed r pool res cand findings (advance n r pool (nc_Name cand) res findings)
             else if st = StateExpired then advanceExpired r pool cand
             else ret (RequeueAfter longRequeue))"
  have "safe (lawful r) [] (andThen (getClaim r name) ?act)"
  proof (rule lawful.safe_learn)
    fix k cand
    assume got: "result (getClaim r name) k = Inr cand"
    show "safe (lawful r) (effects (getClaim r name) k @ []) (?act cand)"
    proof (cases cand)
      case None
      with getClaim_seen(2) [of r name k] got show ?thesis by (simp add: lawful_completeOrAbort)
    next
      case (Some c)
      with getClaim_seen(1) [of r name k c] got
      have "observed_claim (effects (getClaim r name) k @ []) c" by (auto simp: observed_claim_def)
      then have "aget (nc_Annotations c) State = StateDraining \<Longrightarrow>
          safe (lawful r) (effects (getClaim r name) k @ []) (advanceDraining r pool c)"
        by (rule lawful_advanceDraining)
      moreover have "safe (lawful r) pre (advancePending r pool res c)"
        "safe (lawful r) pre (advanceFailed r pool res c findings (advance n r pool (nc_Name c) res findings))"
        "safe (lawful r) pre (advanceExpired r pool c)" for pre
        by (rule lawful.safe_more [OF lawful_advancePending] lawful.safe_more [OF lawful_handlers(1)]
            lawful.safe_more [OF lawful_advanceFailed [OF Suc.IH]])+
      ultimately show ?thesis using Some by (simp add: Let_def lawful.safe_ret)
    qed
  qed (rule lawful_getters)
  then show ?case by (simp only: advance.simps)
qed (simp add: lawful.safe_fail)

section \<open>Starting a rotation\<close>

text \<open>What the pass has read when it decides whether to start.\<close>

definition start_seen ::
  "Reconciler \<Rightarrow> Effect list \<Rightarrow> NodePool \<Rightarrow> Resolved \<Rightarrow> time \<Rightarrow> NodeClaim list \<Rightarrow> Node list \<Rightarrow> bool" where
  "start_seen r t pool0 res now claims nodes \<longleftrightarrow>
     governed r t pool0 res \<and> ReadClock now \<in> set t
     \<and> CallListClaims (Some (np_Name pool0)) (Inr claims) \<in> set t
     \<and> CallListNodes (Some (np_Name pool0)) (Inr nodes) \<in> set t"

lemma start_seen_mono:
  assumes "set t \<subseteq> set u"
  shows "start_seen r t pool0 res now claims nodes \<Longrightarrow> start_seen r u pool0 res now claims nodes"
  using assms evidence_mono [OF assms] unfolding start_seen_def by blast

lemma SurgelessFallback_pool: "SurgelessFallback c (gateInputs p res now) = SurgelessFallback c (gateInputs q res now)"
  by (simp add: SurgelessFallback_def gateInputs_def Let_def split: option.splits)

lemma lawful_anchorRotation:
  assumes "observed_pool pre pool" "aget (np_Annotations pool) ActiveRotation = ''''" "start_justified r pre pool name"
  shows "safe (lawful r) pre (anchorRotation r pool name)"
  unfolding anchorRotation_def callUpdatePool_def
proof (rule lawful.safe_call)
  fix a
  show "lawful r pre (CallUpdatePool (pool\<lparr>np_Annotations := (np_Annotations pool)(ActiveRotation \<mapsto> name)\<rparr>) a)"
    using assms pool_step.start [of "np_Annotations pool" name] unfolding lawful.simps
    by (intro exI [of _ pool] exI [of _ "(np_Annotations pool)(ActiveRotation \<mapsto> name)"]) simp
qed

lemma lawful_beginRotation:
  assumes "surgeless \<Longrightarrow> fallback_seen r pre (nc_Name cand)"
  shows "safe (lawful r) pre (beginRotation n r pool cand surgeless res findings)"
proof -
  have "safe (lawful r) pre (if surgeless then startForcefulFallback r pool cand
       else advance n r pool (nc_Name cand) res findings)"
    using assms by (auto intro: lawful_startForcefulFallback lawful.safe_more [OF lawful_advance])
  then show ?thesis unfolding beginRotation_def by (intro lawful.safe_keep lawful_intro) simp_all
qed

text \<open>A passed headroom gate is in the trace.\<close>

lemma headroom_listed:
  assumes "result (headroom r pool res cand) k = Inr (hr, clamp)"
  shows "if nc_NodeName cand = '''' then hr = Headroom pool fmempty
    else \<exists>pods. CallListPods None (Inr pods) \<in> set (effects (headroom r pool res cand) k)
           \<and> hr = Headroom pool (cr_Requests (snd (placeholderSizing pods res cand)))"
proof -
  from assms have c: "result (candidateRequests r res cand) k = Inr clamp" and hr: "hr = Headroom pool (cr_Requests clamp)"
    unfolding headroom_def by (auto elim!: andThen_InrE)
  have e: "set (effects (candidateRequests r res cand) k) \<subseteq> set (effects (headroom r pool res cand) k)"
    by (simp add: headroom_def run_andThen)
  show ?thesis
  proof (cases "nc_NodeName cand = ''''")
    case True
    with c hr show ?thesis by (auto simp: candidateRequests_def unclamped_def)
  next
    case False
    then have eq: "candidateRequests r res cand = andThen (allPods r) (\<lambda>pods. ret (snd (placeholderSizing pods res cand)))"
      by (simp add: candidateRequests_def)
    from c obtain pods where pods: "result (allPods r) k = Inr pods" "clamp = snd (placeholderSizing pods res cand)"
      unfolding eq by (auto elim!: andThen_InrE)
    then have "CallListPods None (Inr pods) \<in> set (effects (candidateRequests r res cand) k)"
      by (simp add: eq andThen_Inr lists_seen)
    with e hr pods False show ?thesis by auto
  qed
qed

lemma headroomGate_checked:
  assumes "result (headroomGate r pool res cand) k = Inr True"
  shows "headroom_checked (effects (headroomGate r pool res cand) k) pool res cand"
proof -
  let ?tell = "\<lambda>(hr, clamp). if \<not> hr_Fits hr then andThen (emit (EmitHeadroomBlocked pool cand hr clamp)) (\<lambda>_. ret False)
       else andThen (emit (ClearHeadroomBlocked (np_Name pool))) (\<lambda>_. ret True)"
  from assms obtain x where x: "result (headroom r pool res cand) k = Inr x"
    "result (?tell x) (nextk (headroom r pool res cand) k) = Inr True"
    unfolding headroomGate_def by (rule andThen_InrE)
  obtain hr clamp where hc: "x = (hr, clamp)" by (cases x)
  with x have fits: "hr_Fits hr" by (auto simp: run_andThen split: if_splits)
  have e: "effects (headroomGate r pool res cand) k =
      effects (headroom r pool res cand) k @ effects (?tell x) (nextk (headroom r pool res cand) k)"
    using x(1) by (simp add: headroomGate_def andThen_Inr)
  from headroom_listed [OF x(1) [unfolded hc]] fits e show ?thesis
    by (auto simp: headroom_checked_def split: if_splits)
qed

lemma lawful_anchorAndBegin:
  assumes "observed_pool pre pool" "aget (np_Annotations pool) ActiveRotation = ''''"
    and "start_justified r pre pool (nc_Name cand)" and fb: "surgeless \<Longrightarrow> fallback_seen r pre (nc_Name cand)"
  shows "safe (lawful r) pre (anchorAndBegin n r pool cand surgeless res findings)"
  unfolding anchorAndBegin_def
proof (rule lawful.safe_bindR [OF lawful_anchorRotation [OF assms(1-3)]])
  fix k
  show "safe (lawful r) (pre @ effects (anchorRotation r pool (nc_Name cand)) k)
      (case result (anchorRotation r pool (nc_Name cand)) k of
         Inl e \<Rightarrow> (if e = IsConflict then ret (RequeueAfter longRequeue) else fail e)
       | Inr q \<Rightarrow> beginRotation n r q cand surgeless res findings)"
    using fb fallback_seen_mono [of pre "pre @ effects (anchorRotation r pool (nc_Name cand)) k" r "nc_Name cand"]
    by (auto simp: lawful.safe_ret lawful.safe_fail intro!: lawful_beginRotation split: sum.splits)
qed

lemma lawful_startCandidate:
  assumes seen: "start_seen r pre pool0 res now claims nodes" and pool: "observed_pool pre pool"
    and free: "aget (np_Annotations pool) ActiveRotation = ''''"
    and gates: "gates_pass pool0 pool res now claims nodes (nc_Name cand)"
    and cand: "cand \<in> set claims" and pick: "c \<in> set claims" "nc_Name c = nc_Name cand"
  shows "safe (lawful r) pre (startCandidate n r pool res now (adapt_Claim c) cand findings)"
proof -
  let ?surgeless = "SurgelessFallback (adapt_Claim c) (gateInputs pool res now)"
  let ?gate = "if ?surgeless then ret True else headroomGate r pool res cand"
  have "safe (lawful r) (effects ?gate k @ pre)
      (if \<not> fits then ret (RequeueAfter longRequeue) else anchorAndBegin n r pool cand ?surgeless res findings)"
    if got: "result ?gate k = Inr fits" for k fits
  proof (cases fits)
    case True
    let ?t = "effects ?gate k @ pre"
    have seen': "start_seen r ?t pool0 res now claims nodes" by (rule start_seen_mono [OF _ seen]) auto
    have fb: "fallback_seen r ?t (nc_Name cand)" if ?surgeless
    proof -
      have "SurgelessFallback (adapt_Claim c) (gateInputs pool0 res now)"
        using that SurgelessFallback_pool by metis
      with seen' pick show ?thesis unfolding fallback_seen_def start_seen_def by blast
    qed
    have "start_justified r ?t pool (nc_Name cand)"
    proof (cases ?surgeless)
      case True
      with seen' gates pick show ?thesis unfolding start_justified_def start_seen_def
        by (intro exI [of _ pool0] exI [of _ res] exI [of _ now] exI [of _ claims] exI [of _ nodes] exI [of _ c]) simp
    next
      case False
      with got True have "headroom_checked (effects ?gate k) pool res cand" by (simp add: headroomGate_checked)
      then have "headroom_checked ?t pool res cand" by (rule headroom_checked_mono [rotated]) auto
      with seen' gates cand show ?thesis unfolding start_justified_def start_seen_def
        by (intro exI [of _ pool0] exI [of _ res] exI [of _ now] exI [of _ claims] exI [of _ nodes] exI [of _ cand]) simp
    qed
    moreover have "observed_pool ?t pool" by (rule evidence_mono(1) [OF _ pool]) auto
    ultimately have "safe (lawful r) ?t (anchorAndBegin n r pool cand ?surgeless res findings)"
      using fb by (intro lawful_anchorAndBegin [OF _ free]) blast+
    with True show ?thesis by simp
  qed (simp add: lawful.safe_ret)
  then show ?thesis unfolding startCandidate_def Let_def
    by (intro lawful.safe_learn) (simp_all add: lawful_intro)
qed

lemma lawful_startRotation:
  assumes seen: "start_seen r pre pool0 res now claims nodes" and pool: "observed_pool pre pool"
    and free: "aget (np_Annotations pool) ActiveRotation = ''''"
    and excluded: "excluded = excludedClaimNames claims (excludedNodeNames nodes)"
    and findings: "findings = r_Findings (derivedThresholds pool0 res (deref (WorstCasePeriod (res_sched res)))
        (deref (ShortestWindow (res_sched res))) (ShortestIdleGap (res_sched res)) (length claims))"
  shows "safe (lawful r) pre (startRotation n r pool res now claims excluded findings)"
proof -
  let ?sel = "selInputs res now excluded (hasFailedClaim (map adapt_Claim claims))"
  have go: "safe (lawful r) pre (startCandidate n r pool res now pick cand findings)"
    if "\<not> staticPool pool" "firstFatal findings = None" "fst (StartGate (gateInputs pool res now))"
      and picked: "PickEarliestDeadlineEligible (map adapt_Claim claims) ?sel = Some pick"
      and look: "snd (adapt_Claims claims) (c_Name pick) = Some cand" for pick cand
  proof -
    obtain c where c: "c \<in> set claims" "pick = adapt_Claim c" using pick_Some [OF picked] by auto
    have cand: "cand \<in> set claims" "nc_Name cand = c_Name pick" using adapt_Claims_lookup [OF look] by auto
    have "gates_pass pool0 pool res now claims nodes (nc_Name cand)"
      using that cand(2) unfolding gates_pass_def findings excluded by simp
    moreover have "nc_Name c = nc_Name cand" using c cand by (simp add: adapt_Claim_def)
    ultimately show ?thesis using lawful_startCandidate [OF seen pool free _ cand(1) c(1)] c(2) by blast
  qed
  obtain byName where split: "adapt_Claims claims = (map adapt_Claim claims, byName)" "byName = snd (adapt_Claims claims)"
    by (simp add: adapt_Claims_def)
  show ?thesis unfolding startRotation_def split(1) Let_def prod.case
    by (auto simp: split(2) intro!: lawful.safe_keep lawful_emit lawful.safe_ret go split: option.splits)
qed

section \<open>The pass\<close>

lemma observed_pool_append: "observed_pool (s @ t) p \<longleftrightarrow> observed_pool s p \<or> observed_pool t p"
  by (auto simp: observed_pool_def)

lemma patched_observed:
  assumes "\<And>wrote q. result m k = Inr (wrote, (), q) \<Longrightarrow> observed_pool (effects m k) q"
    and "\<And>wrote q j. result (f (wrote, (), q)) j = Inr q' \<Longrightarrow> q' = q"
    and "result (andThen m f) k = Inr q'"
  shows "observed_pool (effects (andThen m f) k @ pre) q'"
proof -
  from assms(3) obtain x where x: "result m k = Inr x" "result (f x) (nextk m k) = Inr q'" by (rule andThen_InrE)
  obtain wrote q where xs: "x = (wrote, (), q)" by (cases x) auto
  with assms(2) x(2) have "q' = q" by blast
  with assms(1) x(1) xs show ?thesis by (auto simp: andThen_Inr observed_pool_append)
qed

lemma evaluateWindowEdge_observed:
  assumes "result (evaluateWindowEdge r pool res now views excluded inWindow) k = Inr q" "observed_pool pre pool"
  shows "observed_pool (effects (evaluateWindowEdge r pool res now views excluded inWindow) k @ pre) q"
proof -
  let ?inp = "\<lparr>wi_Now = now, wi_InWindow = inWindow, wi_Annotations = np_Annotations pool,
                 wi_Census = TakeCensus views (selInputs res now excluded (hasFailedClaim views))\<rparr>"
  let ?opened = "aget (np_Annotations pool) WindowOpenedAt"
  let ?edge = "evaluateWindowEdge r pool res now views excluded inWindow"
  have stamp: ?thesis if "WindowEdge ?inp = WindowStamp"
  proof -
    have "?edge = andThen (patchPoolIf r pool (edgeClaim ?inp WindowStamp ?opened (\<lambda>m. m(WindowOpenedAt \<mapsto> rfc3339 now))))
        (\<lambda>(_, _, pool). ret pool)"
      unfolding evaluateWindowEdge_def Let_def using that by simp
    with assms(1) show ?thesis by (simp only:) (rule patched_observed, auto intro: edge_stamp.patchPool_observed)
  qed
  have settled: ?thesis if "WindowEdge ?inp = WindowSettled"
  proof -
    have "?edge = andThen (patchPoolIf r pool (edgeClaim ?inp WindowSettled ?opened (\<lambda>m. adel m WindowOpenedAt)))
        (\<lambda>(_, _, pool). ret pool)"
      unfolding evaluateWindowEdge_def Let_def using that by simp
    with assms(1) show ?thesis by (simp only:) (rule patched_observed, auto intro: edge_clear.patchPool_observed)
  qed
  have missed: ?thesis if "WindowEdge ?inp = WindowMissed"
  proof -
    have "?edge = andThen (patchPoolIf r pool (edgeClaim ?inp WindowMissed ?opened (\<lambda>m. adel m WindowOpenedAt)))
        (\<lambda>(wrote, _, pool). if \<not> wrote then ret pool
               else andThen (emit (MissedWindow (np_Name pool))) (\<lambda>_.
                    andThen (emit (EmitWindowMissed pool ?opened (wi_Census ?inp))) (\<lambda>_. ret pool)))"
      unfolding evaluateWindowEdge_def Let_def using that by simp
    with assms(1) show ?thesis
      by (simp only:) (rule patched_observed, auto simp: run_andThen intro: edge_clear.patchPool_observed split: if_splits)
  qed
  have rest: ?thesis if "WindowEdge ?inp \<notin> {WindowStamp, WindowSettled, WindowMissed}"
  proof -
    have "?edge = ret pool"
      unfolding evaluateWindowEdge_def Let_def using that by (auto split: WindowAction.splits)
    with assms show ?thesis by simp
  qed
  show ?thesis using stamp settled missed rest by blast
qed

lemma excludedClaims_seen:
  "result (excludedClaims r pool claims) k = Inr x \<Longrightarrow>
   \<exists>nodes. x = excludedClaimNames claims (excludedNodeNames nodes)
     \<and> CallListNodes (Some (np_Name pool)) (Inr nodes) \<in> set (effects (excludedClaims r pool claims) k)"
  unfolding excludedClaims_def by (elim andThen_InrE) (auto simp: andThen_Inr call_defs)

lemma resolve_sched [simp]: "res_sched (resolve pool pol sched) = sched"
  by (simp add: resolve_def Let_def split: prod.splits)

lemma lawful_reconcileNodePool:
  assumes pool: "observed_pool pre pool"
    and gov: "CallListPolicies (Inr policies) \<in> set pre" "governance r pool policies = Governed pol sched"
  shows "safe (lawful r) pre (reconcileNodePool n r pool pol sched)"
proof -
  let ?res = "resolve pool pol sched"
  let ?derived = "\<lambda>claims. derivedThresholds pool ?res (deref (WorstCasePeriod sched)) (deref (ShortestWindow sched))
    (ShortestIdleGap sched) (length claims)"
  let ?go = "\<lambda>now claims excluded pool. let name = aget (np_Annotations pool) ActiveRotation in
     if name \<noteq> '''' then advance n r pool name ?res (r_Findings (?derived claims))
     else startRotation n r pool ?res now claims excluded (r_Findings (?derived claims))"
  have edge: "safe (lawful r) t (andThen (evaluateWindowEdge r pool ?res now (fst (adapt_Claims claims)) excluded (InWindow sched now))
      (?go now claims excluded))"
    if seen: "start_seen r t pool ?res now claims nodes" and sub: "set pre \<subseteq> set t"
      and excluded: "excluded = excludedClaimNames claims (excludedNodeNames nodes)" for t now claims nodes excluded
  proof (rule lawful.safe_learn)
    fix k q
    let ?e = "effects (evaluateWindowEdge r pool ?res now (fst (adapt_Claims claims)) excluded (InWindow sched now)) k"
    assume "result (evaluateWindowEdge r pool ?res now (fst (adapt_Claims claims)) excluded (InWindow sched now)) k = Inr q"
    then have q: "observed_pool (?e @ t) q"
      by (rule evaluateWindowEdge_observed [OF _ evidence_mono(1) [OF sub pool]])
    have seen': "start_seen r (?e @ t) pool ?res now claims nodes" by (rule start_seen_mono [OF _ seen]) auto
    show "safe (lawful r) (?e @ t) (?go now claims excluded q)"
      using lawful_startRotation [OF seen' q _ excluded] by (simp add: Let_def lawful.safe_more [OF lawful_advance])
  qed (rule lawful_evaluateWindowEdge)
  have list: "safe (lawful r) (effects (clock r) k @ pre) (andThen (poolClaims r pool) (\<lambda>claims.
     andThen (excludedClaims r pool claims) (\<lambda>excluded.
     andThen (observe pool ?res now claims (fst (adapt_Claims claims)) (deref (WorstCasePeriod sched)) (?derived claims) excluded) (\<lambda>_.
     andThen (emit (EmitFindings pool (r_Findings (?derived claims)))) (\<lambda>_.
     andThen (emit (EmitShortLead pool claims (res_leadTime ?res))) (\<lambda>_.
     andThen (evaluateWindowEdge r pool ?res now (fst (adapt_Claims claims)) excluded (InWindow sched now)) (?go now claims excluded)))))))"
    if now: "result (clock r) k = Inr now" for k now
  proof (rule lawful.safe_learn, rule lawful_getters, rule lawful.safe_learn, rule lawful_getters)
    fix j claims i excluded
    assume "result (poolClaims r pool) j = Inr claims" and x: "result (excludedClaims r pool claims) i = Inr excluded"
    then have claims: "effects (poolClaims r pool) j = [CallListClaims (Some (np_Name pool)) (Inr claims)]"
      by (rule_tac lists_seen)
    let ?t = "effects (excludedClaims r pool claims) i @ effects (poolClaims r pool) j @ effects (clock r) k @ pre"
    from excludedClaims_seen [OF x] obtain nodes where
      nodes: "excluded = excludedClaimNames claims (excludedNodeNames nodes)"
        "CallListNodes (Some (np_Name pool)) (Inr nodes) \<in> set ?t" by auto
    have "governed r ?t pool ?res" unfolding governed_def using gov
      by (intro exI [of _ policies] exI [of _ pol] exI [of _ sched]) simp
    with nodes(2) claims now have "start_seen r ?t pool ?res now claims nodes" by (simp add: start_seen_def)
    then show "safe (lawful r) ?t (andThen (observe pool ?res now claims (fst (adapt_Claims claims))
        (deref (WorstCasePeriod sched)) (?derived claims) excluded) (\<lambda>_.
      andThen (emit (EmitFindings pool (r_Findings (?derived claims)))) (\<lambda>_.
      andThen (emit (EmitShortLead pool claims (res_leadTime ?res))) (\<lambda>_.
      andThen (evaluateWindowEdge r pool ?res now (fst (adapt_Claims claims)) excluded (InWindow sched now)) (?go now claims excluded)))))"
      by (intro lawful.safe_keep lawful_emissions lawful_emit edge [OF _ _ nodes(1)]) auto
  qed
  show ?thesis unfolding reconcileNodePool_def Let_def
    by (rule lawful.safe_learn) (use list in \<open>simp_all add: Let_def lawful_intro\<close>)
qed

section \<open>The sweep\<close>

lemma lawful_collect:
  assumes "\<And>x. x \<in> set xs \<Longrightarrow> safe (lawful r) pre (f x)"
  shows "safe (lawful r) pre (collect f xs)"
  using assms
proof (induction xs)
  case (Cons x xs)
  have "safe (lawful r) pre (andThen (collect f xs) (\<lambda>es. ret (case out of Inl e \<Rightarrow> e # es | Inr _ \<Rightarrow> es)))" for out
    using Cons by (intro lawful.safe_keep_pre lawful.safe_ret) simp
  then have "safe (lawful r) (pre @ effects (f x) k)
      (andThen (collect f xs) (\<lambda>es. ret (case result (f x) k of Inl e \<Rightarrow> e # es | Inr _ \<Rightarrow> es)))" for k
    by (rule lawful.safe_mono) simp
  with Cons.prems show ?case by (simp add: lawful.safe_bindR)
qed (simp add: lawful.safe_ret)

lemma lawful_anchored [lawful_intro]:
  "safe (lawful r) [] (anchored_in r anchored pools)" "safe (lawful r) [] (anchoredClaims r)"
proof -
  show *: "safe (lawful r) [] (anchored_in r anchored pools)" for anchored pools
    by (induction pools arbitrary: anchored) (auto simp: Let_def intro!: lawful_intro)
  then show "safe (lawful r) [] (anchoredClaims r)" by (auto simp: anchoredClaims_def intro!: lawful_intro *)
qed

lemma lawful_sweepPlaceholders [lawful_intro]: "safe (lawful r) [] (sweepPlaceholders r anchored)"
proof -
  have one: "safe (lawful r) pre (sweepPlaceholder r anchored p)"
    if "CallListPods (Some (rc_Namespace r)) (Inr pods) \<in> set pre" "p \<in> set pods" for pre pods p
  proof (cases "aget (pod_Labels p) SurgeFor = ''''")
    case False
    have "safe (lawful r) pre (callDeletePod r (pod_Namespace p, pod_Name p) u)" for u
      unfolding callDeletePod_def using that False by (intro lawful.safe_call) auto
    then show ?thesis unfolding sweepPlaceholder_def deleteSelected_def Let_def
      by (auto intro!: lawful.safe_keep_pre lawful.safe_bindR lawful.safe_ret lawful.safe_fail split: sum.splits)
  qed (simp add: sweepPlaceholder_def lawful.safe_ret)
  show ?thesis unfolding sweepPlaceholders_def
  proof (rule lawful.safe_learnR)
    fix k
    show "safe (lawful r) (effects (callListPods r (Some (rc_Namespace r))) k @ [])
        (case result (callListPods r (Some (rc_Namespace r))) k of
           Inl e \<Rightarrow> ret [e] | Inr pods \<Rightarrow> collect (sweepPlaceholder r anchored) pods)"
      by (auto simp: call_defs intro!: lawful.safe_ret lawful_collect one split: sum.splits)
  qed (rule lawful_reads)
qed

lemma lawful_Sweep [lawful_intro]: "safe (lawful r) [] (Sweep r)"
proof -
  have "safe (lawful r) [] (sweepNode r anchored n)" for anchored n
    by (auto simp: sweepNode_def intro!: lawful_intro split: sum.splits)
  moreover have "safe (lawful r) [] (sweepClaim r anchored c)" for anchored c
    by (auto simp: sweepClaim_def intro!: lawful_intro split: sum.splits ClaimWrite.splits)
  ultimately have "safe (lawful r) [] (sweepNodes r anchored)" "safe (lawful r) [] (sweepClaims r anchored)" for anchored
    by (auto simp: sweepNodes_def sweepClaims_def intro!: lawful_intro lawful_collect split: sum.splits)
  then show ?thesis unfolding Sweep_def by (intro lawful_intro)
qed

section \<open>Reconcile\<close>

lemma lawful_underGovernance:
  assumes "observed_pool pre pool" "CallListPolicies (Inr policies) \<in> set pre" "gov = governance r pool policies"
  shows "safe (lawful r) pre (underGovernance n r pool gov)"
proof (cases gov)
  case (Governed pol sched)
  with assms have "safe (lawful r) pre (reconcileNodePool n r pool pol sched)"
    by (intro lawful_reconcileNodePool) simp_all
  then show ?thesis unfolding underGovernance_def using Governed
    by (auto intro!: lawful.safe_keep lawful_emit)
next
  case Ungoverned
  have "safe (lawful r) [] (underGovernance n r pool gov)"
    unfolding underGovernance_def using Ungoverned by (auto intro!: lawful_intro)
  then show ?thesis by (rule lawful.safe_more)
next
  case (Contested detail)
  have "safe (lawful r) [] (underGovernance n r pool gov)"
    unfolding underGovernance_def using Contested by (auto intro!: lawful_intro)
  then show ?thesis by (rule lawful.safe_more)
qed

lemma lawful_governed:
  assumes pool: "observed_pool pre pool"
  shows "safe (lawful r) pre (andThen (governingPolicy r pool) (underGovernance n r pool))"
proof (rule lawful.safe_learn)
  fix k gov
  assume got: "result (governingPolicy r pool) k = Inr gov"
  then obtain policies where
    "CallListPolicies (Inr policies) \<in> set (effects (governingPolicy r pool) k)" "gov = governance r pool policies"
    unfolding governingPolicy_def by (elim andThen_InrE) (auto simp: andThen_Inr call_defs)
  with pool show "safe (lawful r) (effects (governingPolicy r pool) k @ pre) (underGovernance n r pool gov)"
    by (intro lawful_underGovernance [where policies = policies]) (simp_all add: observed_pool_append)
qed (auto simp: governingPolicy_def intro!: lawful_intro)

lemma lawful_Reconcile:
  assumes "safe (lawful r) [] startup"
  shows "safe (lawful r) [] (Reconcile n r startup name)"
  unfolding Reconcile_def
proof (rule lawful.safe_bindR0 [OF assms], rule lawful.safe_learnR)
  fix k
  show "safe (lawful r) (effects (callGetPool r name) k @ [])
     (case result (callGetPool r name) k of
       Inl e \<Rightarrow>
         (if e = IsNotFound
          then andThen (emit (ForgetPool name)) (\<lambda>_. andThen (emit (Forget name)) (\<lambda>_. ret NoRequeue))
          else fail e)
     | Inr pool \<Rightarrow> andThen (governingPolicy r pool) (underGovernance n r pool))"
  proof (cases "result (callGetPool r name) k")
    case (Inl e)
    have "safe (lawful r) [] (andThen (emit (ForgetPool name)) (\<lambda>_. andThen (emit (Forget name)) (\<lambda>_. ret NoRequeue)))"
      by (intro lawful_intro) simp_all
    with Inl show ?thesis by (auto simp: lawful.safe_fail intro: lawful.safe_more)
  next
    case (Inr pool)
    then have "observed_pool (effects (callGetPool r name) k @ []) pool"
      by (auto simp: observed_pool_def call_defs)
    from lawful_governed [OF this] Inr show ?thesis by simp
  qed
qed (rule lawful_reads)

end
