(* ===== verification/Footprint.thy ===== *)
theory Footprint
  imports Conditional Sweep
begin

text \<open>
  Footprints: which kinds of calls a program may make at all. They give the properties of the form
  that a program leaves one kind of object alone, and count what is done exactly once.
\<close>

datatype EffectKind = KRead | KPool | KClaim | KNode | KDeleteClaim | KDeletePod | KCreatePod | KNote

fun kind_of :: "Effect \<Rightarrow> EffectKind" where
  "kind_of (CallUpdatePool _ _) = KPool"
| "kind_of (CallUpdateClaim _ _) = KClaim"
| "kind_of (CallUpdateNode _ _) = KNode"
| "kind_of (CallDeleteClaim _ _) = KDeleteClaim"
| "kind_of (CallDeletePod _ _ _) = KDeletePod"
| "kind_of (CallCreatePod _ _) = KCreatePod"
| "kind_of (Note _) = KNote"
| "kind_of _ = KRead"

definition within :: "EffectKind set \<Rightarrow> 'a M \<Rightarrow> bool" where
  "within S m \<longleftrightarrow> (\<forall>k. kind_of ` set (effects m k) \<subseteq> S)"

named_theorems within_intro \<open>footprints of programs\<close>

lemma within_basic [within_intro]:
  "within S (ret x)" "within S (fail e)" "KNote \<in> S \<Longrightarrow> within S (emit ev)" "KNote \<in> S \<Longrightarrow> within S (emitIf b ev)"
  by (auto simp: within_def)

lemma within_bindR [within_intro]: "within S m \<Longrightarrow> (\<And>r. within S (f r)) \<Longrightarrow> within S (bindR m f)"
  unfolding within_def by (simp add: image_Un)

lemma within_andThen [within_intro]: "within S m \<Longrightarrow> (\<And>x. within S (f x)) \<Longrightarrow> within S (andThen m f)"
  unfolding andThen_def by (auto intro!: within_intro split: sum.splits)

lemma within_ignoreNotFound [within_intro]: "within S m \<Longrightarrow> within S (ignoreNotFound m)"
  unfolding ignoreNotFound_def by (auto intro!: within_intro split: sum.splits)

lemma within_orNil [within_intro]: "within S m \<Longrightarrow> within S (orNil m)"
  unfolding orNil_def by (auto intro!: within_intro split: sum.splits)

lemma within_each [within_intro]: "(\<And>x. within S (f x)) \<Longrightarrow> within S (each f xs)"
  by (induction xs) (auto intro!: within_intro)

lemma within_retry [within_intro]: "within S m \<Longrightarrow> within S (retryOnConflict n m)"
  by (induction n) (auto intro!: within_intro split: sum.splits)

lemma within_calls [within_intro]:
  "KRead \<in> S \<Longrightarrow> within S (clock r)" "KRead \<in> S \<Longrightarrow> within S (callGetPool r n)"
  "KRead \<in> S \<Longrightarrow> within S (callGetClaim r n)" "KRead \<in> S \<Longrightarrow> within S (callGetNode r n)"
  "KRead \<in> S \<Longrightarrow> within S (callGetPod r key)" "KRead \<in> S \<Longrightarrow> within S (callListPolicies r)"
  "KRead \<in> S \<Longrightarrow> within S (callListPools r)" "KRead \<in> S \<Longrightarrow> within S (callListClaims r sel)"
  "KRead \<in> S \<Longrightarrow> within S (callListNodes r sel)" "KRead \<in> S \<Longrightarrow> within S (callListPods r ns)"
  "KPool \<in> S \<Longrightarrow> within S (callUpdatePool r p)" "KClaim \<in> S \<Longrightarrow> within S (callUpdateClaim r c)"
  "KNode \<in> S \<Longrightarrow> within S (callUpdateNode r nd)" "KDeleteClaim \<in> S \<Longrightarrow> within S (callDeleteClaim r n)"
  "KDeletePod \<in> S \<Longrightarrow> within S (callDeletePod r key u)" "KCreatePod \<in> S \<Longrightarrow> within S (callCreatePod r pod)"
  by (auto simp: within_def call_defs)

lemma within_reads [within_intro]:
  "KRead \<in> S \<Longrightarrow> within S (getClaim r n)" "KRead \<in> S \<Longrightarrow> within S (getNode r n)"
  "KRead \<in> S \<Longrightarrow> within S (getPlaceholder r n)" "KRead \<in> S \<Longrightarrow> within S (poolClaims r pool)"
  "KRead \<in> S \<Longrightarrow> within S (allPods r)" "KRead \<in> S \<Longrightarrow> within S (claimForNode r pool host)"
  "KRead \<in> S \<Longrightarrow> within S (inducedClaim r pool cand)"
  by (auto simp: getClaim_def getNode_def getPlaceholder_def poolClaims_def allPods_def claimForNode_def
      inducedClaim_def intro!: within_intro split: option.splits)

lemma within_patches [within_intro]:
  "KRead \<in> S \<Longrightarrow> KPool \<in> S \<Longrightarrow> (\<And>m. within S (mutate m)) \<Longrightarrow> within S (patchPoolIf r pool mutate)"
  "KRead \<in> S \<Longrightarrow> KPool \<in> S \<Longrightarrow> (\<And>m. within S (edit m)) \<Longrightarrow> within S (patchPool r pool edit)"
  "KRead \<in> S \<Longrightarrow> KClaim \<in> S \<Longrightarrow> (\<And>m. within S (mutate m)) \<Longrightarrow> within S (patchClaimIf r name mutate)"
  "KRead \<in> S \<Longrightarrow> KNode \<in> S \<Longrightarrow> within S (patchNode r name change)"
  by (auto simp: patchPoolIf_def patchPool_def poolAttempt_def patchClaimIf_def claimAttempt_def patchNode_def
      nodeAttempt_def always_def intro!: within_intro split: option.splits prod.splits)

lemma within_programs [within_intro]:
  "KRead \<in> S \<Longrightarrow> KNode \<in> S \<Longrightarrow> within S (unfreezeNodes r c)"
  "KDeletePod \<in> S \<Longrightarrow> within S (deletePlaceholder r c)"
  "KRead \<in> S \<Longrightarrow> KDeleteClaim \<in> S \<Longrightarrow> within S (reapSurgeClaim r cand name)"
  "KRead \<in> S \<Longrightarrow> within S (surgeHostFor r c)"
  by (auto simp: unfreezeNodes_def deletePlaceholder_def reapSurgeClaim_def surgeHostFor_def
      intro!: within_intro split: option.splits sum.splits)

lemma within_releases [within_intro]:
  "KRead \<in> S \<Longrightarrow> KPool \<in> S \<Longrightarrow> within S (clearAnchor r pool)"
  "KRead \<in> S \<Longrightarrow> KPool \<in> S \<Longrightarrow> within S (clearAnchorIf r pool c)"
  "KRead \<in> S \<Longrightarrow> KPool \<in> S \<Longrightarrow> within S (patchPool r pool (poolFailure r))"
  by (auto simp: clearAnchor_def clearAnchorIf_def releaseIf_def poolFailure_def intro!: within_intro)

lemma within_no_updates:
  assumes "within S m"
  shows "KClaim \<notin> S \<Longrightarrow> claim_updates (effects m k) = []"
    and "KPool \<notin> S \<Longrightarrow> pool_updates (effects m k) = []"
  using assms by (fastforce simp: within_def claim_updates_Nil_iff pool_updates_Nil_iff)+

section \<open>What an ungoverned NodePool loses\<close>

lemma within_reap [within_intro]:
  "{KRead, KNote, KDeletePod, KNode, KPool} \<subseteq> S \<Longrightarrow> within S (reapUngovernedRotation r pool)"
  unfolding reapUngovernedRotation_def Let_def by (auto intro!: within_intro)

text \<open>
  C12. A pass over a NodePool that no policy governs, or that policies contest, tears the rotation in
  flight down without touching a NodeClaim: no NodeClaim is written or deleted and no placeholder is
  created, whatever the API server answers. If the NodePool has no anchor, the pass only emits.
\<close>

theorem ungoverned_pass_spares_claims:
  "case gov of
     Governed pol sched \<Rightarrow> True
   | _ \<Rightarrow> kind_of ` set (effects (underGovernance n r pool gov) k) \<subseteq>
       (if aget (np_Annotations pool) ActiveRotation = '''' then {KNote}
        else {KRead, KNote, KDeletePod, KNode, KPool})"
proof -
  let ?S = "if aget (np_Annotations pool) ActiveRotation = '''' then {KNote} else {KRead, KNote, KDeletePod, KNode, KPool}"
  have reap: "within ?S (reapUngovernedRotation r pool)"
    by (cases "aget (np_Annotations pool) ActiveRotation = ''''")
      (simp add: reapUngovernedRotation_def within_basic, simp add: within_reap)
  have told: "KNote \<in> ?S" by simp
  have "within ?S (underGovernance n r pool gov)" if "\<And>pol sched. gov \<noteq> Governed pol sched"
  proof (cases gov)
    case Ungoverned
    then show ?thesis unfolding underGovernance_def
      by (simp only: Governance.case) (intro within_andThen within_basic reap told)
  next
    case (Contested detail)
    then show ?thesis unfolding underGovernance_def
      by (simp only: Governance.case) (intro within_andThen within_basic reap told)
  qed (use that in blast)
  then show ?thesis unfolding within_def by (cases gov) simp_all
qed

end
