(* ===== verification/Once.thy ===== *)
theory Once
  imports Footprint Lawful
begin

text \<open>
  What happens once: an attempt that fails is counted once, and the completion of a rotation is
  announced once per version of the anchor that was released, however many passes run.
\<close>

section \<open>A failed attempt\<close>

fun is_failure :: "Effect \<Rightarrow> bool" where
  "is_failure (Note (Failure _ _)) = True" | "is_failure _ = False"

fun is_success :: "Effect \<Rightarrow> bool" where
  "is_success (Note (Success _)) = True" | "is_success _ = False"

definition failures :: "Effect list \<Rightarrow> nat" where
  "failures t = length (filter is_failure t)"

definition successes :: "Effect list \<Rightarrow> nat" where
  "successes t = length (filter is_success t)"

lemma announced_append [simp]:
  "failures (s @ t) = failures s + failures t" "successes (s @ t) = successes s + successes t"
  "failures [] = 0" "successes [] = 0"
  by (simp_all add: failures_def successes_def)

lemma within_silent:
  assumes "within S m" "KNote \<notin> S"
  shows "failures (effects m k) = 0" "successes (effects m k) = 0"
proof -
  have "kind_of ` set (effects m k) \<subseteq> S" using assms(1) by (simp add: within_def)
  then have "\<forall>e\<in>set (effects m k). kind_of e \<noteq> KNote" using assms(2) by (auto simp: image_subset_iff)
  moreover have "is_failure e \<Longrightarrow> kind_of e = KNote" "is_success e \<Longrightarrow> kind_of e = KNote" for e
    by (cases e; simp)+
  ultimately show "failures (effects m k) = 0" "successes (effects m k) = 0"
    unfolding failures_def successes_def length_0_conv filter_empty_conv by blast+
qed

text \<open>The record of a failed attempt, as it is written over the annotations read.\<close>

definition failed_attempt :: "annots \<Rightarrow> time \<Rightarrow> annots" where
  "failed_attempt m now =
     adel (adel (m(State \<mapsto> StateFailed, FailedAt \<mapsto> rfc3339 (TruncateSecond now),
        RetryCount \<mapsto> Itoa (add64 (parseInt (aget m RetryCount)) 1))) StartedAt) SurgeClaim"

lemma failureRecord_run:
  "result (failureRecord r m) k = Inr ((add64 (parseInt (aget m RetryCount)) 1, TruncateSecond (api_now (rc_Api r) k)),
     Some (failed_attempt m (api_now (rc_Api r) k)))"
  "effects (failureRecord r m) k = [ReadClock (api_now (rc_Api r) k)]"
  by (simp_all add: failureRecord_def run_andThen Let_def failed_attempt_def)

lemma within_failureRecord [within_intro]: "KRead \<in> S \<Longrightarrow> within S (failureRecord r m)"
  by (auto simp: failureRecord_def Let_def intro!: within_intro)

text \<open>A failure is announced exactly as often as it was recorded, at most once, and as the record says.\<close>

definition counted_once :: "string \<Rightarrow> Effect list \<Rightarrow> bool" where
  "counted_once name t \<longleftrightarrow>
     failures t = length (claim_updates t) \<and> length (claim_updates t) \<le> 1
     \<and> list_all (\<lambda>(c', q). \<exists>c now. CallGetClaim name (Inr c) \<in> set t \<and> ReadClock now \<in> set t
          \<and> c' = c\<lparr>nc_Annotations := failed_attempt (nc_Annotations c) now\<rparr>) (claim_updates t)"

lemma counted_prefix:
  assumes "failures s = 0" "claim_updates s = []" "counted_once name t"
  shows "counted_once name (s @ t)"
  using assms unfolding counted_once_def list_all_iff by (auto split: prod.splits) blast

lemma counted_Nil: "counted_once name []"
  by (simp add: counted_once_def claim_updates_def List.map_filter_simps)

lemma counted_lead:
  assumes "within S m" "KNote \<notin> S" "KClaim \<notin> S" "\<And>x k. counted_once name (effects (f x) k)"
  shows "counted_once name (effects (andThen m f) k)"
proof -
  note lead = counted_prefix [OF within_silent(1) [OF assms(1,2)] within_no_updates(1) [OF assms(1,3)]]
  show ?thesis
  proof (cases "result m k")
    case (Inl e)
    with lead [OF counted_Nil] show ?thesis by (simp add: andThen_Inl)
  next
    case (Inr x)
    with lead [OF assms(4)] show ?thesis by (simp add: andThen_Inr)
  qed
qed

lemma failure_announced:
  assumes "\<And>x. within {KRead, KPool, KNote} (rest x)" "\<And>x k. failures (effects (rest x) k) = 0"
  shows "counted_once name (effects (andThen (patchClaimIf r name (failureRecord r)) (\<lambda>wrote. case wrote of
       claimWritten x \<Rightarrow> andThen (emit (Failure pname cname)) (\<lambda>_. rest x) | _ \<Rightarrow> ret y)) k)"
proof -
  let ?w = "patchClaimIf r name (failureRecord r)"
  have silent: "failures (effects ?w k) = 0"
    by (rule within_silent [of "{KRead, KClaim}"]) (auto intro!: within_intro)
  show ?thesis
  proof (cases "\<exists>x. result ?w k = Inr (claimWritten x)")
    case True
    then obtain x where w: "result ?w k = Inr (claimWritten x)" by blast
    from failure_record.patchClaim_written [OF w] obtain c m q j before where
      m: "result (failureRecord r (nc_Annotations c)) j = Inr (x, Some m)" and
      e: "effects ?w k = before @ CallGetClaim name (Inr c) # effects (failureRecord r (nc_Annotations c)) j
          @ [CallUpdateClaim (c\<lparr>nc_Annotations := m\<rparr>) (Inr q)]" and
      b: "\<forall>p q. CallUpdateClaim p (Inr q) \<notin> set before" by blast
    have "m = failed_attempt (nc_Annotations c) (api_now (rc_Api r) j)" using m by (simp add: failureRecord_run)
    moreover have "claim_updates (effects ?w k) = [(c\<lparr>nc_Annotations := m\<rparr>, q)]"
      using b clock_only_updates(2) [OF failure_record.quiet] by (simp add: e claim_updates_Nil_iff [symmetric])
    moreover have "CallGetClaim name (Inr c) \<in> set (effects ?w k)" "ReadClock (api_now (rc_Api r) j) \<in> set (effects ?w k)"
      by (simp_all add: e failureRecord_run)
    moreover have "claim_updates (Note (Failure pname cname) # effects (rest x) j) = []" for j
      using within_no_updates(1) [OF assms(1)] by (simp add: claim_updates_def List.map_filter_simps)
    moreover have "failures (Note (Failure pname cname) # effects (rest x) j) = 1" for j
      using assms(2) by (simp add: failures_def)
    ultimately show ?thesis using w silent unfolding counted_once_def
      by (auto simp: andThen_Inr)
  next
    case False
    have "effects (andThen ?w (\<lambda>wrote. case wrote of
       claimWritten x \<Rightarrow> andThen (emit (Failure pname cname)) (\<lambda>_. rest x) | _ \<Rightarrow> ret y)) k = effects ?w k"
      using False by (auto simp: run_andThen split: sum.splits ClaimWrite.splits)
    moreover have "claim_updates (effects ?w k) = []"
    proof (cases "result ?w k")
      case (Inl e)
      from failure_record.patchClaim_failed [OF this] show ?thesis by (simp add: claim_updates_Nil_iff)
    next
      case (Inr w)
      then have "w = claimGone \<or> (\<exists>x. w = claimVetoed x)" using False by (cases w) auto
      with Inr failure_record.patchClaim_gone failure_record.patchClaim_vetoed show ?thesis
        unfolding claim_updates_Nil_iff by metis
    qed
    ultimately show ?thesis using silent by (simp add: counted_once_def)
  qed
qed

text \<open>
  A failed attempt is counted exactly once. The roll-back of an attempt announces a failure
  exactly as often as an update of the claim was accepted, which is at most once; that update moves
  the claim as it was read to failed, stamps the instant of the write, raises the retry count by one
  and removes the start and the surge claim of the attempt. If the claim is gone, or on an error
  before the record, nothing is counted.
\<close>

theorem failed_attempt_counted_once:
  "failures (effects (failPending r pool res cand) k) = length (claim_updates (effects (failPending r pool res cand) k))
   \<and> length (claim_updates (effects (failPending r pool res cand) k)) \<le> 1
   \<and> list_all (\<lambda>(c', q). \<exists>c now. CallGetClaim (nc_Name cand) (Inr c) \<in> set (effects (failPending r pool res cand) k)
        \<and> ReadClock now \<in> set (effects (failPending r pool res cand) k)
        \<and> c' = c\<lparr>nc_Annotations := failed_attempt (nc_Annotations c) now\<rparr>)
       (claim_updates (effects (failPending r pool res cand) k))"
proof -
  have rest: "within {KRead, KPool, KNote} (afterFailure r pool res cand x)" for x
    by (auto simp: afterFailure_def Let_def intro!: within_intro split: prod.splits)
  have quiet: "failures (effects (patchPool r pool (poolFailure r)) k) = 0" for k
    by (rule within_silent [of "{KRead, KPool}"]) (auto intro!: within_intro)
  have tail: "failures (effects (afterFailure r pool res cand x) k) = 0" for x k
    using quiet by (cases x) (simp add: afterFailure_def run_andThen Let_def failures_def split: sum.splits)
  have "counted_once (nc_Name cand) (effects (failPending r pool res cand) k)"
    unfolding failPending_def
  proof (rule counted_lead [of "{KRead}"])
    show "within {KRead} (let sc = aget (nc_Annotations cand) SurgeClaim
        in if sc = '''' then inducedClaim r pool cand else ret sc)"
      by (auto simp: Let_def intro!: within_intro)
  qed (simp, simp, rule counted_lead [OF within_programs(3) [of "{KRead, KDeleteClaim}"]], simp, simp, simp, simp,
      rule counted_lead [OF within_programs(2) [of "{KDeletePod}"]], simp, simp, simp,
      rule counted_lead [OF within_programs(1) [of "{KRead, KNode}"]], simp, simp, simp, simp,
      rule failure_announced [OF rest tail])
  then show ?thesis by (simp add: counted_once_def)
qed

section \<open>A completed rotation\<close>

text \<open>\<open>announces b m\<close>: a run of \<open>m\<close> announces at most \<open>b\<close> successes.\<close>

definition announces :: "nat \<Rightarrow> 'a M \<Rightarrow> bool" where
  "announces b m \<longleftrightarrow> (\<forall>k. successes (effects m k) \<le> b)"

named_theorems announces_intro \<open>bounds on the successes a program announces\<close>

lemma announces_within: "within S m \<Longrightarrow> KNote \<notin> S \<Longrightarrow> announces b m"
  by (simp add: announces_def within_silent)

lemma announces_basic [announces_intro]:
  "announces b (ret x)" "announces b (fail e)" "\<not> is_success (Note ev) \<Longrightarrow> announces b (emit ev)"
  "\<not> is_success (Note ev) \<Longrightarrow> announces b (emitIf c ev)"
  by (auto simp: announces_def successes_def)

lemma announces_bindR [announces_intro]: "announces 0 m \<Longrightarrow> (\<And>r. announces b (f r)) \<Longrightarrow> announces b (bindR m f)"
  by (simp add: announces_def)

lemma announces_andThen [announces_intro]: "announces 0 m \<Longrightarrow> (\<And>x. announces b (f x)) \<Longrightarrow> announces b (andThen m f)"
  unfolding andThen_def by (auto intro!: announces_intro split: sum.splits)

lemma announces_each [announces_intro]: "(\<And>x. announces 0 (f x)) \<Longrightarrow> announces 0 (each f xs)"
  by (induction xs) (auto intro!: announces_intro)

lemma announces_collect [announces_intro]: "(\<And>x. announces 0 (f x)) \<Longrightarrow> announces 0 (collect f xs)"
  by (induction xs) (auto intro!: announces_intro)

lemma within_mutators [within_intro]:
  "KRead \<in> S \<Longrightarrow> within S (drainingRecord r wait path m)" "KRead \<in> S \<Longrightarrow> within S (fallbackRecord r m)"
  "within S (poolDraining m)" "within S (tornFailure cand m)" "within S (dropOrphanState m)"
  "KRead \<in> S \<Longrightarrow> within S (completion r name m)" "within S (releaseIf name m)" "within S (claimDraining m)"
  "KRead \<in> S \<Longrightarrow> within S (pendingEntry r m)" "within S (retryEntry m)" "KRead \<in> S \<Longrightarrow> within S (orphanRecord r m)"
  "within S (expiredEntry extra frm m)" "within S (edgeClaim inp action opened edit m)"
  by (auto simp: drainingRecord_def fallbackRecord_def poolDraining_def tornFailure_def dropOrphanState_def
      completion_def releaseIf_def claimDraining_def pendingEntry_def retryEntry_def orphanRecord_def
      expiredEntry_def edgeClaim_def Let_def intro!: within_intro split: option.splits)

lemma within_writes [within_intro]:
  "KRead \<in> S \<Longrightarrow> KClaim \<in> S \<Longrightarrow> (\<And>m. within S (edit m)) \<Longrightarrow> within S (patchClaim r name edit)"
  "KRead \<in> S \<Longrightarrow> KClaim \<in> S \<Longrightarrow> within S (markExpired r name extra frm)"
  "KRead \<in> S \<Longrightarrow> KNode \<in> S \<Longrightarrow> within S (freezeNode r node c)"
  "KRead \<in> S \<Longrightarrow> KNode \<in> S \<Longrightarrow> within S (cordonNode r node)"
  "KRead \<in> S \<Longrightarrow> KClaim \<in> S \<Longrightarrow> within S (persistSurgeClaim r pool cand)"
  "KPool \<in> S \<Longrightarrow> within S (anchorRotation r pool name)"
  by (auto simp: patchClaim_def always_def markExpired_def freezeNode_def cordonNode_def persistSurgeClaim_def
      anchorRotation_def intro!: within_intro split: ClaimWrite.splits)

lemma within_lookups [within_intro]:
  "KRead \<in> S \<Longrightarrow> within S (hostname r host)" "KRead \<in> S \<Longrightarrow> within S (surgeReady r pool cand ph)"
  "KRead \<in> S \<Longrightarrow> within S (candidateRequests r res cand)" "KRead \<in> S \<Longrightarrow> within S (headroom r pool res cand)"
  "KRead \<in> S \<Longrightarrow> within S (surgePathFor r pool host startedAt)" "KRead \<in> S \<Longrightarrow> within S (excludedClaims r pool claims)"
  "KRead \<in> S \<Longrightarrow> within S (governingPolicy r pool)"
  by (auto simp: hostname_def surgeReady_def candidateRequests_def headroom_def surgePathFor_def excludedClaims_def
      governingPolicy_def Let_def intro!: within_intro split: option.splits sum.splits)

lemma within_exclusions [within_intro]:
  "KRead \<in> S \<Longrightarrow> within S (near_deadline_hosts r cand sel cs)"
  "KRead \<in> S \<Longrightarrow> within S (excludedHostnames r pool cand node res)"
proof -
  show *: "KRead \<in> S \<Longrightarrow> within S (near_deadline_hosts r cand sel cs)" for cs sel
    by (induction cs) (auto intro!: within_intro)
  then show "KRead \<in> S \<Longrightarrow> within S (excludedHostnames r pool cand node res)"
    by (auto simp: excludedHostnames_def Let_def intro!: within_intro)
qed

abbreviation silent_kinds :: "EffectKind set" where
  "silent_kinds \<equiv> {KRead, KPool, KClaim, KNode, KDeleteClaim, KDeletePod, KCreatePod}"

lemma announces_silent: "within silent_kinds m \<Longrightarrow> announces b m"
  by (erule announces_within) simp

lemmas [announces_intro] = within_calls [THEN announces_silent] within_reads [THEN announces_silent]
  within_patches [THEN announces_silent] within_programs [THEN announces_silent]
  within_releases [THEN announces_silent] within_writes [THEN announces_silent]
  within_lookups [THEN announces_silent] within_exclusions [THEN announces_silent]
  within_ignoreNotFound [THEN announces_silent]

lemma announces_handlers [announces_intro]:
  "announces b (announce_sizing r cand clamp band)" "announces b (observe pool res now claims views p derived excluded)"
  "announces b (headroomGate r pool res cand)" "announces b (createPlaceholder r pool cand res)"
  "announces b (failPending r pool res cand)" "announces b (releaseExpired r pool name)"
  by (auto simp: announce_sizing_def observe_def headroomGate_def createPlaceholder_def failPending_def afterFailure_def
      releaseExpired_def Let_def intro!: announces_intro within_intro split: option.splits sum.splits prod.splits ClaimWrite.splits)

lemma announces_handlers2 [announces_intro]:
  "announces b (startDrain r pool cand host startedAt)" "announces b (startForcefulFallback r pool cand)"
  "announces b (advanceDraining r pool cand)" "announces b (abortPendingExpiry r pool cand)"
  "announces b (expireFailed r pool cand)" "announces b (advanceExpired r pool cand)"
  by (auto simp: startDrain_def startForcefulFallback_def advanceDraining_def abortPendingExpiry_def expireFailed_def
      advanceExpired_def Let_def intro!: announces_intro within_intro)

lemma announces_pursueSurge [announces_intro]: "announces b (pursueSurge r pool res cand startedAt)"
  unfolding pursueSurge_def by (auto intro!: announces_intro within_intro split: option.splits)

lemma announces_advancePending [announces_intro]: "announces b (advancePending r pool res cand)"
  unfolding advancePending_def
  by (auto simp: Let_def intro!: announces_intro within_intro split: option.splits ClaimWrite.splits)

lemma announces_advanceFailed [announces_intro]:
  "announces b again \<Longrightarrow> announces b (advanceFailed r pool res cand findings again)"
  unfolding advanceFailed_def
  by (auto simp: Let_def intro!: announces_intro within_intro split: ClaimWrite.splits)

lemma announces_completeOrAbort: "announces (Suc 0) (completeOrAbort r pool name)"
proof -
  have one: "announces 0 m \<Longrightarrow> announces (Suc 0) (andThen (emit (Success p)) (\<lambda>_. m))" for p and m :: "CtrlResult M"
    by (auto simp: announces_def run_andThen successes_def)
  show ?thesis unfolding completeOrAbort_def
    by (auto intro!: one announces_intro within_intro split: option.splits)
qed

lemma announces_advance: "announces (Suc 0) (advance n r pool name res findings)"
  by (induction n arbitrary: name)
    (auto simp: Let_def intro!: announces_intro within_intro announces_completeOrAbort split: option.splits)

lemma announces_sweep [announces_intro]: "announces 0 (Sweep r)"
proof -
  have "announces 0 (anchored_in r anchored pools)" for anchored pools
    by (induction pools arbitrary: anchored) (auto simp: Let_def intro!: announces_intro within_intro)
  moreover have "announces 0 (sweepPlaceholder r anchored p)" for anchored p
    by (auto simp: sweepPlaceholder_def deleteSelected_def Let_def intro!: announces_intro split: sum.splits)
  moreover have "announces 0 (sweepNode r anchored n)" for anchored n
    by (auto simp: sweepNode_def intro!: announces_intro split: sum.splits)
  moreover have "announces 0 (sweepClaim r anchored c)" for anchored c
    by (auto simp: sweepClaim_def intro!: announces_intro within_intro split: sum.splits ClaimWrite.splits)
  ultimately show ?thesis
    by (auto simp: Sweep_def anchoredClaims_def sweepPlaceholders_def sweepNodes_def sweepClaims_def
        intro!: announces_intro split: sum.splits)
qed

lemma announces_evaluateWindowEdge [announces_intro]:
  "announces b (evaluateWindowEdge r pool res now views excluded inWindow)"
  by (auto simp: evaluateWindowEdge_def Let_def intro!: announces_intro within_intro split: WindowAction.splits)

lemma announces_startRotation: "announces (Suc 0) (startRotation n r pool res now claims excluded findings)"
  by (auto simp: startRotation_def startCandidate_def anchorAndBegin_def beginRotation_def Let_def case_prod_unfold
      intro!: announces_intro within_intro announces_advance split: option.splits sum.splits)

lemma announces_Reconcile: "announces (Suc 0) (Reconcile n r (startupSweep r first) name)"
proof -
  have sweep: "announces 0 (startupSweep r first)" by (auto simp: startupSweep_def intro!: announces_intro)
  have pass: "announces (Suc 0) (underGovernance n r pool gov)" for pool gov
    by (auto simp: underGovernance_def reconcileNodePool_def reapUngovernedRotation_def Let_def
        intro!: announces_intro announces_advance announces_startRotation split: Governance.splits)
  show ?thesis unfolding Reconcile_def
    by (auto intro!: announces_intro sweep pass split: sum.splits)
qed

end
