(* ===== verification/Safety.thy ===== *)
theory Safety
  imports Pass Once
begin

text \<open>
  The guarantees of a whole pass, read off the trace of \<open>Reconcile\<close>: what every deletion, every start,
  every write and every announced success rests on. The API server answers every call as it likes.
\<close>

section \<open>One aspect of the protocol at a time\<close>

fun deletion_rule :: "Reconciler \<Rightarrow> Effect list \<Rightarrow> Effect \<Rightarrow> bool" where
  "deletion_rule r t (CallDeleteClaim name _) = delete_justified r t name"
| "deletion_rule r t (CallUpdateClaim c' _) =
     (aget (nc_Annotations c') State = StateDraining \<longrightarrow>
        (\<exists>name c. CallGetClaim name (Inr c) \<in> set t \<and> c' = c\<lparr>nc_Annotations := nc_Annotations c'\<rparr>
           \<and> (aget (nc_Annotations c) State = StateDraining \<or> drain_justified r t name)))"
| "deletion_rule r t _ = True"

text \<open>
  An anchor is written only where it was read or where it passed the gates; otherwise it is cleared.
\<close>

fun start_rule :: "Reconciler \<Rightarrow> Effect list \<Rightarrow> Effect \<Rightarrow> bool" where
  "start_rule r t (CallUpdatePool p' _) =
     (aget (np_Annotations p') ActiveRotation = '''' \<or>
      (\<exists>p. observed_pool t p \<and> p' = p\<lparr>np_Annotations := np_Annotations p'\<rparr>
         \<and> (aget (np_Annotations p) ActiveRotation = aget (np_Annotations p') ActiveRotation \<or>
            aget (np_Annotations p) ActiveRotation = ''''
              \<and> start_justified r t p (aget (np_Annotations p') ActiveRotation))))"
| "start_rule r t _ = True"

text \<open>A write changes an object that was read, by one step of the protocol, and nothing else of it.\<close>

fun write_rule :: "Effect list \<Rightarrow> Effect \<Rightarrow> bool" where
  "write_rule t (CallUpdatePool p' _) =
     (\<exists>p. observed_pool t p \<and> p' = p\<lparr>np_Annotations := np_Annotations p'\<rparr>
        \<and> pool_step (np_Annotations p) (np_Annotations p')
        \<and> (\<forall>key. key \<notin> pool_keys \<longrightarrow> np_Annotations p' key = np_Annotations p key))"
| "write_rule t (CallUpdateClaim c' _) =
     (\<exists>c. observed_claim t c \<and> c' = c\<lparr>nc_Annotations := nc_Annotations c'\<rparr>
        \<and> claim_step (nc_Annotations c) (nc_Annotations c')
        \<and> (\<forall>key. key \<notin> claim_keys \<longrightarrow> nc_Annotations c' key = nc_Annotations c key))"
| "write_rule t (CallUpdateNode n' _) = (\<exists>n. observed_node t n \<and> node_step n n')"
| "write_rule t _ = True"

fun success_rule :: "Effect list \<Rightarrow> Effect \<Rightarrow> bool" where
  "success_rule t (Note (Success pn)) = success_earned t pn"
| "success_rule t _ = True"

lemma judged_weaken: "(\<And>t e. J t e \<Longrightarrow> J' t e) \<Longrightarrow> judged J pre es \<Longrightarrow> judged J' pre es"
  by (induction es arbitrary: pre) auto

lemma pool_step_anchor:
  "pool_step m m' \<Longrightarrow> aget m' ActiveRotation \<noteq> '''' \<Longrightarrow>
   aget m ActiveRotation = '''' \<or> aget m ActiveRotation = aget m' ActiveRotation"
  by (induction rule: pool_step.induct) (auto simp: aget_def)

lemma lawful_deletes:
  assumes "lawful r t e"
  shows "deletion_rule r t e"
proof (cases e)
  case (CallUpdateClaim c' a)
  with assms obtain name c m where "CallGetClaim name (Inr c) \<in> set t" "c' = c\<lparr>nc_Annotations := m\<rparr>"
    "aget m State = StateDraining \<and> aget (nc_Annotations c) State \<noteq> StateDraining \<longrightarrow> drain_justified r t name" by auto
  with CallUpdateClaim show ?thesis by (auto intro!: exI [of _ name] exI [of _ c])
qed (use assms in simp_all)

lemma lawful_starts:
  assumes "lawful r t e"
  shows "start_rule r t e"
proof (cases e)
  case (CallUpdatePool p' a)
  with assms obtain p m where p: "observed_pool t p" "p' = p\<lparr>np_Annotations := m\<rparr>" "pool_step (np_Annotations p) m"
    "aget (np_Annotations p) ActiveRotation = '''' \<and> aget m ActiveRotation \<noteq> '''' \<longrightarrow>
       start_justified r t p (aget m ActiveRotation)" by auto
  have "aget m ActiveRotation = '''' \<or> aget (np_Annotations p) ActiveRotation = aget m ActiveRotation
      \<or> aget (np_Annotations p) ActiveRotation = '''' \<and> start_justified r t p (aget m ActiveRotation)"
    using pool_step_anchor [OF p(3)] p(4) by blast
  with p(1,2) CallUpdatePool show ?thesis by auto
qed simp_all

lemma lawful_writes:
  assumes "lawful r t e"
  shows "write_rule t e"
proof (cases e)
  case (CallUpdatePool p' a)
  with assms obtain p m where "observed_pool t p" "p' = p\<lparr>np_Annotations := m\<rparr>" "pool_step (np_Annotations p) m"
    by auto
  with CallUpdatePool show ?thesis using pool_step_frame by (auto intro!: exI [of _ p])
next
  case (CallUpdateClaim c' a)
  with assms obtain c m where "observed_claim t c" "c' = c\<lparr>nc_Annotations := m\<rparr>" "claim_step (nc_Annotations c) m"
    by (auto simp: observed_claim_def)
  with CallUpdateClaim show ?thesis using claim_step_frame by (auto intro!: exI [of _ c])
qed (use assms in simp_all)

lemma lawful_successes:
  assumes "lawful r t e"
  shows "success_rule t e"
proof (cases e)
  case (Note x)
  with assms show ?thesis by (cases x) simp_all
qed simp_all

lemma lawful_startupSweep: "safe (lawful r) [] (startupSweep r first)"
  by (auto simp: startupSweep_def intro!: lawful_intro)

lemma pass_lawful: "judged (lawful r) [] (effects (Reconcile n r (startupSweep r first) name) k)"
  using lawful_Reconcile [OF lawful_startupSweep] by (simp add: safe_def)

section \<open>Properties\<close>

text \<open>
  C1. Make before break. Whatever the API server answers, in the trace of every pass (the startup
  sweep included) each call that deletes a NodeClaim is justified by what happened before it. Either
  the pass saw the claim's placeholder running, undeleted, on a Ready node of the same NodePool other
  than the claim's own, and recorded the drain on the NodePool and on the claim; or it read a policy
  under which the forceful fallback is enabled for this claim and recorded that mode and the drain;
  or the claim was read in state draining and not yet deleting; or it is an empty replacement created
  after the start of a failed attempt. And a claim enters the state draining on the first two grounds
  only, so that the third rests on them as well.
\<close>

theorem deletions_justified:
  "judged (deletion_rule r) [] (effects (Reconcile n r (startupSweep r first) name) k)"
  by (rule judged_weaken [OF lawful_deletes pass_lawful])

text \<open>
  C2. A rotation starts only past every gate. Whatever the API server answers, each write of a
  NodePool in a pass clears the anchor, keeps the anchor that was read, or sets a free anchor to a
  claim that passed: the NodePool is governed by a policy listed in the pass, is not static, its
  derived schedule has no fatal finding, the start gate was open at the clock reading of the pass,
  the claim is the earliest-deadline eligible one of the claims listed, and either its surge can no
  longer finish before its expiry and the fallback is enabled, or its requests fit the headroom.
\<close>

theorem starts_pass_every_gate:
  "judged (start_rule r) [] (effects (Reconcile n r (startupSweep r first) name) k)"
  by (rule judged_weaken [OF lawful_starts pass_lawful])

text \<open>
  C3. Every write is a step of the protocol. Whatever the API server answers, each NodePool or
  NodeClaim a pass writes is one it read, changed in its annotations only, by one transition of
  \<open>pool_step\<close> or \<open>claim_step\<close>; annotations outside the controller's own keys, the freeze of the
  operator among them, stay as read. Each Node it writes is one it read, changed by one of the four
  node mutators.
\<close>

theorem writes_follow_protocol:
  "judged write_rule [] (effects (Reconcile n r (startupSweep r first) name) k)"
  by (rule judged_weaken [OF lawful_writes pass_lawful])

text \<open>
  C10. A success is announced only when earned. Each success a pass reports is preceded in the pass
  by a read that did not find the claim, a read of the NodePool with this claim as its anchor in
  state draining, and an accepted write of that same object with the anchor cleared and the last
  rotation stamped; the success is announced for the NodePool the server returned for that write.
\<close>

theorem successes_earned:
  "judged success_rule [] (effects (Reconcile n r (startupSweep r first) name) k)"
  by (rule judged_weaken [OF lawful_successes pass_lawful])

section \<open>Announced once\<close>

definition version :: "NodePool \<Rightarrow> string \<times> nat" where
  "version p = (np_Name p, np_ResourceVersion p)"

text \<open>
  The versions whose anchor a trace released from draining: the NodePool was read at this version
  with a rotation draining, and the server accepted, as the NodePool \<open>pn\<close>, the update of that very
  object which clears the anchor and stamps the last rotation.
\<close>

definition released :: "Effect list \<Rightarrow> string \<Rightarrow> (string \<times> nat) set" where
  "released t pn =
     {version p | p ts q. observed_pool t p \<and> aget (np_Annotations p) ActiveRotationState = StateDraining
        \<and> np_Name q = pn
        \<and> CallUpdatePool
             (p\<lparr>np_Annotations := clearRotationAnchorFields ((np_Annotations p)(LastRotationAt \<mapsto> ts))\<rparr>)
             (Inr q) \<in> set t}"

text \<open>The successes announced for one NodePool.\<close>

definition announced :: "Effect list \<Rightarrow> string \<Rightarrow> nat" where
  "announced t pn = length (filter (\<lambda>e. e = Note (Success pn)) t)"

lemma announced_for_append [simp]:
  "announced [] pn = 0" "announced (s @ t) pn = announced s pn + announced t pn"
  by (simp_all add: announced_def)

lemma announced_le: "announced t pn \<le> successes t"
  by (induction t) (auto simp: announced_def successes_def)

lemma announced_none: "successes t = 0 \<Longrightarrow> announced t pn = 0"
  using announced_le [of t pn] by simp

lemma released_mono: "set t \<subseteq> set u \<Longrightarrow> released t pn \<subseteq> released u pn"
  unfolding released_def using evidence_mono(1) by blast

lemma judged_in: "judged J pre (s @ e # t) \<Longrightarrow> J (pre @ s) e"
  by simp

lemma pass_successes_paid:
  assumes "t = effects (Reconcile n r (startupSweep r first) name) k"
  shows "announced t pn \<le> length (filter (\<lambda>(p, q). version p \<in> released t pn) (pool_updates t))"
proof (cases "announced t pn = 0")
  case False
  then have "Note (Success pn) \<in> set t" by (auto simp: announced_def filter_empty_conv)
  then obtain s u where split: "t = s @ Note (Success pn) # u" by (auto dest: split_list)
  have "judged success_rule [] t"
    unfolding assms by (rule judged_weaken [OF lawful_successes pass_lawful])
  then have "success_earned s pn" using split judged_in [of success_rule "[]" s "Note (Success pn)" u] by simp
  then have "success_earned t pn" by (rule success_earned_mono [rotated]) (auto simp: split)
  then obtain p ts q where p: "observed_pool t p" "aget (np_Annotations p) ActiveRotationState = StateDraining"
    "np_Name q = pn"
    "CallUpdatePool (p\<lparr>np_Annotations := clearRotationAnchorFields ((np_Annotations p)(LastRotationAt \<mapsto> ts))\<rparr>) (Inr q) \<in> set t"
    unfolding success_earned_def by blast
  let ?p' = "p\<lparr>np_Annotations := clearRotationAnchorFields ((np_Annotations p)(LastRotationAt \<mapsto> ts))\<rparr>"
  have "version p \<in> released t pn" using p unfolding released_def by blast
  then have "version ?p' \<in> released t pn" by (simp add: version_def)
  moreover have "(?p', q) \<in> set (pool_updates t)"
    using p(4) by (force simp: pool_updates_def List.map_filter_def)
  ultimately have "filter (\<lambda>(p, q). version p \<in> released t pn) (pool_updates t) \<noteq> []"
    by (auto simp: filter_empty_conv)
  then have "1 \<le> length (filter (\<lambda>(p, q). version p \<in> released t pn) (pool_updates t))"
    by (cases "filter (\<lambda>(p, q). version p \<in> released t pn) (pool_updates t)") simp_all
  moreover have "successes t \<le> 1" using announces_Reconcile unfolding assms announces_def One_nat_def by blast
  ultimately show ?thesis using announced_le [of t pn] by simp
qed simp

type_synonym pass = "nat \<times> Reconciler \<times> bool \<times> string \<times> nat"

definition pass_trace :: "pass \<Rightarrow> Effect list" where
  "pass_trace = (\<lambda>(n, r, first, name, k). effects (Reconcile n r (startupSweep r first) name) k)"

lemma successes_paid:
  "announced (concat (map pass_trace ps)) pn
   \<le> length (filter (\<lambda>(p, q). version p \<in> released (concat (map pass_trace ps)) pn)
        (pool_updates (concat (map pass_trace ps))))"
proof -
  have mono: "length (filter (\<lambda>(p, q). version p \<in> released t pn) us)
      \<le> length (filter (\<lambda>(p, q). version p \<in> released u pn) us)" if "set t \<subseteq> set u" for t u us
    using released_mono [OF that] by (induction us) auto
  have paid: "announced (concat (map pass_trace ps)) pn
      \<le> length (filter (\<lambda>(p, q). version p \<in> released u pn) (pool_updates (concat (map pass_trace ps))))"
    if "set (concat (map pass_trace ps)) \<subseteq> set u" for u
    using that
  proof (induction ps)
    case (Cons x xs)
    obtain n r first name k where x: "x = (n, r, first, name, k)" by (cases x)
    have "announced (pass_trace x) pn
        \<le> length (filter (\<lambda>(p, q). version p \<in> released (pass_trace x) pn) (pool_updates (pass_trace x)))"
      by (rule pass_successes_paid) (simp add: x pass_trace_def)
    also have "\<dots> \<le> length (filter (\<lambda>(p, q). version p \<in> released u pn) (pool_updates (pass_trace x)))"
      by (rule mono) (use Cons.prems in simp)
    finally show ?case using Cons by simp
  qed simp
  show ?thesis by (rule paid) simp
qed

text \<open>
  C4. A rotation is announced complete once. Over any sequence of passes, of any replicas and for
  any NodePools, with any answers of the API server: where the server accepts at most one update per
  version of a NodePool, the successes announced for a NodePool never outnumber the versions of it
  whose anchor was released from draining: read with a rotation draining, then updated, with the
  server's consent, to the object with the anchor cleared and the last rotation stamped. Two passes
  that complete the same rotation from the same read announce one success, and a draining rotation
  that is read but never released announces none.
\<close>

theorem success_once_per_version:
  assumes "distinct (map (version \<circ> fst) (pool_updates (concat (map pass_trace ps))))"
  shows "announced (concat (map pass_trace ps)) pn \<le> card (released (concat (map pass_trace ps)) pn)"
proof -
  let ?t = "concat (map pass_trace ps)"
  let ?us = "filter (\<lambda>(p, q). version p \<in> released ?t pn) (pool_updates ?t)"
  have "distinct (map (version \<circ> fst) ?us)" using assms by (rule distinct_map_filter)
  then have "length ?us = card (set (map (version \<circ> fst) ?us))" by (simp only: distinct_card length_map)
  also have "\<dots> \<le> card (released ?t pn)"
  proof (rule card_mono)
    have "released ?t pn \<subseteq> (\<lambda>e. case e of CallGetPool _ (Inr p) \<Rightarrow> version p | CallUpdatePool _ (Inr p) \<Rightarrow> version p) ` set ?t"
      by (force simp: released_def observed_pool_def image_iff)
    then show "finite (released ?t pn)" using finite_subset by blast
  qed auto
  finally show ?thesis using successes_paid [of ps pn] by simp
qed

text \<open>A governed NodePool whose rotation drained: the claim is gone. Updates are accepted before call 50.\<close>

definition demo_live_pool :: NodePool where
  "demo_live_pool = (demo_nodepool Map.empty)\<lparr>np_Annotations :=
     [ActiveRotation \<mapsto> ''c'', ActiveRotationState \<mapsto> StateDraining, WindowOpenedAt \<mapsto> rfc3339 0]\<rparr>"

definition demo_live :: Reconciler where
  "demo_live = demo_reconciler (demo_api\<lparr>api_GetPool := \<lambda>k n. Inr demo_live_pool,
     api_ListPolicies := \<lambda>k. Inr [demo_rotation_policy ''p'' []],
     api_UpdatePool := \<lambda>k p. if k < 50 then Inr p else Inl IsConflict\<rparr>)"

lemma demo_governance:
  "governance (demo_reconciler api) (demo_nodepool ls\<lparr>np_Annotations := m\<rparr>) [demo_rotation_policy ''p'' []] =
     Governed demo_policy [\<lparr>e_Loc = UTC, e_Days = [1, 0], e_StartMin = 60, e_EndMin = 330\<rparr>]"
proof -
  have "Governing demo_compile (demo_nodepool ls\<lparr>np_Annotations := m\<rparr>) [demo_rotation_policy ''p'' []]
      = (Some (demo_rotation_policy ''p'' []), Matched, [])"
    by (simp add: Governing_def policy_matches_def policy_specificity_def specificity_def demo_compile_def
        demo_rotation_policy_def demo_nodepool_def Let_def)
  moreover have "ToPolicy (\<lambda>s. if s = ''UTC'' then Some UTC else None) (rp_Spec (demo_rotation_policy ''p'' [])) = Inr demo_policy"
  proof -
    have "window_ok (\<lambda>s. if s = ''UTC'' then Some UTC else None) \<lparr>mw_Timezone = ''UTC'', mw_Days = [''Mon'', ''sun''],
        mw_Start = ''01:00'', mw_End = ''05:30''\<rparr>"
      by (simp add: window_ok_def eval_simps)
    then have "Validate (\<lambda>s. if s = ''UTC'' then Some UTC else None) demo_policy = []"
      by (simp add: Validate_Nil policy_ok_def demo_policy_def ApplyDefaults_def Let_def or_default_def
          demo_spec_def toSurge_def toWindows_def toWindow_def AgeThresholdOverride_def)
    then show ?thesis by (simp add: ToPolicy_def demo_policy_def demo_spec_def demo_rotation_policy_def Let_def)
  qed
  moreover have "New (\<lambda>s. if s = ''UTC'' then Some UTC else None) (p_MaintenanceWindows demo_policy)
      = Inr [\<lparr>e_Loc = UTC, e_Days = [1, 0], e_StartMin = 60, e_EndMin = 330\<rparr>]"
    by (simp add: demo_policy_def ApplyDefaults_def Let_def demo_spec_def toWindows_def toWindow_def New_def new_entry_def eval_simps)
  ultimately show ?thesis by (simp add: governance_def demo_reconciler_def)
qed

lemma demo_live_simps [eval_simps]:
  "rc_Api demo_live = demo_api\<lparr>api_GetPool := \<lambda>k n. Inr demo_live_pool,
     api_ListPolicies := \<lambda>k. Inr [demo_rotation_policy ''p'' []],
     api_UpdatePool := \<lambda>k p. if k < 50 then Inr p else Inl IsConflict\<rparr>"
  "rc_Attempts demo_live = 5" "rc_Events demo_live" "np_Name demo_live_pool = ''pool-a''" "np_ResourceVersion demo_live_pool = 1"
  "np_Annotations demo_live_pool = [ActiveRotation \<mapsto> ''c'', ActiveRotationState \<mapsto> StateDraining, WindowOpenedAt \<mapsto> rfc3339 0]"
  by (simp_all add: demo_live_def demo_reconciler_def demo_live_pool_def demo_nodepool_def)

lemma demo_live_edge: "evaluateWindowEdge demo_live demo_live_pool res now views excluded inWindow = ret demo_live_pool"
proof -
  have "parseTime (rfc3339 0) = Some 0" using parseTime_rfc3339 [of 0] by (simp add: TruncateSecond_def)
  then show ?thesis
    by (simp add: evaluateWindowEdge_def WindowEdge_def Let_def demo_live_simps rfc3339_nonempty)
qed

definition demo_released :: NodePool where
  "demo_released = demo_live_pool\<lparr>np_Annotations := clearRotationAnchorFields
     ((np_Annotations demo_live_pool)(LastRotationAt \<mapsto> rfc3339 (1000 * Hour)))\<rparr>"

lemma demo_live_attempt:
  "result (poolAttempt demo_live demo_live_pool (completion demo_live ''c'')) k =
     (if k < 48 then Inr (True, \<lparr>cp_released = True, cp_rotated = True, cp_mode = ''surge'', cp_drain = None,
        cp_surgeWait = parseDuration '''', cp_surgePath = ''''\<rparr>, demo_released) else Inl IsConflict)"
  "nextk (poolAttempt demo_live demo_live_pool (completion demo_live ''c'')) k = k + 3"
  "effects (poolAttempt demo_live demo_live_pool (completion demo_live ''c'')) k =
     [CallGetPool ''pool-a'' (Inr demo_live_pool), ReadClock (1000 * Hour),
      CallUpdatePool demo_released (if k < 48 then Inr demo_released else Inl IsConflict)]"
  by (simp_all add: poolAttempt_def run_andThen call_defs completion_def demo_live_simps demo_api_def rotationMode_def
      demo_released_def Let_def)

lemma trace_Cons:
  "pool_updates [] = []" "pool_updates (e # t) = (case e of CallUpdatePool p (Inr q) \<Rightarrow> (p, q) # pool_updates t | _ \<Rightarrow> pool_updates t)"
  "announced (e # t) pn = (if e = Note (Success pn) then Suc (announced t pn) else announced t pn)"
  by (auto simp: pool_updates_def List.map_filter_simps announced_def split: Effect.splits sum.splits)

lemma demo_live_patch:
  "k < 48 \<Longrightarrow> patchPoolIf demo_live demo_live_pool (completion demo_live ''c'') k =
     poolAttempt demo_live demo_live_pool (completion demo_live ''c'') k"
  "48 \<le> k \<Longrightarrow> result (patchPoolIf demo_live demo_live_pool (completion demo_live ''c'')) k = Inl IsConflict"
  "48 \<le> k \<Longrightarrow> pool_updates (effects (patchPoolIf demo_live demo_live_pool (completion demo_live ''c'')) k) = []"
  by (simp add: patchPoolIf_def demo_live_simps retry_5 bindR_def run_eq [of "poolAttempt _ _ _"] demo_live_attempt ret_def,
      simp_all add: patchPoolIf_def demo_live_simps retry_5 demo_live_attempt trace_Cons)

lemma demo_live_complete:
  "k < 40 \<Longrightarrow> pool_updates (effects (completeOrAbort demo_live demo_live_pool ''c'') k) = [(demo_released, demo_released)]
     \<and> announced (effects (completeOrAbort demo_live demo_live_pool ''c'') k) ''pool-a'' = 1"
  "48 \<le> k \<Longrightarrow> pool_updates (effects (completeOrAbort demo_live demo_live_pool ''c'') k) = []
     \<and> announced (effects (completeOrAbort demo_live demo_live_pool ''c'') k) ''pool-a'' = 0"
proof -
  have pre: "result (surgeHostFor demo_live ''c'') k = Inr ''''" "nextk (surgeHostFor demo_live ''c'') k = Suc k"
    "effects (surgeHostFor demo_live ''c'') k = [CallListNodes None (Inr [])]"
    "result (unfreezeNodes demo_live ''c'') k = Inr ()" "nextk (unfreezeNodes demo_live ''c'') k = Suc k"
    "effects (unfreezeNodes demo_live ''c'') k = [CallListNodes None (Inr [])]"
    "result (deletePlaceholder demo_live ''c'') k = Inr ()" "nextk (deletePlaceholder demo_live ''c'') k = Suc k"
    "\<exists>key. effects (deletePlaceholder demo_live ''c'') k = [CallDeletePod key None (Inr ())]" for k
    by (simp_all add: surgeHostFor_def unfreezeNodes_def deletePlaceholder_def ignoreNotFound_def call_defs run_andThen
        demo_live_simps demo_api_def)
  from pre(9) obtain key where del: "\<And>k. effects (deletePlaceholder demo_live ''c'') k = [CallDeletePod (key k) None (Inr ())]"
    by metis
  show "k < 40 \<Longrightarrow> pool_updates (effects (completeOrAbort demo_live demo_live_pool ''c'') k) = [(demo_released, demo_released)]
     \<and> announced (effects (completeOrAbort demo_live demo_live_pool ''c'') k) ''pool-a'' = 1"
    using demo_live_patch(1) [of "Suc (Suc (Suc k))"]
    by (simp add: completeOrAbort_def run_andThen pre del result_def [of "patchPoolIf _ _ _"] nextk_def [of "patchPoolIf _ _ _"]
        effects_def [of "patchPoolIf _ _ _"] run_eq [of "poolAttempt _ _ _"] demo_live_attempt trace_Cons
        demo_released_def [THEN arg_cong, of np_Name] demo_live_simps)
  show "48 \<le> k \<Longrightarrow> pool_updates (effects (completeOrAbort demo_live demo_live_pool ''c'') k) = []
     \<and> announced (effects (completeOrAbort demo_live demo_live_pool ''c'') k) ''pool-a'' = 0"
    using announced_none [OF within_silent(2) [of "{KRead, KPool}" "patchPoolIf demo_live demo_live_pool (completion demo_live ''c'')"]]
    by (simp add: completeOrAbort_def run_andThen pre del demo_live_patch trace_Cons within_patches within_mutators)
qed

lemma demo_live_pass:
  "pool_updates (pass_trace (1, demo_live, False, ''pool-a'', k))
     = pool_updates (effects (completeOrAbort demo_live demo_live_pool ''c'') (Suc (Suc (Suc (Suc (Suc (Suc k)))))))
   \<and> announced (pass_trace (1, demo_live, False, ''pool-a'', k)) ''pool-a''
     = announced (effects (completeOrAbort demo_live demo_live_pool ''c'') (Suc (Suc (Suc (Suc (Suc (Suc k))))))) ''pool-a''"
proof -
  have got: "governance demo_live demo_live_pool [demo_rotation_policy ''p'' []] =
     Governed demo_policy [\<lparr>e_Loc = UTC, e_Days = [1, 0], e_StartMin = 60, e_EndMin = 330\<rparr>]"
    unfolding demo_live_def demo_live_pool_def by (rule demo_governance)
  let ?sched = "[\<lparr>e_Loc = UTC, e_Days = [1, 0], e_StartMin = 60, e_EndMin = 330\<rparr>]"
  have adv: "effects (advance (Suc 0) demo_live demo_live_pool ''c'' res fs) j =
      CallGetClaim ''c'' (Inl IsNotFound) # effects (completeOrAbort demo_live demo_live_pool ''c'') (Suc j)" for res fs j
    by (simp add: getClaim_def orNil_def call_defs run_andThen demo_live_simps demo_api_def)
  have "pool_updates (effects (reconcileNodePool 1 demo_live demo_live_pool demo_policy ?sched) j)
      = pool_updates (effects (completeOrAbort demo_live demo_live_pool ''c'') (Suc (Suc (Suc (Suc j)))))
    \<and> announced (effects (reconcileNodePool 1 demo_live demo_live_pool demo_policy ?sched) j) ''pool-a''
      = announced (effects (completeOrAbort demo_live demo_live_pool ''c'') (Suc (Suc (Suc (Suc j))))) ''pool-a''" for j
    by (simp only: reconcileNodePool_def Let_def)
      (simp add: run_andThen call_defs poolClaims_def excludedClaims_def observe_def demo_live_simps demo_api_def
        demo_live_edge adv trace_Cons del: advance.simps)
  then show ?thesis
    by (simp add: pass_trace_def Reconcile_def startupSweep_def underGovernance_def governingPolicy_def run_andThen
        call_defs demo_live_simps got trace_Cons)
qed

theorem success_once_per_version_witness:
  "let ps = [(1, demo_live, False, ''pool-a'', 0), (1, demo_live, False, ''pool-a'', 100)]
   in distinct (map (version \<circ> fst) (pool_updates (concat (map pass_trace ps))))
      \<and> announced (concat (map pass_trace ps)) ''pool-a'' = 1
      \<and> announced (concat (map pass_trace ps)) ''pool-a'' \<le> card (released (concat (map pass_trace ps)) ''pool-a'')"
proof -
  let ?ps = "[(1, demo_live, False, ''pool-a'', 0), (1, demo_live, False, ''pool-a'', 100)]"
  have "pool_updates (concat (map pass_trace ?ps)) = [(demo_released, demo_released)]"
    "announced (concat (map pass_trace ?ps)) ''pool-a'' = 1"
    using demo_live_pass [of 0] demo_live_pass [of 100] demo_live_complete(1) [of "Suc (Suc (Suc (Suc (Suc (Suc 0)))))"] demo_live_complete(2) [of 106]
    by simp_all
  then show ?thesis using success_once_per_version [of ?ps "''pool-a''"] by (simp only: Let_def) simp
qed

end
