(* ===== verification/Cluster.thy ===== *)
theory Cluster
  imports Once
begin

text \<open>
  A cluster that serves a trace: the documented behaviour of the API server, for passes that no other
  writer interleaves with. A read answers with the stored object, an accepted update replaces the
  object of its name at the version it was read at and assigns a new version, a deletion removes the
  object or marks it as terminating, a call that fails changes nothing. Properties of the
  form "after the program, the cluster is so" take the fact that the cluster serves the trace
  as their hypothesis.
\<close>

record Cluster =
  cl_pools :: "string \<rightharpoonup> NodePool"
  cl_claims :: "string \<rightharpoonup> NodeClaim"
  cl_nodes :: "string \<rightharpoonup> Node"
  cl_pods :: "string \<times> string \<rightharpoonup> Pod"

definition selects :: "string option \<Rightarrow> annots \<Rightarrow> bool" where
  "selects sel labels = (case sel of None \<Rightarrow> True | Some pool \<Rightarrow> aget labels NodePoolLabelKey = pool)"

fun serves1 :: "Cluster \<Rightarrow> Effect \<Rightarrow> Cluster \<Rightarrow> bool" where
  "serves1 S (CallGetPool n a) S' =
     (S' = S \<and> (case a of Inr p \<Rightarrow> cl_pools S n = Some p | Inl e \<Rightarrow> e = IsNotFound \<longrightarrow> cl_pools S n = None))"
| "serves1 S (CallGetClaim n a) S' =
     (S' = S \<and> (case a of Inr c \<Rightarrow> cl_claims S n = Some c | Inl e \<Rightarrow> e = IsNotFound \<longrightarrow> cl_claims S n = None))"
| "serves1 S (CallGetNode n a) S' =
     (S' = S \<and> (case a of Inr d \<Rightarrow> cl_nodes S n = Some d | Inl e \<Rightarrow> e = IsNotFound \<longrightarrow> cl_nodes S n = None))"
| "serves1 S (CallGetPod key a) S' =
     (S' = S \<and> (case a of Inr p \<Rightarrow> cl_pods S key = Some p | Inl e \<Rightarrow> e = IsNotFound \<longrightarrow> cl_pods S key = None))"
| "serves1 S (CallListPools a) S' = (S' = S \<and> (case a of Inr ps \<Rightarrow> set ps = ran (cl_pools S) | Inl _ \<Rightarrow> True))"
| "serves1 S (CallListClaims sel a) S' =
     (S' = S \<and> (case a of Inr cs \<Rightarrow> set cs = {c \<in> ran (cl_claims S). selects sel (nc_Labels c)} | Inl _ \<Rightarrow> True))"
| "serves1 S (CallListNodes sel a) S' =
     (S' = S \<and> (case a of Inr ns \<Rightarrow> set ns = {d \<in> ran (cl_nodes S). selects sel (nd_Labels d)} | Inl _ \<Rightarrow> True))"
| "serves1 S (CallListPods ns a) S' =
     (S' = S \<and> (case a of Inr ps \<Rightarrow> set ps = {p \<in> ran (cl_pods S). ns = None \<or> ns = Some (pod_Namespace p)} | Inl _ \<Rightarrow> True))"
| "serves1 S (CallUpdatePool p a) S' =
     (case a of
        Inr q \<Rightarrow> (\<exists>old v. cl_pools S (np_Name p) = Some old \<and> np_ResourceVersion old = np_ResourceVersion p
          \<and> q = p\<lparr>np_ResourceVersion := v\<rparr> \<and> S' = S\<lparr>cl_pools := (cl_pools S)(np_Name p \<mapsto> q)\<rparr>)
      | Inl e \<Rightarrow> S' = S \<and> (e = IsNotFound \<longrightarrow> cl_pools S (np_Name p) = None))"
| "serves1 S (CallUpdateClaim c a) S' =
     (case a of
        Inr q \<Rightarrow> (\<exists>old v. cl_claims S (nc_Name c) = Some old \<and> nc_ResourceVersion old = nc_ResourceVersion c
          \<and> q = c\<lparr>nc_ResourceVersion := v\<rparr> \<and> S' = S\<lparr>cl_claims := (cl_claims S)(nc_Name c \<mapsto> q)\<rparr>)
      | Inl e \<Rightarrow> S' = S \<and> (e = IsNotFound \<longrightarrow> cl_claims S (nc_Name c) = None))"
| "serves1 S (CallUpdateNode d a) S' =
     (case a of
        Inr q \<Rightarrow> (\<exists>old v. cl_nodes S (nd_Name d) = Some old \<and> nd_ResourceVersion old = nd_ResourceVersion d
          \<and> q = d\<lparr>nd_ResourceVersion := v\<rparr> \<and> S' = S\<lparr>cl_nodes := (cl_nodes S)(nd_Name d \<mapsto> q)\<rparr>)
      | Inl e \<Rightarrow> S' = S \<and> (e = IsNotFound \<longrightarrow> cl_nodes S (nd_Name d) = None))"
| "serves1 S (CallDeleteClaim n a) S' =
     (case a of
        Inr _ \<Rightarrow> (\<exists>c. cl_claims S n = Some c
          \<and> (S' = S\<lparr>cl_claims := (cl_claims S)(n := None)\<rparr> \<or>
             (\<exists>t. S' = S\<lparr>cl_claims := (cl_claims S)(n \<mapsto> c\<lparr>nc_DeletionTimestamp := Some t\<rparr>)\<rparr>)))
      | Inl e \<Rightarrow> S' = S \<and> (e = IsNotFound \<longrightarrow> cl_claims S n = None))"
| "serves1 S (CallDeletePod key uid a) S' =
     (case a of
        Inr _ \<Rightarrow> (\<exists>p. cl_pods S key = Some p \<and> (uid = None \<or> uid = Some (pod_UID p))
          \<and> (S' = S\<lparr>cl_pods := (cl_pods S)(key := None)\<rparr> \<or>
             (\<exists>t. S' = S\<lparr>cl_pods := (cl_pods S)(key \<mapsto> p\<lparr>pod_DeletionTimestamp := Some t\<rparr>)\<rparr>)))
      | Inl e \<Rightarrow> S' = S \<and> (e = IsNotFound \<longrightarrow> cl_pods S key = None)
          \<and> (e = IsConflict \<longrightarrow> (\<exists>p. cl_pods S key = Some p \<and> uid \<noteq> None \<and> uid \<noteq> Some (pod_UID p))))"
| "serves1 S (CallCreatePod p a) S' =
     (case a of
        Inr q \<Rightarrow> (\<exists>u. cl_pods S (pod_Namespace p, pod_Name p) = None \<and> q = p\<lparr>pod_UID := u\<rparr>
          \<and> S' = S\<lparr>cl_pods := (cl_pods S)((pod_Namespace p, pod_Name p) \<mapsto> q)\<rparr>)
      | Inl e \<Rightarrow> S' = S \<and> (e = IsAlreadyExists \<longrightarrow> cl_pods S (pod_Namespace p, pod_Name p) \<noteq> None))"
| "serves1 S _ S' = (S' = S)"

primrec serves :: "Cluster \<Rightarrow> Effect list \<Rightarrow> Cluster \<Rightarrow> bool" where
  "serves S [] S' = (S' = S)"
| "serves S (e # t) S' = (\<exists>T. serves1 S e T \<and> serves T t S')"

lemma serves_append: "serves S (s @ t) S' \<longleftrightarrow> (\<exists>T. serves S s T \<and> serves T t S')"
  by (induction s arbitrary: S) auto

text \<open>Every object is stored under its name.\<close>

definition keyed :: "Cluster \<Rightarrow> bool" where
  "keyed S \<longleftrightarrow> (\<forall>n p. cl_pools S n = Some p \<longrightarrow> np_Name p = n) \<and> (\<forall>n c. cl_claims S n = Some c \<longrightarrow> nc_Name c = n)
     \<and> (\<forall>n d. cl_nodes S n = Some d \<longrightarrow> nd_Name d = n)
     \<and> (\<forall>key p. cl_pods S key = Some p \<longrightarrow> key = (pod_Namespace p, pod_Name p))"

lemma keyedD:
  assumes "keyed S"
  shows "cl_pools S n = Some p \<Longrightarrow> np_Name p = n" "cl_claims S n = Some c \<Longrightarrow> nc_Name c = n"
    "cl_nodes S n = Some d \<Longrightarrow> nd_Name d = n" "cl_pods S key = Some pd \<Longrightarrow> key = (pod_Namespace pd, pod_Name pd)"
  using assms unfolding keyed_def by blast+

lemma serves1_keyed: "serves1 S e S' \<Longrightarrow> keyed S \<Longrightarrow> keyed S'"
  by (cases "(S, e, S')" rule: serves1.cases) (auto simp: keyed_def split: sum.splits if_splits)

lemma serves_keyed: "serves S t S' \<Longrightarrow> keyed S \<Longrightarrow> keyed S'"
  by (induction t arbitrary: S) (auto dest: serves1_keyed)

section \<open>What a footprint leaves alone\<close>

lemma serves1_frame:
  assumes "serves1 S e S'"
  shows "kind_of e \<noteq> KPool \<Longrightarrow> cl_pools S' = cl_pools S"
    and "kind_of e \<noteq> KClaim \<Longrightarrow> kind_of e \<noteq> KDeleteClaim \<Longrightarrow> cl_claims S' = cl_claims S"
    and "kind_of e \<noteq> KNode \<Longrightarrow> cl_nodes S' = cl_nodes S"
    and "kind_of e \<noteq> KDeletePod \<Longrightarrow> kind_of e \<noteq> KCreatePod \<Longrightarrow> cl_pods S' = cl_pods S"
  using assms by (cases "(S, e, S')" rule: serves1.cases; auto split: sum.splits)+

lemma serves_frame:
  assumes "serves S t S'" "kind_of ` set t \<subseteq> K"
  shows "KPool \<notin> K \<Longrightarrow> cl_pools S' = cl_pools S"
    and "KClaim \<notin> K \<Longrightarrow> KDeleteClaim \<notin> K \<Longrightarrow> cl_claims S' = cl_claims S"
    and "KNode \<notin> K \<Longrightarrow> cl_nodes S' = cl_nodes S"
    and "KDeletePod \<notin> K \<Longrightarrow> KCreatePod \<notin> K \<Longrightarrow> cl_pods S' = cl_pods S"
  using assms
proof (induction t arbitrary: S)
  case (Cons e t)
  { case 1 with Cons show ?case using serves1_frame(1) [of S e] by fastforce }
  { case 2 with Cons show ?case using serves1_frame(2) [of S e] by fastforce }
  { case 3 with Cons show ?case using serves1_frame(3) [of S e] by fastforce }
  { case 4 with Cons show ?case using serves1_frame(4) [of S e] by fastforce }
qed simp_all

text \<open>A trace without an accepted write changes nothing.\<close>

fun idle_effect :: "Effect \<Rightarrow> bool" where
  "idle_effect (CallUpdatePool _ a) = isl a"
| "idle_effect (CallUpdateClaim _ a) = isl a"
| "idle_effect (CallUpdateNode _ a) = isl a"
| "idle_effect (CallDeleteClaim _ a) = isl a"
| "idle_effect (CallDeletePod _ _ a) = isl a"
| "idle_effect (CallCreatePod _ a) = isl a"
| "idle_effect _ = True"

lemma serves1_idle: "serves1 S e S' \<Longrightarrow> idle_effect e \<Longrightarrow> S' = S"
  by (cases "(S, e, S')" rule: serves1.cases) (auto split: sum.splits)

lemma serves_idle: "serves S t S' \<Longrightarrow> \<forall>e\<in>set t. idle_effect e \<Longrightarrow> S' = S"
  by (induction t arbitrary: S) (auto dest: serves1_idle)

section \<open>Runs\<close>

definition runs :: "Cluster \<Rightarrow> 'a M \<Rightarrow> ApiError + 'a \<Rightarrow> Effect list \<Rightarrow> Cluster \<Rightarrow> bool" where
  "runs S m x t S' \<longleftrightarrow> (\<exists>k. result m k = x \<and> effects m k = t \<and> serves S t S')"

lemma runs_keyed: "runs S m x t S' \<Longrightarrow> keyed S \<Longrightarrow> keyed S'"
  unfolding runs_def using serves_keyed by blast

lemma runs_ret [simp]: "runs S (ret x) y t S' \<longleftrightarrow> y = Inr x \<and> t = [] \<and> S' = S"
  by (auto simp: runs_def)

lemma runs_fail [simp]: "runs S (fail e) y t S' \<longleftrightarrow> y = Inl e \<and> t = [] \<and> S' = S"
  by (auto simp: runs_def)

lemma runs_emit [simp]: "runs S (emit ev) y t S' \<longleftrightarrow> y = Inr () \<and> t = [Note ev] \<and> S' = S"
  by (auto simp: runs_def)

lemma runs_emitIf [simp]: "runs S (emitIf b ev) y t S' \<longleftrightarrow> y = Inr () \<and> t = (if b then [Note ev] else []) \<and> S' = S"
  by (auto simp: runs_def)

lemma runs_andThenE:
  assumes "runs S (andThen m f) (Inr y) t S'"
  obtains x s u T where "runs S m (Inr x) s T" "runs T (f x) (Inr y) u S'" "t = s @ u"
proof -
  from assms obtain k where k: "result (andThen m f) k = Inr y" "effects (andThen m f) k = t" "serves S t S'"
    by (auto simp: runs_def)
  from k(1) obtain x where x: "result m k = Inr x" "result (f x) (nextk m k) = Inr y" by (rule andThen_InrE)
  with k(2) have t: "t = effects m k @ effects (f x) (nextk m k)" by (simp add: andThen_Inr)
  from k(3) obtain T where T: "serves S (effects m k) T" "serves T (effects (f x) (nextk m k)) S'"
    unfolding t serves_append by blast
  from that [of x "effects m k" T "effects (f x) (nextk m k)"] x T t show thesis unfolding runs_def by blast
qed

lemma runs_thenE:
  fixes m :: "unit M"
  assumes "runs S (andThen m f) (Inr y) t S'"
  obtains s u T where "runs S m (Inr ()) s T" "runs T (f ()) (Inr y) u S'" "t = s @ u"
  using assms by (auto elim: runs_andThenE)

lemma runs_bindRE:
  assumes "runs S (bindR m f) y t S'"
  obtains x s u T where "runs S m x s T" "runs T (f x) y u S'" "t = s @ u"
proof -
  from assms obtain k where k: "result (bindR m f) k = y" "effects (bindR m f) k = t" "serves S t S'"
    by (auto simp: runs_def)
  then obtain T where "serves S (effects m k) T" "serves T (effects (f (result m k)) (nextk m k)) S'"
    "t = effects m k @ effects (f (result m k)) (nextk m k)" by (auto simp: serves_append)
  with k(1) that show thesis unfolding runs_def by fastforce
qed

lemma runs_andThen_cases:
  assumes "runs S (andThen m f) y t S'"
  obtains (failed) e where "y = Inl e" "runs S m (Inl e) t S'"
  | (continued) x s u T where "runs S m (Inr x) s T" "runs T (f x) y u S'" "t = s @ u"
proof -
  from assms obtain x s u T where "runs S m x s T"
    "runs T (case x of Inl e \<Rightarrow> fail e | Inr x \<Rightarrow> f x) y u S'" "t = s @ u"
    unfolding andThen_def by (rule runs_bindRE)
  with that show thesis by (cases x) auto
qed

lemma runs_frame:
  assumes "runs S m x t S'" "within K m"
  shows "KPool \<notin> K \<Longrightarrow> cl_pools S' = cl_pools S"
    and "KClaim \<notin> K \<Longrightarrow> KDeleteClaim \<notin> K \<Longrightarrow> cl_claims S' = cl_claims S"
    and "KNode \<notin> K \<Longrightarrow> cl_nodes S' = cl_nodes S"
    and "KDeletePod \<notin> K \<Longrightarrow> KCreatePod \<notin> K \<Longrightarrow> cl_pods S' = cl_pods S"
  using assms serves_frame [of S t S' K] by (auto simp: runs_def within_def)

lemma runs_reads:
  assumes "runs S m x t S'" "within {KRead, KNote} m"
  shows "S' = S"
  using runs_frame [OF assms] by simp

section \<open>Conditional writes in a cluster\<close>

lemma clock_only_idle: "clock_only t \<Longrightarrow> \<forall>e\<in>set t. idle_effect e"
  by (auto simp: clock_only_def)

lemma retry_runsE:
  assumes "runs S (retryOnConflict n fn) (Inr y) t S'"
    and idle: "\<And>j e err. result fn j = Inl err \<Longrightarrow> e \<in> set (effects fn j) \<Longrightarrow> idle_effect e"
  obtains s u where "runs S fn (Inr y) u S'" "t = s @ u" "\<forall>e\<in>set s. idle_effect e"
proof -
  from assms(1) obtain k where k: "result (retryOnConflict n fn) k = Inr y" "effects (retryOnConflict n fn) k = t"
    "serves S t S'" by (auto simp: runs_def)
  from retry_result [OF k(1)] obtain k' before where b: "result fn k' = Inr y"
    "effects (retryOnConflict n fn) k = before @ effects fn k'"
    "\<forall>e\<in>set before. \<exists>j. e \<in> set (effects fn j) \<and> result fn j = Inl IsConflict" by blast
  have quiet: "\<forall>e\<in>set before. idle_effect e" using b(3) idle by blast
  from k(2,3) b(2) obtain T where T: "serves S before T" "serves T (effects fn k') S'"
    unfolding serves_append by (metis serves_append)
  from serves_idle [OF T(1) quiet] have "T = S" .
  with T(2) b(1) have "runs S fn (Inr y) (effects fn k') S'" unfolding runs_def by blast
  then show thesis using that b(2) k(2) quiet by metis
qed

lemma retry_runs_error:
  assumes "runs S (retryOnConflict n fn) (Inl e) t S'"
    and idle: "\<And>j e err. result fn j = Inl err \<Longrightarrow> e \<in> set (effects fn j) \<Longrightarrow> idle_effect e"
  shows "S' = S"
  using assms(1)
proof (induction n arbitrary: t)
  case (Suc n)
  then obtain x s T u where x: "runs S fn x s T" "runs T (case x of
      Inl e \<Rightarrow> (if e = IsConflict then retryOnConflict n fn else fail e)
    | Inr x \<Rightarrow> ret x) (Inl e) u S'" by (auto elim!: runs_bindRE)
  show ?case
  proof (cases x)
    case (Inl err)
    from x(1) Inl idle have "T = S" by (auto simp: runs_def intro: serves_idle)
    with Inl x Suc.IH show ?thesis by (auto split: if_splits)
  qed (use x(2) in simp)
qed simp

lemma retry_runs_errorE:
  assumes "runs S (retryOnConflict n fn) (Inl e) t S'" "e \<noteq> IsConflict"
    and idle: "\<And>j e err. result fn j = Inl err \<Longrightarrow> e \<in> set (effects fn j) \<Longrightarrow> idle_effect e"
  obtains u where "runs S fn (Inl e) u S'"
proof -
  have "\<exists>u. runs S fn (Inl e) u S'"
    using assms(1)
  proof (induction n arbitrary: t)
    case 0
    with assms(2) show ?case by simp
  next
    case (Suc n)
    then obtain x s T u where x: "runs S fn x s T" "runs T (case x of
        Inl e \<Rightarrow> (if e = IsConflict then retryOnConflict n fn else fail e)
      | Inr x \<Rightarrow> ret x) (Inl e) u S'" by (auto elim!: runs_bindRE)
    show ?case
    proof (cases x)
      case (Inl err)
      from x(1) Inl idle have "T = S" by (auto simp: runs_def intro: serves_idle)
      with Inl x Suc.IH show ?thesis by (auto split: if_splits)
    qed (use x(2) in simp)
  qed
  with that show thesis by blast
qed

context quiet_mutator
begin

lemma poolAttempt_idle:
  assumes "result (poolAttempt r pool mutate) j = Inl err" "e \<in> set (effects (poolAttempt r pool mutate) j)"
  shows "idle_effect e"
proof (cases e)
  case (CallUpdatePool p a)
  with poolAttempt_failed [OF assms(1)] assms(2) show ?thesis by (cases a) auto
qed (use assms(2) quiet in \<open>fastforce simp: poolAttempt_effects clock_only_def split: sum.splits prod.splits option.splits\<close>)+

lemma claimAttempt_idle:
  assumes "result (claimAttempt r name mutate) j = Inl err" "e \<in> set (effects (claimAttempt r name mutate) j)"
  shows "idle_effect e"
proof (cases e)
  case (CallUpdateClaim p a)
  with claimAttempt_failed [OF assms(1)] assms(2) show ?thesis by (cases a) auto
qed (use assms(2) quiet in \<open>fastforce simp: claimAttempt_effects clock_only_def split: sum.splits prod.splits option.splits\<close>)+

text \<open>What a conditional write of a NodePool that returned has done.\<close>

lemma pool_written:
  assumes "runs S (patchPoolIf r pool mutate) (Inr (True, x, q)) t S'" "keyed S"
  obtains p m v j where "cl_pools S (np_Name pool) = Some p" "result (mutate (np_Annotations p)) j = Inr (x, Some m)"
    "q = p\<lparr>np_Annotations := m, np_ResourceVersion := v\<rparr>" "S' = S\<lparr>cl_pools := (cl_pools S)(np_Name pool \<mapsto> q)\<rparr>"
proof -
  from assms(1) poolAttempt_idle obtain u where u: "runs S (poolAttempt r pool mutate) (Inr (True, x, q)) u S'"
    unfolding patchPoolIf_def by (auto elim: retry_runsE)
  then obtain k where k: "result (poolAttempt r pool mutate) k = Inr (True, x, q)" "serves S (effects (poolAttempt r pool mutate) k) S'"
    by (auto simp: runs_def)
  from poolAttempt_written [OF k(1)] obtain p m j where w: "result (mutate (np_Annotations p)) j = Inr (x, Some m)"
    "effects (poolAttempt r pool mutate) k =
        CallGetPool (np_Name pool) (Inr p) # effects (mutate (np_Annotations p)) j
          @ [CallUpdatePool (p\<lparr>np_Annotations := m\<rparr>) (Inr q)]" by blast
  from k(2) w(2) obtain T where T: "cl_pools S (np_Name pool) = Some p" "serves S (effects (mutate (np_Annotations p)) j) T"
    "serves1 T (CallUpdatePool (p\<lparr>np_Annotations := m\<rparr>) (Inr q)) S'" by (auto simp: serves_append)
  from serves_idle [OF T(2) clock_only_idle [OF quiet]] have "T = S" .
  with T(1,3) keyedD(1) [OF assms(2) T(1)] that w(1) show thesis by auto
qed

lemma pool_not_written:
  assumes "runs S (patchPoolIf r pool mutate) (Inr (False, x, q)) t S'"
  obtains j where "cl_pools S (np_Name pool) = Some q" "result (mutate (np_Annotations q)) j = Inr (x, None)" "S' = S"
proof -
  from assms(1) poolAttempt_idle obtain u where u: "runs S (poolAttempt r pool mutate) (Inr (False, x, q)) u S'"
    unfolding patchPoolIf_def by (auto elim: retry_runsE)
  then obtain k where k: "result (poolAttempt r pool mutate) k = Inr (False, x, q)" "serves S (effects (poolAttempt r pool mutate) k) S'"
    by (auto simp: runs_def)
  from poolAttempt_vetoed [OF k(1)] obtain j where w: "result (mutate (np_Annotations q)) j = Inr (x, None)"
    "effects (poolAttempt r pool mutate) k = CallGetPool (np_Name pool) (Inr q) # effects (mutate (np_Annotations q)) j" by blast
  from k(2) w(2) have T: "cl_pools S (np_Name pool) = Some q" "serves S (effects (mutate (np_Annotations q)) j) S'" by auto
  from serves_idle [OF T(2) clock_only_idle [OF quiet]] T(1) w(1) that show thesis by blast
qed

lemma pool_failed: "runs S (patchPoolIf r pool mutate) (Inl e) t S' \<Longrightarrow> S' = S"
  unfolding patchPoolIf_def by (erule retry_runs_error) (rule poolAttempt_idle)

text \<open>The same for a NodeClaim, whose write may find it gone.\<close>

lemma claim_written:
  assumes "runs S (patchClaimIf r name mutate) (Inr (claimWritten x)) t S'" "keyed S"
  obtains c m v j where "cl_claims S name = Some c" "result (mutate (nc_Annotations c)) j = Inr (x, Some m)"
    "S' = S\<lparr>cl_claims := (cl_claims S)(name \<mapsto> c\<lparr>nc_Annotations := m, nc_ResourceVersion := v\<rparr>)\<rparr>"
proof -
  from assms(1) claimAttempt_idle obtain u where u: "runs S (claimAttempt r name mutate) (Inr (claimWritten x)) u S'"
    unfolding patchClaimIf_def by (auto elim: retry_runsE)
  then obtain k where k: "result (claimAttempt r name mutate) k = Inr (claimWritten x)" "serves S (effects (claimAttempt r name mutate) k) S'"
    by (auto simp: runs_def)
  from claimAttempt_written [OF k(1)] obtain p m q j where w: "result (mutate (nc_Annotations p)) j = Inr (x, Some m)"
    "effects (claimAttempt r name mutate) k =
        CallGetClaim name (Inr p) # effects (mutate (nc_Annotations p)) j
          @ [CallUpdateClaim (p\<lparr>nc_Annotations := m\<rparr>) (Inr q)]" by blast
  from k(2) w(2) obtain T where T: "cl_claims S name = Some p" "serves S (effects (mutate (nc_Annotations p)) j) T"
    "serves1 T (CallUpdateClaim (p\<lparr>nc_Annotations := m\<rparr>) (Inr q)) S'" by (auto simp: serves_append)
  from serves_idle [OF T(2) clock_only_idle [OF quiet]] have "T = S" .
  with T(1,3) keyedD(2) [OF assms(2) T(1)] that w(1) show thesis by auto
qed

lemma claim_not_written:
  assumes "runs S (patchClaimIf r name mutate) (Inr w) t S'" "\<nexists>x. w = claimWritten x"
  shows "S' = S \<and> (case w of claimGone \<Rightarrow> cl_claims S name = None
    | claimVetoed x \<Rightarrow> (\<exists>c j. cl_claims S name = Some c \<and> result (mutate (nc_Annotations c)) j = Inr (x, None))
    | claimWritten _ \<Rightarrow> False)"
proof -
  from assms(1) claimAttempt_idle obtain u where u: "runs S (claimAttempt r name mutate) (Inr w) u S'"
    unfolding patchClaimIf_def by (auto elim: retry_runsE)
  then obtain k where k: "result (claimAttempt r name mutate) k = Inr w" "serves S (effects (claimAttempt r name mutate) k) S'"
    by (auto simp: runs_def)
  show ?thesis
  proof (cases w)
    case claimGone
    with claimAttempt_gone k show ?thesis by fastforce
  next
    case (claimVetoed x)
    with k(1) claimAttempt_vetoed obtain q j where w: "result (mutate (nc_Annotations q)) j = Inr (x, None)"
      "effects (claimAttempt r name mutate) k = CallGetClaim name (Inr q) # effects (mutate (nc_Annotations q)) j" by blast
    from k(2) w(2) have T: "cl_claims S name = Some q" "serves S (effects (mutate (nc_Annotations q)) j) S'" by auto
    with serves_idle [OF T(2) clock_only_idle [OF quiet]] w(1) claimVetoed show ?thesis by auto
  qed (use assms(2) in blast)
qed

end

lemma runs_getClaim: "runs S (getClaim r n) (Inr c) t T \<Longrightarrow> T = S \<and> c = cl_claims S n"
proof (unfold runs_def, elim exE conjE)
  fix k
  assume "result (getClaim r n) k = Inr c" "effects (getClaim r n) k = t" "serves S t T"
  then show "T = S \<and> c = cl_claims S n"
    by (cases "api_GetClaim (rc_Api r) k n") (auto simp: getClaim_def orNil_def call_defs split: if_splits)
qed

section \<open>Node mutators in a cluster\<close>

lemma ex_version [simp]: "\<exists>v. d = d\<lparr>nd_ResourceVersion := v\<rparr>" for d :: Node
  by (rule exI [of _ "nd_ResourceVersion d"]) simp

text \<open>
  What a conditional write of a Node needs of its mutator: the name and the version are kept, the flag
  is exact, and a second run changes nothing.
\<close>

locale node_mutator =
  fixes change :: "Node \<Rightarrow> Node \<times> bool"
  assumes keeps_name: "nd_Name (fst (change d)) = nd_Name d"
    and at_version: "fst (change (d\<lparr>nd_ResourceVersion := v\<rparr>)) = (fst (change d))\<lparr>nd_ResourceVersion := v\<rparr>"
    and unchanged: "\<not> snd (change d) \<Longrightarrow> fst (change d) = d"
    and idempotent: "fst (change (fst (change d))) = fst (change d)"
begin

text \<open>Every node keeps its place; those named in \<open>N\<close> went through the mutator.\<close>

definition changed_at :: "string set \<Rightarrow> (string \<rightharpoonup> Node) \<Rightarrow> (string \<rightharpoonup> Node) \<Rightarrow> bool" where
  "changed_at N ns ns' \<longleftrightarrow>
     (\<forall>n. case ns n of None \<Rightarrow> ns' n = None
        | Some d \<Rightarrow> if n \<in> N then \<exists>v. ns' n = Some ((fst (change d))\<lparr>nd_ResourceVersion := v\<rparr>)
            else ns' n = Some d)"

lemma changed_atD:
  assumes "changed_at N ns ns'"
  shows "ns n = None \<Longrightarrow> ns' n = None" "ns n = Some d \<Longrightarrow> n \<notin> N \<Longrightarrow> ns' n = Some d"
    and "ns n = Some d \<Longrightarrow> n \<in> N \<Longrightarrow> \<exists>v. ns' n = Some ((fst (change d))\<lparr>nd_ResourceVersion := v\<rparr>)"
  using assms unfolding changed_at_def by (auto dest!: spec [of _ n])

lemma changed_at_none: "changed_at {} ns ns"
  unfolding changed_at_def by (auto split: option.split)

lemma changed_at_trans:
  assumes "changed_at M ns ns1" "changed_at N ns1 ns2"
  shows "changed_at (M \<union> N) ns ns2"
  unfolding changed_at_def
proof (intro allI)
  fix n
  show "case ns n of None \<Rightarrow> ns2 n = None
      | Some d \<Rightarrow> if n \<in> M \<union> N then \<exists>v. ns2 n = Some ((fst (change d))\<lparr>nd_ResourceVersion := v\<rparr>) else ns2 n = Some d"
  proof (cases "ns n")
    case None
    with changed_atD(1) [OF assms(1)] changed_atD(1) [OF assms(2)] show ?thesis by simp
  next
    case (Some d)
    show ?thesis
    proof (cases "n \<in> M")
      case True
      from changed_atD(3) [OF assms(1) Some True] obtain v where
        v: "ns1 n = Some ((fst (change d))\<lparr>nd_ResourceVersion := v\<rparr>)" ..
      with Some True changed_atD(2,3) [OF assms(2) v] show ?thesis
        by (cases "n \<in> N") (auto simp: at_version idempotent)
    next
      case False
      from changed_atD(2) [OF assms(1) Some False] have "ns1 n = Some d" .
      with Some False changed_atD(2,3) [OF assms(2) this] show ?thesis by (cases "n \<in> N") auto
    qed
  qed
qed

lemma nodeAttempt_idle:
  assumes "result (nodeAttempt r name change) j = Inl err" "e \<in> set (effects (nodeAttempt r name change) j)"
  shows "idle_effect e"
  using assms
  by (auto simp: nodeAttempt_def getNode_def orNil_def run_andThen call_defs split: sum.splits option.splits prod.splits if_splits)

lemma patched:
  assumes "runs S (patchNode r name change) (Inr w) t S'" "keyed S"
  shows "changed_at {name} (cl_nodes S) (cl_nodes S')"
proof -
  from assms(1) nodeAttempt_idle obtain u where "runs S (nodeAttempt r name change) (Inr w) u S'"
    unfolding patchNode_def by (auto elim: retry_runsE)
  then obtain k where k: "result (nodeAttempt r name change) k = Inr w" "serves S (effects (nodeAttempt r name change) k) S'"
    by (auto simp: runs_def)
  show ?thesis
  proof (cases "api_GetNode (rc_Api r) k name")
    case (Inl e)
    with k have "S' = S \<and> cl_nodes S name = None"
      by (auto simp: nodeAttempt_def getNode_def orNil_def run_andThen call_defs split: if_splits)
    then show ?thesis unfolding changed_at_def by (auto split: option.split)
  next
    case (Inr d)
    with k have d: "cl_nodes S name = Some d"
      by (auto simp: nodeAttempt_def getNode_def orNil_def run_andThen call_defs split: if_splits prod.splits)
    show ?thesis
    proof (cases "snd (change d)")
      case False
      with k Inr have "S' = S" by (auto simp: nodeAttempt_def getNode_def orNil_def run_andThen call_defs split: prod.splits)
      with d unchanged [OF False] show ?thesis unfolding changed_at_def by (auto split: option.split)
    next
      case True
      with k Inr obtain q where "serves1 S (CallUpdateNode (fst (change d)) (Inr q)) S'"
        by (auto simp: nodeAttempt_def getNode_def orNil_def run_andThen call_defs split: prod.splits sum.splits)
      with keyedD(3) [OF assms(2) d] obtain v where
        "S' = S\<lparr>cl_nodes := (cl_nodes S)(name \<mapsto> (fst (change d))\<lparr>nd_ResourceVersion := v\<rparr>)\<rparr>"
        by (auto simp: keeps_name)
      with d show ?thesis unfolding changed_at_def by (auto split: option.split)
    qed
  qed
qed

end

lemma remove_at_version: "removeAnnotation key (d\<lparr>nd_ResourceVersion := v\<rparr>) =
    ((fst (removeAnnotation key d))\<lparr>nd_ResourceVersion := v\<rparr>, snd (removeAnnotation key d))"
  by (simp add: removeAnnotation_def)

lemma has_at_version [simp]: "hasAnnotation (d\<lparr>nd_ResourceVersion := v\<rparr>) key = hasAnnotation d key"
  by (simp add: hasAnnotation_def)

lemma uncordon_at_version: "applyUncordon (d\<lparr>nd_ResourceVersion := v\<rparr>) =
    ((fst (applyUncordon d))\<lparr>nd_ResourceVersion := v\<rparr>, snd (applyUncordon d))"
  by (simp add: applyUncordon_def remove_at_version)

lemma unfreeze_at_version: "applyUnfreeze (d\<lparr>nd_ResourceVersion := v\<rparr>) =
    ((fst (applyUnfreeze d))\<lparr>nd_ResourceVersion := v\<rparr>, snd (applyUnfreeze d))"
  by (simp add: applyUnfreeze_def Let_def case_prod_unfold remove_at_version uncordon_at_version)

lemma unfreeze_changed: "snd (applyUnfreeze d) \<longleftrightarrow> \<not> untouched d"
  by (simp add: applyUnfreeze_def applyUncordon_def case_prod_unfold Let_def untouched_def hasAnnotation_def
      removeAnnotation_ann) (simp add: removeAnnotation_def)

interpretation unfreezes: node_mutator applyUnfreeze
  by unfold_locales (simp_all add: unfreeze_at_version unfreeze_changed applyUnfreeze_of_untouched applyUnfreeze_untouched)

lemma applyUncordon_name [simp]: "nd_Name (fst (applyUncordon d)) = nd_Name d"
  by (simp add: applyUncordon_def)

lemma keepsMarkers_at_version [simp]: "keepsMarkers anchored (d\<lparr>nd_ResourceVersion := v\<rparr>) = keepsMarkers anchored d"
  by (simp add: keepsMarkers_def split: option.split)

lemma unmark_kept: "keepsMarkers anchored (fst (unmark anchored d))"
proof (cases "keepsMarkers anchored d \<or> nd_Annotations d SurgeFor \<noteq> None")
  case True
  then show ?thesis using applyUnfreeze_untouched [of d]
    by (auto simp: unmark_def untouched_def hasAnnotation_def keepsMarkers_def)
next
  case False
  then show ?thesis
    by (auto simp: unmark_def keepsMarkers_def applyUncordon_def hasAnnotation_def removeAnnotation_ann)
qed

interpretation unmarks: node_mutator "unmark anchored" for anchored
proof unfold_locales
  show "\<not> snd (unmark anchored d) \<Longrightarrow> fst (unmark anchored d) = d" for d
    using unfreezes.unchanged [of d] by (cases "nd_Annotations d SurgeFor") (simp_all add: unmark_def applyUncordon_def split: if_splits)
  show "fst (unmark anchored (fst (unmark anchored d))) = fst (unmark anchored d)" for d
    using unmark_kept [of anchored d] by (simp add: unmark_def [of anchored "fst (unmark anchored d)"])
qed (simp_all add: unmark_def unfreeze_at_version uncordon_at_version)

end
