(* ===== verification/Outcome.thy ===== *)
theory Outcome
  imports Cluster Safety
begin

text \<open>
  What the programs that end a rotation, and the startup sweep, leave in a cluster that served their
  calls: no placeholder, no marker on a node, no anchor.
\<close>

section \<open>The placeholder and the node markers\<close>

definition pod_leaving :: "Cluster \<Rightarrow> string \<times> string \<Rightarrow> bool" where
  "pod_leaving S key = (case cl_pods S key of None \<Rightarrow> True | Some p \<Rightarrow> pod_DeletionTimestamp p \<noteq> None)"

text \<open>Only the Pod under \<open>key\<close> may have changed.\<close>

definition pods_but :: "string \<times> string \<Rightarrow> Cluster \<Rightarrow> Cluster \<Rightarrow> bool" where
  "pods_but key S S' = (\<forall>k. k \<noteq> key \<longrightarrow> cl_pods S' k = cl_pods S k)"

lemma deletePlaceholder_outcome:
  assumes "runs S (deletePlaceholder r claim) (Inr ()) t S'"
  shows "pod_leaving S' (placeholderKey r claim)" "pods_but (placeholderKey r claim) S S'"
    "cl_pools S' = cl_pools S" "cl_claims S' = cl_claims S" "cl_nodes S' = cl_nodes S"
proof -
  have f: "within {KDeletePod} (deletePlaceholder r claim)" by (auto intro!: within_intro)
  show "cl_pools S' = cl_pools S" "cl_claims S' = cl_claims S" "cl_nodes S' = cl_nodes S"
    using runs_frame [OF assms f] by simp_all
  show "pod_leaving S' (placeholderKey r claim)" "pods_but (placeholderKey r claim) S S'"
  proof -
    from assms obtain k where k: "result (deletePlaceholder r claim) k = Inr ()" "serves S (effects (deletePlaceholder r claim) k) S'"
      by (auto simp: runs_def)
    then have "pod_leaving S' (placeholderKey r claim) \<and> pods_but (placeholderKey r claim) S S'"
      by (cases "api_DeletePod (rc_Api r) k (placeholderKey r claim) None")
        (auto simp: deletePlaceholder_def ignoreNotFound_def call_defs pod_leaving_def pods_but_def split: if_splits)
    then show "pod_leaving S' (placeholderKey r claim)" "pods_but (placeholderKey r claim) S S'" by blast+
  qed
qed

definition markedFor :: "string \<Rightarrow> Node \<Rightarrow> bool" where
  "markedFor claim d = (aget (nd_Annotations d) SurgeFor = claim)"

lemma unfreeze_each:
  assumes "runs S (each (\<lambda>n. if aget (nd_Annotations n) SurgeFor \<noteq> claim then ret ()
      else andThen (patchNode r (nd_Name n) applyUnfreeze) (\<lambda>_. ret ())) ds) (Inr ()) t S'" "keyed S"
  shows "unfreezes.changed_at (nd_Name ` {d \<in> set ds. markedFor claim d}) (cl_nodes S) (cl_nodes S')"
  using assms
proof (induction ds arbitrary: S t)
  case Nil
  then show ?case by (simp add: unfreezes.changed_at_none)
next
  case (Cons d ds)
  show ?case
  proof (cases "markedFor claim d")
    case False
    then have "{d' \<in> set (d # ds). markedFor claim d'} = {d' \<in> set ds. markedFor claim d'}" by auto
    moreover from False Cons.prems(1) have "runs S (each (\<lambda>n. if aget (nd_Annotations n) SurgeFor \<noteq> claim then ret ()
      else andThen (patchNode r (nd_Name n) applyUnfreeze) (\<lambda>_. ret ())) ds) (Inr ()) t S'"
      by (simp add: markedFor_def)
    ultimately show ?thesis using Cons.IH Cons.prems(2) by simp
  next
    case True
    with Cons.prems(1) obtain w u s T where T: "runs S (patchNode r (nd_Name d) applyUnfreeze) (Inr w) u T"
      "runs T (each (\<lambda>n. if aget (nd_Annotations n) SurgeFor \<noteq> claim then ret ()
      else andThen (patchNode r (nd_Name n) applyUnfreeze) (\<lambda>_. ret ())) ds) (Inr ()) s S'"
      by (auto simp: markedFor_def elim!: runs_andThenE)
    from unfreezes.changed_at_trans [OF unfreezes.patched [OF T(1) Cons.prems(2)] Cons.IH [OF T(2) runs_keyed [OF T(1) Cons.prems(2)]]]
    have "unfreezes.changed_at ({nd_Name d} \<union> nd_Name ` {d \<in> set ds. markedFor claim d}) (cl_nodes S) (cl_nodes S')" .
    moreover have "{nd_Name d} \<union> nd_Name ` {d \<in> set ds. markedFor claim d} = nd_Name ` {d' \<in> set (d # ds). markedFor claim d'}"
      using True by auto
    ultimately show ?thesis by simp
  qed
qed

text \<open>Every node marked for the claim went through \<open>applyUnfreeze\<close>; the others are as they were.\<close>

definition released_nodes :: "string \<Rightarrow> Cluster \<Rightarrow> Cluster \<Rightarrow> bool" where
  "released_nodes claim S S' \<longleftrightarrow>
     (\<forall>n. case cl_nodes S n of
            None \<Rightarrow> cl_nodes S' n = None
          | Some d \<Rightarrow> if markedFor claim d
              then \<exists>v. cl_nodes S' n = Some ((fst (applyUnfreeze d))\<lparr>nd_ResourceVersion := v\<rparr>)
              else cl_nodes S' n = Some d)"

lemma unfreezeNodes_outcome:
  assumes "runs S (unfreezeNodes r claim) (Inr ()) t S'" "keyed S"
  shows "released_nodes claim S S'" "cl_pools S' = cl_pools S" "cl_claims S' = cl_claims S" "cl_pods S' = cl_pods S"
proof -
  have f: "within {KRead, KNode} (unfreezeNodes r claim)" by (auto intro!: within_intro)
  show "cl_pools S' = cl_pools S" "cl_claims S' = cl_claims S" "cl_pods S' = cl_pods S"
    using runs_frame [OF assms(1) f] by simp_all
  from assms(1) obtain ds s u T where T: "runs S (callListNodes r None) (Inr ds) s T"
    "runs T (each (\<lambda>n. if aget (nd_Annotations n) SurgeFor \<noteq> claim then ret ()
      else andThen (patchNode r (nd_Name n) applyUnfreeze) (\<lambda>_. ret ())) ds) (Inr ()) u S'"
    unfolding unfreezeNodes_def by (rule runs_andThenE)
  from T(1) have ds: "T = S" "set ds = ran (cl_nodes S)"
    by (auto simp: runs_def call_defs selects_def)
  have "n \<in> nd_Name ` {d \<in> set ds. markedFor claim d} \<longleftrightarrow> markedFor claim d" if "cl_nodes S n = Some d" for n d
    using that keyedD(3) [OF assms(2)] unfolding ds by (auto simp: ran_def image_iff)
  moreover have "unfreezes.changed_at (nd_Name ` {d \<in> set ds. markedFor claim d}) (cl_nodes S) (cl_nodes S')"
    using unfreeze_each [OF T(2)] assms(2) ds(1) by simp
  note unfreezes.changed_atD [OF this]
  ultimately show "released_nodes claim S S'" unfolding released_nodes_def
    by (intro allI) (simp split: option.split)
qed

text \<open>The tear-down that every end of a rotation begins with.\<close>

definition torn_down :: "Reconciler \<Rightarrow> string \<Rightarrow> Cluster \<Rightarrow> Cluster \<Rightarrow> bool" where
  "torn_down r claim S S' \<longleftrightarrow>
     pod_leaving S' (placeholderKey r claim) \<and> pods_but (placeholderKey r claim) S S' \<and> released_nodes claim S S'"

lemma tear_down:
  assumes "runs S (deletePlaceholder r claim) (Inr ()) t T" "runs T (unfreezeNodes r claim) (Inr ()) u S'" "keyed S"
  shows "torn_down r claim S S'" "cl_pools S' = cl_pools S" "cl_claims S' = cl_claims S"
proof -
  have "keyed T" using runs_keyed [OF assms(1,3)] .
  with deletePlaceholder_outcome [OF assms(1)] unfreezeNodes_outcome [OF assms(2)]
  show "torn_down r claim S S'" "cl_pools S' = cl_pools S" "cl_claims S' = cl_claims S"
    by (auto simp: torn_down_def pod_leaving_def pods_but_def released_nodes_def)
qed

section \<open>The anchor\<close>

text \<open>
  The NodePool was written once: the fields of the anchor are gone, and of the other annotations only
  the stamps of the last rotation and the last failure may differ, the former after a drain only.
\<close>

definition freeing :: "annots \<Rightarrow> annots \<Rightarrow> bool" where
  "freeing m m' \<longleftrightarrow>
     (\<exists>m0. m' = clearRotationAnchorFields m0 \<and> (\<forall>k. k \<notin> {LastRotationAt, LastFailureAt} \<longrightarrow> m0 k = m k)
        \<and> (m0 LastRotationAt \<noteq> m LastRotationAt \<longrightarrow> aget m ActiveRotationState = StateDraining))"

definition anchor_freed :: "string \<Rightarrow> Cluster \<Rightarrow> Cluster \<Rightarrow> bool" where
  "anchor_freed pn S S' \<longleftrightarrow>
     (\<exists>p m v. cl_pools S pn = Some p \<and> freeing (np_Annotations p) m
        \<and> S' = S\<lparr>cl_pools := (cl_pools S)(pn \<mapsto> p\<lparr>np_Annotations := m, np_ResourceVersion := v\<rparr>)\<rparr>)"

context quiet_mutator
begin

lemma frees:
  assumes "runs S (patchPoolIf r pool mutate) (Inr (w, x, q)) t S'" "keyed S"
    and "\<And>p j m. cl_pools S (np_Name pool) = Some p \<Longrightarrow> result (mutate (np_Annotations p)) j = Inr (x, m) \<Longrightarrow>
           m \<noteq> None \<and> freeing (np_Annotations p) (the m)"
  shows "anchor_freed (np_Name pool) S S'"
proof -
  have w: w
  proof (rule ccontr)
    assume "\<not> w"
    with assms(1) have "runs S (patchPoolIf r pool mutate) (Inr (False, x, q)) t S'" by simp
    with assms(3) show False by (fastforce elim: pool_not_written)
  qed
  with assms(1) have "runs S (patchPoolIf r pool mutate) (Inr (True, x, q)) t S'" by simp
  from pool_written [OF this assms(2)] obtain p m v j where p: "cl_pools S (np_Name pool) = Some p"
    "result (mutate (np_Annotations p)) j = Inr (x, Some m)" "q = p\<lparr>np_Annotations := m, np_ResourceVersion := v\<rparr>"
    "S' = S\<lparr>cl_pools := (cl_pools S)(np_Name pool \<mapsto> q)\<rparr>" .
  with assms(3) [OF p(1,2)] show ?thesis unfolding anchor_freed_def by auto
qed

end

lemma patchPool_runsE:
  assumes "runs S (patchPool r pool edit) (Inr p) t S'"
  obtains w u where "runs S (patchPoolIf r pool (always edit)) (Inr (w, (), p)) u S'"
  using assms unfolding patchPool_def by (auto elim!: runs_andThenE split: prod.splits)

lemma always_result: "result (always edit m) j = Inr (x, m') \<Longrightarrow> \<exists>a. result (edit m) j = Inr a \<and> m' = Some a"
  by (auto simp: always_def run_andThen split: sum.splits)

lemma freeing_release [simp]: "freeing m (clearRotationAnchorFields m)"
  by (auto simp: freeing_def)

lemma freeing_failure [simp]: "freeing m (clearRotationAnchorFields (m(LastFailureAt \<mapsto> s)))"
  unfolding freeing_def by (rule exI [of _ "m(LastFailureAt \<mapsto> s)"]) simp

lemma freeing_success: "aget m ActiveRotationState = StateDraining \<Longrightarrow> freeing m (clearRotationAnchorFields (m(LastRotationAt \<mapsto> s)))"
  unfolding freeing_def by (rule exI [of _ "m(LastRotationAt \<mapsto> s)"]) simp

lemma clearAnchor_outcome:
  assumes "runs S (clearAnchor r pool) (Inr p) t S'" "keyed S"
  shows "anchor_freed (np_Name pool) S S'"
proof -
  from assms(1) obtain w u where "runs S (patchPoolIf r pool (always (\<lambda>m. ret (clearRotationAnchorFields m)))) (Inr (w, (), p)) u S'"
    unfolding clearAnchor_def by (rule patchPool_runsE)
  then show ?thesis by (rule anchor_fields.frees [OF _ assms(2)]) (auto dest!: always_result)
qed

lemma poolFailure_outcome:
  assumes "runs S (patchPool r pool (poolFailure r)) (Inr p) t S'" "keyed S"
  shows "anchor_freed (np_Name pool) S S'"
proof -
  from assms(1) obtain w u where "runs S (patchPoolIf r pool (always (poolFailure r))) (Inr (w, (), p)) u S'"
    by (rule patchPool_runsE)
  then show ?thesis
    by (rule pool_failure.frees [OF _ assms(2)]) (auto dest!: always_result simp: poolFailure_def run_andThen)
qed

lemma release_outcome:
  assumes "runs S (patchPoolIf r pool (releaseIf claim)) (Inr (w, x, q)) t S'" "keyed S"
    and "cl_pools S (np_Name pool) = Some p" "aget (np_Annotations p) ActiveRotation = claim"
  shows "anchor_freed (np_Name pool) S S'"
  by (rule release_if.frees [OF assms(1,2)]) (use assms(3,4) in \<open>auto simp: releaseIf_def\<close>)

lemma completion_outcome:
  assumes "runs S (patchPoolIf r pool (completion r claim)) (Inr (w, x, q)) t S'" "keyed S"
    and "cl_pools S (np_Name pool) = Some p" "aget (np_Annotations p) ActiveRotation = claim"
  shows "anchor_freed (np_Name pool) S S'"
proof -
  have f: "m \<noteq> None \<and> freeing (np_Annotations p') (the m)"
    if "cl_pools S (np_Name pool) = Some p'" "result (completion r claim (np_Annotations p')) j = Inr (x, m)" for p' j m
  proof (cases "aget (np_Annotations p) ActiveRotationState = StateDraining")
    case True
    with that assms(3,4) show ?thesis
      by (cases "parseTime (aget (np_Annotations p) DrainingAt)") (auto simp: completion_def run_andThen freeing_success)
  next
    case False
    with that assms(3,4) show ?thesis by (auto simp: completion_def)
  qed
  show ?thesis by (rule completion.frees [OF assms(1,2)]) (rule f)
qed

section \<open>The ends of a rotation\<close>

definition rotation_over :: "Reconciler \<Rightarrow> string \<Rightarrow> string \<Rightarrow> Cluster \<Rightarrow> Cluster \<Rightarrow> bool" where
  "rotation_over r pn claim S S' \<longleftrightarrow>
     torn_down r claim S S' \<and>
     (\<exists>p m v. cl_pools S pn = Some p \<and> freeing (np_Annotations p) m
        \<and> cl_pools S' = (cl_pools S)(pn \<mapsto> p\<lparr>np_Annotations := m, np_ResourceVersion := v\<rparr>))"

lemma torn_down_cong:
  "cl_pods S' = cl_pods T \<Longrightarrow> cl_nodes S' = cl_nodes T \<Longrightarrow> torn_down r claim S S' = torn_down r claim S T"
  by (simp only: torn_down_def pod_leaving_def pods_but_def released_nodes_def)

lemma rotation_overI:
  assumes "torn_down r claim S T" "cl_pools T = cl_pools S"
    and "anchor_freed pn U S'" "cl_pools U = cl_pools T" "cl_nodes U = cl_nodes T" "cl_pods U = cl_pods T"
  shows "rotation_over r pn claim S S'"
proof -
  from assms(3) obtain p m v where w: "cl_pools U pn = Some p" "freeing (np_Annotations p) m"
    "S' = U\<lparr>cl_pools := (cl_pools U)(pn \<mapsto> p\<lparr>np_Annotations := m, np_ResourceVersion := v\<rparr>)\<rparr>"
    unfolding anchor_freed_def by blast
  then have "cl_pods S' = cl_pods T" "cl_nodes S' = cl_nodes T" using assms(5,6) by simp_all
  from torn_down_cong [OF this] assms(1) have "torn_down r claim S S'" by blast
  with w assms(2,4) show ?thesis unfolding rotation_over_def by auto
qed

lemma rotation_over_lead:
  assumes "rotation_over r pn claim T S'" "cl_pools T = cl_pools S" "cl_nodes T = cl_nodes S" "cl_pods T = cl_pods S"
  shows "rotation_over r pn claim S S'"
  using assms unfolding rotation_over_def torn_down_def pods_but_def released_nodes_def by simp

lemma releaseExpired_over:
  assumes "runs S (releaseExpired r pool claim) (Inr x) t S'" "keyed S"
  shows "rotation_over r (np_Name pool) claim S S'"
proof -
  from assms(1) obtain T U p t1 t2 t3 where T: "runs S (deletePlaceholder r claim) (Inr ()) t1 T"
    "runs T (unfreezeNodes r claim) (Inr ()) t2 U" "runs U (clearAnchor r pool) (Inr p) t3 S'"
    unfolding releaseExpired_def by (auto elim!: runs_andThenE)
  have "keyed U" using runs_keyed [OF T(2) runs_keyed [OF T(1) assms(2)]] .
  from rotation_overI [OF tear_down(1,2) [OF T(1,2) assms(2)] clearAnchor_outcome [OF T(3) this]] show ?thesis by simp
qed

lemma completeOrAbort_over:
  assumes "runs S (completeOrAbort r pool claim) (Inr x) t S'" "keyed S"
    and "cl_pools S (np_Name pool) = Some p" "aget (np_Annotations p) ActiveRotation = claim"
  shows "rotation_over r (np_Name pool) claim S S'"
proof -
  from assms(1) obtain host R T U w c q V t0 t1 t2 t3 t4 where
    R: "runs S (surgeHostFor r claim) (Inr host) t0 R" and
    T: "runs R (deletePlaceholder r claim) (Inr ()) t1 T" "runs T (unfreezeNodes r claim) (Inr ()) t2 U" and
    V: "runs U (patchPoolIf r pool (completion r claim)) (Inr (w, c, q)) t3 V" and
    rest: "runs V (if \<not> cp_released c then ret (RequeueAfter longRequeue)
       else if \<not> cp_rotated c then
         andThen (emit (Expired (np_Name q) claim)) (\<lambda>_. ret (RequeueAfter longRequeue))
       else
         andThen (emit (Success (np_Name q))) (\<lambda>_.
         andThen (case cp_drain c of
                    Some d \<Rightarrow> emit (ObserveDuration (np_Name q) PhaseDrain d) | None \<Rightarrow> ret ()) (\<lambda>_.
         andThen (emitIf (rc_Events r) (EventRotationCompleted (np_Name q) claim (cp_surgePath c))) (\<lambda>_.
         ret (RequeueAfter longRequeue))))) (Inr x) t4 S'"
    unfolding completeOrAbort_def by (elim runs_andThenE) (auto simp only: runs_emit split: prod.splits)
  have RS: "R = S" by (rule runs_reads [OF R]) (auto intro!: within_intro)
  have SV: "S' = V" by (rule runs_reads [OF rest]) (auto intro!: within_intro split: option.splits)
  have k: "keyed U" using runs_keyed [OF T(2) runs_keyed [OF T(1)]] assms(2) RS by simp
  have same: "cl_pools U = cl_pools S" using tear_down(2) [OF T] assms(2) RS by simp
  have "anchor_freed (np_Name pool) U V" by (rule completion_outcome [OF V k]) (use same assms(3,4) in simp_all)
  from rotation_overI [OF tear_down(1,2) [OF T] this] assms(2) RS SV show ?thesis by simp
qed

lemma reap_over:
  assumes "runs S (reapUngovernedRotation r pool) (Inr ()) t S'" "keyed S"
    and "aget (np_Annotations pool) ActiveRotation = claim" "claim \<noteq> ''''"
    and "cl_pools S (np_Name pool) = Some p" "aget (np_Annotations p) ActiveRotation = claim"
  shows "rotation_over r (np_Name pool) claim S S'"
proof -
  from assms(1,3,4) obtain T U V reaped t1 t2 t3 t4 where
    T: "runs S (deletePlaceholder r claim) (Inr ()) t1 T" "runs T (unfreezeNodes r claim) (Inr ()) t2 U" and
    V: "runs U (clearAnchorIf r pool claim) (Inr reaped) t3 V" and
    rest: "runs V (if \<not> reaped then ret () else emitIf (rc_Events r) (EventGovernanceLost (np_Name pool) claim)) (Inr ()) t4 S'"
    unfolding reapUngovernedRotation_def Let_def by (auto elim!: runs_andThenE)
  from V obtain w c q u where W: "runs U (patchPoolIf r pool (releaseIf claim)) (Inr (w, c, q)) u V"
    unfolding clearAnchorIf_def by (auto elim!: runs_andThenE split: prod.splits)
  have SV: "S' = V" by (rule runs_reads [OF rest]) (auto intro!: within_intro)
  have k: "keyed U" using runs_keyed [OF T(2) runs_keyed [OF T(1) assms(2)]] .
  have same: "cl_pools U = cl_pools S" using tear_down(2) [OF T assms(2)] .
  have "anchor_freed (np_Name pool) U V" by (rule release_outcome [OF W k]) (use same assms(5,6) in simp_all)
  from rotation_overI [OF tear_down(1,2) [OF T assms(2)] this] SV show ?thesis by simp
qed

lemma within_markExpired [within_intro]:
  "KRead \<in> K \<Longrightarrow> KClaim \<in> K \<Longrightarrow> within K (markExpired r name extra frm)"
  unfolding markExpired_def by (auto simp: expiredEntry_def Let_def intro!: within_intro split: ClaimWrite.splits)

lemma abortPendingExpiry_over:
  assumes "runs S (abortPendingExpiry r pool cand) (Inr (RequeueAfter longRequeue)) t S'" "keyed S"
  shows "rotation_over r (np_Name pool) (nc_Name cand) S S'"
proof -
  from assms(1) obtain out s T where M: "runs S (markExpired r (nc_Name cand) (Some pendingExpiryEdits) ['''', StatePending]) (Inr out) s T"
    "\<exists>u. runs T (if out = expiryGone \<or> out = expiryRaced then ret (RequeueAfter shortRequeue)
       else andThen (emitIf (out = expiryClaimed) (Expired (np_Name pool) (nc_Name cand))) (\<lambda>_.
            andThen (emit (ClearPlaceholderPending (np_Name pool) (nc_Name cand))) (\<lambda>_.
            releaseExpired r pool (nc_Name cand)))) (Inr (RequeueAfter longRequeue)) u S'"
    unfolding abortPendingExpiry_def by (elim runs_andThenE) blast
  have neq: "shortRequeue \<noteq> longRequeue" by (simp add: shortRequeue_def longRequeue_def)
  from M(2) neq obtain u where "runs T (releaseExpired r pool (nc_Name cand)) (Inr (RequeueAfter longRequeue)) u S'"
    by (auto elim!: runs_andThenE split: if_splits)
  from releaseExpired_over [OF this runs_keyed [OF M(1) assms(2)]]
  show ?thesis
    by (rule rotation_over_lead) (rule runs_frame [OF M(1), of "{KRead, KClaim}"], auto intro!: within_intro)+
qed

lemma within_mono: "within K m \<Longrightarrow> K \<subseteq> L \<Longrightarrow> within L m"
  unfolding within_def by blast

lemma within_lead: "within {KRead} (let sc = aget (nc_Annotations cand) SurgeClaim in if sc = '''' then inducedClaim r pool cand else ret sc)"
  by (auto simp: Let_def intro!: within_intro)

lemma failPending_over:
  assumes "runs S (failPending r pool res cand) (Inr (RequeueAfter longRequeue)) t S'" "keyed S"
  shows "rotation_over r (np_Name pool) (nc_Name cand) S S'"
proof -
  have neq: "shortRequeue \<noteq> longRequeue" by (simp add: shortRequeue_def longRequeue_def)
  from assms(1) obtain sc Q R T U V w u t0 t1 t2 t3 t4 where
    Q: "runs S (let sc = aget (nc_Annotations cand) SurgeClaim in if sc = '''' then inducedClaim r pool cand else ret sc) (Inr sc) t0 Q" and
    R: "runs Q (reapSurgeClaim r cand sc) (Inr ()) t1 R" and
    T: "runs R (deletePlaceholder r (nc_Name cand)) (Inr ()) t2 T" "runs T (unfreezeNodes r (nc_Name cand)) (Inr ()) t3 U" and
    V: "runs U (patchClaimIf r (nc_Name cand) (failureRecord r)) (Inr w) t4 V" and
    rest: "runs V (case w of
       claimWritten recorded \<Rightarrow>
         andThen (emit (Failure (np_Name pool) (nc_Name cand))) (\<lambda>_. afterFailure r pool res cand recorded)
     | _ \<Rightarrow> ret (RequeueAfter shortRequeue)) (Inr (RequeueAfter longRequeue)) u S'"
    unfolding failPending_def by (elim runs_thenE runs_andThenE) blast
  have QS: "Q = S" by (rule runs_reads [OF Q]) (rule within_mono [OF within_lead], simp)
  have kQ: "keyed R" using runs_keyed [OF R] assms(2) QS by simp
  have kV: "keyed V" using runs_keyed [OF V runs_keyed [OF T(2) runs_keyed [OF T(1) kQ]]] .
  have fV: "cl_pools V = cl_pools U" "cl_nodes V = cl_nodes U" "cl_pods V = cl_pods U"
    by (rule runs_frame [OF V, of "{KRead, KClaim}"]; auto simp: failureRecord_def Let_def intro!: within_intro)+
  from rest neq obtain x where "\<exists>u. runs V (afterFailure r pool res cand x) (Inr (RequeueAfter longRequeue)) u S'"
    by (cases w; auto elim!: runs_andThenE; blast)
  then obtain now V1 t5 p t6 where W: "runs V (clock r) (Inr now) t5 V1" "runs V1 (patchPool r pool (poolFailure r)) (Inr p) t6 S'"
    unfolding afterFailure_def Let_def by (cases x) (auto elim!: runs_andThenE)
  have "V1 = V" by (rule runs_reads [OF W(1)]) (auto intro!: within_intro)
  with W(2) have "anchor_freed (np_Name pool) V S'" using kV by (auto intro: poolFailure_outcome)
  from rotation_overI [OF tear_down(1,2) [OF T kQ] this fV]
  have "rotation_over r (np_Name pool) (nc_Name cand) R S'" .
  moreover have "cl_pools R = cl_pools S" "cl_nodes R = cl_nodes S" "cl_pods R = cl_pods S"
    using runs_frame [OF R, of "{KRead, KDeleteClaim}"] QS by (simp_all add: within_programs)
  ultimately show ?thesis by (rule rotation_over_lead)
qed

text \<open>
  The two programs that end the rotation of a claim already recorded as failed write the NodePool
  and the claim only.
\<close>

definition anchor_dropped :: "string \<Rightarrow> Cluster \<Rightarrow> Cluster \<Rightarrow> bool" where
  "anchor_dropped pn S S' \<longleftrightarrow>
     cl_pods S' = cl_pods S \<and> cl_nodes S' = cl_nodes S \<and>
     (\<exists>p m v. cl_pools S pn = Some p \<and> freeing (np_Annotations p) m
        \<and> cl_pools S' = (cl_pools S)(pn \<mapsto> p\<lparr>np_Annotations := m, np_ResourceVersion := v\<rparr>))"

lemma anchor_droppedI:
  "anchor_freed pn T S' \<Longrightarrow> cl_pools T = cl_pools S \<Longrightarrow> cl_nodes T = cl_nodes S \<Longrightarrow> cl_pods T = cl_pods S \<Longrightarrow>
   anchor_dropped pn S S'"
  unfolding anchor_freed_def anchor_dropped_def by (elim exE conjE, intro conjI exI) simp_all

lemma expireFailed_drops:
  assumes "runs S (expireFailed r pool cand) (Inr (RequeueAfter longRequeue)) t S'" "keyed S"
  shows "anchor_dropped (np_Name pool) S S'"
proof -
  have neq: "shortRequeue \<noteq> longRequeue" by (simp add: shortRequeue_def longRequeue_def)
  from assms(1) obtain out s T where M: "runs S (markExpired r (nc_Name cand) None [StateFailed]) (Inr out) s T"
    "\<exists>u. runs T (if out = expiryGone \<or> out = expiryRaced then ret (RequeueAfter shortRequeue)
       else andThen (emitIf (out = expiryClaimed) (Expired (np_Name pool) (nc_Name cand))) (\<lambda>_.
            andThen (clearAnchor r pool) (\<lambda>_. ret (RequeueAfter longRequeue)))) (Inr (RequeueAfter longRequeue)) u S'"
    unfolding expireFailed_def by (elim runs_andThenE) blast
  from M(2) neq obtain u p where "runs T (clearAnchor r pool) (Inr p) u S'"
    by (auto elim!: runs_andThenE split: if_splits)
  from clearAnchor_outcome [OF this runs_keyed [OF M(1) assms(2)]]
  show ?thesis
    by (rule anchor_droppedI) (rule runs_frame [OF M(1), of "{KRead, KClaim}"], auto intro!: within_intro)+
qed

lemma tornFailure_outcome:
  assumes "runs S (patchPool r pool (tornFailure cand)) (Inr p) t S'" "keyed S"
  shows "anchor_freed (np_Name pool) S S'"
proof -
  from assms(1) obtain w u where "runs S (patchPoolIf r pool (always (tornFailure cand))) (Inr (w, (), p)) u S'"
    by (rule patchPool_runsE)
  then show ?thesis
    by (rule torn_failure.frees [OF _ assms(2)]) (auto dest!: always_result simp: tornFailure_def)
qed

lemma advanceFailed_drops:
  assumes "runs S (advanceFailed r pool res cand fs (fail e)) (Inr (RequeueAfter longRequeue)) t S'" "keyed S"
  shows "anchor_dropped (np_Name pool) S S'"
proof (cases "nc_DeletionTimestamp cand = None")
  case False
  with assms(1) have "runs S (expireFailed r pool cand) (Inr (RequeueAfter longRequeue)) t S'"
    by (simp add: advanceFailed_def)
  from expireFailed_drops [OF this assms(2)] show ?thesis .
next
  case True
  have neq: "shortRequeue \<noteq> longRequeue" by (simp add: shortRequeue_def longRequeue_def)
  from assms(1) True obtain now hr clamp t1 t2 t3 t4 S1 S2 S3 where
    a: "runs S (clock r) (Inr now) t1 S1" "runs S1 (headroom r pool res cand) (Inr (hr, clamp)) t2 S2"
      "runs S2 (if \<not> dueForRetry pool res cand fs now then ret ()
              else if \<not> hr_Fits hr then emit (EmitHeadroomBlocked pool cand hr clamp)
              else emit (ClearHeadroomBlocked (np_Name pool))) (Inr ()) t3 S3"
    and rest: "runs S3 (if dueForRetry pool res cand fs now \<and> hr_Fits hr then
          andThen (patchClaimIf r (nc_Name cand) retryEntry) (\<lambda>wrote. case wrote of
            claimWritten _ \<Rightarrow> fail e
          | _ \<Rightarrow> ret (RequeueAfter shortRequeue))
        else andThen (patchPool r pool (tornFailure cand)) (\<lambda>_. ret (RequeueAfter longRequeue)))
        (Inr (RequeueAfter longRequeue)) t4 S'"
    unfolding advanceFailed_def Let_def by (auto elim!: runs_andThenE split: prod.splits)
  have same: "S3 = S"
  proof -
    have "S1 = S" by (rule runs_reads [OF a(1)]) (auto intro!: within_intro)
    moreover have "S2 = S1" by (rule runs_reads [OF a(2)]) (auto intro!: within_intro)
    moreover have "S3 = S2" by (rule runs_reads [OF a(3)]) (auto intro!: within_intro)
    ultimately show ?thesis by simp
  qed
  have "\<exists>p u. runs S (patchPool r pool (tornFailure cand)) (Inr p) u S'"
    using rest neq unfolding same by (auto elim!: runs_andThenE split: if_splits ClaimWrite.splits; blast)
  with tornFailure_outcome assms(2) have "anchor_freed (np_Name pool) S S'" by blast
  then show ?thesis by (rule anchor_droppedI) simp_all
qed

text \<open>The record of the failure, which comes after the tear-down.\<close>

definition failed_in :: "Cluster \<Rightarrow> string \<Rightarrow> bool" where
  "failed_in S claim = (case cl_claims S claim of None \<Rightarrow> False | Some c \<Rightarrow> aget (nc_Annotations c) State = StateFailed)"

lemma failed_frame:
  assumes "serves S t S'" "KClaim \<notin> kind_of ` set t" "failed_in S' claim"
  shows "failed_in S claim"
  using assms
proof (induction t arbitrary: S)
  case (Cons e t)
  from Cons.prems(1) obtain T where T: "serves1 S e T" "serves T t S'" by auto
  from Cons.IH [OF T(2)] Cons.prems(2,3) have failed: "failed_in T claim" by auto
  show ?case
  proof (cases "kind_of e = KDeleteClaim")
    case False
    with T(1) Cons.prems(2) have "cl_claims T = cl_claims S" by (intro serves1_frame(2)) auto
    with failed show ?thesis by (simp add: failed_in_def)
  next
    case True
    then obtain n a where e: "e = CallDeleteClaim n a" by (cases e) simp_all
    have "T = S \<or> T = S\<lparr>cl_claims := (cl_claims S)(n := None)\<rparr>
        \<or> (\<exists>c ts. cl_claims S n = Some c \<and> T = S\<lparr>cl_claims := (cl_claims S)(n \<mapsto> c\<lparr>nc_DeletionTimestamp := Some ts\<rparr>)\<rparr>)"
      using T(1) unfolding e by (cases a) auto
    then show ?thesis using failed by (elim disjE exE conjE) (simp_all add: failed_in_def split: if_splits)
  qed
qed simp

lemma failed_before:
  assumes "runs S m x t S'" "within K m" "KClaim \<notin> K" "failed_in S' claim"
  shows "failed_in S claim"
proof -
  from assms(1,2) have "serves S t S'" "kind_of ` set t \<subseteq> K" by (auto simp: runs_def within_def)
  with assms(3,4) show ?thesis using failed_frame [of S t S' claim] by blast
qed

lemma failPending_records:
  assumes "runs S (failPending r pool res cand) x t S'" "keyed S"
    and "\<not> failed_in S claim" "failed_in S' claim"
  shows "torn_down r (nc_Name cand) S S'"
  using assms(1) [unfolded failPending_def]
proof (cases rule: runs_andThen_cases)
  case (failed e)
  with failed_before [OF failed(2) within_lead] assms(3,4) show ?thesis by simp
next
  case (continued sc s1 u1 Q)
  have QS: "Q = S" by (rule runs_reads [OF continued(1)]) (rule within_mono [OF within_lead], simp)
  from continued(2) show ?thesis
  proof (cases rule: runs_andThen_cases)
    case (failed e)
    with failed_before [OF failed(2) within_programs(3) [of "{KRead, KDeleteClaim}"]] assms(3,4) QS show ?thesis by simp
  next
    case R: (continued a s2 u2 R)
    have kR: "keyed R" using runs_keyed [OF R(1)] assms(2) QS by simp
    have fR: "cl_pools R = cl_pools S" "cl_nodes R = cl_nodes S" "cl_pods R = cl_pods S"
      using runs_frame [OF R(1), of "{KRead, KDeleteClaim}"] QS by (simp_all add: within_programs)
    have nR: "\<not> failed_in R claim"
      using failed_before [OF R(1) within_programs(3) [of "{KRead, KDeleteClaim}"]] assms(3) QS by auto
    from R(2) show ?thesis
    proof (cases rule: runs_andThen_cases)
      case (failed e)
      with failed_before [OF failed(2) within_programs(2) [of "{KDeletePod}"]] assms(4) nR show ?thesis by simp
    next
      case T: (continued a s3 u3 T)
      have nT: "\<not> failed_in T claim"
        using failed_before [OF T(1) within_programs(2) [of "{KDeletePod}"]] nR by auto
      from T(2) show ?thesis
      proof (cases rule: runs_andThen_cases)
        case (failed e)
        with failed_before [OF failed(2) within_programs(1) [of "{KRead, KNode}"]] assms(4) nT show ?thesis by simp
      next
        case U: (continued a s4 u4 U)
        have "torn_down r (nc_Name cand) R U" using tear_down(1) [of R r _ _ T _ U] T(1) U(1) kR by simp
        then have "torn_down r (nc_Name cand) S U"
          using fR unfolding torn_down_def pods_but_def released_nodes_def by simp
        moreover have "cl_nodes S' = cl_nodes U" "cl_pods S' = cl_pods U"
          by (rule runs_frame [OF U(2), of "{KRead, KClaim, KPool, KNote}"];
              auto simp: failureRecord_def afterFailure_def poolFailure_def Let_def intro!: within_intro
                split: ClaimWrite.split)+
        ultimately show ?thesis using torn_down_cong by blast
      qed
    qed
  qed
qed

text \<open>Nothing of the rotation of \<open>claim\<close> is on a Pod or on a node.\<close>

definition nothing_left :: "Reconciler \<Rightarrow> string \<Rightarrow> Cluster \<Rightarrow> bool" where
  "nothing_left r claim S \<longleftrightarrow>
     pod_leaving S (placeholderKey r claim) \<and> (\<forall>n d. cl_nodes S n = Some d \<longrightarrow> \<not> markedFor claim d)"

lemma unfrozen_unmarked: "claim \<noteq> '''' \<Longrightarrow> \<not> markedFor claim (fst (applyUnfreeze d))"
  by (simp add: markedFor_def applyUnfreeze_def applyUncordon_def removeAnnotation_def hasAnnotation_def aget_def Let_def
      split: option.splits)

lemma torn_down_nothing_left:
  assumes "torn_down r claim S S'" "claim \<noteq> ''''"
  shows "nothing_left r claim S'"
proof -
  have "\<not> markedFor claim d" if "cl_nodes S' n = Some d" for n d
  proof -
    from assms(1) have n: "case cl_nodes S n of
            None \<Rightarrow> cl_nodes S' n = None
          | Some d \<Rightarrow> if markedFor claim d
              then \<exists>v. cl_nodes S' n = Some ((fst (applyUnfreeze d))\<lparr>nd_ResourceVersion := v\<rparr>)
              else cl_nodes S' n = Some d" unfolding torn_down_def released_nodes_def by blast
    from n that show ?thesis using unfrozen_unmarked [OF assms(2)]
      by (auto simp: markedFor_def split: option.splits if_splits)
  qed
  with assms(1) show ?thesis unfolding nothing_left_def torn_down_def by blast
qed

text \<open>
  C7. However a rotation ends, nothing of it is left. Let a cluster serve a run, without errors, of a
  program that ends the rotation of \<open>claim\<close> on a NodePool.
  If it is the completion, the roll-back of a failed attempt, the abort of one whose claim is expiring, the
  clean-up after an expired one, or the reaping on a NodePool that lost its policy, then the placeholder is
  gone or terminating, every node that carried the claim's marker is given back by \<open>applyUnfreeze\<close> (and no
  other node or Pod changed), and the one NodePool written has no field of the anchor left. Of its other
  annotations only the stamps of the last rotation and failure may differ, the former only if the
  rotation was recorded as draining.
  If it is one of the two programs that end the rotation of a claim already recorded as failed, the
  expiry of a failed claim and the release of the anchor that a torn roll-back left behind
  (\<open>advanceFailed\<close> without a call back), then the same holds of the NodePool, and no Pod and no node changed.
  These two find nothing to tear down: a roll-back that records a claim as failed, however it ends,
  has torn down its rotation by then.
\<close>

theorem rotation_end_leaves_nothing:
  assumes "keyed S" "cl_pools S (np_Name pool) = Some p" "aget (np_Annotations p) ActiveRotation = claim"
  shows "(runs S (completeOrAbort r pool claim) (Inr x) t S'
      \<or> runs S (releaseExpired r pool claim) (Inr x) t S'
      \<or> nc_Name cand = claim \<and> runs S (failPending r pool res cand) (Inr (RequeueAfter longRequeue)) t S'
      \<or> nc_Name cand = claim \<and> runs S (abortPendingExpiry r pool cand) (Inr (RequeueAfter longRequeue)) t S'
      \<or> claim \<noteq> '''' \<and> aget (np_Annotations pool) ActiveRotation = claim \<and> runs S (reapUngovernedRotation r pool) (Inr ()) t S'
      \<longrightarrow> rotation_over r (np_Name pool) claim S S' \<and> (claim \<noteq> '''' \<longrightarrow> nothing_left r claim S'))
    \<and> (runs S (expireFailed r pool cand) (Inr (RequeueAfter longRequeue)) t S'
      \<or> runs S (advanceFailed r pool res cand fs (fail e)) (Inr (RequeueAfter longRequeue)) t S'
      \<longrightarrow> anchor_dropped (np_Name pool) S S' \<and> (nothing_left r claim S \<longrightarrow> nothing_left r claim S'))
    \<and> (nc_Name cand = claim \<and> claim \<noteq> '''' \<and> runs S (failPending r pool res cand) y t S'
      \<and> \<not> failed_in S claim \<and> failed_in S' claim
      \<longrightarrow> torn_down r claim S S' \<and> nothing_left r claim S')"
proof (intro conjI impI)
  assume ends: "runs S (completeOrAbort r pool claim) (Inr x) t S'
      \<or> runs S (releaseExpired r pool claim) (Inr x) t S'
      \<or> nc_Name cand = claim \<and> runs S (failPending r pool res cand) (Inr (RequeueAfter longRequeue)) t S'
      \<or> nc_Name cand = claim \<and> runs S (abortPendingExpiry r pool cand) (Inr (RequeueAfter longRequeue)) t S'
      \<or> claim \<noteq> '''' \<and> aget (np_Annotations pool) ActiveRotation = claim \<and> runs S (reapUngovernedRotation r pool) (Inr ()) t S'"
  show over: "rotation_over r (np_Name pool) claim S S'"
    using ends
    by (elim disjE conjE)
      (use assms completeOrAbort_over releaseExpired_over failPending_over abortPendingExpiry_over reap_over in metis)+
  show "nothing_left r claim S'" if "claim \<noteq> ''''"
    using over that torn_down_nothing_left unfolding rotation_over_def by blast
next
  assume ends: "runs S (expireFailed r pool cand) (Inr (RequeueAfter longRequeue)) t S'
      \<or> runs S (advanceFailed r pool res cand fs (fail e)) (Inr (RequeueAfter longRequeue)) t S'"
  show dropped: "anchor_dropped (np_Name pool) S S'"
    using ends expireFailed_drops advanceFailed_drops assms(1) by blast
  show "nothing_left r claim S'" if "nothing_left r claim S"
    using dropped that unfolding anchor_dropped_def nothing_left_def pod_leaving_def by simp
next
  assume "nc_Name cand = claim \<and> claim \<noteq> '''' \<and> runs S (failPending r pool res cand) y t S'
      \<and> \<not> failed_in S claim \<and> failed_in S' claim"
  then show "torn_down r claim S S'" "nothing_left r claim S'"
    using failPending_records assms(1) torn_down_nothing_left by blast+
qed

section \<open>A whole pass\<close>

lemma edge_result:
  assumes "result (edgeClaim inp action opened apply m) j = Inr (x, m')"
  shows "m' = None \<or> m' = Some (apply m)"
  using assms by (auto simp: edgeClaim_def split: if_splits)

context quiet_mutator
begin

lemma stored_after:
  assumes "runs S (patchPoolIf r pool mutate) (Inr (w, x, q)) t S'" "keyed S" "cl_pools S (np_Name pool) = Some pool"
    and "\<And>j x m. result (mutate (np_Annotations pool)) j = Inr (x, Some m) \<Longrightarrow>
           \<forall>k. k \<noteq> WindowOpenedAt \<longrightarrow> m k = np_Annotations pool k"
  shows "np_Name q = np_Name pool \<and> (\<forall>k. k \<noteq> WindowOpenedAt \<longrightarrow> np_Annotations q k = np_Annotations pool k)
    \<and> S' = S\<lparr>cl_pools := (cl_pools S)(np_Name pool \<mapsto> q)\<rparr>"
proof (cases w)
  case True
  with assms(1) have "runs S (patchPoolIf r pool mutate) (Inr (True, x, q)) t S'" by simp
  from pool_written [OF this assms(2)] obtain p m v j where p: "cl_pools S (np_Name pool) = Some p"
    "result (mutate (np_Annotations p)) j = Inr (x, Some m)" "q = p\<lparr>np_Annotations := m, np_ResourceVersion := v\<rparr>"
    "S' = S\<lparr>cl_pools := (cl_pools S)(np_Name pool \<mapsto> q)\<rparr>" .
  with assms(3,4) show ?thesis by simp
next
  case False
  with assms(1) have "runs S (patchPoolIf r pool mutate) (Inr (False, x, q)) t S'" by simp
  from pool_not_written [OF this] assms(3) show ?thesis by (metis Cluster.surjective Cluster.update_convs(1) fun_upd_triv option.inject)
qed

end

lemma edge_outcome:
  assumes "runs S (evaluateWindowEdge r pool res now views excluded inWindow) (Inr q) t S'" "keyed S"
    and "cl_pools S (np_Name pool) = Some pool"
  shows "np_Name q = np_Name pool \<and> (\<forall>k. k \<noteq> WindowOpenedAt \<longrightarrow> np_Annotations q k = np_Annotations pool k)
    \<and> S' = S\<lparr>cl_pools := (cl_pools S)(np_Name pool \<mapsto> q)\<rparr>"
proof -
  let ?inp = "\<lparr>wi_Now = now, wi_InWindow = inWindow, wi_Annotations = np_Annotations pool,
                 wi_Census = TakeCensus views (selInputs res now excluded (hasFailedClaim views))\<rparr>"
  let ?opened = "aget (np_Annotations pool) WindowOpenedAt"
  have same: "S = S\<lparr>cl_pools := (cl_pools S)(np_Name pool \<mapsto> pool)\<rparr>" using assms(3) by (simp add: fun_upd_idem)
  have stamp: ?thesis if "runs S (patchPoolIf r pool (edgeClaim ?inp WindowStamp ?opened (\<lambda>m. m(WindowOpenedAt \<mapsto> rfc3339 now)))) (Inr (w, x, q)) u S'" for w x u
    by (rule edge_stamp.stored_after [OF that assms(2,3)]) (auto dest: edge_result)
  have clear: "np_Name p = np_Name pool \<and> (\<forall>k. k \<noteq> WindowOpenedAt \<longrightarrow> np_Annotations p k = np_Annotations pool k)
      \<and> T = S\<lparr>cl_pools := (cl_pools S)(np_Name pool \<mapsto> p)\<rparr>"
    if "runs S (patchPoolIf r pool (edgeClaim ?inp action ?opened (\<lambda>m. adel m WindowOpenedAt))) (Inr (w, x, p)) u T" for action w x u p T
    by (rule edge_clear.stored_after [OF that assms(2,3)]) (auto dest: edge_result)
  show ?thesis
  proof (cases "WindowEdge ?inp")
    case WindowStamp
    with assms(1) show ?thesis
      by (auto simp: evaluateWindowEdge_def Let_def elim!: runs_andThenE dest!: stamp)
  next
    case WindowSettled
    with assms(1) show ?thesis
      by (auto simp: evaluateWindowEdge_def Let_def elim!: runs_andThenE dest!: clear)
  next
    case WindowMissed
    with assms(1) show ?thesis
      by (auto simp: evaluateWindowEdge_def Let_def elim!: runs_andThenE dest!: clear split: if_splits)
  qed (use assms(1) same in \<open>auto simp: evaluateWindowEdge_def Let_def\<close>)
qed

text \<open>The completion announces what the anchor says of the rotation.\<close>

lemma completeOrAbort_announces:
  assumes "runs S (completeOrAbort r pool claim) (Inr x) t S'" "keyed S"
    and "cl_pools S (np_Name pool) = Some p" "aget (np_Annotations p) ActiveRotation = claim"
  shows "Note (if aget (np_Annotations p) ActiveRotationState = StateDraining then Success (np_Name pool)
      else Expired (np_Name pool) claim) \<in> set t"
proof -
  from assms(1) obtain host R T U w c q V t0 t1 t2 t3 t4 where
    R: "runs S (surgeHostFor r claim) (Inr host) t0 R" and
    T: "runs R (deletePlaceholder r claim) (Inr ()) t1 T" "runs T (unfreezeNodes r claim) (Inr ()) t2 U" and
    V: "runs U (patchPoolIf r pool (completion r claim)) (Inr (w, c, q)) t3 V" and
    rest: "runs V (if \<not> cp_released c then ret (RequeueAfter longRequeue)
       else if \<not> cp_rotated c then
         andThen (emit (Expired (np_Name q) claim)) (\<lambda>_. ret (RequeueAfter longRequeue))
       else
         andThen (emit (Success (np_Name q))) (\<lambda>_.
         andThen (case cp_drain c of
                    Some d \<Rightarrow> emit (ObserveDuration (np_Name q) PhaseDrain d) | None \<Rightarrow> ret ()) (\<lambda>_.
         andThen (emitIf (rc_Events r) (EventRotationCompleted (np_Name q) claim (cp_surgePath c))) (\<lambda>_.
         ret (RequeueAfter longRequeue))))) (Inr x) t4 S'" and t: "t = t0 @ t1 @ t2 @ [Note (ClearPlaceholderPending (np_Name pool) claim)] @ t3 @ t4"
    unfolding completeOrAbort_def by (elim runs_thenE runs_andThenE) (auto simp only: runs_emit split: prod.splits)
  have RS: "R = S" by (rule runs_reads [OF R]) (auto intro!: within_intro)
  have k: "keyed U" using runs_keyed [OF T(2) runs_keyed [OF T(1)]] assms(2) RS by simp
  have same: "cl_pools U (np_Name pool) = Some p" using tear_down(2) [OF T] assms(2,3) RS by simp
  obtain j m where c: "result (completion r claim (np_Annotations p)) j = Inr (c, m)" "np_Name q = np_Name p"
  proof (cases w)
    case True
    with V have "runs U (patchPoolIf r pool (completion r claim)) (Inr (True, c, q)) t3 V" by simp
    from completion.pool_written [OF this k] same that show thesis by (metis NodePool.select_convs(1) NodePool.surjective
        NodePool.update_convs(5) NodePool.update_convs(3) option.inject)
  next
    case False
    with V have "runs U (patchPoolIf r pool (completion r claim)) (Inr (False, c, q)) t3 V" by simp
    from completion.pool_not_written [OF this] same that show thesis by (metis option.inject)
  qed
  have "np_Name q = np_Name pool" using c(2) keyedD(1) [OF assms(2,3)] by simp
  moreover from c(1) assms(4) have "cp_released c" "cp_rotated c \<longleftrightarrow> aget (np_Annotations p) ActiveRotationState = StateDraining"
    by (auto simp: completion_def run_andThen not_released_def split: if_splits option.splits)
  ultimately have "Note (if aget (np_Annotations p) ActiveRotationState = StateDraining then Success (np_Name pool)
      else Expired (np_Name pool) claim) \<in> set t4"
    using rest by (auto elim!: runs_andThenE split: if_splits)
  with t show ?thesis by simp
qed

lemma within_observe [within_intro]:
  "KNote \<in> K \<Longrightarrow> within K (observe pool res now claims views p derived excluded)"
  unfolding observe_def by (auto intro!: within_intro)

lemma within_excluded [within_intro]: "KRead \<in> K \<Longrightarrow> within K (excludedClaims r pool claims)"
  unfolding excludedClaims_def by (auto intro!: within_intro)

lemma within_governing [within_intro]: "KRead \<in> K \<Longrightarrow> within K (governingPolicy r pool)"
  unfolding governingPolicy_def by (auto intro!: within_intro)

text \<open>A governed pass: the reads, the window edge, and the step of the rotation in flight.\<close>

lemma reconcileNodePool_runs:
  assumes "runs S (reconcileNodePool n r pool pol sched) (Inr x) t S'" "keyed S" "cl_pools S (np_Name pool) = Some pool"
    and "aget (np_Annotations pool) ActiveRotation = claim" "claim \<noteq> ''''"
  obtains q T res fs u where "np_Name q = np_Name pool" "\<forall>k. k \<noteq> WindowOpenedAt \<longrightarrow> np_Annotations q k = np_Annotations pool k"
    "T = S\<lparr>cl_pools := (cl_pools S)(np_Name pool \<mapsto> q)\<rparr>" "runs T (advance n r q claim res fs) (Inr x) u S'" "set u \<subseteq> set t" "keyed T"
proof -
  let ?res = "resolve pool pol sched"
  from assms(1) obtain now t0 S0 claims t1 S1 excluded t2 S2 t3 S3 derived p q T t6 u fs where
    a: "runs S (clock r) (Inr now) t0 S0" "runs S0 (poolClaims r pool) (Inr claims) t1 S1"
    "runs S1 (excludedClaims r pool claims) (Inr excluded) t2 S2"
    "runs S2 (observe pool ?res now claims (fst (adapt_Claims claims)) p derived excluded) (Inr ()) t3 S3"
    and e: "runs S3 (evaluateWindowEdge r pool ?res now (fst (adapt_Claims claims)) excluded (InWindow sched now)) (Inr q) t6 T"
    and r: "runs T (if aget (np_Annotations q) ActiveRotation \<noteq> '''' then advance n r q (aget (np_Annotations q) ActiveRotation) ?res fs
       else startRotation n r q ?res now claims excluded fs) (Inr x) u S'" and t: "\<exists>s. t = s @ u"
    unfolding reconcileNodePool_def Let_def
    by (elim runs_thenE runs_andThenE) (auto simp only: runs_emit append_assoc [symmetric], blast)
  have "S0 = S" by (rule runs_reads [OF a(1)]) (auto intro!: within_intro)
  moreover have "S1 = S0" by (rule runs_reads [OF a(2)]) (auto intro!: within_intro)
  moreover have "S2 = S1" by (rule runs_reads [OF a(3)]) (auto intro!: within_intro)
  moreover have "S3 = S2" by (rule runs_reads [OF a(4)]) (auto intro!: within_intro)
  ultimately have S3: "S3 = S" by simp
  from edge_outcome [OF e] assms(2,3) S3 have q: "np_Name q = np_Name pool"
    "\<forall>k. k \<noteq> WindowOpenedAt \<longrightarrow> np_Annotations q k = np_Annotations pool k"
    "T = S\<lparr>cl_pools := (cl_pools S)(np_Name pool \<mapsto> q)\<rparr>" by simp_all
  then have "aget (np_Annotations q) ActiveRotation = claim" using assms(4) by (simp add: aget_def)
  with r assms(5) have "runs T (advance n r q claim ?res fs) (Inr x) u S'" by simp
  moreover have "set u \<subseteq> set t" using t by auto
  ultimately show thesis using that q runs_keyed [OF e] assms(2) S3 by blast
qed

lemma advance_gone:
  assumes "runs S (advance n r pool claim res fs) (Inr x) t S'" "cl_claims S claim = None"
  obtains u where "runs S (completeOrAbort r pool claim) (Inr x) u S'" "set u \<subseteq> set t"
proof (cases n)
  case 0
  with assms(1) show thesis by simp
next
  case (Suc n')
  from assms(1) Suc obtain c s u T where c: "runs S (getClaim r claim) (Inr c) s T"
    "runs T (case c of None \<Rightarrow> completeOrAbort r pool claim
       | Some cand \<Rightarrow>
         (let st = aget (nc_Annotations cand) State
          in if st = '''' \<or> st = StatePending then advancePending r pool res cand
             else if st = StateDraining then advanceDraining r pool cand
             else if st = StateFailed then
               advanceFailed r pool res cand fs (advance n' r pool (nc_Name cand) res fs)
             else if st = StateExpired then advanceExpired r pool cand
             else ret (RequeueAfter longRequeue))) (Inr x) u S'" "t = s @ u"
    by (auto elim!: runs_andThenE)
  from c(1) assms(2) have "c = None \<and> T = S"
    by (auto dest: runs_getClaim)
  with c(2,3) that show thesis by auto
qed

lemma rotation_over_anchor:
  assumes "rotation_over r pn claim S S'"
  shows "\<exists>q. cl_pools S' pn = Some q \<and>
    (\<forall>k \<in> {ActiveRotation, ActiveRotationState, DrainingAt, SurgeWait, SurgePath, RotationMode}. np_Annotations q k = None)"
  using assms unfolding rotation_over_def freeing_def by auto

definition cluster_pass :: "nat \<Rightarrow> Reconciler \<Rightarrow> string \<Rightarrow> CtrlResult M" where
  "cluster_pass n r name = Reconcile n r (startupSweep r False) name"

lemma pass_runs:
  assumes "runs S (cluster_pass n r name) (Inr x) t S'" "cl_pools S name = Some p"
  obtains gov u where "runs S (underGovernance n r p gov) (Inr x) u S'" "set u \<subseteq> set t"
    "\<exists>policies. CallListPolicies (Inr policies) \<in> set t \<and> gov = governance r p policies"
proof -
  from assms(1) obtain got s u T where g: "runs S (callGetPool r name) got s T"
    "runs T (case got of
       Inl e \<Rightarrow>
         (if e = IsNotFound
          then andThen (emit (ForgetPool name)) (\<lambda>_. andThen (emit (Forget name)) (\<lambda>_. ret NoRequeue))
          else fail e)
     | Inr pool \<Rightarrow> andThen (governingPolicy r pool) (underGovernance n r pool)) (Inr x) u S'" "t = s @ u"
    unfolding cluster_pass_def Reconcile_def startupSweep_def by (auto elim!: runs_bindRE)
  from g(1) have T: "T = S" "case got of Inr q \<Rightarrow> cl_pools S name = Some q | Inl e \<Rightarrow> e = IsNotFound \<longrightarrow> cl_pools S name = None"
    by (auto simp: runs_def call_defs)
  with g(2) assms(2) have "got = Inr p" by (cases got) (auto split: if_splits)
  with g(2) T(1) have "runs S (andThen (governingPolicy r p) (underGovernance n r p)) (Inr x) u S'" by simp
  then obtain gov s2 u2 T2 where h: "runs S (governingPolicy r p) (Inr gov) s2 T2" "runs T2 (underGovernance n r p gov) (Inr x) u2 S'"
    "u = s2 @ u2" by (rule runs_andThenE)
  from h(1) obtain policies where "CallListPolicies (Inr policies) \<in> set s2 \<and> gov = governance r p policies"
 
    unfolding governingPolicy_def by (auto simp: runs_def [of _ "call _ _"] call_defs elim!: runs_andThenE)
  moreover have "T2 = S" by (rule runs_reads [OF h(1)]) (auto intro!: within_intro)
  ultimately show thesis using that h(2,3) g(3) by auto
qed

lemma governed_ends:
  assumes "runs S (reconcileNodePool n r p pol sched) (Inr x) v S'" "keyed S" "cl_pools S (np_Name p) = Some p"
    and "aget (np_Annotations p) ActiveRotation = claim" "claim \<noteq> ''''" "cl_claims S claim = None"
  shows "torn_down r claim S S' \<and>
    (\<exists>q. cl_pools S' (np_Name p) = Some q \<and>
      (\<forall>k \<in> {ActiveRotation, ActiveRotationState, DrainingAt, SurgeWait, SurgePath, RotationMode}. np_Annotations q k = None)) \<and>
    Note (if aget (np_Annotations p) ActiveRotationState = StateDraining
          then Success (np_Name p) else Expired (np_Name p) claim) \<in> set v"
proof -
  from reconcileNodePool_runs [OF assms(1-5)] obtain q T res fs w where
    q: "np_Name q = np_Name p" "\<forall>k. k \<noteq> WindowOpenedAt \<longrightarrow> np_Annotations q k = np_Annotations p k"
    "T = S\<lparr>cl_pools := (cl_pools S)(np_Name p \<mapsto> q)\<rparr>" "runs T (advance n r q claim res fs) (Inr x) w S'" "set w \<subseteq> set v" "keyed T" .
  from advance_gone [OF q(4)] q(3) assms(6) obtain w' where w: "runs T (completeOrAbort r q claim) (Inr x) w' S'" "set w' \<subseteq> set w"
    by auto
  have st: "cl_pools T (np_Name q) = Some q" "aget (np_Annotations q) ActiveRotation = claim"
    "aget (np_Annotations q) ActiveRotationState = aget (np_Annotations p) ActiveRotationState"
    using q(1-3) assms(4) by (simp_all add: aget_def)
  from completeOrAbort_over [OF w(1) q(6) st(1,2)] q(1) have over: "rotation_over r (np_Name p) claim T S'" by simp
  then have "torn_down r claim S S'" unfolding rotation_over_def torn_down_def q(3) pods_but_def released_nodes_def by simp
  moreover from completeOrAbort_announces [OF w(1) q(6) st(1,2)] q(1) st(3) w(2) q(5)
  have "Note (if aget (np_Annotations p) ActiveRotationState = StateDraining
      then Success (np_Name p) else Expired (np_Name p) claim) \<in> set v" by auto
  ultimately show ?thesis using rotation_over_anchor [OF over] by blast
qed

text \<open>
  C5. A rotation whose NodeClaim is gone ends in the next pass. Let a cluster serve, without errors, a pass
  over a NodePool anchored to \<open>claim\<close>, and let that claim be gone. Whatever the policies say, after the
  pass the anchor is free, the placeholder is gone or terminating and no marker of the claim is left on
  a node. If the NodePool is governed, the pass announces a success when the rotation had
  reached draining, and an expiry when it had not.
\<close>

theorem gone_claim_rotation_ends:
  assumes "keyed S" "cl_pools S name = Some p" "aget (np_Annotations p) ActiveRotation = claim" "claim \<noteq> ''''"
    and "cl_claims S claim = None" "runs S (cluster_pass n r name) (Inr x) t S'"
  shows "torn_down r claim S S' \<and>
    (\<exists>q. cl_pools S' name = Some q \<and>
      (\<forall>k \<in> {ActiveRotation, ActiveRotationState, DrainingAt, SurgeWait, SurgePath, RotationMode}. np_Annotations q k = None)) \<and>
    (\<exists>policies. CallListPolicies (Inr policies) \<in> set t \<and>
      (case governance r p policies of
         Governed _ _ \<Rightarrow> Note (if aget (np_Annotations p) ActiveRotationState = StateDraining
                               then Success name else Expired name claim) \<in> set t
       | _ \<Rightarrow> True))"
proof -
  from assms(1,2) have pn: "np_Name p = name" by (rule keyedD(1))
  from assms(6,2) obtain gov u where u: "runs S (underGovernance n r p gov) (Inr x) u S'" "set u \<subseteq> set t"
    and g: "\<exists>policies. CallListPolicies (Inr policies) \<in> set t \<and> gov = governance r p policies" by (rule pass_runs)
  have reap: ?thesis if "runs S (reapUngovernedRotation r p) (Inr ()) v S'" "\<nexists>pol sched. gov = Governed pol sched" for v
  proof -
    from reap_over [OF that(1) assms(1,3,4), of p] assms(2,3) pn have "rotation_over r name claim S S'" by simp
    with rotation_over_anchor [OF this] g that(2) show ?thesis
      unfolding rotation_over_def by (auto split: Governance.split)
  qed
  show ?thesis
  proof (cases gov)
    case Ungoverned
    with u(1) obtain v where "runs S (reapUngovernedRotation r p) (Inr ()) v S'"
      by (auto simp: underGovernance_def elim!: runs_thenE)
    with reap Ungoverned show ?thesis by blast
  next
    case (Contested d)
    with u(1) obtain v where "runs S (reapUngovernedRotation r p) (Inr ()) v S'"
      by (auto simp: underGovernance_def elim!: runs_thenE)
    with reap Contested show ?thesis by blast
  next
    case (Governed pol sched)
    with u(1) obtain v where v: "runs S (reconcileNodePool n r p pol sched) (Inr x) v S'" "set v \<subseteq> set u"
      by (auto simp: underGovernance_def elim!: runs_thenE) blast
    from g Governed obtain policies where l: "CallListPolicies (Inr policies) \<in> set t" "governance r p policies = Governed pol sched"
      by auto
    have e: "torn_down r claim S S'" "\<exists>q. cl_pools S' name = Some q \<and>
      (\<forall>k \<in> {ActiveRotation, ActiveRotationState, DrainingAt, SurgeWait, SurgePath, RotationMode}. np_Annotations q k = None)"
      "Note (if aget (np_Annotations p) ActiveRotationState = StateDraining then Success name else Expired name claim) \<in> set v"
      using governed_ends [OF v(1) assms(1) _ assms(3,4)] assms(2,5) unfolding pn by blast+
    from e(3) v(2) u(2) have "Note (if aget (np_Annotations p) ActiveRotationState = StateDraining
        then Success name else Expired name claim) \<in> set t" by blast
    with e(1,2) l show ?thesis by (intro conjI exI [of _ policies]) simp_all
  qed
qed


lemma ex_version_updated [simp]:
  "\<exists>v. p\<lparr>np_Annotations := m\<rparr> = p\<lparr>np_Annotations := m, np_ResourceVersion := v\<rparr>"
  "\<exists>v. c\<lparr>nc_Annotations := m\<rparr> = c\<lparr>nc_Annotations := m, nc_ResourceVersion := v\<rparr>"
  "\<exists>v. d\<lparr>nd_Annotations := m\<rparr> = d\<lparr>nd_Annotations := m, nd_ResourceVersion := v\<rparr>"
  by (rule exI [of _ "np_ResourceVersion p"], simp, rule exI [of _ "nc_ResourceVersion c"], simp,
      rule exI [of _ "nd_ResourceVersion d"], simp)

text \<open>A governed NodePool whose claim is gone, with its placeholder and its marked node still there.\<close>

definition ended_node :: Node where
  "ended_node = (demo_node ''n1'' [SurgeFor \<mapsto> ''c'', Cordoned \<mapsto> ''true''])\<lparr>nd_Unschedulable := True, nd_Labels := [NodePoolLabelKey \<mapsto> ''pool-a'']\<rparr>"

definition demo_end :: Reconciler where
  "demo_end = demo_reconciler (demo_api\<lparr>api_GetPool := \<lambda>k n. Inr demo_live_pool, api_GetNode := \<lambda>k n. Inr ended_node,
     api_ListPolicies := \<lambda>k. Inr [demo_rotation_policy ''p'' []], api_ListNodes := \<lambda>k s. Inr [ended_node]\<rparr>)"

definition ended :: Cluster where
  "ended = (let key = placeholderKey demo_end ''c''
    in \<lparr>cl_pools = [''pool-a'' \<mapsto> demo_live_pool], cl_claims = Map.empty, cl_nodes = [''n1'' \<mapsto> ended_node],
        cl_pods = [key \<mapsto> (demo_pod ''n2'' [])\<lparr>pod_Namespace := fst key, pod_Name := snd key\<rparr>]\<rparr>)"

lemma demo_end_simps [eval_simps]:
  "rc_Attempts demo_end = 5" "rc_Events demo_end"
  "nd_Name ended_node = ''n1''" "nd_Annotations ended_node = [SurgeFor \<mapsto> ''c'', Cordoned \<mapsto> ''true'']" "nd_Unschedulable ended_node"
  "nd_Labels ended_node = [NodePoolLabelKey \<mapsto> ''pool-a'']"
  "api_now (rc_Api demo_end) k = 1000 * Hour" "api_ListPolicies (rc_Api demo_end) k = Inr [demo_rotation_policy ''p'' []]"
  "api_GetPool (rc_Api demo_end) k n = Inr demo_live_pool" "api_GetClaim (rc_Api demo_end) k n = Inl IsNotFound"
  "api_GetNode (rc_Api demo_end) k n = Inr ended_node" "api_ListClaims (rc_Api demo_end) k s = Inr []"
  "api_ListNodes (rc_Api demo_end) k s = Inr [ended_node]" "api_UpdatePool (rc_Api demo_end) k p = Inr p"
  "api_UpdateNode (rc_Api demo_end) k d = Inr d" "api_DeletePod (rc_Api demo_end) k key u = Inr ()"
  by (simp_all add: demo_end_def demo_reconciler_def demo_api_def ended_node_def demo_node_def)

lemma ended_simps [eval_simps]:
  "cl_pools ended = [''pool-a'' \<mapsto> demo_live_pool]" "cl_claims ended = Map.empty" "cl_nodes ended = [''n1'' \<mapsto> ended_node]"
  "cl_pods ended (placeholderKey demo_end ''c'') =
     Some ((demo_pod ''n2'' [])\<lparr>pod_Namespace := fst (placeholderKey demo_end ''c''), pod_Name := snd (placeholderKey demo_end ''c'')\<rparr>)"
  by (simp_all add: ended_def Let_def)

lemma ended_selected: "{d. d = ended_node \<and> selects (Some ''pool-a'') (nd_Labels d)} = {ended_node}"
  by (auto simp: selects_def demo_end_simps aget_def)

lemma keyed_ended: "keyed ended"
  by (cases "placeholderKey demo_end ''c''") (simp add: keyed_def ended_def Let_def demo_live_simps demo_end_simps)

lemma ended_completes:
  "result (completeOrAbort demo_end demo_live_pool ''c'') k = Inr (RequeueAfter longRequeue)"
  "\<exists>S'. serves ended (effects (completeOrAbort demo_end demo_live_pool ''c'') k) S'"
  by (simp_all add: completeOrAbort_def run_andThen call_defs surgeHostFor_def deletePlaceholder_def ignoreNotFound_def
      unfreezeNodes_def patchNode_def patchPoolIf_def retry_5 nodeAttempt_def getNode_def orNil_def
      applyUnfreeze_def applyUncordon_def removeAnnotation_def hasAnnotation_def poolAttempt_def completion_def rotationMode_def
      demo_end_simps demo_live_simps ended_simps Let_def aget_def)
    (auto simp: ended_simps demo_live_simps selects_def ex_disj_distrib conj_disj_distribR)

theorem rotation_end_leaves_nothing_witness:
  "\<exists>t S'. runs ended (completeOrAbort demo_end demo_live_pool ''c'') (Inr (RequeueAfter longRequeue)) t S'
     \<and> rotation_over demo_end ''pool-a'' ''c'' ended S' \<and> nothing_left demo_end ''c'' S'"
proof -
  from ended_completes(2) obtain S' where run: "runs ended (completeOrAbort demo_end demo_live_pool ''c'')
      (Inr (RequeueAfter longRequeue)) (effects (completeOrAbort demo_end demo_live_pool ''c'') 0) S'"
    using ended_completes(1) [of 0] unfolding runs_def by blast
  have "cl_pools ended (np_Name demo_live_pool) = Some demo_live_pool" "aget (np_Annotations demo_live_pool) ActiveRotation = ''c''"
    by (simp_all add: ended_simps demo_live_simps aget_def)
  note leaves = rotation_end_leaves_nothing [OF keyed_ended this]
  have "rotation_over demo_end ''pool-a'' ''c'' ended S' \<and> nothing_left demo_end ''c'' S'"
    using leaves [THEN conjunct1, rule_format, OF disjI1, OF run] by (simp add: demo_live_simps)
  with run show ?thesis by blast
qed

lemma demo_end_edge: "evaluateWindowEdge demo_end demo_live_pool res now views excluded inWindow = ret demo_live_pool"
proof -
  have "parseTime (rfc3339 0) = Some 0" using parseTime_rfc3339 [of 0] by (simp add: TruncateSecond_def)
  then show ?thesis
    by (simp add: evaluateWindowEdge_def WindowEdge_def Let_def demo_live_simps rfc3339_nonempty)
qed

lemma ended_pass:
  "\<exists>x S'. result (cluster_pass (Suc n) demo_end ''pool-a'') 0 = Inr x \<and> serves ended (effects (cluster_pass (Suc n) demo_end ''pool-a'') 0) S'"
proof -
  let ?sched = "[\<lparr>e_Loc = UTC, e_Days = [1, 0], e_StartMin = 60, e_EndMin = 330\<rparr>]"
  have got: "governance demo_end demo_live_pool [demo_rotation_policy ''p'' []] = Governed demo_policy ?sched"
    unfolding demo_end_def demo_live_pool_def by (rule demo_governance)
  have adv: "result (advance (Suc n) demo_end demo_live_pool ''c'' res fs) j = result (completeOrAbort demo_end demo_live_pool ''c'') (Suc j)"
    "effects (advance (Suc n) demo_end demo_live_pool ''c'' res fs) j =
      CallGetClaim ''c'' (Inl IsNotFound) # effects (completeOrAbort demo_end demo_live_pool ''c'') (Suc j)" for res fs j
    by (simp_all add: getClaim_def orNil_def call_defs run_andThen demo_end_simps)
  have "\<exists>S'. result (reconcileNodePool (Suc n) demo_end demo_live_pool demo_policy ?sched) j = Inr (RequeueAfter longRequeue)
     \<and> serves ended (effects (reconcileNodePool (Suc n) demo_end demo_live_pool demo_policy ?sched) j) S'" for j
    by (simp only: reconcileNodePool_def Let_def)
      (simp add: run_andThen call_defs poolClaims_def excludedClaims_def observe_def demo_end_simps demo_live_simps
        demo_end_edge adv ended_completes ended_simps ended_selected del: advance.simps)
  then show ?thesis
    by (simp add: cluster_pass_def Reconcile_def startupSweep_def underGovernance_def governingPolicy_def run_andThen
        call_defs demo_end_simps demo_live_simps ended_simps got)
qed

theorem gone_claim_rotation_ends_witness:
  "\<exists>x t S' q. runs ended (cluster_pass 1 demo_end ''pool-a'') (Inr x) t S'
     \<and> torn_down demo_end ''c'' ended S' \<and> cl_pools S' ''pool-a'' = Some q \<and> np_Annotations q ActiveRotation = None"
proof -
  from ended_pass [of 0] obtain x t S' where t: "runs ended (cluster_pass 1 demo_end ''pool-a'') (Inr x) t S'"
    unfolding runs_def by auto
  from gone_claim_rotation_ends [OF keyed_ended _ _ _ _ this, of demo_live_pool "''c''"]
  have "torn_down demo_end ''c'' ended S' \<and> (\<exists>q. cl_pools S' ''pool-a'' = Some q \<and> np_Annotations q ActiveRotation = None)"
    by (simp add: ended_simps demo_live_simps) blast
  with t show ?thesis by blast
qed

end
