(* ===== verification/Orphans.thy ===== *)
theory Orphans
  imports Outcome
begin

text \<open>
  What the startup sweep leaves in a cluster that served it: whatever no anchor names is undone, and what
  an anchor names is left alone.
\<close>

section \<open>Sweeping item by item\<close>

lemma collect_runsE:
  assumes "runs S (collect f (x # xs)) (Inr []) t S'"
  obtains s u T where "runs S (f x) (Inr ()) s T" "runs T (collect f xs) (Inr []) u S'"
proof -
  from assms obtain y s u T where y: "runs S (f x) y s T"
    "runs T (andThen (collect f xs) (\<lambda>es. ret (case y of Inl e \<Rightarrow> e # es | Inr _ \<Rightarrow> es))) (Inr []) u S'"
    by (auto elim!: runs_bindRE)
  from y(2) obtain es v where es: "runs T (collect f xs) (Inr es) v S'" "(case y of Inl e \<Rightarrow> e # es | Inr _ \<Rightarrow> es) = []"
    by (auto elim!: runs_andThenE)
  from es(2) have "y = Inr () \<and> es = []" by (cases y) auto
  with y(1) es(1) that show thesis by blast
qed

text \<open>Pods are deleted or left alone.\<close>

definition pods_deleted :: "(string \<times> string) set \<Rightarrow> Cluster \<Rightarrow> Cluster \<Rightarrow> bool" where
  "pods_deleted N S S' \<longleftrightarrow>
     (\<forall>key. if key \<in> N
        then cl_pods S' key = None \<or>
             (\<exists>p ts. cl_pods S key = Some p \<and> cl_pods S' key = Some (p\<lparr>pod_DeletionTimestamp := Some ts\<rparr>))
        else cl_pods S' key = cl_pods S key)"

lemma pods_deleted_trans:
  assumes "pods_deleted M S T" "pods_deleted N T S'"
  shows "pods_deleted (M \<union> N) S S'"
  unfolding pods_deleted_def
proof (intro allI)
  fix key
  from assms have
    "if key \<in> M then cl_pods T key = None \<or> (\<exists>p ts. cl_pods S key = Some p \<and> cl_pods T key = Some (p\<lparr>pod_DeletionTimestamp := Some ts\<rparr>))
     else cl_pods T key = cl_pods S key"
    "if key \<in> N then cl_pods S' key = None \<or> (\<exists>p ts. cl_pods T key = Some p \<and> cl_pods S' key = Some (p\<lparr>pod_DeletionTimestamp := Some ts\<rparr>))
     else cl_pods S' key = cl_pods T key"
    unfolding pods_deleted_def by blast+
  then show "if key \<in> M \<union> N then cl_pods S' key = None \<or>
      (\<exists>p ts. cl_pods S key = Some p \<and> cl_pods S' key = Some (p\<lparr>pod_DeletionTimestamp := Some ts\<rparr>))
    else cl_pods S' key = cl_pods S key"
    by (cases "key \<in> M"; cases "key \<in> N") auto
qed

definition orphanPod :: "string set \<Rightarrow> Pod \<Rightarrow> bool" where
  "orphanPod anchored p = (aget (pod_Labels p) SurgeFor \<noteq> '''' \<and> aget (pod_Labels p) SurgeFor \<notin> anchored)"

abbreviation podKey :: "Pod \<Rightarrow> string \<times> string" where
  "podKey p \<equiv> (pod_Namespace p, pod_Name p)"

text \<open>The stored object is the one listed, up to its deletion mark.\<close>

definition same_uid :: "Pod \<Rightarrow> Cluster \<Rightarrow> bool" where
  "same_uid p S = (case cl_pods S (podKey p) of None \<Rightarrow> True | Some q \<Rightarrow> pod_UID q = pod_UID p)"

lemma same_uid_deleted: "pods_deleted N S T \<Longrightarrow> same_uid p S \<Longrightarrow> same_uid p T"
  unfolding pods_deleted_def same_uid_def by (drule spec [of _ "podKey p"]) (auto split: if_splits option.splits)

lemma sweepPlaceholder_outcome:
  assumes "runs S (sweepPlaceholder r anchored p) (Inr ()) t S'" "same_uid p S"
  shows "pods_deleted (if orphanPod anchored p then {podKey p} else {}) S S'"
proof (cases "orphanPod anchored p")
  case False
  with assms(1) show ?thesis by (auto simp: sweepPlaceholder_def orphanPod_def Let_def pods_deleted_def)
next
  case True
  with assms(1) obtain u b where "runs S (deleteSelected r p) (Inr b) u S'"
    by (auto simp: sweepPlaceholder_def orphanPod_def Let_def elim!: runs_andThenE)
  then obtain k where k: "result (deleteSelected r p) k = Inr b" "serves S (effects (deleteSelected r p) k) S'"
    by (auto simp: runs_def)
  let ?uid = "if pod_UID p \<noteq> '''' then Some (pod_UID p) else None"
  show ?thesis
  proof (cases "api_DeletePod (rc_Api r) k (podKey p) ?uid")
    case (Inl e)
    with k assms(2) have "S' = S \<and> cl_pods S (podKey p) = None"
      by (auto simp: deleteSelected_def call_defs same_uid_def split: if_splits)
    with True show ?thesis by (simp add: pods_deleted_def)
  next
    case (Inr x)
    with k True show ?thesis
      by (auto simp: deleteSelected_def call_defs pods_deleted_def split: if_splits)
  qed
qed

lemma sweepPlaceholders_each:
  assumes "runs S (collect (sweepPlaceholder r anchored) ps) (Inr []) t S'" "\<And>p. p \<in> set ps \<Longrightarrow> same_uid p S"
  shows "pods_deleted (podKey ` {p \<in> set ps. orphanPod anchored p}) S S'"
  using assms
proof (induction ps arbitrary: S t)
  case Nil
  then show ?case by (simp add: pods_deleted_def)
next
  case (Cons p ps)
  from Cons.prems(1) obtain s u T where T: "runs S (sweepPlaceholder r anchored p) (Inr ()) s T"
    "runs T (collect (sweepPlaceholder r anchored) ps) (Inr []) u S'" by (rule collect_runsE)
  have 1: "pods_deleted (if orphanPod anchored p then {podKey p} else {}) S T"
    using sweepPlaceholder_outcome [OF T(1)] Cons.prems(2) by simp
  have "pods_deleted (podKey ` {p \<in> set ps. orphanPod anchored p}) T S'"
    by (rule Cons.IH [OF T(2)]) (use Cons.prems(2) same_uid_deleted [OF 1] in simp)
  from pods_deleted_trans [OF 1 this] show ?case
    by (rule back_subst [of "\<lambda>N. pods_deleted N S S'"]) auto
qed

section \<open>Nodes\<close>

lemma patchNode_not_found:
  assumes "runs S (patchNode r name (unmark anchored)) (Inl IsNotFound) t S'" "keyed S"
  shows False
proof -
  from assms(1) unmarks.nodeAttempt_idle obtain u where "runs S (nodeAttempt r name (unmark anchored)) (Inl IsNotFound) u S'"
    unfolding patchNode_def by (auto elim: retry_runs_errorE)
  then obtain k where k: "result (nodeAttempt r name (unmark anchored)) k = Inl IsNotFound"
    "serves S (effects (nodeAttempt r name (unmark anchored)) k) S'" by (auto simp: runs_def)
  show False
  proof (cases "api_GetNode (rc_Api r) k name")
    case (Inl e)
    with k show ?thesis by (auto simp: nodeAttempt_def getNode_def orNil_def run_andThen call_defs split: if_splits)
  next
    case (Inr d)
    with k have d: "cl_nodes S name = Some d"
      by (auto simp: nodeAttempt_def getNode_def orNil_def run_andThen call_defs split: if_splits prod.splits)
    with k Inr keyedD(3) [OF assms(2) d] show ?thesis
      by (auto simp: nodeAttempt_def getNode_def orNil_def run_andThen call_defs unmarks.keeps_name
          split: if_splits prod.splits sum.splits dest: arg_cong [of _ _ "\<lambda>x. nd_Name (fst x)"])
  qed
qed

lemma sweepNode_outcome:
  assumes "runs S (sweepNode r anchored d) (Inr ()) t S'" "keyed S"
  shows "unmarks.changed_at anchored (if keepsMarkers anchored d then {} else {nd_Name d}) (cl_nodes S) (cl_nodes S')"
proof (cases "keepsMarkers anchored d")
  case True
  with assms(1) show ?thesis by (simp add: sweepNode_def unmarks.changed_at_none)
next
  case False
  with assms(1) obtain w s u T where T: "runs S (patchNode r (nd_Name d) (unmark anchored)) w s T"
    "runs T (case w of Inl e \<Rightarrow> (if e = IsNotFound then ret () else fail e) | Inr _ \<Rightarrow> ret ()) (Inr ()) u S'"
    by (auto simp: sweepNode_def elim!: runs_bindRE)
  show ?thesis
  proof (cases w)
    case (Inl e)
    with T have "runs S (patchNode r (nd_Name d) (unmark anchored)) (Inl IsNotFound) s T" by (auto split: if_splits)
    from patchNode_not_found [OF this assms(2)] show ?thesis ..
  next
    case (Inr b)
    with T have "runs S (patchNode r (nd_Name d) (unmark anchored)) (Inr b) s T" "S' = T" by simp_all
    with unmarks.patched [of S r "nd_Name d" anchored b s T] assms(2) False show ?thesis by simp
  qed
qed

lemma sweepNodes_each:
  assumes "runs S (collect (sweepNode r anchored) ds) (Inr []) t S'" "keyed S"
  shows "unmarks.changed_at anchored (nd_Name ` {d \<in> set ds. \<not> keepsMarkers anchored d}) (cl_nodes S) (cl_nodes S')"
  using assms
proof (induction ds arbitrary: S t)
  case Nil
  then show ?case by (simp add: unmarks.changed_at_none)
next
  case (Cons d ds)
  from Cons.prems(1) obtain s u T where T: "runs S (sweepNode r anchored d) (Inr ()) s T"
    "runs T (collect (sweepNode r anchored) ds) (Inr []) u S'" by (rule collect_runsE)
  from unmarks.changed_at_trans [OF sweepNode_outcome [OF T(1) Cons.prems(2)] Cons.IH [OF T(2) runs_keyed [OF T(1) Cons.prems(2)]]]
  show ?case
    by (rule back_subst [of "\<lambda>N. unmarks.changed_at anchored N (cl_nodes S) (cl_nodes S')"]) auto
qed

section \<open>Claims\<close>

text \<open>A claim in flight becomes failed; every other claim stays.\<close>

definition orphan_failed :: "annots \<Rightarrow> annots \<Rightarrow> bool" where
  "orphan_failed m m' =
     (\<exists>t. m' = adel (adel (m(State \<mapsto> StateFailed, FailedAt \<mapsto> t)) StartedAt) SurgeClaim)"

definition claims_failed :: "string set \<Rightarrow> Cluster \<Rightarrow> Cluster \<Rightarrow> bool" where
  "claims_failed N S S' \<longleftrightarrow>
     (\<forall>n. case cl_claims S n of None \<Rightarrow> cl_claims S' n = None
        | Some c \<Rightarrow> if n \<in> N \<and> inFlight (nc_Annotations c)
            then \<exists>m v. orphan_failed (nc_Annotations c) m
                   \<and> cl_claims S' n = Some (c\<lparr>nc_Annotations := m, nc_ResourceVersion := v\<rparr>)
            else cl_claims S' n = Some c)"

lemma orphan_failed_settled: "orphan_failed m m' \<Longrightarrow> \<not> inFlight m'"
  by (auto simp: orphan_failed_def inFlight_def)

lemma claims_failed_trans:
  assumes "claims_failed M S T" "claims_failed N T S'"
  shows "claims_failed (M \<union> N) S S'"
  unfolding claims_failed_def
proof (intro allI)
  fix n
  show "case cl_claims S n of None \<Rightarrow> cl_claims S' n = None
        | Some c \<Rightarrow> if n \<in> M \<union> N \<and> inFlight (nc_Annotations c)
            then \<exists>m v. orphan_failed (nc_Annotations c) m
                   \<and> cl_claims S' n = Some (c\<lparr>nc_Annotations := m, nc_ResourceVersion := v\<rparr>)
            else cl_claims S' n = Some c"
  proof (cases "cl_claims S n")
    case None
    with assms show ?thesis unfolding claims_failed_def by (auto dest!: spec [of _ n])
  next
    case (Some c)
    with assms(1) have 1: "if n \<in> M \<and> inFlight (nc_Annotations c)
        then \<exists>m v. orphan_failed (nc_Annotations c) m \<and> cl_claims T n = Some (c\<lparr>nc_Annotations := m, nc_ResourceVersion := v\<rparr>)
        else cl_claims T n = Some c" unfolding claims_failed_def by (auto dest!: spec [of _ n])
    show ?thesis
    proof (cases "n \<in> M \<and> inFlight (nc_Annotations c)")
      case True
      with 1 obtain m v where m: "orphan_failed (nc_Annotations c) m"
        "cl_claims T n = Some (c\<lparr>nc_Annotations := m, nc_ResourceVersion := v\<rparr>)" by auto
      with assms(2) orphan_failed_settled [OF m(1)] have "cl_claims S' n = cl_claims T n"
        unfolding claims_failed_def by (auto dest!: spec [of _ n])
      with True Some m show ?thesis by auto
    next
      case False
      with 1 have "cl_claims T n = Some c" by auto
      with assms(2) False Some show ?thesis unfolding claims_failed_def by (auto dest!: spec [of _ n] split: if_splits)
    qed
  qed
qed

lemma orphanRecord_result:
  assumes "result (orphanRecord r m) j = Inr (x, m')"
  shows "if inFlight m then \<exists>m1. m' = Some m1 \<and> orphan_failed m m1 else m' = None"
  using assms by (auto simp: orphanRecord_def run_andThen orphan_failed_def split: if_splits)

lemma patchOrphan_not_found:
  assumes "runs S (patchClaimIf r name (orphanRecord r)) (Inl IsNotFound) t S'" "keyed S"
  shows False
proof -
  from assms(1) orphan_record.claimAttempt_idle obtain u where "runs S (claimAttempt r name (orphanRecord r)) (Inl IsNotFound) u S'"
    unfolding patchClaimIf_def by (auto elim: retry_runs_errorE)
  then obtain k where k: "result (claimAttempt r name (orphanRecord r)) k = Inl IsNotFound"
    "serves S (effects (claimAttempt r name (orphanRecord r)) k) S'" by (auto simp: runs_def)
  show False
  proof (cases "api_GetClaim (rc_Api r) k name")
    case (Inl e)
    with k show ?thesis by (auto simp: claimAttempt_def getClaim_def orNil_def run_andThen call_defs split: if_splits)
  next
    case (Inr c)
    with k have c: "cl_claims S name = Some c" by (auto simp: orphan_record.claimAttempt_effects)
    with k Inr keyedD(2) [OF assms(2) c] show ?thesis
      by (auto simp: claimAttempt_def getClaim_def orNil_def run_andThen call_defs orphanRecord_def
          split: if_splits sum.splits)
  qed
qed

lemma sweepClaim_outcome:
  assumes "runs S (sweepClaim r anchored c) (Inr ()) t S'" "keyed S"
  shows "claims_failed (if inFlight (nc_Annotations c) \<and> nc_Name c \<notin> anchored then {nc_Name c} else {}) S S'"
proof (cases "inFlight (nc_Annotations c) \<and> nc_Name c \<notin> anchored")
  case False
  with assms(1) show ?thesis by (auto simp: sweepClaim_def claims_failed_def split: option.splits)
next
  case True
  with assms(1) obtain w s u T where T: "runs S (patchClaimIf r (nc_Name c) (orphanRecord r)) w s T"
    "runs T (case w of
             Inl e \<Rightarrow> (if e = IsNotFound then ret () else fail e)
           | Inr (claimWritten _) \<Rightarrow> emit (Failure (aget (nc_Labels c) NodePoolLabelKey) (nc_Name c))
           | Inr _ \<Rightarrow> ret ()) (Inr ()) u S'"
    by (auto simp: sweepClaim_def elim!: runs_bindRE)
  show ?thesis
  proof (cases w)
    case (Inl e)
    with T have "runs S (patchClaimIf r (nc_Name c) (orphanRecord r)) (Inl IsNotFound) s T" by (auto split: if_splits)
    from patchOrphan_not_found [OF this assms(2)] show ?thesis ..
  next
    case (Inr v)
    with T have V: "runs S (patchClaimIf r (nc_Name c) (orphanRecord r)) (Inr v) s T" and S': "S' = T"
      by (auto split: ClaimWrite.splits)
    show ?thesis
    proof (cases "\<exists>x. v = claimWritten x")
      case True
      then obtain x where "v = claimWritten x" ..
      with V have "runs S (patchClaimIf r (nc_Name c) (orphanRecord r)) (Inr (claimWritten x)) s T" by simp
      from orphan_record.claim_written [OF this assms(2)] obtain c0 m v' j where w: "cl_claims S (nc_Name c) = Some c0"
        "result (orphanRecord r (nc_Annotations c0)) j = Inr (x, Some m)"
        "T = S\<lparr>cl_claims := (cl_claims S)(nc_Name c \<mapsto> c0\<lparr>nc_Annotations := m, nc_ResourceVersion := v'\<rparr>)\<rparr>" .
      with orphanRecord_result [OF w(2)] S' \<open>inFlight (nc_Annotations c) \<and> nc_Name c \<notin> anchored\<close> show ?thesis
        by (auto simp: claims_failed_def split: option.splits if_splits)
    next
      case False
      from orphan_record.claim_not_written [OF V] False
      have "T = S" "case cl_claims S (nc_Name c) of None \<Rightarrow> True | Some c0 \<Rightarrow> \<not> inFlight (nc_Annotations c0)"
        by (cases v; fastforce dest: orphanRecord_result split: if_splits)+
      with S' show ?thesis by (auto simp: claims_failed_def split: option.splits if_splits)
    qed
  qed
qed

lemma sweepClaims_each:
  assumes "runs S (collect (sweepClaim r anchored) cs) (Inr []) t S'" "keyed S"
  shows "claims_failed (nc_Name ` {c \<in> set cs. inFlight (nc_Annotations c) \<and> nc_Name c \<notin> anchored}) S S'"
  using assms
proof (induction cs arbitrary: S t)
  case Nil
  then show ?case by (simp add: claims_failed_def split: option.split)
next
  case (Cons c cs)
  from Cons.prems(1) obtain s u T where T: "runs S (sweepClaim r anchored c) (Inr ()) s T"
    "runs T (collect (sweepClaim r anchored) cs) (Inr []) u S'" by (rule collect_runsE)
  from claims_failed_trans [OF sweepClaim_outcome [OF T(1) Cons.prems(2)] Cons.IH [OF T(2) runs_keyed [OF T(1) Cons.prems(2)]]]
  show ?case by (rule back_subst [of "\<lambda>N. claims_failed N S S'"]) auto
qed

section \<open>NodePools\<close>

definition anchor_of :: "NodePool \<Rightarrow> string" where
  "anchor_of p = aget (np_Annotations p) ActiveRotation"

definition orphan_state :: "NodePool \<Rightarrow> bool" where
  "orphan_state p \<longleftrightarrow> anchor_of p = '''' \<and> np_Annotations p ActiveRotationState \<noteq> None"

definition without_state :: "annots \<Rightarrow> annots" where
  "without_state m = adel (adel (adel m ActiveRotationState) DrainingAt) RotationMode"

definition pools_repaired :: "string set \<Rightarrow> Cluster \<Rightarrow> Cluster \<Rightarrow> bool" where
  "pools_repaired N S S' \<longleftrightarrow>
     (\<forall>n. case cl_pools S n of None \<Rightarrow> cl_pools S' n = None
        | Some p \<Rightarrow> if n \<in> N
            then \<exists>v. cl_pools S' n = Some (p\<lparr>np_Annotations := without_state (np_Annotations p), np_ResourceVersion := v\<rparr>)
            else cl_pools S' n = Some p)"

lemma without_state_idem [simp]: "without_state (without_state m) = without_state m"
  by (auto simp: without_state_def fun_eq_iff)

lemma pools_repaired_trans:
  assumes "pools_repaired M S T" "pools_repaired N T S'"
  shows "pools_repaired (M \<union> N) S S'"
  unfolding pools_repaired_def
proof (intro allI)
  fix n
  show "case cl_pools S n of None \<Rightarrow> cl_pools S' n = None
        | Some p \<Rightarrow> if n \<in> M \<union> N
            then \<exists>v. cl_pools S' n = Some (p\<lparr>np_Annotations := without_state (np_Annotations p), np_ResourceVersion := v\<rparr>)
            else cl_pools S' n = Some p"
    using assms unfolding pools_repaired_def
    by (cases "cl_pools S n") (auto dest!: spec [of _ n] split: if_splits, blast)
qed

lemma repair_outcome:
  assumes "runs S (patchPool r p dropOrphanState) (Inr q) t S'" "keyed S"
  shows "pools_repaired {np_Name p} S S'"
proof -
  from assms(1) obtain w u where w: "runs S (patchPoolIf r p (always dropOrphanState)) (Inr (w, (), q)) u S'"
    by (rule patchPool_runsE)
  show ?thesis
  proof (cases w)
    case False
    with w have "runs S (patchPoolIf r p (always dropOrphanState)) (Inr (False, (), q)) u S'" by simp
    from orphan_state.pool_not_written [OF this] show ?thesis by (auto dest: always_result)
  next
    case True
    with w have "runs S (patchPoolIf r p (always dropOrphanState)) (Inr (True, (), q)) u S'" by simp
    from orphan_state.pool_written [OF this assms(2)] obtain p0 m v j where m: "cl_pools S (np_Name p) = Some p0"
      "result (always dropOrphanState (np_Annotations p0)) j = Inr ((), Some m)"
      "q = p0\<lparr>np_Annotations := m, np_ResourceVersion := v\<rparr>" "S' = S\<lparr>cl_pools := (cl_pools S)(np_Name p \<mapsto> q)\<rparr>" .
    from m(2) have "m = without_state (np_Annotations p0)"
      by (auto dest!: always_result simp: dropOrphanState_def without_state_def)
    with m show ?thesis by (auto simp: pools_repaired_def split: option.split)
  qed
qed

lemma anchored_in_outcome:
  assumes "runs S (anchored_in r A ps) (Inr B) t S'" "keyed S"
  shows "B = A \<union> {anchor_of p | p. p \<in> set ps \<and> anchor_of p \<noteq> ''''} \<and> pools_repaired (np_Name ` {p \<in> set ps. orphan_state p}) S S'"
  using assms
proof (induction ps arbitrary: A S t)
  case Nil
  then show ?case by (auto simp: pools_repaired_def split: option.split)
next
  case (Cons p ps)
  consider (anchored) "anchor_of p \<noteq> ''''" | (torn) "orphan_state p" | (free) "anchor_of p = ''''" "\<not> orphan_state p" by blast
  then show ?case
  proof cases
    case anchored
    with Cons.prems have "runs S (anchored_in r (insert (anchor_of p) A) ps) (Inr B) t S'"
      by (simp add: anchor_of_def Let_def)
    from Cons.IH [OF this Cons.prems(2)] anchored
    have "B = A \<union> {anchor_of p' | p'. p' \<in> set (p # ps) \<and> anchor_of p' \<noteq> ''''}"
      "pools_repaired (np_Name ` {p \<in> set ps. orphan_state p}) S S'" by auto
    moreover from anchored have "{p' \<in> set (p # ps). orphan_state p'} = {p \<in> set ps. orphan_state p}"
      by (auto simp: orphan_state_def)
    ultimately show ?thesis by simp
  next
    case torn
    with Cons.prems obtain q s u T where T: "runs S (patchPool r p dropOrphanState) (Inr q) s T"
      "runs T (anchored_in r A ps) (Inr B) u S'"
      by (auto simp: orphan_state_def anchor_of_def Let_def elim!: runs_andThenE)
    from Cons.IH [OF T(2) runs_keyed [OF T(1) Cons.prems(2)]] pools_repaired_trans [OF repair_outcome [OF T(1) Cons.prems(2)]]
    have "B = A \<union> {anchor_of p' | p'. p' \<in> set ps \<and> anchor_of p' \<noteq> ''''}"
      "pools_repaired ({np_Name p} \<union> np_Name ` {p \<in> set ps. orphan_state p}) S S'" by blast+
    moreover from torn have "{p' \<in> set (p # ps). orphan_state p'} = insert p {p \<in> set ps. orphan_state p}" by auto
    moreover from torn have "{anchor_of p' | p'. p' \<in> set (p # ps) \<and> anchor_of p' \<noteq> ''''} = {anchor_of p' | p'. p' \<in> set ps \<and> anchor_of p' \<noteq> ''''}"
      by (auto simp: orphan_state_def)
    ultimately show ?thesis by simp
  next
    case free
    with Cons.prems have "runs S (anchored_in r A ps) (Inr B) t S'"
      by (auto simp: orphan_state_def anchor_of_def Let_def split: if_splits)
    from Cons.IH [OF this Cons.prems(2)]
    have "B = A \<union> {anchor_of p' | p'. p' \<in> set ps \<and> anchor_of p' \<noteq> ''''}"
      "pools_repaired (np_Name ` {p \<in> set ps. orphan_state p}) S S'" by blast+
    moreover from free have "{p' \<in> set (p # ps). orphan_state p'} = {p \<in> set ps. orphan_state p}" by auto
    moreover from free have "{anchor_of p' | p'. p' \<in> set (p # ps) \<and> anchor_of p' \<noteq> ''''} = {anchor_of p' | p'. p' \<in> set ps \<and> anchor_of p' \<noteq> ''''}"
      by auto
    ultimately show ?thesis by simp
  qed
qed

section \<open>The sweep\<close>

definition anchors :: "Cluster \<Rightarrow> string set" where
  "anchors S = anchor_of ` ran (cl_pools S) - {''''}"

text \<open>Nothing but what an anchor in \<open>A\<close> names carries traces of a rotation.\<close>

definition no_orphans :: "string \<Rightarrow> string set \<Rightarrow> Cluster \<Rightarrow> bool" where
  "no_orphans ns A S \<longleftrightarrow>
     (\<forall>p \<in> ran (cl_pools S). \<not> orphan_state p)
     \<and> (\<forall>p \<in> ran (cl_pods S). pod_Namespace p = ns \<and> orphanPod A p \<longrightarrow> pod_DeletionTimestamp p \<noteq> None)
     \<and> (\<forall>d \<in> ran (cl_nodes S). keepsMarkers A d)
     \<and> (\<forall>c \<in> ran (cl_claims S). inFlight (nc_Annotations c) \<longrightarrow> nc_Name c \<in> A)"

text \<open>What was no orphan is as it was.\<close>

definition spared :: "string \<Rightarrow> string set \<Rightarrow> Cluster \<Rightarrow> Cluster \<Rightarrow> bool" where
  "spared ns A S S' \<longleftrightarrow>
     (\<forall>n p. cl_pools S n = Some p \<and> \<not> orphan_state p \<longrightarrow> cl_pools S' n = Some p)
     \<and> (\<forall>key p. cl_pods S key = Some p \<and> \<not> (pod_Namespace p = ns \<and> orphanPod A p) \<longrightarrow> cl_pods S' key = Some p)
     \<and> (\<forall>n d. cl_nodes S n = Some d \<and> keepsMarkers A d \<longrightarrow> cl_nodes S' n = Some d)
     \<and> (\<forall>n c. cl_claims S n = Some c \<and> \<not> (inFlight (nc_Annotations c) \<and> nc_Name c \<notin> A) \<longrightarrow> cl_claims S' n = Some c)"

lemma within_collect [within_intro]: "(\<And>x. within K (f x)) \<Longrightarrow> within K (collect f xs)"
  by (induction xs) (auto intro!: within_intro)

lemma within_sweep:
  "within {KRead, KPool} (anchoredClaims r)" "within {KRead, KDeletePod} (sweepPlaceholders r A)"
  "within {KRead, KNode} (sweepNodes r A)" "within {KRead, KClaim, KNote} (sweepClaims r A)"
proof -
  have "within {KRead, KPool} (anchored_in r B ps)" for B ps
    by (induction ps arbitrary: B) (auto simp: Let_def dropOrphanState_def intro!: within_intro)
  then show "within {KRead, KPool} (anchoredClaims r)" by (auto simp: anchoredClaims_def intro!: within_intro)
qed (auto simp: sweepPlaceholders_def sweepPlaceholder_def deleteSelected_def sweepNodes_def sweepNode_def sweepClaims_def
    sweepClaim_def orphanRecord_def Let_def intro!: within_intro split: sum.splits ClaimWrite.splits)

text \<open>The three lists, and the items they yield.\<close>

lemma sweepPlaceholders_outcome:
  assumes "runs S (sweepPlaceholders r A) (Inr []) t S'" "keyed S"
  shows "pods_deleted (podKey ` {p \<in> ran (cl_pods S). pod_Namespace p = rc_Namespace r \<and> orphanPod A p}) S S'"
proof -
  from assms(1) obtain ps s u T where T: "runs S (callListPods r (Some (rc_Namespace r))) (Inr ps) s T"
    "runs T (collect (sweepPlaceholder r A) ps) (Inr []) u S'"
    unfolding sweepPlaceholders_def by (auto elim!: runs_bindRE split: sum.splits)
  from T(1) have ps: "T = S" "set ps = {p \<in> ran (cl_pods S). pod_Namespace p = rc_Namespace r}"
    by (auto simp: runs_def call_defs)
  have "same_uid p S" if "p \<in> set ps" for p
    using that keyedD(4) [OF assms(2)] unfolding ps ran_def same_uid_def by force
  from sweepPlaceholders_each [OF T(2)] this ps
  have "pods_deleted (podKey ` {p \<in> set ps. orphanPod A p}) S S'" by simp
  then show ?thesis by (rule back_subst [of "\<lambda>N. pods_deleted N S S'"]) (auto simp: ps(2))
qed

lemma sweepNodes_outcome:
  assumes "runs S (sweepNodes r A) (Inr []) t S'" "keyed S"
  shows "unmarks.changed_at A (nd_Name ` {d \<in> ran (cl_nodes S). \<not> keepsMarkers A d}) (cl_nodes S) (cl_nodes S')"
proof -
  from assms(1) obtain ds s u T where T: "runs S (callListNodes r None) (Inr ds) s T"
    "runs T (collect (sweepNode r A) ds) (Inr []) u S'"
    unfolding sweepNodes_def by (auto elim!: runs_bindRE split: sum.splits)
  from T(1) have "T = S" "set ds = ran (cl_nodes S)" by (auto simp: runs_def call_defs selects_def)
  with sweepNodes_each [OF T(2)] assms(2) show ?thesis by simp
qed

lemma sweepClaims_outcome:
  assumes "runs S (sweepClaims r A) (Inr []) t S'" "keyed S"
  shows "claims_failed (nc_Name ` {c \<in> ran (cl_claims S). inFlight (nc_Annotations c) \<and> nc_Name c \<notin> A}) S S'"
proof -
  from assms(1) obtain cs s u T where T: "runs S (callListClaims r None) (Inr cs) s T"
    "runs T (collect (sweepClaim r A) cs) (Inr []) u S'"
    unfolding sweepClaims_def by (auto elim!: runs_bindRE split: sum.splits)
  from T(1) have "T = S" "set cs = ran (cl_claims S)" by (auto simp: runs_def call_defs selects_def)
  with sweepClaims_each [OF T(2)] assms(2) show ?thesis by simp
qed

lemma sweep_phases:
  assumes "runs S (Sweep r) (Inr []) t S'" "keyed S"
  obtains T U V where
    "pools_repaired (np_Name ` {p \<in> ran (cl_pools S). orphan_state p}) S T" "cl_pods T = cl_pods S" "cl_nodes T = cl_nodes S" "cl_claims T = cl_claims S"
    "pods_deleted (podKey ` {p \<in> ran (cl_pods S). pod_Namespace p = rc_Namespace r \<and> orphanPod (anchors S) p}) T U"
    "cl_pools U = cl_pools T" "cl_nodes U = cl_nodes T" "cl_claims U = cl_claims T"
    "unmarks.changed_at (anchors S) (nd_Name ` {d \<in> ran (cl_nodes S). \<not> keepsMarkers (anchors S) d}) (cl_nodes U) (cl_nodes V)"
    "cl_pools V = cl_pools U" "cl_pods V = cl_pods U" "cl_claims V = cl_claims U"
    "claims_failed (nc_Name ` {c \<in> ran (cl_claims S). inFlight (nc_Annotations c) \<and> nc_Name c \<notin> anchors S}) V S'"
    "cl_pools S' = cl_pools V" "cl_pods S' = cl_pods V" "cl_nodes S' = cl_nodes V"
proof -
  from assms(1) obtain A T U V e1 e2 e3 t1 t2 t3 t4 where
    A: "runs S (anchoredClaims r) (Inr A) t1 T" and P: "runs T (sweepPlaceholders r A) (Inr e1) t2 U"
    and N: "runs U (sweepNodes r A) (Inr e2) t3 V" and C: "runs V (sweepClaims r A) (Inr e3) t4 S'" and e: "e1 = []" "e2 = []" "e3 = []"
    unfolding Sweep_def by (auto elim!: runs_andThenE)
  have k: "keyed T" "keyed U" "keyed V"
    using runs_keyed [OF A assms(2)] runs_keyed [OF P] runs_keyed [OF N] by blast+
  have a: "A = anchors S" "pools_repaired (np_Name ` {p \<in> ran (cl_pools S). orphan_state p}) S T"
  proof -
    from A obtain ps s u Q where Q: "runs S (callListPools r) (Inr ps) s Q" "runs Q (anchored_in r {} ps) (Inr A) u T"
      unfolding anchoredClaims_def by (rule runs_andThenE)
    from Q(1) have ps: "Q = S" "set ps = ran (cl_pools S)" by (auto simp: runs_def call_defs)
    from anchored_in_outcome [OF Q(2)] assms(2) ps show "A = anchors S"
      "pools_repaired (np_Name ` {p \<in> ran (cl_pools S). orphan_state p}) S T" by (auto simp: anchors_def)
  qed
  have fA: "cl_pods T = cl_pods S" "cl_nodes T = cl_nodes S" "cl_claims T = cl_claims S"
    by (rule runs_frame [OF A, of "{KRead, KPool}"]; simp add: within_sweep)+
  have fP: "cl_pools U = cl_pools T" "cl_nodes U = cl_nodes T" "cl_claims U = cl_claims T"
    by (rule runs_frame [OF P, of "{KRead, KDeletePod}"]; simp add: within_sweep)+
  have fN: "cl_pools V = cl_pools U" "cl_pods V = cl_pods U" "cl_claims V = cl_claims U"
    by (rule runs_frame [OF N, of "{KRead, KNode}"]; simp add: within_sweep)+
  have fC: "cl_pools S' = cl_pools V" "cl_pods S' = cl_pods V" "cl_nodes S' = cl_nodes V"
    by (rule runs_frame [OF C, of "{KRead, KClaim, KNote}"]; simp add: within_sweep)+
  from sweepPlaceholders_outcome [OF _ k(1), of r A t2 U] sweepNodes_outcome [OF _ k(2), of r A t3 V]
    sweepClaims_outcome [OF _ k(3), of r A t4 S'] P N C e
  have o: "pods_deleted (podKey ` {p \<in> ran (cl_pods T). pod_Namespace p = rc_Namespace r \<and> orphanPod A p}) T U"
    "unmarks.changed_at A (nd_Name ` {d \<in> ran (cl_nodes U). \<not> keepsMarkers A d}) (cl_nodes U) (cl_nodes V)"
    "claims_failed (nc_Name ` {c \<in> ran (cl_claims V). inFlight (nc_Annotations c) \<and> nc_Name c \<notin> A}) V S'" by simp_all
  show thesis
    by (rule that [of T U V]) (use o a fA fP fN fC in simp_all)
qed

text \<open>The items of each phase, by the key they are stored under.\<close>

lemma image_ran_iff:
  assumes "\<And>n x. M n = Some x \<Longrightarrow> f x = n" "M n = Some x"
  shows "n \<in> f ` {x \<in> ran M. P x} \<longleftrightarrow> P x"
proof
  assume "n \<in> f ` {x \<in> ran M. P x}"
  then obtain y m where "f y = n" "M m = Some y" "P y" by (auto simp: ran_def)
  with assms(1) [of m y] assms(2) show "P x" by simp
next
  assume "P x"
  with assms show "n \<in> f ` {x \<in> ran M. P x}" by (force simp: ran_def)
qed

lemma stored_names:
  assumes "keyed S"
  shows "cl_pools S n = Some p \<Longrightarrow> n \<in> np_Name ` {p \<in> ran (cl_pools S). P p} \<longleftrightarrow> P p"
    and "cl_nodes S n = Some d \<Longrightarrow> n \<in> nd_Name ` {d \<in> ran (cl_nodes S). Q d} \<longleftrightarrow> Q d"
    and "cl_claims S n = Some c \<Longrightarrow> n \<in> nc_Name ` {c \<in> ran (cl_claims S). R c} \<longleftrightarrow> R c"
    and "cl_pods S key = Some pd \<Longrightarrow> key \<in> podKey ` {p \<in> ran (cl_pods S). U p} \<longleftrightarrow> U pd"
  by (rule image_ran_iff, erule keyedD [OF assms], assumption)
    (rule image_ran_iff, erule keyedD [OF assms], assumption,
     rule image_ran_iff, erule keyedD [OF assms], assumption,
     rule image_ran_iff, erule keyedD(4) [OF assms, symmetric], assumption)

lemma without_state_settled: "\<not> orphan_state (p\<lparr>np_Annotations := without_state m, np_ResourceVersion := v\<rparr>)"
  by (simp add: orphan_state_def without_state_def)

lemma settled_pointwise:
  fixes M M' :: "'k \<rightharpoonup> 'x"
  assumes "\<And>n. case M n of None \<Rightarrow> M' n = None
      | Some x \<Rightarrow> if Bad x then \<forall>y. M' n = Some y \<longrightarrow> Good y else M' n = Some x"
    and "\<And>x. \<not> Bad x \<Longrightarrow> Good x"
  shows "\<forall>y \<in> ran M'. Good y" "\<forall>n x. M n = Some x \<and> \<not> Bad x \<longrightarrow> M' n = Some x"
proof -
  have "Good y" if "M' n = Some y" for n y
    using assms(1) [of n] assms(2) that by (cases "M n") (auto split: if_splits)
  then show "\<forall>y \<in> ran M'. Good y" by (auto simp: ran_def)
  show "\<forall>n x. M n = Some x \<and> \<not> Bad x \<longrightarrow> M' n = Some x"
  proof (intro allI impI, elim conjE)
    fix n x
    assume "M n = Some x" "\<not> Bad x"
    with assms(1) [of n] show "M' n = Some x" by simp
  qed
qed

lemma pools_repaired_settled:
  assumes "keyed S" "pools_repaired (np_Name ` {p \<in> ran (cl_pools S). orphan_state p}) S T"
  shows "\<forall>p \<in> ran (cl_pools T). \<not> orphan_state p"
    and "\<forall>n p. cl_pools S n = Some p \<and> \<not> orphan_state p \<longrightarrow> cl_pools T n = Some p"
proof -
  have "case cl_pools S n of None \<Rightarrow> cl_pools T n = None
      | Some p \<Rightarrow> if orphan_state p then \<forall>q. cl_pools T n = Some q \<longrightarrow> \<not> orphan_state q else cl_pools T n = Some p" for n
    using assms(2) unfolding pools_repaired_def
    by (cases "cl_pools S n") (auto dest!: spec [of _ n] simp: stored_names [OF assms(1)] without_state_settled split: if_splits)
  from settled_pointwise [where M = "cl_pools S" and M' = "cl_pools T" and Bad = orphan_state
        and Good = "\<lambda>p. \<not> orphan_state p", OF this]
  show "\<forall>p \<in> ran (cl_pools T). \<not> orphan_state p"
    "\<forall>n p. cl_pools S n = Some p \<and> \<not> orphan_state p \<longrightarrow> cl_pools T n = Some p" by blast+
qed

lemma pods_deleted_settled:
  assumes "keyed S" "pods_deleted (podKey ` {p \<in> ran (cl_pods S). U p}) S T" "\<And>p ts. U (p\<lparr>pod_DeletionTimestamp := ts\<rparr>) = U p"
  shows "\<forall>p \<in> ran (cl_pods T). U p \<longrightarrow> pod_DeletionTimestamp p \<noteq> None"
    and "\<forall>key p. cl_pods S key = Some p \<and> \<not> U p \<longrightarrow> cl_pods T key = Some p"
proof -
  have each: "case cl_pods S key of None \<Rightarrow> cl_pods T key = None
      | Some p \<Rightarrow> if U p then \<forall>q. cl_pods T key = Some q \<longrightarrow> U q \<longrightarrow> pod_DeletionTimestamp q \<noteq> None else cl_pods T key = Some p" for key
  proof -
    from assms(2) have "if key \<in> podKey ` {p \<in> ran (cl_pods S). U p}
        then cl_pods T key = None \<or>
             (\<exists>p ts. cl_pods S key = Some p \<and> cl_pods T key = Some (p\<lparr>pod_DeletionTimestamp := Some ts\<rparr>))
        else cl_pods T key = cl_pods S key" unfolding pods_deleted_def by (rule spec)
    then show ?thesis
      by (cases "cl_pods S key") (auto simp: stored_names [OF assms(1)] split: if_splits)
  qed
  show "\<forall>p \<in> ran (cl_pods T). U p \<longrightarrow> pod_DeletionTimestamp p \<noteq> None"
    "\<forall>key p. cl_pods S key = Some p \<and> \<not> U p \<longrightarrow> cl_pods T key = Some p"
    using settled_pointwise [where M = "cl_pods S" and M' = "cl_pods T" and Bad = U
        and Good = "\<lambda>p. U p \<longrightarrow> pod_DeletionTimestamp p \<noteq> None", OF each] by blast+
qed

lemma claims_failed_settled:
  assumes "keyed S" "claims_failed (nc_Name ` {c \<in> ran (cl_claims S). inFlight (nc_Annotations c) \<and> nc_Name c \<notin> A}) S T"
  shows "\<forall>c \<in> ran (cl_claims T). inFlight (nc_Annotations c) \<longrightarrow> nc_Name c \<in> A"
    and "\<forall>n c. cl_claims S n = Some c \<and> \<not> (inFlight (nc_Annotations c) \<and> nc_Name c \<notin> A) \<longrightarrow> cl_claims T n = Some c"
proof -
  have each: "case cl_claims S n of None \<Rightarrow> cl_claims T n = None
      | Some c \<Rightarrow> if inFlight (nc_Annotations c) \<and> nc_Name c \<notin> A
          then \<forall>q. cl_claims T n = Some q \<longrightarrow> inFlight (nc_Annotations q) \<longrightarrow> nc_Name q \<in> A else cl_claims T n = Some c" for n
  proof -
    from assms(2) have "case cl_claims S n of None \<Rightarrow> cl_claims T n = None
        | Some c \<Rightarrow> if n \<in> nc_Name ` {c \<in> ran (cl_claims S). inFlight (nc_Annotations c) \<and> nc_Name c \<notin> A} \<and> inFlight (nc_Annotations c)
            then \<exists>m v. orphan_failed (nc_Annotations c) m
                   \<and> cl_claims T n = Some (c\<lparr>nc_Annotations := m, nc_ResourceVersion := v\<rparr>)
            else cl_claims T n = Some c" unfolding claims_failed_def by (rule spec)
    then show ?thesis
      by (cases "cl_claims S n") (auto simp: stored_names [OF assms(1)] dest: orphan_failed_settled split: if_splits)
  qed
  show "\<forall>c \<in> ran (cl_claims T). inFlight (nc_Annotations c) \<longrightarrow> nc_Name c \<in> A"
    "\<forall>n c. cl_claims S n = Some c \<and> \<not> (inFlight (nc_Annotations c) \<and> nc_Name c \<notin> A) \<longrightarrow> cl_claims T n = Some c"
    using settled_pointwise [where M = "cl_claims S" and M' = "cl_claims T" and Bad = "\<lambda>c. inFlight (nc_Annotations c) \<and> nc_Name c \<notin> A"
        and Good = "\<lambda>c. inFlight (nc_Annotations c) \<longrightarrow> nc_Name c \<in> A", OF each] by blast+
qed

lemma unmarked_settled:
  assumes "keyed S" "unmarks.changed_at A (nd_Name ` {d \<in> ran (cl_nodes S). \<not> keepsMarkers A d}) (cl_nodes S) ns"
  shows "\<forall>d \<in> ran ns. keepsMarkers A d"
    and "\<forall>n d. cl_nodes S n = Some d \<and> keepsMarkers A d \<longrightarrow> ns n = Some d"
proof -
  have each: "case cl_nodes S n of None \<Rightarrow> ns n = None
      | Some d \<Rightarrow> if \<not> keepsMarkers A d then \<forall>q. ns n = Some q \<longrightarrow> keepsMarkers A q else ns n = Some d" for n
    using unmarks.changed_atD [OF assms(2), of n]
    by (cases "cl_nodes S n") (auto simp: stored_names [OF assms(1)] unmark_kept)
  show "\<forall>d \<in> ran ns. keepsMarkers A d" "\<forall>n d. cl_nodes S n = Some d \<and> keepsMarkers A d \<longrightarrow> ns n = Some d"
    using settled_pointwise [where M = "cl_nodes S" and M' = ns and Bad = "\<lambda>d. \<not> keepsMarkers A d"
        and Good = "keepsMarkers A", OF each] by blast+
qed

lemma phase_cong:
  "cl_pods S = cl_pods S1 \<Longrightarrow> cl_pods T = cl_pods T1 \<Longrightarrow> pods_deleted N S T = pods_deleted N S1 T1"
  "cl_pools S = cl_pools S1 \<Longrightarrow> cl_pools T = cl_pools T1 \<Longrightarrow> pools_repaired M S T = pools_repaired M S1 T1"
  "cl_claims S = cl_claims S1 \<Longrightarrow> cl_claims T = cl_claims T1 \<Longrightarrow> claims_failed K S T = claims_failed K S1 T1"
  by (simp_all only: pods_deleted_def pools_repaired_def claims_failed_def)

text \<open>
  C8. The sweep leaves no orphan and spares what lives. Let a cluster serve, without errors, a run of the
  startup sweep. Afterwards no NodePool without an anchor carries a rotation state, every Pod of the
  controller's namespace that is labelled as the placeholder of a claim no anchor names is gone or
  terminating, no node carries a marker of such a claim or an unattributed cordon of the
  controller, and every claim in flight is named by an anchor. Everything else is as it was: an anchored
  NodePool, its placeholder, its marked nodes and its claim are not touched.
\<close>

theorem sweep_leaves_no_orphans:
  assumes "keyed S" "runs S (Sweep r) (Inr []) t S'"
  shows "no_orphans (rc_Namespace r) (anchors S) S' \<and> spared (rc_Namespace r) (anchors S) S S'"
proof -
  from sweep_phases [OF assms(2,1)] obtain T U V where
    T: "pools_repaired (np_Name ` {p \<in> ran (cl_pools S). orphan_state p}) S T" "cl_pods T = cl_pods S" "cl_nodes T = cl_nodes S" "cl_claims T = cl_claims S"
    and U: "pods_deleted (podKey ` {p \<in> ran (cl_pods S). pod_Namespace p = rc_Namespace r \<and> orphanPod (anchors S) p}) T U"
    "cl_pools U = cl_pools T" "cl_nodes U = cl_nodes T" "cl_claims U = cl_claims T"
    and V: "unmarks.changed_at (anchors S) (nd_Name ` {d \<in> ran (cl_nodes S). \<not> keepsMarkers (anchors S) d}) (cl_nodes U) (cl_nodes V)"
    "cl_pools V = cl_pools U" "cl_pods V = cl_pods U" "cl_claims V = cl_claims U"
    and S': "claims_failed (nc_Name ` {c \<in> ran (cl_claims S). inFlight (nc_Annotations c) \<and> nc_Name c \<notin> anchors S}) V S'"
    "cl_pools S' = cl_pools V" "cl_pods S' = cl_pods V" "cl_nodes S' = cl_nodes V" .
  have c: "claims_failed (nc_Name ` {c \<in> ran (cl_claims S). inFlight (nc_Annotations c) \<and> nc_Name c \<notin> anchors S}) S S'"
    using S'(1) phase_cong(3) [of S V S' S'] V(4) U(4) T(4) by simp
  have u: "unmarks.changed_at (anchors S) (nd_Name ` {d \<in> ran (cl_nodes S). \<not> keepsMarkers (anchors S) d}) (cl_nodes S) (cl_nodes S')"
    using V(1) S'(4) U(3) T(3) by simp
  have p: "pods_deleted (podKey ` {p \<in> ran (cl_pods S). pod_Namespace p = rc_Namespace r \<and> orphanPod (anchors S) p}) S S'"
    using U(1) phase_cong(1) [of S T S' U] S'(3) V(3) T(2) by simp
  have q: "pools_repaired (np_Name ` {p \<in> ran (cl_pools S). orphan_state p}) S S'"
    using T(1) phase_cong(2) [of S S S' T] S'(2) V(2) U(2) by simp
  from pools_repaired_settled [OF assms(1) q] pods_deleted_settled [OF assms(1) p] unmarked_settled [OF assms(1) u]
    claims_failed_settled [OF assms(1) c]
  show ?thesis unfolding no_orphans_def spared_def by (simp add: orphanPod_def)
qed


text \<open>A cluster full of what a crashed process left: nothing in it belongs to a running rotation.\<close>

definition littered_pool :: NodePool where
  "littered_pool = (demo_nodepool Map.empty)\<lparr>np_Annotations := [ActiveRotationState \<mapsto> StateDraining, LastFailureAt \<mapsto> ''x'']\<rparr>"

definition littered_pod :: Pod where
  "littered_pod = (demo_pod ''n1'' [])\<lparr>pod_Namespace := ''kube-system'', pod_Labels := [SurgeFor \<mapsto> ''c'']\<rparr>"

definition littered_node :: Node where
  "littered_node = demo_node ''n1'' [SurgeFor \<mapsto> ''c'']"

definition littered_claim :: NodeClaim where
  "littered_claim = demo_nodeclaim ''c'' ''n2'' [State \<mapsto> StatePending, RetryCount \<mapsto> ''1'']"

definition littered :: Cluster where
  "littered = \<lparr>cl_pools = [''pool-a'' \<mapsto> littered_pool], cl_claims = [''c'' \<mapsto> littered_claim],
     cl_nodes = [''n1'' \<mapsto> littered_node], cl_pods = [(''kube-system'', ''p'') \<mapsto> littered_pod]\<rparr>"

definition demo_litter :: Reconciler where
  "demo_litter = demo_reconciler (demo_api\<lparr>api_GetPool := \<lambda>k n. Inr littered_pool, api_GetClaim := \<lambda>k n. Inr littered_claim,
     api_GetNode := \<lambda>k n. Inr littered_node, api_ListPools := \<lambda>k. Inr [littered_pool],
     api_ListClaims := \<lambda>k s. Inr [littered_claim], api_ListNodes := \<lambda>k s. Inr [littered_node],
     api_ListPods := \<lambda>k s. Inr [littered_pod]\<rparr>)"

lemma demo_litter_simps [eval_simps]:
  "rc_Attempts demo_litter = 5" "rc_Namespace demo_litter = ''kube-system''"
  "np_Name littered_pool = ''pool-a''" "np_Annotations littered_pool = [ActiveRotationState \<mapsto> StateDraining, LastFailureAt \<mapsto> ''x'']"
  "pod_Namespace littered_pod = ''kube-system''" "pod_Name littered_pod = ''p''" "pod_UID littered_pod = ''u-p''"
  "pod_Labels littered_pod = [SurgeFor \<mapsto> ''c'']" "pod_DeletionTimestamp littered_pod = None"
  "nd_Name littered_node = ''n1''" "nd_Annotations littered_node = [SurgeFor \<mapsto> ''c'']"
  "nc_Name littered_claim = ''c''" "nc_Annotations littered_claim = [State \<mapsto> StatePending, RetryCount \<mapsto> ''1'']"
  "nc_Labels littered_claim = [NodePoolLabelKey \<mapsto> ''pool'']"
  by (simp_all add: demo_litter_def demo_reconciler_def littered_pool_def littered_pod_def littered_node_def littered_claim_def
      demo_nodepool_def demo_pod_def demo_node_def demo_nodeclaim_def)

lemma demo_litter_api [eval_simps]:
  "api_now (rc_Api demo_litter) k = 1000 * Hour"
  "api_GetPool (rc_Api demo_litter) k n = Inr littered_pool" "api_GetClaim (rc_Api demo_litter) k n = Inr littered_claim"
  "api_GetNode (rc_Api demo_litter) k n = Inr littered_node" "api_ListPools (rc_Api demo_litter) k = Inr [littered_pool]"
  "api_ListClaims (rc_Api demo_litter) k s = Inr [littered_claim]" "api_ListNodes (rc_Api demo_litter) k s = Inr [littered_node]"
  "api_ListPods (rc_Api demo_litter) k ns = Inr [littered_pod]" "api_UpdatePool (rc_Api demo_litter) k p = Inr p"
  "api_UpdateClaim (rc_Api demo_litter) k c = Inr c" "api_UpdateNode (rc_Api demo_litter) k d = Inr d"
  "api_DeletePod (rc_Api demo_litter) k key u = Inr ()"
  by (simp_all add: demo_litter_def demo_reconciler_def demo_api_def)

lemma litter_served: "\<exists>t S'. runs littered (Sweep demo_litter) (Inr []) t S'"
proof -
  have "result (Sweep demo_litter) 0 = Inr []" "\<exists>S'. serves littered (effects (Sweep demo_litter) 0) S'"
    by (simp_all add: Sweep_def run_andThen call_defs anchoredClaims_def patchPool_def patchPoolIf_def retry_5 poolAttempt_def
        always_def dropOrphanState_def sweepPlaceholders_def sweepPlaceholder_def deleteSelected_def sweepNodes_def sweepNode_def
        patchNode_def nodeAttempt_def getNode_def orNil_def keepsMarkers_def unmark_def applyUnfreeze_def applyUncordon_def
        removeAnnotation_def hasAnnotation_def sweepClaims_def sweepClaim_def patchClaimIf_def claimAttempt_def getClaim_def
        orphanRecord_def inFlight_def demo_litter_simps demo_litter_api Let_def aget_def)
      (auto simp: littered_def demo_litter_simps selects_def ex_disj_distrib conj_disj_distribR)
  then show ?thesis unfolding runs_def by blast
qed

theorem sweep_leaves_no_orphans_witness:
  "keyed littered \<and> \<not> no_orphans ''kube-system'' (anchors littered) littered
   \<and> (\<exists>t S'. runs littered (Sweep demo_litter) (Inr []) t S'
        \<and> no_orphans ''kube-system'' {} S' \<and> spared ''kube-system'' {} littered S')"
proof -
  have k: "keyed littered" by (simp add: keyed_def littered_def demo_litter_simps)
  have A: "anchors littered = {}" by (simp add: anchors_def littered_def anchor_of_def demo_litter_simps)
  from litter_served obtain t S' where t: "runs littered (Sweep demo_litter) (Inr []) t S'" by blast
  from sweep_leaves_no_orphans [OF k this] A have "no_orphans ''kube-system'' {} S' \<and> spared ''kube-system'' {} littered S'"
    by (simp add: demo_litter_simps)
  moreover have "\<not> no_orphans ''kube-system'' (anchors littered) littered"
    by (simp add: no_orphans_def orphan_state_def anchor_of_def littered_def demo_litter_simps)
  ultimately show ?thesis using k t by blast
qed

end
