(* ===== verification/Reentry.thy ===== *)
theory Reentry
  imports Outcome
begin

text \<open>
  Termination of the call of \<open>advanceFailed\<close> back into \<open>advance\<close>. The recursion of the
  code has no bound of its own: another writer could move the claim back to failed between the retry
  write and the read that follows it, for ever. The model cuts it off with a fuel argument; here is how
  much fuel is enough. Every re-entry is preceded by an accepted write of the claim, and a cluster
  nobody else writes to admits one.
\<close>

section \<open>Programs that agree on some traces\<close>

definition agree :: "(Effect list \<Rightarrow> bool) \<Rightarrow> 'a M \<Rightarrow> 'a M \<Rightarrow> bool" where
  "agree ok f g \<longleftrightarrow> (\<forall>k. ok (effects f k) \<longrightarrow> g k = f k)"

lemma agree_refl: "agree ok f f"
  by (simp add: agree_def)

lemma agree_bindR_at:
  assumes "\<And>x. agree (\<lambda>u. \<exists>k. result m k = x \<and> ok (effects m k @ u)) (f x) (g x)"
  shows "agree ok (bindR m f) (bindR m g)"
  unfolding agree_def
proof (intro allI impI)
  fix k
  assume "ok (effects (bindR m f) k)"
  then have "ok (effects m k @ effects (f (result m k)) (nextk m k))" by simp
  with assms [of "result m k"] have "g (result m k) (nextk m k) = f (result m k) (nextk m k)"
    unfolding agree_def by blast
  then show "bindR m g k = bindR m f k"
    by (auto simp: bindR_def result_def nextk_def split: prod.splits)
qed

lemma agree_andThen_at:
  assumes "\<And>x. agree (\<lambda>u. \<exists>k. result m k = Inr x \<and> ok (effects m k @ u)) (f x) (g x)"
  shows "agree ok (andThen m f) (andThen m g)"
  unfolding andThen_def by (rule agree_bindR_at) (use assms in \<open>auto simp: agree_refl split: sum.split\<close>)

lemma andThen_at:
  "(\<And>x. result m k = Inr x \<Longrightarrow> f x (nextk m k) = g x (nextk m k)) \<Longrightarrow> andThen m f k = andThen m g k"
  by (auto simp: andThen_def bindR_def result_def nextk_def split: prod.splits sum.splits)

text \<open>Traces of which every rest is one too.\<close>

locale suffix_closed =
  fixes ok :: "Effect list \<Rightarrow> bool"
  assumes suffix: "ok (s @ u) \<Longrightarrow> ok u"
begin

lemma agree_bindR: "(\<And>x. agree ok (f x) (g x)) \<Longrightarrow> agree ok (bindR m f) (bindR m g)"
  by (rule agree_bindR_at) (auto simp: agree_def dest: suffix)

lemma agree_andThen: "(\<And>x. agree ok (f x) (g x)) \<Longrightarrow> agree ok (andThen m f) (andThen m g)"
  by (rule agree_andThen_at) (auto simp: agree_def dest: suffix)

text \<open>The handlers call back after a retry write only.\<close>

lemma agree_advanceFailed:
  assumes "agree (\<lambda>u. \<exists>k. result (patchClaimIf r (nc_Name cand) retryEntry) k = Inr (claimWritten ())
      \<and> ok (effects (patchClaimIf r (nc_Name cand) retryEntry) k @ u)) f g"
  shows "agree ok (advanceFailed r pool res cand fs f) (advanceFailed r pool res cand fs g)"
proof -
  have "agree (\<lambda>u. \<exists>k. result (patchClaimIf r (nc_Name cand) retryEntry) k = Inr w
      \<and> ok (effects (patchClaimIf r (nc_Name cand) retryEntry) k @ u))
      (case w of claimWritten _ \<Rightarrow> f | _ \<Rightarrow> ret (RequeueAfter shortRequeue))
      (case w of claimWritten _ \<Rightarrow> g | _ \<Rightarrow> ret (RequeueAfter shortRequeue))" for w
    using assms by (cases w) (simp_all add: agree_refl)
  then have "agree ok (andThen (patchClaimIf r (nc_Name cand) retryEntry)
        (\<lambda>w. case w of claimWritten _ \<Rightarrow> f | _ \<Rightarrow> ret (RequeueAfter shortRequeue)))
      (andThen (patchClaimIf r (nc_Name cand) retryEntry)
        (\<lambda>w. case w of claimWritten _ \<Rightarrow> g | _ \<Rightarrow> ret (RequeueAfter shortRequeue)))"
    by (rule agree_andThen_at)
  then show ?thesis
    unfolding advanceFailed_def Let_def by (auto intro!: agree_refl agree_andThen)
qed

lemma agree_advance:
  assumes "\<And>name. agree (\<lambda>u. \<exists>k. result (patchClaimIf r name retryEntry) k = Inr (claimWritten ())
      \<and> ok (effects (patchClaimIf r name retryEntry) k @ u))
      (advance m r pool name res fs) (advance n r pool name res fs)"
  shows "agree ok (advance (Suc m) r pool name res fs) (advance (Suc n) r pool name res fs)"
  unfolding advance.simps(2)
  by (rule agree_andThen) (auto simp: Let_def agree_refl split: option.split intro!: agree_advanceFailed assms)

end

section \<open>More fuel does not change a pass\<close>

text \<open>
  Traces on which the fuel \<open>n\<close> is enough for \<open>advance\<close>; then it is enough for the pass.
\<close>

locale enough_fuel = suffix_closed +
  fixes n d :: nat
  assumes advances: "agree ok (advance n r pool name res fs) (advance (n + d) r pool name res fs)"
begin

lemma begins: "agree ok (beginRotation n r pool cand surgeless res fs) (beginRotation (n + d) r pool cand surgeless res fs)"
  unfolding beginRotation_def by (auto intro!: agree_andThen agree_refl advances)

lemma anchors: "agree ok (anchorAndBegin n r pool cand surgeless res fs) (anchorAndBegin (n + d) r pool cand surgeless res fs)"
  unfolding anchorAndBegin_def by (rule agree_bindR) (auto intro: begins agree_refl split: sum.split)

lemma starts: "agree ok (startRotation n r pool res now claims excluded fs) (startRotation (n + d) r pool res now claims excluded fs)"
  unfolding startRotation_def startCandidate_def Let_def
  by (auto intro!: agree_refl agree_andThen anchors split: prod.split option.split)

lemma governed: "agree ok (reconcileNodePool n r pool pol sched) (reconcileNodePool (n + d) r pool pol sched)"
  unfolding reconcileNodePool_def Let_def
  by (intro agree_andThen) (auto intro: starts advances)

lemma passes: "agree ok (Reconcile n r startup name) (Reconcile (n + d) r startup name)"
proof -
  have "agree ok (underGovernance n r pool gov) (underGovernance (n + d) r pool gov)" for pool gov
    unfolding underGovernance_def by (cases gov) (auto intro!: agree_refl agree_andThen governed)
  then show ?thesis
    unfolding Reconcile_def by (intro agree_bindR) (auto intro!: agree_refl agree_andThen split: sum.split)
qed

end

section \<open>Two bounds\<close>

text \<open>Fewer accepted claim writes than fuel.\<close>

definition few_writes :: "nat \<Rightarrow> Effect list \<Rightarrow> bool" where
  "few_writes n t \<longleftrightarrow> length (claim_updates t) < n"

interpretation few: suffix_closed "few_writes n" for n
  by unfold_locales (simp add: few_writes_def)

lemma re_entry_write:
  assumes "result (patchClaimIf r name retryEntry) k = Inr (claimWritten ())"
  shows "1 \<le> length (claim_updates (effects (patchClaimIf r name retryEntry) k))"
proof -
  from retry_entry.patchClaim_written [OF assms] obtain p q where
    "CallUpdateClaim p (Inr q) \<in> set (effects (patchClaimIf r name retryEntry) k)" by fastforce
  then have "claim_updates (effects (patchClaimIf r name retryEntry) k) \<noteq> []"
    by (auto simp: claim_updates_Nil_iff)
  then show ?thesis by (simp add: Suc_le_eq)
qed

lemma advance_few: "agree (few_writes n) (advance n r pool name res fs) (advance (n + d) r pool name res fs)"
proof (induction n arbitrary: name)
  case 0
  then show ?case by (simp add: agree_def few_writes_def)
next
  case (Suc n)
  have "agree (\<lambda>u. \<exists>k. result (patchClaimIf r name retryEntry) k = Inr (claimWritten ())
      \<and> few_writes (Suc n) (effects (patchClaimIf r name retryEntry) k @ u))
      (advance n r pool name res fs) (advance (n + d) r pool name res fs)" for name
    using Suc.IH [of name] re_entry_write [of r name] by (fastforce simp: agree_def few_writes_def)
  from few.agree_advance [OF this] show ?case by simp
qed

interpretation few: enough_fuel "few_writes n" n d for n d
  by unfold_locales (rule advance_few)

text \<open>A cluster nobody else writes to.\<close>

definition served :: "Effect list \<Rightarrow> bool" where
  "served t \<longleftrightarrow> (\<exists>S S'. keyed S \<and> serves S t S')"

interpretation quiescent: suffix_closed served
  by unfold_locales (auto simp: served_def serves_append dest: serves_keyed)

lemma retried_is_pending:
  assumes "result (patchClaimIf r name retryEntry) k = Inr (claimWritten ())"
    and "served (effects (patchClaimIf r name retryEntry) k @ u)"
  obtains T S' c where "keyed T" "serves T u S'" "cl_claims T name = Some c" "aget (nc_Annotations c) State = StatePending"
proof -
  from assms obtain S T S' where S: "keyed S" "runs S (patchClaimIf r name retryEntry) (Inr (claimWritten ()))
      (effects (patchClaimIf r name retryEntry) k) T" "serves T u S'"
    by (auto simp: served_def serves_append runs_def)
  from retry_entry.claim_written [OF S(2,1)] obtain c m v j where "cl_claims S name = Some c"
    "result (retryEntry (nc_Annotations c)) j = Inr ((), Some m)"
    "T = S\<lparr>cl_claims := (cl_claims S)(name \<mapsto> c\<lparr>nc_Annotations := m, nc_ResourceVersion := v\<rparr>)\<rparr>" .
  then have "cl_claims T name = Some (c\<lparr>nc_Annotations := m, nc_ResourceVersion := v\<rparr>)" "aget m State = StatePending"
    by (auto simp: retryEntry_def aget_def split: if_splits)
  with that [of T S' "c\<lparr>nc_Annotations := m, nc_ResourceVersion := v\<rparr>"] S runs_keyed [OF S(2,1)] show thesis by simp
qed

lemma advance_pending_at:
  assumes "serves T (effects (advance (Suc n) r pool name res fs) k) S'"
    and "cl_claims T name = Some c" "aget (nc_Annotations c) State = StatePending"
  shows "advance (Suc m) r pool name res fs k = advance (Suc n) r pool name res fs k"
proof (cases "result (getClaim r name) k")
  case (Inl e)
  then show ?thesis by (auto simp: andThen_def bindR_def result_def split: prod.splits)
next
  case (Inr x)
  with assms(1) obtain T1 where "runs T (getClaim r name) (Inr x) (effects (getClaim r name) k) T1"
    by (auto simp: runs_def andThen_Inr serves_append)
  from runs_getClaim [OF this] assms(2) Inr have got: "result (getClaim r name) k = Inr (Some c)" by simp
  have "advance (Suc i) r pool name res fs k = andThen (getClaim r name) (\<lambda>_. advancePending r pool res c) k" for i
    unfolding advance.simps(2) by (rule andThen_at) (use got assms(3) in \<open>simp add: Let_def\<close>)
  then show ?thesis by (simp only:)
qed

lemma advance_served: "agree served (advance 2 r pool name res fs) (advance (2 + d) r pool name res fs)"
proof -
  have "agree (\<lambda>u. \<exists>k. result (patchClaimIf r name retryEntry) k = Inr (claimWritten ())
      \<and> served (effects (patchClaimIf r name retryEntry) k @ u))
      (advance (Suc 0) r pool name res fs) (advance (Suc (0 + d)) r pool name res fs)" for name
    unfolding agree_def by (metis retried_is_pending advance_pending_at add_0)
  from quiescent.agree_advance [OF this] show ?thesis by (simp add: numeral_2_eq_2)
qed

interpretation quiescent: enough_fuel served 2 d for d
  by unfold_locales (rule advance_served)

text \<open>
  C9. The re-entry terminates. A pass whose trace has fewer accepted claim writes than its fuel is the
  same with any more fuel, whatever the server answered: the recursion of \<open>advanceFailed\<close> into
  \<open>advance\<close> goes no deeper than the claim is written. In a cluster nobody else writes to, fuel two
  is always enough: a claim re-enters once, and is then advanced as pending.
\<close>

theorem pass_terminates:
  "(length (claim_updates (effects (Reconcile n r startup name) k)) < n \<longrightarrow>
      Reconcile (n + d) r startup name k = Reconcile n r startup name k)
   \<and> (keyed S \<and> serves S (effects (Reconcile 2 r startup name) k) S' \<longrightarrow>
      Reconcile (2 + d) r startup name k = Reconcile 2 r startup name k)"
  using few.passes [of n r startup name d] quiescent.passes [of r startup name d]
  unfolding agree_def few_writes_def served_def by blast

theorem pass_terminates_witness:
  "let r = demo_reconciler demo_api
   in claim_updates (effects (Reconcile 1 r (ret ()) ''gone'') 0) = []
      \<and> Reconcile 9 r (ret ()) ''gone'' 0 = Reconcile 1 r (ret ()) ''gone'' 0
      \<and> (\<exists>S'. serves ended (effects (cluster_pass 2 demo_end ''pool-a'') 0) S')
      \<and> cluster_pass 7 demo_end ''pool-a'' 0 = cluster_pass 2 demo_end ''pool-a'' 0"
proof -
  have few: "claim_updates (effects (Reconcile 1 (demo_reconciler demo_api) (ret ()) ''gone'') 0) = []"
    by (simp add: Reconcile_def demo_reconciler_def demo_api_def call_defs run_andThen claim_updates_def List.map_filter_simps)
  obtain S' where "serves ended (effects (cluster_pass 2 demo_end ''pool-a'') 0) S'"
    using ended_pass [of 1] by (auto simp: numeral_2_eq_2)
  with few pass_terminates [where n = 1 and d = 8 and r = "demo_reconciler demo_api" and startup = "ret ()" and name = "''gone''" and k = 0]
    pass_terminates [where n = 0 and d = 5 and r = demo_end and startup = "startupSweep demo_end False" and name = "''pool-a''"
      and k = 0 and S = ended and S' = S']
  show ?thesis unfolding Let_def cluster_pass_def by (auto simp: keyed_ended)
qed

end
