(* ===== verification/Lifecycle.thy ===== *)
theory Lifecycle
  imports Outcome
begin

text \<open>
  An abstract machine of one NodePool, and the refinement: a pass of the controller, with its reads,
  writes, errors and early returns, is one walk of this machine. The machine knows no placeholder, node,
  clock or retry. It says what a rotation is: one claim is taken up, drained, and given up or completed.
\<close>

datatype Lifecycle = Idle | Surging string | Draining string

text \<open>
  What one pass may do, with the number of rotations it announces as completed. The argument \<open>d\<close> says
  of which claims the rotation is done at the start of the pass: the NodePool is governed and the
  cluster has no such claim. A pass takes up at most one claim, and once the NodePool is idle again it
  is finished. A drained rotation that is done ends in a success and in no other way; a rotation that
  is not done may be released, without one.
\<close>

inductive pass_of :: "(string \<Rightarrow> bool) \<Rightarrow> Lifecycle \<Rightarrow> nat \<Rightarrow> Lifecycle \<Rightarrow> bool" for d where
  stay: "pass_of d a 0 a"
| take_up: "c \<noteq> '''' \<Longrightarrow> \<not> d c \<Longrightarrow> pass_of d (Surging c) n b \<Longrightarrow> pass_of d Idle n b"
| drain: "\<not> d c \<Longrightarrow> pass_of d (Draining c) n b \<Longrightarrow> pass_of d (Surging c) n b"
| give_up: "pass_of d (Surging c) 0 Idle"
| release: "\<not> d c \<Longrightarrow> pass_of d (Draining c) 0 Idle"
| succeed: "d c \<Longrightarrow> pass_of d (Draining c) 1 Idle"

text \<open>The number of successes is a function of where the walk starts and ends.\<close>

definition completes :: "(string \<Rightarrow> bool) \<Rightarrow> Lifecycle \<Rightarrow> Lifecycle \<Rightarrow> bool" where
  "completes d a b \<longleftrightarrow> (case a of Draining c \<Rightarrow> d c | _ \<Rightarrow> False) \<and> b = Idle"

lemma pass_of_count: "pass_of d a n b \<Longrightarrow> n = (if completes d a b then 1 else 0)"
  by (induction rule: pass_of.induct) (auto simp: completes_def split: Lifecycle.splits)

text \<open>The abstraction reads two annotations of the NodePool.\<close>

definition lifecycle :: "annots \<Rightarrow> Lifecycle" where
  "lifecycle m =
     (if aget m ActiveRotation = '''' then Idle
      else if aget m ActiveRotationState = StateDraining then Draining (aget m ActiveRotation)
      else Surging (aget m ActiveRotation))"

text \<open>
  A state left behind without an anchor would be taken for the state of the next rotation. No pass
  leaves one; the sweep removes what a crash left.
\<close>

definition settled :: "annots \<Rightarrow> bool" where
  "settled m \<longleftrightarrow> (aget m ActiveRotation = '''' \<longrightarrow> aget m ActiveRotationState \<noteq> StateDraining)"

lemma lifecycle_cleared [simp]: "lifecycle (clearRotationAnchorFields m) = Idle" "settled (clearRotationAnchorFields m)"
  by (simp_all add: lifecycle_def settled_def aget_def StateDraining_def)

lemma lifecycle_anchored: "aget m ActiveRotation \<noteq> '''' \<Longrightarrow> settled m"
  by (simp add: settled_def)

lemma lifecycle_cong:
  "m' ActiveRotation = m ActiveRotation \<Longrightarrow> m' ActiveRotationState = m ActiveRotationState \<Longrightarrow>
   lifecycle m' = lifecycle m \<and> settled m' = settled m"
  by (simp add: lifecycle_def settled_def aget_def)

lemma pass_of_idle: "\<not> d (aget m ActiveRotation) \<Longrightarrow> pass_of d (lifecycle m) 0 Idle"
  by (auto simp: lifecycle_def intro: pass_of.intros)

lemma pass_of_drained:
  assumes "aget m ActiveRotation \<noteq> ''''" "\<not> d (aget m ActiveRotation)"
    and "m' ActiveRotation = m ActiveRotation" "aget m' ActiveRotationState = StateDraining"
  shows "pass_of d (lifecycle m) 0 (lifecycle m') \<and> settled m'"
  using assms by (auto simp: lifecycle_def settled_def aget_def intro: pass_of.intros)

section \<open>Programs that only watch the NodePool\<close>

definition spectator :: "'a M \<Rightarrow> bool" where
  "spectator m \<longleftrightarrow> (\<forall>k. \<forall>e\<in>set (effects m k). kind_of e \<noteq> KPool \<and> \<not> is_success e)"

named_theorems spectator_intro \<open>programs that neither write a NodePool nor announce a success\<close>

lemma spectator_basic [spectator_intro]:
  "spectator (ret x)" "spectator (fail e)" "\<not> is_success (Note ev) \<Longrightarrow> spectator (emit ev)"
  "\<not> is_success (Note ev) \<Longrightarrow> spectator (emitIf b ev)"
  by (auto simp: spectator_def)

lemma spectator_bindR [spectator_intro]: "spectator m \<Longrightarrow> (\<And>x. spectator (f x)) \<Longrightarrow> spectator (bindR m f)"
  by (auto simp: spectator_def)

lemma spectator_andThen [spectator_intro]: "spectator m \<Longrightarrow> (\<And>x. spectator (f x)) \<Longrightarrow> spectator (andThen m f)"
  unfolding andThen_def by (auto intro!: spectator_intro split: sum.splits)

abbreviation bystander_kinds :: "EffectKind set" where
  "bystander_kinds \<equiv> {KRead, KClaim, KNode, KDeleteClaim, KDeletePod, KCreatePod}"

lemma spectator_within: "within bystander_kinds m \<Longrightarrow> spectator m"
  unfolding within_def spectator_def
proof (intro allI ballI)
  fix k e
  assume "\<forall>k. kind_of ` set (effects m k) \<subseteq> bystander_kinds" "e \<in> set (effects m k)"
  then have "kind_of e \<in> bystander_kinds" by blast
  then show "kind_of e \<noteq> KPool \<and> \<not> is_success e" by (cases e) auto
qed

lemmas [spectator_intro] = within_calls(1-10,12-) [THEN spectator_within] within_reads [THEN spectator_within]
  within_patches(3,4) [THEN spectator_within] within_programs [THEN spectator_within]
  within_writes(1-5) [THEN spectator_within] within_lookups [THEN spectator_within] within_exclusions [THEN spectator_within]

lemma spectator_ignoreNotFound [spectator_intro]: "spectator m \<Longrightarrow> spectator (ignoreNotFound m)"
  unfolding ignoreNotFound_def by (auto intro!: spectator_intro split: sum.splits)

lemma spectator_handlers [spectator_intro]:
  "spectator (announce_sizing r cand clamp band)" "spectator (observe pool res now claims views p derived excluded)"
  "spectator (headroomGate r pool res cand)" "spectator (createPlaceholder r pool cand res)"
  by (auto simp: announce_sizing_def observe_def headroomGate_def createPlaceholder_def Let_def
      intro!: spectator_intro split: option.splits sum.splits prod.splits)

lemma spectator_runs:
  assumes "spectator m" "runs S m x t S'"
  shows "cl_pools S' = cl_pools S" "successes t = 0"
proof -
  from assms have e: "\<forall>e\<in>set t. kind_of e \<noteq> KPool \<and> \<not> is_success e" and s: "serves S t S'"
    by (auto simp: spectator_def runs_def)
  from e have "kind_of ` set t \<subseteq> - {KPool}" by auto
  from serves_frame(1) [OF s this] show "cl_pools S' = cl_pools S" by simp
  from e show "successes t = 0" by (auto simp: successes_def)
qed

section \<open>Programs that carry a rotation on\<close>

definition moved :: "(string \<Rightarrow> bool) \<Rightarrow> string \<Rightarrow> annots \<Rightarrow> nat \<Rightarrow> Cluster \<Rightarrow> Cluster \<Rightarrow> bool" where
  "moved d pn m n S S' \<longleftrightarrow>
     (\<exists>q. cl_pools S' = (cl_pools S)(pn \<mapsto> q) \<and> settled (np_Annotations q)
        \<and> pass_of d (lifecycle m) n (lifecycle (np_Annotations q)))"

lemma moved_none: "cl_pools S pn = Some p \<Longrightarrow> settled (np_Annotations p) \<Longrightarrow> cl_pools S' = cl_pools S \<Longrightarrow>
    moved d pn (np_Annotations p) 0 S S'"
  unfolding moved_def by (intro exI [of _ p]) (auto intro: pass_of.stay simp: fun_upd_idem)

text \<open>On a NodePool with an anchor that is done, or one that is not, whatever the run returns.\<close>

definition carries :: "bool \<Rightarrow> string \<Rightarrow> 'a M \<Rightarrow> bool" where
  "carries b pn m \<longleftrightarrow>
     (\<forall>d S x t S' p. keyed S \<longrightarrow> runs S m x t S' \<longrightarrow> cl_pools S pn = Some p \<longrightarrow>
        aget (np_Annotations p) ActiveRotation \<noteq> '''' \<longrightarrow> d (aget (np_Annotations p) ActiveRotation) = b \<longrightarrow>
        moved d pn (np_Annotations p) (successes t) S S')"

lemma carriesD:
  "carries b pn m \<Longrightarrow> keyed S \<Longrightarrow> runs S m x t S' \<Longrightarrow> cl_pools S pn = Some p \<Longrightarrow>
   aget (np_Annotations p) ActiveRotation \<noteq> '''' \<Longrightarrow> d (aget (np_Annotations p) ActiveRotation) = b \<Longrightarrow>
   moved d pn (np_Annotations p) (successes t) S S'"
  unfolding carries_def by blast

lemma carries_stay: "spectator m \<Longrightarrow> carries b pn m"
  unfolding carries_def by (metis spectator_runs moved_none lifecycle_anchored)

lemma carries_lead:
  assumes "spectator m" "\<And>x. carries b pn (f x)"
  shows "carries b pn (bindR m f)"
  unfolding carries_def
proof (intro allI impI)
  fix d S x t S' p
  assume a: "keyed S" "runs S (bindR m f) x t S'" "cl_pools S pn = Some p" "aget (np_Annotations p) ActiveRotation \<noteq> ''''"
    "d (aget (np_Annotations p) ActiveRotation) = b"
  from a(2) obtain y s u T where T: "runs S m y s T" "runs T (f y) x u S'" "t = s @ u" by (rule runs_bindRE)
  from spectator_runs [OF assms(1) T(1)] have same: "cl_pools T = cl_pools S" "successes s = 0" .
  from carriesD [where d = d, OF assms(2) runs_keyed [OF T(1) a(1)] T(2) _ a(4,5)] a(3) same(1)
  have "moved d pn (np_Annotations p) (successes u) T S'" by simp
  with same T(3) show "moved d pn (np_Annotations p) (successes t) S S'" by (simp add: moved_def)
qed

lemma carries_trail:
  assumes "carries b pn m" "\<And>x. spectator (f x)"
  shows "carries b pn (bindR m f)"
  unfolding carries_def
proof (intro allI impI)
  fix d S x t S' p
  assume a: "keyed S" "runs S (bindR m f) x t S'" "cl_pools S pn = Some p" "aget (np_Annotations p) ActiveRotation \<noteq> ''''"
    "d (aget (np_Annotations p) ActiveRotation) = b"
  from a(2) obtain y s u T where T: "runs S m y s T" "runs T (f y) x u S'" "t = s @ u" by (rule runs_bindRE)
  from carriesD [where d = d, OF assms(1) a(1) T(1) a(3-5)] have "moved d pn (np_Annotations p) (successes s) S T" .
  with spectator_runs [OF assms(2) T(2)] T(3) show "moved d pn (np_Annotations p) (successes t) S S'"
    by (simp add: moved_def)
qed

lemma carries_andThen:
  "spectator m \<Longrightarrow> (\<And>x. carries b pn (f x)) \<Longrightarrow> carries b pn (andThen m f)"
  "carries b pn m \<Longrightarrow> (\<And>x. spectator (f x)) \<Longrightarrow> carries b pn (andThen m f)"
  unfolding andThen_def
  by (rule carries_lead, assumption, simp add: carries_stay spectator_basic split: sum.split,
      rule carries_trail, assumption, simp add: spectator_basic split: sum.split)

text \<open>What a conditional write of the NodePool needs of its mutator.\<close>

locale rotation_mutator = quiet_mutator mutate
  for mutate :: "'x mutator" +
  assumes moves: "aget m ActiveRotation \<noteq> '''' \<Longrightarrow> \<not> d (aget m ActiveRotation) \<Longrightarrow>
      result (mutate m) k = Inr (x, Some m') \<Longrightarrow> pass_of d (lifecycle m) 0 (lifecycle m') \<and> settled m'"
begin

lemma carries_patch: "carries False (np_Name pool) (patchPoolIf r pool mutate)"
  unfolding carries_def
proof (intro allI impI)
  fix d S y t S' p
  assume a: "keyed S" "runs S (patchPoolIf r pool mutate) y t S'" "cl_pools S (np_Name pool) = Some p"
    "aget (np_Annotations p) ActiveRotation \<noteq> ''''" "d (aget (np_Annotations p) ActiveRotation) = False"
  have silent: "successes t = 0"
  proof -
    have "within {KRead, KPool} (patchPoolIf r pool mutate)"
      by (rule within_patches) (use quiet in \<open>fastforce simp: within_def clock_only_def\<close>)+
    from within_silent(2) [OF this] a(2) show ?thesis by (auto simp: runs_def)
  qed
  show "moved d (np_Name pool) (np_Annotations p) (successes t) S S'"
  proof (cases "\<exists>x q. y = Inr (True, x, q)")
    case True
    then obtain x q where "y = Inr (True, x, q)" by blast
    with a(2) have "runs S (patchPoolIf r pool mutate) (Inr (True, x, q)) t S'" by simp
    from pool_written [OF this a(1)] obtain p' m v j where w: "cl_pools S (np_Name pool) = Some p'"
      "result (mutate (np_Annotations p')) j = Inr (x, Some m)" "q = p'\<lparr>np_Annotations := m, np_ResourceVersion := v\<rparr>"
      "S' = S\<lparr>cl_pools := (cl_pools S)(np_Name pool \<mapsto> q)\<rparr>" .
    with a(3-5) moves [of "np_Annotations p" d j x m] show ?thesis by (auto simp: moved_def silent)
  next
    case False
    have "S' = S"
    proof (cases y)
      case (Inl e)
      with a(2) pool_failed show ?thesis by blast
    next
      case (Inr z)
      with False obtain x q where "y = Inr (False, x, q)" by (cases z) auto
      with a(2) have "runs S (patchPoolIf r pool mutate) (Inr (False, x, q)) t S'" by simp
      from pool_not_written [OF this] show ?thesis .
    qed
    with a(3,4) show ?thesis by (simp add: silent moved_none lifecycle_anchored)
  qed
qed

end

lemma carries_patchPool:
  assumes "rotation_mutator (always edit)"
  shows "carries False (np_Name pool) (patchPool r pool edit)"
  unfolding patchPool_def
  by (rule carries_andThen(2)) (auto intro: rotation_mutator.carries_patch [OF assms] spectator_basic)

lemma mutator_always:
  assumes "\<And>m k. clock_only (effects (edit m) k)"
    and "\<And>d m k m'. aget m ActiveRotation \<noteq> '''' \<Longrightarrow> \<not> d (aget m ActiveRotation) \<Longrightarrow> result (edit m) k = Inr m' \<Longrightarrow>
      pass_of d (lifecycle m) 0 (lifecycle m') \<and> settled m'"
  shows "rotation_mutator (always edit)"
  by unfold_locales (use assms in \<open>auto simp: always_def run_andThen split: sum.splits\<close>)

lemma drain_always:
  assumes "\<And>m k. clock_only (effects (edit m) k)"
    and "\<And>m k m'. result (edit m) k = Inr m' \<Longrightarrow>
      m' ActiveRotation = m ActiveRotation \<and> aget m' ActiveRotationState = StateDraining"
  shows "rotation_mutator (always edit)"
  by (rule mutator_always) (use assms pass_of_drained in blast)+

interpretation drain_write: rotation_mutator "always (drainingRecord r wait path)" for r wait path
  by (rule drain_always) (auto simp: drainingRecord_def Let_def run_andThen aget_def split: if_splits)

interpretation fallback_write: rotation_mutator "always (fallbackRecord r)" for r
  by (rule drain_always) (auto simp: fallbackRecord_def Let_def run_andThen aget_def split: if_splits)

interpretation draining_write: rotation_mutator "always poolDraining"
  by (rule drain_always) (auto simp: poolDraining_def aget_def)

interpretation failure_write: rotation_mutator "always (poolFailure r)" for r
  by (rule mutator_always) (auto simp: poolFailure_def run_andThen intro: pass_of_idle)

interpretation torn_write: rotation_mutator "always (tornFailure cand)" for cand
  by (rule mutator_always) (auto simp: tornFailure_def intro: pass_of_idle)

interpretation clear_write: rotation_mutator "always (\<lambda>m. ret (clearRotationAnchorFields m))"
  by (rule mutator_always) (auto intro: pass_of_idle)

interpretation release_write: rotation_mutator "releaseIf claim" for claim
  by unfold_locales (auto simp: releaseIf_def intro: pass_of_idle split: if_splits)

lemmas carries_writes =
  carries_patchPool [OF drain_write.rotation_mutator_axioms] carries_patchPool [OF fallback_write.rotation_mutator_axioms]
  carries_patchPool [OF draining_write.rotation_mutator_axioms] carries_patchPool [OF failure_write.rotation_mutator_axioms]
  carries_patchPool [OF torn_write.rotation_mutator_axioms] carries_patchPool [OF clear_write.rotation_mutator_axioms, folded clearAnchor_def]

section \<open>The handlers\<close>

lemma spectator_rollback [spectator_intro]:
  "spectator (let sc = aget (nc_Annotations cand) SurgeClaim in if sc = '''' then inducedClaim r pool cand else ret sc)"
  "spectator (patchClaimIf r name (failureRecord r))" "spectator (patchClaimIf r name (pendingEntry r))"
  "spectator (patchClaimIf r name retryEntry)" "spectator (patchClaim r name claimDraining)"
  by (auto simp: Let_def intro!: spectator_intro within_intro)

named_theorems carries_intro \<open>programs that carry a rotation on\<close>

lemma carries_basic [carries_intro]:
  "carries b pn (ret x)" "carries b pn (fail e)" "spectator m \<Longrightarrow> (\<And>x. carries b pn (f x)) \<Longrightarrow> carries b pn (andThen m f)"
  by (auto intro: carries_stay carries_andThen spectator_basic)

text \<open>A write of the NodePool is the last one of its handler.\<close>

lemmas carries_last_write [carries_intro] = carries_andThen(2) [OF carries_writes(1)] carries_andThen(2) [OF carries_writes(2)]
  carries_andThen(2) [OF carries_writes(3)] carries_andThen(2) [OF carries_writes(4)] carries_andThen(2) [OF carries_writes(5)]
  carries_andThen(2) [OF carries_writes(6)]

lemma carries_ends [carries_intro]:
  "carries False (np_Name pool) (releaseExpired r pool name)" "carries False (np_Name pool) (expireFailed r pool cand)"
  "carries False (np_Name pool) (abortPendingExpiry r pool cand)" "carries False (np_Name pool) (failPending r pool res cand)"
proof -
  show released: "carries False (np_Name pool) (releaseExpired r pool name)" for name
    unfolding releaseExpired_def by (auto intro!: spectator_intro carries_intro)
  show "carries False (np_Name pool) (expireFailed r pool cand)"
    unfolding expireFailed_def by (auto intro!: spectator_intro carries_intro)
  show "carries False (np_Name pool) (abortPendingExpiry r pool cand)"
    unfolding abortPendingExpiry_def by (auto intro!: spectator_intro carries_intro released)
  show "carries False (np_Name pool) (failPending r pool res cand)"
    unfolding failPending_def afterFailure_def
    by (auto simp: Let_def intro!: spectator_intro carries_intro split: ClaimWrite.split prod.split)
qed

lemma carries_steps [carries_intro]:
  "carries False (np_Name pool) (startDrain r pool cand host startedAt)" "carries False (np_Name pool) (startForcefulFallback r pool cand)"
  by (auto simp: startDrain_def startForcefulFallback_def Let_def intro!: spectator_intro carries_intro)

lemma carries_advanceDraining [carries_intro]: "carries False (np_Name pool) (advanceDraining r pool cand)"
  unfolding advanceDraining_def
  by (rule carries_andThen(2)) (auto intro!: spectator_intro carries_intro carries_writes)

lemma carries_advancePending [carries_intro]: "carries False (np_Name pool) (advancePending r pool res cand)"
  unfolding advancePending_def pursueSurge_def
  by (auto simp: Let_def intro!: spectator_intro carries_intro split: option.split ClaimWrite.split)

text \<open>The completion, whose announcement says what the write found.\<close>

lemma completion_moves:
  assumes "runs S (patchPoolIf r pool (completion r name)) (Inr (w, c, q)) t S'" "keyed S"
    and "cl_pools S (np_Name pool) = Some p" "aget (np_Annotations p) ActiveRotation \<noteq> ''''"
    and "d (aget (np_Annotations p) ActiveRotation)"
  shows "moved d (np_Name pool) (np_Annotations p) (if cp_released c \<and> cp_rotated c then 1 else 0) S S'"
proof (cases w)
  case True
  with assms(1) have "runs S (patchPoolIf r pool (completion r name)) (Inr (True, c, q)) t S'" by simp
  from completion.pool_written [OF this assms(2)] obtain p' m v j where "cl_pools S (np_Name pool) = Some p'"
    "result (completion r name (np_Annotations p')) j = Inr (c, Some m)" "q = p'\<lparr>np_Annotations := m, np_ResourceVersion := v\<rparr>"
    "S' = S\<lparr>cl_pools := (cl_pools S)(np_Name pool \<mapsto> q)\<rparr>" .
  with assms(3) have w: "result (completion r name (np_Annotations p)) j = Inr (c, Some m)"
    "q = p\<lparr>np_Annotations := m, np_ResourceVersion := v\<rparr>" "S' = S\<lparr>cl_pools := (cl_pools S)(np_Name pool \<mapsto> q)\<rparr>"
    by simp_all
  then have "lifecycle m = Idle" "settled m" "cp_released c"
    "cp_rotated c \<longleftrightarrow> aget (np_Annotations p) ActiveRotationState = StateDraining"
    by (auto simp: completion_def run_andThen not_released_def split: if_splits option.splits)
  with w assms(4,5) show ?thesis unfolding moved_def lifecycle_def
    by (intro exI [of _ q]) (auto intro: pass_of.give_up pass_of.succeed [simplified])
next
  case False
  with assms(1) have "runs S (patchPoolIf r pool (completion r name)) (Inr (False, c, q)) t S'" by simp
  from completion.pool_not_written [OF this] obtain j where
    "result (completion r name (np_Annotations q)) j = Inr (c, None)" "S' = S" .
  then have "\<not> cp_released c" by (auto simp: completion_def run_andThen not_released_def split: if_splits option.splits)
  with \<open>S' = S\<close> assms(3,4) show ?thesis by (simp add: moved_none lifecycle_anchored)
qed

lemma silent_completion: "runs S (patchPoolIf r pool (completion r name)) y t S' \<Longrightarrow> successes t = 0"
  using within_silent(2) [of "{KRead, KPool}" "patchPoolIf r pool (completion r name)"]
  by (auto simp: runs_def within_patches within_mutators)

lemma successes_note [simp]: "successes [] = 0" "successes (e # t) = (if is_success e then Suc (successes t) else successes t)"
  by (simp_all add: successes_def)

lemma completeOrAbort_tail:
  assumes "runs S (if \<not> cp_released c then ret (RequeueAfter longRequeue)
       else if \<not> cp_rotated c then
         andThen (emit (Expired (np_Name q) claim)) (\<lambda>_. ret (RequeueAfter longRequeue))
       else
         andThen (emit (Success (np_Name q))) (\<lambda>_.
         andThen (case cp_drain c of
                    Some d \<Rightarrow> emit (ObserveDuration (np_Name q) PhaseDrain d) | None \<Rightarrow> ret ()) (\<lambda>_.
         andThen (emitIf (rc_Events r) (EventRotationCompleted (np_Name q) claim (cp_surgePath c))) (\<lambda>_.
         ret (RequeueAfter longRequeue))))) y t S'"
  shows "S' = S \<and> successes t = (if cp_released c \<and> cp_rotated c then 1 else 0)"
  using assms by (auto simp: runs_def run_andThen split: if_splits option.splits)

lemma carries_completeOrAbort: "carries True (np_Name pool) (completeOrAbort r pool name)"
proof -
  have "carries True (np_Name pool) (andThen (patchPoolIf r pool (completion r name)) (\<lambda>(_, c, q).
       if \<not> cp_released c then ret (RequeueAfter longRequeue)
       else if \<not> cp_rotated c then
         andThen (emit (Expired (np_Name q) name)) (\<lambda>_. ret (RequeueAfter longRequeue))
       else
         andThen (emit (Success (np_Name q))) (\<lambda>_.
         andThen (case cp_drain c of
                    Some d \<Rightarrow> emit (ObserveDuration (np_Name q) PhaseDrain d) | None \<Rightarrow> ret ()) (\<lambda>_.
         andThen (emitIf (rc_Events r) (EventRotationCompleted (np_Name q) name (cp_surgePath c))) (\<lambda>_.
         ret (RequeueAfter longRequeue))))))" (is "carries _ _ ?m")
    unfolding carries_def
  proof (intro allI impI)
    fix d S y t S' p
    assume a: "keyed S" "runs S ?m y t S'" "cl_pools S (np_Name pool) = Some p" "aget (np_Annotations p) ActiveRotation \<noteq> ''''"
      "d (aget (np_Annotations p) ActiveRotation) = True"
    from a(2) show "moved d (np_Name pool) (np_Annotations p) (successes t) S S'"
    proof (cases rule: runs_andThen_cases)
      case (failed e)
      with completion.pool_failed silent_completion a(3,4) show ?thesis by (metis moved_none lifecycle_anchored)
    next
      case (continued x s u T)
      obtain w c q where x: "x = (w, c, q)" by (cases x)
      from continued(2) completeOrAbort_tail [of T c q name r y u S'] have
        "S' = T \<and> successes u = (if cp_released c \<and> cp_rotated c then 1 else 0)" unfolding x by simp
      with completion_moves [OF continued(1) [unfolded x] a(1,3,4)] a(5) silent_completion [OF continued(1)] continued(3)
      show ?thesis by simp
    qed
  qed
  then show ?thesis unfolding completeOrAbort_def by (auto intro!: spectator_intro carries_intro)
qed

text \<open>
  A pass that found the claim does not lose it before it is done with the claim's state: the call back
  into \<open>advance\<close> finds it again.
\<close>

definition holds :: "string \<Rightarrow> string \<Rightarrow> 'a M \<Rightarrow> bool" where
  "holds pn name m \<longleftrightarrow>
     (\<forall>d S x t S' p. keyed S \<longrightarrow> runs S m x t S' \<longrightarrow> cl_pools S pn = Some p \<longrightarrow> cl_claims S name \<noteq> None \<longrightarrow>
        aget (np_Annotations p) ActiveRotation \<noteq> '''' \<longrightarrow> \<not> d (aget (np_Annotations p) ActiveRotation) \<longrightarrow>
        moved d pn (np_Annotations p) (successes t) S S')"

lemma holds_carries: "carries False pn m \<Longrightarrow> holds pn name m"
  unfolding holds_def carries_def by blast

lemma claim_kept:
  assumes "serves S t S'" "kind_of ` set t \<subseteq> {KRead, KClaim, KNote}" "cl_claims S n \<noteq> None"
  shows "cl_claims S' n \<noteq> None"
  using assms
proof (induction t arbitrary: S)
  case (Cons e t)
  from Cons.prems(1) obtain T where T: "serves1 S e T" "serves T t S'" by auto
  have "cl_claims T n \<noteq> None"
    using T(1) Cons.prems(2,3) by (cases e) (auto split: sum.splits)
  with Cons.IH [OF T(2)] Cons.prems(2) show ?case by simp
qed simp

lemma holds_lead:
  assumes m: "spectator m" "within {KRead, KClaim, KNote} m" and f: "\<And>x. holds pn name (f x)"
  shows "holds pn name (andThen m f)"
  unfolding holds_def
proof (intro allI impI)
  fix d S x t S' p
  assume a: "keyed S" "runs S (andThen m f) x t S'" "cl_pools S pn = Some p" "cl_claims S name \<noteq> None"
    "aget (np_Annotations p) ActiveRotation \<noteq> ''''" "\<not> d (aget (np_Annotations p) ActiveRotation)"
  from a(2) show "moved d pn (np_Annotations p) (successes t) S S'"
  proof (cases rule: runs_andThen_cases)
    case (failed e)
    with carriesD [where d = d, OF carries_stay [OF m(1)] a(1) _ a(3,5)] a(6) show ?thesis by simp
  next
    case (continued y s u T)
    from spectator_runs [OF m(1) continued(1)] have same: "cl_pools T = cl_pools S" "successes s = 0" .
    have "cl_claims T name \<noteq> None"
      using claim_kept [of S s T name] continued(1) m(2) a(4) by (auto simp: runs_def within_def)
    with f [unfolded holds_def] continued(2) a(3,5,6) same(1) runs_keyed [OF continued(1) a(1)]
    have "moved d pn (np_Annotations p) (successes u) T S'" by metis
    with same continued(3) show ?thesis by (simp add: moved_def)
  qed
qed

lemma holds_advanceFailed:
  assumes "holds (np_Name pool) name again"
  shows "holds (np_Name pool) name (advanceFailed r pool res cand fs again)"
proof -
  have "carries False (np_Name pool) (andThen (patchPool r pool (tornFailure cand)) (\<lambda>_. ret (RequeueAfter longRequeue)))"
    by (intro carries_intro) (auto intro: spectator_intro)
  note torn = holds_carries [OF this]
  show ?thesis unfolding advanceFailed_def Let_def
    by (auto intro!: holds_lead spectator_intro within_intro torn assms holds_carries [OF carries_ends(2)]
        holds_carries [OF carries_basic(1)] split: ClaimWrite.split prod.split)
qed

lemma got_claim:
  assumes "runs S (andThen (getClaim r name) f) x t S'" "keyed S"
  obtains (failed) e where "x = Inl e" "S' = S" "successes t = 0"
  | (gone) u where "cl_claims S name = None" "runs S (f None) x u S'" "successes t = successes u"
  | (found) u c where "cl_claims S name = Some c" "nc_Name c = name" "runs S (f (Some c)) x u S'" "successes t = successes u"
  using assms(1)
proof (cases rule: runs_andThen_cases)
  case (failed e)
  moreover have "S' = S" "successes t = 0"
    using runs_reads [OF failed(2)] spectator_runs(2) [OF _ failed(2)] by (auto intro!: within_intro spectator_intro)
  ultimately show thesis using that(1) by blast
next
  case (continued y s u T)
  have s: "successes s = 0" using spectator_runs(2) [OF _ continued(1)] by (auto intro!: spectator_intro)
  from runs_getClaim [OF continued(1)] have "T = S" "cl_claims S name = y" by auto
  with continued s assms(2) that(2,3) show thesis
    by (cases y) (auto dest: keyedD(2))
qed

lemma holds_advance: "holds (np_Name pool) name (advance n r pool name res fs)"
proof (induction n arbitrary: name)
  case 0
  show ?case by (simp add: holds_carries carries_basic)
next
  case (Suc n)
  show ?case unfolding holds_def
  proof (intro allI impI)
    fix d S x t S' p
    assume a: "keyed S" "runs S (advance (Suc n) r pool name res fs) x t S'" "cl_pools S (np_Name pool) = Some p"
      "cl_claims S name \<noteq> None" "aget (np_Annotations p) ActiveRotation \<noteq> ''''"
      "\<not> d (aget (np_Annotations p) ActiveRotation)"
    from a(2) [unfolded advance.simps] a(1) show "moved d (np_Name pool) (np_Annotations p) (successes t) S S'"
    proof (cases rule: got_claim)
      case (failed e)
      with a(3,5) show ?thesis by (simp add: moved_none lifecycle_anchored)
    next
      case (gone u)
      with a(4) show ?thesis by simp
    next
      case (found u c)
      have "holds (np_Name pool) name (let st = aget (nc_Annotations c) State
          in if st = '''' \<or> st = StatePending then advancePending r pool res c
             else if st = StateDraining then advanceDraining r pool c
             else if st = StateFailed then
               advanceFailed r pool res c fs (advance n r pool (nc_Name c) res fs)
             else if st = StateExpired then advanceExpired r pool c
             else ret (RequeueAfter longRequeue))"
        using holds_advanceFailed [OF Suc] found(2)
        by (auto simp: Let_def advanceExpired_def intro!: holds_carries carries_intro spectator_intro)
      with found(3,4) a show ?thesis unfolding holds_def by simp
    qed
  qed
qed

text \<open>The claims that are done when the cluster is \<open>S\<close>, in a governed pass or in another.\<close>

definition done_in :: "bool \<Rightarrow> Cluster \<Rightarrow> string \<Rightarrow> bool" where
  "done_in g S c \<longleftrightarrow> g \<and> cl_claims S c = None"

lemma advance_moves:
  assumes "keyed S" "runs S (advance n r pool name res fs) x t S'" "cl_pools S (np_Name pool) = Some p"
    and "aget (np_Annotations p) ActiveRotation = name" "name \<noteq> ''''"
  shows "moved (done_in True S) (np_Name pool) (np_Annotations p) (successes t) S S'"
proof (cases "cl_claims S name")
  case (Some c)
  with assms holds_advance [of pool name n r res fs, unfolded holds_def] show ?thesis by (simp add: done_in_def)
next
  case None
  show ?thesis
  proof (cases n)
    case 0
    with assms show ?thesis by (simp add: moved_none lifecycle_anchored)
  next
    case (Suc n')
    from assms(2) [unfolded Suc advance.simps] assms(1) show ?thesis
    proof (cases rule: got_claim)
      case (failed e)
      with assms show ?thesis by (simp add: moved_none lifecycle_anchored)
    next
      case (gone u)
      with carriesD [where d = "done_in True S", OF carries_completeOrAbort assms(1) _ assms(3)] assms(4,5) show ?thesis by (simp add: done_in_def)
    next
      case (found u c)
      with None show ?thesis by simp
    qed
  qed
qed

lemma carries_reap_write: "carries False (np_Name pool) (andThen (clearAnchorIf r pool claim) (\<lambda>reaped.
    if \<not> reaped then ret () else emitIf b (EventGovernanceLost (np_Name pool) claim)))"
  unfolding clearAnchorIf_def
  by (intro carries_andThen(2) release_write.carries_patch) (auto intro!: spectator_intro split: prod.split)

section \<open>A pass walks the machine\<close>

text \<open>From a cluster in which \<open>p\<close> is stored, settled or not idle, and no claim has an empty name.\<close>

definition stage :: "NodePool \<Rightarrow> Cluster \<Rightarrow> bool" where
  "stage p S \<longleftrightarrow> keyed S \<and> cl_claims S '''' = None \<and> cl_pools S (np_Name p) = Some p \<and> settled (np_Annotations p)"

definition walks :: "bool \<Rightarrow> NodePool \<Rightarrow> 'a M \<Rightarrow> bool" where
  "walks g p m \<longleftrightarrow>
     (\<forall>S x t S'. stage p S \<longrightarrow> runs S m x t S' \<longrightarrow>
        moved (done_in g S) (np_Name p) (np_Annotations p) (successes t) S S')"

lemma walks_stay: "spectator m \<Longrightarrow> walks g p m"
  unfolding walks_def stage_def by (metis spectator_runs moved_none)

text \<open>In a pass that is not governed no claim is done.\<close>

lemma walks_carries:
  "carries False (np_Name p) m \<Longrightarrow> aget (np_Annotations p) ActiveRotation \<noteq> '''' \<Longrightarrow> walks False p m"
  unfolding walks_def stage_def carries_def by (simp add: done_in_def)

lemma walks_advance:
  "aget (np_Annotations p) ActiveRotation \<noteq> '''' \<Longrightarrow>
   walks True p (advance n r p (aget (np_Annotations p) ActiveRotation) res fs)"
  unfolding walks_def stage_def using advance_moves by blast

text \<open>After reads and announcements the cluster is the same, and every listed claim has a name.\<close>

definition looks :: "'a M \<Rightarrow> bool" where
  "looks m \<longleftrightarrow> spectator m \<and> within {KRead, KNote} m"

lemma walks_look:
  assumes "looks m" "\<And>x S s. runs S m (Inr x) s S \<Longrightarrow> stage p S \<Longrightarrow> walks g p (f x)"
  shows "walks g p (andThen m f)"
  unfolding walks_def
proof (intro allI impI)
  fix S y t S'
  assume a: "stage p S" "runs S (andThen m f) y t S'"
  from assms(1) have m: "spectator m" "within {KRead, KNote} m" by (simp_all add: looks_def)
  from a(2) show "moved (done_in g S) (np_Name p) (np_Annotations p) (successes t) S S'"
  proof (cases rule: runs_andThen_cases)
    case (failed e)
    with walks_stay [OF m(1)] a(1) show ?thesis unfolding walks_def by blast
  next
    case (continued x s u T)
    from runs_reads [OF continued(1) m(2)] have T: "T = S" .
    with continued(1) assms(2) a(1) have "walks g p (f x)" by blast
    with continued(2) a(1) T have "moved (done_in g S) (np_Name p) (np_Annotations p) (successes u) S S'" unfolding walks_def by blast
    with continued(3) spectator_runs(2) [OF m(1) continued(1)] show ?thesis by simp
  qed
qed

named_theorems looks_intro \<open>reads and announcements\<close>

lemma looks_emit [looks_intro]:
  "\<not> is_success (Note ev) \<Longrightarrow> looks (emit ev)" "\<not> is_success (Note ev) \<Longrightarrow> looks (emitIf b ev)" "looks (ret x)"
  by (auto simp: looks_def intro!: spectator_intro within_intro)

lemma looks_reads [looks_intro]:
  "looks (clock r)" "looks (callGetPool r n)" "looks (poolClaims r pool)" "looks (excludedClaims r pool claims)"
  "looks (observe pool res now claims views p derived excluded)" "looks (governingPolicy r pool)"
  "looks (headroomGate r pool res cand)"
  by (auto simp: looks_def headroomGate_def intro!: spectator_intro within_intro split: prod.split)

lemma anchor_run:
  assumes "runs S (anchorRotation r p name) y s T" "stage p S"
  shows "(\<exists>e. y = Inl e) \<and> T = S \<or> (\<exists>v q. y = Inr q \<and> q = p\<lparr>np_Annotations := (np_Annotations p)(ActiveRotation \<mapsto> name), np_ResourceVersion := v\<rparr>
    \<and> T = S\<lparr>cl_pools := (cl_pools S)(np_Name p \<mapsto> q)\<rparr>)" "successes s = 0"
  using assms by (auto simp: runs_def anchorRotation_def call_defs split: sum.splits)

text \<open>The start writes the anchor of a claim the cluster has, and the rotation of that claim goes on from there.\<close>

lemma begin_moves:
  assumes "keyed S" "runs S (beginRotation n r q cand surgeless res fs) x t S'" "cl_pools S (np_Name q) = Some q"
    and "aget (np_Annotations q) ActiveRotation = nc_Name cand" "nc_Name cand \<noteq> ''''" "cl_claims S (nc_Name cand) \<noteq> None"
  shows "moved (done_in True S) (np_Name q) (np_Annotations q) (successes t) S S'"
proof -
  have "holds (np_Name q) (nc_Name cand) (beginRotation n r q cand surgeless res fs)"
    unfolding beginRotation_def
    by (auto intro!: holds_lead spectator_intro within_intro holds_advance holds_carries [OF carries_basic(1)]
        holds_carries [OF carries_steps(2)])
  with assms show ?thesis unfolding holds_def by (simp add: done_in_def)
qed

lemma anchor_moves:
  assumes idle: "aget (np_Annotations p) ActiveRotation = ''''" and cand: "nc_Name cand \<noteq> ''''" "cl_claims S (nc_Name cand) \<noteq> None"
    and a: "stage p S" "runs S (anchorAndBegin n r p cand surgeless res fs) y t S'"
  shows "moved (done_in True S) (np_Name p) (np_Annotations p) (successes t) S S'"
proof -
  from a(2) obtain x s u T where T: "runs S (anchorRotation r p (nc_Name cand)) x s T"
    "runs T (case x of Inl e \<Rightarrow> (if e = IsConflict then ret (RequeueAfter longRequeue) else fail e)
       | Inr pool \<Rightarrow> beginRotation n r pool cand surgeless res fs) y u S'" "t = s @ u"
    unfolding anchorAndBegin_def by (rule runs_bindRE)
  note s = anchor_run [OF T(1) a(1)]
  show ?thesis
  proof (cases x)
    case (Inl e)
    with T(2) have "S' = T \<and> successes u = 0" by (auto split: if_splits)
    with s Inl T(3) a(1) show ?thesis unfolding stage_def by (auto intro: moved_none)
  next
    case (Inr q)
    with s(1) obtain v where q: "q = p\<lparr>np_Annotations := (np_Annotations p)(ActiveRotation \<mapsto> nc_Name cand), np_ResourceVersion := v\<rparr>"
      "T = S\<lparr>cl_pools := (cl_pools S)(np_Name p \<mapsto> q)\<rparr>" by auto
    have k: "keyed T" using runs_keyed [OF T(1)] a(1) by (simp add: stage_def)
    have st: "aget (np_Annotations q) ActiveRotation = nc_Name cand" "np_Name q = np_Name p"
      "aget (np_Annotations q) ActiveRotationState = aget (np_Annotations p) ActiveRotationState"
      using q(1) by (simp_all add: aget_def)
    from a(1) idle st(1,3) cand(1) have l: "lifecycle (np_Annotations q) = Surging (nc_Name cand)" "lifecycle (np_Annotations p) = Idle"
      by (auto simp: stage_def settled_def lifecycle_def)
    have same: "done_in True T = done_in True S" "cl_claims T = cl_claims S" using q(2) by (simp_all add: fun_eq_iff done_in_def)
    from T(2) Inr have "runs T (beginRotation n r q cand surgeless res fs) y u S'" by simp
    from begin_moves [OF k this _ st(1) cand(1)] cand(2) q(2) st(2) same
    have "moved (done_in True S) (np_Name p) (np_Annotations q) (successes u) T S'" by simp
    moreover have "\<not> done_in True S (nc_Name cand)" using cand(2) by (simp add: done_in_def)
    ultimately show ?thesis using l s(2) T(3) q(2) cand(1) unfolding moved_def
      by (auto simp del: fun_upd_apply intro: pass_of.take_up)
  qed
qed

text \<open>The reads before the start leave the cluster as it is, so what they listed is still there.\<close>

definition starts_from :: "NodePool \<Rightarrow> NodeClaim list \<Rightarrow> Cluster \<Rightarrow> bool" where
  "starts_from p claims S \<longleftrightarrow> stage p S \<and> (\<forall>c\<in>set claims. nc_Name c \<noteq> '''' \<and> cl_claims S (nc_Name c) \<noteq> None)"

definition sets_out :: "NodePool \<Rightarrow> NodeClaim list \<Rightarrow> 'a M \<Rightarrow> bool" where
  "sets_out p claims m \<longleftrightarrow>
     (\<forall>S x t S'. starts_from p claims S \<longrightarrow> runs S m x t S' \<longrightarrow>
        moved (done_in True S) (np_Name p) (np_Annotations p) (successes t) S S')"

lemma sets_out_look:
  assumes "looks m" "\<And>x. sets_out p claims (f x)"
  shows "sets_out p claims (andThen m f)"
  unfolding sets_out_def
proof (intro allI impI)
  fix S y t S'
  assume a: "starts_from p claims S" "runs S (andThen m f) y t S'"
  have "sets_out p claims (f x)" for x by (rule assms(2))
  from assms(1) have m: "spectator m" "within {KRead, KNote} m" by (simp_all add: looks_def)
  from a(2) show "moved (done_in True S) (np_Name p) (np_Annotations p) (successes t) S S'"
  proof (cases rule: runs_andThen_cases)
    case (failed e)
    with walks_stay [OF m(1), of True p] a(1) show ?thesis unfolding walks_def starts_from_def by blast
  next
    case (continued x s u T)
    from runs_reads [OF continued(1) m(2)] have T: "T = S" .
    with assms(2) [unfolded sets_out_def] continued(2) a(1)
    have "moved (done_in True S) (np_Name p) (np_Annotations p) (successes u) S S'" by blast
    with continued(3) spectator_runs(2) [OF m(1) continued(1)] show ?thesis by simp
  qed
qed

lemma sets_out_stay: "spectator m \<Longrightarrow> sets_out p claims m"
  using walks_stay [of m True p] unfolding walks_def sets_out_def starts_from_def by blast

lemma sets_out_anchor:
  "aget (np_Annotations p) ActiveRotation = '''' \<Longrightarrow> cand \<in> set claims \<Longrightarrow>
   sets_out p claims (anchorAndBegin n r p cand surgeless res fs)"
  unfolding sets_out_def starts_from_def using anchor_moves by blast

lemma sets_out_start:
  assumes "aget (np_Annotations p) ActiveRotation = ''''"
  shows "sets_out p claims (startRotation n r p res now claims excluded fs)"
proof -
  have idle: "sets_out p claims (ret x)" for x by (rule sets_out_stay) (simp add: spectator_basic)
  have cand: "sets_out p claims (startCandidate n r p res now pick cand fs)" if "snd (adapt_Claims claims) i = Some cand" for i pick cand
  proof -
    from adapt_Claims_lookup [OF that] have "cand \<in> set claims" ..
    from sets_out_anchor [OF assms this] show ?thesis
      unfolding startCandidate_def Let_def by (intro sets_out_look) (auto intro!: looks_intro idle)
  qed
  obtain views byName where split: "adapt_Claims claims = (views, byName)" by (cases "adapt_Claims claims")
  with cand have cand: "byName i = Some c \<Longrightarrow> sets_out p claims (startCandidate n r p res now pick c fs)" for i pick c by simp
  show ?thesis unfolding startRotation_def split Let_def
    by (auto intro!: sets_out_look looks_intro idle cand split: option.split)
qed

lemma edge_failed:
  assumes "runs S (evaluateWindowEdge r pool res now views excluded inWindow) (Inl e) t S'"
  shows "S' = S"
  using assms
  by (auto simp: evaluateWindowEdge_def Let_def split: WindowAction.splits if_splits
      elim!: runs_andThen_cases dest: edge_stamp.pool_failed edge_clear.pool_failed)

lemma sets_out_edge:
  assumes "\<And>q. sets_out q claims (f q)"
  shows "sets_out p claims (andThen (evaluateWindowEdge r p res now views excluded inWindow) f)"
  unfolding sets_out_def
proof (intro allI impI)
  fix S y t S'
  assume a: "starts_from p claims S" "runs S (andThen (evaluateWindowEdge r p res now views excluded inWindow) f) y t S'"
  have silent: "successes s = 0" if "runs S (evaluateWindowEdge r p res now views excluded inWindow) x s T" for x s T
    using announces_evaluateWindowEdge [of 0 r p res now views excluded inWindow] that by (auto simp: announces_def runs_def)
  from a(2) show "moved (done_in True S) (np_Name p) (np_Annotations p) (successes t) S S'"
  proof (cases rule: runs_andThen_cases)
    case (failed e)
    with edge_failed silent a(1) show ?thesis unfolding starts_from_def stage_def by (metis moved_none)
  next
    case (continued q s u T)
    from edge_outcome [OF continued(1)] a(1) have q: "np_Name q = np_Name p"
      "\<forall>k. k \<noteq> WindowOpenedAt \<longrightarrow> np_Annotations q k = np_Annotations p k"
      "T = S\<lparr>cl_pools := (cl_pools S)(np_Name p \<mapsto> q)\<rparr>" by (auto simp: starts_from_def stage_def)
    then have l: "lifecycle (np_Annotations q) = lifecycle (np_Annotations p)" "settled (np_Annotations q) = settled (np_Annotations p)"
      using lifecycle_cong [of "np_Annotations q" "np_Annotations p"] by simp_all
    have same: "done_in True T = done_in True S" using q(3) by (simp add: fun_eq_iff done_in_def)
    with l q a(1) runs_keyed [OF continued(1)] have "starts_from q claims T" by (simp add: starts_from_def stage_def)
    with assms [of q] continued(2) have "moved (done_in True T) (np_Name q) (np_Annotations q) (successes u) T S'"
      unfolding sets_out_def by blast
    with l q same silent [OF continued(1)] continued(3) show ?thesis by (simp add: moved_def)
  qed
qed

lemma listed_there:
  assumes "runs S (poolClaims r p) (Inr cs) s S" "stage p S"
  shows "starts_from p cs S"
  unfolding starts_from_def
proof (intro conjI ballI assms(2))
  fix c
  assume "c \<in> set cs"
  with assms(1) obtain n where n: "cl_claims S n = Some c"
    by (auto simp: runs_def poolClaims_def call_defs ran_def)
  with assms(2) have "nc_Name c = n" unfolding stage_def using keyedD(2) by fastforce
  with n assms(2) show "nc_Name c \<noteq> ''''" "cl_claims S (nc_Name c) \<noteq> None" by (auto simp: stage_def)
qed

text \<open>What a list of claims permits is used in the cluster it was read from.\<close>

lemma walks_listed:
  assumes "\<And>claims. sets_out p claims (f claims)"
  shows "walks True p (andThen (poolClaims r p) f)"
  unfolding walks_def
proof (intro allI impI)
  fix S y t S'
  assume a: "stage p S" "runs S (andThen (poolClaims r p) f) y t S'"
  have m: "spectator (poolClaims r p)" "within {KRead, KNote} (poolClaims r p)"
    using looks_reads(3) [of r p] by (simp_all add: looks_def)
  from a(2) show "moved (done_in True S) (np_Name p) (np_Annotations p) (successes t) S S'"
  proof (cases rule: runs_andThen_cases)
    case (failed e)
    with walks_stay [OF m(1), of True p] a(1) show ?thesis unfolding walks_def by blast
  next
    case (continued cs s u T)
    from runs_reads [OF continued(1) m(2)] have T: "T = S" .
    from listed_there continued(1) T a(1) have "starts_from p cs S" by blast
    with assms [of cs] continued(2) T have "moved (done_in True S) (np_Name p) (np_Annotations p) (successes u) S S'"
      unfolding sets_out_def by blast
    with continued(3) spectator_runs(2) [OF m(1) continued(1)] show ?thesis by simp
  qed
qed

lemma walks_governed: "walks True p (reconcileNodePool n r p pol sched)"
proof -
  have after: "sets_out q claims (let name = aget (np_Annotations q) ActiveRotation
      in if name \<noteq> '''' then advance n r q name res fs else startRotation n r q res now claims excluded fs)"
    for q res now claims excluded fs
  proof (cases "aget (np_Annotations q) ActiveRotation = ''''")
    case True
    with sets_out_start [OF True] show ?thesis by (simp add: Let_def)
  next
    case False
    with walks_advance [OF False] show ?thesis unfolding sets_out_def starts_from_def walks_def by (simp add: Let_def)
  qed
  show ?thesis unfolding reconcileNodePool_def
    by (rule walks_look, rule looks_intro, subst Let_def, rule walks_listed,
        subst Let_def, rule sets_out_look, rule looks_intro, unfold Let_def [of "deref _"] Let_def [of "derivedThresholds _ _ _ _ _ _"],
        rule sets_out_look, rule looks_intro, rule sets_out_look, rule looks_intro, simp, rule sets_out_look, rule looks_intro, simp,
        rule sets_out_edge, rule after)
qed

lemma walks_reap: "walks False p (reapUngovernedRotation r p)"
proof (cases "aget (np_Annotations p) ActiveRotation = ''''")
  case True
  then show ?thesis by (simp add: reapUngovernedRotation_def walks_stay spectator_basic)
next
  case False
  then show ?thesis unfolding reapUngovernedRotation_def Let_def
    by (intro walks_carries) (auto intro!: carries_intro spectator_intro carries_reap_write)
qed

lemma walks_trail:
  assumes "walks g p m" "\<And>x. spectator (f x)"
  shows "walks g p (andThen m f)"
  unfolding walks_def
proof (intro allI impI)
  fix S y t S'
  assume a: "stage p S" "runs S (andThen m f) y t S'"
  from a(2) show "moved (done_in g S) (np_Name p) (np_Annotations p) (successes t) S S'"
  proof (cases rule: runs_andThen_cases)
    case (failed e)
    with a(1) assms(1) show ?thesis unfolding walks_def by blast
  next
    case (continued x s u T)
    from assms(1) a(1) continued(1) have "moved (done_in g S) (np_Name p) (np_Annotations p) (successes s) S T" unfolding walks_def by blast
    with spectator_runs [OF assms(2) continued(2)] continued(3) show ?thesis by (simp add: moved_def)
  qed
qed

text \<open>Whether a policy governs the NodePool, and whether it does by the list of policies a trace read first.\<close>

fun governing :: "Governance \<Rightarrow> bool" where
  "governing (Governed _ _) = True"
| "governing _ = False"

fun policies_read :: "Effect list \<Rightarrow> (ApiError + RotationPolicy list) option" where
  "policies_read [] = None"
| "policies_read (CallListPolicies a # t) = Some a"
| "policies_read (_ # t) = policies_read t"

definition governed_pass :: "Reconciler \<Rightarrow> NodePool \<Rightarrow> Effect list \<Rightarrow> bool" where
  "governed_pass r p t \<longleftrightarrow> (\<exists>policies. policies_read t = Some (Inr policies) \<and> governing (governance r p policies))"

lemma walks_underGovernance: "walks (governing gov) p (underGovernance n r p gov)"
proof -
  have reap: "walks False p (andThen (reapUngovernedRotation r p) (\<lambda>_. f))" if "spectator f" for f :: "CtrlResult M"
    using walks_trail [OF walks_reap that] .
  show ?thesis unfolding underGovernance_def
    by (cases gov) (auto intro!: walks_look [OF looks_emit(1)] reap walks_governed spectator_intro)
qed

text \<open>
  C6. The controller refines the lifecycle. Let a cluster serve a pass of the controller over a settled
  NodePool, with errors anywhere and whatever the pass returns. Call a claim done when the policies the
  pass read govern the NodePool and the cluster had no such claim as the pass began. Then the pass did
  nothing to any other NodePool, left this one settled, and its effect on the abstraction is one walk of
  the machine \<open>pass_of\<close>: it takes up at most one claim, one that is there, from idle only; a claim taken
  up stays the claim of the rotation until the NodePool is idle again; a drained rotation whose claim is
  done leaves draining by completing only, and any other without completing. The pass announces exactly
  one success when it found a draining rotation whose claim is done and left the NodePool idle, and none
  otherwise.
\<close>

theorem pass_refines_lifecycle:
  assumes "keyed S" "cl_claims S '''' = None" "cl_pools S name = Some p" "settled (np_Annotations p)"
    and "runs S (cluster_pass n r name) x t S'"
  shows "\<exists>q. cl_pools S' = (cl_pools S)(name \<mapsto> q) \<and> settled (np_Annotations q)
    \<and> pass_of (\<lambda>c. governed_pass r p t \<and> cl_claims S c = None)
        (lifecycle (np_Annotations p)) (successes t) (lifecycle (np_Annotations q))
    \<and> successes t =
        (if governed_pass r p t \<and> aget (np_Annotations p) ActiveRotation \<noteq> ''''
            \<and> aget (np_Annotations p) ActiveRotationState = StateDraining
            \<and> cl_claims S (aget (np_Annotations p) ActiveRotation) = None
            \<and> aget (np_Annotations q) ActiveRotation = ''''
         then 1 else 0)"
proof -
  from assms(1,3) have pn: "np_Name p = name" by (rule keyedD(1))
  have st: "stage p S" using assms(1-4) pn by (simp add: stage_def)
  from assms(5) obtain got s u T where g: "runs S (callGetPool r name) got s T"
    "runs T (case got of
       Inl e \<Rightarrow>
         (if e = IsNotFound
          then andThen (emit (ForgetPool name)) (\<lambda>_. andThen (emit (Forget name)) (\<lambda>_. ret NoRequeue))
          else fail e)
     | Inr pool \<Rightarrow> andThen (governingPolicy r pool) (underGovernance n r pool)) x u S'" "t = s @ u"
    unfolding cluster_pass_def Reconcile_def startupSweep_def by (auto elim!: runs_bindRE)
  from g(1) have T: "T = S" "got = Inr p \<or> (\<exists>e. got = Inl e)" "successes s = 0"
    and s: "s = [CallGetPool name got]"
    using assms(3) by (auto simp: runs_def call_defs split: sum.splits)
  have "moved (done_in (governed_pass r p t) S) name (np_Annotations p) (successes u) S S'"
  proof (cases got)
    case (Inl e)
    have "walks (governed_pass r p t) p (if e = IsNotFound
          then andThen (emit (ForgetPool name)) (\<lambda>_. andThen (emit (Forget name)) (\<lambda>_. ret NoRequeue))
          else fail e)" by (rule walks_stay) (auto intro!: spectator_intro)
    with g(2) Inl T(1) st pn show ?thesis unfolding walks_def by auto
  next
    case (Inr q)
    with T have "runs S (andThen (governingPolicy r p) (underGovernance n r p)) x u S'" using g(2) by auto
    then show ?thesis
    proof (cases rule: runs_andThen_cases)
      case (failed e)
      from walks_stay [of "governingPolicy r p" "governed_pass r p t" p] failed st pn show ?thesis
        unfolding walks_def by (auto intro: spectator_intro)
    next
      case (continued gov v w S1)
      from continued(1) obtain policies where v: "S1 = S" "v = [CallListPolicies (Inr policies)]" "gov = governance r p policies"
        unfolding governingPolicy_def by (rule runs_andThenE) (auto simp: runs_def call_defs)
      then have "governed_pass r p t = governing gov" by (simp add: governed_pass_def g(3) s continued(3))
      with walks_underGovernance [of gov p n r] continued(2,3) st pn v show ?thesis
        unfolding walks_def by simp
    qed
  qed
  then obtain q where q: "cl_pools S' = (cl_pools S)(name \<mapsto> q)" "settled (np_Annotations q)"
    "pass_of (\<lambda>c. governed_pass r p t \<and> cl_claims S c = None) (lifecycle (np_Annotations p)) (successes t)
       (lifecycle (np_Annotations q))"
    unfolding moved_def done_in_def [abs_def] using g(3) T(3) by auto
  from pass_of_count [OF q(3)] q show ?thesis
    by (intro exI [of _ q]) (auto simp: completes_def lifecycle_def)
qed

theorem pass_refines_lifecycle_witness:
  "\<exists>x t S' q. runs ended (cluster_pass 1 demo_end ''pool-a'') x t S'
     \<and> cl_pools S' = (cl_pools ended)(''pool-a'' \<mapsto> q) \<and> settled (np_Annotations q)
     \<and> pass_of (\<lambda>c. governed_pass demo_end demo_live_pool t) (Draining ''c'') (successes t) (lifecycle (np_Annotations q))
     \<and> successes t = (if governed_pass demo_end demo_live_pool t \<and> aget (np_Annotations q) ActiveRotation = '''' then 1 else 0)"
proof -
  have l: "lifecycle (np_Annotations demo_live_pool) = Draining ''c''" "settled (np_Annotations demo_live_pool)"
    by (simp_all add: lifecycle_def settled_def demo_live_simps aget_def)
  from ended_pass [of 0] obtain x t S' where t: "runs ended (cluster_pass 1 demo_end ''pool-a'') x t S'"
    unfolding runs_def by auto
  have "\<exists>q. cl_pools S' = (cl_pools ended)(''pool-a'' \<mapsto> q) \<and> settled (np_Annotations q)
     \<and> pass_of (\<lambda>c. governed_pass demo_end demo_live_pool t) (Draining ''c'') (successes t) (lifecycle (np_Annotations q))
     \<and> successes t = (if governed_pass demo_end demo_live_pool t \<and> aget (np_Annotations q) ActiveRotation = '''' then 1 else 0)"
    using pass_refines_lifecycle [OF keyed_ended _ _ _ t, of demo_live_pool] l
    by (simp add: ended_simps demo_live_simps aget_def cong: if_cong)
  with t show ?thesis by blast
qed

end
