(* ===== verification/Promise.thy ===== *)
theory Promise
  imports Schedule Window
begin

text \<open>
  What the derivation of \<open>internal/schedule\<close> promises in terms of the windows of
  \<open>internal/window\<close>: G is not only a quotient of durations, it is a number of window openings
  that every node lives to see.
\<close>

text \<open>
  A chance is an instant at which a rotation may start: an opening of the weekly schedule or, where the
  schedule never closes, any instant.
\<close>

definition chance :: "Schedule \<Rightarrow> int \<Rightarrow> bool" where
  "chance s w \<longleftrightarrow> weekly_open s w \<and> (is_opening (weekly_open s) w \<or> (\<forall>x. weekly_open s x))"

lemma chance_in_every_period:
  assumes "entries_ok s" "WorstCasePeriod s = Some P"
  shows "\<exists>w. x < w \<and> w \<le> x + P \<and> chance s w"
proof -
  have ne: "mergedOccurrences s \<noteq> []" using assms(2) by (auto simp: WorstCasePeriod_def)
  define os where "os = sort_key oc_start (mergedOccurrences s)"
  note c = merged_cycle [OF assms(1) ne, folded os_def]
  have w: "weekly_open s = occ_open os" using c(2) by blast
  show ?thesis
  proof (cases "full_week os")
    case True
    then have "WorstCasePeriod s = Some Minute" "\<forall>x. weekly_open s x"
      using WorstCasePeriod_eq c(1) full_week_open unfolding w by (simp_all add: os_def continuousWindowPeriod_def)
    with assms(2) show ?thesis by (intro exI [of _ "x + P"]) (simp add: chance_def)
  next
    case False
    have "WorstCasePeriod s = Some (period_of os)" using WorstCasePeriod_eq c(1) False by (simp add: os_def)
    with assms(2) opening_within_period [OF c(1) False, of x] show ?thesis
      unfolding chance_def w by (auto simp: is_opening_def)
  qed
qed

text \<open>
  C16. A schedule accepted without a fatal finding keeps its promise. Let the period P of the derivation be
  the one of the window schedule. Then A is positive and G at least one; in automatic mode G is the number
  of chances K that the operator requested, and under an override G falls short of K exactly when the
  findings say so. And for a node born at any instant there are G openings of the window, each
  after the node has passed age A and each early enough that a rotation started there, even if it waits
  out every deadline (t_rot), is over before the node expires.
\<close>

theorem accepted_schedule_promise:
  assumes "sched_in_range inp" "\<not> has_fatal (r_Findings (Derive inp))"
    and "entries_ok s" "WorstCasePeriod s = Some (in_P inp)"
  shows "0 < r_A (Derive inp) \<and> 1 \<le> r_G (Derive inp)
    \<and> (in_Override inp = None \<longrightarrow> r_G (Derive inp) = in_K inp)
    \<and> (in_K inp \<le> r_G (Derive inp) \<longleftrightarrow> (\<forall>f\<in>set (r_Findings (Derive inp)). f_Code f \<noteq> ''OverrideGBelowK''))
    \<and> (\<exists>ws. int (length ws) = r_G (Derive inp) \<and> sorted_wrt (<) ws
         \<and> (\<forall>w\<in>set ws. chance s w \<and> born + r_A (Derive inp) < w
              \<and> w + (in_ReadyTimeout inp + in_TGP inp + Buffer) \<le> born + in_E inp))"
proof -
  note fits = accepted_schedule_fits [OF assms(1,2)]
  obtain ws where ws: "length ws = nat (r_G (Derive inp))" "sorted_wrt (<) ws"
    "\<forall>w\<in>set ws. born + r_A (Derive inp) < w \<and> w \<le> born + r_A (Derive inp) + int (nat (r_G (Derive inp))) * in_P inp \<and> chance s w"
    using recurring [OF chance_in_every_period [OF assms(3,4)]] by metis
  with fits have "\<exists>ws. int (length ws) = r_G (Derive inp) \<and> sorted_wrt (<) ws
         \<and> (\<forall>w\<in>set ws. chance s w \<and> born + r_A (Derive inp) < w
              \<and> w + (in_ReadyTimeout inp + in_TGP inp + Buffer) \<le> born + in_E inp)"
    by (intro exI [of _ ws]) fastforce
  moreover have "in_K inp \<le> r_G (Derive inp) \<longleftrightarrow> (\<forall>f\<in>set (r_Findings (Derive inp)). f_Code f \<noteq> ''OverrideGBelowK'')"
    using shortfall_is_warned [OF assms(2)] by (meson not_le)
  ultimately show ?thesis using fits by blast
qed

definition demo_every_day :: Schedule where
  "demo_every_day = [\<lparr>e_Loc = UTC, e_Days = [0, 1, 2, 3, 4, 5, 6], e_StartMin = 600, e_EndMin = 840\<rparr>]"

lemma demo_every_day_values: "WorstCasePeriod demo_every_day = Some (24 * Hour)" "entries_ok demo_every_day"
  by (code_simp, simp add: entries_ok_def demo_every_day_def entry_length_def week_def)

theorem accepted_schedule_promise_witness:
  "(\<exists>w. chance demo_every_day w \<and> 263 * Hour + 43 * Minute < w \<and> w + (24 * Hour + 17 * Minute) \<le> 336 * Hour)
   \<and> (\<exists>ws. length ws = 8 \<and> (\<forall>w\<in>set ws. chance demo_every_day w \<and> 100 * Hour < w))"
proof -
  have p: "WorstCasePeriod demo_every_day = Some (in_P (demo_sched ov))" for ov
    using demo_every_day_values(1) by (simp add: demo_sched_def)
  note v = demo_sched_values
  from accepted_schedule_promise [OF v(1,6) demo_every_day_values(2) p, of 0]
  obtain ws where "length ws = 2" "\<forall>w\<in>set ws. chance demo_every_day w \<and> 263 * Hour + 43 * Minute < w \<and> w + (24 * Hour + 17 * Minute) \<le> 336 * Hour"
    by (auto simp: v(4)) (auto simp: demo_sched_def Buffer_def)
  moreover have "r_A (Derive (demo_sched (Some (100 * Hour)))) = 100 * Hour"
    by (simp add: Derive_A demo_sched_def)
  with accepted_schedule_promise [OF v(2,7) demo_every_day_values(2) p, of 0] v(5)
  have "\<exists>ws. length ws = 8 \<and> (\<forall>w\<in>set ws. chance demo_every_day w \<and> 100 * Hour < w)" by auto
  ultimately show ?thesis by (cases ws) auto
qed

end
