(* ===== verification/Warnings.thy ===== *)
theory Warnings
  imports Client
begin

text \<open>
  The warning emitter (\<open>warnings.go\<close>, \<open>transitions.go\<close>): a pass announces its conditions every
  time, and the emitter turns them into log lines and Events once per occurrence. Its state lives in
  memory, one record per NodePool. Texts are kept as their arguments; the key a condition is
  deduplicated by is written out. The debug line every pass writes for every finding is not modelled.
\<close>

section \<open>Keys\<close>

text \<open>\<open>census:%+v\<close>.\<close>

definition census_key :: "Census \<Rightarrow> string" where
  "census_key c =
     ''census:{Total:'' @ show_nat (cs_Total c) @ '' Eligible:'' @ show_nat (cs_Eligible c)
       @ '' OptedOut:'' @ show_nat (cs_OptedOut c) @ '' Deleting:'' @ show_nat (cs_Deleting c)
       @ '' NotReady:'' @ show_nat (cs_NotReady c) @ '' InFlight:'' @ show_nat (cs_InFlight c)
       @ '' Terminal:'' @ show_nat (cs_Terminal c) @ '' InBackoff:'' @ show_nat (cs_InBackoff c)
       @ '' NotTriggered:'' @ show_nat (cs_NotTriggered c)
       @ '' InBackoffTriggered:'' @ show_nat (cs_InBackoffTriggered c) @ ''}''"

text \<open>\<open>%s|%s|%t|%s\<close>: the block's identity, without its numbers.\<close>

definition headroom_key :: "string \<Rightarrow> string \<Rightarrow> bool \<Rightarrow> string \<Rightarrow> string" where
  "headroom_key cand resource refused refusedResource =
     cand @ ''|'' @ resource @ ''|'' @ (if refused then ''true'' else ''false'') @ ''|'' @ refusedResource"

definition pending_key :: "Condition \<Rightarrow> string" where
  "pending_key cond = cond_Reason cond @ ''|'' @ cond_Message cond"

section \<open>State\<close>

record PoolWarnState =
  ws_findingCodes :: "string set"
  ws_shortLead :: "string set"
  ws_conflict :: string
  ws_noCandidate :: string
  ws_staticPool :: string
  ws_phPending :: "string \<rightharpoonup> string"
  ws_headroom :: string

type_synonym Emitter = "string \<rightharpoonup> PoolWarnState"

definition no_warnings :: PoolWarnState where
  "no_warnings =
     \<lparr>ws_findingCodes = {}, ws_shortLead = {}, ws_conflict = '''', ws_noCandidate = '''', ws_staticPool = '''',
      ws_phPending = Map.empty, ws_headroom = ''''\<rparr>"

definition poolState :: "Emitter \<Rightarrow> string \<Rightarrow> PoolWarnState" where
  "poolState w pool = (case w pool of None \<Rightarrow> no_warnings | Some s \<Rightarrow> s)"

text \<open>
  What is announced: a log line, and the Warning Event of the same content (none for
  \<open>NoCandidateLine\<close>).
\<close>

datatype Announcement =
    FindingWarning string Finding
  | ShortLeadWarning string string
  | ConflictWarning string string
  | StaticWarning string string int
  | WindowMissedWarning string string nat nat
  | HeadroomWarning string string HeadroomResult bool string
  | NoCandidateLine string string
  | PlaceholderPendingWarning string string Condition

section \<open>The emitter\<close>

definition emitFindings :: "NodePool \<Rightarrow> Finding list \<Rightarrow> Emitter \<Rightarrow> Emitter \<times> Announcement list" where
  "emitFindings pool findings w =
     (let s = poolState w (np_Name pool);
          current = filter (\<lambda>f. f_Severity f = Warn) findings
      in (w(np_Name pool \<mapsto> s\<lparr>ws_findingCodes := f_Code ` set current\<rparr>),
          map (FindingWarning (np_Name pool)) (filter (\<lambda>f. f_Code f \<notin> ws_findingCodes s) current)))"

definition emitShortLead ::
  "NodePool \<Rightarrow> NodeClaim list \<Rightarrow> LeadTime \<Rightarrow> Emitter \<Rightarrow> Emitter \<times> Announcement list" where
  "emitShortLead pool claims leadTime w =
     (let s = poolState w (np_Name pool);
          current = map c_Name (ShortLeadClaims (fst (adapt_Claims claims)) leadTime)
      in (w(np_Name pool \<mapsto> s\<lparr>ws_shortLead := set current\<rparr>),
          map (ShortLeadWarning (np_Name pool)) (filter (\<lambda>n. n \<notin> ws_shortLead s) current)))"

definition emitConflict :: "NodePool \<Rightarrow> string \<Rightarrow> Emitter \<Rightarrow> Emitter \<times> Announcement list" where
  "emitConflict pool detail w =
     (let s = poolState w (np_Name pool)
      in if ws_conflict s = detail then (w(np_Name pool \<mapsto> s), [])
         else (w(np_Name pool \<mapsto> s\<lparr>ws_conflict := detail\<rparr>), [ConflictWarning (np_Name pool) detail]))"

definition emitStaticNodePool :: "NodePool \<Rightarrow> Emitter \<Rightarrow> Emitter \<times> Announcement list" where
  "emitStaticNodePool pool w =
     (let s = poolState w (np_Name pool);
          replicas = (case np_Replicas pool of None \<Rightarrow> 0 | Some n \<Rightarrow> n)
      in if ws_staticPool s = np_UID pool then (w(np_Name pool \<mapsto> s), [])
         else (w(np_Name pool \<mapsto> s\<lparr>ws_staticPool := np_UID pool\<rparr>),
               [StaticWarning (np_Name pool) (np_UID pool) replicas]))"

text \<open>The caller owned the transition: this one carries no state.\<close>

definition emitWindowMissed :: "NodePool \<Rightarrow> string \<Rightarrow> Census \<Rightarrow> Emitter \<Rightarrow> Emitter \<times> Announcement list" where
  "emitWindowMissed pool openedAt c w =
     (w, [WindowMissedWarning (np_Name pool) openedAt (cs_Eligible c) (cs_InBackoffTriggered c)])"

definition emitHeadroomBlocked ::
  "NodePool \<Rightarrow> NodeClaim \<Rightarrow> HeadroomResult \<Rightarrow> ClampResult \<Rightarrow> Emitter \<Rightarrow> Emitter \<times> Announcement list" where
  "emitHeadroomBlocked pool cand hr clamp w =
     (let key = headroom_key (nc_Name cand) (hr_Resource hr) (cr_Refused clamp) (cr_RefusedResource clamp);
          s = poolState w (np_Name pool)
      in if ws_headroom s = key then (w(np_Name pool \<mapsto> s), [])
         else (w(np_Name pool \<mapsto> s\<lparr>ws_headroom := key\<rparr>),
               [HeadroomWarning (np_Name pool) (nc_Name cand) hr (cr_Refused clamp) (cr_RefusedResource clamp)]))"

definition emitNoCandidate :: "NodePool \<Rightarrow> string \<Rightarrow> Emitter \<Rightarrow> Emitter \<times> Announcement list" where
  "emitNoCandidate pool key w =
     (let s = poolState w (np_Name pool)
      in if ws_noCandidate s = key then (w(np_Name pool \<mapsto> s), [])
         else (w(np_Name pool \<mapsto> s\<lparr>ws_noCandidate := key\<rparr>), [NoCandidateLine (np_Name pool) key]))"

definition emitPlaceholderPending ::
  "string \<Rightarrow> NodeClaim \<Rightarrow> Pod \<Rightarrow> Emitter \<Rightarrow> Emitter \<times> Announcement list" where
  "emitPlaceholderPending pool cand ph w =
     (case podScheduledFalse ph of
        None \<Rightarrow> (w, [])
      | Some cond \<Rightarrow>
          (let key = pending_key cond; s = poolState w pool
           in if aget (ws_phPending s) (nc_Name cand) = key then (w(pool \<mapsto> s), [])
              else (w(pool \<mapsto> s\<lparr>ws_phPending := (ws_phPending s)(nc_Name cand \<mapsto> key)\<rparr>),
                    [PlaceholderPendingWarning pool (nc_Name cand) cond])))"

definition clearStaticNodePool :: "string \<Rightarrow> Emitter \<Rightarrow> Emitter" where
  "clearStaticNodePool pool w = (case w pool of None \<Rightarrow> w | Some s \<Rightarrow> w(pool \<mapsto> s\<lparr>ws_staticPool := ''''\<rparr>))"

definition clearHeadroomBlocked :: "string \<Rightarrow> Emitter \<Rightarrow> Emitter" where
  "clearHeadroomBlocked pool w = (case w pool of None \<Rightarrow> w | Some s \<Rightarrow> w(pool \<mapsto> s\<lparr>ws_headroom := ''''\<rparr>))"

definition clearConflict :: "string \<Rightarrow> Emitter \<Rightarrow> Emitter" where
  "clearConflict pool w = (case w pool of None \<Rightarrow> w | Some s \<Rightarrow> w(pool \<mapsto> s\<lparr>ws_conflict := ''''\<rparr>))"

definition clearNoCandidate :: "string \<Rightarrow> Emitter \<Rightarrow> Emitter" where
  "clearNoCandidate pool w = (case w pool of None \<Rightarrow> w | Some s \<Rightarrow> w(pool \<mapsto> s\<lparr>ws_noCandidate := ''''\<rparr>))"

definition clearPlaceholderPending :: "string \<Rightarrow> string \<Rightarrow> Emitter \<Rightarrow> Emitter" where
  "clearPlaceholderPending pool claim w =
     (case w pool of None \<Rightarrow> w | Some s \<Rightarrow> w(pool \<mapsto> s\<lparr>ws_phPending := (ws_phPending s)(claim := None)\<rparr>))"

definition forget :: "string \<Rightarrow> Emitter \<Rightarrow> Emitter" where
  "forget pool w = w(pool := None)"

text \<open>
  The calls a pass makes of the emitter. \<open>render\<close> is the text of a conflict.
\<close>

fun warn :: "(ConflictDetail \<Rightarrow> string) \<Rightarrow> Emission \<Rightarrow> Emitter \<Rightarrow> Emitter \<times> Announcement list" where
  "warn render (EmitFindings pool findings) w = emitFindings pool findings w"
| "warn render (EmitShortLead pool claims leadTime) w = emitShortLead pool claims leadTime w"
| "warn render (EmitConflict pool detail) w = emitConflict pool (render detail) w"
| "warn render (EmitNoCandidate pool gate) w = emitNoCandidate pool (''gate:'' @ Gate_String gate) w"
| "warn render (EmitNoCandidateCensus pool c) w = emitNoCandidate pool (census_key c) w"
| "warn render (EmitStaticNodePool pool) w = emitStaticNodePool pool w"
| "warn render (EmitHeadroomBlocked pool cand hr clamp) w = emitHeadroomBlocked pool cand hr clamp w"
| "warn render (EmitPlaceholderPending pool cand ph) w = emitPlaceholderPending pool cand ph w"
| "warn render (EmitWindowMissed pool openedAt c) w = emitWindowMissed pool openedAt c w"
| "warn render (ClearNoCandidate pool) w = (clearNoCandidate pool w, [])"
| "warn render (ClearStaticNodePool pool) w = (clearStaticNodePool pool w, [])"
| "warn render (ClearHeadroomBlocked pool) w = (clearHeadroomBlocked pool w, [])"
| "warn render (ClearPlaceholderPending pool claim) w = (clearPlaceholderPending pool claim w, [])"
| "warn render (ClearConflict pool) w = (clearConflict pool w, [])"
| "warn render (Forget pool) w = (forget pool w, [])"
| "warn render _ w = (w, [])"

fun warn_all :: "(ConflictDetail \<Rightarrow> string) \<Rightarrow> Emission list \<Rightarrow> Emitter \<Rightarrow> Emitter \<times> Announcement list" where
  "warn_all render [] w = (w, [])"
| "warn_all render (e # es) w =
     (case warn render e w of (w1, as) \<Rightarrow> (case warn_all render es w1 of (w2, bs) \<Rightarrow> (w2, as @ bs)))"

section \<open>Level-triggered conditions\<close>

text \<open>What an emission does to the remembered key of a condition.\<close>

datatype Level = Keep | Clear | Set string

text \<open>The reference: a key is announced when it differs from the one before it.\<close>

fun changes :: "string \<Rightarrow> Level list \<Rightarrow> string list" where
  "changes prev [] = []"
| "changes prev (Keep # ls) = changes prev ls"
| "changes prev (Clear # ls) = changes '''' ls"
| "changes prev (Set k # ls) = (if k = prev then changes prev ls else k # changes k ls)"

lemma changes_repeated: "changes k (replicate n (Set k)) = []" "c \<noteq> k \<Longrightarrow> changes c (replicate (Suc n) (Set k)) = [k]"
proof -
  show *: "changes k (replicate n (Set k)) = []" for n by (induction n) simp_all
  show "c \<noteq> k \<Longrightarrow> changes c (replicate (Suc n) (Set k)) = [k]" using * [of n] by simp
qed

lemma changes_count: "length (changes c ls) \<le> length (filter (\<lambda>l. l \<noteq> Keep \<and> l \<noteq> Clear) ls)"
  by (induction c ls rule: changes.induct) (auto intro: le_SucI)

text \<open>
  A condition: the key it remembers, what an emission does to it, and the key an announcement
  says. The emitter announces the key exactly when it changes it.
\<close>

locale level_condition =
  fixes render :: "ConflictDetail \<Rightarrow> string"
    and memory :: "Emitter \<Rightarrow> string"
    and level :: "Emission \<Rightarrow> Level"
    and says :: "Announcement \<Rightarrow> string option"
  assumes kept: "level e = Keep \<Longrightarrow> memory (fst (warn render e w)) = memory w \<and> List.map_filter says (snd (warn render e w)) = []"
    and cleared: "level e = Clear \<Longrightarrow> memory (fst (warn render e w)) = '''' \<and> List.map_filter says (snd (warn render e w)) = []"
    and set_to: "level e = Set k \<Longrightarrow> memory (fst (warn render e w)) = k
        \<and> List.map_filter says (snd (warn render e w)) = (if k = memory w then [] else [k])"
begin

lemma announces_changes:
  "List.map_filter says (snd (warn_all render es w)) = changes (memory w) (map level es)"
proof (induction es arbitrary: w)
  case (Cons e es)
  have split: "List.map_filter says (snd (warn_all render (e # es) w)) =
      List.map_filter says (snd (warn render e w)) @ List.map_filter says (snd (warn_all render es (fst (warn render e w))))"
    by (simp add: case_prod_unfold List.map_filter_def)
  show ?case
    using kept [of e w] cleared [of e w] set_to [of e _ w]
    by (cases "level e") (simp_all add: split Cons.IH del: warn_all.simps)
qed (simp add: List.map_filter_simps)

lemma remembers_last:
  "memory (fst (warn_all render es w)) = foldl (\<lambda>c l. case l of Keep \<Rightarrow> c | Clear \<Rightarrow> '''' | Set k \<Rightarrow> k) (memory w) (map level es)"
proof (induction es arbitrary: w)
  case (Cons e es)
  then show ?case
    using kept [of e w] cleared [of e w] set_to [of e _ w] by (cases "level e") (simp_all add: case_prod_unfold)
qed simp

end

fun conflict_level :: "(ConflictDetail \<Rightarrow> string) \<Rightarrow> string \<Rightarrow> Emission \<Rightarrow> Level" where
  "conflict_level render p (EmitConflict pool detail) = (if np_Name pool = p then Set (render detail) else Keep)"
| "conflict_level render p (ClearConflict pool) = (if pool = p then Clear else Keep)"
| "conflict_level render p (Forget pool) = (if pool = p then Clear else Keep)"
| "conflict_level render p _ = Keep"

fun conflict_says :: "string \<Rightarrow> Announcement \<Rightarrow> string option" where
  "conflict_says p (ConflictWarning pool detail) = (if pool = p then Some detail else None)"
| "conflict_says p _ = None"

fun candidate_level :: "string \<Rightarrow> Emission \<Rightarrow> Level" where
  "candidate_level p (EmitNoCandidate pool gate) = (if np_Name pool = p then Set (''gate:'' @ Gate_String gate) else Keep)"
| "candidate_level p (EmitNoCandidateCensus pool c) = (if np_Name pool = p then Set (census_key c) else Keep)"
| "candidate_level p (ClearNoCandidate pool) = (if pool = p then Clear else Keep)"
| "candidate_level p (Forget pool) = (if pool = p then Clear else Keep)"
| "candidate_level p _ = Keep"

fun candidate_says :: "string \<Rightarrow> Announcement \<Rightarrow> string option" where
  "candidate_says p (NoCandidateLine pool key) = (if pool = p then Some key else None)"
| "candidate_says p _ = None"

fun static_level :: "string \<Rightarrow> Emission \<Rightarrow> Level" where
  "static_level p (EmitStaticNodePool pool) = (if np_Name pool = p then Set (np_UID pool) else Keep)"
| "static_level p (ClearStaticNodePool pool) = (if pool = p then Clear else Keep)"
| "static_level p (Forget pool) = (if pool = p then Clear else Keep)"
| "static_level p _ = Keep"

fun static_says :: "string \<Rightarrow> Announcement \<Rightarrow> string option" where
  "static_says p (StaticWarning pool uid _) = (if pool = p then Some uid else None)"
| "static_says p _ = None"

fun headroom_level :: "string \<Rightarrow> Emission \<Rightarrow> Level" where
  "headroom_level p (EmitHeadroomBlocked pool cand hr clamp) =
     (if np_Name pool = p
      then Set (headroom_key (nc_Name cand) (hr_Resource hr) (cr_Refused clamp) (cr_RefusedResource clamp)) else Keep)"
| "headroom_level p (ClearHeadroomBlocked pool) = (if pool = p then Clear else Keep)"
| "headroom_level p (Forget pool) = (if pool = p then Clear else Keep)"
| "headroom_level p _ = Keep"

fun headroom_says :: "string \<Rightarrow> Announcement \<Rightarrow> string option" where
  "headroom_says p (HeadroomWarning pool cand hr refused resource) =
     (if pool = p then Some (headroom_key cand (hr_Resource hr) refused resource) else None)"
| "headroom_says p _ = None"

fun pending_level :: "string \<Rightarrow> string \<Rightarrow> Emission \<Rightarrow> Level" where
  "pending_level p c (EmitPlaceholderPending pool cand ph) =
     (if pool = p \<and> nc_Name cand = c
      then (case podScheduledFalse ph of None \<Rightarrow> Keep | Some cond \<Rightarrow> Set (pending_key cond)) else Keep)"
| "pending_level p c (ClearPlaceholderPending pool claim) = (if pool = p \<and> claim = c then Clear else Keep)"
| "pending_level p c (Forget pool) = (if pool = p then Clear else Keep)"
| "pending_level p c _ = Keep"

fun pending_says :: "string \<Rightarrow> string \<Rightarrow> Announcement \<Rightarrow> string option" where
  "pending_says p c (PlaceholderPendingWarning pool claim cond) = (if pool = p \<and> claim = c then Some (pending_key cond) else None)"
| "pending_says p c _ = None"

lemmas emitter_defs = emitFindings_def emitShortLead_def emitConflict_def emitStaticNodePool_def emitWindowMissed_def
  emitHeadroomBlocked_def emitNoCandidate_def emitPlaceholderPending_def clearStaticNodePool_def clearHeadroomBlocked_def
  clearConflict_def clearNoCandidate_def clearPlaceholderPending_def forget_def poolState_def no_warnings_def Let_def

lemmas condition_split = option.splits if_splits

interpretation conflict: level_condition render "\<lambda>w. ws_conflict (poolState w p)" "conflict_level render p" "conflict_says p"
  for render p
  by (unfold_locales; case_tac e) (auto simp: emitter_defs List.map_filter_def split: condition_split)

interpretation candidate: level_condition render "\<lambda>w. ws_noCandidate (poolState w p)" "candidate_level p" "candidate_says p"
  for render p
  by (unfold_locales; case_tac e) (auto simp: emitter_defs List.map_filter_def split: condition_split)

interpretation static: level_condition render "\<lambda>w. ws_staticPool (poolState w p)" "static_level p" "static_says p"
  for render p
  by (unfold_locales; case_tac e) (auto simp: emitter_defs List.map_filter_def split: condition_split)

interpretation blocked: level_condition render "\<lambda>w. ws_headroom (poolState w p)" "headroom_level p" "headroom_says p"
  for render p
  by (unfold_locales; case_tac e) (auto simp: emitter_defs List.map_filter_def split: condition_split)

lemma pending_key_nonempty [simp]: "pending_key cond \<noteq> ''''" "'''' \<noteq> pending_key cond"
  by (simp_all add: pending_key_def)

interpretation pending: level_condition render "\<lambda>w. aget (ws_phPending (poolState w p)) c" "pending_level p c" "pending_says p c"
  for render p c
  by (unfold_locales; case_tac e) (auto simp: emitter_defs List.map_filter_def aget_def split: condition_split)

text \<open>
  C29. A standing condition is announced once. For every sequence of emissions, of any NodePools and kinds,
  the announcements of a condition of one NodePool are exactly the changes of its key: the conflict by
  its text, the idle reason by gate or census, the static NodePool by its UID, the blocked surge by
  candidate and resource, the unschedulable placeholder by the scheduler's reason and message. A key that
  repeats is silent, one that returns after a clear or a forget is announced again, and no emission for
  another NodePool, claim or condition has an influence.
\<close>

theorem conditions_announced_on_change:
  "List.map_filter (conflict_says p) (snd (warn_all render es w)) = changes (ws_conflict (poolState w p)) (map (conflict_level render p) es)
   \<and> List.map_filter (candidate_says p) (snd (warn_all render es w)) = changes (ws_noCandidate (poolState w p)) (map (candidate_level p) es)
   \<and> List.map_filter (static_says p) (snd (warn_all render es w)) = changes (ws_staticPool (poolState w p)) (map (static_level p) es)
   \<and> List.map_filter (headroom_says p) (snd (warn_all render es w)) = changes (ws_headroom (poolState w p)) (map (headroom_level p) es)
   \<and> List.map_filter (pending_says p c) (snd (warn_all render es w)) =
       changes (aget (ws_phPending (poolState w p)) c) (map (pending_level p c) es)"
  by (intro conjI conflict.announces_changes candidate.announces_changes static.announces_changes
      blocked.announces_changes pending.announces_changes)

section \<open>Sets of warnings\<close>

text \<open>What the last evaluation of a NodePool found, since it was forgotten.\<close>

fun found :: "string \<Rightarrow> string set \<Rightarrow> Emission list \<Rightarrow> string set" where
  "found p codes [] = codes"
| "found p codes (EmitFindings pool fs # es) =
     found p (if np_Name pool = p then f_Code ` {f \<in> set fs. f_Severity f = Warn} else codes) es"
| "found p codes (Forget pool # es) = found p (if pool = p then {} else codes) es"
| "found p codes (e # es) = found p codes es"

fun short :: "string \<Rightarrow> string set \<Rightarrow> Emission list \<Rightarrow> string set" where
  "short p names [] = names"
| "short p names (EmitShortLead pool cs lt # es) =
     short p (if np_Name pool = p then c_Name ` set (ShortLeadClaims (fst (adapt_Claims cs)) lt) else names) es"
| "short p names (Forget pool # es) = short p (if pool = p then {} else names) es"
| "short p names (e # es) = short p names es"

lemma found_remembered: "ws_findingCodes (poolState (fst (warn_all render es w)) p) = found p (ws_findingCodes (poolState w p)) es"
proof (induction es arbitrary: w)
  case (Cons e es)
  then show ?case by (cases e) (auto simp: case_prod_unfold emitter_defs split: condition_split)
qed simp

lemma short_remembered: "ws_shortLead (poolState (fst (warn_all render es w)) p) = short p (ws_shortLead (poolState w p)) es"
proof (induction es arbitrary: w)
  case (Cons e es)
  then show ?case by (cases e) (auto simp: case_prod_unfold emitter_defs split: condition_split)
qed simp

text \<open>
  A finding is announced when it appears. After any history of a fresh emitter, an evaluation of a
  NodePool announces exactly its non-fatal findings whose code the previous evaluation of that
  NodePool did not have, and exactly the short-lead claims it did not have; a code or claim that was
  absent for one evaluation is announced again. Fatal findings are never announced here.
\<close>

lemma warnings_announced_on_entry:
  "snd (warn render (EmitFindings pool fs) (fst (warn_all render es Map.empty))) =
     map (FindingWarning (np_Name pool)) (filter (\<lambda>f. f_Severity f = Warn \<and> f_Code f \<notin> found (np_Name pool) {} es) fs)
   \<and> snd (warn render (EmitShortLead pool cs lt) (fst (warn_all render es Map.empty))) =
     map (\<lambda>c. ShortLeadWarning (np_Name pool) (c_Name c))
       (filter (\<lambda>c. c_Name c \<notin> short (np_Name pool) {} es) (ShortLeadClaims (fst (adapt_Claims cs)) lt))"
proof -
  have "ws_findingCodes (poolState Map.empty p) = {}" "ws_shortLead (poolState Map.empty p) = {}" for p
    by (simp_all add: poolState_def no_warnings_def)
  with found_remembered [of render es Map.empty "np_Name pool"] short_remembered [of render es Map.empty "np_Name pool"]
  show ?thesis
    by (simp add: emitFindings_def emitShortLead_def Let_def filter_map o_def conj_commute)
qed

end
