(* ===== verification/PolicyStatus.thy ===== *)
theory PolicyStatus
  imports Conditional
begin

text \<open>
  The status of a RotationPolicy (\<open>policystatus.go\<close>, and the status types of
  \<open>rotationpolicy_types.go\<close>): derived from all policies and all NodePools, and written when it
  changed. \<open>meta.SetStatusCondition\<close> is a library function, the parameter \<open>setCond\<close>;
  messages are kept as their arguments.
\<close>

section \<open>Data\<close>

datatype StatusMessage =
    InvalidSpec "PolicyError list"
  | InvalidSchedule WindowError
  | TiesWith "string list" "string list"
  | Governs nat

record StatusCondition =
  sc_Type :: string
  sc_Status :: bool
  sc_Generation :: int
  sc_Reason :: string
  sc_Message :: StatusMessage
  sc_LastTransition :: time

record PolicyStatus =
  st_ObservedGeneration :: int
  st_MatchedNodePools :: nat
  st_RotatingNodePools :: nat
  st_Conditions :: "StatusCondition list"

record StoredPolicy = RotationPolicy +
  rp_Status :: PolicyStatus

definition ConditionTypeReady :: string where "ConditionTypeReady = ''Ready''"
definition ReasonAccepted :: string where "ReasonAccepted = ''Accepted''"
definition ReasonConflict :: string where "ReasonConflict = ''Conflict''"
definition ReasonInvalid :: string where "ReasonInvalid = ''Invalid''"

section \<open>The derivation\<close>

record Tally =
  ta_matched :: nat
  ta_rotating :: nat
  ta_conflicted :: "string list"
  ta_tied :: "string set"

definition tally_pool ::
  "(LabelSelector option \<Rightarrow> (annots \<Rightarrow> bool) option) \<Rightarrow> string \<Rightarrow> RotationPolicy list \<Rightarrow> NodePool \<Rightarrow> Tally \<Rightarrow> Tally" where
  "tally_pool compile target policies pool t =
     (case Governing compile pool policies of
        (Some winner, Matched, _) \<Rightarrow>
          (if rp_Name winner = target then
             t\<lparr>ta_matched := Suc (ta_matched t),
               ta_rotating := (if aget (np_Annotations pool) ActiveRotation \<noteq> '''' then Suc (ta_rotating t) else ta_rotating t)\<rparr>
           else t)
      | (_, Conflict, tied) \<Rightarrow>
          (if target \<in> set tied then
             t\<lparr>ta_conflicted := ta_conflicted t @ [np_Name pool], ta_tied := ta_tied t \<union> (set tied - {target})\<rparr>
           else t)
      | _ \<Rightarrow> t)"

definition sortedKeys :: "string set \<Rightarrow> string list" where
  "sortedKeys m = sorted_list_of_set m"

definition specProblem :: "(string \<Rightarrow> Location option) \<Rightarrow> RotationPolicy \<Rightarrow> StatusMessage option" where
  "specProblem loadLocation target =
     (case ToPolicy loadLocation (rp_Spec target) of
        Inl es \<Rightarrow> Some (InvalidSpec es)
      | Inr pol \<Rightarrow> (case New loadLocation (p_MaintenanceWindows pol) of
                     Inl e \<Rightarrow> Some (InvalidSchedule e) | Inr _ \<Rightarrow> None))"

definition readyCondition :: "RotationPolicy \<Rightarrow> StatusMessage option \<Rightarrow> Tally \<Rightarrow> StatusCondition" where
  "readyCondition target problem t =
     (let cond = \<lparr>sc_Type = ConditionTypeReady, sc_Status = False, sc_Generation = rp_Generation target,
                   sc_Reason = '''', sc_Message = Governs 0, sc_LastTransition = 0\<rparr>
      in case problem of
           Some msg \<Rightarrow> cond\<lparr>sc_Reason := ReasonInvalid, sc_Message := msg\<rparr>
         | None \<Rightarrow>
             (if ta_conflicted t \<noteq> [] then
                cond\<lparr>sc_Reason := ReasonConflict,
                     sc_Message := TiesWith (sortedKeys (ta_tied t)) (sort (ta_conflicted t))\<rparr>
              else cond\<lparr>sc_Status := True, sc_Reason := ReasonAccepted, sc_Message := Governs (ta_matched t)\<rparr>))"

definition computeStatus ::
  "(LabelSelector option \<Rightarrow> (annots \<Rightarrow> bool) option) \<Rightarrow> (string \<Rightarrow> Location option) \<Rightarrow>
   (StatusCondition list \<Rightarrow> StatusCondition \<Rightarrow> StatusCondition list) \<Rightarrow>
   StoredPolicy \<Rightarrow> RotationPolicy list \<Rightarrow> NodePool list \<Rightarrow> PolicyStatus" where
  "computeStatus compile loadLocation setCond target policies pools =
     (let t = fold (tally_pool compile (rp_Name target) policies) pools
                \<lparr>ta_matched = 0, ta_rotating = 0, ta_conflicted = [], ta_tied = {}\<rparr>
      in \<lparr>st_ObservedGeneration = rp_Generation target, st_MatchedNodePools = ta_matched t,
          st_RotatingNodePools = ta_rotating t,
          st_Conditions = setCond (st_Conditions (rp_Status target))
            (readyCondition (RotationPolicy.truncate target) (specProblem loadLocation (RotationPolicy.truncate target)) t)\<rparr>)"

section \<open>The reconciler\<close>

definition statusRecheckDelay :: duration where "statusRecheckDelay = 1 * Second"

record StatusApi =
  sa_Get :: "string \<Rightarrow> ApiError + StoredPolicy"
  sa_ListPolicies :: "ApiError + StoredPolicy list"
  sa_ListPools :: "ApiError + NodePool list"
  sa_UpdateStatus :: "StoredPolicy \<Rightarrow> ApiError + unit"

text \<open>The result, and the status updates that were sent.\<close>

definition statusReconcile ::
  "(LabelSelector option \<Rightarrow> (annots \<Rightarrow> bool) option) \<Rightarrow> (string \<Rightarrow> Location option) \<Rightarrow>
   (StatusCondition list \<Rightarrow> StatusCondition \<Rightarrow> StatusCondition list) \<Rightarrow> StatusApi \<Rightarrow> string \<Rightarrow>
   (ApiError + CtrlResult) \<times> StoredPolicy list" where
  "statusReconcile compile loadLocation setCond api name =
     (case sa_Get api name of
        Inl e \<Rightarrow> (if e = IsNotFound then Inr NoRequeue else Inl e, [])
      | Inr target \<Rightarrow>
          (case sa_ListPolicies api of
             Inl e \<Rightarrow> (Inl e, [])
           | Inr policies \<Rightarrow>
               (case sa_ListPools api of
                  Inl e \<Rightarrow> (Inl e, [])
                | Inr pools \<Rightarrow>
                    (let desired = computeStatus compile loadLocation setCond target (map RotationPolicy.truncate policies) pools
                     in if rp_Status target = desired then (Inr NoRequeue, [])
                        else let updated = target\<lparr>rp_Status := desired\<rparr>
                             in (case sa_UpdateStatus api updated of
                                   Inl e \<Rightarrow> (if e = IsConflict then Inr (RequeueAfter statusRecheckDelay) else Inl e)
                                 | Inr _ \<Rightarrow> Inr (RequeueAfter statusRecheckDelay), [updated])))))"

text \<open>A change of one policy or NodePool may alter any status.\<close>

definition allPolicies :: "StatusApi \<Rightarrow> string list" where
  "allPolicies api = (case sa_ListPolicies api of Inl _ \<Rightarrow> [] | Inr ps \<Rightarrow> map rp_Name ps)"

section \<open>What the status says\<close>

text \<open>
  What the documentation of \<open>meta.SetStatusCondition\<close> promises: the condition of the type is there
  with the values given, and setting it again changes nothing.
\<close>

definition ready :: "PolicyStatus \<Rightarrow> StatusCondition option" where
  "ready st = List.find (\<lambda>c. sc_Type c = ConditionTypeReady) (st_Conditions st)"

definition sets_condition :: "(StatusCondition list \<Rightarrow> StatusCondition \<Rightarrow> StatusCondition list) \<Rightarrow> bool" where
  "sets_condition setCond \<longleftrightarrow>
     (\<forall>cs c. \<exists>t. List.find (\<lambda>x. sc_Type x = sc_Type c) (setCond cs c) = Some (c\<lparr>sc_LastTransition := t\<rparr>)
        \<and> setCond (setCond cs c) c = setCond cs c)"

definition wins ::
  "(LabelSelector option \<Rightarrow> (annots \<Rightarrow> bool) option) \<Rightarrow> RotationPolicy list \<Rightarrow> string \<Rightarrow> NodePool \<Rightarrow> bool" where
  "wins compile policies target pool =
     (case fst (Governing compile pool policies) of None \<Rightarrow> False | Some w \<Rightarrow> rp_Name w = target)"

definition ties ::
  "(LabelSelector option \<Rightarrow> (annots \<Rightarrow> bool) option) \<Rightarrow> RotationPolicy list \<Rightarrow> string \<Rightarrow> NodePool \<Rightarrow> bool" where
  "ties compile policies target pool = (target \<in> set (snd (snd (Governing compile pool policies))))"

lemma Governing_forms:
  obtains w where "Governing compile pool policies = (Some w, Matched, [])" "w \<in> set policies"
  | "Governing compile pool policies = (None, NoMatch, [])"
  | names where "Governing compile pool policies = (None, Conflict, names)"
proof (cases "top_policies (policy_matches compile (np_Labels pool)) policies" rule: remdups_adj.cases)
  case 1
  with that(2) show thesis by (simp add: Governing_top)
next
  case (2 w)
  then have "w \<in> set (top_policies (policy_matches compile (np_Labels pool)) policies)" by simp
  then have "w \<in> set policies" by (simp add: top_policies_def)
  with 2 that(1) show thesis by (simp add: Governing_top)
next
  case (3 a b ts)
  with that(3) show thesis by (simp add: Governing_top)
qed

lemma tally_step:
  "ta_matched (tally_pool compile target policies pool t) = (if wins compile policies target pool then Suc (ta_matched t) else ta_matched t)"
  "ta_rotating (tally_pool compile target policies pool t) =
     (if wins compile policies target pool \<and> aget (np_Annotations pool) ActiveRotation \<noteq> '''' then Suc (ta_rotating t) else ta_rotating t)"
  "ta_conflicted (tally_pool compile target policies pool t) =
     ta_conflicted t @ (if ties compile policies target pool then [np_Name pool] else [])"
  by (cases rule: Governing_forms [of compile pool policies]; simp add: tally_pool_def wins_def ties_def)+

lemma tally_fold:
  "ta_matched (fold (tally_pool compile target policies) pools t) = ta_matched t + length (filter (wins compile policies target) pools)"
  "ta_rotating (fold (tally_pool compile target policies) pools t) =
     ta_rotating t + length (filter (\<lambda>p. wins compile policies target p \<and> aget (np_Annotations p) ActiveRotation \<noteq> '''') pools)"
  "ta_conflicted (fold (tally_pool compile target policies) pools t) =
     ta_conflicted t @ map np_Name (filter (ties compile policies target) pools)"
  by (induction pools arbitrary: t) (simp_all add: tally_step)

lemma governance_of_winner:
  assumes "\<forall>p\<in>set policies. rp_Name p = rp_Name target \<longrightarrow> p = target" "wins (rc_compile r) policies (rp_Name target) pool"
  shows "case specProblem (rc_loadLocation r) target of
      None \<Rightarrow> \<exists>pol sched. governance r pool policies = Governed pol sched
    | Some (InvalidSpec es) \<Rightarrow> governance r pool policies = Contested (InvalidPolicy (rp_Name target) es)
    | Some (InvalidSchedule e) \<Rightarrow> governance r pool policies = Contested (UnbuildableSchedule (rp_Name target) e)
    | _ \<Rightarrow> False"
proof (cases rule: Governing_forms [of "rc_compile r" pool policies])
  case (1 w)
  with assms have "w = target" by (auto simp: wins_def)
  with 1 show ?thesis by (auto simp: governance_def specProblem_def split: sum.split)
qed (use assms(2) in \<open>simp_all add: wins_def\<close>)

lemma governance_of_tie:
  "ties (rc_compile r) policies name pool \<Longrightarrow> \<exists>names. governance r pool policies = Contested (TiedPolicies names) \<and> name \<in> set names"
  by (cases rule: Governing_forms [of "rc_compile r" pool policies]) (auto simp: ties_def governance_def)

text \<open>A condition agrees with the controller on the NodePools the policy wins and those it ties for.\<close>

definition agrees :: "Reconciler \<Rightarrow> RotationPolicy list \<Rightarrow> string \<Rightarrow> NodePool list \<Rightarrow> NodePool list \<Rightarrow> StatusCondition \<Rightarrow> bool" where
  "agrees r policies target won tied c =
     (case sc_Message c of
        Governs n \<Rightarrow> sc_Status c \<and> sc_Reason c = ReasonAccepted \<and> n = length won \<and> tied = []
          \<and> (\<forall>p\<in>set won. \<exists>pol sched. governance r p policies = Governed pol sched)
      | InvalidSpec es \<Rightarrow> \<not> sc_Status c \<and> sc_Reason c = ReasonInvalid
          \<and> (\<forall>p\<in>set won. governance r p policies = Contested (InvalidPolicy target es))
      | InvalidSchedule e \<Rightarrow> \<not> sc_Status c \<and> sc_Reason c = ReasonInvalid
          \<and> (\<forall>p\<in>set won. governance r p policies = Contested (UnbuildableSchedule target e))
      | TiesWith names ps \<Rightarrow> \<not> sc_Status c \<and> sc_Reason c = ReasonConflict \<and> ps = sort (map np_Name tied) \<and> tied \<noteq> []
          \<and> (\<forall>p\<in>set tied. \<exists>names. governance r p policies = Contested (TiedPolicies names) \<and> target \<in> set names)
          \<and> (\<forall>p\<in>set won. \<exists>pol sched. governance r p policies = Governed pol sched))"

text \<open>
  C26. The status says what the controller does. For a policy with a unique name, the counts are the
  NodePools the policy wins and those of them with an anchor. Ready is reported exactly when the spec
  resolves and no NodePool ties the policy, and then the controller governs every NodePool the policy
  wins. Reported invalid, the controller contests each of them for the very reason in the message.
  Reported in conflict, the message lists, sorted, exactly the NodePools the controller contests because
  of a tie this policy is part of.
\<close>

theorem status_agrees_with_controller:
  assumes "sets_condition setCond" "\<forall>p\<in>set policies. rp_Name p = rp_Name target \<longrightarrow> p = RotationPolicy.truncate target"
  shows "let st = computeStatus (rc_compile r) (rc_loadLocation r) setCond target policies pools;
             won = filter (wins (rc_compile r) policies (rp_Name target)) pools;
             tied = filter (ties (rc_compile r) policies (rp_Name target)) pools
    in st_MatchedNodePools st = length won
       \<and> st_RotatingNodePools st = length (filter (\<lambda>p. aget (np_Annotations p) ActiveRotation \<noteq> '''') won)
       \<and> (\<exists>c. ready st = Some c \<and> sc_Generation c = rp_Generation target \<and> agrees r policies (rp_Name target) won tied c)"
proof -
  let ?T = "RotationPolicy.truncate target"
  let ?z = "\<lparr>ta_matched = 0, ta_rotating = 0, ta_conflicted = [], ta_tied = {}\<rparr>"
  let ?t = "fold (tally_pool (rc_compile r) (rp_Name target) policies) pools ?z"
  let ?c = "readyCondition ?T (specProblem (rc_loadLocation r) ?T) ?t"
  note tally = tally_fold [of "rc_compile r" "rp_Name target" policies pools ?z, simplified]
  have ty: "sc_Type ?c = ConditionTypeReady" by (simp add: readyCondition_def Let_def split: option.split)
  have "\<exists>t. List.find (\<lambda>x. sc_Type x = sc_Type ?c) (setCond (st_Conditions (rp_Status target)) ?c) = Some (?c\<lparr>sc_LastTransition := t\<rparr>)"
    using assms(1) unfolding sets_condition_def by blast
  then obtain t where t: "ready (computeStatus (rc_compile r) (rc_loadLocation r) setCond target policies pools) = Some (?c\<lparr>sc_LastTransition := t\<rparr>)"
    unfolding ty ready_def computeStatus_def Let_def by auto
  have name: "rp_Name ?T = rp_Name target" "rp_Generation ?T = rp_Generation target"
    by (simp_all add: RotationPolicy.truncate_def)
  note won = governance_of_winner [of policies ?T r, unfolded name, OF assms(2)]
  have g: "sc_Generation (?c\<lparr>sc_LastTransition := t\<rparr>) = rp_Generation target"
    by (simp add: readyCondition_def Let_def name split: option.split)
  have a: "agrees r policies (rp_Name target) (filter (wins (rc_compile r) policies (rp_Name target)) pools)
      (filter (ties (rc_compile r) policies (rp_Name target)) pools) (?c\<lparr>sc_LastTransition := t\<rparr>)"
  proof (cases "specProblem (rc_loadLocation r) ?T")
    case None
    with won governance_of_tie [of r policies "rp_Name target"] show ?thesis
      by (auto simp: agrees_def readyCondition_def Let_def tally)
  next
    case (Some msg)
    with won show ?thesis
      by (cases msg) (auto simp: agrees_def readyCondition_def Let_def specProblem_def split: sum.splits)
  qed
  show ?thesis unfolding Let_def
    by (intro conjI exI [of _ "?c\<lparr>sc_LastTransition := t\<rparr>"] t g a)
      (simp_all add: computeStatus_def Let_def tally conj_commute)
qed

text \<open>
  C27. The recheck ends. If a reconcile wrote the status and nothing else has changed when the recheck
  reads again, the recheck sends no update and asks for no further requeue: the chain of rechecks that a
  status write starts is one long. A read that fails sends no update, and at most one is ever sent.
\<close>

theorem status_settles:
  assumes "sets_condition setCond" "statusReconcile compile loadLocation setCond api name = (out, [updated])"
    and "sa_Get api' name = Inr updated" "sa_ListPools api' = sa_ListPools api"
    and "\<And>ps. sa_ListPolicies api = Inr ps \<Longrightarrow>
      \<exists>ps'. sa_ListPolicies api' = Inr ps' \<and> map RotationPolicy.truncate ps' = map RotationPolicy.truncate ps"
  shows "statusReconcile compile loadLocation setCond api' name = (Inr NoRequeue, [])
    \<and> (\<forall>e. sa_UpdateStatus api updated = Inl e \<longrightarrow> out = (if e = IsConflict then Inr (RequeueAfter statusRecheckDelay) else Inl e))
    \<and> (sa_UpdateStatus api updated = Inr () \<longrightarrow> out = Inr (RequeueAfter statusRecheckDelay))"
proof -
  from assms(2) obtain target ps pools where r: "sa_Get api name = Inr target" "sa_ListPolicies api = Inr ps" "sa_ListPools api = Inr pools"
    and u: "updated = target\<lparr>rp_Status := computeStatus compile loadLocation setCond target (map RotationPolicy.truncate ps) pools\<rparr>"
      "out = (case sa_UpdateStatus api updated of
          Inl e \<Rightarrow> (if e = IsConflict then Inr (RequeueAfter statusRecheckDelay) else Inl e)
        | Inr _ \<Rightarrow> Inr (RequeueAfter statusRecheckDelay))"
    by (auto simp: statusReconcile_def Let_def split: sum.splits if_splits)
  have same: "rp_Name updated = rp_Name target" "rp_Generation updated = rp_Generation target"
    "RotationPolicy.truncate updated = RotationPolicy.truncate target"
    using u(1) by (simp_all add: RotationPolicy.truncate_def)
  have "setCond (setCond cs c) c = setCond cs c" for cs c using assms(1) unfolding sets_condition_def by blast
  then have "computeStatus compile loadLocation setCond updated (map RotationPolicy.truncate ps) pools = rp_Status updated"
    unfolding computeStatus_def same Let_def by (simp add: u(1) computeStatus_def Let_def)
  with assms(5) [OF r(2)] assms(3,4) r(3) have "statusReconcile compile loadLocation setCond api' name = (Inr NoRequeue, [])"
    by (auto simp: statusReconcile_def Let_def)
  with u(2) show ?thesis by simp
qed

text \<open>A policy without a status yet, and a NodePool it governs.\<close>

definition demo_setCond :: "StatusCondition list \<Rightarrow> StatusCondition \<Rightarrow> StatusCondition list" where
  "demo_setCond cs c = filter (\<lambda>x. sc_Type x \<noteq> sc_Type c) cs @ [c\<lparr>sc_LastTransition := 7\<rparr>]"

lemma demo_sets_condition: "sets_condition demo_setCond"
proof -
  have "List.find (\<lambda>x. sc_Type x = sc_Type c) (filter (\<lambda>x. sc_Type x \<noteq> sc_Type c) cs @ [c\<lparr>sc_LastTransition := 7\<rparr>]) =
      Some (c\<lparr>sc_LastTransition := 7\<rparr>)" for cs c by (induction cs) auto
  then show ?thesis unfolding sets_condition_def demo_setCond_def by auto
qed

definition demo_stored :: StoredPolicy where
  "demo_stored = RotationPolicy.extend (demo_rotation_policy ''p'' [])
     \<lparr>rp_Status = \<lparr>st_ObservedGeneration = 0, st_MatchedNodePools = 0, st_RotatingNodePools = 0, st_Conditions = []\<rparr>\<rparr>"

lemma demo_stored_simps:
  "RotationPolicy.truncate demo_stored = demo_rotation_policy ''p'' []" "rp_Name demo_stored = ''p''"
  "rp_Generation demo_stored = 1" "st_ObservedGeneration (rp_Status demo_stored) = 0"
  by (simp_all add: demo_stored_def demo_rotation_policy_def Let_def RotationPolicy.extend_def RotationPolicy.truncate_def)

theorem status_agrees_with_controller_witness:
  "let r = demo_reconciler demo_api; ps = [demo_rotation_policy ''p'' []]; pools = [demo_nodepool Map.empty];
       st = computeStatus (rc_compile r) (rc_loadLocation r) demo_setCond demo_stored ps pools
   in wins (rc_compile r) ps ''p'' (demo_nodepool Map.empty) \<and> st_MatchedNodePools st = 1
      \<and> (\<exists>c. ready st = Some c \<and> agrees r ps ''p'' pools [] c)"
proof -
  let ?r = "demo_reconciler demo_api"
  have "Governing (rc_compile ?r) (demo_nodepool Map.empty) [demo_rotation_policy ''p'' []]
      = (Some (demo_rotation_policy ''p'' []), Matched, [])"
    by (simp add: Governing_def policy_matches_def policy_specificity_def specificity_def demo_compile_def
        demo_rotation_policy_def demo_nodepool_def demo_reconciler_def Let_def)
  then have w: "wins (rc_compile ?r) [demo_rotation_policy ''p'' []] ''p'' (demo_nodepool Map.empty)"
    "\<not> ties (rc_compile ?r) [demo_rotation_policy ''p'' []] ''p'' (demo_nodepool Map.empty)"
    by (simp_all add: wins_def ties_def demo_rotation_policy_def Let_def)
  from status_agrees_with_controller [OF demo_sets_condition, of "[demo_rotation_policy ''p'' []]" demo_stored ?r "[demo_nodepool Map.empty]"] w
  show ?thesis unfolding Let_def demo_stored_simps by auto
qed

definition demo_statusApi :: "StoredPolicy \<Rightarrow> StatusApi" where
  "demo_statusApi stored =
     \<lparr>sa_Get = \<lambda>_. Inr stored, sa_ListPolicies = Inr [stored], sa_ListPools = Inr [demo_nodepool Map.empty],
      sa_UpdateStatus = \<lambda>_. Inr ()\<rparr>"

theorem status_settles_witness:
  "\<exists>updated. statusReconcile demo_compile (\<lambda>_. None) demo_setCond (demo_statusApi demo_stored) ''p'' =
       (Inr (RequeueAfter statusRecheckDelay), [updated])
     \<and> statusReconcile demo_compile (\<lambda>_. None) demo_setCond (demo_statusApi updated) ''p'' = (Inr NoRequeue, [])"
proof -
  let ?desired = "computeStatus demo_compile (\<lambda>_. None) demo_setCond demo_stored [demo_rotation_policy ''p'' []] [demo_nodepool Map.empty]"
  have "rp_Status demo_stored \<noteq> ?desired"
  proof
    assume "rp_Status demo_stored = ?desired"
    then have "st_ObservedGeneration (rp_Status demo_stored) = st_ObservedGeneration ?desired" by simp
    then show False by (simp add: computeStatus_def Let_def demo_stored_simps)
  qed
  then have first: "statusReconcile demo_compile (\<lambda>_. None) demo_setCond (demo_statusApi demo_stored) ''p'' =
      (Inr (RequeueAfter statusRecheckDelay), [demo_stored\<lparr>rp_Status := ?desired\<rparr>])"
    by (simp add: statusReconcile_def demo_statusApi_def Let_def demo_stored_simps)
  have "RotationPolicy.truncate (demo_stored\<lparr>rp_Status := ?desired\<rparr>) = RotationPolicy.truncate demo_stored"
    by (simp add: RotationPolicy.truncate_def)
  from status_settles [OF demo_sets_condition first, of "demo_statusApi (demo_stored\<lparr>rp_Status := ?desired\<rparr>)"] first this
  show ?thesis by (auto simp: demo_statusApi_def)
qed

end
