(* ===== verification/Watches.thy ===== *)
theory Watches
  imports PolicyStatus
begin

text \<open>
  Which events wake the controller (the end of \<open>SetupWithManager\<close> and its mapping functions and
  predicates in \<open>rotation_controller.go\<close>), and the status writer. Delivering an event is the manager's part.
\<close>

datatype 'a WatchEvent = CreateEvent 'a | UpdateEvent 'a 'a | DeleteEvent 'a | GenericEvent 'a

text \<open>The NodePool of a NodeClaim or Node, by its labels.\<close>

definition nodePoolFromLabel :: "annots \<Rightarrow> string list" where
  "nodePoolFromLabel labels =
     (let np = aget labels NodePoolLabelKey in if np = '''' then [] else [np])"

definition placeholderToNodePool :: "Reconciler \<Rightarrow> Pod \<Rightarrow> string list" where
  "placeholderToNodePool r pod =
     (if pod_Namespace pod \<noteq> rc_Namespace r then []
      else if aget (pod_Labels pod) SurgeFor = '''' then []
      else let np = aget (pod_Labels pod) NodePoolLabelKey in if np = '''' then [] else [np])"

definition podRunning :: "Pod \<Rightarrow> bool" where
  "podRunning p = (pod_Phase p = PodRunning)"

fun placeholderRunning :: "Pod WatchEvent \<Rightarrow> bool" where
  "placeholderRunning (CreateEvent p) = podRunning p"
| "placeholderRunning (UpdateEvent old new) = (\<not> podRunning old \<and> podRunning new)"
| "placeholderRunning (DeleteEvent _) = False"
| "placeholderRunning (GenericEvent _) = False"

fun nodeBecameReady :: "Node WatchEvent \<Rightarrow> bool" where
  "nodeBecameReady (CreateEvent n) = nodeReady n"
| "nodeBecameReady (UpdateEvent old new) = (\<not> nodeReady old \<and> nodeReady new)"
| "nodeBecameReady (DeleteEvent _) = False"
| "nodeBecameReady (GenericEvent _) = False"

definition allNodePools :: "Reconciler \<Rightarrow> string list M" where
  "allNodePools r =
     bindR (callListPools r) (\<lambda>pools. case pools of Inl _ \<Rightarrow> ret [] | Inr ps \<Rightarrow> ret (map np_Name ps))"

text \<open>The object of an event, and the requests of one delivered to a watch with its predicate.\<close>

fun subject :: "'a WatchEvent \<Rightarrow> 'a" where
  "subject (CreateEvent x) = x"
| "subject (UpdateEvent _ x) = x"
| "subject (DeleteEvent x) = x"
| "subject (GenericEvent x) = x"

definition podWatch :: "Reconciler \<Rightarrow> Pod WatchEvent \<Rightarrow> string list" where
  "podWatch r e = (if placeholderRunning e then placeholderToNodePool r (subject e) else [])"

definition nodeWatch :: "Node WatchEvent \<Rightarrow> string list" where
  "nodeWatch e = (if nodeBecameReady e then nodePoolFromLabel (nd_Labels (subject e)) else [])"

section \<open>Edges\<close>

text \<open>The events of an object that was seen in these states, one after the other.\<close>

fun history :: "'a list \<Rightarrow> 'a WatchEvent list" where
  "history [] = []"
| "history [x] = [CreateEvent x]"
| "history (x # xs) = CreateEvent x # map2 UpdateEvent (x # xs) xs"

text \<open>How often a predicate became true.\<close>

fun rises :: "('a \<Rightarrow> bool) \<Rightarrow> bool \<Rightarrow> 'a list \<Rightarrow> nat" where
  "rises P before [] = 0"
| "rises P before (x # xs) = (if P x \<and> \<not> before then 1 else 0) + rises P (P x) xs"

lemma history_edges:
  assumes "\<And>x. edge (CreateEvent x) = P x" "\<And>x y. edge (UpdateEvent x y) = (\<not> P x \<and> P y)"
    and "\<And>e. subject e \<in> set xs \<Longrightarrow> target (subject e) = [t]"
  shows "concat (map (\<lambda>e. if edge e then target (subject e) else []) (history xs)) = replicate (rises P False xs) t"
proof -
  have later: "(\<And>e. subject e \<in> set (x # ys) \<Longrightarrow> target (subject e) = [t]) \<Longrightarrow>
      concat (map (\<lambda>e. if edge e then target (subject e) else []) (map2 UpdateEvent (x # ys) ys)) = replicate (rises P (P x) ys) t"
    for x ys
  proof (induction ys arbitrary: x)
    case (Cons y ys)
    have rest: "(\<And>e. subject e \<in> set (y # ys) \<Longrightarrow> target (subject e) = [t])" using Cons.prems by simp
    have "target y = [t]" using Cons.prems [of "CreateEvent y"] by simp
    with Cons.IH [OF rest] show ?case by (simp add: assms(2))
  qed simp
  show ?thesis
  proof (cases xs rule: history.cases)
    case (2 x)
    with assms(1) assms(3) [of "CreateEvent x"] show ?thesis by simp
  next
    case (3 x y ys)
    have "target x = [t]" using assms(3) [of "CreateEvent x"] 3 by simp
    with later [of x "y # ys"] assms(1,3) 3 show ?thesis by simp
  qed simp
qed

text \<open>
  C28. No readiness signal is lost, and none is repeated. A placeholder the controller builds wakes the
  NodePool it was built for each time it is seen to turn Running, and at no other event; a node of the
  NodePool wakes it each time it is seen to turn Ready, and at no other event; whatever states are seen
  in between. These are the two signals \<open>surgeReady\<close> waits for.
\<close>

theorem readiness_is_watched:
  assumes "np_Name pool \<noteq> ''''" "nc_Name cand \<noteq> ''''"
    and "\<forall>p\<in>set ps. pod_Namespace p = pod_Namespace built \<and> pod_Labels p = pod_Labels built"
    and "built = placeholder_for r pool cand res node requests excluded"
    and "\<forall>n\<in>set ns. aget (nd_Labels n) NodePoolLabelKey = np_Name pool"
  shows "concat (map (podWatch r) (history ps)) = replicate (rises podRunning False ps) (np_Name pool)
    \<and> concat (map nodeWatch (history ns)) = replicate (rises nodeReady False ns) (np_Name pool)"
proof
  have "placeholderToNodePool r p = [np_Name pool]" if "p \<in> set ps" for p
    using assms that by (simp add: placeholderToNodePool_def placeholder_for_def BuildPlaceholder_def Let_def
        aget_def NodePoolLabelKey_def SurgeFor_def Prefix_def)
  then have "concat (map (\<lambda>e. if placeholderRunning e then placeholderToNodePool r (subject e) else []) (history ps)) =
      replicate (rises podRunning False ps) (np_Name pool)"
    by (intro history_edges) simp_all
  then show "concat (map (podWatch r) (history ps)) = replicate (rises podRunning False ps) (np_Name pool)"
    by (simp add: podWatch_def [abs_def])
  have "nodePoolFromLabel (nd_Labels n) = [np_Name pool]" if "n \<in> set ns" for n
    using assms(1,5) that by (simp add: nodePoolFromLabel_def)
  then have "concat (map (\<lambda>e. if nodeBecameReady e then nodePoolFromLabel (nd_Labels (subject e)) else []) (history ns)) =
      replicate (rises nodeReady False ns) (np_Name pool)"
    by (intro history_edges [where target = "\<lambda>n. nodePoolFromLabel (nd_Labels n)"]) simp_all
  then show "concat (map nodeWatch (history ns)) = replicate (rises nodeReady False ns) (np_Name pool)"
    by (simp add: nodeWatch_def [abs_def])
qed

theorem readiness_is_watched_witness:
  "\<exists>built. let r = demo_reconciler demo_api; running = built\<lparr>pod_Phase := PodRunning\<rparr>
     in concat (map (podWatch r) (history [built, running, running, built, running])) = [''pool-a'', ''pool-a'']"
proof -
  let ?r = "demo_reconciler demo_api"
  let ?pool = "demo_nodepool Map.empty"
  let ?cand = "demo_nodeclaim ''c'' ''n1'' Map.empty"
  let ?built = "placeholder_for ?r ?pool ?cand res (demo_node ''n1'' Map.empty) fmempty []"
  let ?running = "?built\<lparr>pod_Phase := PodRunning\<rparr>"
  have "np_Name ?pool = ''pool-a''" "nc_Name ?cand = ''c''" "pod_Phase ?built \<noteq> PodRunning"
    by (simp_all add: demo_nodepool_def demo_nodeclaim_def placeholder_for_def BuildPlaceholder_def PodRunning_def)
  with readiness_is_watched [of ?pool ?cand "[?built, ?running, ?running, ?built, ?running]" ?built ?r res "demo_node ''n1'' Map.empty" fmempty "[]" "[]"]
  have "concat (map (podWatch ?r) (history [?built, ?running, ?running, ?built, ?running])) = [''pool-a'', ''pool-a'']"
    by (simp add: podRunning_def)
  then show ?thesis unfolding Let_def by blast
qed

section \<open>What wakes the status writer\<close>

text \<open>
  The watches of \<open>RotationPolicyStatusReconciler\<close>. \<open>generationChanged\<close> is the library's
  \<open>GenerationChangedPredicate\<close>, which lets an update through when the generation differs; the watch on
  NodePools has no predicate, as the anchor is an annotation.
\<close>

definition statusPolicyWatch :: "(StoredPolicy WatchEvent \<Rightarrow> bool) \<Rightarrow> StatusApi \<Rightarrow> StoredPolicy WatchEvent \<Rightarrow> string list" where
  "statusPolicyWatch generationChanged api e = (if generationChanged e then allPolicies api else [])"

definition statusPoolWatch :: "StatusApi \<Rightarrow> NodePool WatchEvent \<Rightarrow> string list" where
  "statusPoolWatch api e = allPolicies api"

text \<open>
  The writer does not wake itself: the update event of its own status write, which leaves the generation
  as it was, is dropped, while every edit of a spec and every change of a NodePool reaches all policies.
\<close>

lemma status_write_not_echoed:
  assumes "\<And>old new. generationChanged (UpdateEvent old new) \<longleftrightarrow> rp_Generation old \<noteq> rp_Generation new"
    and "sa_Get api name = Inr stored" "statusReconcile compile loadLocation setCond api name = (out, [updated])"
  shows "statusPolicyWatch generationChanged api' (UpdateEvent stored updated) = []"
    and "rp_Generation old \<noteq> rp_Generation new \<Longrightarrow>
      statusPolicyWatch generationChanged api' (UpdateEvent old new) = allPolicies api'"
proof -
  from assms(2,3) obtain st where "updated = stored\<lparr>rp_Status := st\<rparr>"
    by (auto simp: statusReconcile_def Let_def split: sum.splits if_splits)
  then have "rp_Generation updated = rp_Generation stored" by simp
  with assms(1) show "statusPolicyWatch generationChanged api' (UpdateEvent stored updated) = []"
    by (simp add: statusPolicyWatch_def)
  show "rp_Generation old \<noteq> rp_Generation new \<Longrightarrow>
      statusPolicyWatch generationChanged api' (UpdateEvent old new) = allPolicies api'"
    using assms(1) by (simp add: statusPolicyWatch_def)
qed

end
