(* ===== verification/Metrics.thy ===== *)
theory Metrics
  imports Client
begin

text \<open>
  The Prometheus recorder (\<open>internal/metrics/metrics.go\<close>): what each call of the recorder interface
  does to the exported series. The collector vectors are the library's: a series springs into being when
  it is first touched, and a deletion drops it. A gauge holds the value observed; its conversion to
  a float is not modelled.
\<close>

section \<open>Series\<close>

datatype GaugeValue = Amount int | Seconds duration | Timestamp "time option" | Flag bool

text \<open>A series by metric, NodePool and second label (empty where there is none).\<close>

type_synonym series = "string \<times> string \<times> string"

record Metrics =
  mt_counters :: "series \<rightharpoonup> nat"
  mt_histograms :: "series \<rightharpoonup> duration list"
  mt_gauges :: "series \<rightharpoonup> GaugeValue"

definition no_metrics :: Metrics where
  "no_metrics = \<lparr>mt_counters = Map.empty, mt_histograms = Map.empty, mt_gauges = Map.empty\<rparr>"

definition pool_gauges :: "string list" where
  "pool_gauges =
     [''candidates'', ''in_backoff'', ''in_progress'', ''freeze_until_timestamp'', ''age_threshold_seconds'',
      ''rotation_chances'', ''window_period_seconds'', ''short_lead_nodes'', ''drain_stuck'', ''retry_count'',
      ''policy_conflict'', ''window_active'', ''throughput_capacity'', ''t_rot_estimate_seconds'', ''t_rot_bound_seconds'']"

fun Phase_String :: "Phase \<Rightarrow> string" where
  "Phase_String PhaseSurgeWait = ''surge_wait''"
| "Phase_String PhaseDrain = ''drain''"

definition inc :: "series \<Rightarrow> Metrics \<Rightarrow> Metrics" where
  "inc s m = m\<lparr>mt_counters := (mt_counters m)(s \<mapsto> (case mt_counters m s of None \<Rightarrow> 1 | Some n \<Rightarrow> Suc n))\<rparr>"

definition setGauge :: "string \<Rightarrow> string \<Rightarrow> GaugeValue \<Rightarrow> Metrics \<Rightarrow> Metrics" where
  "setGauge metric pool v m = m\<lparr>mt_gauges := (mt_gauges m)((metric, pool, '''') \<mapsto> v)\<rparr>"

definition observeHistogram :: "series \<Rightarrow> duration \<Rightarrow> Metrics \<Rightarrow> Metrics" where
  "observeHistogram s d m =
     m\<lparr>mt_histograms := (mt_histograms m)(s \<mapsto> (case mt_histograms m s of None \<Rightarrow> [d] | Some ds \<Rightarrow> ds @ [d]))\<rparr>"

section \<open>The recorder\<close>

text \<open>The freeze is exported at its second, the zero instant (no freeze) as 0: \<open>None\<close> here.\<close>

definition pool_values :: "PoolObservation \<Rightarrow> (string \<times> GaugeValue) list" where
  "pool_values obs =
     [(''candidates'', Amount (int (po_Candidates obs))), (''in_backoff'', Amount (int (po_InBackoff obs))),
      (''in_progress'', Amount (int (po_InProgress obs))), (''short_lead_nodes'', Amount (int (po_ShortLeadNodes obs))),
      (''retry_count'', Amount (po_RetryCount obs)), (''drain_stuck'', Flag (po_DrainStuck obs)),
      (''age_threshold_seconds'', Seconds (po_AgeThreshold obs)), (''rotation_chances'', Amount (po_RotationChances obs)),
      (''window_period_seconds'', Seconds (po_WindowPeriod obs)), (''throughput_capacity'', Amount (po_ThroughputCapacity obs)),
      (''t_rot_estimate_seconds'', Seconds (po_TRotEstimate obs)), (''t_rot_bound_seconds'', Seconds (po_TRotBound obs)),
      (''freeze_until_timestamp'',
         Timestamp (if IsZero (po_FreezeUntil obs) then None else Some (TruncateSecond (po_FreezeUntil obs))))]"

definition setPool :: "string \<Rightarrow> PoolObservation \<Rightarrow> Metrics \<Rightarrow> Metrics" where
  "setPool pool obs m = fold (\<lambda>(metric, v) m. setGauge metric pool v m) (pool_values obs) m"

text \<open>The gauges go by name, the counters and the histogram by the NodePool label alone.\<close>

definition forgetPool :: "string \<Rightarrow> Metrics \<Rightarrow> Metrics" where
  "forgetPool pool m =
     (let m = m\<lparr>mt_gauges := fold (\<lambda>g gs. gs((g, pool, '''') := None)) pool_gauges (mt_gauges m)\<rparr>;
          m = m\<lparr>mt_counters := (\<lambda>(c, p, l). if c = ''completed_total'' \<and> p = pool then None else mt_counters m (c, p, l))\<rparr>;
          m = m\<lparr>mt_histograms := (\<lambda>(h, p, l). if h = ''duration_seconds'' \<and> p = pool then None else mt_histograms m (h, p, l))\<rparr>
      in m\<lparr>mt_counters := (mt_counters m)((''forceful_fallback_total'', pool, '''') := None,
              (''window_missed_total'', pool, '''') := None)\<rparr>)"

fun record_emission :: "Emission \<Rightarrow> Metrics \<Rightarrow> Metrics" where
  "record_emission (Success pool) m = inc (''completed_total'', pool, ''success'') m"
| "record_emission (Expired pool _) m = inc (''completed_total'', pool, ''expired'') m"
| "record_emission (Failure pool _) m = inc (''completed_total'', pool, ''failure'') m"
| "record_emission (ForcefulFallback pool _) m = inc (''forceful_fallback_total'', pool, '''') m"
| "record_emission (MissedWindow pool) m = inc (''window_missed_total'', pool, '''') m"
| "record_emission (ObserveWindow pool active) m = setGauge ''window_active'' pool (Flag active) m"
| "record_emission (ObservePolicyConflict pool blocked) m = setGauge ''policy_conflict'' pool (Flag blocked) m"
| "record_emission (ObserveDuration pool phase d) m = observeHistogram (''duration_seconds'', pool, Phase_String phase) d m"
| "record_emission (ObservePool pool obs) m = setPool pool obs m"
| "record_emission (ForgetPool pool) m = forgetPool pool m"
| "record_emission _ m = m"

section \<open>What the series say\<close>

definition since_forget :: "string \<Rightarrow> Emission list \<Rightarrow> Emission list" where
  "since_forget pool es = rev (takeWhile (\<lambda>e. e \<noteq> ForgetPool pool) (rev es))"

lemma since_forget_snoc [simp]:
  "since_forget pool [] = []"
  "since_forget pool (es @ [e]) = (if e = ForgetPool pool then [] else since_forget pool es @ [e])"
  by (simp_all add: since_forget_def)

fun counts :: "string \<Rightarrow> Emission \<Rightarrow> (string \<times> string) option" where
  "counts p (Success pool) = (if pool = p then Some (''completed_total'', ''success'') else None)"
| "counts p (Expired pool _) = (if pool = p then Some (''completed_total'', ''expired'') else None)"
| "counts p (Failure pool _) = (if pool = p then Some (''completed_total'', ''failure'') else None)"
| "counts p (ForcefulFallback pool _) = (if pool = p then Some (''forceful_fallback_total'', '''') else None)"
| "counts p (MissedWindow pool) = (if pool = p then Some (''window_missed_total'', '''') else None)"
| "counts p _ = None"

text \<open>
  The metric that each field of an observation is documented to be exported as (the comments of
  \<open>PoolObservation\<close> in \<open>internal/controller/recorder.go\<close>), in the order of the fields.
\<close>

definition documented :: "PoolObservation \<Rightarrow> (string \<times> GaugeValue) list" where
  "documented obs =
     [(''candidates'', Amount (int (po_Candidates obs))),
      (''in_backoff'', Amount (int (po_InBackoff obs))),
      (''in_progress'', Amount (int (po_InProgress obs))),
      (''freeze_until_timestamp'',
         Timestamp (if po_FreezeUntil obs = 0 then None else Some (po_FreezeUntil obs - po_FreezeUntil obs mod Second))),
      (''age_threshold_seconds'', Seconds (po_AgeThreshold obs)),
      (''rotation_chances'', Amount (po_RotationChances obs)),
      (''window_period_seconds'', Seconds (po_WindowPeriod obs)),
      (''short_lead_nodes'', Amount (int (po_ShortLeadNodes obs))),
      (''drain_stuck'', Flag (po_DrainStuck obs)),
      (''retry_count'', Amount (po_RetryCount obs)),
      (''throughput_capacity'', Amount (po_ThroughputCapacity obs)),
      (''t_rot_estimate_seconds'', Seconds (po_TRotEstimate obs)),
      (''t_rot_bound_seconds'', Seconds (po_TRotBound obs))]"

fun gauged :: "string \<Rightarrow> Emission \<Rightarrow> (string \<times> GaugeValue) list" where
  "gauged p (ObserveWindow pool active) = (if pool = p then [(''window_active'', Flag active)] else [])"
| "gauged p (ObservePolicyConflict pool blocked) = (if pool = p then [(''policy_conflict'', Flag blocked)] else [])"
| "gauged p (ObservePool pool obs) = (if pool = p then documented obs else [])"
| "gauged p _ = []"

fun timed :: "string \<Rightarrow> string \<Rightarrow> Emission \<Rightarrow> duration list" where
  "timed p phase (ObserveDuration pool ph d) = (if pool = p \<and> Phase_String ph = phase then [d] else [])"
| "timed p phase _ = []"

text \<open>A series that was never touched does not exist.\<close>

definition counter :: "nat \<Rightarrow> nat option" where
  "counter n = (if n = 0 then None else Some n)"

definition samples :: "duration list \<Rightarrow> duration list option" where
  "samples ds = (if ds = [] then None else Some ds)"

lemma setPool_fields [simp]:
  "mt_counters (setPool pool obs m) = mt_counters m" "mt_histograms (setPool pool obs m) = mt_histograms m"
proof -
  have "mt_counters (fold (\<lambda>(metric, v) m. setGauge metric pool v m) vs m) = mt_counters m
      \<and> mt_histograms (fold (\<lambda>(metric, v) m. setGauge metric pool v m) vs m) = mt_histograms m" for vs
    by (induction vs arbitrary: m) (auto simp: setGauge_def)
  then show "mt_counters (setPool pool obs m) = mt_counters m" "mt_histograms (setPool pool obs m) = mt_histograms m"
    by (simp_all add: setPool_def)
qed

lemma setPool_gauges:
  "mt_gauges (setPool pool obs m) (g, p, l) =
     (if p = pool \<and> l = '''' then (case map_of (rev (pool_values obs)) g of None \<Rightarrow> mt_gauges m (g, p, l) | Some v \<Rightarrow> Some v)
      else mt_gauges m (g, p, l))"
proof -
  have "mt_gauges (fold (\<lambda>(metric, v) m. setGauge metric pool v m) vs m) (g, p, l) =
     (if p = pool \<and> l = '''' then (case map_of (rev vs) g of None \<Rightarrow> mt_gauges m (g, p, l) | Some v \<Rightarrow> Some v)
      else mt_gauges m (g, p, l))" for vs
    by (induction vs arbitrary: m) (auto simp: setGauge_def map_add_def split: option.splits)
  then show ?thesis by (simp add: setPool_def)
qed

lemma forgetPool_fields:
  "mt_gauges (forgetPool pool m) (g, p, l) = (if p = pool \<and> l = '''' \<and> g \<in> set pool_gauges then None else mt_gauges m (g, p, l))"
  "mt_counters (forgetPool pool m) (c, p, l) =
     (if p = pool \<and> (c = ''completed_total'' \<or> l = '''' \<and> c \<in> {''forceful_fallback_total'', ''window_missed_total''})
      then None else mt_counters m (c, p, l))"
  "mt_histograms (forgetPool pool m) (h, p, l) = (if p = pool \<and> h = ''duration_seconds'' then None else mt_histograms m (h, p, l))"
proof -
  have "fold (\<lambda>g gs. gs((g, pool, '''') := None)) gl gs (g, p, l) = (if p = pool \<and> l = '''' \<and> g \<in> set gl then None else gs (g, p, l))"
    for gl and gs :: "series \<rightharpoonup> GaugeValue" by (induction gl arbitrary: gs) auto
  then show "mt_gauges (forgetPool pool m) (g, p, l) = (if p = pool \<and> l = '''' \<and> g \<in> set pool_gauges then None else mt_gauges m (g, p, l))"
    by (simp add: forgetPool_def Let_def)
qed (auto simp: forgetPool_def Let_def)

lemma gauged_known: "fst ` set (gauged p e) \<subseteq> set pool_gauges"
  by (cases e) (auto simp: documented_def pool_gauges_def)

text \<open>The recorder exports every field under its documented name.\<close>

lemma exported_as_documented: "map_of (rev (pool_values obs)) = map_of (rev (documented obs))"
proof -
  have keys: "distinct (map fst (rev (pool_values obs)))" "distinct (map fst (rev (documented obs)))"
    by (simp_all add: pool_values_def documented_def)
  let ?order = "[0, 1, 2, 12, 6, 7, 8, 3, 5, 4, 9, 10, 11] :: nat list"
  have "documented obs = map ((!) (pool_values obs)) ?order"
    by (simp add: pool_values_def documented_def IsZero_def TruncateSecond_def)
  moreover have "set ?order = {i. i < length (pool_values obs)}"
  proof -
    have "length (pool_values obs) = 13" by (simp add: pool_values_def)
    then show ?thesis by (simp only:) (auto, presburger)
  qed
  ultimately have "set (documented obs) = (!) (pool_values obs) ` {i. i < length (pool_values obs)}" by (metis list.set_map)
  also have "\<dots> = set (pool_values obs)" by (auto simp only: set_conv_nth image_def mem_Collect_eq Bex_def)
  finally have "set (rev (pool_values obs)) = set (rev (documented obs))" by simp
  with map_of_inject_set [OF keys] show ?thesis by simp
qed

lemma map_of_known:
  assumes "g \<notin> set pool_gauges"
  shows "map_of (rev (concat (map (gauged p) es))) g = None"
proof -
  have "fst ` set (concat (map (gauged p) es)) \<subseteq> set pool_gauges" using gauged_known [of p] by fastforce
  with assms show ?thesis unfolding map_of_eq_None_iff set_rev by blast
qed

text \<open>What one call does to a series.\<close>

lemma record_gauges:
  assumes "\<And>pool. e \<noteq> ForgetPool pool"
  shows "mt_gauges (record_emission e m) (g, p, l) =
     (if l = '''' then (case map_of (rev (gauged p e)) g of None \<Rightarrow> mt_gauges m (g, p, l) | Some v \<Rightarrow> Some v)
      else mt_gauges m (g, p, l))"
  using assms by (cases e) (auto simp: setGauge_def inc_def observeHistogram_def setPool_gauges exported_as_documented)

lemma record_counters:
  assumes "\<And>pool. e \<noteq> ForgetPool pool"
  shows "mt_counters (record_emission e m) (c, p, l) =
     (if counts p e = Some (c, l) then Some (case mt_counters m (c, p, l) of None \<Rightarrow> 1 | Some n \<Rightarrow> Suc n)
      else mt_counters m (c, p, l))"
  using assms by (cases e) (auto simp: setGauge_def inc_def observeHistogram_def)

lemma record_histograms:
  assumes "\<And>pool. e \<noteq> ForgetPool pool"
  shows "mt_histograms (record_emission e m) (h, p, l) =
     (if h = ''duration_seconds'' \<and> timed p l e \<noteq> []
      then Some ((case mt_histograms m (h, p, l) of None \<Rightarrow> [] | Some ds \<Rightarrow> ds) @ timed p l e)
      else mt_histograms m (h, p, l))"
  using assms by (cases e) (auto simp: setGauge_def inc_def observeHistogram_def split: option.split)

lemma counts_known:
  "counts p e = Some (c, l) \<Longrightarrow>
     c = ''completed_total'' \<or> l = '''' \<and> (c = ''forceful_fallback_total'' \<or> c = ''window_missed_total'')"
  by (cases "(p, e)" rule: counts.cases) (auto split: if_splits)

lemma gauges_of_history:
  "mt_gauges (fold record_emission es no_metrics) (g, p, l) =
     (if l = '''' then map_of (rev (concat (map (gauged p) (since_forget p es)))) g else None)"
proof (induction es rule: rev_induct)
  case (snoc e es)
  show ?case
  proof (cases "\<exists>pool. e = ForgetPool pool")
    case True
    with snoc map_of_known [of g p "since_forget p es"] show ?thesis by (auto simp: forgetPool_fields)
  next
    case False
    then have other: "\<And>pool. e \<noteq> ForgetPool pool" by blast
    from snoc show ?thesis
      by (auto simp: record_gauges [OF other] other map_add_def simp del: record_emission.simps split: option.split)
  qed
qed (simp add: no_metrics_def)

lemma counters_of_history:
  "mt_counters (fold record_emission es no_metrics) (c, p, l) =
     counter (length (filter (\<lambda>e. counts p e = Some (c, l)) (since_forget p es)))"
proof (induction es rule: rev_induct)
  case (snoc e es)
  show ?case
  proof (cases "\<exists>pool. e = ForgetPool pool")
    case True
    then obtain pool where e: "e = ForgetPool pool" by blast
    have "filter (\<lambda>e. counts p e = Some (c, l)) es' = []"
      if "\<not> (c = ''completed_total'' \<or> l = '''' \<and> c \<in> {''forceful_fallback_total'', ''window_missed_total''})" for es'
      using that counts_known [of p _ c l] by (auto simp: filter_empty_conv)
    with e snoc show ?thesis by (auto simp: forgetPool_fields(2) counter_def simp del: since_forget_def)
  next
    case False
    then have other: "\<And>pool. e \<noteq> ForgetPool pool" by blast
    show ?thesis
      by (simp add: record_counters [OF other] snoc other counter_def del: record_emission.simps)
  qed
qed (simp add: no_metrics_def counter_def)

lemma histograms_of_history:
  "mt_histograms (fold record_emission es no_metrics) (h, p, l) =
     (if h = ''duration_seconds'' then samples (concat (map (timed p l) (since_forget p es))) else None)"
proof (induction es rule: rev_induct)
  case (snoc e es)
  show ?case
  proof (cases "\<exists>pool. e = ForgetPool pool")
    case True
    with snoc show ?thesis by (auto simp: forgetPool_fields(3) samples_def)
  next
    case False
    then have other: "\<And>pool. e \<noteq> ForgetPool pool" by blast
    from snoc show ?thesis
      by (cases "h = ''duration_seconds''")
        (simp_all add: record_histograms [OF other] other samples_def del: record_emission.simps split: if_split_asm)
  qed
qed (simp add: no_metrics_def samples_def)

text \<open>
  C30. The exported series tell what happened since the NodePool was last forgotten, and nothing else.
  After any history of calls of the recorder, every counter of a NodePool is the number of the
  announcements it counts, every gauge the value last observed for the field that is documented to be
  exported under its name, and every histogram the durations observed, all since the last
  \<open>ForgetPool\<close> of that NodePool; a series nothing touched since does not exist. So a forgotten
  NodePool has no series left, and no call for another NodePool has an influence. This holds for
  \<open>window_active\<close> too: the comment of \<open>Recorder.ForgetPool\<close>, which excepts a cluster-wide
  window-active gauge, is out of date (the gauge is per NodePool, and the recorder deletes its series).
\<close>

theorem series_tell_history:
  "let m = fold record_emission es no_metrics; recent = since_forget pool es
   in mt_counters m (c, pool, l) = counter (length (filter (\<lambda>e. counts pool e = Some (c, l)) recent))
      \<and> mt_gauges m (c, pool, l) = (if l = '''' then map_of (rev (concat (map (gauged pool) recent))) c else None)
      \<and> mt_histograms m (c, pool, l) =
          (if c = ''duration_seconds'' then samples (concat (map (timed pool l) recent)) else None)"
  unfolding Let_def by (simp only: counters_of_history gauges_of_history histograms_of_history)

end
