(* ===== verification/Simulator.thy ===== *)
theory Simulator
  imports Decide Schedule Policy Window
begin

text \<open>
  The rotation simulator (\<open>internal/sim\<close>): a virtual clock over a fleet, which asks the same gates,
  selection and fallback as the controller. The run state is the source's \<open>run\<close> struct; an operation
  that could panic (an index out of range) has an option result, \<open>None\<close> being the panic. Indices are
  the source's \<open>int\<close>. A step is one round of the clock; the budget of rounds is the code's own
  \<open>maxSteps\<close>, so no other fuel is needed. Diagnostic messages are kept as their arguments, and an
  instant carries no zone: the annotation of the last rotation is written in UTC.
\<close>

section \<open>The world\<close>

definition tick :: duration where "tick = Minute"
definition maxSteps :: nat where "maxSteps = 2000000"

record Env =
  env_Provisioning :: duration
  env_Drain :: duration

record FleetNode =
  fn_Name :: string
  fn_CreatedAt :: time
  fn_ExpireAfter :: "duration option"
  fn_TGP :: "duration option"

record Fleet =
  fl_ExpireAfter :: duration
  fl_TGP :: "duration option"
  fl_Nodes :: "FleetNode list"

record Options =
  op_Start :: time
  op_End :: time

section \<open>The timeline\<close>

datatype Kind =
    KindWindowOpen | KindWindowClose | KindRotationStart | KindNodeReady | KindRotationDone
  | KindExpireAfterBreach | KindBlockedByGate | KindNoEligibleClaim

text \<open>The zero values of Go stand for absent ones: \<open>Until\<close> 0, an empty name, \<open>GateNone\<close>.\<close>

record Event =
  ev_Kind :: Kind
  ev_At :: time
  ev_Until :: time
  ev_Node :: string
  ev_Replacement :: string
  ev_Surgeless :: bool
  ev_Gate :: Gate
  ev_Census :: "Census option"

definition event :: "Kind \<Rightarrow> time \<Rightarrow> Event" where
  "event k t =
     \<lparr>ev_Kind = k, ev_At = t, ev_Until = 0, ev_Node = '''', ev_Replacement = '''', ev_Surgeless = False,
      ev_Gate = GateNone, ev_Census = None\<rparr>"

datatype BirthMode = BirthInitial | BirthSurge | BirthSurgeless
datatype DrainCapSource = DrainCapExplicit | DrainCapFallback

record Generation =
  g_Slot :: int
  g_Gen :: int
  g_Name :: string
  g_BirthMode :: BirthMode
  g_PredecessorGen :: "int option"
  g_CreatedAt :: time
  g_ExpireAfter :: duration
  g_DrainCap :: duration
  g_DrainCapSource :: DrainCapSource
  g_Deadline :: time
  g_EligibilityBoundary :: time
  g_ReadyAt :: time
  g_Provisional :: bool

datatype RotationPath = RotationSurge | RotationSurgeless

record RotationRecord =
  ro_Slot :: int
  ro_FromGen :: int
  ro_ToGen :: "int option"
  ro_Mode :: RotationPath
  ro_Start :: time
  ro_Ready :: time
  ro_Done :: time

record WindowInterval =
  wv_Start :: time
  wv_End :: time
  wv_StartClipped :: bool
  wv_EndClipped :: bool

datatype DiagMessage =
    MsgProvisioning duration duration
  | MsgFinding "MsgArg list"
  | MsgBudget time
  | MsgDrain duration string duration

record Diagnostic =
  dg_Severity :: Severity
  dg_Code :: string
  dg_Message :: DiagMessage

record Timeline =
  tl_Events :: "Event list"
  tl_Generations :: "Generation list"
  tl_Rotations :: "RotationRecord list"
  tl_Windows :: "WindowInterval list"
  tl_SimulatedThrough :: time
  tl_Result :: Result
  tl_Inputs :: Inputs
  tl_Diagnostics :: "Diagnostic list"
  tl_Partial :: bool

section \<open>The resolution\<close>

record SimResolved =
  sv_LeadTime :: LeadTime
  sv_Override :: "duration option"
  sv_RetryBackoff :: duration
  sv_ReadyTimeout :: duration
  sv_Cooldown :: duration
  sv_FailurePause :: duration
  sv_DrainBound :: duration
  sv_Derived :: Result
  sv_Inputs :: Inputs

definition sim_Resolve :: "Policy \<Rightarrow> Schedule \<Rightarrow> Fleet \<Rightarrow> AgeError + SimResolved" where
  "sim_Resolve pol sched f =
     (let s = p_Surge pol; p = deref (WorstCasePeriod sched); d = deref (ShortestWindow sched);
          idleGap = ShortestIdleGap sched
      in case AgeThresholdOverride pol of
           Inl e \<Rightarrow> Inl e
         | Inr ov \<Rightarrow>
             (let (tgp, unset) = (case fl_TGP f of None \<Rightarrow> (DrainFallback, True) | Some t \<Rightarrow> (t, False));
                  drainBound = (if unset then DrainFallback else add64 tgp Buffer);
                  failurePause = (case su_FailurePause s of
                      None \<Rightarrow> max FailurePauseFloor (deref (su_CooldownAfter s)) | Some d \<Rightarrow> d);
                  inputs =
                    \<lparr>in_E = fl_ExpireAfter f, in_TGP = tgp, in_TGPWasUnset = unset, in_P = p,
                     in_WindowLen = d, in_IdleGap = idleGap, in_ReadyTimeout = deref (su_ReadyTimeout s),
                     in_Cooldown = deref (su_CooldownAfter s), in_DrainEstimate = su_DrainEstimate s,
                     in_ProvisioningEstimate = su_ProvisioningEstimate s,
                     in_RetryBackoff = deref (su_RetryBackoff s), in_K = policy_K pol,
                     in_MaxUnavailable = SurgeMaxUnavailable pol,
                     in_NodeCount = int (length (fl_Nodes f)), in_Override = ov\<rparr>
              in Inr
                   \<lparr>sv_LeadTime =
                      \<lparr>lt_Base = add64 (add64 (mul64 (policy_K pol) p) (deref (su_ReadyTimeout s))) Buffer,
                       lt_DrainFallback = DrainFallback\<rparr>,
                    sv_Override = ov, sv_RetryBackoff = deref (su_RetryBackoff s),
                    sv_ReadyTimeout = deref (su_ReadyTimeout s), sv_Cooldown = deref (su_CooldownAfter s),
                    sv_FailurePause = failurePause, sv_DrainBound = drainBound,
                    sv_Derived = Derive inputs, sv_Inputs = inputs\<rparr>))"

section \<open>The run state\<close>

record SimNode =
  sn_base :: string
  sn_gen :: int
  sn_createdAt :: time
  sn_expireAfter :: duration
  sn_tgp :: "duration option"
  sn_state :: string
  sn_breached :: bool

definition sim_name :: "SimNode \<Rightarrow> string" where
  "sim_name n = (if sn_gen n = 0 then sn_base n else sn_base n @ ''-r'' @ Itoa (sn_gen n))"

definition sim_deadline :: "SimNode \<Rightarrow> time" where
  "sim_deadline n = sn_createdAt n + sn_expireAfter n"

record SimRotation =
  sr_slot :: int
  sr_start :: time
  sr_readyAt :: time
  sr_doneAt :: time
  sr_surgeless :: bool
  sr_rotIdx :: int
  sr_genIdx :: int

record SimRun =
  rn_pol :: Policy
  rn_sched :: Schedule
  rn_res :: SimResolved
  rn_env :: Env
  rn_opts :: Options
  rn_template :: Fleet
  rn_nodes :: "SimNode list"
  rn_poolAnn :: annots
  rn_rot :: "SimRotation option"
  rn_tl :: Timeline
  rn_blockFrom :: time
  rn_blockGate :: Gate
  rn_censusFrom :: time
  rn_census :: Census
  rn_hasCensus :: bool
  rn_winOpen :: bool

text \<open>Reading and updating a slice at an index; outside its bounds Go panics.\<close>

definition at :: "'a list \<Rightarrow> int \<Rightarrow> 'a option" where
  "at xs i = (if 0 \<le> i \<and> i < int (length xs) then Some (xs ! nat i) else None)"

definition put :: "'a list \<Rightarrow> int \<Rightarrow> ('a \<Rightarrow> 'a) \<Rightarrow> 'a list option" where
  "put xs i f = (if 0 \<le> i \<and> i < int (length xs) then Some (xs[nat i := f (xs ! nat i)]) else None)"

definition sim_emit :: "Event \<Rightarrow> SimRun \<Rightarrow> SimRun" where
  "sim_emit e r = r\<lparr>rn_tl := (rn_tl r)\<lparr>tl_Events := tl_Events (rn_tl r) @ [e]\<rparr>\<rparr>"

definition diagOnce :: "Diagnostic \<Rightarrow> SimRun \<Rightarrow> SimRun" where
  "diagOnce d r =
     (if list_ex (\<lambda>e. dg_Code e = dg_Code d \<and> dg_Message e = dg_Message d) (tl_Diagnostics (rn_tl r)) then r
      else r\<lparr>rn_tl := (rn_tl r)\<lparr>tl_Diagnostics := tl_Diagnostics (rn_tl r) @ [d]\<rparr>\<rparr>)"

definition eligibilityBoundary :: "SimRun \<Rightarrow> SimNode \<Rightarrow> time" where
  "eligibilityBoundary r n =
     (case sv_Override (rn_res r) of
        Some ov \<Rightarrow> sn_createdAt n + ov
      | None \<Rightarrow>
          (let c = \<lparr>c_Name = '''', c_CreatedAt = 0, c_Deleting = False, c_ExpireAfter = None,
                    c_TGP = sn_tgp n, c_Ready = False, c_Annotations = Map.empty\<rparr>
           in sim_deadline n + sub64 0 (LeadTime_For (sv_LeadTime (rn_res r)) c)))"

definition drainCap :: "SimNode \<Rightarrow> duration \<times> DrainCapSource" where
  "drainCap n =
     (case sn_tgp n of Some d \<Rightarrow> (d, DrainCapExplicit) | None \<Rightarrow> (DrainFallback, DrainCapFallback))"

definition drainFor :: "SimNode \<Rightarrow> SimRun \<Rightarrow> duration \<times> SimRun" where
  "drainFor n r =
     (let bound = fst (drainCap n); d = env_Drain (rn_env r)
      in if bound < d
         then (bound, diagOnce \<lparr>dg_Severity = Warn, dg_Code = ''EnvDrainAboveTGP'',
                 dg_Message = MsgDrain d (sim_name n) bound\<rparr> r)
         else (d, r))"

definition recordGeneration ::
  "int \<Rightarrow> SimNode \<Rightarrow> BirthMode \<Rightarrow> int option \<Rightarrow> bool \<Rightarrow> SimRun \<Rightarrow> int \<times> SimRun" where
  "recordGeneration slot n birth predecessor provisional r =
     (let (bound, src) = drainCap n;
          g = \<lparr>g_Slot = slot, g_Gen = sn_gen n, g_Name = sim_name n, g_BirthMode = birth,
               g_PredecessorGen = predecessor, g_CreatedAt = sn_createdAt n,
               g_ExpireAfter = sn_expireAfter n, g_DrainCap = bound, g_DrainCapSource = src,
               g_Deadline = sim_deadline n, g_EligibilityBoundary = eligibilityBoundary r n,
               g_ReadyAt = 0, g_Provisional = provisional\<rparr>;
          r = r\<lparr>rn_tl := (rn_tl r)\<lparr>tl_Generations := tl_Generations (rn_tl r) @ [g]\<rparr>\<rparr>
      in (int (length (tl_Generations (rn_tl r))) - 1, r))"

definition init_node :: "Fleet \<Rightarrow> FleetNode \<Rightarrow> SimNode" where
  "init_node f n =
     \<lparr>sn_base = fn_Name n, sn_gen = 0, sn_createdAt = fn_CreatedAt n,
      sn_expireAfter = (case fn_ExpireAfter n of Some e \<Rightarrow> e | None \<Rightarrow> fl_ExpireAfter f),
      sn_tgp = (case fn_TGP n of Some t \<Rightarrow> Some t | None \<Rightarrow> fl_TGP f), sn_state = '''', sn_breached = False\<rparr>"

fun record_initial :: "int \<Rightarrow> SimNode list \<Rightarrow> SimRun \<Rightarrow> SimRun" where
  "record_initial i [] r = r"
| "record_initial i (n # ns) r = record_initial (i + 1) ns (snd (recordGeneration i n BirthInitial None False r))"

definition initFleet :: "Fleet \<Rightarrow> SimRun \<Rightarrow> SimRun" where
  "initFleet f r =
     (let r = r\<lparr>rn_template := f, rn_nodes := map (init_node f) (fl_Nodes f)\<rparr>
      in record_initial 0 (rn_nodes r) r)"

section \<open>Windows\<close>

definition openWindow :: "time \<Rightarrow> SimRun \<Rightarrow> SimRun" where
  "openWindow t r =
     r\<lparr>rn_tl := (rn_tl r)\<lparr>tl_Windows := tl_Windows (rn_tl r) @
           [\<lparr>wv_Start = t, wv_End = 0,
             wv_StartClipped = (InWindow (rn_sched r) t \<and> InWindow (rn_sched r) (t - 1)), wv_EndClipped = False\<rparr>]\<rparr>,
       rn_winOpen := True\<rparr>"

definition closeWindow :: "time \<Rightarrow> bool \<Rightarrow> SimRun \<Rightarrow> SimRun option" where
  "closeWindow t clipped r =
     (if \<not> rn_winOpen r then Some r
      else do { ws \<leftarrow> put (tl_Windows (rn_tl r)) (int (length (tl_Windows (rn_tl r))) - 1)
                       (\<lambda>w. w\<lparr>wv_End := t, wv_EndClipped := clipped\<rparr>);
                Some (r\<lparr>rn_tl := (rn_tl r)\<lparr>tl_Windows := ws\<rparr>, rn_winOpen := False\<rparr>) })"

end
