(* ===== verification/SimLoop.thy ===== *)
theory SimLoop
  imports Simulator
begin

text \<open>
  The clock of the simulator (\<open>internal/sim/loop.go\<close>) and its entry point \<open>Run\<close>
  (\<open>internal/sim/sim.go\<close>). \<open>sim_rounds\<close> is the \<open>for\<close> loop; its first argument is what is left of
  \<open>maxSteps\<close>. It returns the state, the last instant it processed, and whether the budget ran out.
\<close>

section \<open>Coalesced events\<close>

definition flushBlocked :: "time \<Rightarrow> SimRun \<Rightarrow> SimRun" where
  "flushBlocked t r =
     (if IsZero (rn_blockFrom r) then r
      else (sim_emit ((event KindBlockedByGate (rn_blockFrom r))\<lparr>ev_Until := t, ev_Gate := rn_blockGate r\<rparr>) r)
             \<lparr>rn_blockFrom := 0, rn_blockGate := GateNone\<rparr>)"

definition recordBlocked :: "time \<Rightarrow> Gate \<Rightarrow> SimRun \<Rightarrow> SimRun" where
  "recordBlocked now gate r =
     (if rn_blockGate r = gate \<and> \<not> IsZero (rn_blockFrom r) then r
      else (flushBlocked now r)\<lparr>rn_blockGate := gate, rn_blockFrom := now\<rparr>)"

definition flushCensus :: "time \<Rightarrow> SimRun \<Rightarrow> SimRun" where
  "flushCensus t r =
     (if \<not> rn_hasCensus r then r
      else (sim_emit ((event KindNoEligibleClaim (rn_censusFrom r))\<lparr>ev_Until := t, ev_Census := Some (rn_census r)\<rparr>) r)
             \<lparr>rn_hasCensus := False\<rparr>)"

definition recordCensus :: "time \<Rightarrow> Census \<Rightarrow> SimRun \<Rightarrow> SimRun" where
  "recordCensus now c r =
     (if rn_hasCensus r \<and> rn_census r = c then r
      else (flushCensus now r)\<lparr>rn_census := c, rn_censusFrom := now, rn_hasCensus := True\<rparr>)"

definition sim_firstFatal :: "Finding list \<Rightarrow> Finding option" where
  "sim_firstFatal fs = List.find (\<lambda>f. f_Severity f = Fatal) fs"

section \<open>Views\<close>

definition sim_view :: "SimNode \<Rightarrow> Claim" where
  "sim_view n =
     \<lparr>c_Name = sim_name n, c_CreatedAt = sn_createdAt n, c_Deleting = False,
      c_ExpireAfter = Some (sn_expireAfter n), c_TGP = sn_tgp n, c_Ready = True,
      c_Annotations = (if sn_state n \<noteq> '''' then [State \<mapsto> sn_state n] else Map.empty)\<rparr>"

definition views :: "SimRun \<Rightarrow> Claim list" where
  "views r = map sim_view (rn_nodes r)"

definition sim_hasFailedClaim :: "Claim list \<Rightarrow> bool" where
  "sim_hasFailedClaim vs = list_ex (\<lambda>c. aget (c_Annotations c) State = StateFailed) vs"

definition selectionInputs :: "SimRun \<Rightarrow> time \<Rightarrow> Claim list \<Rightarrow> SelInputs" where
  "selectionInputs r now vs =
     (let inp = \<lparr>si_Now = now, si_LeadTime = sv_LeadTime (rn_res r), si_Override = sv_Override (rn_res r),
                 si_RetryBackoff = sv_RetryBackoff (rn_res r), si_Excluded = {}, si_WindowStart = 0, si_WindowEnd = 0\<rparr>
      in if sim_hasFailedClaim vs
         then (case OccurrenceBounds (rn_sched r) now of
                 Some (st, en) \<Rightarrow> inp\<lparr>si_WindowStart := st, si_WindowEnd := en\<rparr> | None \<Rightarrow> inp)
         else inp)"

fun index_from :: "int \<Rightarrow> string \<Rightarrow> SimNode list \<Rightarrow> int" where
  "index_from i name [] = -1"
| "index_from i name (n # ns) = (if sim_name n = name then i else index_from (i + 1) name ns)"

definition slotOf :: "SimRun \<Rightarrow> string \<Rightarrow> int" where
  "slotOf r name = index_from 0 name (rn_nodes r)"

section \<open>Breaches\<close>

fun breach_nodes :: "time \<Rightarrow> SimNode list \<Rightarrow> SimNode list \<times> Event list" where
  "breach_nodes now [] = ([], [])"
| "breach_nodes now (n # ns) =
     (let (ns', es) = breach_nodes now ns
      in if \<not> sn_breached n \<and> \<not> now < sim_deadline n
         then (n\<lparr>sn_breached := True\<rparr> # ns',
               (event KindExpireAfterBreach (sim_deadline n))\<lparr>ev_Node := sim_name n\<rparr> # es)
         else (n # ns', es))"

definition breachCheck :: "time \<Rightarrow> SimRun \<Rightarrow> SimRun" where
  "breachCheck now r =
     (let (ns, es) = breach_nodes now (rn_nodes r)
      in fold sim_emit es (r\<lparr>rn_nodes := ns\<rparr>))"

section \<open>The rotation in flight\<close>

definition put_node :: "int \<Rightarrow> (SimNode \<Rightarrow> SimNode) \<Rightarrow> SimRun \<Rightarrow> SimRun option" where
  "put_node i f r = do { ns \<leftarrow> put (rn_nodes r) i f; Some (r\<lparr>rn_nodes := ns\<rparr>) }"

definition put_rotation :: "int \<Rightarrow> (RotationRecord \<Rightarrow> RotationRecord) \<Rightarrow> SimRun \<Rightarrow> SimRun option" where
  "put_rotation i f r =
     do { rs \<leftarrow> put (tl_Rotations (rn_tl r)) i f; Some (r\<lparr>rn_tl := (rn_tl r)\<lparr>tl_Rotations := rs\<rparr>\<rparr>) }"

definition put_generation :: "int \<Rightarrow> (Generation \<Rightarrow> Generation) \<Rightarrow> SimRun \<Rightarrow> SimRun option" where
  "put_generation i f r =
     do { gs \<leftarrow> put (tl_Generations (rn_tl r)) i f; Some (r\<lparr>rn_tl := (rn_tl r)\<lparr>tl_Generations := gs\<rparr>\<rparr>) }"

text \<open>The surge node is Ready: the old node starts draining.\<close>

definition nodeReadied :: "SimRotation \<Rightarrow> SimNode \<Rightarrow> SimRun \<Rightarrow> SimRun option" where
  "nodeReadied rot n r =
     do { r \<leftarrow> put_node (sr_slot rot) (\<lambda>n. n\<lparr>sn_state := StateDraining\<rparr>) r;
          r \<leftarrow> Some (sim_emit ((event KindNodeReady (sr_readyAt rot))\<lparr>ev_Node := sim_name n\<rparr>) r);
          r \<leftarrow> put_rotation (sr_rotIdx rot) (\<lambda>x. x\<lparr>ro_Ready := sr_readyAt rot\<rparr>) r;
          put_generation (sr_genIdx rot) (\<lambda>g. g\<lparr>g_ReadyAt := sr_readyAt rot\<rparr>) r }"

text \<open>The slot's next generation.\<close>

definition replaced :: "Fleet \<Rightarrow> SimRotation \<Rightarrow> SimNode \<Rightarrow> SimNode" where
  "replaced template rot n =
     n\<lparr>sn_gen := sn_gen n + 1,
       sn_createdAt := (if sr_surgeless rot then sr_doneAt rot else sr_start rot),
       sn_expireAfter := fl_ExpireAfter template, sn_tgp := fl_TGP template, sn_state := '''',
       sn_breached := False\<rparr>"

definition rotationDone :: "SimRotation \<Rightarrow> SimNode \<Rightarrow> SimRun \<Rightarrow> SimRun option" where
  "rotationDone rot n r =
     (let n' = replaced (rn_template r) rot n
      in do { r \<leftarrow> put_node (sr_slot rot) (\<lambda>_. n') r;
              r \<leftarrow> Some (r\<lparr>rn_poolAnn := (rn_poolAnn r)(LastRotationAt \<mapsto> rfc3339 (sr_doneAt rot))\<rparr>);
              r \<leftarrow> Some (sim_emit ((event KindRotationDone (sr_doneAt rot))
                     \<lparr>ev_Node := sim_name n, ev_Replacement := sim_name n', ev_Surgeless := sr_surgeless rot\<rparr>) r);
              r \<leftarrow> put_rotation (sr_rotIdx rot) (\<lambda>x. x\<lparr>ro_Done := sr_doneAt rot\<rparr>) r;
              r \<leftarrow> (if sr_surgeless rot
                   then put_rotation (sr_rotIdx rot) (\<lambda>x. x\<lparr>ro_ToGen := Some (sn_gen n')\<rparr>)
                          (snd (recordGeneration (sr_slot rot) n' BirthSurgeless (Some (sn_gen n' - 1)) False r))
                   else put_generation (sr_genIdx rot) (\<lambda>g. g\<lparr>g_Provisional := False\<rparr>) r);
              Some (r\<lparr>rn_rot := None\<rparr>) })"

definition sim_advance :: "time \<Rightarrow> SimRun \<Rightarrow> SimRun option" where
  "sim_advance now r =
     (case rn_rot r of
        None \<Rightarrow> Some r
      | Some rot \<Rightarrow>
          do { n \<leftarrow> at (rn_nodes r) (sr_slot rot);
               r \<leftarrow> (if \<not> sr_surgeless rot \<and> sn_state n = StatePending \<and> \<not> now < sr_readyAt rot
                    then nodeReadied rot n r else Some r);
               if now < sr_doneAt rot then Some r
               else do { n \<leftarrow> at (rn_nodes r) (sr_slot rot); rotationDone rot n r } })"

definition sim_next :: "time \<Rightarrow> SimRun \<Rightarrow> time" where
  "sim_next now r =
     (let next = now - now mod tick + tick
      in case rn_rot r of
           None \<Rightarrow> next
         | Some rot \<Rightarrow>
             (let next = (if \<not> sr_surgeless rot \<and> now < sr_readyAt rot \<and> sr_readyAt rot < next
                          then sr_readyAt rot else next)
              in if now < sr_doneAt rot \<and> sr_doneAt rot < next then sr_doneAt rot else next))"

section \<open>Starting a rotation\<close>

definition beginSurgeless :: "time \<Rightarrow> int \<Rightarrow> SimNode \<Rightarrow> duration \<Rightarrow> SimRun \<Rightarrow> (SimRotation \<times> RotationRecord \<times> SimRun) option" where
  "beginSurgeless now slot n drain r =
     do { r \<leftarrow> put_node slot (\<lambda>n. n\<lparr>sn_state := StateDraining\<rparr>) r;
          Some (\<lparr>sr_slot = slot, sr_start = now, sr_readyAt = 0, sr_doneAt = now + drain,
                 sr_surgeless = True, sr_rotIdx = 0, sr_genIdx = -1\<rparr>,
                \<lparr>ro_Slot = slot, ro_FromGen = sn_gen n, ro_ToGen = None, ro_Mode = RotationSurgeless,
                 ro_Start = now, ro_Ready = 0, ro_Done = 0\<rparr>, r) }"

definition surge_replacement :: "Fleet \<Rightarrow> time \<Rightarrow> SimNode \<Rightarrow> SimNode" where
  "surge_replacement template now n =
     \<lparr>sn_base = sn_base n, sn_gen = sn_gen n + 1, sn_createdAt = now,
      sn_expireAfter = fl_ExpireAfter template, sn_tgp = fl_TGP template, sn_state = '''', sn_breached = False\<rparr>"

definition beginSurge :: "time \<Rightarrow> int \<Rightarrow> SimNode \<Rightarrow> duration \<Rightarrow> SimRun \<Rightarrow> (SimRotation \<times> RotationRecord \<times> SimRun) option" where
  "beginSurge now slot n drain r =
     do { r \<leftarrow> put_node slot (\<lambda>n. n\<lparr>sn_state := StatePending\<rparr>) r;
          let ready = now + env_Provisioning (rn_env r);
              next = surge_replacement (rn_template r) now n;
              (genIdx, r) = recordGeneration slot next BirthSurge (Some (sn_gen n)) True r
          in Some (\<lparr>sr_slot = slot, sr_start = now, sr_readyAt = ready, sr_doneAt = ready + drain,
                    sr_surgeless = False, sr_rotIdx = 0, sr_genIdx = genIdx\<rparr>,
                   \<lparr>ro_Slot = slot, ro_FromGen = sn_gen n, ro_ToGen = Some (sn_gen next), ro_Mode = RotationSurge,
                    ro_Start = now, ro_Ready = 0, ro_Done = 0\<rparr>, r) }"

definition beginRotationOf :: "time \<Rightarrow> Claim \<Rightarrow> DecideInputs \<Rightarrow> SimRun \<Rightarrow> SimRun option" where
  "beginRotationOf now pick gi r =
     (let slot = slotOf r (c_Name pick)
      in do { n \<leftarrow> at (rn_nodes r) slot;
              let surgeless = SurgelessFallback pick gi;
                  (drain, r) = drainFor n r
              in do { (rot, rec, r) \<leftarrow> (if surgeless then beginSurgeless else beginSurge) now slot n drain r;
                      let r = r\<lparr>rn_tl := (rn_tl r)\<lparr>tl_Rotations := tl_Rotations (rn_tl r) @ [rec]\<rparr>\<rparr>;
                          rot = rot\<lparr>sr_rotIdx := int (length (tl_Rotations (rn_tl r))) - 1\<rparr>;
                          r = r\<lparr>rn_rot := Some rot\<rparr>
                      in Some (sim_emit ((event KindRotationStart now)\<lparr>ev_Node := sim_name n, ev_Surgeless := surgeless\<rparr>) r) } })"

definition sim_gates :: "time \<Rightarrow> bool \<Rightarrow> SimRun \<Rightarrow> DecideInputs" where
  "sim_gates now inWindow r =
     \<lparr>di_Now = now, di_InWindow = inWindow, di_Annotations = rn_poolAnn r, di_Cooldown = sv_Cooldown (rn_res r),
      di_FailurePause = sv_FailurePause (rn_res r),
      di_FallbackEnabled = ft_Enabled (su_ForcefulFallback (p_Surge (rn_pol r))),
      di_ReadyTimeout = sv_ReadyTimeout (rn_res r), di_DrainBound = sv_DrainBound (rn_res r)\<rparr>"

definition maybeStart :: "time \<Rightarrow> bool \<Rightarrow> SimRun \<Rightarrow> SimRun option" where
  "maybeStart now inWindow r =
     (if sim_firstFatal (r_Findings (sv_Derived (rn_res r))) \<noteq> None then Some r
      else let gi = sim_gates now inWindow r; (open, gate) = StartGate gi
           in if \<not> open then Some (recordBlocked now gate (flushCensus now r))
              else let r = flushBlocked now r; vs = views r; sel = selectionInputs r now vs
                   in case PickEarliestDeadlineEligible vs sel of
                        None \<Rightarrow> Some (recordCensus now (TakeCensus vs sel) r)
                      | Some pick \<Rightarrow> beginRotationOf now pick gi (flushCensus now r))"

section \<open>The clock\<close>

definition windowEdge :: "time \<Rightarrow> bool \<Rightarrow> SimRun \<Rightarrow> (bool \<times> SimRun) option" where
  "windowEdge now inWindow r =
     (let open = InWindow (rn_sched r) now
      in if open = inWindow then Some (inWindow, r)
         else if open then Some (open, openWindow now (sim_emit (event KindWindowOpen now) r))
         else do { r \<leftarrow> closeWindow now False (sim_emit (event KindWindowClose now) r); Some (open, r) })"

definition sim_round :: "time \<Rightarrow> bool \<Rightarrow> SimRun \<Rightarrow> (bool \<times> SimRun) option" where
  "sim_round now inWindow r =
     do { (inWindow, r) \<leftarrow> windowEdge now inWindow r;
          r \<leftarrow> sim_advance now r;
          r \<leftarrow> Some (breachCheck now r);
          r \<leftarrow> (if rn_rot r = None then maybeStart now inWindow r else Some r);
          Some (inWindow, r) }"

definition exhaust :: "time \<Rightarrow> SimRun \<Rightarrow> SimRun" where
  "exhaust lastProcessed r =
     diagOnce \<lparr>dg_Severity = Warn, dg_Code = ''StepBudgetExhausted'', dg_Message = MsgBudget lastProcessed\<rparr>
       (r\<lparr>rn_tl := (rn_tl r)\<lparr>tl_Partial := True\<rparr>\<rparr>)"

fun sim_rounds :: "nat \<Rightarrow> time \<Rightarrow> time \<Rightarrow> bool \<Rightarrow> SimRun \<Rightarrow> (bool \<times> time \<times> SimRun) option" where
  "sim_rounds budget lastProcessed now inWindow r =
     (if op_End (rn_opts r) < now then Some (False, lastProcessed, r)
      else case budget of
             0 \<Rightarrow> Some (True, lastProcessed, exhaust lastProcessed r)
           | Suc budget \<Rightarrow>
               do { (inWindow, r) \<leftarrow> sim_round now inWindow r;
                    let next = sim_next now r
                    in if \<not> now < next then Some (False, now, r) else sim_rounds budget now next inWindow r })"

declare sim_rounds.simps [simp del]

definition refuseFatal :: "SimRun \<Rightarrow> SimRun" where
  "refuseFatal r =
     (case sim_firstFatal (r_Findings (sv_Derived (rn_res r))) of
        None \<Rightarrow> r
      | Some f \<Rightarrow> diagOnce \<lparr>dg_Severity = Fatal, dg_Code = f_Code f, dg_Message = MsgFinding (f_Message f)\<rparr> r)"

definition sim_sweep :: "time \<Rightarrow> SimRun \<Rightarrow> SimRun option" where
  "sim_sweep through r =
     closeWindow through True
       (flushCensus through (flushBlocked through
         (breachCheck through (r\<lparr>rn_tl := (rn_tl r)\<lparr>tl_SimulatedThrough := through\<rparr>\<rparr>))))"

definition sim_loop :: "SimRun \<Rightarrow> SimRun option" where
  "sim_loop r =
     (let r = refuseFatal r; now = op_Start (rn_opts r); inWindow = InWindow (rn_sched r) now;
          r = (if inWindow then openWindow now (sim_emit (event KindWindowOpen now) r) else r)
      in do { (exhausted, lastProcessed, r) \<leftarrow> sim_rounds maxSteps now now inWindow r;
              sim_sweep (if exhausted then lastProcessed else op_End (rn_opts r)) r })"

section \<open>Run\<close>

datatype SimError =
    PolicyNil
  | HorizonInverted time time
  | EnvNegative duration duration
  | ExpireAfterNotPositive duration
  | SimInvalidPolicy "PolicyError list"
  | SimInvalidWindows WindowError
  | SimInvalidAge AgeError

definition noTimeline :: "SimResolved \<Rightarrow> Timeline" where
  "noTimeline res =
     \<lparr>tl_Events = [], tl_Generations = [], tl_Rotations = [], tl_Windows = [], tl_SimulatedThrough = 0,
      tl_Result = sv_Derived res, tl_Inputs = sv_Inputs res, tl_Diagnostics = [], tl_Partial = False\<rparr>"

definition env_defaults :: "SimResolved \<Rightarrow> Env \<Rightarrow> Env" where
  "env_defaults res env =
     \<lparr>env_Provisioning = (if env_Provisioning env = 0 then r_ProvisioningEstimate (sv_Derived res) else env_Provisioning env),
      env_Drain = (if env_Drain env = 0 then r_DrainEstimate (sv_Derived res) else env_Drain env)\<rparr>"

definition no_census :: Census where
  "no_census =
     \<lparr>cs_Total = 0, cs_Eligible = 0, cs_OptedOut = 0, cs_Deleting = 0, cs_NotReady = 0, cs_InFlight = 0,
      cs_Terminal = 0, cs_InBackoff = 0, cs_NotTriggered = 0, cs_InBackoffTriggered = 0\<rparr>"

definition new_run :: "Policy \<Rightarrow> Schedule \<Rightarrow> SimResolved \<Rightarrow> Env \<Rightarrow> Options \<Rightarrow> Fleet \<Rightarrow> SimRun" where
  "new_run pol sched res env opts f =
     initFleet f
       \<lparr>rn_pol = pol, rn_sched = sched, rn_res = res, rn_env = env, rn_opts = opts, rn_template = f,
        rn_nodes = [], rn_poolAnn = Map.empty, rn_rot = None, rn_tl = noTimeline res, rn_blockFrom = 0,
        rn_blockGate = GateNone, rn_censusFrom = 0, rn_census = no_census, rn_hasCensus = False,
        rn_winOpen = False\<rparr>"

definition sort_events :: "Timeline \<Rightarrow> Timeline" where
  "sort_events t = t\<lparr>tl_Events := sort_key ev_At (tl_Events t)\<rparr>"

text \<open>The timeline of a resolved policy; \<open>None\<close> is a panic.\<close>

definition simulate_resolved :: "Policy \<Rightarrow> Schedule \<Rightarrow> SimResolved \<Rightarrow> Fleet \<Rightarrow> Env \<Rightarrow> Options \<Rightarrow> Timeline option" where
  "simulate_resolved pol sched res f env opts =
     (let env = env_defaults res env; t = noTimeline res
      in if sv_ReadyTimeout res < env_Provisioning env
         then Some (t\<lparr>tl_Partial := True,
                tl_Diagnostics := [\<lparr>dg_Severity = Fatal, dg_Code = ''EnvProvisioningAboveReadyTimeout'',
                  dg_Message = MsgProvisioning (env_Provisioning env) (sv_ReadyTimeout res)\<rparr>]\<rparr>)
         else map_option (\<lambda>r. sort_events (rn_tl r)) (sim_loop (new_run pol sched res env opts f)))"

definition Run ::
  "(string \<Rightarrow> Location option) \<Rightarrow> Policy option \<Rightarrow> Fleet \<Rightarrow> Env \<Rightarrow> Options \<Rightarrow> (SimError + Timeline) option" where
  "Run loadLocation p f env opts =
     (case p of
        None \<Rightarrow> Some (Inl PolicyNil)
      | Some p \<Rightarrow>
          if \<not> op_Start opts < op_End opts then Some (Inl (HorizonInverted (op_End opts) (op_Start opts)))
          else if env_Provisioning env < 0 \<or> env_Drain env < 0
            then Some (Inl (EnvNegative (env_Provisioning env) (env_Drain env)))
          else if fl_ExpireAfter f \<le> 0 then Some (Inl (ExpireAfterNotPositive (fl_ExpireAfter f)))
          else
            (let pol = ApplyDefaults p; errs = Validate loadLocation pol
             in if errs \<noteq> [] then Some (Inl (SimInvalidPolicy errs))
                else case New loadLocation (p_MaintenanceWindows pol) of
                       Inl e \<Rightarrow> Some (Inl (SimInvalidWindows e))
                     | Inr sched \<Rightarrow>
                         (case sim_Resolve pol sched f of
                            Inl e \<Rightarrow> Some (Inl (SimInvalidAge e))
                          | Inr res \<Rightarrow> map_option Inr (simulate_resolved pol sched res f env opts))))"

end
