(* ===== verification/SimRelay.thy ===== *)
theory SimRelay
  imports SimLoop
begin

text \<open>
  What every round of the simulator's clock keeps: indices stay inside their slices, so nothing panics;
  the generations of a slot are numbered without a gap and relay through the rotations. The invariant
  is kept by each operation, and \<open>clock\<close> lifts what a round keeps to the whole run.
\<close>

section \<open>Frames\<close>

lemma at_Some: "0 \<le> i \<Longrightarrow> i < int (length xs) \<Longrightarrow> at xs i = Some (xs ! nat i)"
  by (simp add: at_def)

lemma put_Some: "0 \<le> i \<Longrightarrow> i < int (length xs) \<Longrightarrow> put xs i f = Some (xs[nat i := f (xs ! nat i)])"
  by (simp add: put_def)

lemma filter_update:
  "(\<And>x. P (f x) = P x) \<Longrightarrow> (\<And>x. h (f x) = h x) \<Longrightarrow> map h (filter P (xs[k := f (xs ! k)])) = map h (filter P xs)"
proof (induction xs arbitrary: k)
  case (Cons x xs)
  then show ?case by (cases k) auto
qed simp

lemma nth_update:
  "(\<And>x. h (f x) = h x) \<Longrightarrow> h (xs[k := f (xs ! k)] ! i) = h (xs ! i)"
  by (cases "k < length xs"; cases "k = i") (auto simp: list_update_beyond not_less)

text \<open>The part of the state the rotations are about.\<close>

definition same_core :: "SimRun \<Rightarrow> SimRun \<Rightarrow> bool" where
  "same_core r r' \<longleftrightarrow>
     rn_pol r' = rn_pol r \<and> rn_sched r' = rn_sched r \<and> rn_res r' = rn_res r \<and> rn_env r' = rn_env r
     \<and> rn_opts r' = rn_opts r \<and> rn_template r' = rn_template r \<and> rn_nodes r' = rn_nodes r
     \<and> rn_poolAnn r' = rn_poolAnn r \<and> rn_rot r' = rn_rot r
     \<and> tl_Generations (rn_tl r') = tl_Generations (rn_tl r) \<and> tl_Rotations (rn_tl r') = tl_Rotations (rn_tl r)"

lemma same_core_refl [simp]: "same_core r r"
  by (simp add: same_core_def)

lemma same_core_trans: "same_core r s \<Longrightarrow> same_core s t \<Longrightarrow> same_core r t"
  by (simp add: same_core_def)

lemma same_core_ops [simp]:
  "same_core r (sim_emit e r)" "same_core r (diagOnce d r)" "same_core r (openWindow t r)"
  "same_core r (flushBlocked t r)" "same_core r (recordBlocked t g r)"
  "same_core r (flushCensus t r)" "same_core r (recordCensus t c r)" "same_core r (exhaust t r)"
  "same_core r (refuseFatal r)" "same_core r (snd (drainFor n r))"
  by (simp_all add: same_core_def sim_emit_def diagOnce_def openWindow_def flushBlocked_def recordBlocked_def
      flushCensus_def recordCensus_def exhaust_def refuseFatal_def drainFor_def Let_def split: option.split)

lemma same_core_closeWindow: "closeWindow t c r = Some r' \<Longrightarrow> same_core r r'"
  by (auto simp: closeWindow_def same_core_def split: if_splits bind_splits)

definition same_windows :: "SimRun \<Rightarrow> SimRun \<Rightarrow> bool" where
  "same_windows r r' \<longleftrightarrow> rn_winOpen r' = rn_winOpen r \<and> tl_Windows (rn_tl r') = tl_Windows (rn_tl r)"

lemma same_windows_refl [simp]: "same_windows r r"
  by (simp add: same_windows_def)

lemma same_windows_trans: "same_windows r s \<Longrightarrow> same_windows s t \<Longrightarrow> same_windows r t"
  by (simp add: same_windows_def)

lemma same_windows_ops [simp]:
  "same_windows r (sim_emit e r)" "same_windows r (diagOnce d r)"
  "same_windows r (flushBlocked t r)" "same_windows r (recordBlocked t g r)"
  "same_windows r (flushCensus t r)" "same_windows r (recordCensus t c r)" "same_windows r (exhaust t r)"
  "same_windows r (refuseFatal r)" "same_windows r (snd (drainFor n r))"
  by (simp_all add: same_windows_def sim_emit_def diagOnce_def flushBlocked_def recordBlocked_def
      flushCensus_def recordCensus_def exhaust_def refuseFatal_def drainFor_def Let_def split: option.split)

section \<open>The invariant\<close>

definition flying :: "SimRun \<Rightarrow> int \<Rightarrow> bool" where
  "flying r i \<longleftrightarrow> (\<exists>x. rn_rot r = Some x \<and> sr_slot x = i)"

definition surging :: "SimRun \<Rightarrow> int \<Rightarrow> bool" where
  "surging r i \<longleftrightarrow> (\<exists>x. rn_rot r = Some x \<and> sr_slot x = i \<and> \<not> sr_surgeless x)"

definition gens_of :: "Generation list \<Rightarrow> int \<Rightarrow> int list" where
  "gens_of gs i = map g_Gen (filter (\<lambda>g. g_Slot g = i) gs)"

definition rots_of :: "RotationRecord list \<Rightarrow> int \<Rightarrow> int list" where
  "rots_of ros i = map ro_FromGen (filter (\<lambda>ro. ro_Slot ro = i) ros)"

text \<open>The rotation in flight points at its slot, its record and its provisional replacement.\<close>

definition flight_ok :: "SimRun \<Rightarrow> SimRotation \<Rightarrow> bool" where
  "flight_ok r x \<longleftrightarrow>
     0 \<le> sr_slot x \<and> sr_slot x < int (length (rn_nodes r)) \<and> tl_Rotations (rn_tl r) \<noteq> []
     \<and> sr_rotIdx x = int (length (tl_Rotations (rn_tl r))) - 1
     \<and> (let ro = last (tl_Rotations (rn_tl r)) in
          ro_Slot ro = sr_slot x \<and> ro_FromGen ro = sn_gen (rn_nodes r ! nat (sr_slot x)) \<and> ro_Start ro = sr_start x
          \<and> ro_Done ro = 0
          \<and> (if sr_surgeless x then ro_Mode ro = RotationSurgeless \<and> ro_ToGen ro = None \<and> ro_Ready ro = 0
             else ro_Mode ro = RotationSurge \<and> ro_ToGen ro = Some (ro_FromGen ro + 1)))
     \<and> (\<not> sr_surgeless x \<longrightarrow>
          0 \<le> sr_genIdx x \<and> sr_genIdx x < int (length (tl_Generations (rn_tl r)))
          \<and> (let g = tl_Generations (rn_tl r) ! nat (sr_genIdx x) in
               g_Slot g = sr_slot x \<and> g_Gen g = sn_gen (rn_nodes r ! nat (sr_slot x)) + 1))"

definition relay_ok :: "SimRun \<Rightarrow> bool" where
  "relay_ok r \<longleftrightarrow>
     (\<forall>i<length (rn_nodes r).
        0 \<le> sn_gen (rn_nodes r ! i)
        \<and> gens_of (tl_Generations (rn_tl r)) (int i) =
            [0..sn_gen (rn_nodes r ! i) + (if surging r (int i) then 1 else 0)]
        \<and> rots_of (tl_Rotations (rn_tl r)) (int i) =
            [0..sn_gen (rn_nodes r ! i) - (if flying r (int i) then 0 else 1)])
     \<and> (\<forall>x. rn_rot r = Some x \<longrightarrow> flight_ok r x)"

definition windows_ok :: "SimRun \<Rightarrow> bool" where
  "windows_ok r \<longleftrightarrow> (rn_winOpen r \<longrightarrow> tl_Windows (rn_tl r) \<noteq> [])"

lemma relay_ok_core: "same_core r r' \<Longrightarrow> relay_ok r \<Longrightarrow> relay_ok r'"
  by (simp add: same_core_def relay_ok_def flight_ok_def surging_def flying_def)

lemma windows_ok_same: "same_windows r r' \<Longrightarrow> windows_ok r \<Longrightarrow> windows_ok r'"
  by (simp add: same_windows_def windows_ok_def)

lemma windowEdge_progress:
  assumes "windows_ok r"
  shows "\<exists>r'. windowEdge now inw r = Some (InWindow (rn_sched r) now, r') \<and> same_core r r' \<and> windows_ok r'"
proof (cases "InWindow (rn_sched r) now = inw \<or> InWindow (rn_sched r) now")
  case True
  then show ?thesis using assms
    by (auto simp: windowEdge_def windows_ok_def openWindow_def sim_emit_def same_core_def Let_def)
next
  case False
  let ?r = "sim_emit (event KindWindowClose now) r"
  have ok: "windows_ok ?r" by (rule windows_ok_same [OF _ assms]) simp
  then obtain r' where r': "closeWindow now False ?r = Some r'" "windows_ok r'"
    by (cases "rn_winOpen ?r") (auto simp: closeWindow_def windows_ok_def put_Some)
  with False have "windowEdge now inw r = Some (InWindow (rn_sched r) now, r')"
    by (auto simp: windowEdge_def Let_def)
  moreover have "same_core r r'"
    using same_core_closeWindow [OF r'(1)] same_core_trans [of r ?r r'] by simp
  ultimately show ?thesis using r'(2) by blast
qed

section \<open>Breaches\<close>

definition overdue :: "time \<Rightarrow> SimNode \<Rightarrow> bool" where
  "overdue now n \<longleftrightarrow> \<not> sn_breached n \<and> sim_deadline n \<le> now"

definition breach_event :: "SimNode \<Rightarrow> Event" where
  "breach_event n = (event KindExpireAfterBreach (sim_deadline n))\<lparr>ev_Node := sim_name n\<rparr>"

definition marked :: "time \<Rightarrow> SimNode \<Rightarrow> SimNode" where
  "marked now n = (if overdue now n then n\<lparr>sn_breached := True\<rparr> else n)"

lemma marked_simps [simp]:
  "sn_base (marked now n) = sn_base n" "sn_gen (marked now n) = sn_gen n" "sn_createdAt (marked now n) = sn_createdAt n"
  "sn_expireAfter (marked now n) = sn_expireAfter n" "sn_tgp (marked now n) = sn_tgp n" "sn_state (marked now n) = sn_state n"
  "sim_name (marked now n) = sim_name n" "sim_deadline (marked now n) = sim_deadline n"
  "sn_breached (marked now n) \<longleftrightarrow> sn_breached n \<or> sim_deadline n \<le> now"
  by (auto simp: marked_def sim_name_def sim_deadline_def overdue_def)

lemma breach_nodes_eq:
  "breach_nodes now ns = (map (marked now) ns, map breach_event (filter (overdue now) ns))"
  by (induction ns) (auto simp: marked_def overdue_def breach_event_def not_less Let_def)

lemma emit_all: "fold sim_emit es r = r\<lparr>rn_tl := (rn_tl r)\<lparr>tl_Events := tl_Events (rn_tl r) @ es\<rparr>\<rparr>"
  by (induction es arbitrary: r) (auto simp: sim_emit_def)

lemma breachCheck_eq:
  "breachCheck now r =
     r\<lparr>rn_nodes := map (marked now) (rn_nodes r),
       rn_tl := (rn_tl r)\<lparr>tl_Events := tl_Events (rn_tl r) @ map breach_event (filter (overdue now) (rn_nodes r))\<rparr>\<rparr>"
  by (simp add: breachCheck_def breach_nodes_eq emit_all)

lemma breachCheck_relay: "relay_ok r \<Longrightarrow> relay_ok (breachCheck now r)"
  by (auto simp: relay_ok_def flight_ok_def surging_def flying_def breachCheck_eq Let_def nth_map)

lemma breachCheck_windows: "windows_ok r \<Longrightarrow> windows_ok (breachCheck now r)"
  by (simp add: windows_ok_def breachCheck_eq)

section \<open>Driving the rotation\<close>

text \<open>The two steps of a rotation in flight, with every index in range.\<close>

definition readied :: "SimRotation \<Rightarrow> SimRun \<Rightarrow> SimRun" where
  "readied x r =
     r\<lparr>rn_nodes := (rn_nodes r)[nat (sr_slot x) := (rn_nodes r ! nat (sr_slot x))\<lparr>sn_state := StateDraining\<rparr>],
       rn_tl := (rn_tl r)\<lparr>
         tl_Events := tl_Events (rn_tl r) @
           [(event KindNodeReady (sr_readyAt x))\<lparr>ev_Node := sim_name (rn_nodes r ! nat (sr_slot x))\<rparr>],
         tl_Rotations := (tl_Rotations (rn_tl r))[nat (sr_rotIdx x) :=
           (tl_Rotations (rn_tl r) ! nat (sr_rotIdx x))\<lparr>ro_Ready := sr_readyAt x\<rparr>],
         tl_Generations := (tl_Generations (rn_tl r))[nat (sr_genIdx x) :=
           (tl_Generations (rn_tl r) ! nat (sr_genIdx x))\<lparr>g_ReadyAt := sr_readyAt x\<rparr>]\<rparr>\<rparr>"

lemma rotIdx_range:
  assumes "flight_ok r x"
  shows "0 \<le> sr_rotIdx x" "sr_rotIdx x < int (length (tl_Rotations (rn_tl r)))"
    "nat (sr_rotIdx x) = length (tl_Rotations (rn_tl r)) - 1"
    "tl_Rotations (rn_tl r) ! nat (sr_rotIdx x) = last (tl_Rotations (rn_tl r))"
  using assms by (auto simp: flight_ok_def last_conv_nth nat_diff_distrib Suc_le_eq)

lemma nodeReadied_eq:
  assumes "flight_ok r x" "\<not> sr_surgeless x"
  shows "nodeReadied x (rn_nodes r ! nat (sr_slot x)) r = Some (readied x r)"
  using assms rotIdx_range [OF assms(1)]
  by (simp add: nodeReadied_def put_node_def put_rotation_def put_generation_def put_Some flight_ok_def sim_emit_def
      readied_def)

lemma readied_relay:
  assumes "relay_ok r" "rn_rot r = Some x" "\<not> sr_surgeless x"
  shows "relay_ok (readied x r)" "rn_rot (readied x r) = Some x"
    "flight_ok (readied x r) x"
proof -
  have f: "flight_ok r x" using assms by (simp add: relay_ok_def)
  have gens: "gens_of (tl_Generations (rn_tl (readied x r))) i = gens_of (tl_Generations (rn_tl r)) i" for i
    unfolding gens_of_def readied_def by simp (rule filter_update; simp)
  have rots: "rots_of (tl_Rotations (rn_tl (readied x r))) i = rots_of (tl_Rotations (rn_tl r)) i" for i
    unfolding rots_of_def readied_def by simp (rule filter_update; simp)
  have node: "sn_gen (rn_nodes (readied x r) ! i) = sn_gen (rn_nodes r ! i)" for i
    unfolding readied_def by simp (rule nth_update, simp)
  have len: "length (rn_nodes (readied x r)) = length (rn_nodes r)" by (simp add: readied_def)
  show rot: "rn_rot (readied x r) = Some x" using assms(2) by (simp add: readied_def)
  have lst: "last (tl_Rotations (rn_tl (readied x r))) = (last (tl_Rotations (rn_tl r)))\<lparr>ro_Ready := sr_readyAt x\<rparr>"
    using rotIdx_range [OF f] f by (simp add: readied_def flight_ok_def last_list_update)
  show f': "flight_ok (readied x r) x"
    using f assms(3) unfolding flight_ok_def Let_def len lst node
    by (auto simp: readied_def nth_list_update)
  from assms(1) f' show "relay_ok (readied x r)"
    unfolding relay_ok_def len gens rots node rot surging_def flying_def assms(2) by simp
qed

definition generation_of :: "SimRun \<Rightarrow> int \<Rightarrow> SimNode \<Rightarrow> BirthMode \<Rightarrow> int option \<Rightarrow> bool \<Rightarrow> Generation" where
  "generation_of r slot n birth predecessor provisional =
     \<lparr>g_Slot = slot, g_Gen = sn_gen n, g_Name = sim_name n, g_BirthMode = birth,
      g_PredecessorGen = predecessor, g_CreatedAt = sn_createdAt n, g_ExpireAfter = sn_expireAfter n,
      g_DrainCap = fst (drainCap n), g_DrainCapSource = snd (drainCap n), g_Deadline = sim_deadline n,
      g_EligibilityBoundary = eligibilityBoundary r n, g_ReadyAt = 0, g_Provisional = provisional\<rparr>"

lemma recordGeneration_eq:
  "recordGeneration slot n birth pred prov r =
     (int (length (tl_Generations (rn_tl r))),
      r\<lparr>rn_tl := (rn_tl r)\<lparr>tl_Generations := tl_Generations (rn_tl r) @ [generation_of r slot n birth pred prov]\<rparr>\<rparr>)"
  by (simp add: recordGeneration_def generation_of_def Let_def split: prod.split)

definition finished :: "SimRotation \<Rightarrow> SimRun \<Rightarrow> SimRun" where
  "finished x r =
     (let n = rn_nodes r ! nat (sr_slot x); n' = replaced (rn_template r) x n; ro = last (tl_Rotations (rn_tl r));
          gs = tl_Generations (rn_tl r)
      in r\<lparr>rn_nodes := (rn_nodes r)[nat (sr_slot x) := n'],
           rn_poolAnn := (rn_poolAnn r)(LastRotationAt \<mapsto> rfc3339 (sr_doneAt x)), rn_rot := None,
           rn_tl := (rn_tl r)\<lparr>
             tl_Events := tl_Events (rn_tl r) @
               [(event KindRotationDone (sr_doneAt x))
                  \<lparr>ev_Node := sim_name n, ev_Replacement := sim_name n', ev_Surgeless := sr_surgeless x\<rparr>],
             tl_Rotations := butlast (tl_Rotations (rn_tl r)) @
               [if sr_surgeless x then ro\<lparr>ro_Done := sr_doneAt x, ro_ToGen := Some (sn_gen n')\<rparr>
                else ro\<lparr>ro_Done := sr_doneAt x\<rparr>],
             tl_Generations :=
               (if sr_surgeless x
                then gs @ [generation_of r (sr_slot x) n' BirthSurgeless (Some (sn_gen n' - 1)) False]
                else gs[nat (sr_genIdx x) := (gs ! nat (sr_genIdx x))\<lparr>g_Provisional := False\<rparr>])\<rparr>\<rparr>)"

lemma butlast_update: "xs \<noteq> [] \<Longrightarrow> xs[length xs - 1 := y] = butlast xs @ [y]"
  by (induction xs rule: rev_induct) (auto simp: list_update_append)

lemma put_last: "xs \<noteq> [] \<Longrightarrow> i = int (length xs) - 1 \<Longrightarrow> put xs i f = Some (butlast xs @ [f (last xs)])"
  using butlast_update [of xs "f (last xs)"] by (simp add: put_def last_conv_nth nat_diff_distrib Suc_le_eq)

lemma put_last_again: "xs \<noteq> [] \<Longrightarrow> i = int (length xs) - 1 \<Longrightarrow> put (butlast xs @ [y]) i f = Some (butlast xs @ [f y])"
  using put_last [of "butlast xs @ [y]" i f] by (simp add: of_nat_diff Suc_le_eq)

lemma rotationDone_eq:
  assumes "flight_ok r x"
  shows "rotationDone x (rn_nodes r ! nat (sr_slot x)) r = Some (finished x r)"
proof -
  let ?n' = "replaced (rn_template r) x (rn_nodes r ! nat (sr_slot x))"
  have ne: "tl_Rotations (rn_tl r) \<noteq> []" using assms by (simp add: flight_ok_def)
  have boundary: "generation_of (r\<lparr>rn_nodes := ns, rn_poolAnn := a, rn_tl := l\<rparr>) = generation_of r" for ns a l
    by (intro ext) (simp add: generation_of_def eligibilityBoundary_def Let_def split: option.split)
  have idx: "sr_rotIdx x = int (length (tl_Rotations (rn_tl r))) - 1" using assms by (simp add: flight_ok_def)
  have node: "put (rn_nodes r) (sr_slot x) (\<lambda>_. ?n') = Some ((rn_nodes r)[nat (sr_slot x) := ?n'])"
    using assms by (simp add: put_Some flight_ok_def)
  show ?thesis
  proof (cases "sr_surgeless x")
    case True
    then show ?thesis
      by (simp add: rotationDone_def put_node_def put_rotation_def node sim_emit_def Let_def recordGeneration_eq
          put_last [OF ne idx] put_last_again [OF ne idx] finished_def boundary)
  next
    case False
    then have "put (tl_Generations (rn_tl r)) (sr_genIdx x) f = Some ((tl_Generations (rn_tl r))[nat (sr_genIdx x) :=
        f (tl_Generations (rn_tl r) ! nat (sr_genIdx x))])" for f
      using assms by (simp add: put_Some flight_ok_def)
    with False show ?thesis
      by (simp add: rotationDone_def put_node_def put_rotation_def put_generation_def node sim_emit_def Let_def
          put_last [OF ne idx] finished_def)
  qed
qed

lemma finished_relay:
  assumes "relay_ok r" "rn_rot r = Some x"
  shows "relay_ok (finished x r)"
proof -
  have f: "flight_ok r x" using assms by (simp add: relay_ok_def)
  let ?k = "nat (sr_slot x)" and ?gs = "tl_Generations (rn_tl r)" and ?ros = "tl_Rotations (rn_tl r)"
  have k: "?k < length (rn_nodes r)" "int ?k = sr_slot x" and ne: "?ros \<noteq> []" using f by (auto simp: flight_ok_def)
  have new: "sn_gen (replaced t x n) = sn_gen n + 1" for t n by (simp add: replaced_def)
  have nodes: "sn_gen (rn_nodes (finished x r) ! i) = sn_gen (rn_nodes r ! i) + (if i = ?k then 1 else 0)"
    if "i < length (rn_nodes r)" for i
    using that k new by (simp add: finished_def Let_def nth_list_update)
  have rots: "rots_of (tl_Rotations (rn_tl (finished x r))) i = rots_of ?ros i" for i
  proof -
    have "rots_of (butlast ?ros @ [y]) i = rots_of (butlast ?ros @ [last ?ros]) i"
      if "ro_Slot y = ro_Slot (last ?ros)" "ro_FromGen y = ro_FromGen (last ?ros)" for y
      using that by (simp add: rots_of_def)
    from this [of "last (tl_Rotations (rn_tl (finished x r)))"] ne show ?thesis
      by (auto simp: finished_def Let_def)
  qed
  have gens: "gens_of (tl_Generations (rn_tl (finished x r))) i =
      gens_of ?gs i @ (if sr_surgeless x \<and> i = sr_slot x then [sn_gen (rn_nodes r ! ?k) + 1] else [])" for i
  proof (cases "sr_surgeless x")
    case True
    then show ?thesis by (auto simp: finished_def Let_def gens_of_def generation_of_def new)
  next
    case False
    then show ?thesis unfolding gens_of_def finished_def Let_def by simp (rule filter_update; simp)
  qed
  have len: "length (rn_nodes (finished x r)) = length (rn_nodes r)" and rot: "rn_rot (finished x r) = None"
    by (simp_all add: finished_def Let_def)
  have up: "[0..m] @ [m + 1] = [0..m + 1]" if "0 \<le> m" for m :: int
    using upto_rec2 [of 0 "m + 1"] that by simp
  show ?thesis
    unfolding relay_ok_def len
  proof (intro conjI allI impI)
    fix i assume i: "i < length (rn_nodes r)"
    with assms(1) have r: "0 \<le> sn_gen (rn_nodes r ! i)"
      "gens_of ?gs (int i) = [0..sn_gen (rn_nodes r ! i) + (if surging r (int i) then 1 else 0)]"
      "rots_of ?ros (int i) = [0..sn_gen (rn_nodes r ! i) - (if flying r (int i) then 0 else 1)]"
      unfolding relay_ok_def by blast+
    have sl: "sr_slot x = int i \<longleftrightarrow> i = ?k" using k by auto
    show "0 \<le> sn_gen (rn_nodes (finished x r) ! i)" using r(1) nodes [OF i] by simp
    show "gens_of (tl_Generations (rn_tl (finished x r))) (int i) =
        [0..sn_gen (rn_nodes (finished x r) ! i) + (if surging (finished x r) (int i) then 1 else 0)]"
      using r(1,2) nodes [OF i] gens [of "int i"] rot sl up [OF r(1)] assms(2)
      by (auto simp: surging_def)
    show "rots_of (tl_Rotations (rn_tl (finished x r))) (int i) =
        [0..sn_gen (rn_nodes (finished x r) ! i) - (if flying (finished x r) (int i) then 0 else 1)]"
      using r(3) nodes [OF i] rots [of "int i"] rot sl assms(2) by (auto simp: flying_def)
  qed (simp add: rot)
qed

lemma advance_cases:
  assumes "relay_ok r"
  obtains (Idle) "rn_rot r = None" "sim_advance now r = Some r"
  | (Flying) x r' where "rn_rot r = Some x" "rn_rot r' = Some x" "relay_ok r'" "r' = r \<or> (r' = readied x r \<and> sr_readyAt x \<le> now \<and> \<not> sr_surgeless x)"
      "now < sr_doneAt x" "sim_advance now r = Some r'"
  | (Done) x r' where "rn_rot r = Some x" "rn_rot r' = Some x" "relay_ok r'" "r' = r \<or> (r' = readied x r \<and> sr_readyAt x \<le> now \<and> \<not> sr_surgeless x)"
      "sr_doneAt x \<le> now" "sim_advance now r = Some (finished x r')" "relay_ok (finished x r')"
proof (cases "rn_rot r")
  case None
  then show ?thesis using that(1) by (simp add: sim_advance_def)
next
  case (Some x)
  then have f: "flight_ok r x" using assms by (simp add: relay_ok_def)
  let ?go = "\<not> sr_surgeless x \<and> sn_state (rn_nodes r ! nat (sr_slot x)) = StatePending \<and> \<not> now < sr_readyAt x"
  define r' where "r' = (if ?go then readied x r else r)"
  have r': "rn_rot r' = Some x" "relay_ok r'" "flight_ok r' x"
    using Some assms f readied_relay [OF assms Some] by (auto simp: r'_def)
  have a: "at (rn_nodes r) (sr_slot x) = Some (rn_nodes r ! nat (sr_slot x))"
    "at (rn_nodes r') (sr_slot x) = Some (rn_nodes r' ! nat (sr_slot x))"
    using f r'(3) by (auto simp: at_Some flight_ok_def)
  have "sim_advance now r = (if now < sr_doneAt x then Some r' else Some (finished x r'))"
    using Some f a rotationDone_eq [OF r'(3)] nodeReadied_eq [OF f]
    by (auto simp: sim_advance_def r'_def)
  moreover have "r' = r \<or> (r' = readied x r \<and> sr_readyAt x \<le> now \<and> \<not> sr_surgeless x)" by (auto simp: r'_def not_less)
  ultimately show ?thesis
    using that(2) [of x r'] that(3) [of x r'] Some r' finished_relay [OF r'(2,1)] by (cases "now < sr_doneAt x") auto
qed

section \<open>Starting one\<close>

lemma index_from_found:
  "name \<in> sim_name ` set ns \<Longrightarrow> i \<le> index_from i name ns \<and> index_from i name ns < i + int (length ns)
     \<and> sim_name (ns ! nat (index_from i name ns - i)) = name"
proof (induction ns arbitrary: i)
  case (Cons n ns)
  show ?case
  proof (cases "sim_name n = name")
    case False
    with Cons.prems have IH: "i + 1 \<le> index_from (i + 1) name ns" "index_from (i + 1) name ns < i + 1 + int (length ns)"
      "sim_name (ns ! nat (index_from (i + 1) name ns - (i + 1))) = name"
      using Cons.IH [of "i + 1"] by auto
    then have "nat (index_from (i + 1) name ns - i) = Suc (nat (index_from (i + 1) name ns - (i + 1)))" by simp
    with False IH show ?thesis by simp
  qed simp
qed simp

lemma slotOf_found:
  assumes "c \<in> set (views r)"
  shows "0 \<le> slotOf r (c_Name c)" "slotOf r (c_Name c) < int (length (rn_nodes r))"
    "sim_name (rn_nodes r ! nat (slotOf r (c_Name c))) = c_Name c"
proof -
  have "c_Name c \<in> sim_name ` set (rn_nodes r)" using assms by (auto simp: views_def sim_view_def)
  from index_from_found [OF this, of 0]
  show "0 \<le> slotOf r (c_Name c)" "slotOf r (c_Name c) < int (length (rn_nodes r))"
    "sim_name (rn_nodes r ! nat (slotOf r (c_Name c))) = c_Name c" by (simp_all add: slotOf_def)
qed

definition launched :: "time \<Rightarrow> int \<Rightarrow> bool \<Rightarrow> duration \<Rightarrow> SimRun \<Rightarrow> SimRun" where
  "launched now slot surgeless drain r =
     (let n = rn_nodes r ! nat slot; gs = tl_Generations (rn_tl r); ros = tl_Rotations (rn_tl r);
          ready = now + env_Provisioning (rn_env r)
      in r\<lparr>rn_nodes := (rn_nodes r)[nat slot := n\<lparr>sn_state := if surgeless then StateDraining else StatePending\<rparr>],
           rn_rot := Some \<lparr>sr_slot = slot, sr_start = now, sr_readyAt = (if surgeless then 0 else ready),
             sr_doneAt = (if surgeless then now else ready) + drain, sr_surgeless = surgeless,
             sr_rotIdx = int (length ros), sr_genIdx = (if surgeless then -1 else int (length gs))\<rparr>,
           rn_tl := (rn_tl r)\<lparr>
             tl_Events := tl_Events (rn_tl r) @
               [(event KindRotationStart now)\<lparr>ev_Node := sim_name n, ev_Surgeless := surgeless\<rparr>],
             tl_Rotations := ros @
               [\<lparr>ro_Slot = slot, ro_FromGen = sn_gen n, ro_ToGen = (if surgeless then None else Some (sn_gen n + 1)),
                 ro_Mode = (if surgeless then RotationSurgeless else RotationSurge), ro_Start = now, ro_Ready = 0,
                 ro_Done = 0\<rparr>],
             tl_Generations := gs @
               (if surgeless then []
                else [generation_of r slot (surge_replacement (rn_template r) now n) BirthSurge (Some (sn_gen n)) True])\<rparr>\<rparr>)"

lemma generation_of_cong: "rn_res r' = rn_res r \<Longrightarrow> generation_of r' = generation_of r"
  by (intro ext) (simp add: generation_of_def eligibilityBoundary_def Let_def split: option.split)

lemma beginRotationOf_eq:
  assumes "c \<in> set (views r)"
  shows "beginRotationOf now c gi r =
     Some (let slot = slotOf r (c_Name c); (drain, r') = drainFor (rn_nodes r ! nat slot) r
           in launched now slot (SurgelessFallback c gi) drain r')"
proof -
  note s = slotOf_found [OF assms]
  obtain drain r' where d: "drainFor (rn_nodes r ! nat (slotOf r (c_Name c))) r = (drain, r')" by fastforce
  have core: "same_core r r'" using same_core_ops(10) [of r "rn_nodes r ! nat (slotOf r (c_Name c))"] d by simp
  have eq: "rn_nodes r' = rn_nodes r" "rn_template r' = rn_template r" "rn_env r' = rn_env r"
    using core by (simp_all add: same_core_def)
  have boundary: "generation_of (r'\<lparr>rn_nodes := ns\<rparr>) = generation_of r'" for ns by (rule generation_of_cong) simp
  have name: "sim_name (rn_nodes r ! nat (slotOf r (c_Name c))) = c_Name c" using s by simp
  show ?thesis
    using s d
    by (simp add: beginRotationOf_def Let_def at_Some beginSurgeless_def beginSurge_def put_node_def put_Some eq
        launched_def recordGeneration_eq boundary sim_emit_def surge_replacement_def)
qed

lemma launched_relay:
  assumes "relay_ok r" "rn_rot r = None" "0 \<le> slot" "slot < int (length (rn_nodes r))"
  shows "relay_ok (launched now slot surgeless drain r)"
proof -
  let ?r = "launched now slot surgeless drain r"
  let ?gs = "tl_Generations (rn_tl r)" and ?ros = "tl_Rotations (rn_tl r)"
  obtain x where rot: "rn_rot ?r = Some x" and x: "sr_slot x = slot" "sr_surgeless x = surgeless" "sr_start x = now"
    "sr_rotIdx x = int (length ?ros)" "\<not> surgeless \<Longrightarrow> sr_genIdx x = int (length ?gs)"
    by (auto simp: launched_def Let_def)
  have state: "sn_gen ((rn_nodes r)[k := (rn_nodes r ! k)\<lparr>sn_state := s\<rparr>] ! i) = sn_gen (rn_nodes r ! i)" for k s i
    by (rule nth_update) simp
  have node: "sn_gen (rn_nodes ?r ! i) = sn_gen (rn_nodes r ! i)" for i
    by (simp add: launched_def Let_def state)
  have len: "length (rn_nodes ?r) = length (rn_nodes r)" by (simp add: launched_def Let_def)
  have gens: "gens_of (tl_Generations (rn_tl ?r)) i =
      gens_of ?gs i @ (if \<not> surgeless \<and> i = slot then [sn_gen (rn_nodes r ! nat slot) + 1] else [])" for i
    by (auto simp: gens_of_def launched_def Let_def generation_of_def surge_replacement_def)
  have rots: "rots_of (tl_Rotations (rn_tl ?r)) i =
      rots_of ?ros i @ (if i = slot then [sn_gen (rn_nodes r ! nat slot)] else [])" for i
    by (auto simp: rots_of_def launched_def Let_def)
  have f: "flight_ok ?r x"
    using assms(3,4) x unfolding flight_ok_def len node Let_def
    by (auto simp: launched_def Let_def nth_append generation_of_def surge_replacement_def)
  have up: "[0..m] @ [m + 1] = [0..m + 1]" "[0..m - 1] @ [m] = [0..m]" if "0 \<le> m" for m :: int
    using upto_rec2 [of 0 "m + 1"] upto_rec2 [of 0 m] that by simp_all
  show ?thesis
    unfolding relay_ok_def len
  proof (intro conjI allI impI)
    fix i assume i: "i < length (rn_nodes r)"
    with assms(1,2) have r: "0 \<le> sn_gen (rn_nodes r ! i)"
      "gens_of ?gs (int i) = [0..sn_gen (rn_nodes r ! i)]"
      "rots_of ?ros (int i) = [0..sn_gen (rn_nodes r ! i) - 1]"
      unfolding relay_ok_def surging_def flying_def by auto
    show "0 \<le> sn_gen (rn_nodes ?r ! i)" using r(1) node by simp
    show "gens_of (tl_Generations (rn_tl ?r)) (int i) = [0..sn_gen (rn_nodes ?r ! i) + (if surging ?r (int i) then 1 else 0)]"
      using r(1,2) gens [of "int i"] rot x(1,2) up(1) [OF r(1)] node
      by (cases "slot = int i"; cases surgeless) (simp_all add: surging_def)
    show "rots_of (tl_Rotations (rn_tl ?r)) (int i) = [0..sn_gen (rn_nodes ?r ! i) - (if flying ?r (int i) then 0 else 1)]"
      using r(1,3) rots [of "int i"] rot x(1) up(2) [OF r(1)] node
      by (cases "slot = int i") (simp_all add: flying_def)
  next
    fix y assume "rn_rot ?r = Some y"
    with rot f show "flight_ok ?r y" by simp
  qed
qed

lemma maybeStart_cases:
  obtains (Quiet) r' where "maybeStart now inw r = Some r'" "same_core r r'" "same_windows r r'"
  | (Start) c r1 drain where "same_core r r1" "same_windows r r1"
      "sim_firstFatal (r_Findings (sv_Derived (rn_res r))) = None" "fst (StartGate (sim_gates now inw r))"
      "PickEarliestDeadlineEligible (views r) (selectionInputs r now (views r)) = Some c"
      "fst (drainFor (rn_nodes r ! nat (slotOf r (c_Name c))) r) = drain"
      "maybeStart now inw r =
         Some (launched now (slotOf r (c_Name c)) (SurgelessFallback c (sim_gates now inw r)) drain r1)"
proof -
  obtain go gate where g: "StartGate (sim_gates now inw r) = (go, gate)" by fastforce
  let ?f = "flushBlocked now r"
  have views: "views ?f = views r" "selectionInputs ?f = selectionInputs r"
    using same_core_ops(4) [of r now]
    by (auto simp: views_def same_core_def selectionInputs_def Let_def fun_eq_iff split: option.split)
  consider (fatal) "sim_firstFatal (r_Findings (sv_Derived (rn_res r))) \<noteq> None"
    | (blocked) "sim_firstFatal (r_Findings (sv_Derived (rn_res r))) = None" "\<not> go"
    | (none) "sim_firstFatal (r_Findings (sv_Derived (rn_res r))) = None" "go"
        "PickEarliestDeadlineEligible (views r) (selectionInputs r now (views r)) = None"
    | (pick) c where "sim_firstFatal (r_Findings (sv_Derived (rn_res r))) = None" "go"
        "PickEarliestDeadlineEligible (views r) (selectionInputs r now (views r)) = Some c"
    by (cases "PickEarliestDeadlineEligible (views r) (selectionInputs r now (views r))") auto
  then show ?thesis
  proof cases
    case fatal
    then show ?thesis using that(1) [of r] by (simp add: maybeStart_def)
  next
    case blocked
    then show ?thesis using that(1) [of "recordBlocked now gate (flushCensus now r)"] g
        same_core_trans [of r "flushCensus now r"] same_windows_trans [of r "flushCensus now r"]
      by (simp add: maybeStart_def Let_def)
  next
    case none
    then show ?thesis using that(1) [of "recordCensus now (TakeCensus (views r) (selectionInputs r now (views r))) ?f"] g views
        same_core_trans [of r ?f] same_windows_trans [of r ?f]
      by (simp add: maybeStart_def Let_def)
  next
    case pick
    let ?r = "flushCensus now ?f" and ?k = "slotOf r (c_Name c)"
    have core: "same_core r ?r" "same_windows r ?r"
      using same_core_trans [of r ?f ?r] same_windows_trans [of r ?f ?r] by simp_all
    then have eq: "views ?r = views r" "slotOf ?r = slotOf r" "rn_nodes ?r = rn_nodes r"
      by (auto simp: views_def slotOf_def same_core_def)
    have mem: "c \<in> set (views ?r)" using pick_Some [OF pick(3)] eq by simp
    obtain drain r1 where d: "drainFor (rn_nodes r ! nat ?k) ?r = (drain, r1)" by fastforce
    have c1: "same_core r r1" "same_windows r r1"
      using same_core_ops(10) [of ?r "rn_nodes r ! nat ?k"] same_windows_ops(9) [of ?r "rn_nodes r ! nat ?k"] d
        same_core_trans [OF core(1), of r1] same_windows_trans [OF core(2), of r1] by simp_all
    have dr: "fst (drainFor (rn_nodes r ! nat ?k) r) = drain"
      using d core(1) by (auto simp: drainFor_def same_core_def Let_def split: if_splits)
    have "maybeStart now inw r = Some (launched now ?k (SurgelessFallback c (sim_gates now inw r)) drain r1)"
      using pick g views beginRotationOf_eq [OF mem, of now "sim_gates now inw r"] d eq
      by (simp add: maybeStart_def Let_def)
    with that(2) [OF c1 pick(1) _ pick(3) dr] g pick(2) show ?thesis by simp
  qed
qed

lemma maybeStart_starts:
  assumes "sim_firstFatal (r_Findings (sv_Derived (rn_res r))) = None" "fst (StartGate (sim_gates now inw r))"
    "PickEarliestDeadlineEligible (views r) (selectionInputs r now (views r)) = Some c" "maybeStart now inw r = Some r'"
  shows "rn_rot r' \<noteq> None"
proof -
  let ?f = "flushBlocked now r"
  have eq: "views ?f = views r" "selectionInputs ?f = selectionInputs r" "views (flushCensus now ?f) = views r"
    using same_core_ops(4) [of r now] same_core_ops(6) [of ?f now]
    by (auto simp: views_def same_core_def selectionInputs_def Let_def fun_eq_iff split: option.split)
  then have "c \<in> set (views (flushCensus now ?f))" using pick_Some [OF assms(3)] by simp
  from beginRotationOf_eq [OF this, of now "sim_gates now inw r"] assms eq show ?thesis
    by (auto simp: maybeStart_def Let_def launched_def split: prod.splits)
qed

lemma launched_windows [simp]: "same_windows r (launched now slot surgeless drain r)"
  by (simp add: same_windows_def launched_def Let_def)

lemma drive_windows [simp]: "same_windows r (readied x r)" "same_windows r (finished x r)"
  by (simp_all add: same_windows_def readied_def finished_def Let_def)

section \<open>A round\<close>

definition fixed :: "SimRun \<Rightarrow> SimRun \<Rightarrow> bool" where
  "fixed r r' \<longleftrightarrow>
     rn_pol r' = rn_pol r \<and> rn_sched r' = rn_sched r \<and> rn_res r' = rn_res r \<and> rn_env r' = rn_env r
     \<and> rn_opts r' = rn_opts r \<and> rn_template r' = rn_template r \<and> length (rn_nodes r') = length (rn_nodes r)"

lemma fixed_refl [simp]: "fixed r r" by (simp add: fixed_def)
lemma fixed_trans: "fixed r s \<Longrightarrow> fixed s t \<Longrightarrow> fixed r t" by (simp add: fixed_def)
lemma fixed_core: "same_core r r' \<Longrightarrow> fixed r r'" by (simp add: fixed_def same_core_def)

lemma fixed_steps [simp]:
  "fixed r (readied x r)" "fixed r (finished x r)" "fixed r (breachCheck now r)" "fixed r (launched now slot s d r)"
  by (simp_all add: fixed_def readied_def finished_def breachCheck_eq launched_def Let_def)

lemma advance_frame:
  assumes "relay_ok r" "sim_advance now r = Some r'"
  shows "relay_ok r'" "same_windows r r'" "fixed r r'"
proof -
  have drive: "same_windows r (finished x s) \<and> fixed r (finished x s) \<and> same_windows r s \<and> fixed r s"
    if "s = r \<or> s = readied x r \<and> p" for x s p
    using that same_windows_trans [of r s "finished x s"] fixed_trans [of r s "finished x s"] by auto
  from assms(1) have "relay_ok r' \<and> same_windows r r' \<and> fixed r r'"
  proof (cases rule: advance_cases [where now = now])
    case Idle
    with assms show ?thesis by simp
  next
    case (Flying x s)
    with assms(2) drive [OF Flying(4)] show ?thesis by simp
  next
    case (Done x s)
    with assms(2) drive [OF Done(4)] show ?thesis by simp
  qed
  then show "relay_ok r'" "same_windows r r'" "fixed r r'" by simp_all
qed

lemma maybeStart_frame:
  assumes "relay_ok r" "rn_rot r = None" "maybeStart now inw r = Some r'"
  shows "relay_ok r'" "same_windows r r'" "fixed r r'"
proof -
  have "relay_ok r' \<and> same_windows r r' \<and> fixed r r'"
  proof (cases rule: maybeStart_cases [of now inw r])
    case (Quiet s)
    with assms show ?thesis by (auto intro: relay_ok_core fixed_core)
  next
    case (Start c r1 drain)
    have "rn_rot r1 = None" "rn_nodes r1 = rn_nodes r" using Start(1) assms(2) by (simp_all add: same_core_def)
    with Start assms(3) launched_relay [of r1 "slotOf r (c_Name c)"] relay_ok_core [OF Start(1) assms(1)]
      slotOf_found [of c r] pick_Some [OF Start(5)]
    show ?thesis using same_windows_trans [OF Start(2)] fixed_trans [OF fixed_core [OF Start(1)]] by simp
  qed
  then show "relay_ok r'" "same_windows r r'" "fixed r r'" by simp_all
qed

text \<open>A round never panics; its parts are the edge, the drive, the breach check and the start.\<close>

lemma round_cases:
  assumes "relay_ok r" "windows_ok r"
  obtains r1 r2 r' where
    "windowEdge now inw r = Some (InWindow (rn_sched r) now, r1)" "same_core r r1" "relay_ok r1"
    "sim_advance now r1 = Some r2" "relay_ok r2" "fixed r r2"
    "if rn_rot r2 = None then maybeStart now (InWindow (rn_sched r) now) (breachCheck now r2) = Some r' else r' = breachCheck now r2"
    "sim_round now inw r = Some (InWindow (rn_sched r) now, r')" "relay_ok r'" "windows_ok r'" "fixed r r'"
proof -
  obtain r1 where r1: "windowEdge now inw r = Some (InWindow (rn_sched r) now, r1)" "same_core r r1" "windows_ok r1"
    using windowEdge_progress [OF assms(2)] by blast
  have ok1: "relay_ok r1" by (rule relay_ok_core [OF r1(2) assms(1)])
  obtain r2 where r2: "sim_advance now r1 = Some r2" using ok1 by (cases rule: advance_cases [where now = now]) auto
  note f2 = advance_frame [OF ok1 r2]
  let ?b = "breachCheck now r2"
  have rot: "rn_rot ?b = rn_rot r2" by (simp add: breachCheck_eq)
  have b: "relay_ok ?b" "windows_ok ?b" "fixed r ?b"
    using breachCheck_relay [OF f2(1)] breachCheck_windows [OF windows_ok_same [OF f2(2) r1(3)]]
      fixed_trans [OF fixed_core [OF r1(2)]] fixed_trans [OF f2(3), of ?b] by simp_all
  obtain s where s: "maybeStart now (InWindow (rn_sched r) now) ?b = Some s"
    by (rule maybeStart_cases [of now "InWindow (rn_sched r) now" ?b])
  obtain r' where r': "if rn_rot r2 = None then maybeStart now (InWindow (rn_sched r) now) ?b = Some r' else r' = ?b"
    using s by (cases "rn_rot r2 = None") auto
  have ok': "relay_ok r' \<and> windows_ok r' \<and> fixed r r'"
  proof (cases "rn_rot r2 = None")
    case True
    with r' rot have m: "rn_rot ?b = None" "maybeStart now (InWindow (rn_sched r) now) ?b = Some r'" by simp_all
    show ?thesis
      using maybeStart_frame [OF b(1) m] windows_ok_same [OF _ b(2)] fixed_trans [OF b(3)] by simp
  next
    case False
    with r' b show ?thesis by simp
  qed
  have "sim_round now inw r = Some (InWindow (rn_sched r) now, r')"
    using r1(1) r2 r' rot by (cases "rn_rot r2") (simp_all add: sim_round_def)
  with that r1(1,2) ok1 r2 f2(1) r' ok' fixed_trans [OF fixed_core [OF r1(2)] f2(3)] show ?thesis by blast
qed

section \<open>The clock\<close>

lemma sim_next_grid: "sim_next t r \<le> t - t mod tick + tick"
  by (auto simp: sim_next_def Let_def split: option.split)

text \<open>
  What holds before the first round and is kept by each round, whatever the gap to the next instant,
  holds when the clock stops. The instants are at most a tick apart, with every mark of the grid.
\<close>

locale clock =
  fixes I :: "time \<Rightarrow> SimRun \<Rightarrow> bool" and opts :: Options
  assumes opts: "I t r \<Longrightarrow> rn_opts r = opts"
    and round: "I t r \<Longrightarrow> t < now \<Longrightarrow> now \<le> t - t mod tick + tick \<Longrightarrow> now \<le> op_End opts \<Longrightarrow>
      \<exists>r'. sim_round now inw r = Some (InWindow (rn_sched r) now, r') \<and> I now r'"
    and exhausted: "I t r \<Longrightarrow> I t (exhaust t r)"
begin

lemma rounds:
  assumes "I t r" "t \<le> op_End opts" "t < now" "now \<le> t - t mod tick + tick"
  shows "\<exists>ex t' r'. sim_rounds budget t now inw r = Some (ex, t', r') \<and> I t' r' \<and> t \<le> t' \<and> t' \<le> op_End opts"
  using assms
proof (induction budget arbitrary: t now inw r)
  case 0
  then show ?case
    using exhausted [of t r] opts [of t r] by (subst sim_rounds.simps) auto
next
  case (Suc budget)
  show ?case
  proof (cases "op_End opts < now")
    case True
    with Suc.prems opts show ?thesis by (subst sim_rounds.simps) auto
  next
    case False
    obtain r' where r': "sim_round now inw r = Some (InWindow (rn_sched r) now, r')" "I now r'"
      using round [OF Suc.prems(1,3,4)] False by (meson not_less)
    show ?thesis
    proof (cases "now < sim_next now r'")
      case True
      from Suc.IH [OF r'(2) _ True sim_next_grid] False obtain ex t' s where
        "sim_rounds budget now (sim_next now r') (InWindow (rn_sched r) now) r' = Some (ex, t', s)" "I t' s" "now \<le> t'" "t' \<le> op_End opts"
        by force
      with True False r' Suc.prems opts show ?thesis by (subst sim_rounds.simps) (auto simp: Let_def)
    next
      case stop: False
      with False r' Suc.prems opts show ?thesis by (subst sim_rounds.simps) (auto simp: Let_def)
    qed
  qed
qed

lemma all_rounds:
  assumes "I (op_Start opts - 1) r" "op_Start opts \<le> op_End opts"
  shows "\<exists>ex t r'. sim_rounds maxSteps (op_Start opts) (op_Start opts) inw r = Some (ex, t, r') \<and> I t r'
           \<and> op_Start opts \<le> t \<and> t \<le> op_End opts"
proof -
  let ?s = "op_Start opts"
  have grid: "?s \<le> (?s - 1) - (?s - 1) mod tick + tick"
    using pos_mod_bound [of tick "?s - 1"] by (simp add: tick_def)
  obtain r' where r': "sim_round ?s inw r = Some (InWindow (rn_sched r) ?s, r')" "I ?s r'"
    using round [OF assms(1) _ grid assms(2)] by auto
  have budget: "maxSteps = Suc (maxSteps - 1)" by (simp add: maxSteps_def)
  show ?thesis
  proof (cases "?s < sim_next ?s r'")
    case True
    from rounds [OF r'(2) assms(2) True sim_next_grid, of "maxSteps - 1" "InWindow (rn_sched r) ?s"] obtain ex t s where
      "sim_rounds (maxSteps - 1) ?s (sim_next ?s r') (InWindow (rn_sched r) ?s) r' = Some (ex, t, s)"
      "I t s" "?s \<le> t" "t \<le> op_End opts" by blast
    with True r' opts [OF assms(1)] assms(2) show ?thesis
      by (subst budget, subst sim_rounds.simps) (auto simp: Let_def)
  next
    case False
    with r' opts [OF assms(1)] assms(2) show ?thesis
      by (subst budget, subst sim_rounds.simps) (auto simp: Let_def)
  qed
qed

end

text \<open>The state in which the clock starts.\<close>

definition opened :: "SimRun \<Rightarrow> SimRun" where
  "opened r =
     (let r = refuseFatal r; now = op_Start (rn_opts r)
      in if InWindow (rn_sched r) now then openWindow now (sim_emit (event KindWindowOpen now) r) else r)"

lemma opened_core: "same_core r (opened r)"
proof -
  let ?f = "refuseFatal r" and ?e = "sim_emit (event KindWindowOpen (op_Start (rn_opts (refuseFatal r)))) (refuseFatal r)"
  have "same_core r ?e" using same_core_trans [of r ?f ?e] by simp
  then have "same_core r (openWindow t ?e)" for t using same_core_trans [of r ?e "openWindow t ?e"] by simp
  then show ?thesis by (simp add: opened_def Let_def)
qed

lemma opened_windows: "windows_ok r \<Longrightarrow> windows_ok (opened r)"
  using windows_ok_same [of r "refuseFatal r"]
  by (simp add: opened_def Let_def) (simp add: windows_ok_def openWindow_def)

lemma sim_loop_opened:
  "sim_loop r = do { (exhausted, t, r') \<leftarrow> sim_rounds maxSteps (op_Start (rn_opts r)) (op_Start (rn_opts r))
                       (InWindow (rn_sched r) (op_Start (rn_opts r))) (opened r);
                     sim_sweep (if exhausted then t else op_End (rn_opts r')) r' }"
proof -
  have "rn_opts (refuseFatal r) = rn_opts r" "rn_sched (refuseFatal r) = rn_sched r"
    using same_core_ops(9) [of r] by (simp_all add: same_core_def)
  then show ?thesis by (simp add: sim_loop_def opened_def Let_def)
qed

lemma sweep_progress:
  assumes "relay_ok r" "windows_ok r"
  shows "\<exists>r'. sim_sweep through r = Some r' \<and> relay_ok r'"
proof -
  let ?b = "breachCheck through (r\<lparr>rn_tl := (rn_tl r)\<lparr>tl_SimulatedThrough := through\<rparr>\<rparr>)"
  let ?f = "flushCensus through (flushBlocked through ?b)"
  have "relay_ok (r\<lparr>rn_tl := (rn_tl r)\<lparr>tl_SimulatedThrough := through\<rparr>\<rparr>)"
    using assms(1) by (rule relay_ok_core [rotated]) (simp add: same_core_def)
  then have r: "relay_ok ?b" by (rule breachCheck_relay)
  have w: "windows_ok ?b" using assms(2) by (simp add: breachCheck_eq windows_ok_def)
  have core: "same_core ?b ?f" "same_windows ?b ?f"
    using same_core_trans [of ?b "flushBlocked through ?b" ?f] same_windows_trans [of ?b "flushBlocked through ?b" ?f] by simp_all
  have "windows_ok ?f" by (rule windows_ok_same [OF core(2) w])
  then obtain r' where r': "closeWindow through True ?f = Some r'"
    by (cases "rn_winOpen ?f") (auto simp: closeWindow_def windows_ok_def put_Some)
  from relay_ok_core [OF same_core_closeWindow [OF r'] relay_ok_core [OF core(1) r]] r' show ?thesis
    by (simp add: sim_sweep_def)
qed

section \<open>Nothing panics\<close>

lemma exhaust_keeps: "relay_ok r \<Longrightarrow> relay_ok (exhaust t r)" "windows_ok r \<Longrightarrow> windows_ok (exhaust t r)"
  "rn_opts (exhaust t r) = rn_opts r"
  using relay_ok_core [of r "exhaust t r"] windows_ok_same [of r "exhaust t r"] same_core_ops(8) [of r t]
  by (simp_all add: same_core_def)

interpretation relay_clock: clock "\<lambda>t r. relay_ok r \<and> windows_ok r \<and> rn_opts r = opts" opts for opts
proof unfold_locales
  fix t r now inw
  assume I: "relay_ok r \<and> windows_ok r \<and> rn_opts r = opts"
  then obtain r' where "sim_round now inw r = Some (InWindow (rn_sched r) now, r')" "relay_ok r'" "windows_ok r'" "fixed r r'"
    using round_cases [of r now inw] by metis
  with I show "\<exists>r'. sim_round now inw r = Some (InWindow (rn_sched r) now, r') \<and> relay_ok r' \<and> windows_ok r' \<and> rn_opts r' = opts"
    by (auto simp: fixed_def)
qed (simp_all add: exhaust_keeps)

fun initial_gens :: "SimRun \<Rightarrow> int \<Rightarrow> SimNode list \<Rightarrow> Generation list" where
  "initial_gens r i [] = []"
| "initial_gens r i (n # ns) = generation_of r i n BirthInitial None False # initial_gens r (i + 1) ns"

lemma initial_gens_cong: "rn_res r' = rn_res r \<Longrightarrow> initial_gens r' i ns = initial_gens r i ns"
  using generation_of_cong [of r' r] by (induction ns arbitrary: i) auto

lemma record_initial_eq:
  "record_initial i ns r = r\<lparr>rn_tl := (rn_tl r)\<lparr>tl_Generations := tl_Generations (rn_tl r) @ initial_gens r i ns\<rparr>\<rparr>"
proof (induction ns arbitrary: i r)
  case (Cons n ns)
  have "initial_gens (r\<lparr>rn_tl := t\<rparr>) j ns = initial_gens r j ns" for t j by (rule initial_gens_cong) simp
  with Cons show ?case by (simp add: recordGeneration_eq)
qed simp

lemma gens_of_initial:
  "gens_of (initial_gens r i ns) j = (if i \<le> j \<and> j < i + int (length ns) then [sn_gen (ns ! nat (j - i))] else [])"
proof (induction ns arbitrary: i)
  case (Cons n ns)
  have "nat (j - i) = Suc (nat (j - (i + 1)))" if "i < j" using that by simp
  with Cons [of "i + 1"] show ?case
    by (cases "j = i") (auto simp: gens_of_def generation_of_def)
qed (simp add: gens_of_def)

lemma new_run_fields:
  "rn_pol (new_run pol sched res env opts f) = pol" "rn_sched (new_run pol sched res env opts f) = sched"
  "rn_res (new_run pol sched res env opts f) = res" "rn_env (new_run pol sched res env opts f) = env"
  "rn_opts (new_run pol sched res env opts f) = opts" "rn_template (new_run pol sched res env opts f) = f"
  "rn_nodes (new_run pol sched res env opts f) = map (init_node f) (fl_Nodes f)"
  "rn_rot (new_run pol sched res env opts f) = None" "rn_poolAnn (new_run pol sched res env opts f) = Map.empty"
  "\<not> rn_winOpen (new_run pol sched res env opts f)" "rn_blockFrom (new_run pol sched res env opts f) = 0"
  "\<not> rn_hasCensus (new_run pol sched res env opts f)"
  "tl_Rotations (rn_tl (new_run pol sched res env opts f)) = []" "tl_Windows (rn_tl (new_run pol sched res env opts f)) = []"
  "tl_Events (rn_tl (new_run pol sched res env opts f)) = []"
  by (simp_all add: new_run_def initFleet_def record_initial_eq noTimeline_def)

lemma new_run_generations:
  "tl_Generations (rn_tl (new_run pol sched res env opts f)) =
     initial_gens (new_run pol sched res env opts f) 0 (map (init_node f) (fl_Nodes f))"
proof -
  have "initial_gens (new_run pol sched res env opts f) = initial_gens (r\<lparr>rn_res := res\<rparr>)" for r
    by (intro ext) (rule initial_gens_cong, simp add: new_run_fields)
  from this [of "_\<lparr>rn_tl := noTimeline res\<rparr>"] show ?thesis
    by (simp add: new_run_def initFleet_def record_initial_eq noTimeline_def) (rule initial_gens_cong, simp)
qed

lemma new_run_ok: "relay_ok (new_run pol sched res env opts f)" "windows_ok (new_run pol sched res env opts f)"
  by (auto simp: relay_ok_def windows_ok_def new_run_fields new_run_generations gens_of_initial init_node_def
      surging_def flying_def rots_of_def)

lemma sim_loop_total:
  assumes "op_Start opts \<le> op_End opts"
  shows "\<exists>r. sim_loop (new_run pol sched res env opts f) = Some r"
proof -
  let ?r = "new_run pol sched res env opts f"
  have "relay_ok (opened ?r)" "windows_ok (opened ?r)" "rn_opts (opened ?r) = opts"
    using relay_ok_core [OF opened_core new_run_ok(1)] opened_windows [OF new_run_ok(2)] opened_core [of ?r]
    by (simp_all add: same_core_def new_run_fields)
  then obtain ex t r' where "sim_rounds maxSteps (op_Start opts) (op_Start opts) (InWindow sched (op_Start opts)) (opened ?r) = Some (ex, t, r')"
    "relay_ok r'" "windows_ok r'"
    using relay_clock.all_rounds [of "opened ?r" opts "InWindow sched (op_Start opts)"] assms by auto
  with sweep_progress [of r'] show ?thesis by (auto simp: sim_loop_opened new_run_fields)
qed

lemma Run_total: "Run loadLocation p f env opts \<noteq> None"
  using sim_loop_total [of opts]
  by (auto simp: Run_def simulate_resolved_def Let_def split: option.splits sum.splits)

text \<open>
  C36. The simulator never panics: for every policy, fleet, environment and horizon, a run returns a
  timeline or an error value. No index it reads or writes is ever out of range: the slot of the pick,
  the rotation in flight, its record, its provisional generation, the last window.
\<close>

theorem simulation_never_panics: "Run loadLocation p f env opts \<noteq> None"
  by (rule Run_total)

end
