(* ===== verification/SimExample.thy ===== *)
theory SimExample
  imports SimRelay
begin

text \<open>
  A run to compute with: one node, an hour into the weekly window of a Monday, 20 seconds before its
  deadline, and an environment whose surge-less drain takes 30 seconds.
\<close>

definition late_start :: time where "late_start = 63866887200000000000"
definition late_done :: time where "late_done = late_start + 30 * Second"

definition late_node :: "int \<Rightarrow> time \<Rightarrow> SimNode" where
  "late_node g t = \<lparr>sn_base = ''a'', sn_gen = g, sn_createdAt = t, sn_expireAfter = 480 * Hour, sn_tgp = Some Hour,
     sn_state = '''', sn_breached = False\<rparr>"
definition late_fleet :: Fleet where
  "late_fleet = \<lparr>fl_ExpireAfter = 480 * Hour, fl_TGP = Some Hour,
     fl_Nodes = [\<lparr>fn_Name = ''a'', fn_CreatedAt = late_start + 20 * Second - 480 * Hour, fn_ExpireAfter = None, fn_TGP = None\<rparr>]\<rparr>"
definition late_opts :: Options where
  "late_opts = \<lparr>op_Start = late_start, op_End = late_start + 50 * Second\<rparr>"
definition late_env :: Env where
  "late_env = \<lparr>env_Provisioning = 10 * Second, env_Drain = 30 * Second\<rparr>"
definition late_sched :: Schedule where
  "late_sched = [\<lparr>e_Loc = UTC, e_Days = [1, 0], e_StartMin = 60, e_EndMin = 330\<rparr>]"

lemma late_schedule:
  "New demo_locations (p_MaintenanceWindows demo_policy) = Inr late_sched"
  "WorstCasePeriod late_sched = Some (144 * Hour)" "ShortestWindow late_sched = Some (270 * Minute)"
  "ShortestIdleGap late_sched = Some 70200000000000"
  by code_simp+
lemma late_window: "InWindow late_sched late_start" "InWindow late_sched late_done" by code_simp+

lemma late_policy_valid: "Validate demo_locations demo_policy = []"
proof -
  have "window_ok demo_locations \<lparr>mw_Timezone = ''UTC'', mw_Days = [''Mon'', ''sun''], mw_Start = ''01:00'', mw_End = ''05:30''\<rparr>"
    by (simp add: window_ok_def demo_locations_def eval_simps)
  then show ?thesis
    by (simp add: Validate_Nil policy_ok_def demo_policy_def ApplyDefaults_def Let_def or_default_def demo_spec_def toSurge_def
        toWindows_def toWindow_def AgeThresholdOverride_def)
qed

definition late_res :: SimResolved where
  "late_res = (case sim_Resolve demo_policy late_sched late_fleet of Inr res \<Rightarrow> res)"

lemma late_policy: "ApplyDefaults demo_policy = demo_policy" "AgeThresholdOverride demo_policy = Inr None" "policy_K demo_policy = 2"
   "ft_Enabled (su_ForcefulFallback (p_Surge demo_policy))"
  "deref (su_CooldownAfter (p_Surge demo_policy)) = 0" "su_FailurePause (p_Surge demo_policy) = None"
  "deref (su_ReadyTimeout (p_Surge demo_policy)) = 15 * Minute" "deref (su_RetryBackoff (p_Surge demo_policy)) = 30 * Minute"
  by (simp_all add: demo_policy_def ApplyDefaults_def Let_def demo_spec_def or_default_def toSurge_def AgeThresholdOverride_def policy_K_def deref_def)

lemma late_resolved: "sim_Resolve demo_policy late_sched late_fleet = Inr late_res" 
  "sv_LeadTime late_res = \<lparr>lt_Base = 1037820000000000, lt_DrainFallback = Hour\<rparr>"
  "sv_Override late_res = None" "sv_Cooldown late_res = 0" "sv_ReadyTimeout late_res = 15 * Minute"
  "sv_DrainBound late_res = 62 * Minute" "sv_FailurePause late_res = 10 * Minute" "sv_RetryBackoff late_res = 30 * Minute"
  by (simp_all add: late_res_def sim_Resolve_def late_policy late_schedule Let_def late_fleet_def deref_def [of "Some _"] mul64_exact add64_exact is_i64_def Buffer_def DrainFallback_def FailurePauseFloor_def)

lemma late_no_fatal: "sim_firstFatal (r_Findings (sv_Derived late_res)) = None"
proof -
  have "\<not> has_fatal (r_Findings (sv_Derived late_res))"
    by (simp add: late_res_def sim_Resolve_def late_policy late_schedule Let_def late_fleet_def deref_def [of "Some _"] Derive_fatal Derive_G Derive_A Derive_TRot Buffer_def
        add64_exact mul64_exact sub64_exact is_i64_def)
  then show ?thesis by (simp add: has_fatal_def sim_firstFatal_def find_None_iff list_ex_iff)
qed


definition late_first :: SimNode where "late_first = late_node 0 (late_start + 20 * Second - 480 * Hour)"

definition late_opened :: SimRun where
  "late_opened = opened (new_run demo_policy late_sched late_res late_env late_opts late_fleet)"

lemma late_opened_fields:
  "rn_pol late_opened = demo_policy" "rn_sched late_opened = late_sched" "rn_res late_opened = late_res" "rn_env late_opened = late_env"
  "rn_opts late_opened = late_opts" "rn_template late_opened = late_fleet" "rn_nodes late_opened = [late_first]"
  "rn_poolAnn late_opened = Map.empty" "rn_rot late_opened = None" "rn_blockFrom late_opened = 0" "\<not> rn_hasCensus late_opened"
  "tl_Events (rn_tl late_opened) = [event KindWindowOpen late_start]" "tl_Rotations (rn_tl late_opened) = []"
  by (simp_all add: late_opened_def opened_def Let_def refuseFatal_def new_run_fields late_no_fatal openWindow_def sim_emit_def
     late_opts_def late_window late_fleet_def late_first_def late_node_def init_node_def)



definition late_second :: SimNode where "late_second = late_node 1 late_done"

definition late_inputs :: "time \<Rightarrow> SelInputs" where
  "late_inputs now =
     \<lparr>si_Now = now, si_LeadTime = \<lparr>lt_Base = 1037820000000000, lt_DrainFallback = Hour\<rparr>, si_Override = None,
      si_RetryBackoff = 30 * Minute, si_Excluded = {}, si_WindowStart = 0, si_WindowEnd = 0\<rparr>"

definition late_gates :: "time \<Rightarrow> annots \<Rightarrow> DecideInputs" where
  "late_gates now ann =
     \<lparr>di_Now = now, di_InWindow = True, di_Annotations = ann, di_Cooldown = 0, di_FailurePause = 10 * Minute,
      di_FallbackEnabled = True, di_ReadyTimeout = 15 * Minute, di_DrainBound = 62 * Minute\<rparr>"

lemma late_selects:
  "PickEarliestDeadlineEligible [sim_view late_first] (late_inputs late_start) = Some (sim_view late_first)"
  "PickEarliestDeadlineEligible [sim_view late_second] (late_inputs late_done) = None"
  "\<not> sim_hasFailedClaim [sim_view late_first]" "\<not> sim_hasFailedClaim [sim_view late_second]"
proof -
  have "\<not> Option.is_none (PickEarliestDeadlineEligible [sim_view late_first] (late_inputs late_start))" by code_simp
  then show "PickEarliestDeadlineEligible [sim_view late_first] (late_inputs late_start) = Some (sim_view late_first)"
    using pick_Some by (fastforce simp: Option.is_none_def)
  have "Option.is_none (PickEarliestDeadlineEligible [sim_view late_second] (late_inputs late_done))" by code_simp
  then show "PickEarliestDeadlineEligible [sim_view late_second] (late_inputs late_done) = None" by (simp add: Option.is_none_def)
  show "\<not> sim_hasFailedClaim [sim_view late_first]" "\<not> sim_hasFailedClaim [sim_view late_second]" by code_simp+
qed

lemma late_decides:
  "StartGate (late_gates late_start Map.empty) = (True, GateNone)"
  "StartGate (late_gates late_done [LastRotationAt \<mapsto> rfc3339 late_done]) = (True, GateNone)"
  "SurgelessFallback (sim_view late_first) (late_gates late_start Map.empty)"
  by code_simp+

lemma late_nodes:
  "late_start < late_done"   "sim_deadline late_first = late_start + 20 * Second" "sim_deadline late_second = late_done + 480 * Hour" "sim_name late_first = ''a''"
  "env_Drain late_env = 30 * Second" "fst (drainCap late_first) = Hour" "c_Name (sim_view n) = sim_name n"
  by (simp_all add: late_done_def late_first_def late_second_def late_node_def sim_deadline_def late_env_def drainCap_def sim_name_def sim_view_def)

lemma late_starts: "maybeStart late_start True late_opened = Some (launched late_start 0 True (30 * Second) late_opened)"
proof -
  let ?r = "late_opened"
  have v: "views ?r = [sim_view late_first]" by (simp add: views_def late_opened_fields)
  have g: "sim_gates late_start True ?r = late_gates late_start Map.empty"
    by (simp add: sim_gates_def late_gates_def late_opened_fields late_resolved late_policy)
  have i: "selectionInputs ?r late_start [sim_view late_first] = late_inputs late_start"
    by (simp add: selectionInputs_def Let_def late_inputs_def late_opened_fields late_resolved late_selects)
  have s: "slotOf ?r ''a'' = 0" by (simp add: slotOf_def late_opened_fields late_nodes)
  have d: "drainFor late_first ?r = (30 * Second, ?r)"
    by (simp add: drainFor_def Let_def late_nodes late_opened_fields)
  have f: "flushBlocked late_start ?r = ?r" "flushCensus late_start ?r = ?r"
    by (simp_all add: flushBlocked_def flushCensus_def IsZero_def late_opened_fields)
  show ?thesis
    using beginRotationOf_eq [of "sim_view late_first" ?r late_start "late_gates late_start Map.empty"]
    by (simp add: maybeStart_def late_opened_fields late_no_fatal g late_decides f v i late_selects s d late_nodes)
qed

lemma late_first_round:
  "sim_round late_start True late_opened = Some (True, launched late_start 0 True (30 * Second) late_opened)"
proof -
  have "breachCheck late_start late_opened = late_opened"
    by (simp add: breachCheck_def breach_nodes.simps late_opened_fields Let_def late_nodes)
  then show ?thesis
    by (simp add: sim_round_def windowEdge_def late_opened_fields late_window sim_advance_def late_starts)
qed

definition late_flying :: SimRun where
  "late_flying = launched late_start 0 True (30 * Second) late_opened"

definition late_rotation :: SimRotation where
  "late_rotation =
     \<lparr>sr_slot = 0, sr_start = late_start, sr_readyAt = 0, sr_doneAt = late_done, sr_surgeless = True, sr_rotIdx = 0,
      sr_genIdx = -1\<rparr>"

lemma late_flying_fields:
  "rn_pol late_flying = demo_policy" "rn_sched late_flying = late_sched" "rn_res late_flying = late_res"
  "rn_opts late_flying = late_opts" "rn_template late_flying = late_fleet"
  "rn_nodes late_flying = [late_first\<lparr>sn_state := StateDraining\<rparr>]" "rn_poolAnn late_flying = Map.empty"
  "rn_rot late_flying = Some late_rotation" "rn_blockFrom late_flying = 0" "\<not> rn_hasCensus late_flying"
  "tl_Events (rn_tl late_flying) = [event KindWindowOpen late_start,
     (event KindRotationStart late_start)\<lparr>ev_Node := ''a'', ev_Surgeless := True\<rparr>]"
  by (simp_all add: late_flying_def launched_def Let_def late_opened_fields late_rotation_def late_nodes late_done_def)

lemma late_finished_fields:
  "rn_pol (finished late_rotation late_flying) = demo_policy" "rn_sched (finished late_rotation late_flying) = late_sched"
  "rn_res (finished late_rotation late_flying) = late_res" "rn_opts (finished late_rotation late_flying) = late_opts"
  "rn_nodes (finished late_rotation late_flying) = [late_second]"
  "rn_poolAnn (finished late_rotation late_flying) = [LastRotationAt \<mapsto> rfc3339 late_done]"
  "rn_rot (finished late_rotation late_flying) = None" "rn_blockFrom (finished late_rotation late_flying) = 0"
  "\<not> rn_hasCensus (finished late_rotation late_flying)"
  "map ev_Kind (tl_Events (rn_tl (finished late_rotation late_flying))) = [KindWindowOpen, KindRotationStart, KindRotationDone]"
  by (simp_all add: finished_def Let_def late_flying_fields late_rotation_def replaced_def late_first_def late_second_def late_node_def
      late_fleet_def event_def)

lemma late_second_round:
  "\<exists>c. sim_round late_done True late_flying = Some (True, recordCensus late_done c (finished late_rotation late_flying))"
proof -
  let ?f = "finished late_rotation late_flying"
  have "relay_ok late_opened" unfolding late_opened_def by (rule relay_ok_core [OF opened_core new_run_ok(1)])
  then have "relay_ok late_flying" unfolding late_flying_def by (rule launched_relay) (simp_all add: late_opened_fields)
  then have a: "sim_advance late_done late_flying = Some ?f"
    by (cases rule: advance_cases [where now = late_done]) (simp_all add: late_flying_fields, auto simp: late_rotation_def)
  have b: "breachCheck late_done ?f = ?f"
    by (simp add: breachCheck_def late_finished_fields Let_def late_nodes)
  have g: "sim_gates late_done True ?f = late_gates late_done [LastRotationAt \<mapsto> rfc3339 late_done]"
    by (simp add: sim_gates_def late_gates_def late_finished_fields late_resolved late_policy)
  have v: "views ?f = [sim_view late_second]" by (simp add: views_def late_finished_fields)
  have i: "selectionInputs ?f late_done [sim_view late_second] = late_inputs late_done"
    by (simp add: selectionInputs_def Let_def late_inputs_def late_finished_fields late_resolved late_selects)
  have f: "flushBlocked late_done ?f = ?f"
    by (simp add: flushBlocked_def IsZero_def late_finished_fields)
  have "maybeStart late_done True ?f = Some (recordCensus late_done (TakeCensus [sim_view late_second] (late_inputs late_done)) ?f)"
    by (simp add: maybeStart_def Let_def late_finished_fields late_no_fatal g late_decides f v i late_selects)
  then show ?thesis
    by (simp add: sim_round_def windowEdge_def late_flying_fields late_window a b late_finished_fields) blast
qed

lemma late_bounds:
  "\<not> fl_ExpireAfter late_fleet \<le> 0" "\<not> env_Provisioning late_env < 0" "\<not> env_Drain late_env < 0"
  "\<not> 900000000000 < env_Provisioning late_env"
  by (simp_all add: late_fleet_def late_env_def)

lemma late_horizon: "op_Start late_opts = late_start" "op_End late_opts = late_start + 50 * Second"
  by (simp_all add: late_opts_def)

lemma late_last:
  "\<not> op_End late_opts < late_start" "\<not> op_End late_opts < late_done" "op_End late_opts < late_start + Minute" "late_done < late_start + Minute"
  by (simp_all add: late_opts_def late_done_def)

lemma late_instants:
  "sim_next late_start late_flying = late_done"
  "sim_next late_done (recordCensus late_done c (finished late_rotation late_flying)) = late_start + Minute"
   apply (simp add: sim_next_def late_flying_fields late_rotation_def late_start_def late_done_def tick_def)
  apply (simp add: sim_next_def late_finished_fields recordCensus_def flushCensus_def)
  apply (simp add: late_start_def late_done_def tick_def)
  done

lemma late_loop:
  "\<exists>c. sim_loop (new_run demo_policy late_sched late_res late_env late_opts late_fleet) =
     sim_sweep (late_start + 50 * Second) (recordCensus late_done c (finished late_rotation late_flying))"
proof -
  obtain c where c: "sim_round late_done True late_flying = Some (True, recordCensus late_done c (finished late_rotation late_flying))"
    using late_second_round by blast
  let ?e = "recordCensus late_done c (finished late_rotation late_flying)"
  have o: "rn_opts ?e = late_opts" using late_finished_fields(4) same_core_ops(7) [of "finished late_rotation late_flying"] by (simp add: same_core_def)
  have "sim_rounds (Suc n) late_done (late_start + Minute) True ?e = Some (False, late_done, ?e)" for n
    using late_last by (subst sim_rounds.simps) (simp add: o)
  then have "sim_rounds (Suc (Suc n)) late_start late_done True late_flying = Some (False, late_done, ?e)" for n
    using late_last by (subst sim_rounds.simps) (simp add: late_flying_fields c late_instants)
  then have steps: "sim_rounds (Suc (Suc (Suc n))) late_start late_start True late_opened = Some (False, late_done, ?e)" for n
    using late_last late_nodes(1)
    by (subst sim_rounds.simps) (simp add: late_opened_fields late_first_round [folded late_flying_def] late_instants)
  have "maxSteps = Suc (Suc (Suc 1999997))" by (simp add: maxSteps_def)
  then have "sim_rounds maxSteps late_start late_start True late_opened = Some (False, late_done, ?e)" by (rule ssubst) (rule steps)
  then show ?thesis
    by (intro exI [of _ c]) (simp add: sim_loop_opened new_run_fields late_opened_def [symmetric] o late_window late_horizon)
qed

end
