(* ===== verification/SimParity.thy ===== *)
theory SimParity
  imports SimExample Rotation
begin

text \<open>
  The simulator is not a second implementation: for a NodePool and a fleet that say the same, its
  resolution is the controller's, and it starts the rotation the controller would start.
\<close>

section \<open>The controller's decision\<close>

text \<open>Which claim a pass takes up, and whether surge-less; the branches of \<open>startRotation\<close>.\<close>

definition start_decision ::
  "NodePool \<Rightarrow> Resolved \<Rightarrow> time \<Rightarrow> Claim list \<Rightarrow> string set \<Rightarrow> Finding list \<Rightarrow> (Claim \<times> bool) option" where
  "start_decision pool res now vs excluded findings =
     (if firstFatal findings \<noteq> None \<or> \<not> fst (StartGate (gateInputs pool res now)) then None
      else map_option (\<lambda>c. (c, SurgelessFallback c (gateInputs pool res now)))
             (PickEarliestDeadlineEligible vs (selInputs res now excluded (hasFailedClaim vs))))"

text \<open>Without a decision a pass idles; with one it goes on to that claim, the fallback as decided.\<close>

lemma startRotation_decides:
  assumes "\<not> staticPool pool"
  shows "start_decision pool res now (fst (adapt_Claims claims)) excluded findings = Some (c, surgeless) \<Longrightarrow>
      startRotation n r pool res now claims excluded findings =
        andThen (emit (ClearStaticNodePool (np_Name pool))) (\<lambda>_.
          case snd (adapt_Claims claims) (c_Name c) of None \<Rightarrow> ret (RequeueAfter longRequeue)
          | Some cand \<Rightarrow> startCandidate n r pool res now c cand findings)
      \<and> surgeless = SurgelessFallback c (gateInputs pool res now)"
    "start_decision pool res now (fst (adapt_Claims claims)) excluded findings = None \<Longrightarrow>
      \<exists>es. startRotation n r pool res now claims excluded findings =
        andThen (emit (ClearStaticNodePool (np_Name pool))) (\<lambda>_. foldr (\<lambda>e k. andThen (emit e) (\<lambda>_. k)) es (ret (RequeueAfter longRequeue)))"
proof -
  let ?v = "fst (adapt_Claims claims)"
  let ?g = "StartGate (gateInputs pool res now)" and ?s = "selInputs res now excluded (hasFailedClaim ?v)"
  have es: "(if firstFatal findings \<noteq> None then idle else andThen (emit e) (\<lambda>_. idle)) =
      foldr (\<lambda>e k. andThen (emit e) (\<lambda>_. k)) (if firstFatal findings \<noteq> None then [] else [e]) idle" for e and idle :: "CtrlResult M"
    by simp
  show "\<exists>es. startRotation n r pool res now claims excluded findings =
        andThen (emit (ClearStaticNodePool (np_Name pool))) (\<lambda>_. foldr (\<lambda>e k. andThen (emit e) (\<lambda>_. k)) es (ret (RequeueAfter longRequeue)))"
    if "start_decision pool res now ?v excluded findings = None"
  proof (rule exI)
    show "startRotation n r pool res now claims excluded findings =
        andThen (emit (ClearStaticNodePool (np_Name pool))) (\<lambda>_. foldr (\<lambda>e k. andThen (emit e) (\<lambda>_. k))
          (if firstFatal findings \<noteq> None then []
           else [if \<not> fst ?g then EmitNoCandidate pool (snd ?g) else EmitNoCandidateCensus pool (TakeCensus ?v ?s)])
          (ret (RequeueAfter longRequeue)))"
      using assms that
      by (auto simp: startRotation_def start_decision_def Let_def adapt_Claims_def split: if_splits)
  qed
qed (use assms in \<open>auto simp: startRotation_def start_decision_def Let_def adapt_Claims_def split: if_splits\<close>)

section \<open>Parity\<close>

text \<open>A NodePool whose template and annotations are the simulated ones.\<close>

definition mirrors :: "NodePool \<Rightarrow> Fleet \<Rightarrow> annots \<Rightarrow> bool" where
  "mirrors pool f ann \<longleftrightarrow>
     np_ExpireAfter pool = Some (fl_ExpireAfter f) \<and> np_TerminationGracePeriod pool = fl_TGP f \<and> np_Annotations pool = ann"

lemma resolution_parity:
  assumes "sim_Resolve pol sched f = Inr sv" "mirrors pool f ann"
  shows "sv_LeadTime sv = res_leadTime (resolve pool pol sched)" "sv_Override sv = res_override (resolve pool pol sched)"
    "sv_RetryBackoff sv = res_retryBackoff (resolve pool pol sched)" "sv_ReadyTimeout sv = res_readyTimeout (resolve pool pol sched)"
    "sv_Cooldown sv = res_cooldown (resolve pool pol sched)" "sv_FailurePause sv = res_failurePause (resolve pool pol sched)"
    "sv_DrainBound sv = res_drainBound (resolve pool pol sched)"
    "sv_Derived sv = derivedThresholds pool (resolve pool pol sched) (deref (WorstCasePeriod sched)) (deref (ShortestWindow sched))
       (ShortestIdleGap sched) (length (fl_Nodes f))"
  using assms
  by (auto simp: sim_Resolve_def resolve_def derivedThresholds_def poolTGP_def mirrors_def Let_def
      split: sum.splits option.splits)

lemma inputs_parity:
  assumes "sim_Resolve pol sched f = Inr sv" "mirrors pool f (rn_poolAnn r)" "rn_res r = sv" "rn_pol r = pol" "rn_sched r = sched"
  shows "sim_gates now (InWindow sched now) r = gateInputs pool (resolve pool pol sched) now"
    "selectionInputs r now vs = selInputs (resolve pool pol sched) now {} (hasFailedClaim vs)"
proof -
  have same: "res_pol (resolve pool pol sched) = pol" "res_sched (resolve pool pol sched) = sched"
    by (simp_all add: resolve_def Let_def split: prod.split)
  show "sim_gates now (InWindow sched now) r = gateInputs pool (resolve pool pol sched) now"
    using resolution_parity [OF assms(1,2)] assms(2-5) same by (simp add: sim_gates_def gateInputs_def mirrors_def)
  show "selectionInputs r now vs = selInputs (resolve pool pol sched) now {} (hasFailedClaim vs)"
    using resolution_parity [OF assms(1,2)] assms(3-5) same
    by (simp add: selectionInputs_def selInputs_def sim_hasFailedClaim_def hasFailedClaim_def Let_def split: option.split)
qed

text \<open>
  C31. The simulator decides as the controller does. For a policy, a schedule and a fleet, and a NodePool
  with the fleet's template, the simulator derives the same thresholds and findings; and in any state of
  a run without a rotation in flight, if the NodePool carries the run's annotations and its NodeClaims
  have the run's views, the simulator starts a rotation at an instant exactly when the pass of the
  controller at that instant takes up a claim, for the same claim and by the same path, surge or
  surge-less.
\<close>

theorem simulator_decides_like_controller:
  assumes "sim_Resolve pol sched f = Inr (rn_res r)" "mirrors pool f (rn_poolAnn r)"
    and "rn_pol r = pol" "rn_sched r = sched" "fst (adapt_Claims claims) = views r" "rn_rot r = None"
  shows "let res = resolve pool pol sched;
             derived = derivedThresholds pool res (deref (WorstCasePeriod sched)) (deref (ShortestWindow sched))
                         (ShortestIdleGap sched) (length (fl_Nodes f))
         in sv_Derived (rn_res r) = derived
            \<and> (\<exists>r'. maybeStart now (InWindow sched now) r = Some r'
                 \<and> map_option (\<lambda>x. (sr_slot x, sr_surgeless x)) (rn_rot r') =
                    map_option (\<lambda>(c, surgeless). (slotOf r (c_Name c), surgeless))
                      (start_decision pool res now (fst (adapt_Claims claims)) {} (r_Findings derived)))"
proof -
  let ?res = "resolve pool pol sched"
  note i = inputs_parity [OF assms(1,2) refl assms(3,4)]
  have d: "sv_Derived (rn_res r) = derivedThresholds pool ?res (deref (WorstCasePeriod sched)) (deref (ShortestWindow sched))
      (ShortestIdleGap sched) (length (fl_Nodes f))"
    by (rule resolution_parity(8) [OF assms(1,2)])
  have fatal: "sim_firstFatal fs = firstFatal fs" for fs by (simp add: sim_firstFatal_def firstFatal_def)
  have dec: "start_decision pool ?res now (fst (adapt_Claims claims)) {} (r_Findings (sv_Derived (rn_res r))) =
      (if sim_firstFatal (r_Findings (sv_Derived (rn_res r))) \<noteq> None \<or> \<not> fst (StartGate (sim_gates now (InWindow sched now) r)) then None
       else map_option (\<lambda>c. (c, SurgelessFallback c (sim_gates now (InWindow sched now) r)))
              (PickEarliestDeadlineEligible (views r) (selectionInputs r now (views r))))"
    by (simp add: start_decision_def fatal i assms(5))
  have "\<exists>r'. maybeStart now (InWindow sched now) r = Some r'
      \<and> map_option (\<lambda>x. (sr_slot x, sr_surgeless x)) (rn_rot r') =
         map_option (\<lambda>(c, surgeless). (slotOf r (c_Name c), surgeless))
           (start_decision pool ?res now (fst (adapt_Claims claims)) {} (r_Findings (sv_Derived (rn_res r))))"
  proof (cases rule: maybeStart_cases [of now "InWindow sched now" r])
    case (Quiet r')
    then have "rn_rot r' = None" using assms(6) by (simp add: same_core_def)
    moreover have "\<not> (sim_firstFatal (r_Findings (sv_Derived (rn_res r))) = None \<and> fst (StartGate (sim_gates now (InWindow sched now) r))
        \<and> PickEarliestDeadlineEligible (views r) (selectionInputs r now (views r)) = Some c)" for c
      using maybeStart_starts [of r now "InWindow sched now" c r'] Quiet(1) \<open>rn_rot r' = None\<close> by blast
    ultimately show ?thesis
      unfolding dec
      using Quiet(1) by (cases "PickEarliestDeadlineEligible (views r) (selectionInputs r now (views r))") auto
  next
    case (Start c r1 drain)
    then show ?thesis unfolding dec by (auto simp: launched_def Let_def)
  qed
  with d show ?thesis by (simp add: Let_def)
qed

definition late_pool :: NodePool where
  "late_pool = (demo_nodepool Map.empty)\<lparr>np_ExpireAfter := Some (480 * Hour), np_TerminationGracePeriod := Some Hour\<rparr>"

definition late_claim :: NodeClaim where
  "late_claim = (demo_nodeclaim ''a'' ''n1'' Map.empty)
     \<lparr>nc_CreationTimestamp := late_start + 20 * Second - 480 * Hour, nc_ExpireAfter := Some (480 * Hour),
      nc_TerminationGracePeriod := Some Hour, nc_Conditions := [\<lparr>cond_Type = ConditionReady, cond_Status = ConditionTrue, cond_Reason = '''', cond_Message = ''''\<rparr>]\<rparr>"

theorem simulator_decides_like_controller_witness:
  "\<exists>c. start_decision late_pool (resolve late_pool demo_policy late_sched) late_start (fst (adapt_Claims [late_claim])) {}
         (r_Findings (derivedThresholds late_pool (resolve late_pool demo_policy late_sched)
           (deref (WorstCasePeriod late_sched)) (deref (ShortestWindow late_sched)) (ShortestIdleGap late_sched) 1)) = Some (c, True)
     \<and> slotOf late_opened (c_Name c) = 0"
proof -
  have c: "fst (adapt_Claims [late_claim]) = views late_opened"
    by (simp add: adapt_Claims_def adapt_Claim_def late_claim_def demo_nodeclaim_def views_def late_opened_fields sim_view_def
        sim_name_def late_first_def late_node_def adapt_ready_def find_condition_def)
  have m: "mirrors late_pool late_fleet (rn_poolAnn late_opened)"
    by (simp add: mirrors_def late_pool_def late_fleet_def demo_nodepool_def late_opened_fields)
  have "length (fl_Nodes late_fleet) = 1" by (simp add: late_fleet_def)
  with simulator_decides_like_controller [OF _ m late_opened_fields(1,2) c late_opened_fields(9), of late_start]
  show ?thesis
    using late_starts by (auto simp: late_opened_fields late_resolved late_window Let_def launched_def eq_commute [of "Some _" "map_option _ _"])
qed

end
