(* ===== verification/SimTimeline.thy ===== *)
theory SimTimeline
  imports SimRelay
begin

text \<open>
  What the derived structure of a timeline says: each rotation names the generation it produced, and
  that generation was born, became ready and stopped being provisional at the rotation's own instants.
\<close>

section \<open>Generations and rotations are unique in their slot\<close>

lemma distinct_filter_nth:
  assumes "distinct (map h (filter P xs))" "j < length xs" "k < length xs" "P (xs ! j)" "P (xs ! k)" "h (xs ! j) = h (xs ! k)"
  shows "j = k"
  using assms
proof (induction xs arbitrary: j k)
  case (Cons x xs)
  have mem: "h (xs ! i) \<in> h ` set (filter P xs)" if "i < length xs" "P (xs ! i)" for i using that by auto
  show ?case
    using Cons.prems mem [of "j - 1"] mem [of "k - 1"] Cons.IH [of "j - 1" "k - 1"]
    by (cases j; cases k) (auto split: if_splits)
qed simp

definition slots_ok :: "SimRun \<Rightarrow> bool" where
  "slots_ok r \<longleftrightarrow>
     (\<forall>g\<in>set (tl_Generations (rn_tl r)). 0 \<le> g_Slot g \<and> g_Slot g < int (length (rn_nodes r)))
     \<and> (\<forall>ro\<in>set (tl_Rotations (rn_tl r)). 0 \<le> ro_Slot ro \<and> ro_Slot ro < int (length (rn_nodes r)))"

lemma slot_gens:
  assumes "relay_ok r" "0 \<le> i" "i < int (length (rn_nodes r))"
  shows "gens_of (tl_Generations (rn_tl r)) i = [0..sn_gen (rn_nodes r ! nat i) + (if surging r i then 1 else 0)]"
    "rots_of (tl_Rotations (rn_tl r)) i = [0..sn_gen (rn_nodes r ! nat i) - (if flying r i then 0 else 1)]"
  using assms by (auto simp: relay_ok_def dest: spec [of _ "nat i"])

lemma gen_unique:
  assumes "relay_ok r" "slots_ok r" "j < length (tl_Generations (rn_tl r))" "k < length (tl_Generations (rn_tl r))"
    "g_Slot (tl_Generations (rn_tl r) ! j) = g_Slot (tl_Generations (rn_tl r) ! k)"
    "g_Gen (tl_Generations (rn_tl r) ! j) = g_Gen (tl_Generations (rn_tl r) ! k)"
  shows "j = k"
proof -
  let ?i = "g_Slot (tl_Generations (rn_tl r) ! k)"
  have "distinct (gens_of (tl_Generations (rn_tl r)) ?i)"
    using assms(2,4) slot_gens(1) [OF assms(1)] by (simp add: slots_ok_def)
  then show ?thesis
    using distinct_filter_nth [of g_Gen "\<lambda>g. g_Slot g = ?i" "tl_Generations (rn_tl r)" j k] assms by (simp add: gens_of_def)
qed

lemma gen_bounds:
  assumes "relay_ok r" "slots_ok r" "g \<in> set (tl_Generations (rn_tl r))"
  shows "0 \<le> g_Gen g" "g_Gen g \<le> sn_gen (rn_nodes r ! nat (g_Slot g)) + (if surging r (g_Slot g) then 1 else 0)"
proof -
  have "g_Gen g \<in> set (gens_of (tl_Generations (rn_tl r)) (g_Slot g))" using assms(3) by (auto simp: gens_of_def)
  then show "0 \<le> g_Gen g" "g_Gen g \<le> sn_gen (rn_nodes r ! nat (g_Slot g)) + (if surging r (g_Slot g) then 1 else 0)"
    using assms(2,3) slot_gens(1) [OF assms(1), of "g_Slot g"] by (auto simp: slots_ok_def)
qed

lemma rot_bounds:
  assumes "relay_ok r" "slots_ok r" "ro \<in> set (tl_Rotations (rn_tl r))"
  shows "0 \<le> ro_FromGen ro" "ro_FromGen ro \<le> sn_gen (rn_nodes r ! nat (ro_Slot ro)) - (if flying r (ro_Slot ro) then 0 else 1)"
proof -
  have "ro_FromGen ro \<in> set (rots_of (tl_Rotations (rn_tl r)) (ro_Slot ro))" using assms(3) by (auto simp: rots_of_def)
  then show "0 \<le> ro_FromGen ro" "ro_FromGen ro \<le> sn_gen (rn_nodes r ! nat (ro_Slot ro)) - (if flying r (ro_Slot ro) then 0 else 1)"
    using assms(2,3) slot_gens(2) [OF assms(1), of "ro_Slot ro"] by (auto simp: slots_ok_def)
qed

lemma earlier_rotation:
  assumes "relay_ok r" "slots_ok r" "rn_rot r = Some x" "ro \<in> set (butlast (tl_Rotations (rn_tl r)))" "ro_Slot ro = sr_slot x"
  shows "ro_FromGen ro < sn_gen (rn_nodes r ! nat (sr_slot x))"
proof -
  let ?ros = "tl_Rotations (rn_tl r)" and ?i = "sr_slot x"
  have f: "flight_ok r x" using assms(1,3) by (simp add: relay_ok_def)
  then have l: "?ros = butlast ?ros @ [last ?ros]" "ro_Slot (last ?ros) = ?i"
    "ro_FromGen (last ?ros) = sn_gen (rn_nodes r ! nat ?i)" "0 \<le> ?i" "?i < int (length (rn_nodes r))"
    by (simp_all add: flight_ok_def Let_def)
  have "distinct (rots_of ?ros ?i)" using slot_gens(2) [OF assms(1) l(4,5)] by simp
  then have "distinct (rots_of (butlast ?ros @ [last ?ros]) ?i)" using l(1) by simp
  moreover have "ro_FromGen ro \<in> set (rots_of (butlast ?ros) ?i)" using assms(4,5) by (auto simp: rots_of_def)
  ultimately have "ro_FromGen ro \<noteq> sn_gen (rn_nodes r ! nat ?i)" using l(2,3) by (auto simp: rots_of_def)
  moreover have "ro_FromGen ro \<le> sn_gen (rn_nodes r ! nat ?i)"
    using rot_bounds(2) [OF assms(1,2), of ro] assms(3-5) by (auto simp: flying_def dest: in_set_butlastD split: if_splits)
  ultimately show ?thesis by simp
qed

section \<open>Births\<close>

definition birth_ok :: "Fleet \<Rightarrow> Generation \<Rightarrow> bool" where
  "birth_ok template g \<longleftrightarrow>
     g_PredecessorGen g = (if g_Gen g = 0 then None else Some (g_Gen g - 1))
     \<and> (g_BirthMode g = BirthInitial \<longleftrightarrow> g_Gen g = 0)
     \<and> g_Deadline g = g_CreatedAt g + g_ExpireAfter g
     \<and> (g_Gen g \<noteq> 0 \<longrightarrow> g_ExpireAfter g = fl_ExpireAfter template
          \<and> g_DrainCap g = (case fl_TGP template of Some d \<Rightarrow> d | None \<Rightarrow> DrainFallback))"

text \<open>A rotation and the generation it produced tell one story.\<close>

definition relays :: "bool \<Rightarrow> RotationRecord \<Rightarrow> Generation \<Rightarrow> bool" where
  "relays inflight ro g \<longleftrightarrow>
     g_BirthMode g = (case ro_Mode ro of RotationSurge \<Rightarrow> BirthSurge | RotationSurgeless \<Rightarrow> BirthSurgeless)
     \<and> g_CreatedAt g = (case ro_Mode ro of RotationSurge \<Rightarrow> ro_Start ro | RotationSurgeless \<Rightarrow> ro_Done ro)
     \<and> g_ReadyAt g = ro_Ready ro \<and> (g_Provisional g \<longleftrightarrow> inflight)"

definition produces :: "RotationRecord \<Rightarrow> Generation \<Rightarrow> bool" where
  "produces ro g \<longleftrightarrow> g_Slot g = ro_Slot ro \<and> g_Gen g = ro_FromGen ro + 1"

definition past_rotations :: "bool \<Rightarrow> RotationRecord list \<Rightarrow> RotationRecord list" where
  "past_rotations inflight ros = (if inflight then butlast ros else ros)"

definition linked :: "Fleet \<Rightarrow> bool \<Rightarrow> Generation list \<Rightarrow> RotationRecord list \<Rightarrow> bool" where
  "linked template inflight gs ros \<longleftrightarrow>
     (\<forall>g\<in>set gs. birth_ok template g)
     \<and> (\<forall>ro\<in>set (past_rotations inflight ros). ro_ToGen ro = Some (ro_FromGen ro + 1)
          \<and> (\<forall>g\<in>set gs. produces ro g \<longrightarrow> relays False ro g))
     \<and> (inflight \<longrightarrow> (\<forall>g\<in>set gs. produces (last ros) g \<longrightarrow> relays True (last ros) g))"

definition link_ok :: "SimRun \<Rightarrow> bool" where
  "link_ok r \<longleftrightarrow>
     slots_ok r \<and> linked (rn_template r) (rn_rot r \<noteq> None) (tl_Generations (rn_tl r)) (tl_Rotations (rn_tl r))"

lemma link_ok_core: "same_core r r' \<Longrightarrow> link_ok r \<Longrightarrow> link_ok r'"
  by (simp add: same_core_def link_ok_def slots_ok_def)

lemma link_ok_breachCheck: "link_ok r \<Longrightarrow> link_ok (breachCheck now r)"
  by (simp add: link_ok_def slots_ok_def breachCheck_eq)

lemma set_update: "k < length xs \<Longrightarrow> y \<in> set (xs[k := z]) \<Longrightarrow> y = z \<or> (\<exists>j<length xs. j \<noteq> k \<and> y = xs ! j)"
  by (auto simp: in_set_conv_nth nth_list_update split: if_splits)

lemma other_gens:
  assumes "relay_ok r" "slots_ok r" "flight_ok r x" "\<not> sr_surgeless x"
    "g \<in> set ((tl_Generations (rn_tl r))[nat (sr_genIdx x) := h])"
  shows "g = h \<or> (g \<in> set (tl_Generations (rn_tl r)) \<and> \<not> produces (last (tl_Rotations (rn_tl r))) g)"
proof -
  let ?gs = "tl_Generations (rn_tl r)" and ?k = "nat (sr_genIdx x)"
  have k: "?k < length ?gs" "produces (last (tl_Rotations (rn_tl r))) (?gs ! ?k)"
    using assms(3,4) by (auto simp: flight_ok_def Let_def produces_def)
  consider "g = h" | j where "j < length ?gs" "j \<noteq> ?k" "g = ?gs ! j"
    using set_update [OF k(1) assms(5)] by blast
  then show ?thesis
  proof cases
    case 2
    then have "\<not> produces (last (tl_Rotations (rn_tl r))) g"
      using gen_unique [OF assms(1,2) 2(1) k(1)] k(2) by (auto simp: produces_def)
    with 2 show ?thesis by auto
  qed simp
qed

lemma readied_link:
  assumes "relay_ok r" "link_ok r" "rn_rot r = Some x" "\<not> sr_surgeless x"
  shows "link_ok (readied x r)"
proof -
  let ?gs = "tl_Generations (rn_tl r)" and ?ros = "tl_Rotations (rn_tl r)" and ?k = "nat (sr_genIdx x)"
  let ?g = "?gs ! ?k" and ?ro = "last ?ros"
  have f: "flight_ok r x" using assms(1,3) by (simp add: relay_ok_def)
  have k: "?k < length ?gs" and g: "g_Slot ?g = sr_slot x" "g_Gen ?g = sn_gen (rn_nodes r ! nat (sr_slot x)) + 1"
    and ro: "ro_Slot ?ro = sr_slot x" "ro_FromGen ?ro = sn_gen (rn_nodes r ! nat (sr_slot x))" and ne: "?ros \<noteq> []"
    using f assms(4) by (auto simp: flight_ok_def Let_def)
  have gens: "tl_Generations (rn_tl (readied x r)) = ?gs[?k := ?g\<lparr>g_ReadyAt := sr_readyAt x\<rparr>]"
    and ros: "tl_Rotations (rn_tl (readied x r)) = butlast ?ros @ [?ro\<lparr>ro_Ready := sr_readyAt x\<rparr>]"
    and rest: "rn_rot (readied x r) = rn_rot r" "rn_template (readied x r) = rn_template r"
      "length (rn_nodes (readied x r)) = length (rn_nodes r)"
    using rotIdx_range(3,4) [OF f] butlast_update [OF ne] by (simp_all add: readied_def)
  have mem: "g = ?g\<lparr>g_ReadyAt := sr_readyAt x\<rparr> \<or> (g \<in> set ?gs \<and> \<not> produces ?ro g)"
    if "g \<in> set (tl_Generations (rn_tl (readied x r)))" for g
    using other_gens [OF assms(1) _ f assms(4)] assms(2) that by (simp add: gens link_ok_def)
  have old: "?g \<in> set ?gs" using k by simp
  have p: "produces ?ro ?g" using g ro by (simp add: produces_def)
  have before: "\<not> produces ro ?g" if "ro \<in> set (butlast ?ros)" for ro
    using earlier_rotation [OF assms(1) _ assms(3) that] assms(2) g by (auto simp: produces_def link_ok_def)
  show ?thesis
    unfolding link_ok_def linked_def past_rotations_def rest ros slots_ok_def
  proof (intro conjI ballI impI)
    fix y assume y: "y \<in> set (tl_Generations (rn_tl (readied x r)))"
    show "0 \<le> g_Slot y" "g_Slot y < int (length (rn_nodes r))" "birth_ok (rn_template r) y"
      using mem [OF y] assms(2) old by (auto simp: link_ok_def linked_def slots_ok_def birth_ok_def)
  next
    fix y assume "y \<in> set (butlast ?ros @ [?ro\<lparr>ro_Ready := sr_readyAt x\<rparr>])"
    then show "0 \<le> ro_Slot y" "ro_Slot y < int (length (rn_nodes r))"
      using assms(2) ne by (auto simp: link_ok_def slots_ok_def dest: in_set_butlastD)
  next
    fix y assume "y \<in> set (if rn_rot r \<noteq> None then butlast (butlast ?ros @ [?ro\<lparr>ro_Ready := sr_readyAt x\<rparr>])
        else butlast ?ros @ [?ro\<lparr>ro_Ready := sr_readyAt x\<rparr>])"
    then have y: "y \<in> set (butlast ?ros)" using assms(3) by simp
    with assms(2,3) have o: "ro_ToGen y = Some (ro_FromGen y + 1)" "\<And>g. g \<in> set ?gs \<Longrightarrow> produces y g \<Longrightarrow> relays False y g"
      by (auto simp: link_ok_def linked_def past_rotations_def)
    then show "ro_ToGen y = Some (ro_FromGen y + 1)" by simp
    fix g assume "g \<in> set (tl_Generations (rn_tl (readied x r)))" "produces y g"
    with mem [of g] before [OF y] o show "relays False y g" by (auto simp: produces_def)
  next
    fix g assume "g \<in> set (tl_Generations (rn_tl (readied x r)))"
      "produces (last (butlast ?ros @ [?ro\<lparr>ro_Ready := sr_readyAt x\<rparr>])) g"
    moreover have "relays True ?ro ?g" using assms(2,3) old p by (auto simp: link_ok_def linked_def)
    ultimately show "relays True (last (butlast ?ros @ [?ro\<lparr>ro_Ready := sr_readyAt x\<rparr>])) g"
      using mem [of g] by (auto simp: produces_def relays_def split: RotationPath.split)
  qed
qed

lemma finished_link:
  assumes "relay_ok r" "link_ok r" "rn_rot r = Some x"
  shows "link_ok (finished x r)"
proof -
  let ?gs = "tl_Generations (rn_tl r)" and ?ros = "tl_Rotations (rn_tl r)" and ?n = "rn_nodes r ! nat (sr_slot x)"
  let ?ro = "last ?ros" and ?n' = "replaced (rn_template r) x ?n" and ?gs' = "tl_Generations (rn_tl (finished x r))"
  have f: "flight_ok r x" using assms(1,3) by (simp add: relay_ok_def)
  have s: "slots_ok r" and l: "linked (rn_template r) True ?gs ?ros" using assms(2,3) by (simp_all add: link_ok_def)
  have slot: "0 \<le> sr_slot x" "sr_slot x < int (length (rn_nodes r))" and ne: "?ros \<noteq> []"
    and ro: "ro_Slot ?ro = sr_slot x" "ro_FromGen ?ro = sn_gen ?n" "ro_Start ?ro = sr_start x"
    using f by (simp_all add: flight_ok_def Let_def)
  have gen: "0 \<le> sn_gen ?n" using assms(1) slot by (auto simp: relay_ok_def)
  have new: "sn_gen ?n' = sn_gen ?n + 1" by (simp add: replaced_def)
  define ro' where "ro' = (if sr_surgeless x then ?ro\<lparr>ro_Done := sr_doneAt x, ro_ToGen := Some (sn_gen ?n')\<rparr>
                           else ?ro\<lparr>ro_Done := sr_doneAt x\<rparr>)"
  have ro': "ro_Slot ro' = sr_slot x" "ro_FromGen ro' = sn_gen ?n" "ro_ToGen ro' = Some (sn_gen ?n + 1)"
    using f ro new by (auto simp: ro'_def flight_ok_def Let_def)
  have ros': "tl_Rotations (rn_tl (finished x r)) = butlast ?ros @ [ro']"
    and rest: "rn_rot (finished x r) = None" "rn_template (finished x r) = rn_template r"
      "length (rn_nodes (finished x r)) = length (rn_nodes r)"
    by (simp_all add: finished_def Let_def ro'_def)
  have past: "ro_ToGen y = Some (ro_FromGen y + 1) \<and> (\<forall>g\<in>set ?gs. produces y g \<longrightarrow> relays False y g)"
    if "y \<in> set (butlast ?ros)" for y using l that by (simp add: linked_def past_rotations_def)
  have no: "\<not> (g_Slot g = sr_slot x \<and> g_Gen g = sn_gen ?n + 1 \<and> produces y g)" if "y \<in> set (butlast ?ros)" for y g
    using earlier_rotation [OF assms(1) s assms(3) that] by (auto simp: produces_def)
  have key: "\<forall>g\<in>set ?gs'. 0 \<le> g_Slot g \<and> g_Slot g < int (length (rn_nodes r)) \<and> birth_ok (rn_template r) g
      \<and> (\<forall>y\<in>set (butlast ?ros). produces y g \<longrightarrow> relays False y g) \<and> (produces ro' g \<longrightarrow> relays False ro' g)"
  proof (cases "sr_surgeless x")
    case True
    let ?new = "generation_of r (sr_slot x) ?n' BirthSurgeless (Some (sn_gen ?n' - 1)) False"
    have gs': "?gs' = ?gs @ [?new]" using True by (simp add: finished_def Let_def)
    have m: "ro_Mode ?ro = RotationSurgeless" "ro_Ready ?ro = 0" using f True by (simp_all add: flight_ok_def Let_def)
    have old: "\<not> produces ro' g" if "g \<in> set ?gs" for g
      using gen_bounds(2) [OF assms(1) s that] ro' True assms(3) by (auto simp: produces_def surging_def)
    have n: "birth_ok (rn_template r) ?new" "relays False ro' ?new" "g_Slot ?new = sr_slot x" "g_Gen ?new = sn_gen ?n + 1"
      using gen True m new
      by (auto simp: birth_ok_def generation_of_def relays_def ro'_def sim_deadline_def drainCap_def replaced_def split: option.split)
    show ?thesis
    proof
      fix g assume "g \<in> set ?gs'"
      then consider "g \<in> set ?gs" | "g = ?new" by (auto simp: gs')
      then show "0 \<le> g_Slot g \<and> g_Slot g < int (length (rn_nodes r)) \<and> birth_ok (rn_template r) g
        \<and> (\<forall>y\<in>set (butlast ?ros). produces y g \<longrightarrow> relays False y g) \<and> (produces ro' g \<longrightarrow> relays False ro' g)"
      proof cases
        case 1
        with s l past old show ?thesis by (auto simp: slots_ok_def linked_def)
      next
        case 2
        with n slot no [of _ ?new] show ?thesis by auto
      qed
    qed
  next
    case False
    let ?k = "nat (sr_genIdx x)"
    let ?g = "?gs ! ?k" and ?new = "(?gs ! nat (sr_genIdx x))\<lparr>g_Provisional := False\<rparr>"
    have gs': "?gs' = ?gs[?k := ?new]" using False by (simp add: finished_def Let_def)
    have g: "?g \<in> set ?gs" "g_Slot ?g = sr_slot x" "g_Gen ?g = sn_gen ?n + 1" and m: "ro_Mode ?ro = RotationSurge"
      using f False by (auto simp: flight_ok_def Let_def)
    then have "relays True ?ro ?g" using l ro by (simp add: linked_def produces_def)
    then have n: "relays False ro' ?new" using m False by (simp add: relays_def ro'_def)
    have b: "birth_ok (rn_template r) ?new" using l g(1) by (auto simp: linked_def birth_ok_def)
    show ?thesis
    proof
      fix h assume "h \<in> set ?gs'"
      with other_gens [OF assms(1) s f False] consider "h = ?new" | "h \<in> set ?gs" "\<not> produces ?ro h" by (auto simp: gs')
      then show "0 \<le> g_Slot h \<and> g_Slot h < int (length (rn_nodes r)) \<and> birth_ok (rn_template r) h
        \<and> (\<forall>y\<in>set (butlast ?ros). produces y h \<longrightarrow> relays False y h) \<and> (produces ro' h \<longrightarrow> relays False ro' h)"
      proof cases
        case 1
        with n b g slot no [of _ ?new] show ?thesis by auto
      next
        case 2
        with s l past ro ro' show ?thesis by (auto simp: slots_ok_def linked_def produces_def)
      qed
    qed
  qed
  show ?thesis
    unfolding link_ok_def linked_def past_rotations_def rest ros' slots_ok_def
    using key past ro' slot s ne by (auto simp: slots_ok_def dest: in_set_butlastD)
qed

lemma launched_link:
  assumes "relay_ok r" "link_ok r" "rn_rot r = None" "0 \<le> slot" "slot < int (length (rn_nodes r))"
  shows "link_ok (launched now slot surgeless drain r)"
proof -
  let ?r = "launched now slot surgeless drain r"
  let ?gs = "tl_Generations (rn_tl r)" and ?ros = "tl_Rotations (rn_tl r)" and ?n = "rn_nodes r ! nat slot"
  have s: "slots_ok r" and l: "linked (rn_template r) False ?gs ?ros" using assms(2,3) by (simp_all add: link_ok_def)
  have gen: "0 \<le> sn_gen ?n" using assms(1,4,5) by (auto simp: relay_ok_def)
  define ro where "ro = \<lparr>ro_Slot = slot, ro_FromGen = sn_gen ?n, ro_ToGen = (if surgeless then None else Some (sn_gen ?n + 1)),
      ro_Mode = (if surgeless then RotationSurgeless else RotationSurge), ro_Start = now, ro_Ready = 0, ro_Done = 0\<rparr>"
  define new where "new = generation_of r slot (surge_replacement (rn_template r) now ?n) BirthSurge (Some (sn_gen ?n)) True"
  have ros': "tl_Rotations (rn_tl ?r) = ?ros @ [ro]" and gs': "tl_Generations (rn_tl ?r) = ?gs @ (if surgeless then [] else [new])"
    and rest: "rn_template ?r = rn_template r" "length (rn_nodes ?r) = length (rn_nodes r)" "rn_rot ?r \<noteq> None"
    by (simp_all add: launched_def Let_def ro_def new_def)
  have old: "\<not> produces ro g" if "g \<in> set ?gs" for g
    using gen_bounds(2) [OF assms(1) s that] assms(3) by (auto simp: produces_def surging_def ro_def)
  have past: "\<not> produces y new" if "y \<in> set ?ros" for y
    using rot_bounds(2) [OF assms(1) s that] assms(3)
    by (auto simp: produces_def flying_def new_def generation_of_def surge_replacement_def)
  have n: "birth_ok (rn_template r) new" "relays True ro new" "g_Slot new = slot" if "\<not> surgeless"
    using that gen
    by (auto simp: new_def ro_def birth_ok_def relays_def generation_of_def sim_deadline_def drainCap_def surge_replacement_def
        split: option.split)
  have all: "g \<in> set (tl_Generations (rn_tl ?r)) \<Longrightarrow> g \<in> set ?gs \<or> (g = new \<and> \<not> surgeless)" for g
    by (auto simp: gs' split: if_splits)
  show ?thesis
    unfolding link_ok_def linked_def past_rotations_def rest(1,2) ros' slots_ok_def
  proof (intro conjI ballI impI)
    fix g assume g: "g \<in> set (tl_Generations (rn_tl ?r))"
    show "0 \<le> g_Slot g" "g_Slot g < int (length (rn_nodes r))" "birth_ok (rn_template r) g"
      using all [OF g] s l n assms(4,5) by (auto simp: slots_ok_def linked_def)
    show "produces (last (?ros @ [ro])) g \<Longrightarrow> relays True (last (?ros @ [ro])) g"
      using all [OF g] old n by auto
  next
    fix y assume "y \<in> set (?ros @ [ro])"
    then show "0 \<le> ro_Slot y" "ro_Slot y < int (length (rn_nodes r))"
      using s assms(4,5) by (auto simp: slots_ok_def ro_def)
  next
    fix y assume "y \<in> set (if rn_rot ?r \<noteq> None then butlast (?ros @ [ro]) else ?ros @ [ro])"
    then have y: "y \<in> set ?ros" using rest(3) by simp
    with l have o: "ro_ToGen y = Some (ro_FromGen y + 1)" "\<And>g. g \<in> set ?gs \<Longrightarrow> produces y g \<Longrightarrow> relays False y g"
      by (simp_all add: linked_def past_rotations_def)
    then show "ro_ToGen y = Some (ro_FromGen y + 1)" by simp
    fix g assume "g \<in> set (tl_Generations (rn_tl ?r))" "produces y g"
    with all [of g] past [OF y] o show "relays False y g" by auto
  qed
qed

section \<open>Every round keeps the story\<close>

lemma advance_link:
  assumes "relay_ok r" "link_ok r" "sim_advance now r = Some r'"
  shows "link_ok r'"
  using assms(1)
proof (cases rule: advance_cases [where now = now])
  case Idle
  with assms show ?thesis by simp
next
  case (Flying x s)
  have "link_ok s" using Flying(1,4) readied_link [OF assms(1,2)] assms(2) by auto
  with Flying(6) assms(3) show ?thesis by simp
next
  case (Done x s)
  have "link_ok s" using Done(1,4) readied_link [OF assms(1,2)] assms(2) by auto
  from finished_link [OF Done(3) this Done(2)] Done(6) assms(3) show ?thesis by simp
qed

lemma maybeStart_link:
  assumes "relay_ok r" "link_ok r" "rn_rot r = None" "maybeStart now inw r = Some r'"
  shows "link_ok r'"
proof (cases rule: maybeStart_cases [of now inw r])
  case (Quiet s)
  with assms show ?thesis by (auto intro: link_ok_core)
next
  case (Start c r1 drain)
  have r1: "relay_ok r1" "link_ok r1" "rn_rot r1 = None" "rn_nodes r1 = rn_nodes r"
    using Start(1) assms(3) relay_ok_core [OF Start(1) assms(1)] link_ok_core [OF Start(1) assms(2)]
    by (simp_all add: same_core_def)
  have "c \<in> set (views r)" using pick_Some [OF Start(5)] by simp
  from launched_link [OF r1(1-3)] slotOf_found [OF this] r1(4) Start(7) assms(4) show ?thesis by simp
qed

text \<open>What each interpretation of the clock rests on.\<close>

lemma round_link:
  assumes "relay_ok r" "windows_ok r" "link_ok r"
  shows "\<exists>r'. sim_round now inw r = Some (InWindow (rn_sched r) now, r') \<and> relay_ok r' \<and> windows_ok r' \<and> fixed r r' \<and> link_ok r'"
  using assms(1,2)
proof (cases rule: round_cases [where now = now and inw = inw])
  case (1 r1 r2 r')
  have b: "link_ok (breachCheck now r2)"
    using advance_link [OF 1(3) link_ok_core [OF 1(2) assms(3)] 1(4)] by (rule link_ok_breachCheck)
  have "link_ok r'"
  proof (cases "rn_rot r2")
    case None
    with 1(7) maybeStart_link [OF breachCheck_relay [OF 1(5)] b] show ?thesis by (simp add: breachCheck_eq)
  next
    case (Some x)
    with 1(7) b show ?thesis by simp
  qed
  with 1 show ?thesis by blast
qed

interpretation link_clock: clock "\<lambda>t r. relay_ok r \<and> windows_ok r \<and> link_ok r \<and> rn_opts r = opts \<and> fixed r0 r" opts for opts r0
proof unfold_locales
  fix t r now inw
  assume I: "relay_ok r \<and> windows_ok r \<and> link_ok r \<and> rn_opts r = opts \<and> fixed r0 r"
  then obtain r' where r': "sim_round now inw r = Some (InWindow (rn_sched r) now, r')" "relay_ok r'" "windows_ok r'" "fixed r r'" "link_ok r'"
    using round_link by blast
  with I fixed_trans [of r0 r r'] show "\<exists>r'. sim_round now inw r = Some (InWindow (rn_sched r) now, r')
      \<and> relay_ok r' \<and> windows_ok r' \<and> link_ok r' \<and> rn_opts r' = opts \<and> fixed r0 r'"
    by (auto simp: fixed_def)
next
  fix t r
  assume "relay_ok r \<and> windows_ok r \<and> link_ok r \<and> rn_opts r = opts \<and> fixed r0 r"
  then show "relay_ok (exhaust t r) \<and> windows_ok (exhaust t r) \<and> link_ok (exhaust t r) \<and> rn_opts (exhaust t r) = opts \<and> fixed r0 (exhaust t r)"
    using exhaust_keeps link_ok_core [of r "exhaust t r"] fixed_trans [of r0 r "exhaust t r"] fixed_core [of r "exhaust t r"] by simp
qed simp

section \<open>The finished run\<close>

lemma new_run_link: "link_ok (new_run pol sched res env opts f)"
proof -
  let ?r = "new_run pol sched res env opts f"
  have "g \<in> set (initial_gens ?r i ns) \<Longrightarrow> \<forall>n\<in>set ns. sn_gen n = 0 \<Longrightarrow>
      birth_ok f g \<and> i \<le> g_Slot g \<and> g_Slot g < i + int (length ns)" for g i ns
    by (induction ns arbitrary: i) (fastforce simp: birth_ok_def generation_of_def sim_deadline_def)+
  from this [of _ 0 "map (init_node f) (fl_Nodes f)"]
  have "birth_ok f g \<and> 0 \<le> g_Slot g \<and> g_Slot g < int (length (fl_Nodes f))"
    if "g \<in> set (initial_gens ?r 0 (map (init_node f) (fl_Nodes f)))" for g
    using that by (auto simp: init_node_def)
  then show ?thesis
    by (simp add: link_ok_def linked_def slots_ok_def past_rotations_def new_run_fields new_run_generations)
qed

lemma opened_ok:
  "relay_ok (opened (new_run pol sched res env opts f))" "windows_ok (opened (new_run pol sched res env opts f))"
  "link_ok (opened (new_run pol sched res env opts f))" "rn_opts (opened (new_run pol sched res env opts f)) = opts"
  "fixed (new_run pol sched res env opts f) (opened (new_run pol sched res env opts f))"
  using relay_ok_core [OF opened_core new_run_ok(1)] link_ok_core [OF opened_core new_run_link] opened_windows [OF new_run_ok(2)]
    opened_core [of "new_run pol sched res env opts f"] fixed_core [OF opened_core]
  by (simp_all add: same_core_def new_run_fields)

text \<open>The sweep at the end marks the last breaches and closes the open intervals.\<close>

lemma sweep_effect:
  assumes "sim_sweep through r = Some r'"
  shows "tl_Generations (rn_tl r') = tl_Generations (rn_tl r)" "tl_Rotations (rn_tl r') = tl_Rotations (rn_tl r)"
    "rn_rot r' = rn_rot r" "rn_nodes r' = map (marked through) (rn_nodes r)" "fixed r r'"
proof -
  let ?b = "breachCheck through (r\<lparr>rn_tl := (rn_tl r)\<lparr>tl_SimulatedThrough := through\<rparr>\<rparr>)"
  let ?f = "flushCensus through (flushBlocked through ?b)"
  have "same_core ?b ?f" using same_core_trans [of ?b "flushBlocked through ?b" ?f] by simp
  with assms have core: "same_core ?b r'"
    using same_core_closeWindow [of through True ?f r'] same_core_trans [of ?b ?f r'] by (simp add: sim_sweep_def)
  then show "tl_Generations (rn_tl r') = tl_Generations (rn_tl r)" "tl_Rotations (rn_tl r') = tl_Rotations (rn_tl r)"
    "rn_rot r' = rn_rot r" "rn_nodes r' = map (marked through) (rn_nodes r)" "fixed r r'"
    by (simp_all add: same_core_def breachCheck_eq fixed_def)
qed

text \<open>A timeline, for those who build on it: the run it comes from, at the instant its clock stopped.\<close>

lemma timeline_cases:
  assumes "Run loadLocation p f env opts = Some (Inr t)"
  obtains (Refused) res where "t = (noTimeline res)\<lparr>tl_Partial := True, tl_Diagnostics := tl_Diagnostics t\<rparr>"
  | (Simulated) pol sched res env' r where
      "op_Start opts < op_End opts" "p \<noteq> None" "pol = ApplyDefaults (the p)" "Validate loadLocation pol = []"
      "New loadLocation (p_MaintenanceWindows pol) = Inr sched" "sim_Resolve pol sched f = Inr res"
      "env' = env_defaults res env" "env_Provisioning env' \<le> sv_ReadyTimeout res"
      "sim_loop (new_run pol sched res env' opts f) = Some r" "t = sort_events (rn_tl r)"
proof -
  from assms obtain p' where p': "p = Some p'" by (cases p) (auto simp: Run_def)
  from assms obtain sched res where s: "New loadLocation (p_MaintenanceWindows (ApplyDefaults p')) = Inr sched"
    "sim_Resolve (ApplyDefaults p') sched f = Inr res" "op_Start opts < op_End opts" "Validate loadLocation (ApplyDefaults p') = []"
    "simulate_resolved (ApplyDefaults p') sched res f env opts = Some t"
    by (auto simp: Run_def p' Let_def split: if_splits sum.splits)
  show ?thesis
  proof (cases "sv_ReadyTimeout res < env_Provisioning (env_defaults res env)")
    case True
    with s(5) that(1) [of res] show ?thesis by (auto simp: simulate_resolved_def Let_def)
  next
    case False
    with s p' that(2) [of "ApplyDefaults p'" sched res "env_defaults res env"] show ?thesis
      by (auto simp: simulate_resolved_def Let_def)
  qed
qed

definition relayed :: "Fleet \<Rightarrow> Timeline \<Rightarrow> bool" where
  "relayed f t \<longleftrightarrow>
     (\<forall>i. \<exists>m. gens_of (tl_Generations t) i = [0..m] \<and> (rots_of (tl_Rotations t) i = [0..m - 1] \<or> rots_of (tl_Rotations t) i = [0..m]))
     \<and> (\<forall>g\<in>set (tl_Generations t). birth_ok f g)
     \<and> (\<forall>ro\<in>set (butlast (tl_Rotations t)). \<exists>g\<in>set (tl_Generations t).
          ro_ToGen ro = Some (g_Gen g) \<and> produces ro g \<and> relays False ro g)
     \<and> (tl_Rotations t \<noteq> [] \<longrightarrow>
          (let ro = last (tl_Rotations t) in
             (\<exists>g\<in>set (tl_Generations t). ro_ToGen ro = Some (g_Gen g) \<and> produces ro g \<and> relays (g_Provisional g) ro g)
             \<or> (ro_ToGen ro = None \<and> ro_Mode ro = RotationSurgeless \<and> ro_Done ro = 0
                  \<and> (\<forall>g\<in>set (tl_Generations t). \<not> produces ro g))))"

lemma produced:
  assumes "relay_ok r" "link_ok r" "ro \<in> set (past_rotations (rn_rot r \<noteq> None) (tl_Rotations (rn_tl r)))"
  shows "\<exists>g\<in>set (tl_Generations (rn_tl r)). ro_ToGen ro = Some (g_Gen g) \<and> produces ro g \<and> relays False ro g"
proof -
  let ?gs = "tl_Generations (rn_tl r)" and ?i = "ro_Slot ro"
  have s: "slots_ok r" and l: "linked (rn_template r) (rn_rot r \<noteq> None) ?gs (tl_Rotations (rn_tl r))"
    using assms(2) by (simp_all add: link_ok_def)
  have ro: "ro \<in> set (tl_Rotations (rn_tl r))" using assms(3) by (auto simp: past_rotations_def dest: in_set_butlastD split: if_splits)
  have i: "0 \<le> ?i" "?i < int (length (rn_nodes r))" using s ro by (auto simp: slots_ok_def)
  have "ro_FromGen ro < sn_gen (rn_nodes r ! nat ?i)"
  proof (cases "flying r ?i")
    case True
    then obtain x where x: "rn_rot r = Some x" "sr_slot x = ?i" by (auto simp: flying_def)
    with assms(3) earlier_rotation [OF assms(1) s x(1), of ro] show ?thesis by (auto simp: past_rotations_def)
  next
    case False
    with rot_bounds(2) [OF assms(1) s ro] show ?thesis by simp
  qed
  then have "ro_FromGen ro + 1 \<in> set (gens_of ?gs ?i)"
    using slot_gens(1) [OF assms(1) i] rot_bounds(1) [OF assms(1) s ro] by auto
  then obtain g where g: "g \<in> set ?gs" "produces ro g" by (auto simp: gens_of_def produces_def)
  with l assms(3) have "ro_ToGen ro = Some (ro_FromGen ro + 1) \<and> relays False ro g" unfolding linked_def by blast
  with g show ?thesis by (intro bexI [of _ g]) (auto simp: produces_def)
qed

lemma relayed_run:
  assumes "relay_ok r" "link_ok r" "tl_Generations t = tl_Generations (rn_tl r)" "tl_Rotations t = tl_Rotations (rn_tl r)"
  shows "relayed (rn_template r) t"
proof -
  let ?gs = "tl_Generations (rn_tl r)" and ?ros = "tl_Rotations (rn_tl r)"
  have s: "slots_ok r" and l: "linked (rn_template r) (rn_rot r \<noteq> None) ?gs ?ros" using assms(2) by (simp_all add: link_ok_def)
  have numbered: "\<exists>m. gens_of ?gs i = [0..m] \<and> (rots_of ?ros i = [0..m - 1] \<or> rots_of ?ros i = [0..m])" for i
  proof (cases "0 \<le> i \<and> i < int (length (rn_nodes r))")
    case True
    then show ?thesis
      using slot_gens [OF assms(1), of i] by (auto simp: surging_def flying_def split: if_splits)
  next
    case False
    then have "gens_of ?gs i = []" "rots_of ?ros i = []" using s by (auto simp: slots_ok_def gens_of_def rots_of_def filter_empty_conv)
    then show ?thesis by (intro exI [of _ "-1"]) simp
  qed
  have past: "\<exists>g\<in>set ?gs. ro_ToGen ro = Some (g_Gen g) \<and> produces ro g \<and> relays False ro g" if "ro \<in> set (butlast ?ros)" for ro
    by (rule produced [OF assms(1,2)]) (use that in \<open>simp add: past_rotations_def in_set_butlastD\<close>)
  have final: "(\<exists>g\<in>set ?gs. ro_ToGen ro = Some (g_Gen g) \<and> produces ro g \<and> relays (g_Provisional g) ro g)
      \<or> (ro_ToGen ro = None \<and> ro_Mode ro = RotationSurgeless \<and> ro_Done ro = 0 \<and> (\<forall>g\<in>set ?gs. \<not> produces ro g))"
    if "?ros \<noteq> []" "ro = last ?ros" for ro
  proof (cases "rn_rot r")
    case None
    with produced [OF assms(1,2), of ro] that have "\<exists>g\<in>set ?gs. ro_ToGen ro = Some (g_Gen g) \<and> produces ro g \<and> relays False ro g"
      by (simp add: past_rotations_def)
    then show ?thesis by (auto simp: relays_def)
  next
    case (Some x)
    then have f: "flight_ok r x" using assms(1) by (simp add: relay_ok_def)
    then have ro: "ro_Slot ro = sr_slot x" "ro_FromGen ro = sn_gen (rn_nodes r ! nat (sr_slot x))" "ro_Done ro = 0"
      "if sr_surgeless x then ro_Mode ro = RotationSurgeless \<and> ro_ToGen ro = None else ro_ToGen ro = Some (ro_FromGen ro + 1)"
      using that by (auto simp: flight_ok_def Let_def)
    show ?thesis
    proof (cases "sr_surgeless x")
      case True
      have "\<not> produces ro g" if "g \<in> set ?gs" for g
        using gen_bounds(2) [OF assms(1) s that] ro Some True by (auto simp: produces_def surging_def)
      with True ro show ?thesis by auto
    next
      case False
      let ?g = "?gs ! nat (sr_genIdx x)"
      have g: "?g \<in> set ?gs" "produces ro ?g" "ro_ToGen ro = Some (g_Gen ?g)"
        using f False ro by (auto simp: flight_ok_def Let_def produces_def)
      then have "relays True ro ?g" using l Some that by (simp add: linked_def)
      with g show ?thesis by (auto simp: relays_def)
    qed
  qed
  from l numbered past final show ?thesis
    unfolding relayed_def assms(3,4) Let_def by (auto simp: linked_def)
qed

lemma run_relayed:
  assumes "Run loadLocation p f env opts = Some (Inr t)"
  shows "relayed f t"
  using assms
proof (cases rule: timeline_cases)
  case (Refused res)
  then have "tl_Generations t = []" "tl_Rotations t = []" by (metis noTimeline_def Timeline.simps)+
  then show ?thesis by (auto simp: relayed_def gens_of_def rots_of_def intro: exI [of _ "-1"])
next
  case (Simulated pol sched res env' r)
  let ?r = "new_run pol sched res env' opts f"
  obtain ex t' r' where r': "sim_loop ?r = sim_sweep (if ex then t' else op_End opts) r'" "relay_ok r'" "link_ok r'" "fixed ?r r'"
    using link_clock.all_rounds [of "opened ?r" opts ?r "InWindow sched (op_Start opts)"] opened_ok [of pol sched res env' opts f] Simulated(1)
    by (auto simp: sim_loop_opened new_run_fields)
  note sw = sweep_effect [OF r'(1) [symmetric, unfolded Simulated(9)]]
  have "relayed (rn_template r') t"
    using relayed_run [OF r'(2,3), of t] sw Simulated(10) by (simp add: sort_events_def)
  with r'(4) show ?thesis by (simp add: fixed_def new_run_fields)
qed

text \<open>
  C33. A timeline is a relay. In every slot the generations are numbered from 0 without a gap and so are
  the rotations, one between each two generations; each generation above 0 names its predecessor, was
  provisioned from the NodePool's template and not from the old node's overrides, and its deadline is
  its creation plus its expireAfter. Each rotation but the last names the generation it produced, which
  was born at the rotation's start (surge) or at its end (surge-less), became ready at the rotation's own
  instant and is not provisional. The last one may be in flight: then a surge has a provisional
  generation, and a surge-less rotation names none because none exists.
\<close>

theorem timeline_is_a_relay:
  "case Run loadLocation p f env opts of Some (Inr t) \<Rightarrow> relayed f t | _ \<Rightarrow> True"
  by (auto dest: run_relayed split: option.split sum.split)

end
