(* ===== verification/SimHistory.thy ===== *)
theory SimHistory
  imports SimTimeline
begin

text \<open>
  What the events and records of a timeline say of time: nothing lies beyond the last instant the
  simulation reached. The invariant \<open>base\<close> and the rounds under it are shared by the theories that follow.
\<close>

section \<open>A base for the invariants\<close>

definition base :: "SimRun \<Rightarrow> Options \<Rightarrow> SimRun \<Rightarrow> bool" where
  "base r0 opts r \<longleftrightarrow> relay_ok r \<and> windows_ok r \<and> link_ok r \<and> rn_opts r = opts \<and> fixed r0 r"

lemma base_opened: "base (new_run pol sched res env opts f) opts (opened (new_run pol sched res env opts f))"
  by (simp add: base_def opened_ok)

lemma base_exhaust: "base r0 opts r \<Longrightarrow> base r0 opts (exhaust t r)"
  using exhaust_keeps link_ok_core [of r "exhaust t r"] fixed_trans [of r0 r "exhaust t r"] fixed_core [of r "exhaust t r"]
  by (simp add: base_def)

lemma round_base:
  assumes "base r0 opts r"
  obtains r1 r2 r' where
    "windowEdge now inw r = Some (InWindow (rn_sched r) now, r1)" "same_core r r1" "base r0 opts r1"
    "sim_advance now r1 = Some r2" "base r0 opts r2" "base r0 opts (breachCheck now r2)"
    "if rn_rot r2 = None then maybeStart now (InWindow (rn_sched r) now) (breachCheck now r2) = Some r' else r' = breachCheck now r2"
    "sim_round now inw r = Some (InWindow (rn_sched r) now, r')" "base r0 opts r'"
proof -
  have b: "relay_ok r" "windows_ok r" "link_ok r" "rn_opts r = opts" "fixed r0 r" using assms by (simp_all add: base_def)
  from b(1,2) show ?thesis
  proof (cases rule: round_cases [where now = now and inw = inw])
    case (1 r1 r2 r')
    have w1: "windows_ok r1" using windowEdge_progress [OF b(2), of now inw] 1(1) by auto
    have k1: "link_ok r1" by (rule link_ok_core [OF 1(2) b(3)])
    note f1 = fixed_trans [OF b(5) fixed_core [OF 1(2)]] and f2 = fixed_trans [OF b(5) 1(6)] and f' = fixed_trans [OF b(5) 1(11)]
    have k2: "link_ok r2" by (rule advance_link [OF 1(3) k1 1(4)])
    have w2: "windows_ok r2" using windows_ok_same [OF advance_frame(2) [OF 1(3,4)] w1] .
    obtain s where s: "sim_round now inw r = Some (InWindow (rn_sched r) now, s)" "link_ok s"
      using round_link [OF b(1-3)] by blast
    have o: "rn_opts r1 = opts" "rn_opts r2 = opts" "rn_opts r' = opts"
      using b(4) 1(2,6,11) by (simp_all add: same_core_def fixed_def)
    have "rn_opts (breachCheck now r2) = opts" using o(2) by (simp add: breachCheck_eq)
    then have bb: "base r0 opts (breachCheck now r2)"
      using breachCheck_relay [OF 1(5)] breachCheck_windows [OF w2] link_ok_breachCheck [OF k2] fixed_trans [OF f2, of "breachCheck now r2"]
      by (simp add: base_def)
    show ?thesis
      using that [OF 1(1,2) _ 1(4) _ bb 1(7,8)] 1 w1 k1 w2 k2 s f1 f2 f' o by (simp add: base_def)
  qed
qed

lemma advance_base:
  assumes "base r0 opts r" "sim_advance now r = Some r'"
  shows "relay_ok r" "link_ok r"
  using assms by (simp_all add: base_def)

section \<open>Nothing lies beyond the horizon\<close>

text \<open>Absent instants are the zero time.\<close>

definition upto_time :: "time \<Rightarrow> time \<Rightarrow> bool" where
  "upto_time t x \<longleftrightarrow> x = 0 \<or> x \<le> t"

definition event_by :: "time \<Rightarrow> Event \<Rightarrow> bool" where
  "event_by t e \<longleftrightarrow> ev_At e \<le> t \<and> upto_time t (ev_Until e)"

definition rotation_by :: "time \<Rightarrow> RotationRecord \<Rightarrow> bool" where
  "rotation_by t ro \<longleftrightarrow> ro_Start ro \<le> t \<and> upto_time t (ro_Ready ro) \<and> upto_time t (ro_Done ro)"

definition window_by :: "time \<Rightarrow> WindowInterval \<Rightarrow> bool" where
  "window_by t w \<longleftrightarrow> wv_Start w \<le> t \<and> upto_time t (wv_End w)"

definition times_ok :: "time \<Rightarrow> SimRun \<Rightarrow> bool" where
  "times_ok t r \<longleftrightarrow>
     (\<forall>e\<in>set (tl_Events (rn_tl r)). event_by t e) \<and> (\<forall>ro\<in>set (tl_Rotations (rn_tl r)). rotation_by t ro)
     \<and> (\<forall>w\<in>set (tl_Windows (rn_tl r)). window_by t w)
     \<and> upto_time t (rn_blockFrom r) \<and> (rn_hasCensus r \<longrightarrow> rn_censusFrom r \<le> t)"

lemma by_mono:
  "t \<le> t' \<Longrightarrow> upto_time t x \<Longrightarrow> upto_time t' x" "t \<le> t' \<Longrightarrow> event_by t e \<Longrightarrow> event_by t' e"
  "t \<le> t' \<Longrightarrow> rotation_by t ro \<Longrightarrow> rotation_by t' ro" "t \<le> t' \<Longrightarrow> window_by t w \<Longrightarrow> window_by t' w"
  by (auto simp: upto_time_def event_by_def rotation_by_def window_by_def)

lemma times_mono: "t \<le> t' \<Longrightarrow> times_ok t r \<Longrightarrow> times_ok t' r"
  unfolding times_ok_def using by_mono by force

lemma upto_time_self [simp]: "upto_time t t" "upto_time t 0" "x \<le> t \<Longrightarrow> upto_time t x"
  by (simp_all add: upto_time_def)

lemma event_by_simps [simp]:
  "event_by t (event k x) \<longleftrightarrow> x \<le> t" "event_by t (e\<lparr>ev_Node := n\<rparr>) = event_by t e" "event_by t (e\<lparr>ev_Surgeless := b\<rparr>) = event_by t e"
  "event_by t (e\<lparr>ev_Replacement := n\<rparr>) = event_by t e" "event_by t (e\<lparr>ev_Gate := g\<rparr>) = event_by t e"
  "event_by t (e\<lparr>ev_Census := c\<rparr>) = event_by t e" "event_by t ((event k x)\<lparr>ev_Until := t\<rparr>) \<longleftrightarrow> x \<le> t"
  by (simp_all add: event_by_def event_def)

lemma times_emit: "times_ok t r \<Longrightarrow> event_by t e \<Longrightarrow> times_ok t (sim_emit e r)"
  by (simp add: times_ok_def sim_emit_def)

lemma times_flushBlocked: "times_ok t r \<Longrightarrow> times_ok t (flushBlocked t r)"
  using times_emit [of t r "(event KindBlockedByGate (rn_blockFrom r))\<lparr>ev_Until := t, ev_Gate := rn_blockGate r\<rparr>"]
  by (auto simp: flushBlocked_def times_ok_def upto_time_def IsZero_def sim_emit_def)

lemma times_flushCensus: "times_ok t r \<Longrightarrow> times_ok t (flushCensus t r)"
  using times_emit [of t r "(event KindNoEligibleClaim (rn_censusFrom r))\<lparr>ev_Until := t, ev_Census := Some (rn_census r)\<rparr>"]
  by (auto simp: flushCensus_def times_ok_def sim_emit_def)

lemma times_recordBlocked: "times_ok t r \<Longrightarrow> times_ok t (recordBlocked t g r)"
  using times_flushBlocked [of t r] by (auto simp: recordBlocked_def times_ok_def)

lemma times_recordCensus: "times_ok t r \<Longrightarrow> times_ok t (recordCensus t c r)"
  using times_flushCensus [of t r] by (auto simp: recordCensus_def times_ok_def)

lemma times_openWindow: "times_ok t r \<Longrightarrow> times_ok t (openWindow t r)"
  by (auto simp: openWindow_def times_ok_def window_by_def)

lemma times_closeWindow:
  assumes "times_ok t r" "closeWindow t c r = Some r'"
  shows "times_ok t r'"
proof (cases "rn_winOpen r")
  case True
  let ?ws = "tl_Windows (rn_tl r)"
  from True assms(2) obtain ws where ws: "put ?ws (int (length ?ws) - 1) (\<lambda>w. w\<lparr>wv_End := t, wv_EndClipped := c\<rparr>) = Some ws"
    "r' = r\<lparr>rn_tl := (rn_tl r)\<lparr>tl_Windows := ws\<rparr>, rn_winOpen := False\<rparr>"
    by (auto simp: closeWindow_def split: bind_splits)
  then have ne: "?ws \<noteq> []" by (auto simp: put_def split: if_splits)
  with ws(1) have "ws = butlast ?ws @ [(last ?ws)\<lparr>wv_End := t, wv_EndClipped := c\<rparr>]" using put_last [OF ne] by simp
  with assms(1) ws(2) ne show ?thesis by (auto simp: times_ok_def window_by_def dest: in_set_butlastD)
qed (use assms in \<open>simp add: closeWindow_def\<close>)

lemma times_diagOnce: "times_ok t (diagOnce d r) = times_ok t r"
  by (simp add: diagOnce_def times_ok_def)

lemma times_drainFor: "times_ok t (snd (drainFor n r)) = times_ok t r"
  by (simp add: drainFor_def times_diagOnce Let_def)

lemma times_breachCheck: "times_ok t r \<Longrightarrow> times_ok t (breachCheck t r)"
  by (auto simp: breachCheck_eq times_ok_def breach_event_def overdue_def)

lemma times_windowEdge:
  assumes "times_ok t r" "windowEdge t inw r = Some (w, r')"
  shows "times_ok t r'"
proof -
  have e: "times_ok t (sim_emit (event k t) r)" for k using times_emit [OF assms(1)] by simp
  then show ?thesis
    using assms times_openWindow [OF e] times_closeWindow [OF e]
    by (auto simp: windowEdge_def Let_def split: if_splits bind_splits)
qed

lemma times_readied:
  assumes "times_ok t r" "flight_ok r x" "sr_readyAt x \<le> t"
  shows "times_ok t (readied x r)"
proof -
  let ?ros = "tl_Rotations (rn_tl r)"
  have ne: "?ros \<noteq> []" using assms(2) by (simp add: flight_ok_def)
  have "tl_Rotations (rn_tl (readied x r)) = butlast ?ros @ [(last ?ros)\<lparr>ro_Ready := sr_readyAt x\<rparr>]"
    using rotIdx_range(3,4) [OF assms(2)] butlast_update [OF ne] by (simp add: readied_def)
  moreover have "rotation_by t ((last ?ros)\<lparr>ro_Ready := sr_readyAt x\<rparr>)"
    using assms(1,3) ne by (auto simp: times_ok_def rotation_by_def)
  ultimately show ?thesis
    using assms(1,3) by (auto simp: times_ok_def readied_def dest: in_set_butlastD)
qed

lemma times_finished:
  assumes "times_ok t r" "flight_ok r x" "sr_doneAt x \<le> t"
  shows "times_ok t (finished x r)"
proof -
  let ?ros = "tl_Rotations (rn_tl r)"
  have ne: "?ros \<noteq> []" using assms(2) by (simp add: flight_ok_def)
  then have "rotation_by t (last ?ros)" using assms(1) by (simp add: times_ok_def)
  then have "rotation_by t ((last ?ros)\<lparr>ro_Done := sr_doneAt x, ro_ToGen := g\<rparr>)" "rotation_by t ((last ?ros)\<lparr>ro_Done := sr_doneAt x\<rparr>)" for g
    using assms(3) by (simp_all add: rotation_by_def)
  then show ?thesis
    using assms(1,3) by (auto simp: times_ok_def finished_def Let_def dest: in_set_butlastD)
qed

lemma times_advance:
  assumes "times_ok now r" "relay_ok r" "sim_advance now r = Some r'"
  shows "times_ok now r'"
  using assms(2)
proof (cases rule: advance_cases [where now = now])
  case Idle
  with assms show ?thesis by simp
next
  case (Flying x s)
  have "flight_ok r x" using assms(2) Flying(1) by (simp add: relay_ok_def)
  with Flying assms times_readied [of now r x] show ?thesis by auto
next
  case (Done x s)
  have f: "flight_ok r x" "flight_ok s x" using assms(2) Done(1-3) by (simp_all add: relay_ok_def)
  have "times_ok now s" using Done(4) assms(1) times_readied [OF assms(1) f(1)] by auto
  from times_finished [OF this f(2) Done(5)] Done(6) assms(3) show ?thesis by simp
qed

lemma times_maybeStart:
  assumes "times_ok now r" "maybeStart now inw r = Some r'"
  shows "times_ok now r'"
proof -
  obtain go gate where g: "StartGate (sim_gates now inw r) = (go, gate)" by fastforce
  let ?f = "flushBlocked now r"
  note t = assms(1) times_flushBlocked [OF assms(1)] times_flushCensus [OF assms(1)]
  have vw: "views ?f = views r" using same_core_ops(4) [of r now] by (simp add: views_def same_core_def)
  consider "r' = r" | "r' = recordBlocked now gate (flushCensus now r)" | c where "r' = recordCensus now c ?f"
    | c where "c \<in> set (views ?f)" "beginRotationOf now c (sim_gates now inw r) (flushCensus now ?f) = Some r'"
    using assms(2) g pick_Some [of "views ?f" "selectionInputs ?f now (views ?f)"]
    by (fastforce simp: maybeStart_def Let_def split: if_splits option.splits)
  then show ?thesis
  proof cases
    case (4 c)
    let ?c = "flushCensus now ?f"
    have "c \<in> set (views ?c)" using 4(1) same_core_ops(6) [of ?f now] by (simp add: views_def same_core_def)
    then obtain slot where "r' = launched now slot (SurgelessFallback c (sim_gates now inw r)) (fst (drainFor (rn_nodes ?c ! nat slot) ?c))
        (snd (drainFor (rn_nodes ?c ! nat slot) ?c))"
      using beginRotationOf_eq [of c ?c now "sim_gates now inw r"] 4(2) by (auto simp: Let_def split_beta)
    moreover have "times_ok now (snd (drainFor n ?c))" for n
      using times_flushCensus [OF t(2)] by (simp add: times_drainFor)
    ultimately show ?thesis by (auto simp: launched_def times_ok_def rotation_by_def Let_def)
  qed (use t times_recordBlocked times_recordCensus in auto)
qed

interpretation times_clock: clock
  "\<lambda>t r. base r0 opts r \<and> op_Start opts - 1 \<le> t \<and> times_ok (max t (op_Start opts)) r" opts for r0 opts
proof unfold_locales
  fix t r now inw
  assume I: "base r0 opts r \<and> op_Start opts - 1 \<le> t \<and> times_ok (max t (op_Start opts)) r" and now: "t < now"
  from conjunct1 [OF I] obtain r1 r2 r' where r: "windowEdge now inw r = Some (InWindow (rn_sched r) now, r1)" "base r0 opts r1"
    "sim_advance now r1 = Some r2" "base r0 opts r2"
    "if rn_rot r2 = None then maybeStart now (InWindow (rn_sched r) now) (breachCheck now r2) = Some r' else r' = breachCheck now r2"
    "sim_round now inw r = Some (InWindow (rn_sched r) now, r')" "base r0 opts r'"
    by (rule round_base [where now = now and inw = inw]) blast
  have "times_ok now r" using I now times_mono [of "max t (op_Start opts)" now r] by simp
  then have "times_ok now r1" by (rule times_windowEdge [OF _ r(1)])
  then have "times_ok now r2" by (rule times_advance [OF _ _ r(3)]) (use r(2) in \<open>simp add: base_def\<close>)
  then have "times_ok now (breachCheck now r2)" by (rule times_breachCheck)
  with r(5) have "times_ok now r'" by (cases "rn_rot r2") (auto intro: times_maybeStart)
  moreover have "max now (op_Start opts) = now" using I now by simp
  ultimately show "\<exists>r'. sim_round now inw r = Some (InWindow (rn_sched r) now, r') \<and> base r0 opts r'
      \<and> op_Start opts - 1 \<le> now \<and> times_ok (max now (op_Start opts)) r'"
    using r(6,7) I now by auto
next
  fix t r assume "base r0 opts r \<and> op_Start opts - 1 \<le> t \<and> times_ok (max t (op_Start opts)) r"
  then show "base r0 opts (exhaust t r) \<and> op_Start opts - 1 \<le> t \<and> times_ok (max t (op_Start opts)) (exhaust t r)"
    using base_exhaust [of r0 opts r t] by (simp add: exhaust_def times_diagOnce) (simp add: times_ok_def)
qed (simp add: base_def)

lemma times_sweep:
  assumes "times_ok t r" "t \<le> through" "sim_sweep through r = Some r'"
  shows "times_ok through r'" "tl_SimulatedThrough (rn_tl r') = through" "tl_Partial (rn_tl r') = tl_Partial (rn_tl r)"
proof -
  let ?t = "r\<lparr>rn_tl := (rn_tl r)\<lparr>tl_SimulatedThrough := through\<rparr>\<rparr>"
  let ?f = "flushCensus through (flushBlocked through (breachCheck through ?t))"
  have "times_ok through ?t" using times_mono [OF assms(2,1)] by (simp add: times_ok_def)
  then have f: "times_ok through ?f" by (intro times_flushCensus times_flushBlocked times_breachCheck)
  have c: "closeWindow through True ?f = Some r'" using assms(3) by (simp add: sim_sweep_def)
  show "times_ok through r'" by (rule times_closeWindow [OF f c])
  have "tl_SimulatedThrough (rn_tl r') = tl_SimulatedThrough (rn_tl ?f) \<and> tl_Partial (rn_tl r') = tl_Partial (rn_tl ?f)"
    using c by (auto simp: closeWindow_def split: if_splits bind_splits)
  then show "tl_SimulatedThrough (rn_tl r') = through" "tl_Partial (rn_tl r') = tl_Partial (rn_tl r)"
    by (simp_all add: flushCensus_def flushBlocked_def breachCheck_eq sim_emit_def)
qed

lemma sim_rounds_partial:
  "sim_rounds budget lp now inw r = Some (True, t, r') \<Longrightarrow> tl_Partial (rn_tl r')"
proof (induction budget lp now inw r rule: sim_rounds.induct)
  case (1 budget lp now inw r)
  show ?case
  proof (cases "op_End (rn_opts r) < now")
    case True
    with "1.prems" show ?thesis by (subst (asm) sim_rounds.simps) simp
  next
    case False
    show ?thesis
    proof (cases budget)
      case 0
      with False "1.prems" show ?thesis by (subst (asm) sim_rounds.simps) (auto simp: exhaust_def diagOnce_def)
    next
      case (Suc b)
      with False "1.prems" obtain w s where s: "sim_round now inw r = Some (w, s)"
        "\<not> now < sim_next now s \<or> sim_rounds b now (sim_next now s) w s = Some (True, t, r')" "now < sim_next now s"
        by (subst (asm) sim_rounds.simps) (auto simp: Let_def split: bind_splits if_splits)
      with "1.IH" [OF False Suc s(1)] show ?thesis by auto
    qed
  qed
qed

lemma times_opened:
  assumes "rn_opts r = opts" "tl_Events (rn_tl r) = []" "tl_Rotations (rn_tl r) = []" "tl_Windows (rn_tl r) = []"
    "rn_blockFrom r = 0" "\<not> rn_hasCensus r"
  shows "times_ok (op_Start opts) (opened r)"
proof -
  have "times_ok (op_Start opts) (refuseFatal r)" "rn_opts (refuseFatal r) = opts"
    using assms by (auto simp: refuseFatal_def diagOnce_def times_ok_def split: option.split)
  then show ?thesis by (auto simp: opened_def Let_def intro!: times_openWindow times_emit)
qed

definition within_horizon :: "Options \<Rightarrow> Timeline \<Rightarrow> bool" where
  "within_horizon opts t \<longleftrightarrow>
     sorted (map ev_At (tl_Events t))
     \<and> (\<forall>e\<in>set (tl_Events t). event_by (tl_SimulatedThrough t) e)
     \<and> (\<forall>ro\<in>set (tl_Rotations t). rotation_by (tl_SimulatedThrough t) ro)
     \<and> (\<forall>w\<in>set (tl_Windows t). window_by (tl_SimulatedThrough t) w)
     \<and> (if tl_Partial t
        then op_Start opts \<le> tl_SimulatedThrough t \<and> tl_SimulatedThrough t \<le> op_End opts
             \<or> tl_Events t = [] \<and> tl_Generations t = [] \<and> tl_SimulatedThrough t = 0
        else tl_SimulatedThrough t = op_End opts)"

text \<open>
  C35. Nothing in a timeline lies beyond what was simulated. Every event, with the interval it covers,
  every start, readiness and end of a rotation, and both bounds of every window interval come no later
  than \<open>SimulatedThrough\<close>; that instant lies in the horizon, and is the horizon's end unless the
  timeline is marked partial. The events are sorted. A run that is refused has no timeline at all.
\<close>

theorem timeline_within_horizon:
  "case Run loadLocation p f env opts of Some (Inr t) \<Rightarrow> within_horizon opts t | _ \<Rightarrow> True"
proof -
  have "sorted (map ev_At (tl_Events t)) \<and> (\<forall>e\<in>set (tl_Events t). event_by (tl_SimulatedThrough t) e)
      \<and> (\<forall>ro\<in>set (tl_Rotations t). rotation_by (tl_SimulatedThrough t) ro)
      \<and> (\<forall>w\<in>set (tl_Windows t). window_by (tl_SimulatedThrough t) w)
      \<and> (if tl_Partial t then op_Start opts \<le> tl_SimulatedThrough t \<and> tl_SimulatedThrough t \<le> op_End opts
           \<or> tl_Events t = [] \<and> tl_Generations t = [] \<and> tl_SimulatedThrough t = 0
         else tl_SimulatedThrough t = op_End opts)" if "Run loadLocation p f env opts = Some (Inr t)" for t
    using that
  proof (cases rule: timeline_cases)
    case (Refused res)
    have "tl_Events t = []" "tl_Rotations t = []" "tl_Windows t = []" "tl_Generations t = []" "tl_SimulatedThrough t = 0" "tl_Partial t"
      by (subst Refused, simp add: noTimeline_def)+
    then show ?thesis by simp
  next
    case (Simulated pol sched res env' r)
    let ?r = "new_run pol sched res env' opts f"
    have o: "times_ok (op_Start opts) (opened ?r)" by (rule times_opened) (simp_all add: new_run_fields)
    then have "times_ok (max (op_Start opts - 1) (op_Start opts)) (opened ?r)" by (simp add: max_def)
    with times_clock.all_rounds [of ?r opts "opened ?r" "InWindow sched (op_Start opts)", OF _ less_imp_le [OF Simulated(1)]]
      base_opened [of pol sched res env' opts f]
    obtain ex t' r' where r': "sim_rounds maxSteps (op_Start opts) (op_Start opts) (InWindow sched (op_Start opts)) (opened ?r) = Some (ex, t', r')"
      "times_ok (max t' (op_Start opts)) r'" "op_Start opts \<le> t'" "t' \<le> op_End opts" "base ?r opts r'"
      by blast
    then have o': "rn_opts r' = opts" "times_ok t' r'" by (simp_all add: base_def max_def split: if_splits)
    define through where "through = (if ex then t' else op_End opts)"
    have sw: "sim_sweep through r' = Some r" using r'(1) o'(1) Simulated(9)
      by (cases ex) (simp_all add: sim_loop_opened new_run_fields through_def)
    have "t' \<le> through" using r'(4) by (simp add: through_def)
    note e = times_sweep [OF o'(2) this sw]
    have part: "tl_Partial (rn_tl r)" if ex using sim_rounds_partial r'(1) that e(3) by auto
    have t: "tl_Events t = sort_key ev_At (tl_Events (rn_tl r))" "tl_Rotations t = tl_Rotations (rn_tl r)" "tl_Windows t = tl_Windows (rn_tl r)"
      "tl_SimulatedThrough t = through" "tl_Partial t = tl_Partial (rn_tl r)"
      using Simulated(10) e(2) by (simp_all add: sort_events_def)
    have within: "op_Start opts \<le> through" "through \<le> op_End opts" "\<not> ex \<Longrightarrow> through = op_End opts"
      using r'(3,4) Simulated(1) by (auto simp: through_def)
    have all: "\<forall>e\<in>set (tl_Events (rn_tl r)). event_by through e" "\<forall>ro\<in>set (tl_Rotations (rn_tl r)). rotation_by through ro"
      "\<forall>w\<in>set (tl_Windows (rn_tl r)). window_by through w" using e(1) by (simp_all add: times_ok_def)
    show ?thesis
      unfolding t using all within part by (cases ex) (simp_all add: sorted_sort_key)
  qed
  then show ?thesis by (auto simp: within_horizon_def split: option.split sum.split)
qed

end
