(* ===== verification/SimDeadlines.thy ===== *)
theory SimDeadlines
  imports SimHistory SimExample
begin

text \<open>
  The deadlines in a timeline. The clock looks at a node at every mark of the minute grid and at the
  completions of the rotation in flight, so a deadline that passes is marked at the next instant it
  looks; what it cannot see is a deadline and the end of the rotation between the same two instants.
  A ledger of the marks is kept along the run: to every mark its generation, no generation twice, and
  no mark for one that kept its deadline.
\<close>

section \<open>Nodes and their generations\<close>

definition represents :: "SimRun \<Rightarrow> int \<Rightarrow> SimNode \<Rightarrow> Generation \<Rightarrow> bool" where
  "represents r i n g \<longleftrightarrow>
     g_Slot g = i \<and> g_Gen g = sn_gen n \<and> g_Name g = sim_name n \<and> g_CreatedAt g = sn_createdAt n
     \<and> g_Deadline g = sim_deadline n \<and> g_EligibilityBoundary g = eligibilityBoundary r n"

lemma boundary_cong:
  "rn_res r' = rn_res r \<Longrightarrow> sn_createdAt n' = sn_createdAt n \<Longrightarrow> sn_expireAfter n' = sn_expireAfter n \<Longrightarrow> sn_tgp n' = sn_tgp n \<Longrightarrow>
   eligibilityBoundary r' n' = eligibilityBoundary r n"
  by (simp add: eligibilityBoundary_def sim_deadline_def Let_def split: option.split)

lemma represents_cong:
  "rn_res r' = rn_res r \<Longrightarrow> sn_base n' = sn_base n \<Longrightarrow> sn_gen n' = sn_gen n \<Longrightarrow> sn_createdAt n' = sn_createdAt n \<Longrightarrow>
   sn_expireAfter n' = sn_expireAfter n \<Longrightarrow> sn_tgp n' = sn_tgp n \<Longrightarrow> represents r' i n' g = represents r i n g"
  using boundary_cong [of r' r n' n] by (simp add: represents_def sim_name_def sim_deadline_def)

lemma generation_represents: "represents r i n (generation_of r i n b p q)"
  by (simp add: represents_def generation_of_def)

lemma represents_update [simp]:
  "represents r i n (g\<lparr>g_ReadyAt := t\<rparr>) = represents r i n g" "represents r i n (g\<lparr>g_Provisional := b\<rparr>) = represents r i n g"
  by (simp_all add: represents_def)

lemma represents_state [simp]: "represents r i (n\<lparr>sn_state := s\<rparr>) g = represents r i n g"
  by (rule represents_cong) simp_all

lemma surge_replacement_state [simp]: "surge_replacement t now (n\<lparr>sn_state := s\<rparr>) = surge_replacement t now n"
  by (simp add: surge_replacement_def)

definition nodes_ok :: "SimRun \<Rightarrow> bool" where
  "nodes_ok r \<longleftrightarrow>
     (\<forall>i<length (rn_nodes r). \<exists>g\<in>set (tl_Generations (rn_tl r)). represents r (int i) (rn_nodes r ! i) g)
     \<and> (\<forall>x. rn_rot r = Some x \<and> \<not> sr_surgeless x \<longrightarrow>
          represents r (sr_slot x) (surge_replacement (rn_template r) (sr_start x) (rn_nodes r ! nat (sr_slot x)))
            (tl_Generations (rn_tl r) ! nat (sr_genIdx x)))"

lemma ex_update:
  assumes "\<exists>g\<in>set xs. P g" "\<And>g. P g \<Longrightarrow> P (f g)"
  shows "\<exists>g\<in>set (xs[k := f (xs ! k)]). P g"
proof -
  from assms(1) obtain j where j: "j < length xs" "P (xs ! j)" by (auto simp: in_set_conv_nth)
  then have "P (xs[k := f (xs ! k)] ! j)" using assms(2) by (cases "j = k") auto
  with j show ?thesis by (metis length_list_update nth_mem)
qed

lemma all_update:
  assumes "\<forall>g\<in>set xs. P g" "\<And>g. P g \<Longrightarrow> P (f g)"
  shows "\<forall>g\<in>set (xs[k := f (xs ! k)]). P g"
  using assms by (cases "k < length xs") (auto dest: set_update_subset_insert [THEN subsetD] simp: list_update_beyond not_less)

lemma nodes_ok_core: "same_core r r' \<Longrightarrow> nodes_ok r \<Longrightarrow> nodes_ok r'"
  using represents_cong [of r' r] by (simp add: same_core_def nodes_ok_def)

lemma flight_range: "relay_ok r \<Longrightarrow> rn_rot r = Some x \<Longrightarrow> nat (sr_slot x) < length (rn_nodes r) \<and> int (nat (sr_slot x)) = sr_slot x"
  by (auto simp: relay_ok_def flight_ok_def)

lemma nodes_ok_breachCheck:
  assumes "relay_ok r" "nodes_ok r"
  shows "nodes_ok (breachCheck now r)"
proof -
  have eq: "represents (breachCheck now r) i (marked now n) g = represents r i n g" for i n g
    by (rule represents_cong) (simp_all add: breachCheck_eq)
  have rep: "represents (breachCheck now r) i (surge_replacement t s (marked now n)) g = represents r i (surge_replacement t s n) g" for i n g t s
    by (rule represents_cong) (simp_all add: breachCheck_eq surge_replacement_def)
  have sel: "rn_nodes (breachCheck now r) = map (marked now) (rn_nodes r)" "rn_template (breachCheck now r) = rn_template r"
    "rn_rot (breachCheck now r) = rn_rot r" "tl_Generations (rn_tl (breachCheck now r)) = tl_Generations (rn_tl r)"
    by (simp_all add: breachCheck_eq)
  show ?thesis
    using assms flight_range [OF assms(1)] unfolding nodes_ok_def sel by (auto simp: eq rep)
qed

lemma nodes_ok_readied:
  assumes "relay_ok r" "nodes_ok r" "rn_rot r = Some x"
  shows "nodes_ok (readied x r)"
proof -
  let ?k = "nat (sr_slot x)" and ?gs = "tl_Generations (rn_tl r)"
  have k: "?k < length (rn_nodes r)" using flight_range [OF assms(1,3)] by simp
  have sel: "rn_nodes (readied x r) = (rn_nodes r)[?k := (rn_nodes r ! ?k)\<lparr>sn_state := StateDraining\<rparr>]"
    "rn_template (readied x r) = rn_template r" "rn_rot (readied x r) = rn_rot r"
    "tl_Generations (rn_tl (readied x r)) = ?gs[nat (sr_genIdx x) := (?gs ! nat (sr_genIdx x))\<lparr>g_ReadyAt := sr_readyAt x\<rparr>]"
    by (simp_all add: readied_def)
  have eq: "represents (readied x r) i n g = represents r i n g" for i n g
    by (rule represents_cong) (simp_all add: readied_def)
  show ?thesis
    unfolding nodes_ok_def
  proof (intro conjI allI impI)
    fix i assume i: "i < length (rn_nodes (readied x r))"
    then have "\<exists>g\<in>set ?gs. represents r (int i) (rn_nodes r ! i) g" using assms(2) by (simp add: nodes_ok_def sel)
    then have "\<exists>g\<in>set (tl_Generations (rn_tl (readied x r))). represents r (int i) (rn_nodes r ! i) g"
      unfolding sel by (rule ex_update) simp
    then show "\<exists>g\<in>set (tl_Generations (rn_tl (readied x r))). represents (readied x r) (int i) (rn_nodes (readied x r) ! i) g"
      using i k by (cases "i = ?k") (simp_all add: sel(1) eq)
  next
    fix y assume y: "rn_rot (readied x r) = Some y \<and> \<not> sr_surgeless y"
    then have [simp]: "y = x" "\<not> sr_surgeless x" using assms(3) by (auto simp: sel)
    have "nat (sr_genIdx x) < length ?gs" using assms(1,3) by (auto simp: relay_ok_def flight_ok_def)
    then show "represents (readied x r) (sr_slot y) (surge_replacement (rn_template (readied x r)) (sr_start y) (rn_nodes (readied x r) ! nat (sr_slot y)))
        (tl_Generations (rn_tl (readied x r)) ! nat (sr_genIdx y))"
      using assms(2,3) k by (simp add: nodes_ok_def sel eq)
  qed
qed

lemma nodes_ok_finished:
  assumes "relay_ok r" "nodes_ok r" "rn_rot r = Some x"
  shows "nodes_ok (finished x r)"
proof -
  let ?k = "nat (sr_slot x)" and ?gs = "tl_Generations (rn_tl r)" and ?n' = "replaced (rn_template r) x (rn_nodes r ! nat (sr_slot x))"
  have k: "?k < length (rn_nodes r)" "int ?k = sr_slot x" using flight_range [OF assms(1,3)] by simp_all
  have nodes: "rn_nodes (finished x r) = (rn_nodes r)[?k := ?n']" and rot: "rn_rot (finished x r) = None"
    by (simp_all add: finished_def Let_def)
  have eq: "represents (finished x r) i n g = represents r i n g" for i n g
    by (rule represents_cong) (simp_all add: finished_def Let_def)
  have new: "\<exists>g\<in>set (tl_Generations (rn_tl (finished x r))). represents r (sr_slot x) ?n' g"
  proof (cases "sr_surgeless x")
    case True
    then show ?thesis by (auto simp: finished_def Let_def generation_represents)
  next
    case False
    have g: "nat (sr_genIdx x) < length ?gs" using False assms(1,3) by (auto simp: relay_ok_def flight_ok_def)
    have "represents r (sr_slot x) ?n' (?gs ! nat (sr_genIdx x)) =
        represents r (sr_slot x) (surge_replacement (rn_template r) (sr_start x) (rn_nodes r ! ?k)) (?gs ! nat (sr_genIdx x))"
      by (rule represents_cong) (simp_all add: replaced_def surge_replacement_def False)
    then have "represents r (sr_slot x) ?n' ((?gs ! nat (sr_genIdx x))\<lparr>g_Provisional := False\<rparr>)"
      using assms(2,3) False by (simp add: nodes_ok_def)
    then have "\<exists>g\<in>set (?gs[nat (sr_genIdx x) := (?gs ! nat (sr_genIdx x))\<lparr>g_Provisional := False\<rparr>]). represents r (sr_slot x) ?n' g"
      by (rule bexI [OF _ set_update_memI [OF g]])
    with False show ?thesis by (simp add: finished_def Let_def)
  qed
  have old: "\<exists>g\<in>set (tl_Generations (rn_tl (finished x r))). represents r i n g" if "\<exists>g\<in>set ?gs. represents r i n g" for i n
    using that ex_update [OF that, of "\<lambda>g. g\<lparr>g_Provisional := False\<rparr>" "nat (sr_genIdx x)"]
    by (cases "sr_surgeless x") (auto simp: finished_def Let_def)
  show ?thesis
    unfolding nodes_ok_def nodes rot eq
    using assms(2) new old k by (auto simp: nodes_ok_def nth_list_update)
qed

lemma nodes_ok_launched:
  assumes "relay_ok r" "nodes_ok r" "rn_rot r = None" "0 \<le> slot" "slot < int (length (rn_nodes r))"
  shows "nodes_ok (launched now slot surgeless drain r)"
proof -
  let ?r = "launched now slot surgeless drain r" and ?k = "nat slot" and ?gs = "tl_Generations (rn_tl r)"
  have k: "?k < length (rn_nodes r)" using assms(4,5) by simp
  have sel: "rn_nodes ?r = (rn_nodes r)[?k := (rn_nodes r ! ?k)\<lparr>sn_state := if surgeless then StateDraining else StatePending\<rparr>]"
    "rn_template ?r = rn_template r" by (simp_all add: launched_def Let_def)
  have eq: "represents ?r i n g = represents r i n g" for i n g
    by (rule represents_cong) (simp_all add: launched_def Let_def)
  show ?thesis
    unfolding nodes_ok_def
  proof (intro conjI allI impI)
    fix i assume i: "i < length (rn_nodes ?r)"
    then have "\<exists>g\<in>set (tl_Generations (rn_tl ?r)). represents r (int i) (rn_nodes r ! i) g"
      using assms(2) by (auto simp: nodes_ok_def sel launched_def Let_def)
    then show "\<exists>g\<in>set (tl_Generations (rn_tl ?r)). represents ?r (int i) (rn_nodes ?r ! i) g"
      using i k by (cases "i = ?k") (simp_all add: sel(1) eq split del: if_split)
  next
    fix y assume "rn_rot ?r = Some y \<and> \<not> sr_surgeless y"
    then show "represents ?r (sr_slot y) (surge_replacement (rn_template ?r) (sr_start y) (rn_nodes ?r ! nat (sr_slot y)))
        (tl_Generations (rn_tl ?r) ! nat (sr_genIdx y))"
      using k unfolding eq sel by (auto simp: launched_def Let_def generation_represents)
  qed
qed

section \<open>Marks\<close>

definition breach_of :: "Generation \<Rightarrow> Event" where
  "breach_of g = (event KindExpireAfterBreach (g_Deadline g))\<lparr>ev_Node := g_Name g\<rparr>"

lemma breach_of_update [simp]: "breach_of (g\<lparr>g_ReadyAt := t\<rparr>) = breach_of g" "breach_of (g\<lparr>g_Provisional := b\<rparr>) = breach_of g"
  by (simp_all add: breach_of_def)

lemma breach_of_represents: "represents r i n g \<Longrightarrow> breach_of g = breach_event n"
  by (simp add: represents_def breach_of_def breach_event_def)

definition retires :: "RotationRecord \<Rightarrow> Generation \<Rightarrow> bool" where
  "retires ro g \<longleftrightarrow> g_Slot g = ro_Slot ro \<and> g_Gen g = ro_FromGen ro"

text \<open>The first mark of the grid at or after an instant.\<close>

definition next_mark :: "time \<Rightarrow> time" where
  "next_mark a = a + (- a) mod tick"

lemma next_mark_beyond:
  assumes "t < a"
  shows "t - t mod tick + tick \<le> next_mark a"
proof -
  have "(a + (- a) mod tick) mod tick = 0" by (simp add: mod_simps)
  then obtain k where k: "next_mark a = tick * k" unfolding next_mark_def by auto
  have "t < tick * k" using assms k pos_mod_sign [of tick "- a"] by (simp add: next_mark_def tick_def)
  moreover have t: "t = tick * (t div tick) + t mod tick" by simp
  ultimately have "tick * (t div tick) < tick * k" using pos_mod_sign [of tick t] by (simp add: tick_def)
  then have "t div tick + 1 \<le> k" by (simp add: tick_def)
  then have "tick * (t div tick) + tick \<le> tick * k" by (simp add: tick_def)
  then show ?thesis using t k by linarith
qed

text \<open>
  The ledger of the marks made so far, in the order they were made: each entry is the slot and the number
  of the generation that was marked, with the event. A breach event is in the timeline for each
  entry and for nothing else, no generation has two entries, and the flag of a node says whether its
  generation has one.
\<close>

type_synonym mark = "(int \<times> int) \<times> Event"

abbreviation is_breach :: "Event \<Rightarrow> bool" where
  "is_breach e \<equiv> ev_Kind e = KindExpireAfterBreach"

definition key :: "Generation \<Rightarrow> int \<times> int" where
  "key g = (g_Slot g, g_Gen g)"

lemma key_update [simp]: "key (g\<lparr>g_ReadyAt := t\<rparr>) = key g" "key (g\<lparr>g_Provisional := b\<rparr>) = key g"
  by (simp_all add: key_def)

definition retired_well :: "time \<Rightarrow> (int \<times> int) set \<Rightarrow> RotationRecord \<Rightarrow> Generation \<Rightarrow> bool" where
  "retired_well start ks ro g \<longleftrightarrow>
     (retires ro g \<longrightarrow>
        (next_mark (max (g_Deadline g) start) < ro_Done ro \<longrightarrow> key g \<in> ks)
        \<and> (key g \<in> ks \<longrightarrow> g_Deadline g \<le> max (ro_Start ro) (ro_Done ro)))"

lemma retired_well_update [simp]:
  "retired_well start ks ro (g\<lparr>g_ReadyAt := t\<rparr>) = retired_well start ks ro g"
  "retired_well start ks ro (g\<lparr>g_Provisional := b\<rparr>) = retired_well start ks ro g"
  by (simp_all add: retired_well_def retires_def)

definition marks_ok :: "time \<Rightarrow> mark list \<Rightarrow> SimRun \<Rightarrow> bool" where
  "marks_ok start ms r \<longleftrightarrow>
     filter is_breach (tl_Events (rn_tl r)) = map snd ms
     \<and> distinct (map fst ms)
     \<and> (\<forall>m\<in>set ms. \<exists>g\<in>set (tl_Generations (rn_tl r)). key g = fst m \<and> breach_of g = snd m)
     \<and> (\<forall>i<length (rn_nodes r). sn_breached (rn_nodes r ! i) \<longleftrightarrow> (int i, sn_gen (rn_nodes r ! i)) \<in> fst ` set ms)
     \<and> (\<forall>m\<in>set ms. 0 \<le> fst (fst m) \<and> fst (fst m) < int (length (rn_nodes r))
          \<and> snd (fst m) \<le> sn_gen (rn_nodes r ! nat (fst (fst m))))
     \<and> (\<forall>ro\<in>set (past_rotations (rn_rot r \<noteq> None) (tl_Rotations (rn_tl r))). \<forall>g\<in>set (tl_Generations (rn_tl r)).
          retired_well start (fst ` set ms) ro g)
     \<and> (\<forall>g\<in>set (tl_Generations (rn_tl r)). g_Gen g = 0 \<longrightarrow> \<not> g_Provisional g)"

lemma marks_okD:
  assumes "marks_ok start ms r"
  shows "filter is_breach (tl_Events (rn_tl r)) = map snd ms" "distinct (map fst ms)"
    "\<And>m. m \<in> set ms \<Longrightarrow> \<exists>g\<in>set (tl_Generations (rn_tl r)). key g = fst m \<and> breach_of g = snd m"
    "\<And>i. i < length (rn_nodes r) \<Longrightarrow> sn_breached (rn_nodes r ! i) \<longleftrightarrow> (int i, sn_gen (rn_nodes r ! i)) \<in> fst ` set ms"
    "\<And>m. m \<in> set ms \<Longrightarrow> 0 \<le> fst (fst m) \<and> fst (fst m) < int (length (rn_nodes r))
          \<and> snd (fst m) \<le> sn_gen (rn_nodes r ! nat (fst (fst m)))"
    "\<And>ro g. ro \<in> set (past_rotations (rn_rot r \<noteq> None) (tl_Rotations (rn_tl r))) \<Longrightarrow>
       g \<in> set (tl_Generations (rn_tl r)) \<Longrightarrow> retired_well start (fst ` set ms) ro g"
    "\<And>g. g \<in> set (tl_Generations (rn_tl r)) \<Longrightarrow> g_Gen g = 0 \<Longrightarrow> \<not> g_Provisional g"
  using assms unfolding marks_ok_def by blast+

text \<open>What the clock knows after it looked at \<open>t\<close>.\<close>

definition watched :: "time \<Rightarrow> time \<Rightarrow> mark list \<Rightarrow> SimRun \<Rightarrow> bool" where
  "watched start t ms r \<longleftrightarrow>
     (\<forall>n\<in>set (rn_nodes r). \<not> sn_breached n \<longrightarrow> t < sim_deadline n \<or> (t < start \<and> rn_rot r = None))
     \<and> (\<forall>m\<in>set ms. ev_At (snd m) \<le> t)
     \<and> (\<forall>x. rn_rot r = Some x \<longrightarrow> t \<le> max (sr_start x) (sr_doneAt x))"

text \<open>Steps that add events, but no breach, and leave the core alone.\<close>

definition quiet :: "SimRun \<Rightarrow> SimRun \<Rightarrow> bool" where
  "quiet r r' \<longleftrightarrow> same_core r r' \<and>
     (\<exists>es. tl_Events (rn_tl r') = tl_Events (rn_tl r) @ es \<and> (\<forall>e\<in>set es. ev_Kind e \<noteq> KindExpireAfterBreach))"

lemma quiet_refl [simp]: "quiet r r"
  by (simp add: quiet_def)

lemma quiet_trans: "quiet r s \<Longrightarrow> quiet s t \<Longrightarrow> quiet r t"
  unfolding quiet_def using same_core_trans by (force simp: ball_Un)

lemma kind_event [simp]: "ev_Kind (event k t) = k"
  by (simp add: event_def)

lemma quiet_emit: "ev_Kind e \<noteq> KindExpireAfterBreach \<Longrightarrow> quiet r (sim_emit e r)"
  using same_core_ops(1) [of r e] by (simp add: quiet_def sim_emit_def)

lemma quiet_same: "same_core r r' \<Longrightarrow> tl_Events (rn_tl r') = tl_Events (rn_tl r) \<Longrightarrow> quiet r r'"
  by (simp add: quiet_def)

lemma quiet_ops [simp]:
  "quiet r (diagOnce d r)" "quiet r (openWindow t r)" "quiet r (flushBlocked t r)" "quiet r (flushCensus t r)"
  "quiet r (recordBlocked t g r)" "quiet r (recordCensus t c r)" "quiet r (exhaust t r)" "quiet r (refuseFatal r)"
  "quiet r (snd (drainFor n r))"
proof -
  show d: "quiet r (diagOnce d r)" for d r
    using same_core_ops(2) [of r d] by (rule quiet_same) (simp add: diagOnce_def)
  show "quiet r (openWindow t r)" using same_core_ops(3) [of r t] by (rule quiet_same) (simp add: openWindow_def)
  show fb: "quiet r (flushBlocked t r)"
    using same_core_ops(4) [of r t] by (auto simp: quiet_def flushBlocked_def sim_emit_def)
  show fc: "quiet r (flushCensus t r)"
    using same_core_ops(6) [of r t] by (auto simp: quiet_def flushCensus_def sim_emit_def)
  show "quiet r (recordBlocked t g r)"
    using same_core_ops(5) [of r t g] fb by (auto simp: quiet_def recordBlocked_def)
  show "quiet r (recordCensus t c r)"
    using same_core_ops(7) [of r t c] fc by (auto simp: quiet_def recordCensus_def)
  show "quiet r (exhaust t r)"
    using same_core_ops(8) [of r t] by (rule quiet_same) (simp add: exhaust_def diagOnce_def)
  show "quiet r (refuseFatal r)"
    using same_core_ops(9) [of r] by (rule quiet_same) (simp add: refuseFatal_def diagOnce_def split: option.split)
  show "quiet r (snd (drainFor n r))" using d by (simp add: drainFor_def Let_def)
qed

lemma quiet_through [simp]: "quiet r (r\<lparr>rn_tl := (rn_tl r)\<lparr>tl_SimulatedThrough := t\<rparr>\<rparr>)"
  by (rule quiet_same) (simp_all add: same_core_def)

lemma quiet_closeWindow: "closeWindow t c r = Some r' \<Longrightarrow> quiet r r'"
  using same_core_closeWindow [of t c r r'] by (auto simp: quiet_def closeWindow_def split: if_splits bind_splits)

lemma quiet_windowEdge:
  assumes "windowEdge now inw r = Some (w, r')"
  shows "quiet r r'"
proof -
  have o: "quiet r (openWindow now (sim_emit (event KindWindowOpen now) r))"
    using quiet_trans [OF quiet_emit [of "event KindWindowOpen now" r]] by simp
  have c: "quiet r s" if "closeWindow now False (sim_emit (event KindWindowClose now) r) = Some s" for s
    using quiet_trans [OF quiet_emit [of "event KindWindowClose now" r] quiet_closeWindow [OF that]] by simp
  show ?thesis using assms o c by (auto simp: windowEdge_def Let_def split: if_splits bind_splits)
qed

lemma quiet_keeps:
  assumes "quiet r r'"
  shows "nodes_ok r \<Longrightarrow> nodes_ok r'" "marks_ok start ms r \<Longrightarrow> marks_ok start ms r'" "watched start t ms r \<Longrightarrow> watched start t ms r'"
proof -
  from assms obtain es where e: "tl_Events (rn_tl r') = tl_Events (rn_tl r) @ es" "\<forall>e\<in>set es. \<not> is_breach e"
    and c: "same_core r r'" by (auto simp: quiet_def)
  from e(2) have none: "filter is_breach es = []" by (simp add: filter_empty_conv)
  show "nodes_ok r \<Longrightarrow> nodes_ok r'" by (rule nodes_ok_core [OF c])
  show "marks_ok start ms r \<Longrightarrow> marks_ok start ms r'" using c none by (simp add: marks_ok_def same_core_def e(1))
  show "watched start t ms r \<Longrightarrow> watched start t ms r'" using c by (simp add: watched_def same_core_def)
qed

section \<open>Every step keeps the marks\<close>

lemma gens_same:
  assumes "relay_ok r" "slots_ok r" "g \<in> set (tl_Generations (rn_tl r))" "h \<in> set (tl_Generations (rn_tl r))"
    "g_Slot g = g_Slot h" "g_Gen g = g_Gen h"
  shows "g = h"
proof -
  from assms(3,4) obtain j k where "j < length (tl_Generations (rn_tl r))" "g = tl_Generations (rn_tl r) ! j"
    "k < length (tl_Generations (rn_tl r))" "h = tl_Generations (rn_tl r) ! k" by (auto simp: in_set_conv_nth)
  with gen_unique [OF assms(1,2), of j k] assms(5,6) show ?thesis by simp
qed

lemma breach_event_state [simp]: "breach_event (n\<lparr>sn_state := s\<rparr>) = breach_event n" "breach_event (marked now n) = breach_event n"
  by (simp_all add: breach_event_def sim_deadline_def sim_name_def marked_def)

text \<open>The marks of one look at the nodes.\<close>

definition new_marks :: "time \<Rightarrow> SimNode list \<Rightarrow> mark list" where
  "new_marks now ns =
     map (\<lambda>(i, n). ((int i, sn_gen n), breach_event n)) (filter (\<lambda>(i, n). overdue now n) (enumerate 0 ns))"

lemma new_marks_events: "map snd (new_marks now ns) = map breach_event (filter (overdue now) ns)"
proof -
  have "map snd (map (\<lambda>(i, n). ((int i, sn_gen n), breach_event n)) (filter (\<lambda>(i, n). overdue now n) (enumerate k ns)))
      = map breach_event (filter (overdue now) ns)" for k
    by (induction ns arbitrary: k) auto
  then show ?thesis by (simp add: new_marks_def)
qed

lemma new_marks_iff:
  "m \<in> set (new_marks now ns) \<longleftrightarrow>
     (\<exists>i<length ns. overdue now (ns ! i) \<and> m = ((int i, sn_gen (ns ! i)), breach_event (ns ! i)))"
  by (auto simp: new_marks_def in_set_enumerate_eq image_iff)

lemma new_marks_distinct: "distinct (map fst (new_marks now ns))"
proof -
  have "inj_on (\<lambda>(i, n). (int i, sn_gen n)) (set (enumerate 0 ns))"
    by (auto simp: inj_on_def in_set_enumerate_eq)
  then have "distinct (map (\<lambda>(i, n). (int i, sn_gen n)) (filter (\<lambda>(i, n). overdue now n) (enumerate 0 ns)))"
    by (auto simp: distinct_map intro: inj_on_subset)
  then show ?thesis by (simp add: new_marks_def comp_def split_beta')
qed

lemma new_marks_keys:
  "i < length ns \<Longrightarrow> (int i, sn_gen (ns ! i)) \<in> fst ` set (new_marks now ns) \<longleftrightarrow> overdue now (ns ! i)"
  by (force simp: new_marks_iff image_iff)

lemma event_at [simp]: "ev_At (breach_event n) = sim_deadline n" "ev_At (breach_of g) = g_Deadline g"
  by (simp_all add: breach_event_def breach_of_def event_def)

lemma is_breach_event [simp]: "is_breach (breach_event n)"
  by (simp add: breach_event_def)

lemma past_gen_below:
  assumes "relay_ok r" "slots_ok r" "ro \<in> set (past_rotations (rn_rot r \<noteq> None) (tl_Rotations (rn_tl r)))"
  shows "ro_FromGen ro < sn_gen (rn_nodes r ! nat (ro_Slot ro))"
proof (cases "flying r (ro_Slot ro)")
  case True
  then obtain x where x: "rn_rot r = Some x" "sr_slot x = ro_Slot ro" by (auto simp: flying_def)
  with assms(3) earlier_rotation [OF assms(1,2) x(1), of ro] show ?thesis by (auto simp: past_rotations_def)
next
  case False
  have "ro \<in> set (tl_Rotations (rn_tl r))" using assms(3) by (auto simp: past_rotations_def dest: in_set_butlastD split: if_splits)
  with rot_bounds(2) [OF assms(1,2)] False show ?thesis by force
qed

lemma marks_breachCheck:
  assumes "relay_ok r" "slots_ok r" "nodes_ok r" "marks_ok start ms r" "\<forall>m\<in>set ms. ev_At (snd m) \<le> now"
  shows "marks_ok start (ms @ new_marks now (rn_nodes r)) (breachCheck now r)"
    "\<forall>m\<in>set (ms @ new_marks now (rn_nodes r)). ev_At (snd m) \<le> now"
    "\<forall>x. rn_rot r = Some x \<longrightarrow> now \<le> max (sr_start x) (sr_doneAt x) \<Longrightarrow>
       watched start now (ms @ new_marks now (rn_nodes r)) (breachCheck now r)"
proof -
  let ?ns = "rn_nodes r" and ?gs = "tl_Generations (rn_tl r)" and ?new = "new_marks now (rn_nodes r)"
  note ok = marks_okD [OF assms(4)]
  have sel: "rn_nodes (breachCheck now r) = map (marked now) ?ns" "rn_rot (breachCheck now r) = rn_rot r"
    "tl_Generations (rn_tl (breachCheck now r)) = ?gs" "tl_Rotations (rn_tl (breachCheck now r)) = tl_Rotations (rn_tl r)"
    "tl_Events (rn_tl (breachCheck now r)) = tl_Events (rn_tl r) @ map breach_event (filter (overdue now) ?ns)"
    by (simp_all add: breachCheck_eq)
  have fresh: "(int i, sn_gen (?ns ! i)) \<notin> fst ` set ms" if "i < length ?ns" "overdue now (?ns ! i)" for i
    using ok(4) [OF that(1)] that(2) by (simp add: overdue_def)
  have unpast: "key g \<notin> fst ` set ?new"
    if "ro \<in> set (past_rotations (rn_rot r \<noteq> None) (tl_Rotations (rn_tl r)))" "retires ro g" for ro g
    using past_gen_below [OF assms(1,2) that(1)] that(2) by (auto simp: new_marks_iff retires_def key_def)
  have born: "\<exists>g\<in>set ?gs. key g = fst m \<and> breach_of g = snd m" if m: "m \<in> set ?new" for m
  proof -
    from m obtain i where i: "i < length ?ns" "m = ((int i, sn_gen (?ns ! i)), breach_event (?ns ! i))" by (auto simp: new_marks_iff)
    with assms(3) obtain g where "g \<in> set ?gs" "represents r (int i) (?ns ! i) g" by (auto simp: nodes_ok_def)
    with i(2) breach_of_represents show ?thesis by (intro bexI [of _ g]) (simp_all add: key_def represents_def)
  qed
  show "marks_ok start (ms @ ?new) (breachCheck now r)"
    unfolding marks_ok_def sel
  proof (intro conjI)
    have "filter is_breach (map breach_event xs) = map breach_event xs" for xs by (induction xs) simp_all
    then show "filter is_breach (tl_Events (rn_tl r) @ map breach_event (filter (overdue now) ?ns)) = map snd (ms @ ?new)"
      by (simp add: ok(1) new_marks_events)
    show "distinct (map fst (ms @ ?new))"
    proof -
      have "k \<notin> fst ` set ms" if k: "k \<in> fst ` set ?new" for k
      proof -
        from k obtain m where "m \<in> set ?new" "k = fst m" by (rule imageE)
        then obtain i where "i < length ?ns" "overdue now (?ns ! i)" "k = (int i, sn_gen (?ns ! i))" by (auto simp: new_marks_iff)
        with fresh [of i] show ?thesis by simp
      qed
      then show ?thesis using ok(2) new_marks_distinct by (auto simp del: distinct_map)
    qed
    show "\<forall>m\<in>set (ms @ ?new). \<exists>g\<in>set ?gs. key g = fst m \<and> breach_of g = snd m" using ok(3) born by auto
    show "\<forall>i<length (map (marked now) ?ns). sn_breached (map (marked now) ?ns ! i) \<longleftrightarrow>
        (int i, sn_gen (map (marked now) ?ns ! i)) \<in> fst ` set (ms @ ?new)"
      using ok(4) new_marks_keys [of _ ?ns now] by (auto simp: image_Un overdue_def)
    show "\<forall>m\<in>set (ms @ ?new). 0 \<le> fst (fst m) \<and> fst (fst m) < int (length (map (marked now) ?ns))
          \<and> snd (fst m) \<le> sn_gen (map (marked now) ?ns ! nat (fst (fst m)))"
    proof
      fix m assume "m \<in> set (ms @ ?new)"
      then have "0 \<le> fst (fst m) \<and> fst (fst m) < int (length ?ns) \<and> snd (fst m) \<le> sn_gen (?ns ! nat (fst (fst m)))"
        using ok(5) [of m] by (auto simp: new_marks_iff)
      then show "0 \<le> fst (fst m) \<and> fst (fst m) < int (length (map (marked now) ?ns))
          \<and> snd (fst m) \<le> sn_gen (map (marked now) ?ns ! nat (fst (fst m)))" by (simp add: nth_map nat_less_iff)
    qed
    show "\<forall>ro\<in>set (past_rotations (rn_rot r \<noteq> None) (tl_Rotations (rn_tl r))). \<forall>g\<in>set ?gs.
        retired_well start (fst ` set (ms @ ?new)) ro g"
      using ok(6) unpast unfolding retired_well_def set_append image_Un Un_iff by blast
  qed (use ok(7) in blast)
  show dated: "\<forall>m\<in>set (ms @ ?new). ev_At (snd m) \<le> now"
    using assms(5) by (auto simp: new_marks_iff overdue_def)
  show "\<forall>x. rn_rot r = Some x \<longrightarrow> now \<le> max (sr_start x) (sr_doneAt x) \<Longrightarrow> watched start now (ms @ ?new) (breachCheck now r)"
    using dated unfolding watched_def sel by auto
qed

lemma marks_readied:
  assumes "relay_ok r" "marks_ok start ms r" "rn_rot r = Some x"
  shows "marks_ok start ms (readied x r)" "watched start t ms r \<Longrightarrow> watched start t ms (readied x r)"
proof -
  let ?gs = "tl_Generations (rn_tl r)" and ?ros = "tl_Rotations (rn_tl r)" and ?k = "nat (sr_slot x)"
  note ok = marks_okD [OF assms(2)]
  have f: "flight_ok r x" using assms(1,3) by (simp add: relay_ok_def)
  then have ne: "?ros \<noteq> []" by (simp add: flight_ok_def)
  have sel: "rn_rot (readied x r) = rn_rot r"
    "tl_Generations (rn_tl (readied x r)) = ?gs[nat (sr_genIdx x) := (?gs ! nat (sr_genIdx x))\<lparr>g_ReadyAt := sr_readyAt x\<rparr>]"
    "butlast (tl_Rotations (rn_tl (readied x r))) = butlast ?ros"
    "tl_Events (rn_tl (readied x r)) = tl_Events (rn_tl r) @ [(event KindNodeReady (sr_readyAt x))\<lparr>ev_Node := sim_name (rn_nodes r ! nat (sr_slot x))\<rparr>]"
    "rn_nodes (readied x r) = (rn_nodes r)[?k := (rn_nodes r ! ?k)\<lparr>sn_state := StateDraining\<rparr>]"
    using rotIdx_range(3) [OF f] butlast_update [OF ne] by (simp_all add: readied_def)
  have past: "past_rotations (rn_rot (readied x r) \<noteq> None) (tl_Rotations (rn_tl (readied x r)))
      = past_rotations (rn_rot r \<noteq> None) ?ros"
    using assms(3) sel by (simp add: past_rotations_def)
  have node: "sn_gen (rn_nodes (readied x r) ! i) = sn_gen (rn_nodes r ! i)"
    "sn_breached (rn_nodes (readied x r) ! i) = sn_breached (rn_nodes r ! i)" for i
    unfolding sel by (cases "i = ?k"; cases "?k < length (rn_nodes r)"; simp add: list_update_beyond not_less)+
  have len: "length (rn_nodes (readied x r)) = length (rn_nodes r)" by (simp add: sel)
  show "marks_ok start ms (readied x r)"
    unfolding marks_ok_def past node len sel(2)
  proof (intro conjI ballI)
    show "filter is_breach (tl_Events (rn_tl (readied x r))) = map snd ms" by (simp add: sel(4) ok(1))
    show "\<exists>g\<in>set (?gs[nat (sr_genIdx x) := (?gs ! nat (sr_genIdx x))\<lparr>g_ReadyAt := sr_readyAt x\<rparr>]). key g = fst m \<and> breach_of g = snd m"
      if "m \<in> set ms" for m
      by (rule ex_update [OF ok(3) [OF that]]) simp
    fix ro assume ro: "ro \<in> set (past_rotations (rn_rot r \<noteq> None) ?ros)"
    have "\<forall>g\<in>set (?gs[nat (sr_genIdx x) := (?gs ! nat (sr_genIdx x))\<lparr>g_ReadyAt := sr_readyAt x\<rparr>]). retired_well start (fst ` set ms) ro g"
      by (rule all_update) (use ok(6) [OF ro] in simp_all)
    then show "retired_well start (fst ` set ms) ro g"
      if "g \<in> set (?gs[nat (sr_genIdx x) := (?gs ! nat (sr_genIdx x))\<lparr>g_ReadyAt := sr_readyAt x\<rparr>])" for g using that by blast
  next
    have "\<forall>g\<in>set (?gs[nat (sr_genIdx x) := (?gs ! nat (sr_genIdx x))\<lparr>g_ReadyAt := sr_readyAt x\<rparr>]). g_Gen g = 0 \<longrightarrow> \<not> g_Provisional g"
      by (rule all_update) (use ok(7) in auto)
    then show "g_Gen g = 0 \<longrightarrow> \<not> g_Provisional g"
      if "g \<in> set (?gs[nat (sr_genIdx x) := (?gs ! nat (sr_genIdx x))\<lparr>g_ReadyAt := sr_readyAt x\<rparr>])" for g using that by blast
  qed (use ok in blast)+
  have "\<forall>n\<in>set (rn_nodes (readied x r)). P n" if "\<forall>n\<in>set (rn_nodes r). P n" "\<And>n. P n \<Longrightarrow> P (n\<lparr>sn_state := StateDraining\<rparr>)" for P
    unfolding sel by (rule all_update [OF that])
  note nodes = this [of "\<lambda>n. \<not> sn_breached n \<longrightarrow> t < sim_deadline n \<or> t < start \<and> rn_rot r = None"]
  show "watched start t ms r \<Longrightarrow> watched start t ms (readied x r)"
    unfolding watched_def sel(1) using nodes by (auto simp: sim_deadline_def)
qed

lemma marked_deadline:
  assumes "relay_ok r" "slots_ok r" "marks_ok start ms r" "watched start t ms r" "g \<in> set (tl_Generations (rn_tl r))"
    "key g \<in> fst ` set ms"
  shows "g_Deadline g \<le> t"
proof -
  from assms(6) obtain m where m: "m \<in> set ms" "key g = fst m" by auto
  from marks_okD(3) [OF assms(3) m(1)] obtain h where h: "h \<in> set (tl_Generations (rn_tl r))" "key h = fst m" "breach_of h = snd m" by blast
  from m(2) h(2) have "key g = key h" by simp
  then have "g = h" by (intro gens_same [OF assms(1,2,5) h(1)]) (simp_all add: key_def)
  with h(3) m(1) assms(4) show ?thesis by (simp add: watched_def flip: event_at(2))
qed

lemma marks_finished:
  assumes "relay_ok r" "link_ok r" "nodes_ok r" "marks_ok start ms r" "watched start t ms r" "rn_rot r = Some x"
    "sr_doneAt x \<le> t - t mod tick + tick"
  shows "marks_ok start ms (finished x r)"
proof -
  let ?gs = "tl_Generations (rn_tl r)" and ?ros = "tl_Rotations (rn_tl r)" and ?k = "nat (sr_slot x)"
  let ?n = "rn_nodes r ! ?k" and ?gs' = "tl_Generations (rn_tl (finished x r))" and ?ks = "fst ` set ms"
  note ok = marks_okD [OF assms(4)]
  have f: "flight_ok r x" and s: "slots_ok r" using assms(1,2,6) by (simp_all add: relay_ok_def link_ok_def)
  have k: "?k < length (rn_nodes r)" "int ?k = sr_slot x" using flight_range [OF assms(1,6)] by simp_all
  define ro' where "ro' = last (tl_Rotations (rn_tl (finished x r)))"
  have ro: "tl_Rotations (rn_tl (finished x r)) = butlast ?ros @ [ro']" "ro_Slot ro' = sr_slot x" "ro_FromGen ro' = sn_gen ?n"
    "ro_Done ro' = sr_doneAt x" "ro_Start ro' = sr_start x"
    using f by (auto simp: ro'_def finished_def Let_def flight_ok_def)
  have rot: "rn_rot (finished x r) = None" by (simp add: finished_def Let_def)
  have nodes: "rn_nodes (finished x r) = (rn_nodes r)[?k := replaced (rn_template r) x ?n]" by (simp add: finished_def Let_def)
  have mem: "g \<in> set ?gs' \<Longrightarrow> (\<exists>h\<in>set ?gs. g = h \<or> g = h\<lparr>g_Provisional := False\<rparr>) \<or> g_Slot g = sr_slot x \<and> g_Gen g = sn_gen ?n + 1" for g
  proof (cases "sr_surgeless x")
    case True
    then show "g \<in> set ?gs' \<Longrightarrow> ?thesis" by (auto simp: finished_def Let_def generation_of_def replaced_def)
  next
    case False
    then have k: "nat (sr_genIdx x) < length ?gs" using f by (auto simp: flight_ok_def)
    assume "g \<in> set ?gs'"
    with False have "g \<in> set (?gs[nat (sr_genIdx x) := (?gs ! nat (sr_genIdx x))\<lparr>g_Provisional := False\<rparr>])"
      by (simp add: finished_def Let_def)
    from set_update [OF k this] k show ?thesis by (metis nth_mem)
  qed
  have gs: "\<exists>g\<in>set ?gs'. key g = fst m \<and> breach_of g = snd m" if "\<exists>g\<in>set ?gs. key g = fst m \<and> breach_of g = snd m" for m
    using that ex_update [OF that, of "\<lambda>g. g\<lparr>g_Provisional := False\<rparr>" "nat (sr_genIdx x)"]
    by (cases "sr_surgeless x") (auto simp: finished_def Let_def)
  have bound: "snd (fst m) \<le> sn_gen ?n" if "m \<in> set ms" "fst (fst m) = sr_slot x" for m
    using ok(5) [OF that(1)] that(2) by simp
  then have next_free: "(sr_slot x, sn_gen ?n + 1) \<notin> ?ks" by force
  obtain g0 where g0: "g0 \<in> set ?gs" "represents r (sr_slot x) ?n g0" using assms(3) k by (auto simp: nodes_ok_def)
  have mine: "(sr_slot x, sn_gen ?n) \<in> ?ks" if "next_mark (max (sim_deadline ?n) start) < sr_doneAt x"
  proof (cases "sn_breached ?n")
    case True
    with ok(4) [OF k(1)] k(2) show ?thesis by simp
  next
    case False
    with assms(5,6) k have "t < max (sim_deadline ?n) start" by (auto simp: watched_def less_max_iff_disj)
    with next_mark_beyond [of t "max (sim_deadline ?n) start"] assms(7) that show ?thesis by simp
  qed
  have last: "t \<le> max (sr_start x) (sr_doneAt x)" using assms(5,6) by (simp add: watched_def)
  show ?thesis
    unfolding marks_ok_def past_rotations_def rot ro(1)
  proof (intro conjI)
    show "filter is_breach (tl_Events (rn_tl (finished x r))) = map snd ms" using ok(1) by (simp add: finished_def Let_def)
    show "\<forall>i<length (rn_nodes (finished x r)). sn_breached (rn_nodes (finished x r) ! i) \<longleftrightarrow>
        (int i, sn_gen (rn_nodes (finished x r) ! i)) \<in> ?ks"
    proof (intro allI impI)
      fix i assume i: "i < length (rn_nodes (finished x r))"
      show "sn_breached (rn_nodes (finished x r) ! i) \<longleftrightarrow> (int i, sn_gen (rn_nodes (finished x r) ! i)) \<in> ?ks"
      proof (cases "i = ?k")
        case True
        with next_free k show ?thesis by (simp add: nodes replaced_def)
      next
        case False
        with ok(4) [of i] i show ?thesis by (simp add: nodes)
      qed
    qed
    show "\<forall>m\<in>set ms. 0 \<le> fst (fst m) \<and> fst (fst m) < int (length (rn_nodes (finished x r)))
        \<and> snd (fst m) \<le> sn_gen (rn_nodes (finished x r) ! nat (fst (fst m)))"
    proof
      fix m assume m: "m \<in> set ms"
      with ok(5) [OF m] k show "0 \<le> fst (fst m) \<and> fst (fst m) < int (length (rn_nodes (finished x r)))
        \<and> snd (fst m) \<le> sn_gen (rn_nodes (finished x r) ! nat (fst (fst m)))"
        by (cases "nat (fst (fst m)) = ?k") (auto simp: nodes replaced_def)
    qed
    show "\<forall>y\<in>set (if None \<noteq> (None :: SimRotation option) then butlast (butlast ?ros @ [ro']) else butlast ?ros @ [ro']).
        \<forall>g\<in>set ?gs'. retired_well start ?ks y g"
    proof (intro ballI)
      fix y g assume y: "y \<in> set (if None \<noteq> (None :: SimRotation option) then butlast (butlast ?ros @ [ro']) else butlast ?ros @ [ro'])"
        and g: "g \<in> set ?gs'"
      show "retired_well start ?ks y g"
      proof (cases "retires y g")
        case r: True
        have fromm: "ro_FromGen y \<le> sn_gen ?n" if "ro_Slot y = sr_slot x"
          using earlier_rotation [OF assms(1) s assms(6) _ that] y ro(3) by auto
        from mem [OF g] r fromm obtain h where h: "h \<in> set ?gs" "g = h \<or> g = h\<lparr>g_Provisional := False\<rparr>"
          by (auto simp: retires_def)
        then have eq: "retired_well start ?ks y g = retired_well start ?ks y h" "retires y h" using r by (auto simp: retires_def)
        show ?thesis
        proof (cases "y = ro'")
          case True
          with eq(2) ro g0 have "h = g0"
            by (intro gens_same [OF assms(1) s h(1)]) (auto simp: retires_def represents_def)
          with g0 have d: "key h = (sr_slot x, sn_gen ?n)" "g_Deadline h = sim_deadline ?n"
            by (simp_all add: represents_def key_def)
          from marked_deadline [OF assms(1) s assms(4,5) h(1)] last
          have "key h \<in> ?ks \<Longrightarrow> g_Deadline h \<le> max (sr_start x) (sr_doneAt x)" by (rule order_trans)
          with mine have "retired_well start ?ks ro' h" unfolding retired_well_def ro(4,5) d by blast
          with eq(1) True show ?thesis by blast
        next
          case False
          with y have "y \<in> set (butlast ?ros)" by simp
          with ok(6) [of y h] assms(6) h(1) show ?thesis unfolding eq(1) by (simp add: past_rotations_def)
        qed
      qed (simp add: retired_well_def)
    qed
    show "\<forall>g\<in>set ?gs'. g_Gen g = 0 \<longrightarrow> \<not> g_Provisional g"
    proof (intro ballI impI)
      fix g assume g: "g \<in> set ?gs'" "g_Gen g = 0"
      have "0 \<le> sn_gen ?n" using assms(1) k by (simp add: relay_ok_def)
      with mem [OF g(1)] g(2) obtain h where "h \<in> set ?gs" "g = h \<or> g = h\<lparr>g_Provisional := False\<rparr>" by auto
      with ok(7) [of h] g(2) show "\<not> g_Provisional g" by auto
    qed
  qed (use ok(2,3) gs in blast)+
qed

lemma marks_launched:
  assumes "relay_ok r" "link_ok r" "marks_ok start ms r" "watched start t ms r" "rn_rot r = None" "start \<le> t" "t = now"
    "0 \<le> slot" "slot < int (length (rn_nodes r))"
  shows "marks_ok start ms (launched now slot surgeless drain r)" "watched start t ms (launched now slot surgeless drain r)"
proof -
  let ?r = "launched now slot surgeless drain r" and ?gs = "tl_Generations (rn_tl r)" and ?ros = "tl_Rotations (rn_tl r)"
  note ok = marks_okD [OF assms(3)]
  have s: "slots_ok r" using assms(2) by (simp add: link_ok_def)
  have k: "nat slot < length (rn_nodes r)" using assms(8,9) by simp
  have sel: "rn_rot ?r \<noteq> None" "butlast (tl_Rotations (rn_tl ?r)) = ?ros"
    "rn_nodes ?r = (rn_nodes r)[nat slot := (rn_nodes r ! nat slot)\<lparr>sn_state := if surgeless then StateDraining else StatePending\<rparr>]"
    by (simp_all add: launched_def Let_def)
  have past: "past_rotations (rn_rot ?r \<noteq> None) (tl_Rotations (rn_tl ?r)) = past_rotations (rn_rot r \<noteq> None) ?ros"
    using sel(1,2) assms(5) by (simp add: past_rotations_def)
  have node: "sn_gen (rn_nodes ?r ! i) = sn_gen (rn_nodes r ! i)"
    "sn_breached (rn_nodes ?r ! i) = sn_breached (rn_nodes r ! i)" for i
    unfolding sel(3) by (cases "i = nat slot"; simp add: k)+
  have len: "length (rn_nodes ?r) = length (rn_nodes r)" by (simp add: sel)
  have "0 \<le> sn_gen (rn_nodes r ! nat slot)" using assms(1) k by (simp add: relay_ok_def)
  then have mem: "g \<in> set ?gs \<or> g_Slot g = slot \<and> g_Gen g = sn_gen (rn_nodes r ! nat slot) + 1 \<and> g_Gen g \<noteq> 0"
    if "g \<in> set (tl_Generations (rn_tl ?r))" for g
    using that by (auto simp: launched_def Let_def generation_of_def surge_replacement_def split: if_splits)
  have more: "set ?gs \<subseteq> set (tl_Generations (rn_tl ?r))" by (auto simp: launched_def Let_def)
  show "marks_ok start ms ?r"
    unfolding marks_ok_def past node len
  proof (intro conjI ballI)
    show "filter is_breach (tl_Events (rn_tl ?r)) = map snd ms" using ok(1) by (simp add: launched_def Let_def)
    show "\<exists>g\<in>set (tl_Generations (rn_tl ?r)). key g = fst m \<and> breach_of g = snd m" if "m \<in> set ms" for m
      using ok(3) [OF that] more by blast
    show "retired_well start (fst ` set ms) y g"
      if y: "y \<in> set (past_rotations (rn_rot r \<noteq> None) ?ros)" and g: "g \<in> set (tl_Generations (rn_tl ?r))" for y g
    proof (cases "retires y g")
      case True
      have "y \<in> set ?ros" using y assms(5) by (simp add: past_rotations_def)
      then have "g \<in> set ?gs" using mem [OF g] rot_bounds(2) [OF assms(1) s] True assms(5) by (fastforce simp: retires_def flying_def)
      with ok(6) [OF y] show ?thesis .
    qed (simp add: retired_well_def)
    show "g_Gen g = 0 \<longrightarrow> \<not> g_Provisional g" if "g \<in> set (tl_Generations (rn_tl ?r))" for g
      using mem [OF that] ok(7) by blast
  qed (use ok in blast)+
  have "\<forall>n\<in>set (rn_nodes ?r). \<not> sn_breached n \<longrightarrow> t < sim_deadline n"
    unfolding sel(3) by (rule all_update) (use assms(4,6) in \<open>auto simp: watched_def sim_deadline_def\<close>)
  then show "watched start t ms ?r" using assms(4,7) by (simp add: watched_def launched_def Let_def)
qed

lemma maybeStart_quiet:
  assumes "maybeStart now inw r = Some r'"
  obtains (Quiet) "quiet r r'"
  | (Launch) slot surgeless drain s where "quiet r s" "0 \<le> slot" "slot < int (length (rn_nodes r))" "r' = launched now slot surgeless drain s"
proof -
  obtain go gate where g: "StartGate (sim_gates now inw r) = (go, gate)" by fastforce
  let ?f = "flushBlocked now r"
  let ?c = "flushCensus now ?f"
  have q: "quiet r ?c" using quiet_trans [of r ?f ?c] by simp
  consider "r' = r" | "r' = recordBlocked now gate (flushCensus now r)" | c where "r' = recordCensus now c ?f"
    | c where "c \<in> set (views ?f)" "beginRotationOf now c (sim_gates now inw r) ?c = Some r'"
    using assms g pick_Some [of "views ?f" "selectionInputs ?f now (views ?f)"]
    by (fastforce simp: maybeStart_def Let_def split: if_splits option.splits)
  then show ?thesis
  proof cases
    case 1
    with that(1) show ?thesis by simp
  next
    case 2
    with that(1) quiet_trans [of r "flushCensus now r"] show ?thesis by simp
  next
    case 3
    with that(1) quiet_trans [of r ?f] show ?thesis by simp
  next
    case (4 c)
    have c: "c \<in> set (views ?c)" using 4(1) same_core_ops(6) [of ?f now] by (simp add: views_def same_core_def)
    have len: "length (rn_nodes ?c) = length (rn_nodes r)" using q by (simp add: quiet_def same_core_def)
    let ?d = "drainFor (rn_nodes ?c ! nat (slotOf ?c (c_Name c))) ?c"
    have "r' = launched now (slotOf ?c (c_Name c)) (SurgelessFallback c (sim_gates now inw r)) (fst ?d) (snd ?d)"
      using beginRotationOf_eq [OF c, of now "sim_gates now inw r"] 4(2) by (auto simp: Let_def split_beta)
    with that(2) [of "snd ?d"] quiet_trans [OF q, of "snd ?d"] slotOf_found [OF c] len show ?thesis by simp
  qed
qed

lemma round_marks:
  assumes "base r0 opts r" "nodes_ok r" "marks_ok start ms r" "watched start t ms r" "t < now" "now \<le> t - t mod tick + tick" "start \<le> now"
  shows "\<exists>r' ms'. sim_round now inw r = Some (InWindow (rn_sched r) now, r') \<and> base r0 opts r' \<and> nodes_ok r' \<and> marks_ok start ms' r'
     \<and> watched start now ms' r'"
  using assms(1)
proof (cases rule: round_base [where now = now and inw = inw])
  case (1 r1 r2 r')
  note q = quiet_keeps [OF quiet_windowEdge [OF 1(1)]]
  have r1: "nodes_ok r1" "marks_ok start ms r1" "watched start t ms r1" using q assms(2-4) by simp_all
  have b1: "relay_ok r1" "link_ok r1" and b2: "relay_ok r2" "slots_ok r2" and b3: "relay_ok (breachCheck now r2)" "link_ok (breachCheck now r2)"
    using 1(3,5,6) by (simp_all add: base_def link_ok_def)
  have r2: "nodes_ok r2 \<and> marks_ok start ms r2 \<and> (\<forall>x. rn_rot r2 = Some x \<longrightarrow> now < sr_doneAt x)"
    using b1(1)
  proof (cases rule: advance_cases [where now = now])
    case Idle
    with 1(4) r1 show ?thesis by simp
  next
    case (Flying x s)
    with 1(4) r1 nodes_ok_readied [OF b1(1) r1(1) Flying(1)] marks_readied(1) [OF b1(1) r1(2) Flying(1)] show ?thesis by auto
  next
    case (Done x s)
    have "link_ok s \<and> nodes_ok s \<and> marks_ok start ms s \<and> watched start t ms s"
      using Done(4) b1(2) r1 readied_link [OF b1 Done(1)] nodes_ok_readied [OF b1(1) r1(1) Done(1)]
        marks_readied(1) [OF b1(1) r1(2) Done(1)] marks_readied(2) [OF b1(1) r1(2) Done(1) r1(3)] by auto
    moreover have "rn_rot (finished x s) = None" by (simp add: finished_def Let_def)
    ultimately show ?thesis
      using nodes_ok_finished [OF Done(3) _ Done(2)] marks_finished [OF Done(3) _ _ _ _ Done(2), of start ms t] Done(5,6) 1(4) assms(6)
      by simp
  qed
  let ?b = "breachCheck now r2" and ?ms = "ms @ new_marks now (rn_nodes r2)"
  have dated: "\<forall>m\<in>set ms. ev_At (snd m) \<le> now" using assms(4,5) by (auto simp: watched_def)
  have n3: "nodes_ok ?b" using nodes_ok_breachCheck [OF b2(1)] r2 by simp
  have m3: "marks_ok start ?ms ?b" "watched start now ?ms ?b"
    using marks_breachCheck [OF b2 _ _ dated, of start] r2 by (auto simp: le_max_iff_disj less_imp_le)
  have "nodes_ok r' \<and> marks_ok start ?ms r' \<and> watched start now ?ms r'"
  proof (cases "rn_rot r2")
    case (Some x)
    with 1(7) n3 m3 show ?thesis by simp
  next
    case None
    then have rot: "rn_rot ?b = None" and m: "maybeStart now (InWindow (rn_sched r) now) ?b = Some r'"
      using 1(7) by (simp_all add: breachCheck_eq)
    from m show ?thesis
    proof (cases rule: maybeStart_quiet)
      case Quiet
      with quiet_keeps [OF Quiet] n3 m3 show ?thesis by simp
    next
      case s: (Launch slot surgeless drain s)
      have core: "relay_ok s" "link_ok s" "rn_rot s = None" "rn_nodes s = rn_nodes ?b"
        using s(1) b3 rot relay_ok_core [of ?b s] link_ok_core [of ?b s] by (simp_all add: quiet_def same_core_def)
      with s quiet_keeps [OF s(1)] n3 m3 assms(7) nodes_ok_launched [of s slot now] marks_launched [of s start ?ms now now slot]
      show ?thesis by simp
    qed
  qed
  with 1(8,9) show ?thesis by blast
qed

interpretation marks_clock: clock
  "\<lambda>t r. base r0 opts r \<and> nodes_ok r \<and> op_Start opts - 1 \<le> t
     \<and> (\<exists>ms. marks_ok (op_Start opts) ms r \<and> watched (op_Start opts) t ms r)"
  opts for r0 opts
proof unfold_locales
  fix t r now inw
  assume I: "base r0 opts r \<and> nodes_ok r \<and> op_Start opts - 1 \<le> t
      \<and> (\<exists>ms. marks_ok (op_Start opts) ms r \<and> watched (op_Start opts) t ms r)"
    and now: "t < now" "now \<le> t - t mod tick + tick"
  then obtain ms where "marks_ok (op_Start opts) ms r" "watched (op_Start opts) t ms r" by blast
  from round_marks [OF _ _ this now, of r0 opts inw] I now
  show "\<exists>r'. sim_round now inw r = Some (InWindow (rn_sched r) now, r')
      \<and> base r0 opts r' \<and> nodes_ok r' \<and> op_Start opts - 1 \<le> now
      \<and> (\<exists>ms. marks_ok (op_Start opts) ms r' \<and> watched (op_Start opts) now ms r')"
    by auto
next
  fix t r
  assume "base r0 opts r \<and> nodes_ok r \<and> op_Start opts - 1 \<le> t
      \<and> (\<exists>ms. marks_ok (op_Start opts) ms r \<and> watched (op_Start opts) t ms r)"
  with quiet_keeps [of r "exhaust t r"] base_exhaust [of r0 opts r t]
  show "base r0 opts (exhaust t r) \<and> nodes_ok (exhaust t r) \<and> op_Start opts - 1 \<le> t
      \<and> (\<exists>ms. marks_ok (op_Start opts) ms (exhaust t r) \<and> watched (op_Start opts) t ms (exhaust t r))" by fastforce
qed (simp add: base_def)

section \<open>The finished run\<close>

lemma initial_nodes_ok: "nodes_ok (new_run pol sched res env opts f)"
proof -
  let ?r = "new_run pol sched res env opts f"
  have "\<exists>g\<in>set (initial_gens ?r i ns). represents ?r (i + int k) (ns ! k) g" if "k < length ns" for i k ns
    using that
  proof (induction ns arbitrary: i k)
    case (Cons n ns)
    show ?case
    proof (cases k)
      case 0
      then show ?thesis by (simp add: generation_represents)
    next
      case (Suc j)
      then have j: "i + int k = (i + 1) + int j" "j < length ns" "(n # ns) ! k = ns ! j" using Cons.prems by simp_all
      from Cons.IH [OF j(2), of "i + 1"] show ?thesis unfolding j(1,3) by auto
    qed
  qed simp
  from this [of _ "map (init_node f) (fl_Nodes f)" 0] show ?thesis
    by (auto simp: nodes_ok_def new_run_fields new_run_generations)
qed

lemma initial_unprovisional: "\<forall>g\<in>set (initial_gens r i ns). \<not> g_Provisional g"
  by (induction ns arbitrary: i) (auto simp: generation_of_def)

lemma initial_marks:
  "nodes_ok (opened (new_run pol sched res env opts f))" "marks_ok (op_Start opts) [] (opened (new_run pol sched res env opts f))"
  "watched (op_Start opts) (op_Start opts - 1) [] (opened (new_run pol sched res env opts f))"
proof -
  let ?r = "new_run pol sched res env opts f"
  have "quiet ?r (opened ?r)"
    using quiet_trans [of ?r "refuseFatal ?r"] quiet_trans [OF quiet_emit, of "event KindWindowOpen t" "refuseFatal ?r" "openWindow t (sim_emit (event KindWindowOpen t) (refuseFatal ?r))" for t]
    by (simp add: opened_def Let_def)
  moreover have "marks_ok (op_Start opts) [] ?r" using initial_unprovisional
    by (auto simp: marks_ok_def past_rotations_def new_run_fields init_node_def new_run_generations)
  moreover have "watched (op_Start opts) (op_Start opts - 1) [] ?r" by (simp add: watched_def new_run_fields)
  ultimately show "nodes_ok (opened ?r)" "marks_ok (op_Start opts) [] (opened ?r)" "watched (op_Start opts) (op_Start opts - 1) [] (opened ?r)"
    using quiet_keeps [of ?r "opened ?r"] initial_nodes_ok by simp_all
qed

text \<open>
  A generation that is in service: it is not provisional, and neither is there a successor that is not.
  A generation is retired by the rotation from it once that rotation's replacement is in service.
\<close>

definition in_service :: "Generation list \<Rightarrow> Generation \<Rightarrow> bool" where
  "in_service gs g \<longleftrightarrow>
     \<not> g_Provisional g \<and> \<not> (\<exists>h\<in>set gs. g_Slot h = g_Slot g \<and> g_Gen h = g_Gen g + 1 \<and> \<not> g_Provisional h)"

definition deadlines_marked :: "time \<Rightarrow> Timeline \<Rightarrow> bool" where
  "deadlines_marked start t \<longleftrightarrow>
     (\<exists>who. mset (filter is_breach (tl_Events t)) = mset (map breach_of who)
        \<and> distinct (map key who) \<and> set who \<subseteq> set (tl_Generations t)
        \<and> (\<forall>g\<in>set who. \<not> g_Provisional g \<and> g_Deadline g \<le> tl_SimulatedThrough t)
        \<and> (\<forall>g\<in>set (tl_Generations t). in_service (tl_Generations t) g \<longrightarrow>
             (g \<in> set who \<longleftrightarrow> g_Deadline g \<le> tl_SimulatedThrough t))
        \<and> (\<forall>ro\<in>set (tl_Rotations t). \<forall>g\<in>set (tl_Generations t).
             retires ro g \<and> (\<exists>h\<in>set (tl_Generations t). produces ro h \<and> \<not> g_Provisional h) \<longrightarrow>
             (next_mark (max (g_Deadline g) start) < ro_Done ro \<longrightarrow> g \<in> set who)
             \<and> (g \<in> set who \<longrightarrow> g_Deadline g \<le> max (ro_Start ro) (ro_Done ro))))"

text \<open>What a node's generation, or an earlier one of its slot, was produced by is over.\<close>

lemma past_unprovisional:
  assumes "relay_ok r" "link_ok r" "marks_ok start ms r" "g \<in> set (tl_Generations (rn_tl r))"
    "g_Gen g \<le> sn_gen (rn_nodes r ! nat (g_Slot g))"
  shows "\<not> g_Provisional g"
proof (cases "g_Gen g = 0")
  case True
  with marks_okD(7) [OF assms(3,4)] show ?thesis by simp
next
  case False
  let ?gs = "tl_Generations (rn_tl r)" and ?i = "g_Slot g" and ?n = "rn_nodes r ! nat (g_Slot g)"
  have s: "slots_ok r" and l: "linked (rn_template r) (rn_rot r \<noteq> None) ?gs (tl_Rotations (rn_tl r))"
    using assms(2) by (simp_all add: link_ok_def)
  have i: "0 \<le> ?i" "?i < int (length (rn_nodes r))" using s assms(4) by (auto simp: slots_ok_def)
  have "g_Gen g - 1 \<in> set (rots_of (tl_Rotations (rn_tl r)) ?i)"
    using slot_gens(2) [OF assms(1) i] gen_bounds(1) [OF assms(1) s assms(4)] assms(5) False by auto
  then obtain ro where ro: "ro \<in> set (tl_Rotations (rn_tl r))" "ro_Slot ro = ?i" "ro_FromGen ro = g_Gen g - 1"
    by (auto simp: rots_of_def)
  have "ro \<in> set (past_rotations (rn_rot r \<noteq> None) (tl_Rotations (rn_tl r)))"
  proof (cases "rn_rot r")
    case (Some x)
    then have f: "flight_ok r x" using assms(1) by (simp add: relay_ok_def)
    then have "ro \<noteq> last (tl_Rotations (rn_tl r))" using ro assms(5) by (auto simp: flight_ok_def Let_def)
    with ro(1) Some show ?thesis
      by (metis append_butlast_last_id empty_iff empty_set in_set_conv_decomp_last option.distinct(1) past_rotations_def rotate1.simps(2) set_ConsD set_rotate1)
  qed (use ro in \<open>simp add: past_rotations_def\<close>)
  with l assms(4) ro have "relays False ro g" by (auto simp: linked_def produces_def)
  then show ?thesis by (simp add: relays_def)
qed

lemma in_service_current:
  assumes "relay_ok r" "link_ok r" "g \<in> set (tl_Generations (rn_tl r))" "in_service (tl_Generations (rn_tl r)) g"
  shows "g_Gen g = sn_gen (rn_nodes r ! nat (g_Slot g))"
proof -
  let ?gs = "tl_Generations (rn_tl r)" and ?i = "g_Slot g" and ?n = "rn_nodes r ! nat (g_Slot g)"
  have s: "slots_ok r" and l: "linked (rn_template r) (rn_rot r \<noteq> None) ?gs (tl_Rotations (rn_tl r))"
    using assms(2) by (simp_all add: link_ok_def)
  have i: "0 \<le> ?i" "?i < int (length (rn_nodes r))" using s assms(3) by (auto simp: slots_ok_def)
  note gb = gen_bounds [OF assms(1) s assms(3)]
  have "\<not> g_Gen g < sn_gen ?n"
  proof
    assume lt: "g_Gen g < sn_gen ?n"
    then have "g_Gen g + 1 \<in> set (gens_of ?gs ?i)" using slot_gens(1) [OF assms(1) i] gb(1) by auto
    then obtain h where h: "h \<in> set ?gs" "g_Slot h = ?i" "g_Gen h = g_Gen g + 1" by (auto simp: gens_of_def)
    have "g_Gen g \<in> set (rots_of (tl_Rotations (rn_tl r)) ?i)" using slot_gens(2) [OF assms(1) i] gb(1) lt by auto
    then obtain ro where ro: "ro \<in> set (tl_Rotations (rn_tl r))" "ro_Slot ro = ?i" "ro_FromGen ro = g_Gen g"
      by (auto simp: rots_of_def)
    have "ro \<in> set (past_rotations (rn_rot r \<noteq> None) (tl_Rotations (rn_tl r)))"
    proof (cases "rn_rot r")
      case (Some x)
      then have f: "flight_ok r x" using assms(1) by (simp add: relay_ok_def)
      then have "ro \<noteq> last (tl_Rotations (rn_tl r))" using ro lt by (auto simp: flight_ok_def Let_def)
      with ro(1) Some show ?thesis
        by (metis append_butlast_last_id empty_iff empty_set in_set_conv_decomp_last option.distinct(1) past_rotations_def rotate1.simps(2) set_ConsD set_rotate1)
    qed (use ro in \<open>simp add: past_rotations_def\<close>)
    with l h ro have "relays False ro h" by (auto simp: linked_def produces_def)
    then have "\<not> g_Provisional h" by (simp add: relays_def)
    with assms(4) h show False by (auto simp: in_service_def)
  qed
  moreover have "g_Gen g \<noteq> sn_gen ?n + 1" if "surging r ?i"
  proof
    assume eq: "g_Gen g = sn_gen ?n + 1"
    from that obtain x where x: "rn_rot r = Some x" "sr_slot x = ?i" by (auto simp: surging_def)
    then have "produces (last (tl_Rotations (rn_tl r))) g"
      using assms(1) eq by (auto simp: relay_ok_def flight_ok_def Let_def produces_def)
    with l x assms(3,4) show False by (auto simp: linked_def relays_def in_service_def)
  qed
  ultimately show ?thesis using gb(2) by (auto split: if_splits)
qed

lemma swept_through: "sim_sweep through r = Some r' \<Longrightarrow> tl_SimulatedThrough (rn_tl r') = through"
  by (auto simp: sim_sweep_def closeWindow_def flushCensus_def flushBlocked_def breachCheck_eq sim_emit_def split: if_splits bind_splits)

lemma past_of_settled:
  assumes "link_ok r" "ro \<in> set (tl_Rotations (rn_tl r))" "\<exists>h\<in>set (tl_Generations (rn_tl r)). produces ro h \<and> \<not> g_Provisional h"
  shows "ro \<in> set (past_rotations (rn_rot r \<noteq> None) (tl_Rotations (rn_tl r)))"
proof (cases "rn_rot r = None")
  case True
  with assms(2) show ?thesis by (simp add: past_rotations_def)
next
  case False
  with assms(1,3) have "ro \<noteq> last (tl_Rotations (rn_tl r))" by (auto simp: link_ok_def linked_def relays_def)
  moreover have "tl_Rotations (rn_tl r) = butlast (tl_Rotations (rn_tl r)) @ [last (tl_Rotations (rn_tl r))]"
    using assms(2) by (metis append_butlast_last_id list.distinct(1) list.set_cases)
  ultimately show ?thesis using False assms(2) by (metis past_rotations_def UnE list.set(1,2) empty_iff insert_iff set_append)
qed

lemma deadlines_swept:
  assumes "relay_ok r" "link_ok r" "nodes_ok r" "marks_ok start ms r" "watched start t0 ms r" "t0 \<le> through" "sim_sweep through r = Some r'"
    "mset (tl_Events t) = mset (tl_Events (rn_tl r'))" "tl_Generations t = tl_Generations (rn_tl r')"
    "tl_Rotations t = tl_Rotations (rn_tl r')" "tl_SimulatedThrough t = through"
  shows "deadlines_marked start t"
proof -
  let ?t = "r\<lparr>rn_tl := (rn_tl r)\<lparr>tl_SimulatedThrough := through\<rparr>\<rparr>"
  let ?b = "breachCheck through ?t"
  let ?f = "flushCensus through (flushBlocked through ?b)"
  let ?ms = "ms @ new_marks through (rn_nodes r)" and ?gs = "tl_Generations (rn_tl r')"
  have c: "closeWindow through True ?f = Some r'" using assms(7) by (simp add: sim_sweep_def)
  have q: "quiet ?b r'"
    using quiet_trans [of ?b "flushBlocked through ?b" ?f] quiet_trans [of ?b ?f r'] quiet_closeWindow [OF c] by simp
  have "same_core r ?t" by (simp add: same_core_def fixed_def)
  then have n: "nodes_ok ?t" and m: "marks_ok start ms ?t" and b: "relay_ok ?t" "link_ok ?t"
    using nodes_ok_core [OF _ assms(3)] assms(4) relay_ok_core [OF _ assms(1)] link_ok_core [OF _ assms(2)] by (simp_all add: marks_ok_def)
  have dated: "\<forall>m\<in>set ms. ev_At (snd m) \<le> through" using assms(5,6) by (auto simp: watched_def)
  note mb = marks_breachCheck [OF b(1) conjunct1 [OF b(2) [unfolded link_ok_def]] n m dated]
  have m': "marks_ok start ?ms r'" "nodes_ok r'" and late: "\<forall>m\<in>set ?ms. ev_At (snd m) \<le> through"
    using quiet_keeps(1,2) [OF q] mb(1,2) nodes_ok_breachCheck [OF b(1) n] by simp_all
  have core: "relay_ok r'" "link_ok r'"
    using q relay_ok_core [of ?b r'] link_ok_core [of ?b r'] breachCheck_relay [OF b(1)] link_ok_breachCheck [OF b(2)]
    by (simp_all add: quiet_def)
  then have s: "slots_ok r'" by (simp add: link_ok_def)
  note ok = marks_okD [OF m'(1)]
  from ok(3) obtain h where h: "\<And>m. m \<in> set ?ms \<Longrightarrow> h m \<in> set ?gs \<and> key (h m) = fst m \<and> breach_of (h m) = snd m" by metis
  define who where "who = map h ?ms"
  have keys: "map key who = map fst ?ms" and evs: "map breach_of who = map snd ?ms" using h by (auto simp: who_def)
  have who: "g \<in> set who \<longleftrightarrow> key g \<in> fst ` set ?ms" if "g \<in> set ?gs" for g
  proof
    assume "key g \<in> fst ` set ?ms"
    then obtain m where m: "m \<in> set ?ms" "key g = fst m" by auto
    then have "key g = key (h m)" using h by simp
    then have "g = h m" by (intro gens_same [OF core(1) s that]) (use h [OF m(1)] in \<open>auto simp: key_def\<close>)
    with m(1) show "g \<in> set who" by (auto simp: who_def)
  qed (use h in \<open>auto simp: who_def\<close>)
  show ?thesis
    unfolding deadlines_marked_def assms(9-11)
  proof (intro exI [of _ who] conjI ballI impI)
    have "mset (filter is_breach (tl_Events t)) = mset (filter is_breach (tl_Events (rn_tl r')))"
      using assms(8) by (metis mset_filter)
    then show "mset (filter is_breach (tl_Events t)) = mset (map breach_of who)" by (simp only: ok(1) evs)
    show "distinct (map key who)" using ok(2) keys by simp
    show sub: "set who \<subseteq> set ?gs" using h by (auto simp: who_def)
    fix g assume g: "g \<in> set who"
    then obtain m where m: "m \<in> set ?ms" "g = h m" by (auto simp: who_def)
    from h [OF m(1)] m(2) have g': "g \<in> set ?gs" "key g = fst m" "breach_of g = snd m" by auto
    from late m(1) g'(3) show "g_Deadline g \<le> through" by (simp flip: event_at(2))
    show "\<not> g_Provisional g"
      by (rule past_unprovisional [OF core m'(1) g'(1)]) (use ok(5) [OF m(1)] g'(2) in \<open>simp flip: g'(2) add: key_def\<close>)
  next
    fix g assume g: "g \<in> set ?gs" "in_service ?gs g"
    let ?n = "rn_nodes r' ! nat (g_Slot g)"
    have i: "0 \<le> g_Slot g" "g_Slot g < int (length (rn_nodes r'))" using s g(1) by (auto simp: slots_ok_def)
    then have k: "nat (g_Slot g) < length (rn_nodes r')" "int (nat (g_Slot g)) = g_Slot g" by simp_all
    with m'(2) obtain g2 where g2: "g2 \<in> set ?gs" "represents r' (g_Slot g) ?n g2" by (auto simp: nodes_ok_def)
    have cur: "g_Gen g = sn_gen ?n" by (rule in_service_current [OF core g])
    have "g = g2" by (rule gens_same [OF core(1) s g(1) g2(1)]) (use cur g2(2) in \<open>auto simp: represents_def\<close>)
    then have d: "g_Deadline g = sim_deadline ?n" using g2(2) by (simp add: represents_def)
    have "key g \<in> fst ` set ?ms \<longleftrightarrow> sn_breached ?n" using ok(4) [OF k(1)] k(2) cur by (simp add: key_def)
    moreover have "sn_breached ?n" if "sim_deadline ?n \<le> through"
      using that sweep_effect(4) [OF assms(7)] k(1) by (auto simp: marked_def overdue_def split: if_splits)
    moreover have "sim_deadline ?n \<le> through" if key: "key g \<in> fst ` set ?ms"
    proof -
      from key obtain m where m: "m \<in> set ?ms" "key g = fst m" by auto
      from h [OF m(1)] m(2) have "g = h m" by (intro gens_same [OF core(1) s g(1)]) (auto simp: key_def prod_eq_iff)
      with h [OF m(1)] have "breach_of g = snd m" by simp
      then have "g_Deadline g = ev_At (snd m)" by (simp flip: event_at(2))
      moreover have "ev_At (snd m) \<le> through" using late m(1) by blast
      ultimately show ?thesis using d by simp
    qed
    ultimately show "g \<in> set who \<longleftrightarrow> g_Deadline g \<le> through" unfolding who [OF g(1)] d by blast
  next
    fix ro g assume ro: "ro \<in> set (tl_Rotations (rn_tl r'))" and g: "g \<in> set ?gs"
      and *: "retires ro g \<and> (\<exists>h\<in>set ?gs. produces ro h \<and> \<not> g_Provisional h)"
    have "ro \<in> set (past_rotations (rn_rot r' \<noteq> None) (tl_Rotations (rn_tl r')))" by (rule past_of_settled [OF core(2) ro]) (use * in blast)
    from ok(6) [OF this g] * have w: "(next_mark (max (g_Deadline g) start) < ro_Done ro \<longrightarrow> key g \<in> fst ` set ?ms)
        \<and> (key g \<in> fst ` set ?ms \<longrightarrow> g_Deadline g \<le> max (ro_Start ro) (ro_Done ro))" by (simp add: retired_well_def)
    show "next_mark (max (g_Deadline g) start) < ro_Done ro \<Longrightarrow> g \<in> set who" using w who [OF g] by blast
    show "g \<in> set who \<Longrightarrow> g_Deadline g \<le> max (ro_Start ro) (ro_Done ro)" using w who [OF g] by blast
  qed
qed

text \<open>
  C34. Deadlines are marked, and nothing else is. The breach events of a timeline are the marks of a list
  of generations of the timeline, one event for each, at its deadline and under its name. No generation is
  in the list twice, none is provisional, and the deadline of each lies within what was simulated and, if
  a rotation retired it, not after that rotation. A generation still in service is in the list exactly
  if its deadline lies within what was simulated. A generation retired by a rotation is in the list if the
  first mark of the minute grid at or after its deadline (no earlier than the start) comes before the
  rotation's end: the clock does not look between the grid and the completions of the rotation in flight.
\<close>

theorem deadlines_are_marked:
  "case Run loadLocation p f env opts of Some (Inr t) \<Rightarrow> deadlines_marked (op_Start opts) t | _ \<Rightarrow> True"
proof -
  have "deadlines_marked (op_Start opts) t" if "Run loadLocation p f env opts = Some (Inr t)" for t
    using that
  proof (cases rule: timeline_cases)
    case (Refused res)
    have "tl_Events t = []" "tl_Rotations t = []" "tl_Generations t = []" by (subst Refused, simp add: noTimeline_def)+
    then show ?thesis unfolding deadlines_marked_def by (intro exI [of _ "[]"]) simp
  next
    case (Simulated pol sched res env' r)
    let ?r = "new_run pol sched res env' opts f"
    have start: "\<exists>ms. marks_ok (op_Start opts) ms (opened ?r) \<and> watched (op_Start opts) (op_Start opts - 1) ms (opened ?r)"
      using initial_marks(2,3) by blast
    from marks_clock.all_rounds [of ?r opts "opened ?r" "InWindow sched (op_Start opts)", OF _ less_imp_le [OF Simulated(1)]]
      base_opened [of pol sched res env' opts f] initial_marks(1) [where pol = pol and sched = sched and res = res and env = env' and opts = opts and f = f] start
    obtain ex t' r' ms where r': "sim_rounds maxSteps (op_Start opts) (op_Start opts) (InWindow sched (op_Start opts)) (opened ?r) = Some (ex, t', r')"
      "base ?r opts r'" "nodes_ok r'" "marks_ok (op_Start opts) ms r'" "watched (op_Start opts) t' ms r'" "t' \<le> op_End opts"
      by blast
    define through where "through = (if ex then t' else op_End opts)"
    have sw: "sim_sweep through r' = Some r" using r'(1,2) Simulated(9)
      by (cases ex) (simp_all add: sim_loop_opened new_run_fields through_def base_def)
    have "t' \<le> through" using r'(6) by (simp add: through_def)
    moreover have "tl_SimulatedThrough (rn_tl r) = through" by (rule swept_through [OF sw])
    ultimately show ?thesis
      using deadlines_swept [OF _ _ r'(3-5) _ sw, of t] r'(2) Simulated(10) by (simp add: base_def sort_events_def)
  qed
  then show ?thesis by (auto split: option.split sum.split)
qed

section \<open>A deadline between two instants\<close>

text \<open>
  The rotation of the example is still draining when its node's deadline passes, 10 seconds before
  its end, and the timeline has no breach: the clock drives the rotation before it looks at deadlines,
  and by then the slot holds the new generation.
\<close>

lemma late_completion_hides_breach:
  "\<exists>t g ro. Run demo_locations (Some demo_policy) late_fleet late_env late_opts = Some (Inr t)
     \<and> g \<in> set (tl_Generations t) \<and> ro \<in> set (tl_Rotations t) \<and> retires ro g
     \<and> ro_Start ro < g_Deadline g \<and> g_Deadline g < ro_Done ro \<and> ro_Done ro < tl_SimulatedThrough t
     \<and> (\<forall>e\<in>set (tl_Events t). ev_Kind e \<noteq> KindExpireAfterBreach)"
proof -
  let ?f = "finished late_rotation late_flying"
  obtain c where c: "sim_loop (new_run demo_policy late_sched late_res late_env late_opts late_fleet) =
      sim_sweep (late_start + 50 * Second) (recordCensus late_done c ?f)" using late_loop by blast
  let ?e = "recordCensus late_done c ?f"
  obtain r where r: "sim_sweep (late_start + 50 * Second) ?e = Some r"
    using sim_loop_total [of late_opts demo_policy late_sched late_res late_env late_fleet] c by (auto simp: late_opts_def)
  let ?t = "?e\<lparr>rn_tl := (rn_tl ?e)\<lparr>tl_SimulatedThrough := late_start + 50 * Second\<rparr>\<rparr>"
  have core: "same_core ?f ?e" by simp
  have "breachCheck (late_start + 50 * Second) ?t = ?t"
    using core by (simp add: breachCheck_def same_core_def late_finished_fields late_nodes) (simp add: late_done_def)
  moreover have "quiet ?f ?t" by (rule quiet_trans [of ?f ?e ?t]) simp_all
  ultimately have "quiet ?f r"
    using r quiet_trans [of ?f ?t] quiet_trans [of ?t "flushBlocked (late_start + 50 * Second) ?t"]
      quiet_trans [of ?t "flushCensus (late_start + 50 * Second) (flushBlocked (late_start + 50 * Second) ?t)" r]
    by (simp add: sim_sweep_def quiet_closeWindow)
  then obtain es where es: "tl_Events (rn_tl r) = tl_Events (rn_tl ?f) @ es" "\<forall>e\<in>set es. ev_Kind e \<noteq> KindExpireAfterBreach"
    and same: "tl_Generations (rn_tl r) = tl_Generations (rn_tl ?f)" "tl_Rotations (rn_tl r) = tl_Rotations (rn_tl ?f)"
    by (auto simp: quiet_def same_core_def)
  have "ev_Kind ` set (tl_Events (rn_tl ?f)) = {KindWindowOpen, KindRotationStart, KindRotationDone}"
    using arg_cong [OF late_finished_fields(10), of set] by simp
  then have "\<forall>e\<in>set (tl_Events (rn_tl ?f)). ev_Kind e \<noteq> KindExpireAfterBreach" by force
  with es have ev: "\<forall>e\<in>set (tl_Events (sort_events (rn_tl r))). ev_Kind e \<noteq> KindExpireAfterBreach" by (auto simp: sort_events_def)
  have "env_defaults late_res late_env = late_env" by (simp add: env_defaults_def late_env_def)
  then have run: "Run demo_locations (Some demo_policy) late_fleet late_env late_opts = Some (Inr (sort_events (rn_tl r)))"
    using c r late_policy_valid
    by (simp add: Run_def late_policy late_schedule late_resolved simulate_resolved_def Let_def late_horizon late_bounds)
  have "nodes_ok late_opened" unfolding late_opened_def by (rule initial_marks)
  then obtain g where g: "g \<in> set (tl_Generations (rn_tl late_opened))" "represents late_opened 0 late_first g"
    by (auto simp: nodes_ok_def late_opened_fields)
  have "tl_Rotations (rn_tl ?f) = [\<lparr>ro_Slot = 0, ro_FromGen = 0, ro_ToGen = Some 1, ro_Mode = RotationSurgeless,
      ro_Start = late_start, ro_Ready = 0, ro_Done = late_done\<rparr>]"
    by (simp add: finished_def late_flying_def launched_def Let_def late_opened_fields late_rotation_def late_first_def late_node_def replaced_def)
  moreover have "g \<in> set (tl_Generations (rn_tl ?f))"
    using g by (simp add: finished_def late_flying_def launched_def Let_def late_rotation_def)
  moreover have "g_Slot g = 0" "g_Gen g = 0" "g_Deadline g = late_start + 20 * Second"
    using g(2) by (simp_all add: represents_def late_nodes) (simp add: late_first_def late_node_def)
  moreover have "tl_SimulatedThrough (rn_tl r) = late_start + 50 * Second" by (rule swept_through [OF r])
  ultimately show ?thesis
    using run ev same by (intro exI [of _ "sort_events (rn_tl r)"] exI [of _ g]) (auto simp: sort_events_def retires_def late_done_def)
qed

end
