(* ===== verification/SimLegal.thy ===== *)
theory SimLegal
  imports SimHistory
begin

text \<open>
  What the start gates leave in a timeline: every rotation starts inside the maintenance window, none
  starts while a feasibility finding is fatal, and a rotation starts only after the one before it ended
  and the cooldown has passed. The pool's last-rotation annotation is what carries the pace from one
  rotation to the next, so it holds the end of the last rotation, at the resolution of RFC 3339.
\<close>

definition paced :: "duration \<Rightarrow> RotationRecord \<Rightarrow> RotationRecord \<Rightarrow> bool" where
  "paced cooldown a b \<longleftrightarrow>
     ro_Done a \<le> ro_Start b
     \<and> (0 \<le> ro_Done a \<and> ro_Done a < max_rfc3339 \<longrightarrow> cooldown \<le> TimeSub (ro_Start b) (TruncateSecond (ro_Done a)))"

definition legal_ok :: "time \<Rightarrow> SimRun \<Rightarrow> bool" where
  "legal_ok t r \<longleftrightarrow>
     (let ros = tl_Rotations (rn_tl r)
      in (\<forall>ro\<in>set ros. InWindow (rn_sched r) (ro_Start ro))
         \<and> (ros \<noteq> [] \<longrightarrow> sim_firstFatal (r_Findings (sv_Derived (rn_res r))) = None)
         \<and> successively (paced (sv_Cooldown (rn_res r))) ros
         \<and> (rn_rot r = None \<and> ros \<noteq> [] \<longrightarrow>
              ro_Done (last ros) \<le> t \<and> aget (rn_poolAnn r) LastRotationAt = rfc3339 (ro_Done (last ros))))"

lemma legal_core: "same_core r r' \<Longrightarrow> legal_ok t r' = legal_ok t r"
  by (simp add: same_core_def legal_ok_def)

lemma legal_mono: "t \<le> t' \<Longrightarrow> legal_ok t r \<Longrightarrow> legal_ok t' r"
  by (auto simp: legal_ok_def Let_def)

lemma legal_breachCheck: "legal_ok t (breachCheck now r) = legal_ok t r"
  by (simp add: legal_ok_def breachCheck_eq)

text \<open>Changing the last rotation, but not its start, keeps the pace.\<close>

lemma paced_last:
  assumes "successively (paced c) xs" "xs \<noteq> []" "ro_Start y = ro_Start (last xs)"
  shows "successively (paced c) (butlast xs @ [y])"
proof -
  have "successively (paced c) (butlast xs @ [last xs])" using assms(1,2) by simp
  with assms(3) show ?thesis by (auto simp: successively_append_iff paced_def)
qed

lemma legal_replace_last:
  assumes "legal_ok t r" "tl_Rotations (rn_tl r) \<noteq> []"
    "tl_Rotations (rn_tl r') = butlast (tl_Rotations (rn_tl r)) @ [y]" "ro_Start y = ro_Start (last (tl_Rotations (rn_tl r)))"
    "rn_sched r' = rn_sched r" "rn_res r' = rn_res r"
    "rn_rot r' \<noteq> None \<or> ro_Done y \<le> t' \<and> aget (rn_poolAnn r') LastRotationAt = rfc3339 (ro_Done y)"
  shows "legal_ok t' r'"
  using assms paced_last [of _ "tl_Rotations (rn_tl r)" y] last_in_set [OF assms(2)]
  by (auto simp: legal_ok_def Let_def dest: in_set_butlastD)

lemma legal_readied:
  assumes "legal_ok t r" "flight_ok r x" "rn_rot r = Some x"
  shows "legal_ok t' (readied x r)"
proof (rule legal_replace_last [OF assms(1)])
  show ne: "tl_Rotations (rn_tl r) \<noteq> []" using assms(2) by (simp add: flight_ok_def)
  show "tl_Rotations (rn_tl (readied x r)) = butlast (tl_Rotations (rn_tl r)) @ [(last (tl_Rotations (rn_tl r)))\<lparr>ro_Ready := sr_readyAt x\<rparr>]"
    using rotIdx_range(3,4) [OF assms(2)] butlast_update [OF ne] by (simp add: readied_def)
qed (use assms(3) in \<open>simp_all add: readied_def\<close>)

lemma legal_finished:
  assumes "legal_ok t r" "flight_ok r x" "sr_doneAt x \<le> now"
  shows "legal_ok now (finished x r)"
proof -
  let ?y = "last (tl_Rotations (rn_tl (finished x r)))"
  have "tl_Rotations (rn_tl r) \<noteq> []" using assms(2) by (simp add: flight_ok_def)
  then show ?thesis
    by (rule legal_replace_last [OF assms(1), where y = ?y]) (use assms(3) in \<open>simp_all add: finished_def Let_def aget_def\<close>)
qed

lemma legal_advance:
  assumes "legal_ok now r" "relay_ok r" "sim_advance now r = Some r'"
  shows "legal_ok now r'"
  using assms(2)
proof (cases rule: advance_cases [where now = now])
  case Idle
  with assms show ?thesis by simp
next
  case (Flying x s)
  have "flight_ok r x" using assms(2) Flying(1) by (simp add: relay_ok_def)
  with Flying assms legal_readied [of now r x] show ?thesis by auto
next
  case (Done x s)
  have f: "flight_ok r x" "flight_ok s x" using assms(2) Done(1-3) by (simp_all add: relay_ok_def)
  have "legal_ok now s" using Done(1,4) assms(1) legal_readied [OF assms(1) f(1)] by auto
  from legal_finished [OF this f(2) Done(5)] Done(6) assms(3) show ?thesis by simp
qed

lemma gate_paces:
  assumes "fst (StartGate (sim_gates now inw r))" "aget (rn_poolAnn r) LastRotationAt = rfc3339 d" "0 \<le> d" "d < max_rfc3339"
  shows "sv_Cooldown (rn_res r) \<le> TimeSub now (TruncateSecond d)"
  using assms parseTime_rfc3339 [OF assms(3,4)]
  by (auto simp: StartGate_def sim_gates_def since_def split: if_splits)

lemma legal_maybeStart:
  assumes "legal_ok now r" "rn_rot r = None" "maybeStart now (InWindow (rn_sched r) now) r = Some r'"
  shows "legal_ok now r'"
proof (cases rule: maybeStart_cases [of now "InWindow (rn_sched r) now" r])
  case (Quiet s)
  with assms show ?thesis by (simp add: legal_core)
next
  case (Start c s drain)
  let ?ros = "tl_Rotations (rn_tl r)"
  have w: "InWindow (rn_sched r) now"
    using Start(4) by (auto simp: StartGate_def sim_gates_def split: if_splits)
  have r': "r' = launched now (slotOf r (c_Name c)) (SurgelessFallback c (sim_gates now (InWindow (rn_sched r) now) r)) drain s"
    using Start(7) assms(3) by simp
  then obtain y where y: "tl_Rotations (rn_tl r') = ?ros @ [y]" "ro_Start y = now" "rn_rot r' \<noteq> None"
    "rn_sched r' = rn_sched r" "rn_res r' = rn_res r"
    using Start(1) by (auto simp: launched_def Let_def same_core_def)
  have "paced (sv_Cooldown (rn_res r)) (last ?ros) y" if "?ros \<noteq> []"
    using assms(1,2) that y(2) gate_paces [OF Start(4), of "ro_Done (last ?ros)"] by (auto simp: legal_ok_def Let_def paced_def)
  with assms(1) y w Start(3) show ?thesis by (auto simp: legal_ok_def Let_def successively_append_iff)
qed

interpretation legal_clock: clock "\<lambda>t r. base r0 opts r \<and> legal_ok t r" opts for r0 opts
proof unfold_locales
  fix t r now inw
  assume I: "base r0 opts r \<and> legal_ok t r" and now: "t < now"
  from conjunct1 [OF I] show "\<exists>r'. sim_round now inw r = Some (InWindow (rn_sched r) now, r') \<and> base r0 opts r' \<and> legal_ok now r'"
  proof (cases rule: round_base [where now = now and inw = inw])
    case (1 r1 r2 r')
    have "legal_ok now r1" using I now legal_mono [of t now r] legal_core [OF 1(2)] by simp
    then have l: "legal_ok now (breachCheck now r2)"
      using legal_advance [OF _ _ 1(4)] advance_base(1) [OF 1(3,4)] by (simp add: legal_breachCheck)
    have "rn_sched (breachCheck now r2) = rn_sched r"
      using 1(6) conjunct1 [OF I] by (simp add: base_def fixed_def)
    with l 1(7) have "legal_ok now r'"
      using legal_maybeStart [OF l] by (cases "rn_rot r2") (auto simp: breachCheck_eq)
    with 1(8,9) show ?thesis by blast
  qed
next
  fix t r assume "base r0 opts r \<and> legal_ok t r"
  then show "base r0 opts (exhaust t r) \<and> legal_ok t (exhaust t r)"
    using base_exhaust [of r0 opts r t] legal_core [of r "exhaust t r" t] by simp
qed (simp add: base_def)

definition legal :: "Schedule \<Rightarrow> SimResolved \<Rightarrow> Timeline \<Rightarrow> bool" where
  "legal sched res t \<longleftrightarrow>
     (\<forall>ro\<in>set (tl_Rotations t). InWindow sched (ro_Start ro))
     \<and> (tl_Rotations t \<noteq> [] \<longrightarrow> sim_firstFatal (r_Findings (sv_Derived res)) = None)
     \<and> successively (paced (sv_Cooldown res)) (tl_Rotations t)"

text \<open>
  C32. Simulated rotations are legal. Every rotation of a timeline starts inside the maintenance window
  of the policy, there is none when a feasibility finding is fatal, and each rotation starts no earlier
  than the end of the one before it and at least the cooldown after it, measured from that end as the
  annotation keeps it, in whole seconds.
\<close>

theorem simulated_rotations_are_legal:
  "case Run loadLocation (Some p) f env opts of
     Some (Inr t) \<Rightarrow>
       (\<exists>sched res. New loadLocation (p_MaintenanceWindows (ApplyDefaults p)) = Inr sched
          \<and> sim_Resolve (ApplyDefaults p) sched f = Inr res \<and> legal sched res t)
   | _ \<Rightarrow> True"
proof -
  have "\<exists>sched res. New loadLocation (p_MaintenanceWindows (ApplyDefaults p)) = Inr sched
      \<and> sim_Resolve (ApplyDefaults p) sched f = Inr res \<and> legal sched res t" if run: "Run loadLocation (Some p) f env opts = Some (Inr t)" for t
    using run
  proof (cases rule: timeline_cases)
    case (Refused res)
    have "tl_Rotations t = []" by (subst Refused, simp add: noTimeline_def)
    then show ?thesis
      using run by (auto simp: legal_def Run_def Let_def split: if_splits sum.splits)
  next
    case (Simulated pol sched res env' r)
    let ?r = "new_run pol sched res env' opts f"
    have "legal_ok (op_Start opts - 1) (opened ?r)"
      using legal_core [OF opened_core, of "op_Start opts - 1" ?r] by (simp add: legal_ok_def new_run_fields)
    with legal_clock.all_rounds [of ?r opts "opened ?r" "InWindow sched (op_Start opts)", OF _ less_imp_le [OF Simulated(1)]]
      base_opened [of pol sched res env' opts f]
    obtain ex t' r' where r': "sim_rounds maxSteps (op_Start opts) (op_Start opts) (InWindow sched (op_Start opts)) (opened ?r) = Some (ex, t', r')"
      "base ?r opts r'" "legal_ok t' r'" by blast
    then have "sim_sweep (if ex then t' else op_End opts) r' = Some r"
      using Simulated(9) by (cases ex) (simp_all add: sim_loop_opened new_run_fields base_def)
    note sw = sweep_effect [OF this]
    have "rn_sched r' = sched" "rn_res r' = res" using r'(2) by (simp_all add: base_def fixed_def new_run_fields)
    with r'(3) sw(2) Simulated(10) have "legal sched res t" by (simp add: legal_ok_def legal_def Let_def sort_events_def)
    with Simulated(3,5,6) show ?thesis by auto
  qed
  then show ?thesis by (auto split: option.split sum.split)
qed

section \<open>What the input does not rule out\<close>

text \<open>
  A negative grace period is accepted, and clamping the drain to it makes the drain negative: the
  rotation ends before it starts.
\<close>

lemma negative_grace_ends_before_start:
  assumes "sn_tgp n = Some d" "d < 0" "0 \<le> env_Drain (rn_env r)"
  shows "\<exists>x. rn_rot (launched now slot True (fst (drainFor n r)) r) = Some x \<and> sr_doneAt x < now"
  using assms by (simp add: drainFor_def drainCap_def launched_def Let_def)

text \<open>
  Names are not checked to be distinct, and the slot of a pick is looked up by name: the pick of one
  node rotates the first node of that name.
\<close>

lemma duplicate_names_share_a_slot:
  assumes "rn_nodes r = n # m # ns" "sim_name m = sim_name n"
  shows "slotOf r (c_Name (sim_view m)) = 0"
  using assms by (simp add: slotOf_def sim_view_def)

end
