(* ===== verification/SimApi.thy ===== *)
theory SimApi
  imports SimHistory SimExample
begin

text \<open>
  The wire format of the browser simulator (\<open>internal/simapi\<close>, the body of \<open>cmd/wasm\<close>): a policy
  manifest and a request in, a response out. The YAML and JSON decoders are parameters
  (\<open>unmarshalYAML\<close>, \<open>unmarshalJSON\<close>: a text, or the decoder's own complaint), and so is the text of
  messages (\<open>text\<close>, \<open>findingText\<close>, \<open>errorText\<close>), which the model keeps as their arguments elsewhere.
  What a field is, what is omitted and what is refused is translated here; a response is encoded as a
  JSON value following the field tags of the source; strings are its bytes. The last part reads such a
  value back by the names and optional fields that the page declares
  (docs/.vitepress/theme/components/simulator/model.ts).
\<close>

section \<open>The request\<close>

record WireNode =
  wn_Name :: string
  wn_CreatedAt :: string
  wn_ExpireAfter :: string
  wn_TerminationGracePeriod :: string

record WireFleet =
  wf_ExpireAfter :: string
  wf_TerminationGracePeriod :: string
  wf_Nodes :: "WireNode list"

record WireEnv =
  we_Provisioning :: string
  we_Drain :: string

record WireOptions =
  wo_Start :: string
  wo_End :: string

record Request =
  rq_Fleet :: WireFleet
  rq_Env :: WireEnv
  rq_Options :: WireOptions

text \<open>A custom resource, as far as admission checks it here: its type and its spec.\<close>

record 'sel Manifest =
  mf_APIVersion :: string
  mf_Kind :: string
  mf_Spec :: "'sel RotationPolicySpec"

datatype SimApiError =
    NotRotationPolicy string
  | WrongAPIVersion string
  | WrongKind string
  | PolicyRejected "PolicyError list"
  | RequestNotJSON string
  | NotADuration string string
  | ExpireAfterRequired
  | InstantRequired string
  | NotAnInstant string string
  | RunFailed SimError

definition attempt :: "'e + 'a \<Rightarrow> ('a \<Rightarrow> 'e + 'b) \<Rightarrow> 'e + 'b" where
  "attempt x f = (case x of Inl e \<Rightarrow> Inl e | Inr a \<Rightarrow> f a)"

definition policy_kind :: string where "policy_kind = ''RotationPolicy''"
definition policy_version :: string where "policy_version = ''noderotation.io/v1alpha1''"

definition decodePolicy ::
  "(string \<Rightarrow> 'loc option) \<Rightarrow> (string \<Rightarrow> string + 'sel Manifest) \<Rightarrow> string \<Rightarrow> SimApiError + Policy" where
  "decodePolicy loadLocation unmarshalYAML policyYAML =
     (case unmarshalYAML policyYAML of
        Inl e \<Rightarrow> Inl (NotRotationPolicy e)
      | Inr rp \<Rightarrow>
          if mf_APIVersion rp \<noteq> policy_version then Inl (WrongAPIVersion (mf_APIVersion rp))
          else if mf_Kind rp \<noteq> policy_kind then Inl (WrongKind (mf_Kind rp))
          else (case ToPolicy loadLocation (mf_Spec rp) of Inl es \<Rightarrow> Inl (PolicyRejected es) | Inr p \<Rightarrow> Inr p))"

definition wire_duration :: "string \<Rightarrow> string \<Rightarrow> SimApiError + duration option" where
  "wire_duration field s =
     (if s = '''' then Inr None
      else case ParseDuration s of None \<Rightarrow> Inl (NotADuration field s) | Some d \<Rightarrow> Inr (Some d))"

definition wire_instant :: "string \<Rightarrow> string \<Rightarrow> SimApiError + time" where
  "wire_instant field s =
     (if s = '''' then Inl (InstantRequired field)
      else case time_Parse s of None \<Rightarrow> Inl (NotAnInstant field s) | Some t \<Rightarrow> Inr t)"

definition decode_node :: "nat \<Rightarrow> WireNode \<Rightarrow> SimApiError + FleetNode" where
  "decode_node i n =
     (let field = ''fleet.nodes['' @ Itoa (int i) @ '']''
      in attempt (wire_instant (field @ ''.createdAt'') (wn_CreatedAt n)) (\<lambda>created.
         attempt (wire_duration (field @ ''.expireAfter'') (wn_ExpireAfter n)) (\<lambda>expire.
         attempt (wire_duration (field @ ''.terminationGracePeriod'') (wn_TerminationGracePeriod n)) (\<lambda>tgp.
         Inr \<lparr>fn_Name = wn_Name n, fn_CreatedAt = created, fn_ExpireAfter = expire, fn_TGP = tgp\<rparr>))))"

fun decode_nodes :: "nat \<Rightarrow> WireNode list \<Rightarrow> SimApiError + FleetNode list" where
  "decode_nodes i [] = Inr []"
| "decode_nodes i (n # ns) =
     attempt (decode_node i n) (\<lambda>x. attempt (decode_nodes (Suc i) ns) (\<lambda>xs. Inr (x # xs)))"

definition decode :: "Request \<Rightarrow> SimApiError + Fleet \<times> Env \<times> Options" where
  "decode r =
     attempt (wire_duration ''fleet.expireAfter'' (wf_ExpireAfter (rq_Fleet r))) (\<lambda>expireAfter.
       case expireAfter of
         None \<Rightarrow> Inl ExpireAfterRequired
       | Some expireAfter \<Rightarrow>
           attempt (wire_duration ''fleet.terminationGracePeriod'' (wf_TerminationGracePeriod (rq_Fleet r))) (\<lambda>tgp.
           attempt (decode_nodes 0 (wf_Nodes (rq_Fleet r))) (\<lambda>nodes.
           attempt (wire_duration ''env.provisioning'' (we_Provisioning (rq_Env r))) (\<lambda>prov.
           attempt (wire_duration ''env.drain'' (we_Drain (rq_Env r))) (\<lambda>drain.
           attempt (wire_instant ''options.start'' (wo_Start (rq_Options r))) (\<lambda>start.
           attempt (wire_instant ''options.end'' (wo_End (rq_Options r))) (\<lambda>finish.
             Inr (\<lparr>fl_ExpireAfter = expireAfter, fl_TGP = tgp, fl_Nodes = nodes\<rparr>,
                  \<lparr>env_Provisioning = deref prov, env_Drain = deref drain\<rparr>,
                  \<lparr>op_Start = start, op_End = finish\<rparr>))))))))"

section \<open>The response\<close>

record WireInputs =
  wp_E :: string
  wp_TGP :: string
  wp_TGPIsFallback :: bool
  wp_P :: string
  wp_WindowLen :: string
  wp_Buffer :: string
  wp_ReadyTimeout :: string
  wp_Cooldown :: string
  wp_K :: int
  wp_M :: int
  wp_AgeThresholdOverride :: bool

text \<open>A finding and a diagnostic have the same shape on the wire.\<close>

record WireFinding =
  wd_Severity :: string
  wd_Code :: string
  wd_Message :: string

record WireResult =
  wr_AgeThreshold :: string
  wr_TRot :: string
  wr_TRotEstimate :: string
  wr_DrainEstimate :: string
  wr_ProvisioningEstimate :: string
  wr_G :: int
  wr_C :: int
  wr_Inputs :: "WireInputs option"
  wr_Findings :: "WireFinding list"

record WireCensus =
  wc_Total :: nat
  wc_Eligible :: nat
  wc_OptedOut :: nat
  wc_Deleting :: nat
  wc_NotReady :: nat
  wc_InFlight :: nat
  wc_Terminal :: nat
  wc_InBackoff :: nat
  wc_NotTriggered :: nat

record WireEvent =
  wx_Kind :: string
  wx_At :: string
  wx_Until :: string
  wx_Node :: string
  wx_Replacement :: string
  wx_Surgeless :: bool
  wx_Gate :: string
  wx_Census :: "WireCensus option"

record WireGeneration =
  wg_Slot :: int
  wg_Gen :: int
  wg_Name :: string
  wg_BirthMode :: string
  wg_PredecessorGen :: "int option"
  wg_CreatedAt :: string
  wg_ExpireAfter :: string
  wg_DrainCap :: string
  wg_DrainCapSource :: string
  wg_Deadline :: string
  wg_EligibilityBoundary :: string
  wg_ReadyAt :: string
  wg_Provisional :: bool

record WireRotation =
  wt_Slot :: int
  wt_FromGen :: int
  wt_ToGen :: "int option"
  wt_Mode :: string
  wt_Start :: string
  wt_Ready :: string
  wt_Done :: string

record WireWindow =
  ww_Start :: string
  ww_End :: string
  ww_StartClipped :: bool
  ww_EndClipped :: bool

record Response =
  rs_Error :: string
  rs_Result :: "WireResult option"
  rs_Events :: "WireEvent list"
  rs_Generations :: "WireGeneration list"
  rs_Rotations :: "WireRotation list"
  rs_Windows :: "WireWindow list"
  rs_Diagnostics :: "WireFinding list"
  rs_Partial :: bool
  rs_SimulatedThrough :: string

definition stamp :: "time \<Rightarrow> string" where
  "stamp t = (if IsZero t then '''' else rfc3339 t)"

fun Kind_String :: "Kind \<Rightarrow> string" where
  "Kind_String KindWindowOpen = ''window-open''"
| "Kind_String KindWindowClose = ''window-close''"
| "Kind_String KindRotationStart = ''rotation-start''"
| "Kind_String KindNodeReady = ''node-ready''"
| "Kind_String KindRotationDone = ''rotation-done''"
| "Kind_String KindExpireAfterBreach = ''expire-after-breach''"
| "Kind_String KindBlockedByGate = ''blocked-by-gate''"
| "Kind_String KindNoEligibleClaim = ''no-eligible-claim''"

fun BirthMode_String :: "BirthMode \<Rightarrow> string" where
  "BirthMode_String BirthInitial = ''initial''"
| "BirthMode_String BirthSurge = ''surge''"
| "BirthMode_String BirthSurgeless = ''surgeless''"

fun DrainCapSource_String :: "DrainCapSource \<Rightarrow> string" where
  "DrainCapSource_String DrainCapExplicit = ''explicit''"
| "DrainCapSource_String DrainCapFallback = ''fallback''"

fun RotationPath_String :: "RotationPath \<Rightarrow> string" where
  "RotationPath_String RotationSurge = ''surge''"
| "RotationPath_String RotationSurgeless = ''surgeless''"

definition toFinding :: "(Finding \<Rightarrow> string) \<Rightarrow> Finding \<Rightarrow> WireFinding" where
  "toFinding findingText f =
     \<lparr>wd_Severity = Severity_String (f_Severity f), wd_Code = f_Code f, wd_Message = findingText f\<rparr>"

definition toInputs :: "Inputs \<Rightarrow> WireInputs" where
  "toInputs i =
     \<lparr>wp_E = Duration_String (in_E i), wp_TGP = Duration_String (in_TGP i), wp_TGPIsFallback = in_TGPWasUnset i,
      wp_P = Duration_String (in_P i), wp_WindowLen = Duration_String (in_WindowLen i),
      wp_Buffer = Duration_String Buffer, wp_ReadyTimeout = Duration_String (in_ReadyTimeout i),
      wp_Cooldown = Duration_String (in_Cooldown i), wp_K = in_K i, wp_M = in_MaxUnavailable i,
      wp_AgeThresholdOverride = (in_Override i \<noteq> None)\<rparr>"

definition toResult :: "(Finding \<Rightarrow> string) \<Rightarrow> Result \<Rightarrow> Inputs \<Rightarrow> WireResult" where
  "toResult findingText r i =
     \<lparr>wr_AgeThreshold = Duration_String (r_A r), wr_TRot = Duration_String (r_TRot r),
      wr_TRotEstimate = Duration_String (r_TRotEst r), wr_DrainEstimate = Duration_String (r_DrainEstimate r),
      wr_ProvisioningEstimate = Duration_String (r_ProvisioningEstimate r), wr_G = r_G r, wr_C = r_C r,
      wr_Inputs = Some (toInputs i), wr_Findings = map (toFinding findingText) (r_Findings r)\<rparr>"

text \<open>The wire leaves out \<open>InBackoffTriggered\<close>.\<close>

definition toCensus :: "Census \<Rightarrow> WireCensus" where
  "toCensus c =
     \<lparr>wc_Total = cs_Total c, wc_Eligible = cs_Eligible c, wc_OptedOut = cs_OptedOut c,
      wc_Deleting = cs_Deleting c, wc_NotReady = cs_NotReady c, wc_InFlight = cs_InFlight c,
      wc_Terminal = cs_Terminal c, wc_InBackoff = cs_InBackoff c, wc_NotTriggered = cs_NotTriggered c\<rparr>"

definition toEvent :: "Event \<Rightarrow> WireEvent" where
  "toEvent e =
     \<lparr>wx_Kind = Kind_String (ev_Kind e), wx_At = stamp (ev_At e), wx_Until = stamp (ev_Until e),
      wx_Node = ev_Node e, wx_Replacement = ev_Replacement e, wx_Surgeless = ev_Surgeless e,
      wx_Gate = Gate_String (ev_Gate e), wx_Census = map_option toCensus (ev_Census e)\<rparr>"

definition toGeneration :: "Generation \<Rightarrow> WireGeneration" where
  "toGeneration g =
     \<lparr>wg_Slot = g_Slot g, wg_Gen = g_Gen g, wg_Name = g_Name g, wg_BirthMode = BirthMode_String (g_BirthMode g),
      wg_PredecessorGen = g_PredecessorGen g, wg_CreatedAt = stamp (g_CreatedAt g),
      wg_ExpireAfter = Duration_String (g_ExpireAfter g), wg_DrainCap = Duration_String (g_DrainCap g),
      wg_DrainCapSource = DrainCapSource_String (g_DrainCapSource g), wg_Deadline = stamp (g_Deadline g),
      wg_EligibilityBoundary = stamp (g_EligibilityBoundary g), wg_ReadyAt = stamp (g_ReadyAt g),
      wg_Provisional = g_Provisional g\<rparr>"

definition toRotation :: "RotationRecord \<Rightarrow> WireRotation" where
  "toRotation r =
     \<lparr>wt_Slot = ro_Slot r, wt_FromGen = ro_FromGen r, wt_ToGen = ro_ToGen r,
      wt_Mode = RotationPath_String (ro_Mode r), wt_Start = stamp (ro_Start r), wt_Ready = stamp (ro_Ready r),
      wt_Done = stamp (ro_Done r)\<rparr>"

definition toWindowInterval :: "WindowInterval \<Rightarrow> WireWindow" where
  "toWindowInterval w =
     \<lparr>ww_Start = stamp (wv_Start w), ww_End = stamp (wv_End w), ww_StartClipped = wv_StartClipped w,
      ww_EndClipped = wv_EndClipped w\<rparr>"

definition toDiagnostic :: "(DiagMessage \<Rightarrow> string) \<Rightarrow> Diagnostic \<Rightarrow> WireFinding" where
  "toDiagnostic text d =
     \<lparr>wd_Severity = Severity_String (dg_Severity d), wd_Code = dg_Code d, wd_Message = text (dg_Message d)\<rparr>"

definition toResponse :: "(DiagMessage \<Rightarrow> string) \<Rightarrow> (Finding \<Rightarrow> string) \<Rightarrow> Timeline \<Rightarrow> Response" where
  "toResponse text findingText t =
     \<lparr>rs_Error = '''', rs_Result = Some (toResult findingText (tl_Result t) (tl_Inputs t)),
      rs_Events = map toEvent (tl_Events t), rs_Generations = map toGeneration (tl_Generations t),
      rs_Rotations = map toRotation (tl_Rotations t), rs_Windows = map toWindowInterval (tl_Windows t),
      rs_Diagnostics = map (toDiagnostic text) (tl_Diagnostics t), rs_Partial = tl_Partial t,
      rs_SimulatedThrough = stamp (tl_SimulatedThrough t)\<rparr>"

definition simulate ::
  "(string \<Rightarrow> Location option) \<Rightarrow> (string \<Rightarrow> string + 'sel Manifest) \<Rightarrow> (string \<Rightarrow> string + Request) \<Rightarrow>
   (DiagMessage \<Rightarrow> string) \<Rightarrow> (Finding \<Rightarrow> string) \<Rightarrow> string \<Rightarrow> string \<Rightarrow> (SimApiError + Response) option" where
  "simulate loadLocation unmarshalYAML unmarshalJSON text findingText policyYAML requestJSON =
     (case decodePolicy loadLocation unmarshalYAML policyYAML of
        Inl e \<Rightarrow> Some (Inl e)
      | Inr pol \<Rightarrow>
          (case unmarshalJSON requestJSON of
             Inl e \<Rightarrow> Some (Inl (RequestNotJSON e))
           | Inr req \<Rightarrow>
               (case decode req of
                  Inl e \<Rightarrow> Some (Inl e)
                | Inr (fleet, env, opts) \<Rightarrow>
                    (case Run loadLocation (Some pol) fleet env opts of
                       None \<Rightarrow> None
                     | Some (Inl e) \<Rightarrow> Some (Inl (RunFailed e))
                     | Some (Inr t) \<Rightarrow> Some (Inr (toResponse text findingText t))))))"

definition no_response :: Response where
  "no_response =
     \<lparr>rs_Error = '''', rs_Result = None, rs_Events = [], rs_Generations = [], rs_Rotations = [], rs_Windows = [],
      rs_Diagnostics = [], rs_Partial = False, rs_SimulatedThrough = ''''\<rparr>"

section \<open>The encoding\<close>

datatype Json = JString string | JInt int | JBool bool | JArray "Json list" | JObject "(string \<times> Json) list"

text \<open>A field is kept unless it is tagged \<open>omitempty\<close> and has its zero value.\<close>

definition always :: "string \<Rightarrow> Json \<Rightarrow> (string \<times> Json) list" where
  "always k v = [(k, v)]"

definition nonempty :: "string \<Rightarrow> string \<Rightarrow> (string \<times> Json) list" where
  "nonempty k s = (if s = '''' then [] else [(k, JString s)])"

definition flagged :: "string \<Rightarrow> bool \<Rightarrow> (string \<times> Json) list" where
  "flagged k b = (if b then [(k, JBool True)] else [])"

definition present :: "string \<Rightarrow> ('a \<Rightarrow> Json) \<Rightarrow> 'a option \<Rightarrow> (string \<times> Json) list" where
  "present k f x = (case x of None \<Rightarrow> [] | Some a \<Rightarrow> [(k, f a)])"

definition listed :: "string \<Rightarrow> ('a \<Rightarrow> Json) \<Rightarrow> 'a list \<Rightarrow> (string \<times> Json) list" where
  "listed k f xs = (if xs = [] then [] else [(k, JArray (map f xs))])"

definition inputs_json :: "WireInputs \<Rightarrow> Json" where
  "inputs_json i = JObject
     (always ''e'' (JString (wp_E i)) @ always ''tgp'' (JString (wp_TGP i)) @ always ''tgpFallback'' (JBool (wp_TGPIsFallback i))
      @ always ''p'' (JString (wp_P i)) @ always ''windowLen'' (JString (wp_WindowLen i)) @ always ''buffer'' (JString (wp_Buffer i))
      @ always ''readyTimeout'' (JString (wp_ReadyTimeout i)) @ always ''cooldownAfter'' (JString (wp_Cooldown i))
      @ always ''k'' (JInt (wp_K i)) @ always ''m'' (JInt (wp_M i))
      @ always ''ageThresholdOverride'' (JBool (wp_AgeThresholdOverride i)))"

definition finding_json :: "WireFinding \<Rightarrow> Json" where
  "finding_json f = JObject
     (always ''severity'' (JString (wd_Severity f)) @ always ''code'' (JString (wd_Code f))
      @ always ''message'' (JString (wd_Message f)))"

definition result_json :: "WireResult \<Rightarrow> Json" where
  "result_json r = JObject
     (always ''ageThreshold'' (JString (wr_AgeThreshold r)) @ always ''tRot'' (JString (wr_TRot r))
      @ always ''tRotEstimate'' (JString (wr_TRotEstimate r)) @ always ''drainEstimate'' (JString (wr_DrainEstimate r))
      @ always ''provisioningEstimate'' (JString (wr_ProvisioningEstimate r)) @ always ''g'' (JInt (wr_G r))
      @ always ''c'' (JInt (wr_C r)) @ present ''inputs'' inputs_json (wr_Inputs r)
      @ listed ''findings'' finding_json (wr_Findings r))"

definition census_json :: "WireCensus \<Rightarrow> Json" where
  "census_json c = JObject
     (always ''total'' (JInt (int (wc_Total c))) @ always ''eligible'' (JInt (int (wc_Eligible c))) @ always ''optedOut'' (JInt (int (wc_OptedOut c)))
      @ always ''deleting'' (JInt (int (wc_Deleting c))) @ always ''notReady'' (JInt (int (wc_NotReady c)))
      @ always ''inFlight'' (JInt (int (wc_InFlight c))) @ always ''terminal'' (JInt (int (wc_Terminal c)))
      @ always ''inBackoff'' (JInt (int (wc_InBackoff c))) @ always ''notTriggered'' (JInt (int (wc_NotTriggered c))))"

definition event_json :: "WireEvent \<Rightarrow> Json" where
  "event_json e = JObject
     (always ''kind'' (JString (wx_Kind e)) @ always ''at'' (JString (wx_At e)) @ nonempty ''until'' (wx_Until e)
      @ nonempty ''node'' (wx_Node e) @ nonempty ''replacement'' (wx_Replacement e) @ flagged ''surgeless'' (wx_Surgeless e)
      @ nonempty ''gate'' (wx_Gate e) @ present ''census'' census_json (wx_Census e))"

definition generation_json :: "WireGeneration \<Rightarrow> Json" where
  "generation_json g = JObject
     (always ''slot'' (JInt (wg_Slot g)) @ always ''gen'' (JInt (wg_Gen g)) @ always ''name'' (JString (wg_Name g))
      @ always ''birthMode'' (JString (wg_BirthMode g)) @ present ''predecessorGen'' JInt (wg_PredecessorGen g)
      @ always ''createdAt'' (JString (wg_CreatedAt g)) @ always ''expireAfter'' (JString (wg_ExpireAfter g))
      @ always ''drainCap'' (JString (wg_DrainCap g)) @ always ''drainCapSource'' (JString (wg_DrainCapSource g))
      @ always ''deadline'' (JString (wg_Deadline g)) @ always ''eligibilityBoundary'' (JString (wg_EligibilityBoundary g))
      @ nonempty ''readyAt'' (wg_ReadyAt g) @ flagged ''provisional'' (wg_Provisional g))"

definition rotation_json :: "WireRotation \<Rightarrow> Json" where
  "rotation_json r = JObject
     (always ''slot'' (JInt (wt_Slot r)) @ always ''fromGen'' (JInt (wt_FromGen r)) @ present ''toGen'' JInt (wt_ToGen r)
      @ always ''mode'' (JString (wt_Mode r)) @ always ''start'' (JString (wt_Start r)) @ nonempty ''ready'' (wt_Ready r)
      @ nonempty ''done'' (wt_Done r))"

definition window_json :: "WireWindow \<Rightarrow> Json" where
  "window_json w = JObject
     (always ''start'' (JString (ww_Start w)) @ always ''end'' (JString (ww_End w))
      @ flagged ''startClipped'' (ww_StartClipped w) @ flagged ''endClipped'' (ww_EndClipped w))"

definition response_json :: "Response \<Rightarrow> Json" where
  "response_json r = JObject
     (nonempty ''error'' (rs_Error r) @ present ''result'' result_json (rs_Result r)
      @ listed ''events'' event_json (rs_Events r) @ listed ''generations'' generation_json (rs_Generations r)
      @ listed ''rotations'' rotation_json (rs_Rotations r) @ listed ''windows'' window_json (rs_Windows r)
      @ listed ''diagnostics'' finding_json (rs_Diagnostics r) @ always ''partial'' (JBool (rs_Partial r))
      @ nonempty ''simulatedThrough'' (rs_SimulatedThrough r))"

text \<open>The entry point: whatever is wrong comes back as a response too.\<close>

definition Simulate ::
  "(string \<Rightarrow> Location option) \<Rightarrow> (string \<Rightarrow> string + 'sel Manifest) \<Rightarrow> (string \<Rightarrow> string + Request) \<Rightarrow>
   (DiagMessage \<Rightarrow> string) \<Rightarrow> (Finding \<Rightarrow> string) \<Rightarrow> (SimApiError \<Rightarrow> string) \<Rightarrow> string \<Rightarrow> string \<Rightarrow> Json option" where
  "Simulate loadLocation unmarshalYAML unmarshalJSON text findingText errorText policyYAML requestJSON =
     map_option
       (\<lambda>r. response_json (case r of Inl e \<Rightarrow> no_response\<lparr>rs_Error := errorText e\<rparr> | Inr resp \<Rightarrow> resp))
       (simulate loadLocation unmarshalYAML unmarshalJSON text findingText policyYAML requestJSON)"


text \<open>The function the page calls (\<open>cmd/wasm\<close>): two string arguments, or a fixed complaint.\<close>

datatype JsValue = JsString string | JsOther

definition wasm_simulate :: "(string \<Rightarrow> string \<Rightarrow> Json option) \<Rightarrow> JsValue list \<Rightarrow> Json option" where
  "wasm_simulate sim args =
     (case args of
        [JsString policyYAML, JsString requestJSON] \<Rightarrow> sim policyYAML requestJSON
      | _ \<Rightarrow> Some (JObject [(''error'', JString ''simulate(policyYAML, requestJSON): expected two string arguments'')]))"

section \<open>What is refused\<close>

text \<open>
  The complaints about a request, one per unreadable field, in the order the source reads the fields.
\<close>

definition duration_errors :: "string \<Rightarrow> string \<Rightarrow> SimApiError list" where
  "duration_errors field s = (if s \<noteq> '''' \<and> ParseDuration s = None then [NotADuration field s] else [])"

definition instant_errors :: "string \<Rightarrow> string \<Rightarrow> SimApiError list" where
  "instant_errors field s =
     (if s = '''' then [InstantRequired field] else if time_Parse s = None then [NotAnInstant field s] else [])"

definition node_errors :: "nat \<Rightarrow> WireNode \<Rightarrow> SimApiError list" where
  "node_errors i n =
     (let field = ''fleet.nodes['' @ Itoa (int i) @ '']''
      in instant_errors (field @ ''.createdAt'') (wn_CreatedAt n)
         @ duration_errors (field @ ''.expireAfter'') (wn_ExpireAfter n)
         @ duration_errors (field @ ''.terminationGracePeriod'') (wn_TerminationGracePeriod n))"

definition request_errors :: "Request \<Rightarrow> SimApiError list" where
  "request_errors r =
     (if wf_ExpireAfter (rq_Fleet r) = '''' then [ExpireAfterRequired]
      else duration_errors ''fleet.expireAfter'' (wf_ExpireAfter (rq_Fleet r)))
     @ duration_errors ''fleet.terminationGracePeriod'' (wf_TerminationGracePeriod (rq_Fleet r))
     @ concat (map (\<lambda>(i, n). node_errors i n) (List.enumerate 0 (wf_Nodes (rq_Fleet r))))
     @ duration_errors ''env.provisioning'' (we_Provisioning (rq_Env r))
     @ duration_errors ''env.drain'' (we_Drain (rq_Env r))
     @ instant_errors ''options.start'' (wo_Start (rq_Options r))
     @ instant_errors ''options.end'' (wo_End (rq_Options r))"

definition first_error :: "SimApiError list \<Rightarrow> SimApiError + 'a \<Rightarrow> bool" where
  "first_error es x = (case x of Inl e \<Rightarrow> es \<noteq> [] \<and> hd es = e | Inr _ \<Rightarrow> es = [])"

lemma first_error_attempt:
  assumes "first_error es x" "\<And>a. x = Inr a \<Longrightarrow> first_error fs (f a)"
  shows "first_error (es @ fs) (attempt x f)"
  using assms by (cases x) (auto simp: first_error_def attempt_def split: sum.splits)

lemma first_error_done: "first_error es x \<Longrightarrow> first_error es (attempt x (\<lambda>a. Inr (g a)))"
  using first_error_attempt [of es x "[]" "\<lambda>a. Inr (g a)"] by (simp add: first_error_def)

lemma first_error_Inr [simp]: "first_error [] (Inr a)"
  by (simp add: first_error_def)

lemma first_error_duration: "first_error (duration_errors field s) (wire_duration field s)"
  by (simp add: first_error_def duration_errors_def wire_duration_def split: option.split)

lemma first_error_instant: "first_error (instant_errors field s) (wire_instant field s)"
  by (simp add: first_error_def instant_errors_def wire_instant_def split: option.split)

lemma first_error_node: "first_error (node_errors i n) (decode_node i n)"
  unfolding node_errors_def decode_node_def Let_def
  by (intro first_error_attempt first_error_done first_error_instant first_error_duration)

lemma first_error_nodes: "first_error (concat (map (\<lambda>(i, n). node_errors i n) (List.enumerate i ns))) (decode_nodes i ns)"
proof (induction ns arbitrary: i)
  case (Cons n ns)
  have "first_error (node_errors i n @ concat (map (\<lambda>(i, n). node_errors i n) (List.enumerate (Suc i) ns))) (decode_nodes i (n # ns))"
    unfolding decode_nodes.simps by (intro first_error_attempt first_error_node first_error_done Cons)
  then show ?case by simp
qed simp

definition read_duration :: "string \<Rightarrow> duration option" where
  "read_duration s = (if s = '''' then None else ParseDuration s)"

definition reads_node :: "WireNode \<Rightarrow> FleetNode \<Rightarrow> bool" where
  "reads_node w n \<longleftrightarrow>
     fn_Name n = wn_Name w \<and> time_Parse (wn_CreatedAt w) = Some (fn_CreatedAt n)
     \<and> fn_ExpireAfter n = read_duration (wn_ExpireAfter w) \<and> fn_TGP n = read_duration (wn_TerminationGracePeriod w)"

definition reads_request :: "Request \<Rightarrow> Fleet \<times> Env \<times> Options \<Rightarrow> bool" where
  "reads_request r x \<longleftrightarrow>
     (case x of (f, env, opts) \<Rightarrow>
        read_duration (wf_ExpireAfter (rq_Fleet r)) = Some (fl_ExpireAfter f)
        \<and> fl_TGP f = read_duration (wf_TerminationGracePeriod (rq_Fleet r))
        \<and> list_all2 reads_node (wf_Nodes (rq_Fleet r)) (fl_Nodes f)
        \<and> env_Provisioning env = deref (read_duration (we_Provisioning (rq_Env r)))
        \<and> env_Drain env = deref (read_duration (we_Drain (rq_Env r)))
        \<and> time_Parse (wo_Start (rq_Options r)) = Some (op_Start opts)
        \<and> time_Parse (wo_End (rq_Options r)) = Some (op_End opts))"

lemma wire_Inr:
  "wire_duration field s = Inr d \<Longrightarrow> d = read_duration s"
  "wire_instant field s = Inr t \<Longrightarrow> time_Parse s = Some t"
  by (auto simp: wire_duration_def wire_instant_def read_duration_def split: if_splits option.splits)

lemma attempt_Inr: "attempt x f = Inr b \<longleftrightarrow> (\<exists>a. x = Inr a \<and> f a = Inr b)"
  by (simp add: attempt_def split: sum.split)

lemma decode_nodes_reads: "decode_nodes i ns = Inr xs \<Longrightarrow> list_all2 reads_node ns xs"
  by (induction ns arbitrary: i xs)
    (auto simp: attempt_Inr decode_node_def Let_def reads_node_def dest: wire_Inr)

lemma decode_reads: "decode r = Inr x \<Longrightarrow> reads_request r x"
  unfolding decode_def attempt_Inr
  apply (elim exE conjE)
  subgoal for expireAfter
    apply (cases expireAfter)
     apply simp
    apply (simp only: option.case attempt_Inr)
    apply (elim exE conjE)
    apply (drule wire_Inr decode_nodes_reads)+
    apply (auto simp: reads_request_def)
    done
  done

text \<open>
  C37. A request is read field by field: it is accepted exactly when no field is unreadable, and otherwise
  the answer is the complaint about the first unreadable field, in the order fleet, nodes, environment,
  horizon. An accepted fleet has the request's nodes, in order and under their names; an empty duration
  is an absent one for a node, and the policy's own estimate (zero) for the environment.
\<close>

theorem request_is_read_in_order:
  "case decode r of
     Inl e \<Rightarrow> request_errors r \<noteq> [] \<and> hd (request_errors r) = e
   | Inr x \<Rightarrow> request_errors r = [] \<and> reads_request r x"
proof -
  let ?first = "if wf_ExpireAfter (rq_Fleet r) = '''' then [ExpireAfterRequired]
      else duration_errors ''fleet.expireAfter'' (wf_ExpireAfter (rq_Fleet r))"
  define rest where "rest expireAfter =
     attempt (wire_duration ''fleet.terminationGracePeriod'' (wf_TerminationGracePeriod (rq_Fleet r))) (\<lambda>tgp.
     attempt (decode_nodes 0 (wf_Nodes (rq_Fleet r))) (\<lambda>nodes.
     attempt (wire_duration ''env.provisioning'' (we_Provisioning (rq_Env r))) (\<lambda>prov.
     attempt (wire_duration ''env.drain'' (we_Drain (rq_Env r))) (\<lambda>drain.
     attempt (wire_instant ''options.start'' (wo_Start (rq_Options r))) (\<lambda>start.
     attempt (wire_instant ''options.end'' (wo_End (rq_Options r))) (\<lambda>finish.
       Inr (\<lparr>fl_ExpireAfter = expireAfter, fl_TGP = tgp, fl_Nodes = nodes\<rparr>,
            \<lparr>env_Provisioning = deref prov, env_Drain = deref drain\<rparr>,
            \<lparr>op_Start = start, op_End = finish\<rparr>)))))))" for expireAfter
  define required where "required =
     attempt (wire_duration ''fleet.expireAfter'' (wf_ExpireAfter (rq_Fleet r)))
       (\<lambda>d. case d of None \<Rightarrow> Inl ExpireAfterRequired | Some d \<Rightarrow> Inr d)"
  have eq: "decode r = attempt required rest"
    by (simp add: decode_def required_def rest_def attempt_def split: sum.split option.split)
  have required: "first_error ?first required"
    by (simp add: required_def attempt_def first_error_def duration_errors_def wire_duration_def split: option.split)
  have rest: "first_error
      (duration_errors ''fleet.terminationGracePeriod'' (wf_TerminationGracePeriod (rq_Fleet r))
       @ concat (map (\<lambda>(i, n). node_errors i n) (List.enumerate 0 (wf_Nodes (rq_Fleet r))))
       @ duration_errors ''env.provisioning'' (we_Provisioning (rq_Env r))
       @ duration_errors ''env.drain'' (we_Drain (rq_Env r))
       @ instant_errors ''options.start'' (wo_Start (rq_Options r))
       @ instant_errors ''options.end'' (wo_End (rq_Options r))) (rest d)" for d
    unfolding rest_def
    by (intro first_error_attempt first_error_done first_error_instant first_error_duration first_error_nodes)
  have "first_error (request_errors r) (decode r)"
    unfolding request_errors_def eq by (rule first_error_attempt [OF required rest])
  then show ?thesis using decode_reads [of r] by (cases "decode r") (simp_all add: first_error_def)
qed

section \<open>What a run can still refuse\<close>

lemma accepted_policy:
  assumes "decodePolicy loadLocation unmarshalYAML policyYAML = Inr p"
  shows "Validate loadLocation p = []" "ApplyDefaults p = p"
  using assms
  by (auto simp: decodePolicy_def ToPolicy_def Let_def split: sum.splits if_splits list.splits)

lemma valid_age: "Validate loadLocation p = [] \<Longrightarrow> \<exists>ov. AgeThresholdOverride p = Inr ov"
  by (cases "AgeThresholdOverride p") (simp_all add: Validate_def)

lemma valid_policy_resolves:
  assumes "Validate loadLocation (ApplyDefaults p) = []"
  shows "\<exists>sched res. New loadLocation (p_MaintenanceWindows (ApplyDefaults p)) = Inr sched \<and> sim_Resolve (ApplyDefaults p) sched f = Inr res"
  using valid_windows_build [OF assms] valid_age [OF assms]
  by (auto simp: sim_Resolve_def Let_def split: prod.splits)

text \<open>
  Once a manifest is accepted the policy can no longer fail: the run sees the policy the controller
  would run, defaulted and valid, and the only answers that are not a timeline are a request that is not
  JSON, an unreadable field, a horizon that does not go forward, a negative environment duration and a
  template expireAfter that is not positive.
\<close>

lemma accepted_manifest_fails_only_on_request:
  assumes "decodePolicy loadLocation unmarshalYAML policyYAML = Inr p"
  shows "\<exists>x. simulate loadLocation unmarshalYAML unmarshalJSON text findingText policyYAML requestJSON = Some x
    \<and> (case x of
         Inr resp \<Rightarrow> rs_Error resp = '''' \<and> rs_Result resp \<noteq> None
       | Inl e \<Rightarrow>
           (case unmarshalJSON requestJSON of
              Inl msg \<Rightarrow> e = RequestNotJSON msg
            | Inr req \<Rightarrow>
                (case decode req of
                   Inl e' \<Rightarrow> e = e'
                 | Inr (f, env, opts) \<Rightarrow>
                     e = RunFailed (HorizonInverted (op_End opts) (op_Start opts)) \<and> \<not> op_Start opts < op_End opts
                     \<or> e = RunFailed (EnvNegative (env_Provisioning env) (env_Drain env))
                         \<and> (env_Provisioning env < 0 \<or> env_Drain env < 0)
                     \<or> e = RunFailed (ExpireAfterNotPositive (fl_ExpireAfter f)) \<and> fl_ExpireAfter f \<le> 0)))"
proof -
  note a = accepted_policy [OF assms]
  have run: "Run loadLocation (Some p) f env opts \<noteq> None
      \<and> (\<forall>e. Run loadLocation (Some p) f env opts = Some (Inl e) \<longrightarrow>
           e = HorizonInverted (op_End opts) (op_Start opts) \<and> \<not> op_Start opts < op_End opts
           \<or> e = EnvNegative (env_Provisioning env) (env_Drain env) \<and> (env_Provisioning env < 0 \<or> env_Drain env < 0)
           \<or> e = ExpireAfterNotPositive (fl_ExpireAfter f) \<and> fl_ExpireAfter f \<le> 0)" for f env opts
  proof -
    obtain sched res where r: "New loadLocation (p_MaintenanceWindows p) = Inr sched" "sim_Resolve p sched f = Inr res"
      using valid_policy_resolves [of loadLocation p f] a by auto
    have "\<exists>t. simulate_resolved p sched res f env opts = Some t" if "op_Start opts < op_End opts"
      using sim_loop_total [OF less_imp_le [OF that], of p sched res "env_defaults res env" f] by (auto simp: simulate_resolved_def Let_def)
    then show ?thesis by (auto simp: Run_def a r)
  qed
  show ?thesis
  proof (cases "unmarshalJSON requestJSON")
    case (Inl msg)
    then show ?thesis by (simp add: simulate_def assms)
  next
    case req: (Inr req)
    show ?thesis
    proof (cases "decode req")
      case (Inl e)
      with req show ?thesis by (simp add: simulate_def assms)
    next
      case (Inr x)
      obtain f env opts where x: "x = (f, env, opts)" by (metis prod_cases3)
      from run [of f env opts] req Inr x show ?thesis
        by (auto simp: simulate_def assms toResponse_def split: option.split sum.split)
    qed
  qed
qed

definition demo_manifest :: "unit Manifest" where
  "demo_manifest = \<lparr>mf_APIVersion = policy_version, mf_Kind = policy_kind, mf_Spec = demo_spec ''01:00'' ''05:30''\<rparr>"

definition demo_request :: Request where
  "demo_request =
     \<lparr>rq_Fleet = \<lparr>wf_ExpireAfter = ''480h'', wf_TerminationGracePeriod = ''1h'',
        wf_Nodes = [\<lparr>wn_Name = ''a'', wn_CreatedAt = ''2026-01-01T00:00:00Z'', wn_ExpireAfter = '''', wn_TerminationGracePeriod = ''''\<rparr>]\<rparr>,
      rq_Env = \<lparr>we_Provisioning = '''', we_Drain = ''5m''\<rparr>,
      rq_Options = \<lparr>wo_Start = ''2026-01-05T00:00:00Z'', wo_End = ''2026-02-05T00:00:00Z''\<rparr>\<rparr>"

lemma demo_manifest_accepted: "decodePolicy demo_locations (\<lambda>_. Inr demo_manifest) y = Inr demo_policy"
  using late_policy_valid
  by (simp add: decodePolicy_def demo_manifest_def ToPolicy_def Let_def demo_policy_def demo_spec_def)

lemma demo_request_decodes:
  "decode demo_request = Inr (f, env, opts) \<Longrightarrow> op_Start opts < op_End opts \<and> 0 \<le> env_Provisioning env \<and> 0 \<le> env_Drain env \<and> 0 < fl_ExpireAfter f"
  "\<exists>x. decode demo_request = Inr x"
proof -
  have ok: "case decode demo_request of Inl e \<Rightarrow> False | Inr (f, env, opts) \<Rightarrow>
      op_Start opts < op_End opts \<and> 0 \<le> env_Provisioning env \<and> 0 \<le> env_Drain env \<and> 0 < fl_ExpireAfter f"
    by code_simp
  then show "decode demo_request = Inr (f, env, opts) \<Longrightarrow>
      op_Start opts < op_End opts \<and> 0 \<le> env_Provisioning env \<and> 0 \<le> env_Drain env \<and> 0 < fl_ExpireAfter f" by simp
  from ok show "\<exists>x. decode demo_request = Inr x" by (cases "decode demo_request") (simp, blast)
qed

lemma accepted_manifest_fails_only_on_request_witness:
  "\<exists>resp. simulate demo_locations (\<lambda>_. Inr demo_manifest) (\<lambda>_. Inr demo_request) (\<lambda>_. ''d'') (\<lambda>_. ''f'') ''y'' ''j'' = Some (Inr resp)
     \<and> rs_Error resp = '''' \<and> rs_Result resp \<noteq> None"
proof -
  obtain f env opts where d: "decode demo_request = Inr (f, env, opts)" using demo_request_decodes(2) by (metis prod_cases3)
  note t = accepted_manifest_fails_only_on_request [OF demo_manifest_accepted, of "\<lambda>_. Inr demo_request" "\<lambda>_. ''d''" "\<lambda>_. ''f''" "''y''" "''j''"]
  then obtain x where x: "simulate demo_locations (\<lambda>_. Inr demo_manifest) (\<lambda>_. Inr demo_request) (\<lambda>_. ''d'') (\<lambda>_. ''f'') ''y'' ''j'' = Some x" by blast
  with t demo_request_decodes(1) [OF d] show ?thesis by (cases x) (auto simp: d)
qed

section \<open>What the page reads\<close>

text \<open>
  The page (\<open>docs/.vitepress/theme/components/simulator/model.ts\<close>) declares the response it reads as
  TypeScript interfaces. What follows is that reader: a field is found under the name the interface gives
  it, and an optional one that is absent is \<open>undefined\<close>, that is, no number, no text, no flag, no list.
\<close>

definition get :: "Json \<Rightarrow> string \<Rightarrow> Json option" where
  "get j k = (case j of JObject fs \<Rightarrow> map_of fs k | _ \<Rightarrow> None)"

definition num :: "Json \<Rightarrow> string \<Rightarrow> int option" where
  "num j k = (case get j k of Some (JInt i) \<Rightarrow> Some i | _ \<Rightarrow> None)"

definition str :: "Json \<Rightarrow> string \<Rightarrow> string option" where
  "str j k = (case get j k of Some (JString s) \<Rightarrow> Some s | _ \<Rightarrow> None)"

definition flag :: "Json \<Rightarrow> string \<Rightarrow> bool" where
  "flag j k = (get j k = Some (JBool True))"

definition items :: "Json \<Rightarrow> string \<Rightarrow> Json list" where
  "items j k = (case get j k of Some (JArray js) \<Rightarrow> js | _ \<Rightarrow> [])"

text \<open>An optional name, and an optional instant: absent is the empty name, and the zero instant.\<close>

definition name_at :: "Json \<Rightarrow> string \<Rightarrow> string \<Rightarrow> bool" where
  "name_at j k s \<longleftrightarrow> str j k = (if s = '''' then None else Some s)"

definition instant_at :: "Json \<Rightarrow> string \<Rightarrow> time \<Rightarrow> bool" where
  "instant_at j k t \<longleftrightarrow> str j k = (if t = 0 then None else Some (rfc3339 t))"

lemma get_JObject: "get (JObject fs) k = map_of (fs @ []) k"
  by (simp add: get_def)

lemma map_of_fields:
  "map_of (always k v @ rest) j = (if j = k then Some v else map_of rest j)"
  "map_of (nonempty k s @ rest) j = (if j = k \<and> s \<noteq> '''' then Some (JString s) else map_of rest j)"
  "map_of (flagged k b @ rest) j = (if j = k \<and> b then Some (JBool True) else map_of rest j)"
  "map_of (present k f x @ rest) j = (if j = k \<and> x \<noteq> None then Some (f (the x)) else map_of rest j)"
  "map_of (listed k f xs @ rest) j = (if j = k \<and> xs \<noteq> [] then Some (JArray (map f xs)) else map_of rest j)"
  by (auto simp: always_def nonempty_def flagged_def present_def listed_def split: option.splits)

lemmas json_get = get_JObject append_assoc map_of_fields num_def str_def flag_def items_def name_at_def instant_at_def

section \<open>The timeline on the page\<close>

definition shows_finding :: "Json \<Rightarrow> Severity \<Rightarrow> string \<Rightarrow> string \<Rightarrow> bool" where
  "shows_finding j severity code message \<longleftrightarrow>
     str j ''severity'' = Some (case severity of Fatal \<Rightarrow> ''fatal'' | Warn \<Rightarrow> ''warn'')
     \<and> str j ''code'' = Some code \<and> str j ''message'' = Some message"

definition shows_inputs :: "Json \<Rightarrow> Inputs \<Rightarrow> bool" where
  "shows_inputs j i \<longleftrightarrow>
     str j ''e'' = Some (Duration_String (in_E i)) \<and> str j ''tgp'' = Some (Duration_String (in_TGP i))
     \<and> flag j ''tgpFallback'' = in_TGPWasUnset i \<and> str j ''p'' = Some (Duration_String (in_P i))
     \<and> str j ''windowLen'' = Some (Duration_String (in_WindowLen i)) \<and> str j ''buffer'' = Some (Duration_String Buffer)
     \<and> str j ''readyTimeout'' = Some (Duration_String (in_ReadyTimeout i))
     \<and> str j ''cooldownAfter'' = Some (Duration_String (in_Cooldown i))
     \<and> num j ''k'' = Some (in_K i) \<and> num j ''m'' = Some (in_MaxUnavailable i)
     \<and> flag j ''ageThresholdOverride'' = (in_Override i \<noteq> None)"

definition shows_result :: "(Finding \<Rightarrow> string) \<Rightarrow> Json \<Rightarrow> Result \<Rightarrow> Inputs \<Rightarrow> bool" where
  "shows_result findingText j r i \<longleftrightarrow>
     str j ''ageThreshold'' = Some (Duration_String (r_A r)) \<and> str j ''tRot'' = Some (Duration_String (r_TRot r))
     \<and> str j ''tRotEstimate'' = Some (Duration_String (r_TRotEst r))
     \<and> str j ''drainEstimate'' = Some (Duration_String (r_DrainEstimate r))
     \<and> str j ''provisioningEstimate'' = Some (Duration_String (r_ProvisioningEstimate r))
     \<and> num j ''g'' = Some (r_G r) \<and> num j ''c'' = Some (r_C r)
     \<and> (\<exists>ji. get j ''inputs'' = Some ji \<and> shows_inputs ji i)
     \<and> list_all2 (\<lambda>jf f. shows_finding jf (f_Severity f) (f_Code f) (findingText f)) (items j ''findings'') (r_Findings r)"

fun event_kind :: "Kind \<Rightarrow> string" where
  "event_kind KindWindowOpen = ''window-open''" | "event_kind KindWindowClose = ''window-close''"
| "event_kind KindRotationStart = ''rotation-start''" | "event_kind KindNodeReady = ''node-ready''"
| "event_kind KindRotationDone = ''rotation-done''" | "event_kind KindExpireAfterBreach = ''expire-after-breach''"
| "event_kind KindBlockedByGate = ''blocked-by-gate''" | "event_kind KindNoEligibleClaim = ''no-eligible-claim''"

text \<open>The census is a table of counts.\<close>

definition shows_census :: "Json \<Rightarrow> Census \<Rightarrow> bool" where
  "shows_census j c \<longleftrightarrow>
     map (num j) [''total'', ''eligible'', ''optedOut'', ''deleting'', ''notReady'', ''inFlight'', ''terminal'',
         ''inBackoff'', ''notTriggered''] =
     map (\<lambda>n. Some (int n)) [cs_Total c, cs_Eligible c, cs_OptedOut c, cs_Deleting c, cs_NotReady c, cs_InFlight c,
         cs_Terminal c, cs_InBackoff c, cs_NotTriggered c]"

definition shows_event :: "Json \<Rightarrow> Event \<Rightarrow> bool" where
  "shows_event j e \<longleftrightarrow>
     str j ''kind'' = Some (event_kind (ev_Kind e)) \<and> str j ''at'' = Some (stamp (ev_At e))
     \<and> instant_at j ''until'' (ev_Until e) \<and> name_at j ''node'' (ev_Node e)
     \<and> name_at j ''replacement'' (ev_Replacement e) \<and> flag j ''surgeless'' = ev_Surgeless e
     \<and> name_at j ''gate'' (Gate_String (ev_Gate e))
     \<and> (case ev_Census e of None \<Rightarrow> get j ''census'' = None | Some c \<Rightarrow> \<exists>jc. get j ''census'' = Some jc \<and> shows_census jc c)"

text \<open>\<open>predecessorGen\<close> is absent for an initial node only: 0 is a real predecessor.\<close>

definition shows_generation :: "Json \<Rightarrow> Generation \<Rightarrow> bool" where
  "shows_generation j g \<longleftrightarrow>
     num j ''slot'' = Some (g_Slot g) \<and> num j ''gen'' = Some (g_Gen g) \<and> str j ''name'' = Some (g_Name g)
     \<and> str j ''birthMode'' = Some (case g_BirthMode g of BirthInitial \<Rightarrow> ''initial'' | BirthSurge \<Rightarrow> ''surge''
         | BirthSurgeless \<Rightarrow> ''surgeless'')
     \<and> num j ''predecessorGen'' = g_PredecessorGen g \<and> str j ''createdAt'' = Some (stamp (g_CreatedAt g))
     \<and> str j ''expireAfter'' = Some (Duration_String (g_ExpireAfter g))
     \<and> str j ''drainCap'' = Some (Duration_String (g_DrainCap g))
     \<and> str j ''drainCapSource'' = Some (case g_DrainCapSource g of DrainCapExplicit \<Rightarrow> ''explicit'' | DrainCapFallback \<Rightarrow> ''fallback'')
     \<and> str j ''deadline'' = Some (stamp (g_Deadline g))
     \<and> str j ''eligibilityBoundary'' = Some (stamp (g_EligibilityBoundary g))
     \<and> instant_at j ''readyAt'' (g_ReadyAt g) \<and> flag j ''provisional'' = g_Provisional g"

definition shows_rotation :: "Json \<Rightarrow> RotationRecord \<Rightarrow> bool" where
  "shows_rotation j r \<longleftrightarrow>
     num j ''slot'' = Some (ro_Slot r) \<and> num j ''fromGen'' = Some (ro_FromGen r) \<and> num j ''toGen'' = ro_ToGen r
     \<and> str j ''mode'' = Some (case ro_Mode r of RotationSurge \<Rightarrow> ''surge'' | RotationSurgeless \<Rightarrow> ''surgeless'')
     \<and> str j ''start'' = Some (stamp (ro_Start r)) \<and> instant_at j ''ready'' (ro_Ready r) \<and> instant_at j ''done'' (ro_Done r)"

definition shows_window :: "Json \<Rightarrow> WindowInterval \<Rightarrow> bool" where
  "shows_window j w \<longleftrightarrow>
     str j ''start'' = Some (stamp (wv_Start w)) \<and> str j ''end'' = Some (stamp (wv_End w))
     \<and> flag j ''startClipped'' = wv_StartClipped w \<and> flag j ''endClipped'' = wv_EndClipped w"

definition shows_timeline :: "(DiagMessage \<Rightarrow> string) \<Rightarrow> (Finding \<Rightarrow> string) \<Rightarrow> Json \<Rightarrow> Timeline \<Rightarrow> bool" where
  "shows_timeline text findingText j t \<longleftrightarrow>
     get j ''error'' = None \<and> (\<exists>jr. get j ''result'' = Some jr \<and> shows_result findingText jr (tl_Result t) (tl_Inputs t))
     \<and> list_all2 shows_event (items j ''events'') (tl_Events t)
     \<and> list_all2 shows_generation (items j ''generations'') (tl_Generations t)
     \<and> list_all2 shows_rotation (items j ''rotations'') (tl_Rotations t)
     \<and> list_all2 shows_window (items j ''windows'') (tl_Windows t)
     \<and> list_all2 (\<lambda>jd d. shows_finding jd (dg_Severity d) (dg_Code d) (text (dg_Message d))) (items j ''diagnostics'') (tl_Diagnostics t)
     \<and> flag j ''partial'' = tl_Partial t \<and> instant_at j ''simulatedThrough'' (tl_SimulatedThrough t)"

text \<open>An error and nothing else.\<close>

definition shows_error :: "string \<Rightarrow> Json \<Rightarrow> bool" where
  "shows_error message j \<longleftrightarrow>
     name_at j ''error'' message \<and> get j ''result'' = None \<and> \<not> flag j ''partial'' \<and> str j ''simulatedThrough'' = None
     \<and> (\<forall>k\<in>{''events'', ''generations'', ''rotations'', ''windows'', ''diagnostics''}. items j k = [])"

text \<open>The page follows the relay of a slot from any generation back to the initial one.\<close>

definition follows_relay :: "Json \<Rightarrow> bool" where
  "follows_relay j \<longleftrightarrow>
     (\<forall>a\<in>set (items j ''generations''). \<exists>slot k. num a ''slot'' = Some slot \<and> num a ''gen'' = Some k \<and> 0 \<le> k
        \<and> num a ''predecessorGen'' = (if k = 0 then None else Some (k - 1))
        \<and> (k = 0 \<or> (\<exists>b\<in>set (items j ''generations''). num b ''slot'' = Some slot \<and> num b ''gen'' = Some (k - 1))))"

lemma shown_stamp: "instant_at j k t = name_at j k (stamp t)"
  by (simp add: instant_at_def name_at_def stamp_def IsZero_def rfc3339_nonempty)

lemma finding_shown:
  "shows_finding (finding_json (toFinding findingText f)) (f_Severity f) (f_Code f) (findingText f)"
  "shows_finding (finding_json (toDiagnostic text d)) (dg_Severity d) (dg_Code d) (text (dg_Message d))"
  by (simp_all add: shows_finding_def finding_json_def toFinding_def toDiagnostic_def json_get split: Severity.split
      del: map_of_append append_Nil2)

lemma inputs_shown: "shows_inputs (inputs_json (toInputs i)) i"
  by (simp add: shows_inputs_def inputs_json_def toInputs_def json_get del: map_of_append append_Nil2)

lemma result_shown: "shows_result findingText (result_json (toResult findingText r i)) r i"
  by (simp add: shows_result_def result_json_def toResult_def json_get inputs_shown finding_shown list_all2_conv_all_nth
      del: map_of_append append_Nil2)

lemma census_shown: "shows_census (census_json (toCensus c)) c"
  by (simp add: shows_census_def census_json_def toCensus_def json_get del: map_of_append append_Nil2)

lemma Kind_String_event_kind: "Kind_String k = event_kind k"
  by (cases k) simp_all

lemma event_shown: "shows_event (event_json (toEvent e)) e"
  by (simp add: shows_event_def event_json_def toEvent_def shown_stamp json_get Kind_String_event_kind census_shown
      del: map_of_append append_Nil2 split: option.split)

lemma generation_shown: "shows_generation (generation_json (toGeneration g)) g"
  by (cases "g_BirthMode g"; cases "g_DrainCapSource g"; cases "g_PredecessorGen g")
    (simp_all add: shows_generation_def generation_json_def toGeneration_def shown_stamp json_get del: map_of_append append_Nil2)

lemma rotation_shown: "shows_rotation (rotation_json (toRotation r)) r"
  by (cases "ro_Mode r"; cases "ro_ToGen r")
    (simp_all add: shows_rotation_def rotation_json_def toRotation_def shown_stamp json_get del: map_of_append append_Nil2)

lemma window_shown: "shows_window (window_json (toWindowInterval w)) w"
  by (simp add: shows_window_def window_json_def toWindowInterval_def json_get del: map_of_append append_Nil2)

lemma timeline_shown: "shows_timeline text findingText (response_json (toResponse text findingText t)) t"
  by (simp add: shows_timeline_def response_json_def toResponse_def shown_stamp json_get result_shown event_shown
      generation_shown rotation_shown window_shown finding_shown list_all2_conv_all_nth del: map_of_append append_Nil2)

lemma error_shown: "shows_error message (response_json (no_response\<lparr>rs_Error := message\<rparr>))"
  by (simp add: shows_error_def response_json_def no_response_def json_get del: map_of_append append_Nil2)

lemma shown_pairs:
  "list_all2 P xs ys \<Longrightarrow> x \<in> set xs \<Longrightarrow> \<exists>y\<in>set ys. P x y"
  "list_all2 P xs ys \<Longrightarrow> y \<in> set ys \<Longrightarrow> \<exists>x\<in>set xs. P x y"
  by (induction rule: list_all2_induct) auto

lemma relay_followed:
  assumes "relayed f t" "shows_timeline text findingText j t"
  shows "follows_relay j"
  unfolding follows_relay_def
proof
  let ?gs = "tl_Generations t"
  from assms(2) have all: "list_all2 shows_generation (items j ''generations'') ?gs" by (simp add: shows_timeline_def)
  fix a assume "a \<in> set (items j ''generations'')"
  with shown_pairs(1) [OF all] obtain g where g: "g \<in> set ?gs" "shows_generation a g" by blast
  from assms(1) g(1) have b: "birth_ok f g" by (simp add: relayed_def)
  from assms(1) obtain m where m: "gens_of ?gs (g_Slot g) = [0..m]" unfolding relayed_def by blast
  have mem: "g_Gen g \<in> set (gens_of ?gs (g_Slot g))" using g(1) by (auto simp: gens_of_def)
  have "\<exists>b\<in>set (items j ''generations''). num b ''slot'' = Some (g_Slot g) \<and> num b ''gen'' = Some (g_Gen g - 1)" if "g_Gen g \<noteq> 0"
  proof -
    from mem m that have "g_Gen g - 1 \<in> set (gens_of ?gs (g_Slot g))" by auto
    then obtain h where h: "h \<in> set ?gs" "g_Slot h = g_Slot g" "g_Gen h = g_Gen g - 1" by (auto simp: gens_of_def)
    with shown_pairs(2) [OF all] obtain b where "b \<in> set (items j ''generations'')" "shows_generation b h" by blast
    with h show ?thesis by (auto simp: shows_generation_def)
  qed
  with g(2) b mem m show "\<exists>slot k. num a ''slot'' = Some slot \<and> num a ''gen'' = Some k \<and> 0 \<le> k
        \<and> num a ''predecessorGen'' = (if k = 0 then None else Some (k - 1))
        \<and> (k = 0 \<or> (\<exists>b\<in>set (items j ''generations''). num b ''slot'' = Some slot \<and> num b ''gen'' = Some (k - 1)))"
    by (auto simp: shows_generation_def birth_ok_def)
qed

text \<open>
  C38. The page reads what the simulator found. Every call is answered. What cannot be run is answered by
  an error and nothing else. Otherwise the answer, read under the names and with the optional fields that
  the page declares, is the timeline of the run: its result, events, generations, rotations, windows and
  diagnostics, in the same number and order and field for field; a flag, a name or an instant is
  absent exactly if it is false, empty or zero, and a number is absent only if there is none. In
  particular the page can follow the relay of each slot: a generation names its predecessor, 0
  included, unless it is an initial one, and the predecessor is in the answer too.
\<close>

theorem page_reads_the_timeline:
  "\<exists>j. Simulate loadLocation unmarshalYAML unmarshalJSON text findingText errorText policyYAML requestJSON = Some j
     \<and> (case decodePolicy loadLocation unmarshalYAML policyYAML of
          Inl e \<Rightarrow> shows_error (errorText e) j
        | Inr pol \<Rightarrow>
            (case unmarshalJSON requestJSON of
               Inl e \<Rightarrow> shows_error (errorText (RequestNotJSON e)) j
             | Inr req \<Rightarrow>
                 (case decode req of
                    Inl e \<Rightarrow> shows_error (errorText e) j
                  | Inr (fleet, env, opts) \<Rightarrow>
                      (case Run loadLocation (Some pol) fleet env opts of
                         Some (Inl e) \<Rightarrow> shows_error (errorText (RunFailed e)) j
                       | Some (Inr t) \<Rightarrow> shows_timeline text findingText j t \<and> follows_relay j
                       | None \<Rightarrow> False))))"
proof -
  have follows: "follows_relay (response_json (toResponse text findingText t))"
    if "Run loadLocation p f env opts = Some (Inr t)" for p f env opts t
    by (rule relay_followed [OF run_relayed [OF that] timeline_shown])
  show ?thesis
  proof (cases "decodePolicy loadLocation unmarshalYAML policyYAML")
    case pol: (Inr pol)
    show ?thesis
    proof (cases "unmarshalJSON requestJSON")
      case req: (Inr req)
      show ?thesis
      proof (cases "decode req")
        case dec: (Inr x)
        obtain fleet env opts where x: "x = (fleet, env, opts)" by (cases x)
        obtain y where y: "Run loadLocation (Some pol) fleet env opts = Some y"
          using Run_total [of loadLocation "Some pol" fleet env opts] by blast
        with pol req dec x show ?thesis
          by (cases y) (simp_all add: Simulate_def simulate_def error_shown timeline_shown follows)
      qed (simp add: Simulate_def simulate_def error_shown pol req)
    qed (simp add: Simulate_def simulate_def error_shown pol)
  qed (simp add: Simulate_def simulate_def error_shown)
qed

end
