(* ===== verification/Preflight.thy ===== *)
theory Preflight
  imports Main
begin

text \<open>
  The startup check (\<open>internal/preflight\<close>): the cluster must serve the Karpenter v1 API with both
  resources, and the controller must be able to list both. Discovery and the two probing lists are
  library calls, so their answers are parameters: \<open>disco\<close> gives the resource names served under a
  group and version, or an error, and \<open>list\<close> whether a list of a kind succeeded.
\<close>

definition KarpenterGroupVersion :: string where "KarpenterGroupVersion = ''karpenter.sh/v1''"
definition requiredResources :: "string list" where "requiredResources = [''nodeclaims'', ''nodepools'']"

datatype PreflightError =
    APINotServed string
  | ResourceNotServed string
  | CannotList string string

fun first_missing :: "string set \<Rightarrow> string list \<Rightarrow> string option" where
  "first_missing served [] = None"
| "first_missing served (name # names) = (if name \<notin> served then Some name else first_missing served names)"

definition checkAPISurface :: "(string \<Rightarrow> string + string list) \<Rightarrow> PreflightError option" where
  "checkAPISurface disco =
     (case disco KarpenterGroupVersion of
        Inl e \<Rightarrow> Some (APINotServed e)
      | Inr names \<Rightarrow> map_option ResourceNotServed (first_missing (set names) requiredResources))"

definition checkAccess :: "(string \<Rightarrow> string option) \<Rightarrow> PreflightError option" where
  "checkAccess list =
     (case list ''NodePools'' of
        Some e \<Rightarrow> Some (CannotList ''NodePools'' e)
      | None \<Rightarrow> (case list ''NodeClaims'' of Some e \<Rightarrow> Some (CannotList ''NodeClaims'' e) | None \<Rightarrow> None))"

definition Check :: "(string \<Rightarrow> string + string list) \<Rightarrow> (string \<Rightarrow> string option) \<Rightarrow> PreflightError option" where
  "Check disco list = (case checkAPISurface disco of Some e \<Rightarrow> Some e | None \<Rightarrow> checkAccess list)"

text \<open>The controller starts exactly when both resources are served and can be listed.\<close>

lemma check_passes_iff:
  "Check disco list = None \<longleftrightarrow>
     (\<exists>names. disco KarpenterGroupVersion = Inr names \<and> {''nodeclaims'', ''nodepools''} \<subseteq> set names)
     \<and> list ''NodePools'' = None \<and> list ''NodeClaims'' = None"
  by (auto simp: Check_def checkAPISurface_def checkAccess_def requiredResources_def split: option.splits sum.splits if_splits)

text \<open>A surface that is not served is what the operator reads, whatever the access.\<close>

lemma surface_before_access: "checkAPISurface disco = Some e \<Longrightarrow> Check disco list = Some e"
  by (simp add: Check_def)

end
