(* ===== verification/Startup.thy ===== *)
theory Startup
  imports Preflight Safety "HOL-Library.Sublist"
begin

text \<open>
  The process (\<open>cmd/main.go\<close>, \<open>internal/scheme\<close>, \<open>groupversion_info.go\<close>): the command line, the steps
  before the manager starts, each of which ends the process when it fails, and the requests it then
  serves. The \<open>flag\<close> package is the standard library's. What the machinery answers to each step is a
  parameter (\<open>World\<close>); the flags its packages register (\<open>kubeconfig\<close>, the logger's) are a map from the
  name to whether the flag is boolean and which texts it accepts.
\<close>

section \<open>The command line\<close>

record Settings =
  op_MetricsAddr :: string
  op_ProbeAddr :: string
  op_LeaderElection :: bool
  op_Namespace :: string
  op_PlaceholderImage :: string
  op_PriorityClassName :: string

definition default_settings :: Settings where
  "default_settings =
     \<lparr>op_MetricsAddr = '':8080'', op_ProbeAddr = '':8081'', op_LeaderElection = False,
      op_Namespace = ''node-rotation-system'', op_PlaceholderImage = ''registry.k8s.io/pause:3.10'',
      op_PriorityClassName = ''noderotation-placeholder''\<rparr>"

definition ParseBool :: "string \<Rightarrow> bool option" where
  "ParseBool s =
     (if s \<in> {''1'', ''t'', ''T'', ''true'', ''TRUE'', ''True''} then Some True
      else if s \<in> {''0'', ''f'', ''F'', ''false'', ''FALSE'', ''False''} then Some False
      else None)"

type_synonym LibFlags = "string \<rightharpoonup> bool \<times> (string \<Rightarrow> bool)"

definition stringFlags :: "(string \<times> (string \<Rightarrow> Settings \<Rightarrow> Settings)) list" where
  "stringFlags =
     [(''metrics-bind-address'', \<lambda>v st. st\<lparr>op_MetricsAddr := v\<rparr>),
      (''health-probe-bind-address'', \<lambda>v st. st\<lparr>op_ProbeAddr := v\<rparr>),
      (''namespace'', \<lambda>v st. st\<lparr>op_Namespace := v\<rparr>),
      (''placeholder-image'', \<lambda>v st. st\<lparr>op_PlaceholderImage := v\<rparr>),
      (''priority-class'', \<lambda>v st. st\<lparr>op_PriorityClassName := v\<rparr>)]"

definition leaderElect :: string where "leaderElect = ''leader-elect''"

text \<open>Whether a flag is defined, and whether it is boolean.\<close>

definition formal :: "LibFlags \<Rightarrow> string \<Rightarrow> bool option" where
  "formal lib name =
     (if map_of stringFlags name \<noteq> None then Some False
      else if name = leaderElect then Some True
      else map_option fst (lib name))"

text \<open>\<open>Value.Set\<close>: \<open>None\<close> is a text the flag does not accept.\<close>

definition setFlag :: "LibFlags \<Rightarrow> string \<Rightarrow> string \<Rightarrow> Settings \<Rightarrow> Settings option" where
  "setFlag lib name v st =
     (case map_of stringFlags name of
        Some put \<Rightarrow> Some (put v st)
      | None \<Rightarrow>
          if name = leaderElect then map_option (\<lambda>b. st\<lparr>op_LeaderElection := b\<rparr>) (ParseBool v)
          else case lib name of Some (_, accepts) \<Rightarrow> (if accepts v then Some st else None) | None \<Rightarrow> None)"

text \<open>\<open>-name\<close>, \<open>--name\<close>, each with an optional \<open>=value\<close>; an equals sign cannot come first.\<close>

definition splitFlag :: "string \<Rightarrow> string \<times> string option" where
  "splitFlag s =
     (let n = takeWhile (\<lambda>c. c \<noteq> CHR ''='') s
      in (n, if n = s then None else Some (drop (Suc (length n)) s)))"

text \<open>\<open>FlagSet.Parse\<close> with \<open>ExitOnError\<close>: the settings, or the exit code. Parsing stops at the first
  argument that is not a flag.\<close>

fun parseFlags :: "LibFlags \<Rightarrow> string list \<Rightarrow> Settings \<Rightarrow> nat + Settings" where
  "parseFlags lib [] st = Inr st"
| "parseFlags lib (s # args) st =
     (if length s < 2 \<or> hd s \<noteq> CHR ''-'' \<or> s = ''--'' then Inr st
      else let name = (if s ! 1 = CHR ''-'' then drop 2 s else drop 1 s)
        in if name = '''' \<or> hd name \<in> {CHR ''-'', CHR ''=''} then Inl 2
        else let (n, given) = splitFlag name
          in case formal lib n of
               None \<Rightarrow> Inl (if n = ''help'' \<or> n = ''h'' then 0 else 2)
             | Some True \<Rightarrow>
                 (case setFlag lib n (case given of None \<Rightarrow> ''true'' | Some v \<Rightarrow> v) st of
                    None \<Rightarrow> Inl 2 | Some st' \<Rightarrow> parseFlags lib args st')
             | Some False \<Rightarrow>
                 (case given of
                    Some v \<Rightarrow> (case setFlag lib n v st of None \<Rightarrow> Inl 2 | Some st' \<Rightarrow> parseFlags lib args st')
                  | None \<Rightarrow>
                      (case args of
                         [] \<Rightarrow> Inl 2
                       | v # rest \<Rightarrow> (case setFlag lib n v st of None \<Rightarrow> Inl 2 | Some st' \<Rightarrow> parseFlags lib rest st'))))"

section \<open>The scheme\<close>

text \<open>What is registered, in order: the types of a library package, or the named types of a group and version.\<close>

datatype Registration =
    CoreTypes
  | KnownTypes "string \<times> string" "string list"
  | MetaTypes "string \<times> string"

definition GroupVersion :: "string \<times> string" where "GroupVersion = (''noderotation.io'', ''v1alpha1'')"

definition addKnownTypes :: "Registration list" where
  "addKnownTypes = [KnownTypes GroupVersion [''RotationPolicy'', ''RotationPolicyList''], MetaTypes GroupVersion]"

definition scheme_New :: "string \<Rightarrow> Registration list" where
  "scheme_New karpGroup =
     CoreTypes # addKnownTypes @
     [KnownTypes (karpGroup, ''v1'') [''NodeClaim'', ''NodeClaimList'', ''NodePool'', ''NodePoolList''],
      MetaTypes (karpGroup, ''v1'')]"

section \<open>The steps of main\<close>

record 'cfg RestConfig =
  cf_Timeout :: duration
  cf_Rest :: 'cfg

record ManagerOptions =
  mo_Scheme :: "Registration list"
  mo_MetricsAddr :: string
  mo_ProbeAddr :: string
  mo_LeaderElection :: bool
  mo_LeaderElectionID :: string
  mo_ReleaseOnCancel :: bool

definition preflightTimeout :: duration where "preflightTimeout = 30 * Second"

datatype 'cfg Step =
    SetLogger
  | NewManager "'cfg RestConfig" ManagerOptions
  | NewDiscoveryClient "'cfg RestConfig"
  | NewClient "'cfg RestConfig" "Registration list"
  | CheckPreflight duration
  | NewRecorder
  | SetupRotation string string string
  | SetupStatus
  | AddHealthzCheck
  | AddReadyzCheck
  | LogInfo string
  | StartManager
  | LogError string

record 'cfg World =
  wo_Args :: "string list"
  wo_LibFlags :: LibFlags
  wo_KarpenterGroup :: string
  wo_Config :: "string + 'cfg RestConfig"
  wo_NewManager :: "'cfg RestConfig \<Rightarrow> ManagerOptions \<Rightarrow> bool"
  wo_NewDiscovery :: "'cfg RestConfig \<Rightarrow> bool"
  wo_NewClient :: "'cfg RestConfig \<Rightarrow> bool"
  wo_Discovery :: "'cfg RestConfig \<Rightarrow> string \<Rightarrow> string + string list"
  wo_List :: "'cfg RestConfig \<Rightarrow> string \<Rightarrow> string option"
  wo_SetupRotation :: bool
  wo_SetupStatus :: bool
  wo_AddHealthz :: bool
  wo_AddReadyz :: bool
  wo_Start :: bool

text \<open>A process is the steps it took and its exit code.\<close>

type_synonym 'cfg process = "'cfg Step list \<times> nat"

definition step :: "'cfg Step \<Rightarrow> 'cfg process \<Rightarrow> 'cfg process" where
  "step s p = (s # fst p, snd p)"

text \<open>\<open>if err != nil { setupLog.Error(err, ...); os.Exit(1) }\<close>.\<close>

definition orExit :: "'cfg Step \<Rightarrow> bool \<Rightarrow> string \<Rightarrow> 'cfg process \<Rightarrow> 'cfg process" where
  "orExit s ok msg p = step s (if ok then p else ([LogError msg], 1))"

definition managerOptions :: "string \<Rightarrow> Settings \<Rightarrow> ManagerOptions" where
  "managerOptions karpGroup st =
     \<lparr>mo_Scheme = scheme_New karpGroup, mo_MetricsAddr = op_MetricsAddr st, mo_ProbeAddr = op_ProbeAddr st,
      mo_LeaderElection = op_LeaderElection st,
      mo_LeaderElectionID = ''node-rotation-controller.noderotation.io'', mo_ReleaseOnCancel = True\<rparr>"

definition mainWith :: "'cfg World \<Rightarrow> Settings \<Rightarrow> 'cfg RestConfig \<Rightarrow> 'cfg process" where
  "mainWith w st cfg =
     (let options = managerOptions (wo_KarpenterGroup w) st;
          preflightCfg = cfg\<lparr>cf_Timeout := preflightTimeout\<rparr>
      in orExit (NewManager cfg options) (wo_NewManager w cfg options) ''unable to start manager''
        (orExit (NewDiscoveryClient preflightCfg) (wo_NewDiscovery w preflightCfg)
           ''unable to build discovery client for the Karpenter API preflight''
        (orExit (NewClient preflightCfg (scheme_New (wo_KarpenterGroup w))) (wo_NewClient w preflightCfg)
           ''unable to build client for the Karpenter API preflight''
        (orExit (CheckPreflight preflightTimeout)
           (Check (wo_Discovery w preflightCfg) (wo_List w preflightCfg) = None)
           ''Karpenter v1 API preflight failed''
        (step NewRecorder
        (orExit (SetupRotation (op_Namespace st) (op_PlaceholderImage st) (op_PriorityClassName st))
           (wo_SetupRotation w) ''unable to create controller''
        (orExit SetupStatus (wo_SetupStatus w) ''unable to set up RotationPolicy status reconciler''
        (orExit AddHealthzCheck (wo_AddHealthz w) ''unable to set up health check''
        (orExit AddReadyzCheck (wo_AddReadyz w) ''unable to set up ready check''
        (step (LogInfo ''starting manager'')
        (orExit StartManager (wo_Start w) ''problem running manager'' ([], 0))))))))))))"

text \<open>\<open>ctrl.GetConfigOrDie\<close> logs and exits itself.\<close>

definition main :: "'cfg World \<Rightarrow> 'cfg process" where
  "main w =
     (case parseFlags (wo_LibFlags w) (wo_Args w) default_settings of
        Inl code \<Rightarrow> ([], code)
      | Inr st \<Rightarrow> step SetLogger
          (case wo_Config w of
             Inl e \<Rightarrow> ([LogError ''unable to get kubeconfig''], 1)
           | Inr cfg \<Rightarrow> mainWith w st cfg))"

section \<open>Parsing what was rendered\<close>

text \<open>The settings as arguments: one or two dashes, the values of the text flags joined or apart.\<close>

definition render :: "bool \<Rightarrow> bool \<Rightarrow> string \<Rightarrow> string \<Rightarrow> string list" where
  "render two apart name v =
     (let flag = (if two then ''--'' else ''-'') @ name
      in if apart then [flag, v] else [flag @ CHR ''='' # v])"

definition renderSettings :: "bool \<Rightarrow> bool \<Rightarrow> Settings \<Rightarrow> string list" where
  "renderSettings two apart st =
     render two apart ''metrics-bind-address'' (op_MetricsAddr st)
     @ render two apart ''health-probe-bind-address'' (op_ProbeAddr st)
     @ render two False leaderElect (if op_LeaderElection st then ''true'' else ''false'')
     @ render two apart ''namespace'' (op_Namespace st)
     @ render two apart ''placeholder-image'' (op_PlaceholderImage st)
     @ render two apart ''priority-class'' (op_PriorityClassName st)"

definition flagName :: "string \<Rightarrow> bool" where
  "flagName n \<longleftrightarrow> n \<noteq> '''' \<and> hd n \<noteq> CHR ''-'' \<and> CHR ''='' \<notin> set n"

lemma splitFlag_name: "CHR ''='' \<notin> set n \<Longrightarrow> splitFlag n = (n, None)"
  by (induction n) (auto simp: splitFlag_def Let_def)

lemma splitFlag_value: "CHR ''='' \<notin> set n \<Longrightarrow> splitFlag (n @ CHR ''='' # v) = (n, Some v)"
proof -
  assume "CHR ''='' \<notin> set n"
  then have "takeWhile (\<lambda>c. c \<noteq> CHR ''='') (n @ CHR ''='' # v) = n" by (induction n) auto
  then show ?thesis by (simp add: splitFlag_def Let_def)
qed

text \<open>One argument, once the name is read from behind its dashes.\<close>

lemma parse_value:
  assumes "\<not> (length s < 2 \<or> hd s \<noteq> CHR ''-'' \<or> s = ''--'')"
    and "(if s ! 1 = CHR ''-'' then drop 2 s else drop 1 s) = name" "\<not> (name = '''' \<or> hd name \<in> {CHR ''-'', CHR ''=''})"
    and "splitFlag name = (n, Some v)" "formal lib n = Some b"
  shows "parseFlags lib (s # args) st = (case setFlag lib n v st of None \<Rightarrow> Inl 2 | Some st' \<Rightarrow> parseFlags lib args st')"
  unfolding parseFlags.simps if_not_P [OF assms(1)] Let_def assms(2) if_not_P [OF assms(3)] assms(4)
  using assms(5) by (cases b) simp_all

lemma parse_next:
  assumes "\<not> (length s < 2 \<or> hd s \<noteq> CHR ''-'' \<or> s = ''--'')"
    and "(if s ! 1 = CHR ''-'' then drop 2 s else drop 1 s) = name" "\<not> (name = '''' \<or> hd name \<in> {CHR ''-'', CHR ''=''})"
    and "splitFlag name = (n, None)" "formal lib n = Some False"
  shows "parseFlags lib (s # v # args) st = (case setFlag lib n v st of None \<Rightarrow> Inl 2 | Some st' \<Rightarrow> parseFlags lib args st')"
  unfolding parseFlags.simps if_not_P [OF assms(1)] Let_def assms(2) if_not_P [OF assms(3)] assms(4)
  using assms(5) by simp

lemma dashed:
  assumes "flagName n" "s = (if two then ''--'' else ''-'') @ n @ v"
  shows "\<not> (length s < 2 \<or> hd s \<noteq> CHR ''-'' \<or> s = ''--'')"
    and "(if s ! 1 = CHR ''-'' then drop 2 s else drop 1 s) = n @ v"
    and "\<not> (n @ v = '''' \<or> hd (n @ v) \<in> {CHR ''-'', CHR ''=''})"
  using assms by (cases n; auto simp: flagName_def)+

lemma parse_joined:
  assumes n: "flagName n" and b: "formal lib n = Some b"
  shows "parseFlags lib (render two False n v @ args) st =
    (case setFlag lib n v st of None \<Rightarrow> Inl 2 | Some st' \<Rightarrow> parseFlags lib args st')"
proof -
  have "CHR ''='' \<notin> set n" using n by (simp add: flagName_def)
  note split = splitFlag_value [OF this, of v]
  have "render two False n v @ args = ((if two then ''--'' else ''-'') @ n @ CHR ''='' # v) # args"
    by (simp add: render_def)
  then show ?thesis using parse_value [OF dashed [OF n refl] split b] by simp
qed

lemma parse_apart:
  assumes n: "flagName n" and b: "formal lib n = Some False"
  shows "parseFlags lib (render two True n v @ args) st =
    (case setFlag lib n v st of None \<Rightarrow> Inl 2 | Some st' \<Rightarrow> parseFlags lib args st')"
proof -
  have "CHR ''='' \<notin> set n" using n by (simp add: flagName_def)
  then have split: "splitFlag (n @ []) = (n, None)" by (simp add: splitFlag_name)
  have "render two True n v @ args = ((if two then ''--'' else ''-'') @ n @ []) # v # args"
    by (simp add: render_def)
  then show ?thesis using parse_next [OF dashed [OF n refl] split b] by simp
qed

lemma parse_string:
  assumes "map_of stringFlags n = Some put" "flagName n"
  shows "parseFlags lib (render two apart n v @ args) st = parseFlags lib args (put v st)"
proof -
  have "formal lib n = Some False" "setFlag lib n v st = Some (put v st)"
    using assms(1) by (simp_all add: formal_def setFlag_def)
  with parse_joined [OF assms(2)] parse_apart [OF assms(2)] show ?thesis by (cases apart) simp_all
qed

lemma parse_leaderElect:
  "parseFlags lib (render two False leaderElect (if b then ''true'' else ''false'') @ args) st =
     parseFlags lib args (st\<lparr>op_LeaderElection := b\<rparr>)"
proof -
  have "flagName leaderElect" "formal lib leaderElect = Some True"
    "setFlag lib leaderElect (if b then ''true'' else ''false'') st = Some (st\<lparr>op_LeaderElection := b\<rparr>)"
    by (cases b; simp add: flagName_def leaderElect_def formal_def setFlag_def stringFlags_def ParseBool_def)+
  with parse_joined [of leaderElect lib True two "if b then ''true'' else ''false''" args st]
  show ?thesis by (simp only: option.case)
qed

text \<open>So any settings can be given on the command line, in either form, whatever the defaults.\<close>

lemma flags_roundtrip: "parseFlags lib (renderSettings two apart st) st0 = Inr st"
  unfolding renderSettings_def append_assoc
  using parse_string [of "''priority-class''" _ lib two apart _ "[]"]
  by (simp add: parse_string parse_leaderElect stringFlags_def flagName_def)

section \<open>Failing fast\<close>

text \<open>The whole way to a running manager.\<close>

definition schedule_steps :: "string \<Rightarrow> Settings \<Rightarrow> 'cfg RestConfig \<Rightarrow> 'cfg Step list" where
  "schedule_steps karpGroup st cfg =
     (let preflightCfg = cfg\<lparr>cf_Timeout := preflightTimeout\<rparr>
      in [SetLogger, NewManager cfg (managerOptions karpGroup st), NewDiscoveryClient preflightCfg,
          NewClient preflightCfg (scheme_New karpGroup), CheckPreflight preflightTimeout, NewRecorder,
          SetupRotation (op_Namespace st) (op_PlaceholderImage st) (op_PriorityClassName st), SetupStatus,
          AddHealthzCheck, AddReadyzCheck, LogInfo ''starting manager'', StartManager])"

text \<open>
  What must hold for a manager to start: the command line parses, there is a configuration, every step
  succeeds, and the cluster serves both Karpenter resources and lets them be listed, asked with requests
  that are bounded in time.
\<close>

definition served_surface :: "'cfg World \<Rightarrow> 'cfg RestConfig \<Rightarrow> bool" where
  "served_surface w cfg \<longleftrightarrow>
     (\<exists>names. wo_Discovery w cfg KarpenterGroupVersion = Inr names \<and> {''nodeclaims'', ''nodepools''} \<subseteq> set names)
     \<and> wo_List w cfg ''NodePools'' = None \<and> wo_List w cfg ''NodeClaims'' = None"

definition admits :: "'cfg World \<Rightarrow> Settings \<Rightarrow> 'cfg RestConfig \<Rightarrow> bool" where
  "admits w st cfg \<longleftrightarrow>
     (let bounded = cfg\<lparr>cf_Timeout := 30 * Second\<rparr>
      in parseFlags (wo_LibFlags w) (wo_Args w) default_settings = Inr st \<and> wo_Config w = Inr cfg
         \<and> wo_NewManager w cfg (managerOptions (wo_KarpenterGroup w) st)
         \<and> wo_NewDiscovery w bounded \<and> wo_NewClient w bounded \<and> served_surface w bounded
         \<and> wo_SetupRotation w \<and> wo_SetupStatus w \<and> wo_AddHealthz w \<and> wo_AddReadyz w)"

definition is_error :: "'cfg Step \<Rightarrow> bool" where
  "is_error s \<longleftrightarrow> (\<exists>m. s = LogError m)"

lemma is_error_simps [simp]:
  "is_error (LogError m)" "\<not> is_error SetLogger" "\<not> is_error (NewManager cfg opts)" "\<not> is_error (NewDiscoveryClient cfg)"
  "\<not> is_error (NewClient cfg sch)" "\<not> is_error (CheckPreflight d)" "\<not> is_error NewRecorder"
  "\<not> is_error (SetupRotation a b c)" "\<not> is_error SetupStatus" "\<not> is_error AddHealthzCheck"
  "\<not> is_error AddReadyzCheck" "\<not> is_error (LogInfo m)" "\<not> is_error StartManager"
  by (simp_all add: is_error_def)

lemma preflight_passes: "Check (wo_Discovery w cfg) (wo_List w cfg) = None \<longleftrightarrow> served_surface w cfg"
  by (simp add: check_passes_iff served_surface_def)

text \<open>What one step adds to the rest.\<close>

lemma orExit_simps:
  "StartManager \<in> set (fst (orExit s ok m p)) \<longleftrightarrow> s = StartManager \<or> ok \<and> StartManager \<in> set (fst p)"
  "StartManager \<in> set (fst (step s p)) \<longleftrightarrow> s = StartManager \<or> StartManager \<in> set (fst p)"
  "snd (orExit s ok m p) = (if ok then snd p else 1)" "snd (step s p) = snd p"
  by (auto simp: orExit_def step_def)

lemma orExit_prefix:
  assumes "\<not> is_error s"
  shows "prefix (filter (\<lambda>s. \<not> is_error s) (fst (orExit s ok m p))) (s # ss) \<longleftrightarrow>
      ok \<longrightarrow> prefix (filter (\<lambda>s. \<not> is_error s) (fst p)) ss"
    and "prefix (filter (\<lambda>s. \<not> is_error s) (fst (step s p))) (s # ss) \<longleftrightarrow>
      prefix (filter (\<lambda>s. \<not> is_error s) (fst p)) ss"
  using assms by (auto simp: orExit_def step_def)

definition counts_error :: "'cfg process \<Rightarrow> bool" where
  "counts_error p \<longleftrightarrow> length (filter is_error (fst p)) = snd p"

lemma orExit_counts:
  assumes "\<not> is_error s"
  shows "counts_error (orExit s ok m p) \<longleftrightarrow> ok \<longrightarrow> counts_error p"
    and "counts_error (step s p) \<longleftrightarrow> counts_error p"
  using assms by (auto simp: counts_error_def orExit_def step_def)

lemmas main_simps = mainWith_def Let_def preflight_passes preflightTimeout_def


lemma mainWith_runs:
  "StartManager \<in> set (fst (mainWith w st cfg)) \<longleftrightarrow>
     wo_NewManager w cfg (managerOptions (wo_KarpenterGroup w) st)
     \<and> wo_NewDiscovery w (cfg\<lparr>cf_Timeout := 30 * Second\<rparr>) \<and> wo_NewClient w (cfg\<lparr>cf_Timeout := 30 * Second\<rparr>)
     \<and> served_surface w (cfg\<lparr>cf_Timeout := 30 * Second\<rparr>)
     \<and> wo_SetupRotation w \<and> wo_SetupStatus w \<and> wo_AddHealthz w \<and> wo_AddReadyz w"
  "snd (mainWith w st cfg) = (if StartManager \<in> set (fst (mainWith w st cfg)) \<and> wo_Start w then 0 else 1)"
  "prefix (filter (\<lambda>s. \<not> is_error s) (SetLogger # fst (mainWith w st cfg))) (schedule_steps (wo_KarpenterGroup w) st cfg)"
  "counts_error (mainWith w st cfg)"
     apply (simp add: main_simps orExit_simps)
    apply (simp add: main_simps orExit_simps)
   apply (simp add: main_simps orExit_prefix schedule_steps_def)
  apply (simp add: main_simps orExit_counts)
  apply (simp add: counts_error_def)
  done

definition manager_runs :: "'cfg World \<Rightarrow> bool" where
  "manager_runs w \<longleftrightarrow> StartManager \<in> set (fst (main w))"

lemma manager_runs_iff: "manager_runs w \<longleftrightarrow> (\<exists>st cfg. admits w st cfg)"
  by (auto simp: manager_runs_def main_def admits_def orExit_simps Let_def mainWith_runs(1) split: sum.split)

lemma parseFlags_exit: "parseFlags lib args st = Inl c \<Longrightarrow> c = 0 \<or> c = 2"
proof (induction lib args st rule: parseFlags.induct)
  case (2 lib s args st)
  let ?name = "if s ! 1 = CHR ''-'' then drop 2 s else drop 1 s"
  show ?case
  proof (cases "length s < 2 \<or> hd s \<noteq> CHR ''-'' \<or> s = ''--''")
    case True
    with 2 show ?thesis by simp
  next
    case flag: False
    show ?thesis
    proof (cases "?name = '''' \<or> hd ?name \<in> {CHR ''-'', CHR ''=''}")
      case True
      with 2(4) show ?thesis unfolding parseFlags.simps if_not_P [OF flag] Let_def if_P [OF True] by simp
    next
      case name: False
      obtain n given where sp: "splitFlag ?name = (n, given)" by fastforce
      note IH = 2(1-3) [OF flag refl name sp [symmetric] refl]
      note eqs = parseFlags.simps if_not_P [OF flag] Let_def if_not_P [OF name] sp prod.case
      show ?thesis using 2(4) IH unfolding eqs
        by (auto split: option.split_asm bool.split_asm list.split_asm if_splits)
    qed
  qed
qed simp

definition fails_fast :: "'cfg World \<Rightarrow> bool" where
  "fails_fast w \<longleftrightarrow>
     (case parseFlags (wo_LibFlags w) (wo_Args w) default_settings of
        Inl code \<Rightarrow> main w = ([], code) \<and> code \<in> {0, 2}
      | Inr st \<Rightarrow>
          (case wo_Config w of
             Inl _ \<Rightarrow> \<not> manager_runs w
           | Inr cfg \<Rightarrow> prefix (filter (\<lambda>s. \<not> is_error s) (fst (main w))) (schedule_steps (wo_KarpenterGroup w) st cfg))
          \<and> snd (main w) = length (filter is_error (fst (main w)))
          \<and> snd (main w) = (if manager_runs w \<and> wo_Start w then 0 else 1))"

text \<open>
  C39. The process fails fast. The manager starts exactly when the command line, the configuration,
  every step before it and the preflight of the Karpenter API succeed, the preflight being asked with
  requests bounded to 30 seconds. Otherwise the steps taken are a beginning of the schedule, in its
  order; at most one error is logged, and one exactly when the exit code is 1; and the process exits
  with 0 only when help was asked for or the manager ran and returned without an error.
\<close>

theorem startup_fails_fast: "(manager_runs w \<longleftrightarrow> (\<exists>st cfg. admits w st cfg)) \<and> fails_fast w"
proof
  show "manager_runs w \<longleftrightarrow> (\<exists>st cfg. admits w st cfg)" by (rule manager_runs_iff)
  show "fails_fast w"
  proof (cases "parseFlags (wo_LibFlags w) (wo_Args w) default_settings")
    case (Inl c)
    with parseFlags_exit [OF Inl] show ?thesis by (auto simp: fails_fast_def main_def)
  next
    case (Inr st)
    show ?thesis
    proof (cases "wo_Config w")
      case (Inl e)
      with Inr show ?thesis by (simp add: fails_fast_def main_def manager_runs_def step_def)
    next
      case (Inr cfg)
      with \<open>parseFlags _ _ _ = Inr st\<close> mainWith_runs(2-4) [of w st cfg] show ?thesis
        by (simp add: fails_fast_def main_def manager_runs_def step_def counts_error_def)
    qed
  qed
qed

section \<open>The requests of a process\<close>

text \<open>
  The reconciler is the one the command line configures. The manager hands it one request after the
  other; the first one to be handled runs the startup sweep.
\<close>

definition configured :: "Settings \<Rightarrow> Reconciler \<Rightarrow> Reconciler" where
  "configured st r = r\<lparr>rc_Namespace := op_Namespace st, rc_PlaceholderImage := op_PlaceholderImage st,
     rc_PriorityClassName := op_PriorityClassName st, rc_Events := True\<rparr>"

fun serve :: "nat \<Rightarrow> Reconciler \<Rightarrow> bool \<Rightarrow> string list \<Rightarrow> nat \<Rightarrow> Effect list list" where
  "serve n r first [] k = []"
| "serve n r first (name # names) k =
     (let pass = Reconcile n r (startupSweep r first) name
      in effects pass k # serve n r False names (nextk pass k))"

definition process_traces :: "nat \<Rightarrow> 'cfg World \<Rightarrow> Reconciler \<Rightarrow> string list \<Rightarrow> nat \<Rightarrow> Effect list list" where
  "process_traces n w r names k =
     (case parseFlags (wo_LibFlags w) (wo_Args w) default_settings of
        Inl _ \<Rightarrow> []
      | Inr st \<Rightarrow> if manager_runs w then serve n (configured st r) True names k else [])"

text \<open>Every request of a process is a pass the safety theorems are about, and none comes before the checks.\<close>

lemma serve_passes: "t \<in> set (serve n r first names k) \<Longrightarrow> \<exists>b name j. t = effects (Reconcile n r (startupSweep r b) name) j"
  by (induction n r first names k rule: serve.induct) (auto simp: Let_def)

lemma process_lawful:
  assumes "t \<in> set (process_traces n w r names k)"
  obtains st cfg where "admits w st cfg" "judged (lawful (configured st r)) [] t"
proof -
  from assms obtain st where st: "parseFlags (wo_LibFlags w) (wo_Args w) default_settings = Inr st"
    and m: "manager_runs w" and t: "t \<in> set (serve n (configured st r) True names k)"
    by (cases "parseFlags (wo_LibFlags w) (wo_Args w) default_settings") (auto simp: process_traces_def split: if_splits)
  from m obtain st' cfg where a: "admits w st' cfg" by (auto simp: manager_runs_iff)
  with st have "st' = st" by (simp add: admits_def Let_def)
  moreover have "judged (lawful (configured st r)) [] t" using serve_passes [OF t] pass_lawful by auto
  ultimately show thesis using a that by blast
qed

text \<open>The scheme knows every kind the controller reads or writes, and the status writer its policies.\<close>

definition registered :: "Registration list \<Rightarrow> string \<times> string \<Rightarrow> string \<Rightarrow> bool" where
  "registered regs gv kind \<longleftrightarrow> (\<exists>kinds. KnownTypes gv kinds \<in> set regs \<and> kind \<in> set kinds)"

lemma scheme_covers:
  "list_all (registered (scheme_New karpGroup) (karpGroup, ''v1'')) [''NodeClaim'', ''NodeClaimList'', ''NodePool'', ''NodePoolList'']
   \<and> list_all (registered (scheme_New karpGroup) (''noderotation.io'', ''v1alpha1'')) [''RotationPolicy'', ''RotationPolicyList'']
   \<and> CoreTypes \<in> set (scheme_New karpGroup)"
proof (intro conjI)
  show "list_all (registered (scheme_New karpGroup) (karpGroup, ''v1'')) [''NodeClaim'', ''NodeClaimList'', ''NodePool'', ''NodePoolList'']"
    by (simp add: registered_def scheme_New_def addKnownTypes_def GroupVersion_def)
  show "list_all (registered (scheme_New karpGroup) (''noderotation.io'', ''v1alpha1'')) [''RotationPolicy'', ''RotationPolicyList'']"
    by (simp add: registered_def scheme_New_def addKnownTypes_def GroupVersion_def)
qed (simp add: scheme_New_def)

end
