(* ===== verification/GoHeap.thy ===== *)
theory GoHeap
  imports Main
begin

text \<open>
  Go's memory, as far as a deep copy uses it: \<open>new\<close> and \<open>make\<close> allocate an array that nothing points
  to yet, a pointer names an element of an array, a slice a stretch of one. An array of any type is a
  cell, so a memory is polymorphic in its cells, and an access to the arrays of one type goes through
  the pair of functions that wrap and unwrap them. The contract of a deep copy is the locale
  \<open>deep_copier\<close>; the rules after it give the contract of a copy from those of its parts, along the
  shapes the copies of \<open>api/v1alpha1\<close> are generated in.
\<close>

section \<open>Arrays, pointers and slices\<close>

record 'c Memory =
  mem :: "nat \<Rightarrow> 'c"
  brk :: nat

type_synonym pointer = "nat \<times> nat"

record Slice =
  sl_Array :: nat
  sl_Offset :: nat
  sl_Len :: nat
  sl_Cap :: nat

definition load :: "('c \<Rightarrow> 'x list) \<Rightarrow> 'c Memory \<Rightarrow> pointer \<Rightarrow> 'x" where
  "load unwrap h p = unwrap (mem h (fst p)) ! snd p"

definition store :: "('x list \<Rightarrow> 'c) \<Rightarrow> ('c \<Rightarrow> 'x list) \<Rightarrow> pointer \<Rightarrow> 'x \<Rightarrow> 'c Memory \<Rightarrow> 'c Memory" where
  "store wrap unwrap p x h =
     h\<lparr>mem := (mem h)(fst p := wrap ((unwrap (mem h (fst p)))[snd p := x]))\<rparr>"

definition alloc :: "'c \<Rightarrow> 'c Memory \<Rightarrow> nat \<times> 'c Memory" where
  "alloc c h = (brk h, \<lparr>mem = (mem h)(brk h := c), brk = Suc (brk h)\<rparr>)"

text \<open>\<open>new(T)\<close> and \<open>make([]T, n)\<close>, with the zero value of the type.\<close>

definition new :: "('x list \<Rightarrow> 'c) \<Rightarrow> 'x \<Rightarrow> 'c Memory \<Rightarrow> pointer \<times> 'c Memory" where
  "new wrap zero h = (let (a, h') = alloc (wrap [zero]) h in ((a, 0), h'))"

definition make :: "('x list \<Rightarrow> 'c) \<Rightarrow> 'x \<Rightarrow> nat \<Rightarrow> 'c Memory \<Rightarrow> Slice \<times> 'c Memory" where
  "make wrap zero n h =
     (let (a, h') = alloc (wrap (replicate n zero)) h
      in (\<lparr>sl_Array = a, sl_Offset = 0, sl_Len = n, sl_Cap = n\<rparr>, h'))"

definition index :: "Slice \<Rightarrow> nat \<Rightarrow> pointer" where
  "index s i = (sl_Array s, sl_Offset s + i)"

definition elements :: "('c \<Rightarrow> 'x list) \<Rightarrow> 'c Memory \<Rightarrow> Slice \<Rightarrow> 'x list" where
  "elements unwrap h s = map (\<lambda>i. load unwrap h (index s i)) [0..<sl_Len s]"

text \<open>The builtin \<open>copy(dst, src)\<close>: the shorter length, the source read before anything is written.\<close>

definition copy_elements ::
  "('x list \<Rightarrow> 'c) \<Rightarrow> ('c \<Rightarrow> 'x list) \<Rightarrow> Slice \<Rightarrow> Slice \<Rightarrow> 'c Memory \<Rightarrow> 'c Memory" where
  "copy_elements wrap unwrap dst src h =
     (let xs = elements unwrap h src
      in fold (\<lambda>i. store wrap unwrap (index dst i) (xs ! i)) [0..<min (sl_Len dst) (sl_Len src)] h)"

section \<open>The shapes of a generated copy\<close>

text \<open>
  A copy \<open>into\<close> takes the struct that is copied and gives the one that is written. \<open>*out = *in\<close> alone:
\<close>

definition assign :: "'x \<Rightarrow> 'c Memory \<Rightarrow> 'x \<times> 'c Memory" where
  "assign x h = (x, h)"

text \<open>\<open>if in != nil { *out = new(T); (*in).DeepCopyInto(*out) }\<close>, also the body of every \<open>DeepCopy\<close>.\<close>

definition copy_pointer ::
  "('x list \<Rightarrow> 'c) \<Rightarrow> ('c \<Rightarrow> 'x list) \<Rightarrow> 'x \<Rightarrow> ('x \<Rightarrow> 'c Memory \<Rightarrow> 'x \<times> 'c Memory) \<Rightarrow>
   pointer option \<Rightarrow> 'c Memory \<Rightarrow> pointer option \<times> 'c Memory" where
  "copy_pointer wrap unwrap zero into p h =
     (case p of
        None \<Rightarrow> (None, h)
      | Some src \<Rightarrow>
          (let (dst, h) = new wrap zero h;
               (y, h) = into (load unwrap h src) h
           in (Some dst, store wrap unwrap dst y h)))"

text \<open>\<open>if in != nil { *out = make([]T, len(*in)); copy(*out, *in) }\<close>.\<close>

definition copy_slice ::
  "('x list \<Rightarrow> 'c) \<Rightarrow> ('c \<Rightarrow> 'x list) \<Rightarrow> 'x \<Rightarrow> Slice option \<Rightarrow> 'c Memory \<Rightarrow> Slice option \<times> 'c Memory" where
  "copy_slice wrap unwrap zero s h =
     (case s of
        None \<Rightarrow> (None, h)
      | Some src \<Rightarrow>
          (let (dst, h) = make wrap zero (sl_Len src) h
           in (Some dst, copy_elements wrap unwrap dst src h)))"

text \<open>
  \<open>if in != nil { *out = make([]T, len(*in)); for i := range *in { (*in)[i].DeepCopyInto(&(*out)[i]) } }\<close>.
\<close>

definition copy_each ::
  "('x list \<Rightarrow> 'c) \<Rightarrow> ('c \<Rightarrow> 'x list) \<Rightarrow> ('x \<Rightarrow> 'c Memory \<Rightarrow> 'x \<times> 'c Memory) \<Rightarrow> Slice \<Rightarrow> Slice \<Rightarrow>
   nat \<Rightarrow> 'c Memory \<Rightarrow> 'c Memory" where
  "copy_each wrap unwrap into dst src i h =
     (let (y, h) = into (load unwrap h (index src i)) h in store wrap unwrap (index dst i) y h)"

definition copy_slice_deep ::
  "('x list \<Rightarrow> 'c) \<Rightarrow> ('c \<Rightarrow> 'x list) \<Rightarrow> 'x \<Rightarrow> ('x \<Rightarrow> 'c Memory \<Rightarrow> 'x \<times> 'c Memory) \<Rightarrow>
   Slice option \<Rightarrow> 'c Memory \<Rightarrow> Slice option \<times> 'c Memory" where
  "copy_slice_deep wrap unwrap zero into s h =
     (case s of
        None \<Rightarrow> (None, h)
      | Some src \<Rightarrow>
          (let (dst, h) = make wrap zero (sl_Len src) h
           in (Some dst, fold (copy_each wrap unwrap into dst src) [0..<sl_Len src] h)))"

section \<open>The contract of a deep copy\<close>

text \<open>
  \<open>val\<close> is what a struct says, with everything it points to read out of the memory, and \<open>reach\<close> the
  arrays it was read from. The copy says the same, is made of arrays that did not exist before, and no
  array that existed before was written.
\<close>

definition same_at :: "nat set \<Rightarrow> 'c Memory \<Rightarrow> 'c Memory \<Rightarrow> bool" where
  "same_at A h h' \<longleftrightarrow> (\<forall>a\<in>A. mem h a = mem h' a)"

lemma same_atD: "same_at A h h' \<Longrightarrow> a \<in> A \<Longrightarrow> mem h' a = mem h a"
  by (simp add: same_at_def)
lemma same_at_refl [simp]: "same_at A h h"
  by (simp add: same_at_def)
lemma same_at_subset: "same_at A h h' \<Longrightarrow> B \<subseteq> A \<Longrightarrow> same_at B h h'"
  by (auto simp: same_at_def)
lemma same_at_trans: "same_at A h h' \<Longrightarrow> same_at A h' h'' \<Longrightarrow> same_at A h h''"
  by (simp add: same_at_def)

definition extends :: "'c Memory \<Rightarrow> 'c Memory \<Rightarrow> bool" where
  "extends h h' \<longleftrightarrow> brk h \<le> brk h' \<and> same_at {..<brk h} h h'"

lemma extends_refl [simp]: "extends h h"
  by (simp add: extends_def)
lemma extends_trans [trans]: "extends h h' \<Longrightarrow> extends h' h'' \<Longrightarrow> extends h h''"
  by (auto simp: extends_def same_at_def)

definition placed :: "'c Memory \<Rightarrow> nat set \<Rightarrow> bool" where
  "placed h A \<longleftrightarrow> A \<subseteq> {..<brk h}"

definition fresh :: "'c Memory \<Rightarrow> 'c Memory \<Rightarrow> nat set \<Rightarrow> bool" where
  "fresh h h' A \<longleftrightarrow> A \<subseteq> {brk h..<brk h'}"

lemma placed_same: "placed h A \<Longrightarrow> extends h h' \<Longrightarrow> same_at A h h'"
  by (auto simp: placed_def extends_def intro: same_at_subset)
lemma fresh_placed: "fresh h h' A \<Longrightarrow> placed h' A"
  by (auto simp: fresh_def placed_def)
lemma fresh_mono: "fresh h1 h2 A \<Longrightarrow> extends h h1 \<Longrightarrow> extends h2 h3 \<Longrightarrow> fresh h h3 A"
  by (auto simp: fresh_def extends_def)

locale deep_copier =
  fixes into :: "'x \<Rightarrow> 'c Memory \<Rightarrow> 'x \<times> 'c Memory"
    and val :: "'c Memory \<Rightarrow> 'x \<Rightarrow> 'v"
    and reach :: "'c Memory \<Rightarrow> 'x \<Rightarrow> nat set"
  assumes local_val: "same_at (reach h x) h h' \<Longrightarrow> val h' x = val h x"
    and local_reach: "same_at (reach h x) h h' \<Longrightarrow> reach h' x = reach h x"
    and copies: "placed h (reach h x) \<Longrightarrow> into x h = (y, h') \<Longrightarrow>
      extends h h' \<and> val h' y = val h x \<and> fresh h h' (reach h' y)"
begin

lemma later:
  assumes "placed h (reach h x)" "extends h h'"
  shows "val h' x = val h x" "reach h' x = reach h x" "placed h' (reach h' x)"
proof -
  have "same_at (reach h x) h h'" using assms by (rule placed_same)
  then show "val h' x = val h x" "reach h' x = reach h x" by (rule local_val local_reach)+
  with assms show "placed h' (reach h' x)" by (auto simp: placed_def extends_def)
qed

text \<open>Neither side of a copy sees what is written through the other.\<close>

lemma independent:
  assumes "placed h (reach h x)" "into x h = (y, h')"
  shows "reach h' x \<inter> reach h' y = {}"
    and "same_at (- reach h' y) h' g \<Longrightarrow> val g x = val h x"
    and "same_at (- reach h' x) h' g \<Longrightarrow> val g y = val h x"
proof -
  from copies [OF assms] have ext: "extends h h'" and v: "val h' y = val h x" and f: "fresh h h' (reach h' y)"
    by blast+
  note l = later [OF assms(1) ext]
  show disj: "reach h' x \<inter> reach h' y = {}"
    using assms(1) f l(2) by (force simp: placed_def fresh_def)
  show "val g x = val h x" if "same_at (- reach h' y) h' g"
  proof -
    from disj have "same_at (reach h' x) h' g" using same_at_subset [OF that] by blast
    from local_val [OF this] l(1) show ?thesis by simp
  qed
  show "val g y = val h x" if "same_at (- reach h' x) h' g"
  proof -
    from disj have "same_at (reach h' y) h' g" using same_at_subset [OF that] by blast
    from local_val [OF this] v show ?thesis by simp
  qed
qed

end

section \<open>Copies from copies\<close>

text \<open>A struct without pointers.\<close>

definition reach_none :: "'c Memory \<Rightarrow> 'x \<Rightarrow> nat set" where "reach_none h x = {}"
definition val_plain :: "'c Memory \<Rightarrow> 'x \<Rightarrow> 'x" where "val_plain h x = x"

interpretation plain: deep_copier assign val_plain reach_none
  by unfold_locales (auto simp: assign_def val_plain_def reach_none_def fresh_def)

text \<open>Two fields, one after the other.\<close>

definition copy_both ::
  "('x \<Rightarrow> 'c Memory \<Rightarrow> 'x \<times> 'c Memory) \<Rightarrow> ('y \<Rightarrow> 'c Memory \<Rightarrow> 'y \<times> 'c Memory) \<Rightarrow>
   'x \<times> 'y \<Rightarrow> 'c Memory \<Rightarrow> ('x \<times> 'y) \<times> 'c Memory" where
  "copy_both f g xy h = (let (x, h) = f (fst xy) h; (y, h) = g (snd xy) h in ((x, y), h))"

definition val_both where "val_both v w h xy = (v h (fst xy), w h (snd xy))"
definition reach_both :: "('c Memory \<Rightarrow> 'x \<Rightarrow> nat set) \<Rightarrow> ('c Memory \<Rightarrow> 'y \<Rightarrow> nat set) \<Rightarrow> 'c Memory \<Rightarrow> 'x \<times> 'y \<Rightarrow> nat set" where
  "reach_both r s h xy = r h (fst xy) \<union> s h (snd xy)"

lemma deep_copier_both:
  assumes "deep_copier f v r" "deep_copier g w s"
  shows "deep_copier (copy_both f g) (val_both v w) (reach_both r s)"
proof
  fix h h' x
  assume a: "same_at (reach_both r s h x) h h'"
  then have a1: "same_at (r h (fst x)) h h'" and a2: "same_at (s h (snd x)) h h'"
    by (auto simp: reach_both_def intro: same_at_subset)
  show "val_both v w h' x = val_both v w h x" "reach_both r s h' x = reach_both r s h x"
    using deep_copier.local_val [OF assms(1) a1] deep_copier.local_val [OF assms(2) a2]
      deep_copier.local_reach [OF assms(1) a1] deep_copier.local_reach [OF assms(2) a2]
    by (simp_all add: val_both_def reach_both_def)
next
  fix h x y h'
  assume p: "placed h (reach_both r s h x)" and c: "copy_both f g x h = (y, h')"
  from c obtain h1 where c1: "f (fst x) h = (fst y, h1)" and c2: "g (snd x) h1 = (snd y, h')"
    by (auto simp: copy_both_def Let_def split: prod.splits)
  have p1: "placed h (r h (fst x))" and p2: "placed h (s h (snd x))"
    using p by (auto simp: reach_both_def placed_def)
  from deep_copier.copies [OF assms(1) p1 c1]
  have k1: "extends h h1" "v h1 (fst y) = v h (fst x)" "fresh h h1 (r h1 (fst y))" by blast+
  note l2 = deep_copier.later [OF assms(2) p2 k1(1)]
  from deep_copier.copies [OF assms(2) l2(3) c2]
  have k2: "extends h1 h'" "w h' (snd y) = w h (snd x)" "fresh h1 h' (s h' (snd y))" using l2 by simp_all
  note l1 = deep_copier.later [OF assms(1) fresh_placed [OF k1(3)] k2(1)]
  have "fresh h h' (r h' (fst y))" using fresh_mono [OF k1(3) _ k2(1), of h] l1(2) by simp
  moreover have "fresh h h' (s h' (snd y))" using fresh_mono [OF k2(3) k1(1), of h'] by simp
  ultimately show "extends h h' \<and> val_both v w h' y = val_both v w h x \<and> fresh h h' (reach_both r s h' y)"
    using k1(2) k2(2) l1(1) extends_trans [OF k1(1) k2(1)] by (simp add: val_both_def reach_both_def fresh_def)
qed

text \<open>A struct is the tuple of its fields that are copied deeply, and the rest.\<close>

lemma deep_copier_struct:
  assumes f: "deep_copier f v r"
    and into: "\<And>x h. into x h = (let (t, h') = f (parts x) h in (with_parts x t, h'))"
    and parts: "\<And>x t. parts (with_parts x t) = t"
    and val: "\<And>h x. val h x = rest x (v h (parts x))"
    and rest: "\<And>x t. rest (with_parts x t) = rest x"
    and reach: "\<And>h x. reach h x = r h (parts x)"
  shows "deep_copier into val reach"
proof
  fix h h' x
  assume "same_at (reach h x) h h'"
  then have a: "same_at (r h (parts x)) h h'" by (simp add: reach)
  show "val h' x = val h x" using deep_copier.local_val [OF f a] by (simp add: val)
  show "reach h' x = reach h x" using deep_copier.local_reach [OF f a] by (simp add: reach)
next
  fix h x y h'
  assume p: "placed h (reach h x)" and c: "into x h = (y, h')"
  from c obtain t where t: "f (parts x) h = (t, h')" and y: "y = with_parts x t"
    by (auto simp: into Let_def split: prod.splits)
  from deep_copier.copies [OF f _ t] p
  show "extends h h' \<and> val h' y = val h x \<and> fresh h h' (reach h' y)"
    by (simp add: reach val y parts rest)
qed

text \<open>Reading and writing one array.\<close>

definition array :: "('c \<Rightarrow> 'x list) \<Rightarrow> 'c Memory \<Rightarrow> nat \<Rightarrow> 'x list" where
  "array unwrap h a = unwrap (mem h a)"

lemma alloc_facts:
  assumes "alloc c h = (a, h')"
  shows "a = brk h" "brk h' = Suc (brk h)" "mem h' a = c" "extends h h'"
  using assms by (auto simp: alloc_def extends_def same_at_def)

lemma store_facts:
  "brk (store wrap unwrap p x h) = brk h"
  "same_at (- {fst p}) h (store wrap unwrap p x h)"
  by (simp_all add: store_def same_at_def)

lemma load_store:
  assumes "\<And>xs. unwrap (wrap xs) = xs"
  shows "unwrap (mem (store wrap unwrap p x h) (fst p)) = (unwrap (mem h (fst p)))[snd p := x]"
  using assms by (simp add: store_def)

lemma same_at_load: "same_at A h h' \<Longrightarrow> fst p \<in> A \<Longrightarrow> load unwrap h' p = load unwrap h p"
  by (simp add: load_def same_at_def)

lemma same_at_elements: "same_at A h h' \<Longrightarrow> sl_Array s \<in> A \<Longrightarrow> elements unwrap h' s = elements unwrap h s"
  by (simp add: elements_def index_def same_at_load)

lemma store_keeps_old: "extends h h' \<Longrightarrow> brk h \<le> fst p \<Longrightarrow> extends h (store wrap unwrap p x h')"
  by (auto simp: extends_def same_at_def store_def)

text \<open>A pointer.\<close>

definition val_pointer where
  "val_pointer unwrap v h p = map_option (\<lambda>q. v h (load unwrap h q)) p"
definition reach_pointer :: "('c \<Rightarrow> 'x list) \<Rightarrow> ('c Memory \<Rightarrow> 'x \<Rightarrow> nat set) \<Rightarrow> 'c Memory \<Rightarrow> pointer option \<Rightarrow> nat set" where
  "reach_pointer unwrap r h p = (case p of None \<Rightarrow> {} | Some q \<Rightarrow> insert (fst q) (r h (load unwrap h q)))"

lemma deep_copier_pointer:
  assumes f: "deep_copier f v r" and wrap: "\<And>xs. unwrap (wrap xs) = xs"
  shows "deep_copier (copy_pointer wrap unwrap zero f) (val_pointer unwrap v) (reach_pointer unwrap r)"
proof
  fix h h' and p :: "pointer option"
  assume a: "same_at (reach_pointer unwrap r h p) h h'"
  have "val_pointer unwrap v h' p = val_pointer unwrap v h p \<and> reach_pointer unwrap r h' p = reach_pointer unwrap r h p"
  proof (cases p)
    case (Some q)
    with a have l: "load unwrap h' q = load unwrap h q" by (auto simp: reach_pointer_def intro: same_at_load)
    from Some a have b: "same_at (r h (load unwrap h q)) h h'" by (auto simp: reach_pointer_def intro: same_at_subset)
    show ?thesis
      using l deep_copier.local_val [OF f b] deep_copier.local_reach [OF f b] Some
      by (simp_all add: val_pointer_def reach_pointer_def)
  qed (simp_all add: val_pointer_def reach_pointer_def)
  then show "val_pointer unwrap v h' p = val_pointer unwrap v h p" "reach_pointer unwrap r h' p = reach_pointer unwrap r h p"
    by simp_all
next
  fix h h' and p q :: "pointer option"
  assume pl: "placed h (reach_pointer unwrap r h p)" and c: "copy_pointer wrap unwrap zero f p h = (q, h')"
  show "extends h h' \<and> val_pointer unwrap v h' q = val_pointer unwrap v h p \<and> fresh h h' (reach_pointer unwrap r h' q)"
  proof (cases p)
    case None
    with c show ?thesis by (simp add: copy_pointer_def val_pointer_def reach_pointer_def fresh_def)
  next
    case (Some src)
    obtain a h1 where n: "alloc (wrap [zero]) h = (a, h1)" by fastforce
    note al = alloc_facts [OF n]
    let ?x = "load unwrap h src"
    have px: "placed h (r h ?x)" and src: "fst src < brk h"
      using pl Some by (auto simp: reach_pointer_def placed_def)
    have l1: "load unwrap h1 src = ?x" using al(4) src by (auto simp: extends_def intro: same_at_load)
    note later1 = deep_copier.later [OF f px al(4)]
    obtain y h2 where y: "f ?x h1 = (y, h2)" by fastforce
    with c Some n l1 have q: "q = Some (a, 0)" and h': "h' = store wrap unwrap (a, 0) y h2"
      by (auto simp: copy_pointer_def new_def Let_def)
    from deep_copier.copies [OF f later1(3) y]
    have k: "extends h1 h2" "v h2 y = v h ?x" "fresh h1 h2 (r h2 y)" using later1 by simp_all
    have ma: "unwrap (mem h2 a) = [zero]"
      using al k(1) wrap by (auto simp: extends_def same_at_def)
    have ld: "load unwrap h' (a, 0) = y"
      using load_store [of unwrap wrap "(a, 0)" y h2] wrap ma by (simp add: load_def h')
    have ag: "same_at (r h2 y) h2 h'"
      unfolding h' by (rule same_at_subset [OF store_facts(2)]) (use k(3) al in \<open>auto simp: fresh_def\<close>)
    note loc = deep_copier.local_val [OF f ag] deep_copier.local_reach [OF f ag]
    have "extends h h'" unfolding h'
      by (rule store_keeps_old [OF extends_trans [OF al(4) k(1)]]) (simp add: al)
    moreover have "fresh h h' (insert a (r h' y))"
      using k(1,3) al loc by (auto simp: fresh_def h' store_facts extends_def)
    ultimately show ?thesis
      using k(2) loc ld q Some by (simp add: val_pointer_def reach_pointer_def)
  qed
qed

text \<open>A slice of structs, copied one by one: what the loop keeps.\<close>

definition val_slice where
  "val_slice unwrap v h s = map_option (\<lambda>s. map (v h) (elements unwrap h s)) s"
definition reach_slice :: "('c \<Rightarrow> 'x list) \<Rightarrow> ('c Memory \<Rightarrow> 'x \<Rightarrow> nat set) \<Rightarrow> 'c Memory \<Rightarrow> Slice option \<Rightarrow> nat set" where
  "reach_slice unwrap r h s =
     (case s of None \<Rightarrow> {} | Some s \<Rightarrow> insert (sl_Array s) (\<Union>x\<in>set (elements unwrap h s). r h x))"

definition copied_until ::
  "('c \<Rightarrow> 'x list) \<Rightarrow> ('c Memory \<Rightarrow> 'x \<Rightarrow> 'v) \<Rightarrow> ('c Memory \<Rightarrow> 'x \<Rightarrow> nat set) \<Rightarrow> 'x list \<Rightarrow> 'c Memory \<Rightarrow>
   nat \<Rightarrow> 'c Memory \<Rightarrow> bool" where
  "copied_until unwrap v r xs h k g \<longleftrightarrow>
     (let ys = unwrap (mem g (brk h))
      in extends h g \<and> brk h < brk g \<and> length ys = length xs
         \<and> (\<forall>j<k. v g (ys ! j) = v h (xs ! j) \<and> r g (ys ! j) \<subseteq> {Suc (brk h)..<brk g}))"

lemma copied_step:
  assumes f: "deep_copier f v r" and wrap: "\<And>xs. unwrap (wrap xs) = xs"
    and inv: "copied_until unwrap v r xs h k g" and k: "k < length xs"
    and src: "placed h (r h (xs ! k))" and y: "f (xs ! k) g = (y, g')"
  shows "copied_until unwrap v r xs h (Suc k) (store wrap unwrap (brk h, k) y g')"
proof -
  let ?ys = "unwrap (mem g (brk h))" and ?g = "store wrap unwrap (brk h, k) y g'"
  have e: "extends h g" and b: "brk h < brk g" and len: "length ?ys = length xs"
    and sofar: "\<And>j. j < k \<Longrightarrow> v g (?ys ! j) = v h (xs ! j) \<and> r g (?ys ! j) \<subseteq> {Suc (brk h)..<brk g}"
    using inv by (simp_all add: copied_until_def Let_def)
  note l = deep_copier.later [OF f src e]
  from deep_copier.copies [OF f l(3) y]
  have c: "extends g g'" "v g' y = v h (xs ! k)" "fresh g g' (r g' y)" using l by simp_all
  have same: "mem g' (brk h) = mem g (brk h)" using c(1) b by (auto simp: extends_def same_at_def)
  then have arr: "unwrap (mem ?g (brk h)) = ?ys[k := y]"
    using load_store [of unwrap wrap "(brk h, k)" y g'] wrap by simp
  have keep: "v ?g z = v g' z" "r ?g z = r g' z" if "r g' z \<subseteq> {Suc (brk h)..<brk g'}" for z
  proof -
    have "same_at (r g' z) g' ?g"
      using same_at_subset [OF store_facts(2)] that by (metis ComplI fst_conv atLeastLessThan_iff not_less_eq_eq order_refl singletonD subset_iff)
    then show "v ?g z = v g' z" "r ?g z = r g' z"
      using f deep_copier.local_val deep_copier.local_reach by metis+
  qed
  have "v ?g (?ys[k := y] ! j) = v h (xs ! j) \<and> r ?g (?ys[k := y] ! j) \<subseteq> {Suc (brk h)..<brk ?g}" if "j < Suc k" for j
  proof (cases "j = k")
    case True
    have "r g' y \<subseteq> {Suc (brk h)..<brk g'}" using c(3) b by (auto simp: fresh_def)
    with keep [of y] c(2) True k len show ?thesis by (simp add: store_facts)
  next
    case False
    with that have j: "j < k" by simp
    note d = sofar [OF j]
    then have pl: "placed g (r g (?ys ! j))" by (auto simp: placed_def)
    note l2 = deep_copier.later [OF f pl c(1)]
    have "r g' (?ys ! j) \<subseteq> {Suc (brk h)..<brk g'}" using d l2(2) c(1) by (auto simp: extends_def)
    with keep [of "?ys ! j"] l2 d False show ?thesis by (simp add: store_facts)
  qed
  moreover have "extends h ?g" by (rule store_keeps_old [OF extends_trans [OF e c(1)]]) simp
  moreover have "brk h < brk ?g" using b c(1) by (simp add: store_facts extends_def)
  ultimately show ?thesis using len arr by (simp add: copied_until_def Let_def)
qed

lemma copied_loop:
  assumes f: "deep_copier f v r" and wrap: "\<And>xs. unwrap (wrap xs) = xs"
    and dst: "sl_Array dst = brk h" "sl_Offset dst = 0" and src: "sl_Array src < brk h"
    and pl: "\<forall>x\<in>set (elements unwrap h src). placed h (r h x)"
    and start: "copied_until unwrap v r (elements unwrap h src) h 0 g"
  shows "k \<le> sl_Len src \<Longrightarrow>
    copied_until unwrap v r (elements unwrap h src) h k (fold (copy_each wrap unwrap f dst src) [0..<k] g)"
proof (induction k)
  case (Suc k)
  let ?g = "fold (copy_each wrap unwrap f dst src) [0..<k] g"
  have inv: "copied_until unwrap v r (elements unwrap h src) h k ?g" using Suc by simp
  then have "extends h ?g" by (simp add: copied_until_def Let_def)
  then have ld: "load unwrap ?g (index src k) = elements unwrap h src ! k"
    using Suc.prems src same_at_load [of "{..<brk h}" h ?g "index src k" unwrap]
    by (simp add: extends_def elements_def index_def)
  obtain y g' where y: "f (elements unwrap h src ! k) ?g = (y, g')" by fastforce
  have "elements unwrap h src ! k \<in> set (elements unwrap h src)" using Suc.prems by (simp add: elements_def)
  with pl have "placed h (r h (elements unwrap h src ! k))" by blast
  moreover have "copy_each wrap unwrap f dst src k ?g = store wrap unwrap (brk h, k) y g'"
    by (simp add: copy_each_def ld y) (simp add: index_def dst)
  moreover have "k < length (elements unwrap h src)" using Suc.prems by (simp add: elements_def)
  ultimately show ?case using copied_step [OF f wrap inv _ _ y] by simp
qed (use start in simp)

lemma slice_local:
  assumes f: "deep_copier f v r" and a: "same_at (reach_slice unwrap r h s) h h'"
  shows "val_slice unwrap v h' s = val_slice unwrap v h s \<and> reach_slice unwrap r h' s = reach_slice unwrap r h s"
proof (cases s)
  case (Some t)
  have e: "elements unwrap h' t = elements unwrap h t"
    using a Some by (intro same_at_elements) (auto simp: reach_slice_def)
  have b: "same_at (r h x) h h'" if "x \<in> set (elements unwrap h t)" for x
    using that Some by (intro same_at_subset [OF a]) (auto simp: reach_slice_def)
  show ?thesis
    using e Some deep_copier.local_val [OF f b] deep_copier.local_reach [OF f b]
    by (simp add: val_slice_def reach_slice_def)
qed (simp add: val_slice_def reach_slice_def)

text \<open>When the loop is over, the new slice is a deep copy of the old one.\<close>

lemma copied_all:
  assumes inv: "copied_until unwrap v r (elements unwrap h src) h (sl_Len src) g"
    and dst: "dst = \<lparr>sl_Array = brk h, sl_Offset = 0, sl_Len = sl_Len src, sl_Cap = sl_Len src\<rparr>"
  shows "extends h g \<and> val_slice unwrap v g (Some dst) = val_slice unwrap v h (Some src)
    \<and> fresh h g (reach_slice unwrap r g (Some dst))"
proof -
  let ?xs = "elements unwrap h src" and ?ys = "unwrap (mem g (brk h))"
  have len: "length ?xs = sl_Len src" by (simp add: elements_def)
  from inv have e: "extends h g" and b: "brk h < brk g" and ly: "length ?ys = length ?xs"
    by (simp_all add: copied_until_def Let_def)
  have el: "elements unwrap g dst = ?ys"
    using ly len map_nth [of ?ys] by (simp add: elements_def index_def load_def dst)
  have "map (v g) ?ys = map (v h) ?xs"
    using inv ly by (intro nth_equalityI) (simp_all add: copied_until_def Let_def len)
  moreover have "r g y \<subseteq> {brk h..<brk g}" if "y \<in> set ?ys" for y
    using that inv ly by (auto simp: in_set_conv_nth copied_until_def Let_def len dest!: spec)
  ultimately show ?thesis
    using e b el by (auto simp: val_slice_def reach_slice_def fresh_def dst)
qed

lemma copied_start:
  assumes "alloc (wrap (replicate (length xs) zero)) h = (a, g)" "\<And>xs. unwrap (wrap xs) = xs"
  shows "copied_until unwrap v r xs h 0 g"
  using alloc_facts [OF assms(1)] assms(2) by (simp add: copied_until_def)

lemma deep_copier_slice_deep:
  assumes f: "deep_copier f v r" and wrap: "\<And>xs. unwrap (wrap xs) = xs"
  shows "deep_copier (copy_slice_deep wrap unwrap zero f) (val_slice unwrap v) (reach_slice unwrap r)"
proof
  fix h h' and s t :: "Slice option"
  assume pl: "placed h (reach_slice unwrap r h s)" and c: "copy_slice_deep wrap unwrap zero f s h = (t, h')"
  show "extends h h' \<and> val_slice unwrap v h' t = val_slice unwrap v h s \<and> fresh h h' (reach_slice unwrap r h' t)"
  proof (cases s)
    case None
    with c show ?thesis by (simp add: copy_slice_deep_def val_slice_def reach_slice_def fresh_def)
  next
    case (Some src)
    obtain a h1 where n: "alloc (wrap (replicate (sl_Len src) zero)) h = (a, h1)" by fastforce
    let ?dst = "\<lparr>sl_Array = brk h, sl_Offset = 0, sl_Len = sl_Len src, sl_Cap = sl_Len src\<rparr>"
    from c Some n alloc_facts(1) [OF n] have t: "t = Some ?dst"
      and h': "h' = fold (copy_each wrap unwrap f ?dst src) [0..<sl_Len src] h1"
      by (simp_all add: copy_slice_deep_def make_def)
    have src: "sl_Array src < brk h" "\<forall>x\<in>set (elements unwrap h src). placed h (r h x)"
      using pl Some by (auto simp: reach_slice_def placed_def)
    have "copied_until unwrap v r (elements unwrap h src) h 0 h1"
      using n wrap by (intro copied_start [where wrap = wrap and zero = zero and a = a]) (simp_all add: elements_def)
    from copied_loop [OF f wrap _ _ src this, of ?dst "sl_Len src"]
    have "copied_until unwrap v r (elements unwrap h src) h (sl_Len src) h'" by (simp add: h')
    from copied_all [OF this refl] t Some show ?thesis by simp
  qed
qed (use slice_local [OF f] in blast)+

text \<open>A slice of plain values: the builtin writes them from left to right.\<close>

lemma deep_copier_slice:
  fixes wrap :: "'x list \<Rightarrow> 'c"
  assumes wrap: "\<And>xs. unwrap (wrap xs) = xs"
  shows "deep_copier (copy_slice wrap unwrap zero) (val_slice unwrap val_plain) (reach_slice unwrap reach_none)"
proof
  fix h h' and s t :: "Slice option"
  assume pl: "placed h (reach_slice unwrap reach_none h s)" and c: "copy_slice wrap unwrap zero s h = (t, h')"
  show "extends h h' \<and> val_slice unwrap val_plain h' t = val_slice unwrap val_plain h s
    \<and> fresh h h' (reach_slice unwrap reach_none h' t)"
  proof (cases s)
    case None
    with c show ?thesis by (simp add: copy_slice_def val_slice_def reach_slice_def fresh_def)
  next
    case (Some src)
    let ?xs = "elements unwrap h src"
    have len: "length ?xs = sl_Len src" by (simp add: elements_def)
    obtain a h1 where n: "alloc (wrap (replicate (sl_Len src) zero)) h = (a, h1)" by fastforce
    note al = alloc_facts [OF n]
    let ?dst = "\<lparr>sl_Array = brk h, sl_Offset = 0, sl_Len = sl_Len src, sl_Cap = sl_Len src\<rparr>"
    let ?loop = "\<lambda>k. fold (\<lambda>i. store wrap unwrap (index ?dst i) (?xs ! i)) [0..<k] h1"
    have "elements unwrap h1 src = ?xs"
      using pl Some al(4) by (intro same_at_elements [of "{..<brk h}"]) (auto simp: reach_slice_def placed_def extends_def)
    with c Some n al(1) have t: "t = Some ?dst" and h': "h' = ?loop (sl_Len src)"
      by (simp_all add: copy_slice_def make_def copy_elements_def Let_def)
    have "k \<le> sl_Len src \<Longrightarrow> copied_until unwrap val_plain reach_none ?xs h k (?loop k)" for k
    proof (induction k)
      case 0
      show ?case using copied_start [of wrap ?xs zero h a h1 unwrap] n wrap by (simp add: len)
    next
      case (Suc k)
      have "placed h (reach_none h (?xs ! k))" by (simp add: reach_none_def placed_def)
      moreover have "assign (?xs ! k) (?loop k) = (?xs ! k, ?loop k)" by (simp add: assign_def)
      ultimately have "copied_until unwrap val_plain reach_none ?xs h (Suc k) (store wrap unwrap (brk h, k) (?xs ! k) (?loop k))"
        using Suc len wrap plain.deep_copier_axioms by (intro copied_step [where f = assign]) simp_all
      then show ?case by (simp add: index_def)
    qed
    from copied_all [OF this [OF order_refl] refl] t Some show ?thesis by (simp add: h')
  qed
qed (use slice_local [OF plain.deep_copier_axioms] in blast)+

end
