(* ===== verification/DeepCopies.thy ===== *)
theory DeepCopies
  imports GoHeap Resolve
begin

text \<open>
  The generated copies of \<open>api/v1alpha1\<close> (\<open>zz_generated.deepcopy.go\<close>) on a memory. A struct of the
  package is a record over what its pointers and slices are: in memory a \<open>pointer\<close> or a \<open>Slice\<close>, nil
  being \<open>None\<close>; as a value what they lead to. The structs of the machinery (LabelSelector, ObjectMeta,
  ListMeta, Condition) are of a type \<open>'o\<close>, copied by the library's own method \<open>lib\<close>, and own memory of a
  type \<open>'l\<close>. The contract of that method is the locale \<open>deep_copier\<close> of \<open>GoHeap\<close>, and the theorem shows
  the generated methods keep it.
\<close>

section \<open>The structs\<close>

record 'strings MaintenanceWindowS =
  mws_Timezone :: string
  mws_Days :: 'strings
  mws_Start :: string
  mws_End :: string

record 'strings MatchNodeRequirementsS =
  mns_Required :: 'strings
  mns_Preferred :: 'strings

record ('int32, 'duration, 'strings) SurgeS =
  sus_MaxUnavailable :: 'int32
  sus_ReadyTimeout :: 'duration
  sus_CooldownAfter :: 'duration
  sus_FailurePause :: 'duration
  sus_RetryBackoff :: 'duration
  sus_MatchNodeRequirements :: "'strings MatchNodeRequirementsS"
  sus_ForcefulFallback :: ApiFeatureToggle
  sus_WholeNodeReservation :: ApiFeatureToggle
  sus_DrainEstimate :: 'duration
  sus_ProvisioningEstimate :: 'duration

record ('selector, 'int32, 'duration, 'strings, 'windows) SpecS =
  sps_NodePoolSelector :: 'selector
  sps_AgeThreshold :: string
  sps_MinRotationChances :: 'int32
  sps_MaintenanceWindows :: 'windows
  sps_Surge :: "('int32, 'duration, 'strings) SurgeS"
  sps_PrePull :: ApiFeatureToggle

record 'conditions StatusS =
  sts_ObservedGeneration :: int
  sts_MatchedNodePools :: int
  sts_RotatingNodePools :: int
  sts_Conditions :: 'conditions

record TypeMeta =
  tm_Kind :: string
  tm_APIVersion :: string

record ('meta, 'spec, 'status) RotationPolicyS =
  rps_TypeMeta :: TypeMeta
  rps_ObjectMeta :: 'meta
  rps_Spec :: 'spec
  rps_Status :: 'status

record ('meta, 'items) RotationPolicyListS =
  rls_TypeMeta :: TypeMeta
  rls_ListMeta :: 'meta
  rls_Items :: 'items

type_synonym WindowM = "Slice option MaintenanceWindowS"
type_synonym RequirementsM = "Slice option MatchNodeRequirementsS"
type_synonym SurgeM = "(pointer option, pointer option, Slice option) SurgeS"
type_synonym SpecM = "(pointer option, pointer option, pointer option, Slice option, Slice option) SpecS"
type_synonym StatusM = "Slice option StatusS"
type_synonym 'o PolicyM = "('o, SpecM, StatusM) RotationPolicyS"
type_synonym 'o PolicyListM = "('o, Slice option) RotationPolicyListS"

text \<open>An array of each type that a pointer or a slice can lead to.\<close>

datatype ('o, 'l) Cell =
    Int32s (int32s: "int list")
  | Durations (durations: "duration list")
  | Strings (strings: "string list")
  | Toggles (toggles: "ApiFeatureToggle list")
  | Windows (windows: "WindowM list")
  | Requirements (requirements: "RequirementsM list")
  | Surges (surges: "SurgeM list")
  | Specs (specs: "SpecM list")
  | Statuses (statuses: "StatusM list")
  | Policies (policies: "'o PolicyM list")
  | PolicyLists (policyLists: "'o PolicyListM list")
  | LibStructs (libStructs: "'o list")
  | LibData (libData: "'l list")

type_synonym ('o, 'l) memory = "('o, 'l) Cell Memory"

text \<open>The zero values that \<open>new\<close> and \<open>make\<close> give.\<close>

definition zero_Toggle :: ApiFeatureToggle where "zero_Toggle = \<lparr>aft_Enabled = False\<rparr>"
definition zero_Window :: WindowM where
  "zero_Window = \<lparr>mws_Timezone = '''', mws_Days = None, mws_Start = '''', mws_End = ''''\<rparr>"
definition zero_Requirements :: RequirementsM where
  "zero_Requirements = \<lparr>mns_Required = None, mns_Preferred = None\<rparr>"
definition zero_Surge :: SurgeM where
  "zero_Surge = \<lparr>sus_MaxUnavailable = None, sus_ReadyTimeout = None, sus_CooldownAfter = None,
     sus_FailurePause = None, sus_RetryBackoff = None, sus_MatchNodeRequirements = zero_Requirements,
     sus_ForcefulFallback = zero_Toggle, sus_WholeNodeReservation = zero_Toggle,
     sus_DrainEstimate = None, sus_ProvisioningEstimate = None\<rparr>"
definition zero_Spec :: SpecM where
  "zero_Spec = \<lparr>sps_NodePoolSelector = None, sps_AgeThreshold = '''', sps_MinRotationChances = None,
     sps_MaintenanceWindows = None, sps_Surge = zero_Surge, sps_PrePull = zero_Toggle\<rparr>"
definition zero_Status :: StatusM where
  "zero_Status = \<lparr>sts_ObservedGeneration = 0, sts_MatchedNodePools = 0, sts_RotatingNodePools = 0, sts_Conditions = None\<rparr>"
definition zero_TypeMeta :: TypeMeta where "zero_TypeMeta = \<lparr>tm_Kind = '''', tm_APIVersion = ''''\<rparr>"
definition zero_Policy :: "'o \<Rightarrow> 'o PolicyM" where
  "zero_Policy z = \<lparr>rps_TypeMeta = zero_TypeMeta, rps_ObjectMeta = z, rps_Spec = zero_Spec, rps_Status = zero_Status\<rparr>"
definition zero_PolicyList :: "'o \<Rightarrow> 'o PolicyListM" where
  "zero_PolicyList z = \<lparr>rls_TypeMeta = zero_TypeMeta, rls_ListMeta = z, rls_Items = None\<rparr>"

section \<open>The generated methods\<close>

text \<open>\<open>*out = *in\<close> copies the whole struct; each field that points somewhere is then replaced.\<close>

definition FeatureToggle_DeepCopyInto :: "ApiFeatureToggle \<Rightarrow> ('o, 'l) memory \<Rightarrow> ApiFeatureToggle \<times> ('o, 'l) memory" where
  "FeatureToggle_DeepCopyInto x h = assign x h"

definition FeatureToggle_DeepCopy :: "pointer option \<Rightarrow> ('o, 'l) memory \<Rightarrow> pointer option \<times> ('o, 'l) memory" where
  "FeatureToggle_DeepCopy = copy_pointer Toggles toggles zero_Toggle FeatureToggle_DeepCopyInto"

definition MaintenanceWindow_DeepCopyInto :: "WindowM \<Rightarrow> ('o, 'l) memory \<Rightarrow> WindowM \<times> ('o, 'l) memory" where
  "MaintenanceWindow_DeepCopyInto x h =
     (let (days, h) = copy_slice Strings strings '''' (mws_Days x) h
      in (x\<lparr>mws_Days := days\<rparr>, h))"

definition MaintenanceWindow_DeepCopy :: "pointer option \<Rightarrow> ('o, 'l) memory \<Rightarrow> pointer option \<times> ('o, 'l) memory" where
  "MaintenanceWindow_DeepCopy = copy_pointer Windows windows zero_Window MaintenanceWindow_DeepCopyInto"

definition MatchNodeRequirements_DeepCopyInto ::
  "RequirementsM \<Rightarrow> ('o, 'l) memory \<Rightarrow> RequirementsM \<times> ('o, 'l) memory" where
  "MatchNodeRequirements_DeepCopyInto x h =
     (let (required, h) = copy_slice Strings strings '''' (mns_Required x) h;
          (preferred, h) = copy_slice Strings strings '''' (mns_Preferred x) h
      in (x\<lparr>mns_Required := required, mns_Preferred := preferred\<rparr>, h))"

definition MatchNodeRequirements_DeepCopy :: "pointer option \<Rightarrow> ('o, 'l) memory \<Rightarrow> pointer option \<times> ('o, 'l) memory" where
  "MatchNodeRequirements_DeepCopy =
     copy_pointer Requirements requirements zero_Requirements MatchNodeRequirements_DeepCopyInto"

definition copy_int32 :: "pointer option \<Rightarrow> ('o, 'l) memory \<Rightarrow> pointer option \<times> ('o, 'l) memory" where
  "copy_int32 = copy_pointer Int32s int32s 0 assign"

definition copy_duration :: "pointer option \<Rightarrow> ('o, 'l) memory \<Rightarrow> pointer option \<times> ('o, 'l) memory" where
  "copy_duration = copy_pointer Durations durations 0 assign"

definition Surge_DeepCopyInto :: "SurgeM \<Rightarrow> ('o, 'l) memory \<Rightarrow> SurgeM \<times> ('o, 'l) memory" where
  "Surge_DeepCopyInto x h =
     (let (maxUnavailable, h) = copy_int32 (sus_MaxUnavailable x) h;
          (readyTimeout, h) = copy_duration (sus_ReadyTimeout x) h;
          (cooldownAfter, h) = copy_duration (sus_CooldownAfter x) h;
          (failurePause, h) = copy_duration (sus_FailurePause x) h;
          (retryBackoff, h) = copy_duration (sus_RetryBackoff x) h;
          (match, h) = MatchNodeRequirements_DeepCopyInto (sus_MatchNodeRequirements x) h;
          (drainEstimate, h) = copy_duration (sus_DrainEstimate x) h;
          (provisioningEstimate, h) = copy_duration (sus_ProvisioningEstimate x) h
      in (x\<lparr>sus_MaxUnavailable := maxUnavailable, sus_ReadyTimeout := readyTimeout,
           sus_CooldownAfter := cooldownAfter, sus_FailurePause := failurePause,
           sus_RetryBackoff := retryBackoff, sus_MatchNodeRequirements := match,
           sus_DrainEstimate := drainEstimate, sus_ProvisioningEstimate := provisioningEstimate\<rparr>, h))"

definition Surge_DeepCopy :: "pointer option \<Rightarrow> ('o, 'l) memory \<Rightarrow> pointer option \<times> ('o, 'l) memory" where
  "Surge_DeepCopy = copy_pointer Surges surges zero_Surge Surge_DeepCopyInto"

type_synonym ('o, 'l) copier = "'o \<Rightarrow> ('o, 'l) memory \<Rightarrow> 'o \<times> ('o, 'l) memory"

definition RotationPolicySpec_DeepCopyInto ::
  "'o \<Rightarrow> ('o, 'l) copier \<Rightarrow> SpecM \<Rightarrow> ('o, 'l) memory \<Rightarrow> SpecM \<times> ('o, 'l) memory" where
  "RotationPolicySpec_DeepCopyInto z lib x h =
     (let (selector, h) = copy_pointer LibStructs libStructs z lib (sps_NodePoolSelector x) h;
          (chances, h) = copy_int32 (sps_MinRotationChances x) h;
          (wins, h) = copy_slice_deep Windows windows zero_Window MaintenanceWindow_DeepCopyInto (sps_MaintenanceWindows x) h;
          (surge, h) = Surge_DeepCopyInto (sps_Surge x) h
      in (x\<lparr>sps_NodePoolSelector := selector, sps_MinRotationChances := chances,
           sps_MaintenanceWindows := wins, sps_Surge := surge\<rparr>, h))"

definition RotationPolicySpec_DeepCopy ::
  "'o \<Rightarrow> ('o, 'l) copier \<Rightarrow> pointer option \<Rightarrow> ('o, 'l) memory \<Rightarrow> pointer option \<times> ('o, 'l) memory" where
  "RotationPolicySpec_DeepCopy z lib = copy_pointer Specs specs zero_Spec (RotationPolicySpec_DeepCopyInto z lib)"

definition RotationPolicyStatus_DeepCopyInto ::
  "'o \<Rightarrow> ('o, 'l) copier \<Rightarrow> StatusM \<Rightarrow> ('o, 'l) memory \<Rightarrow> StatusM \<times> ('o, 'l) memory" where
  "RotationPolicyStatus_DeepCopyInto z lib x h =
     (let (conditions, h) = copy_slice_deep LibStructs libStructs z lib (sts_Conditions x) h
      in (x\<lparr>sts_Conditions := conditions\<rparr>, h))"

definition RotationPolicyStatus_DeepCopy ::
  "'o \<Rightarrow> ('o, 'l) copier \<Rightarrow> pointer option \<Rightarrow> ('o, 'l) memory \<Rightarrow> pointer option \<times> ('o, 'l) memory" where
  "RotationPolicyStatus_DeepCopy z lib =
     copy_pointer Statuses statuses zero_Status (RotationPolicyStatus_DeepCopyInto z lib)"

definition RotationPolicy_DeepCopyInto ::
  "'o \<Rightarrow> ('o, 'l) copier \<Rightarrow> 'o PolicyM \<Rightarrow> ('o, 'l) memory \<Rightarrow> 'o PolicyM \<times> ('o, 'l) memory" where
  "RotationPolicy_DeepCopyInto z lib x h =
     (let (meta, h) = lib (rps_ObjectMeta x) h;
          (spec, h) = RotationPolicySpec_DeepCopyInto z lib (rps_Spec x) h;
          (status, h) = RotationPolicyStatus_DeepCopyInto z lib (rps_Status x) h
      in (x\<lparr>rps_ObjectMeta := meta, rps_Spec := spec, rps_Status := status\<rparr>, h))"

definition RotationPolicy_DeepCopy ::
  "'o \<Rightarrow> ('o, 'l) copier \<Rightarrow> pointer option \<Rightarrow> ('o, 'l) memory \<Rightarrow> pointer option \<times> ('o, 'l) memory" where
  "RotationPolicy_DeepCopy z lib =
     copy_pointer Policies policies (zero_Policy z) (RotationPolicy_DeepCopyInto z lib)"

definition RotationPolicyList_DeepCopyInto ::
  "'o \<Rightarrow> ('o, 'l) copier \<Rightarrow> 'o PolicyListM \<Rightarrow> ('o, 'l) memory \<Rightarrow> 'o PolicyListM \<times> ('o, 'l) memory" where
  "RotationPolicyList_DeepCopyInto z lib x h =
     (let (meta, h) = lib (rls_ListMeta x) h;
          (items, h) = copy_slice_deep Policies policies (zero_Policy z) (RotationPolicy_DeepCopyInto z lib) (rls_Items x) h
      in (x\<lparr>rls_ListMeta := meta, rls_Items := items\<rparr>, h))"

definition RotationPolicyList_DeepCopy ::
  "'o \<Rightarrow> ('o, 'l) copier \<Rightarrow> pointer option \<Rightarrow> ('o, 'l) memory \<Rightarrow> pointer option \<times> ('o, 'l) memory" where
  "RotationPolicyList_DeepCopy z lib =
     copy_pointer PolicyLists policyLists (zero_PolicyList z) (RotationPolicyList_DeepCopyInto z lib)"

text \<open>
  An interface value is nil (\<open>None\<close>) or holds a pointer of some type; one that holds a nil pointer is not
  nil. \<open>DeepCopyObject\<close> is careful to give the nil interface for a nil pointer.
\<close>

datatype Object = APolicy "pointer option" | APolicyList "pointer option"

definition RotationPolicy_DeepCopyObject ::
  "'o \<Rightarrow> ('o, 'l) copier \<Rightarrow> pointer option \<Rightarrow> ('o, 'l) memory \<Rightarrow> Object option \<times> ('o, 'l) memory" where
  "RotationPolicy_DeepCopyObject z lib p h =
     (let (c, h) = RotationPolicy_DeepCopy z lib p h in (if c \<noteq> None then Some (APolicy c) else None, h))"

definition RotationPolicyList_DeepCopyObject ::
  "'o \<Rightarrow> ('o, 'l) copier \<Rightarrow> pointer option \<Rightarrow> ('o, 'l) memory \<Rightarrow> Object option \<times> ('o, 'l) memory" where
  "RotationPolicyList_DeepCopyObject z lib p h =
     (let (c, h) = RotationPolicyList_DeepCopy z lib p h in (if c \<noteq> None then Some (APolicyList c) else None, h))"

section \<open>What a struct says, and the memory it is read from\<close>

type_synonym WindowV = "string list option MaintenanceWindowS"
type_synonym RequirementsV = "string list option MatchNodeRequirementsS"
type_synonym SurgeV = "(int option, duration option, string list option) SurgeS"
type_synonym 'v SpecV = "('v option, int option, duration option, string list option, WindowV list option) SpecS"
type_synonym 'v StatusV = "'v list option StatusS"
type_synonym 'v PolicyV = "('v, 'v SpecV, 'v StatusV) RotationPolicyS"
type_synonym 'v PolicyListV = "('v, 'v PolicyV list option) RotationPolicyListS"

abbreviation val_strings where "val_strings \<equiv> val_slice strings val_plain"
abbreviation reach_strings where "reach_strings \<equiv> reach_slice strings reach_none"
abbreviation val_int32 where "val_int32 \<equiv> val_pointer int32s val_plain"
abbreviation reach_int32 where "reach_int32 \<equiv> reach_pointer int32s reach_none"
abbreviation val_duration where "val_duration \<equiv> val_pointer durations val_plain"
abbreviation reach_duration where "reach_duration \<equiv> reach_pointer durations reach_none"

definition val_Window :: "('o, 'l) memory \<Rightarrow> WindowM \<Rightarrow> WindowV" where
  "val_Window h x = \<lparr>mws_Timezone = mws_Timezone x, mws_Days = val_strings h (mws_Days x),
     mws_Start = mws_Start x, mws_End = mws_End x\<rparr>"
definition reach_Window :: "('o, 'l) memory \<Rightarrow> WindowM \<Rightarrow> nat set" where
  "reach_Window h x = reach_strings h (mws_Days x)"

definition val_Requirements :: "('o, 'l) memory \<Rightarrow> RequirementsM \<Rightarrow> RequirementsV" where
  "val_Requirements h x =
     \<lparr>mns_Required = val_strings h (mns_Required x), mns_Preferred = val_strings h (mns_Preferred x)\<rparr>"
definition reach_Requirements :: "('o, 'l) memory \<Rightarrow> RequirementsM \<Rightarrow> nat set" where
  "reach_Requirements h x = reach_strings h (mns_Required x) \<union> reach_strings h (mns_Preferred x)"

definition val_Surge :: "('o, 'l) memory \<Rightarrow> SurgeM \<Rightarrow> SurgeV" where
  "val_Surge h x =
     \<lparr>sus_MaxUnavailable = val_int32 h (sus_MaxUnavailable x),
      sus_ReadyTimeout = val_duration h (sus_ReadyTimeout x),
      sus_CooldownAfter = val_duration h (sus_CooldownAfter x),
      sus_FailurePause = val_duration h (sus_FailurePause x),
      sus_RetryBackoff = val_duration h (sus_RetryBackoff x),
      sus_MatchNodeRequirements = val_Requirements h (sus_MatchNodeRequirements x),
      sus_ForcefulFallback = sus_ForcefulFallback x, sus_WholeNodeReservation = sus_WholeNodeReservation x,
      sus_DrainEstimate = val_duration h (sus_DrainEstimate x),
      sus_ProvisioningEstimate = val_duration h (sus_ProvisioningEstimate x)\<rparr>"
definition reach_Surge :: "('o, 'l) memory \<Rightarrow> SurgeM \<Rightarrow> nat set" where
  "reach_Surge h x =
     reach_int32 h (sus_MaxUnavailable x) \<union> (reach_duration h (sus_ReadyTimeout x) \<union>
     (reach_duration h (sus_CooldownAfter x) \<union> (reach_duration h (sus_FailurePause x) \<union>
     (reach_duration h (sus_RetryBackoff x) \<union> (reach_Requirements h (sus_MatchNodeRequirements x) \<union>
     (reach_duration h (sus_DrainEstimate x) \<union> reach_duration h (sus_ProvisioningEstimate x)))))))"

definition val_Spec :: "(('o, 'l) memory \<Rightarrow> 'o \<Rightarrow> 'v) \<Rightarrow> ('o, 'l) memory \<Rightarrow> SpecM \<Rightarrow> 'v SpecV" where
  "val_Spec v h x =
     \<lparr>sps_NodePoolSelector = val_pointer libStructs v h (sps_NodePoolSelector x),
      sps_AgeThreshold = sps_AgeThreshold x,
      sps_MinRotationChances = val_int32 h (sps_MinRotationChances x),
      sps_MaintenanceWindows = val_slice windows val_Window h (sps_MaintenanceWindows x),
      sps_Surge = val_Surge h (sps_Surge x), sps_PrePull = sps_PrePull x\<rparr>"
definition reach_Spec :: "(('o, 'l) memory \<Rightarrow> 'o \<Rightarrow> nat set) \<Rightarrow> ('o, 'l) memory \<Rightarrow> SpecM \<Rightarrow> nat set" where
  "reach_Spec r h x =
     reach_pointer libStructs r h (sps_NodePoolSelector x) \<union> (reach_int32 h (sps_MinRotationChances x) \<union>
     (reach_slice windows reach_Window h (sps_MaintenanceWindows x) \<union> reach_Surge h (sps_Surge x)))"

definition val_Status :: "(('o, 'l) memory \<Rightarrow> 'o \<Rightarrow> 'v) \<Rightarrow> ('o, 'l) memory \<Rightarrow> StatusM \<Rightarrow> 'v StatusV" where
  "val_Status v h x =
     \<lparr>sts_ObservedGeneration = sts_ObservedGeneration x, sts_MatchedNodePools = sts_MatchedNodePools x,
      sts_RotatingNodePools = sts_RotatingNodePools x,
      sts_Conditions = val_slice libStructs v h (sts_Conditions x)\<rparr>"
definition reach_Status :: "(('o, 'l) memory \<Rightarrow> 'o \<Rightarrow> nat set) \<Rightarrow> ('o, 'l) memory \<Rightarrow> StatusM \<Rightarrow> nat set" where
  "reach_Status r h x = reach_slice libStructs r h (sts_Conditions x)"

definition val_Policy :: "(('o, 'l) memory \<Rightarrow> 'o \<Rightarrow> 'v) \<Rightarrow> ('o, 'l) memory \<Rightarrow> 'o PolicyM \<Rightarrow> 'v PolicyV" where
  "val_Policy v h x =
     \<lparr>rps_TypeMeta = rps_TypeMeta x, rps_ObjectMeta = v h (rps_ObjectMeta x),
      rps_Spec = val_Spec v h (rps_Spec x), rps_Status = val_Status v h (rps_Status x)\<rparr>"
definition reach_Policy :: "(('o, 'l) memory \<Rightarrow> 'o \<Rightarrow> nat set) \<Rightarrow> ('o, 'l) memory \<Rightarrow> 'o PolicyM \<Rightarrow> nat set" where
  "reach_Policy r h x = r h (rps_ObjectMeta x) \<union> (reach_Spec r h (rps_Spec x) \<union> reach_Status r h (rps_Status x))"

definition val_PolicyList :: "(('o, 'l) memory \<Rightarrow> 'o \<Rightarrow> 'v) \<Rightarrow> ('o, 'l) memory \<Rightarrow> 'o PolicyListM \<Rightarrow> 'v PolicyListV" where
  "val_PolicyList v h x =
     \<lparr>rls_TypeMeta = rls_TypeMeta x, rls_ListMeta = v h (rls_ListMeta x),
      rls_Items = val_slice policies (val_Policy v) h (rls_Items x)\<rparr>"
definition reach_PolicyList :: "(('o, 'l) memory \<Rightarrow> 'o \<Rightarrow> nat set) \<Rightarrow> ('o, 'l) memory \<Rightarrow> 'o PolicyListM \<Rightarrow> nat set" where
  "reach_PolicyList r h x = r h (rls_ListMeta x) \<union> reach_slice policies (reach_Policy r) h (rls_Items x)"

section \<open>Every generated method keeps the contract\<close>

interpretation toggle: deep_copier FeatureToggle_DeepCopyInto val_plain reach_none
  using plain.deep_copier_axioms by (simp add: FeatureToggle_DeepCopyInto_def [abs_def])

interpretation window: deep_copier MaintenanceWindow_DeepCopyInto val_Window reach_Window
  by (rule deep_copier_struct [where parts = mws_Days and with_parts = "\<lambda>x t. x\<lparr>mws_Days := t\<rparr>"
        and rest = "\<lambda>x d. \<lparr>mws_Timezone = mws_Timezone x, mws_Days = d, mws_Start = mws_Start x, mws_End = mws_End x\<rparr>",
        OF deep_copier_slice [where wrap = Strings and unwrap = strings]])
     (simp_all add: MaintenanceWindow_DeepCopyInto_def val_Window_def reach_Window_def)

interpretation requirements: deep_copier MatchNodeRequirements_DeepCopyInto val_Requirements reach_Requirements
  by (rule deep_copier_struct [where parts = "\<lambda>x. (mns_Required x, mns_Preferred x)"
        and with_parts = "\<lambda>x (a, b). x\<lparr>mns_Required := a, mns_Preferred := b\<rparr>"
        and rest = "\<lambda>x (a, b). \<lparr>mns_Required = a, mns_Preferred = b\<rparr>",
        OF deep_copier_both [OF deep_copier_slice [where wrap = Strings and unwrap = strings]
            deep_copier_slice [where wrap = Strings and unwrap = strings]]])
     (simp_all add: MatchNodeRequirements_DeepCopyInto_def val_Requirements_def reach_Requirements_def
        copy_both_def val_both_def reach_both_def split_def Let_def)

lemmas both_simps = copy_both_def val_both_def reach_both_def

lemma deep_copier_int32: "deep_copier copy_int32 val_int32 reach_int32"
  unfolding copy_int32_def by (rule deep_copier_pointer [OF plain.deep_copier_axioms]) simp

lemma deep_copier_duration: "deep_copier copy_duration val_duration reach_duration"
  unfolding copy_duration_def by (rule deep_copier_pointer [OF plain.deep_copier_axioms]) simp

interpretation surge: deep_copier Surge_DeepCopyInto val_Surge reach_Surge
  by (rule deep_copier_struct [where parts = "\<lambda>x. (sus_MaxUnavailable x, sus_ReadyTimeout x, sus_CooldownAfter x,
            sus_FailurePause x, sus_RetryBackoff x, sus_MatchNodeRequirements x, sus_DrainEstimate x, sus_ProvisioningEstimate x)"
        and with_parts = "\<lambda>x (a, b, c, d, e, f, i, j). x\<lparr>sus_MaxUnavailable := a, sus_ReadyTimeout := b,
            sus_CooldownAfter := c, sus_FailurePause := d, sus_RetryBackoff := e, sus_MatchNodeRequirements := f,
            sus_DrainEstimate := i, sus_ProvisioningEstimate := j\<rparr>"
        and rest = "\<lambda>x (a, b, c, d, e, f, i, j). \<lparr>sus_MaxUnavailable = a, sus_ReadyTimeout = b,
            sus_CooldownAfter = c, sus_FailurePause = d, sus_RetryBackoff = e, sus_MatchNodeRequirements = f,
            sus_ForcefulFallback = sus_ForcefulFallback x, sus_WholeNodeReservation = sus_WholeNodeReservation x,
            sus_DrainEstimate = i, sus_ProvisioningEstimate = j\<rparr>",
        OF deep_copier_both [OF deep_copier_int32 deep_copier_both [OF deep_copier_duration
           deep_copier_both [OF deep_copier_duration deep_copier_both [OF deep_copier_duration
           deep_copier_both [OF deep_copier_duration deep_copier_both [OF requirements.deep_copier_axioms
           deep_copier_both [OF deep_copier_duration deep_copier_duration]]]]]]]])
     (simp_all add: Surge_DeepCopyInto_def val_Surge_def reach_Surge_def both_simps split_def Let_def)

lemma deep_copier_Spec:
  assumes "deep_copier lib v r"
  shows "deep_copier (RotationPolicySpec_DeepCopyInto z lib) (val_Spec v) (reach_Spec r)"
  by (rule deep_copier_struct [where parts = "\<lambda>x. (sps_NodePoolSelector x, sps_MinRotationChances x, sps_MaintenanceWindows x, sps_Surge x)"
        and with_parts = "\<lambda>x (a, b, c, d). x\<lparr>sps_NodePoolSelector := a, sps_MinRotationChances := b,
            sps_MaintenanceWindows := c, sps_Surge := d\<rparr>"
        and rest = "\<lambda>x (a, b, c, d). \<lparr>sps_NodePoolSelector = a, sps_AgeThreshold = sps_AgeThreshold x,
            sps_MinRotationChances = b, sps_MaintenanceWindows = c, sps_Surge = d, sps_PrePull = sps_PrePull x\<rparr>",
        OF deep_copier_both [OF deep_copier_pointer [OF assms, where wrap = LibStructs and unwrap = libStructs]
           deep_copier_both [OF deep_copier_int32
           deep_copier_both [OF deep_copier_slice_deep [OF window.deep_copier_axioms, where wrap = Windows and unwrap = windows]
             surge.deep_copier_axioms]]]])
     (simp_all add: RotationPolicySpec_DeepCopyInto_def val_Spec_def reach_Spec_def both_simps split_def Let_def)

lemma deep_copier_Status:
  assumes "deep_copier lib v r"
  shows "deep_copier (RotationPolicyStatus_DeepCopyInto z lib) (val_Status v) (reach_Status r)"
  by (rule deep_copier_struct [where parts = sts_Conditions and with_parts = "\<lambda>x t. x\<lparr>sts_Conditions := t\<rparr>"
        and rest = "\<lambda>x c. \<lparr>sts_ObservedGeneration = sts_ObservedGeneration x, sts_MatchedNodePools = sts_MatchedNodePools x,
            sts_RotatingNodePools = sts_RotatingNodePools x, sts_Conditions = c\<rparr>",
        OF deep_copier_slice_deep [OF assms, where wrap = LibStructs and unwrap = libStructs]])
     (simp_all add: RotationPolicyStatus_DeepCopyInto_def val_Status_def reach_Status_def)

lemma deep_copier_Policy:
  assumes "deep_copier lib v r"
  shows "deep_copier (RotationPolicy_DeepCopyInto z lib) (val_Policy v) (reach_Policy r)"
  by (rule deep_copier_struct [where parts = "\<lambda>x. (rps_ObjectMeta x, rps_Spec x, rps_Status x)"
        and with_parts = "\<lambda>x (a, b, c). x\<lparr>rps_ObjectMeta := a, rps_Spec := b, rps_Status := c\<rparr>"
        and rest = "\<lambda>x (a, b, c). \<lparr>rps_TypeMeta = rps_TypeMeta x, rps_ObjectMeta = a, rps_Spec = b, rps_Status = c\<rparr>",
        OF deep_copier_both [OF assms deep_copier_both [OF deep_copier_Spec [OF assms] deep_copier_Status [OF assms]]]])
     (simp_all add: RotationPolicy_DeepCopyInto_def val_Policy_def reach_Policy_def both_simps split_def Let_def)

lemma deep_copier_PolicyList:
  assumes "deep_copier lib v r"
  shows "deep_copier (RotationPolicyList_DeepCopyInto z lib) (val_PolicyList v) (reach_PolicyList r)"
  by (rule deep_copier_struct [where parts = "\<lambda>x. (rls_ListMeta x, rls_Items x)"
        and with_parts = "\<lambda>x (a, b). x\<lparr>rls_ListMeta := a, rls_Items := b\<rparr>"
        and rest = "\<lambda>x (a, b). \<lparr>rls_TypeMeta = rls_TypeMeta x, rls_ListMeta = a, rls_Items = b\<rparr>",
        OF deep_copier_both [OF assms
          deep_copier_slice_deep [OF deep_copier_Policy [OF assms], where wrap = Policies and unwrap = policies]]])
     (simp_all add: RotationPolicyList_DeepCopyInto_def val_PolicyList_def reach_PolicyList_def both_simps split_def Let_def)

lemma pointer_copiers:
  "deep_copier FeatureToggle_DeepCopy (val_pointer toggles val_plain) (reach_pointer toggles reach_none)"
  "deep_copier MaintenanceWindow_DeepCopy (val_pointer windows val_Window) (reach_pointer windows reach_Window)"
  "deep_copier MatchNodeRequirements_DeepCopy (val_pointer requirements val_Requirements) (reach_pointer requirements reach_Requirements)"
  "deep_copier Surge_DeepCopy (val_pointer surges val_Surge) (reach_pointer surges reach_Surge)"
  unfolding FeatureToggle_DeepCopy_def MaintenanceWindow_DeepCopy_def MatchNodeRequirements_DeepCopy_def Surge_DeepCopy_def
  by (rule deep_copier_pointer [OF toggle.deep_copier_axioms] deep_copier_pointer [OF window.deep_copier_axioms]
      deep_copier_pointer [OF requirements.deep_copier_axioms] deep_copier_pointer [OF surge.deep_copier_axioms]; simp)+

lemma library_pointer_copiers:
  assumes "deep_copier lib v r"
  shows "deep_copier (RotationPolicySpec_DeepCopy z lib) (val_pointer specs (val_Spec v)) (reach_pointer specs (reach_Spec r))"
    and "deep_copier (RotationPolicyStatus_DeepCopy z lib) (val_pointer statuses (val_Status v)) (reach_pointer statuses (reach_Status r))"
    and "deep_copier (RotationPolicy_DeepCopy z lib) (val_pointer policies (val_Policy v)) (reach_pointer policies (reach_Policy r))"
    and "deep_copier (RotationPolicyList_DeepCopy z lib) (val_pointer policyLists (val_PolicyList v)) (reach_pointer policyLists (reach_PolicyList r))"
  unfolding RotationPolicySpec_DeepCopy_def RotationPolicyStatus_DeepCopy_def RotationPolicy_DeepCopy_def RotationPolicyList_DeepCopy_def
  by (rule deep_copier_pointer [OF deep_copier_Spec [OF assms]] deep_copier_pointer [OF deep_copier_Status [OF assms]]
      deep_copier_pointer [OF deep_copier_Policy [OF assms]] deep_copier_pointer [OF deep_copier_PolicyList [OF assms]]; simp)+

section \<open>Copies are independent\<close>

definition independent_copy ::
  "('x \<Rightarrow> 'c Memory \<Rightarrow> 'x \<times> 'c Memory) \<Rightarrow> ('c Memory \<Rightarrow> 'x \<Rightarrow> 'v) \<Rightarrow> ('c Memory \<Rightarrow> 'x \<Rightarrow> nat set) \<Rightarrow> bool" where
  "independent_copy copy val reach \<longleftrightarrow>
     (\<forall>h x y h'. placed h (reach h x) \<and> copy x h = (y, h') \<longrightarrow>
        val h' y = val h x \<and> reach h' x \<inter> reach h' y = {}
        \<and> (\<forall>g. same_at (- reach h' y) h' g \<longrightarrow> val g x = val h x)
        \<and> (\<forall>g. same_at (- reach h' x) h' g \<longrightarrow> val g y = val h x))"

lemma independent_copyI:
  assumes f: "deep_copier f v r"
  shows "independent_copy f v r"
  unfolding independent_copy_def
proof (intro allI impI, elim conjE)
  fix h x y h'
  assume p: "placed h (r h x)" and c: "f x h = (y, h')"
  from deep_copier.copies [OF f p c] deep_copier.independent [OF f p c]
  show "v h' y = v h x \<and> r h' x \<inter> r h' y = {} \<and> (\<forall>g. same_at (- r h' y) h' g \<longrightarrow> v g x = v h x)
      \<and> (\<forall>g. same_at (- r h' x) h' g \<longrightarrow> v g y = v h x)" by simp
qed

text \<open>
  C40. Deep copies are deep. Given that the library's own structs are copied deeply, every generated
  \<open>DeepCopy\<close>, of a policy, a list of policies or one of their parts, gives an object that says the same,
  shares no memory with the original, and keeps saying it whatever is written into the original; and
  the original keeps saying it whatever is written into the copy: who holds a copy may change it.
\<close>

theorem deep_copies_are_independent:
  assumes "deep_copier (lib :: ('o, 'l) copier) v r"
  shows "independent_copy (RotationPolicyList_DeepCopy z lib) (val_pointer policyLists (val_PolicyList v)) (reach_pointer policyLists (reach_PolicyList r))
    \<and> independent_copy (RotationPolicy_DeepCopy z lib) (val_pointer policies (val_Policy v)) (reach_pointer policies (reach_Policy r))
    \<and> independent_copy (RotationPolicySpec_DeepCopy z lib) (val_pointer specs (val_Spec v)) (reach_pointer specs (reach_Spec r))
    \<and> independent_copy (RotationPolicyStatus_DeepCopy z lib) (val_pointer statuses (val_Status v)) (reach_pointer statuses (reach_Status r))
    \<and> independent_copy (Surge_DeepCopy :: _ \<Rightarrow> ('o, 'l) memory \<Rightarrow> _) (val_pointer surges val_Surge) (reach_pointer surges reach_Surge)
    \<and> independent_copy (MatchNodeRequirements_DeepCopy :: _ \<Rightarrow> ('o, 'l) memory \<Rightarrow> _) (val_pointer requirements val_Requirements) (reach_pointer requirements reach_Requirements)
    \<and> independent_copy (MaintenanceWindow_DeepCopy :: _ \<Rightarrow> ('o, 'l) memory \<Rightarrow> _) (val_pointer windows val_Window) (reach_pointer windows reach_Window)
    \<and> independent_copy (FeatureToggle_DeepCopy :: _ \<Rightarrow> ('o, 'l) memory \<Rightarrow> _) (val_pointer toggles val_plain) (reach_pointer toggles reach_none)"
  by (intro conjI independent_copyI library_pointer_copiers [OF assms] pointer_copiers)

text \<open>
  A policy in memory whose window days are an array of their own, and a library struct that is a pointer
  to its data. After the copy the days of the original are overwritten in place.
\<close>

definition demo_copy_window :: WindowM where
  "demo_copy_window = zero_Window\<lparr>mws_Days := Some \<lparr>sl_Array = 2, sl_Offset = 0, sl_Len = 1, sl_Cap = 1\<rparr>\<rparr>"

definition demo_lib :: "(pointer option, string) copier" where
  "demo_lib = copy_pointer LibData libData '''' assign"

definition demo_memory :: "(pointer option, string) memory" where
  "demo_memory =
     \<lparr>mem = (\<lambda>a. if a = 0 then Policies [(zero_Policy None)\<lparr>rps_Spec := zero_Spec\<lparr>sps_MaintenanceWindows :=
                     Some \<lparr>sl_Array = 1, sl_Offset = 0, sl_Len = 1, sl_Cap = 1\<rparr>\<rparr>\<rparr>]
                 else if a = 1 then Windows [demo_copy_window]
                 else Strings [''sat'']),
      brk = 3\<rparr>"

definition demo_days :: "(pointer option, string) memory \<Rightarrow> pointer option \<Rightarrow> string list option list" where
  "demo_days h p =
     (case val_pointer policies (val_Policy (val_pointer libData val_plain)) h p of
        None \<Rightarrow> []
      | Some v \<Rightarrow> (case sps_MaintenanceWindows (rps_Spec v) of None \<Rightarrow> [] | Some ws \<Rightarrow> map mws_Days ws))"

lemmas demo_memory_simps = demo_memory_def demo_copy_window_def val_pointer_def val_Policy_def val_Spec_def
  val_Status_def val_Surge_def val_Requirements_def val_Window_def val_slice_def val_plain_def elements_def
  load_def index_def zero_Policy_def zero_Spec_def zero_Surge_def zero_Requirements_def zero_Status_def
  zero_Window_def zero_Toggle_def zero_TypeMeta_def reach_pointer_def reach_Policy_def reach_Spec_def
  reach_Status_def reach_Surge_def reach_Requirements_def reach_Window_def reach_slice_def reach_none_def

theorem deep_copies_are_independent_witness:
  "\<exists>q h'. RotationPolicy_DeepCopy None demo_lib (Some (0, 0)) demo_memory = (q, h')
     \<and> (let g = store Strings strings (2, 0) ''sun'' h'
        in demo_days g q = [Some [''sat'']] \<and> demo_days g (Some (0, 0)) = [Some [''sun'']])"
proof -
  let ?v = "val_pointer libData val_plain" and ?r = "reach_pointer libData reach_none"
  let ?val = "val_pointer policies (val_Policy ?v)" and ?reach = "reach_pointer policies (reach_Policy ?r)"
  obtain q h' where c: "RotationPolicy_DeepCopy None demo_lib (Some (0, 0)) demo_memory = (q, h')" by fastforce
  let ?g = "store Strings strings (2, 0) ''sun'' h'"
  have lib: "deep_copier demo_lib ?v ?r"
    unfolding demo_lib_def by (rule deep_copier_pointer [OF plain.deep_copier_axioms]) simp
  have pl: "placed demo_memory (?reach demo_memory (Some (0, 0)))" and two: "2 \<in> ?reach demo_memory (Some (0, 0))"
    by (simp_all add: demo_memory_simps placed_def)
  from deep_copies_are_independent [OF lib, of None]
  have "independent_copy (RotationPolicy_DeepCopy None demo_lib) ?val ?reach" by blast
  with pl c have ind: "same_at (- ?reach h' (Some (0, 0))) h' ?g \<longrightarrow> ?val ?g q = ?val demo_memory (Some (0, 0))"
    unfolding independent_copy_def by blast
  note pc = library_pointer_copiers(3) [OF lib, of None]
  have e: "extends demo_memory h'" using deep_copier.copies [OF pc pl c] by blast
  then have "?reach h' (Some (0, 0)) = ?reach demo_memory (Some (0, 0))" by (rule deep_copier.later(2) [OF pc pl])
  with two have "same_at (- ?reach h' (Some (0, 0))) h' ?g" by (auto simp: same_at_def store_def)
  with ind have "?val ?g q = ?val demo_memory (Some (0, 0))" by blast
  then have "demo_days ?g q = demo_days demo_memory (Some (0, 0))" by (simp add: demo_days_def)
  moreover have "demo_days demo_memory (Some (0, 0)) = [Some [''sat'']]"
    by (simp add: demo_days_def demo_memory_simps)
  moreover have "demo_days ?g (Some (0, 0)) = [Some [''sun'']]"
  proof -
    have "mem h' a = mem demo_memory a" if "a < 3" for a
      using e that by (simp add: extends_def same_at_def demo_memory_def)
    then have "mem h' 0 = mem demo_memory 0" "mem h' 1 = mem demo_memory 1" "mem h' 2 = mem demo_memory 2" by simp_all
    then show ?thesis by (simp add: demo_days_def demo_memory_simps store_def)
  qed
  ultimately show ?thesis using c by (simp add: Let_def)
qed

text \<open>The object of a nil pointer is the nil interface, not an interface that holds a nil pointer.\<close>

lemma nil_object_iff:
  "fst (RotationPolicy_DeepCopyObject z lib p h) = None \<longleftrightarrow> p = None"
  "fst (RotationPolicyList_DeepCopyObject z lib q h) = None \<longleftrightarrow> q = None"
  by (auto simp: RotationPolicy_DeepCopyObject_def RotationPolicyList_DeepCopyObject_def
      RotationPolicy_DeepCopy_def RotationPolicyList_DeepCopy_def copy_pointer_def Let_def split: prod.splits option.splits)

section \<open>The spec the rest of the development reads\<close>

text \<open>A nil slice and an empty one read the same.\<close>

definition flat :: "'a list option \<Rightarrow> 'a list" where
  "flat xs = (case xs of None \<Rightarrow> [] | Some xs \<Rightarrow> xs)"

definition api_window :: "WindowV \<Rightarrow> ApiMaintenanceWindow" where
  "api_window w = \<lparr>amw_Timezone = mws_Timezone w, amw_Days = flat (mws_Days w), amw_Start = mws_Start w, amw_End = mws_End w\<rparr>"

definition api_surge :: "SurgeV \<Rightarrow> ApiSurge" where
  "api_surge s =
     \<lparr>as_MaxUnavailable = sus_MaxUnavailable s, as_ReadyTimeout = sus_ReadyTimeout s,
      as_CooldownAfter = sus_CooldownAfter s, as_FailurePause = sus_FailurePause s, as_RetryBackoff = sus_RetryBackoff s,
      as_MatchNodeRequirements = \<lparr>amnr_Required = flat (mns_Required (sus_MatchNodeRequirements s)),
        amnr_Preferred = flat (mns_Preferred (sus_MatchNodeRequirements s))\<rparr>,
      as_ForcefulFallback = sus_ForcefulFallback s, as_WholeNodeReservation = sus_WholeNodeReservation s,
      as_DrainEstimate = sus_DrainEstimate s, as_ProvisioningEstimate = sus_ProvisioningEstimate s\<rparr>"

definition api_spec :: "'s SpecV \<Rightarrow> 's RotationPolicySpec" where
  "api_spec s =
     \<lparr>sp_NodePoolSelector = sps_NodePoolSelector s, sp_AgeThreshold = sps_AgeThreshold s,
      sp_MinRotationChances = sps_MinRotationChances s,
      sp_MaintenanceWindows = map api_window (flat (sps_MaintenanceWindows s)),
      sp_Surge = api_surge (sps_Surge s), sp_PrePull = sps_PrePull s\<rparr>"

text \<open>So a copied spec converts to the same policy, or fails with the same errors.\<close>

lemma copied_spec_converts_alike:
  assumes "deep_copier lib v r" "placed h (reach_Spec r h x)" "RotationPolicySpec_DeepCopyInto z lib x h = (y, h')"
  shows "ToPolicy loc (api_spec (val_Spec v h' y)) = ToPolicy loc (api_spec (val_Spec v h x))"
  using deep_copier.copies [OF deep_copier_Spec [OF assms(1)] assms(2,3)] by simp

end
