(* ===== verification/Spec2Isabelle.thy ===== *)
theory Spec2Isabelle
  imports Conditional Safety Footprint Orphans Reentry Lifecycle Promise Warnings PolicyStatus Watches Metrics
    SimParity SimDeadlines SimLegal SimApi Startup DeepCopies
begin

text \<open>
  A verification library of node-rotation-controller, a Kubernetes controller that rotates the nodes of
  Karpenter NodePools inside maintenance windows, before Karpenter would expire them by force. It takes
  up one NodeClaim at a time per NodePool: it stages a replacement with a low-priority placeholder Pod,
  waits until the surge node is Ready, deletes the old claim, waits for its drain, and releases the pool.
  Its durable state is annotations on the NodePool (the anchor of the rotation in flight, the times of the
  last success and failure) and on the NodeClaim (state, retry count). Every definition is a translation
  of the Go code named in its theory; the theorems are about those definitions.

  \<^bold>\<open>The parts and how they interact.\<close> A pass over a NodePool (\<open>Reconcile\<close>) finds the policy that governs
  it (internal/resolve), derives thresholds from the policy, the window schedule and the NodePool's
  template (internal/schedule, internal/window, internal/policy, internal/crd), projects the NodeClaims
  onto views (internal/adapt), and then either drives the rotation in flight one step, or asks the start
  gates (internal/decide) and the selection (internal/selection) for a candidate, sizes its placeholder
  (internal/surge) and starts it. Before the first pass a sweep undoes what a crash left behind. Beside it
  run the status writer of the policies, the warning emitter, the metrics, and, in the browser, a
  simulator that asks the same gates, selection and schedule derivation on a virtual clock.

  \<^bold>\<open>The theories, from the ground up.\<close>
  \<^item> \<open>Prelude\<close>, \<open>Float64\<close>, \<open>GoTime\<close>, \<open>GoText\<close>: Go's 64-bit integers with their wrap-around written out,
    \<open>float64\<close> on integers, instants and durations, RFC 3339, the parsers of the standard library.
  \<^item> \<open>Ranking\<close>: the locales of the loop that keeps the best element seen, interpreted by the selection and
    by the search for the induced claim.
  \<^item> \<open>Annotations\<close>, \<open>Selection\<close>, \<open>Decide\<close>, \<open>Schedule\<close>, \<open>Policy\<close>, \<open>Window\<close>: the packages of the same names
    under internal/, with the spec and status types of api/v1alpha1. \<open>Selection\<close> shows that the pick is
    the eligible claim of the earliest deadline and that the back-off ladder stays inside the window;
    \<open>Window\<close> shows the occurrence bounds and the weekly quantities exact against the membership
    predicate; \<open>Policy\<close> shows what a validated policy guarantees.
  \<^item> \<open>Promise\<close>: what a schedule without a fatal finding promises in openings of the windows: so many
    between the instant a node becomes eligible and its deadline.
  \<^item> \<open>K8s\<close>, \<open>Surge\<close>, \<open>Placeholder\<close>, \<open>NodeOps\<close>, \<open>Resolve\<close>: the objects of the API with the fields the code
    uses, the sizing and the placeholder of internal/surge, the node mutators, the resolution.
  \<^item> \<open>Client\<close>, \<open>Writes\<close>, \<open>Thresholds\<close>, \<open>Rotation\<close>, \<open>Sweep\<close>: internal/controller as programs over an API
    client. A program maps the number of calls made so far to its result, the new number and its trace.
    \<open>Rotation\<close> has one definition per handler of rotation_controller.go, \<open>Sweep\<close> those of sweep.go.
  \<^item> \<open>Protocol\<close>, \<open>Conditional\<close>, \<open>Lawful\<close>, \<open>Pass\<close>, \<open>Once\<close>, \<open>Footprint\<close>, \<open>Safety\<close>: step relations on the
    annotations, a judgement on traces composed along a program, and what it gives for a whole pass
    whatever the API server answers: deletions are justified, starts pass every gate, writes follow the
    protocol, a success is announced only when it was earned, and at most once per version of the
    NodePool that the pass released.
  \<^item> \<open>Cluster\<close>, \<open>Outcome\<close>, \<open>Orphans\<close>, \<open>Reentry\<close>, \<open>Lifecycle\<close>: a cluster that serves the calls of a trace,
    and what the programs leave in it; termination of the one recursion; the refinement of a pass to an
    abstract machine of one NodePool. \<open>Outcome\<close> goes through every program that ends a rotation and says
    which of them leave nothing behind and which drop the anchor alone; \<open>Lifecycle\<close> pins the number of
    successes a pass announces: one for a completed rotation, none for one given up or released.
  \<^item> \<open>Warnings\<close>, \<open>PolicyStatus\<close>, \<open>Watches\<close>, \<open>Metrics\<close>, \<open>Preflight\<close>: warnings.go and transitions.go,
    policystatus.go, the watches of both reconcilers, internal/metrics, internal/preflight. The
    emitter and the recorder are folds over the calls a pass makes; their theorems compare them with a
    reference over the whole history of calls.
  \<^item> \<open>Simulator\<close>, \<open>SimLoop\<close>: internal/sim, its resolution, run state and clock. \<open>SimRelay\<close> holds the
    invariant that keeps every index in range, and the locale \<open>clock\<close>, which lifts what one round keeps to
    a whole run; \<open>SimTimeline\<close>, \<open>SimHistory\<close>, \<open>SimLegal\<close> and \<open>SimDeadlines\<close> interpret it: the timeline is
    a relay of generations, nothing lies beyond the horizon, rotations are legal, and the marks of broken
    deadlines are those of the generations that broke theirs, each marked once.
    \<open>SimParity\<close> compares its decisions with those of the controller, \<open>SimExample\<close> is a run to compute with.
  \<^item> \<open>SimApi\<close>: internal/simapi and the argument check of cmd/wasm, from the request's fields to the JSON
    value of the response, and back: a reader that follows the interfaces of the page
    (docs/.vitepress/theme/components/simulator/model.ts) finds every entry of the timeline under its name.
  \<^item> \<open>Startup\<close>: cmd/main.go with its command line, internal/scheme and groupversion_info.go, up to the requests
    a process serves: the manager starts exactly when every check before it passed, and every request is a
    pass the safety theorems are about.
  \<^item> \<open>GoHeap\<close>, \<open>DeepCopies\<close>: the generated copies of api/v1alpha1 on a memory of arrays, pointers and slices.
    The locale \<open>deep_copier\<close> is the contract of a copy; it is composed along the shapes the generator emits
    and interpreted by the structs of the package.

  \<^bold>\<open>Conventions.\<close> A struct is a record, a set of named constants a datatype, a nil pointer \<open>None\<close>, an error a
  constructor that keeps the values of its message; a panic is \<open>None\<close> of an option result. A map that is
  read by key is a partial function, one that is iterated a finite map. Library calls are parameters, and
  what a proof needs of them is a hypothesis of its theorem: the API server (\<open>Api\<close>, one answer function
  per kind of call, different at every call), label selectors, \<open>time.LoadLocation\<close>, SHA-256,
  \<open>meta.SetStatusCondition\<close>, discovery, the YAML and JSON decoders, the deep copies of the machinery's own
  structs, the answers of the manager's set-up. Objects are values everywhere but in \<open>DeepCopies\<close>, whose
  theorem is what allows that: no copy shares memory with what it was copied from. \<open>keyed\<close> says that a cluster
  stores every object under its own name; \<open>runs\<close> that a cluster served a trace with the documented
  semantics of versioned updates and deletions, and that nobody else wrote meanwhile.

  \<^bold>\<open>Bounds and fuel.\<close> \<open>retry.RetryOnConflict\<close> is modelled by its documented behaviour with the number of
  attempts as a parameter, so a theorem holds for every number. The recursion of \<open>advance\<close> through
  \<open>advanceFailed\<close> has a fuel argument; two units are enough in a cluster nobody else writes to
  (\<open>Reentry\<close>), and the safety theorems hold for any fuel. The simulator needs none: its loop is bounded by
  the code's own \<open>maxSteps\<close>. Searches over the schedule are bounded by the code's own horizons.

  \<^bold>\<open>Not modelled.\<close> Log lines; the fixed English text of messages, findings and events; the zone in which an
  instant would be printed (the containers run in UTC; the simulator formats the end of a rotation in
  the zone of its input, which names the same instant); the context of a call and its cancellation; the
  delivery of watch events and the work queue, which are the manager's; the registration of metrics; the
  YAML and JSON texts, with the replacement of bytes that are not UTF-8 in a JSON string; leader election,
  the manager's own; the loop of cmd/wasm that keeps the module alive. Where a policy leaves out a field
  that has a default, \<open>ApplyDefaults\<close> fills the pointer before anything reads it; reading an empty one,
  which would panic, gives 0 in the model.
\<close>

end
